(* ===== verification/Etha_Prelude.thy ===== *)
theory Etha_Prelude
  imports Main "HOL-Library.AList" "HOL-Library.Multiset" "HOL-Library.Char_ord" "HOL-Library.List_Lexorder"
begin

text \<open>
  Shared vocabulary of the development: Python exceptions as values, the result type of
  fallible code, Python dictionaries as insertion-ordered association lists, \<open>sorted\<close> of
  a set, \<open>itertools.product\<close> over ranges and its row-major enumeration. The simp
  collections \<open>res_simps\<close> and \<open>dict_simps\<close> carry the component proofs.
\<close>

named_theorems res_simps \<open>unfolding of the result monad\<close>
named_theorems dict_simps \<open>lookup after dictionary updates\<close>

section \<open>Exceptions and results\<close>

datatype py_error =
    IndexError | KeyError | ValueError | TypeError | ZeroDivisionError | StructError
  | AssertionError | NotImplementedError | RuntimeError | TimeoutError | ConnectionError
  | QueueFullError | InvalidRegistrationError | AttributeError | ExistentialError

type_synonym 'a result = "py_error + 'a"

fun res_bind :: "'a result \<Rightarrow> ('a \<Rightarrow> 'b result) \<Rightarrow> 'b result" where
  "res_bind (Inl e) f = Inl e"
| "res_bind (Inr x) f = f x"

fun res_mapM :: "('a \<Rightarrow> 'b result) \<Rightarrow> 'a list \<Rightarrow> 'b list result" where
  "res_mapM f [] = Inr []"
| "res_mapM f (x # xs) = res_bind (f x) (\<lambda>y. res_bind (res_mapM f xs) (\<lambda>ys. Inr (y # ys)))"

lemma res_bind_Inr_iff [res_simps]:
  "res_bind r f = Inr y \<longleftrightarrow> (\<exists>x. r = Inr x \<and> f x = Inr y)"
  by (cases r) auto

lemma res_bind_Inl_iff [res_simps]:
  "res_bind r f = Inl e \<longleftrightarrow> r = Inl e \<or> (\<exists>x. r = Inr x \<and> f x = Inl e)"
  by (cases r) auto

lemma res_mapM_Inr: "(\<And>x. x \<in> set xs \<Longrightarrow> f x = Inr (g x)) \<Longrightarrow> res_mapM f xs = Inr (map g xs)"
  by (induction xs) auto

lemma res_mapM_length: "res_mapM f xs = Inr ys \<Longrightarrow> length ys = length xs"
  by (induction xs arbitrary: ys) (auto simp: res_simps)

lemma res_mapM_nth:
  "res_mapM f xs = Inr ys \<Longrightarrow> i < length xs \<Longrightarrow> f (xs ! i) = Inr (ys ! i)"
  by (induction xs arbitrary: ys i) (auto simp: res_simps nth_Cons split: nat.splits)

text \<open>List subscript with a non-negative index: \<open>xs[i]\<close> raises out of range.\<close>

definition py_nth :: "'a list \<Rightarrow> nat \<Rightarrow> 'a result" where
  "py_nth xs i = (if i < length xs then Inr (xs ! i) else Inl IndexError)"

text \<open>Floor division of non-negative integers.\<close>

definition py_div :: "nat \<Rightarrow> nat \<Rightarrow> nat result" where
  "py_div a b = (if b = 0 then Inl ZeroDivisionError else Inr (a div b))"

lemma py_nth_simps [res_simps]:
  "i < length xs \<Longrightarrow> py_nth xs i = Inr (xs ! i)"
  "\<not> i < length xs \<Longrightarrow> py_nth xs i = Inl IndexError"
  by (simp_all add: py_nth_def)

lemma py_nth_Inr [res_simps]: "py_nth xs i = Inr y \<longleftrightarrow> i < length xs \<and> y = xs ! i"
  by (auto simp: py_nth_def)

lemma py_div_Inr [res_simps]: "py_div a b = Inr y \<longleftrightarrow> b \<noteq> 0 \<and> y = a div b"
  by (auto simp: py_div_def)

text \<open>The positions \<open>enumerate\<close> gives the elements with a property.\<close>

lemma map_fst_filter_zip_upt:
  "map fst (filter (\<lambda>(d, x). P x) (zip [0..<length xs] xs)) = filter (\<lambda>i. P (xs ! i)) [0..<length xs]"
proof (induction xs rule: rev_induct)
  case (snoc x xs)
  have "filter (\<lambda>i. P ((xs @ [x]) ! i)) [0..<length xs] = filter (\<lambda>i. P (xs ! i)) [0..<length xs]"
    by (rule filter_cong) (auto simp: nth_append)
  then show ?case using snoc by simp
qed simp

section \<open>Sorting a set\<close>

text \<open>\<open>sorted(set(xs))\<close>: the canonical list of the members.\<close>

definition sorted_set :: "'a::linorder list \<Rightarrow> 'a list" where
  "sorted_set xs = sort (remdups xs)"

lemma set_sorted_set [simp]: "set (sorted_set xs) = set xs"
  by (simp add: sorted_set_def)

lemma sorted_sorted_set [simp]: "sorted (sorted_set xs)"
  by (simp add: sorted_set_def)

lemma distinct_sorted_set [simp]: "distinct (sorted_set xs)"
  by (simp add: sorted_set_def)

lemma sorted_set_cong: "set xs = set ys \<Longrightarrow> sorted_set xs = sorted_set ys"
  by (rule sorted_distinct_set_unique) simp_all

lemma sorted_set_idem [simp]: "sorted_set (sorted_set xs) = sorted_set xs"
  by (rule sorted_set_cong) simp

lemma sorted_set_eq_iff: "sorted_set xs = sorted_set ys \<longleftrightarrow> set xs = set ys"
  by (metis set_sorted_set sorted_set_cong)

lemma sorted_set_Nil_iff [simp]: "sorted_set xs = [] \<longleftrightarrow> xs = []"
  by (metis set_empty set_sorted_set)

section \<open>Dictionaries\<close>

text \<open>
  A Python dictionary iterates in insertion order and an assignment to an existing key keeps
  its position: exactly \<^const>\<open>AList.update\<close> on association lists.
\<close>

type_synonym ('k, 'v) dict = "('k \<times> 'v) list"

abbreviation dict_get :: "('k, 'v) dict \<Rightarrow> 'k \<Rightarrow> 'v option" where
  "dict_get d k \<equiv> map_of d k"

abbreviation dict_set :: "('k, 'v) dict \<Rightarrow> 'k \<Rightarrow> 'v \<Rightarrow> ('k, 'v) dict" where
  "dict_set d k v \<equiv> AList.update k v d"

abbreviation dict_del :: "('k, 'v) dict \<Rightarrow> 'k \<Rightarrow> ('k, 'v) dict" where
  "dict_del d k \<equiv> AList.delete k d"

definition dict_keys :: "('k, 'v) dict \<Rightarrow> 'k list" where
  "dict_keys d = map fst d"

definition dict_get_or :: "('k, 'v) dict \<Rightarrow> 'k \<Rightarrow> 'v \<Rightarrow> 'v" where
  "dict_get_or d k v = (case dict_get d k of None \<Rightarrow> v | Some x \<Rightarrow> x)"

lemma dict_get_set [dict_simps]: "dict_get (dict_set d k v) k' = (if k' = k then Some v else dict_get d k')"
  by (simp add: update_conv)

lemma dict_get_del [dict_simps]: "dict_get (dict_del d k) k' = (if k' = k then None else dict_get d k')"
  by (simp add: delete_conv)

lemma dict_get_or_set [dict_simps]:
  "dict_get_or (dict_set d k v) k' w = (if k' = k then v else dict_get_or d k' w)"
  by (simp add: dict_get_or_def dict_simps)

lemma dict_keys_Nil [simp]: "dict_keys [] = []"
  by (simp add: dict_keys_def)

lemma set_dict_keys: "set (dict_keys d) = dom (map_of d)"
  by (simp add: dict_keys_def dom_map_of_conv_image_fst)

lemma dict_keys_set: "dict_keys (dict_set d k v) = (if k \<in> set (dict_keys d) then dict_keys d else dict_keys d @ [k])"
  unfolding dict_keys_def by (induction d) auto

lemma distinct_dict_keys_set [simp]: "distinct (dict_keys d) \<Longrightarrow> distinct (dict_keys (dict_set d k v))"
  by (simp add: dict_keys_set)

lemma set_dict_set_subset: "set (dict_set d k v) \<subseteq> insert (k, v) (set d)"
  by (induction d) auto

section \<open>Multi-indices\<close>

text \<open>
  \<open>itertools.product(*[range(s) for s in shape])\<close>: every multi-index of a grid, the last
  coordinate varying fastest, and the row-major position of a multi-index.
\<close>

definition grid :: "nat list \<Rightarrow> nat list list" where
  "grid shape = product_lists (map (\<lambda>s. [0..<s]) shape)"

fun ravel :: "nat list \<Rightarrow> nat list \<Rightarrow> nat" where
  "ravel (s # ss) (i # is) = i * prod_list ss + ravel ss is"
| "ravel _ _ = 0"

definition in_shape :: "nat list \<Rightarrow> nat list \<Rightarrow> bool" where
  "in_shape shape idx \<longleftrightarrow> list_all2 (\<lambda>i s. i < s) idx shape"

lemma grid_Nil [simp]: "grid [] = [[]]"
  by (simp add: grid_def)

lemma grid_Cons: "grid (s # ss) = concat (map (\<lambda>i. map ((#) i) (grid ss)) [0..<s])"
  by (simp add: grid_def)

lemma in_shape_Nil [simp]: "in_shape [] idx \<longleftrightarrow> idx = []"
  by (simp add: in_shape_def)

lemma in_shape_Cons [simp]: "in_shape (s # ss) (i # is) \<longleftrightarrow> i < s \<and> in_shape ss is"
  by (simp add: in_shape_def)

lemma in_shape_length: "in_shape shape idx \<Longrightarrow> length idx = length shape"
  by (simp add: in_shape_def list_all2_lengthD)

lemma in_shape_nth: "in_shape shape idx \<longleftrightarrow> length idx = length shape \<and> (\<forall>i < length shape. idx ! i < shape ! i)"
  by (auto simp: in_shape_def list_all2_conv_all_nth)

lemma in_shape_member_less:
  assumes "in_shape shape idx" "x \<in> set idx"
  shows "\<exists>n \<in> set shape. x < n"
proof -
  obtain i where "i < length idx" "x = idx ! i" using assms(2) by (auto simp: in_set_conv_nth)
  then show ?thesis using assms(1) by (auto simp: in_shape_nth intro!: bexI [of _ "shape ! i"])
qed

lemma set_grid: "set (grid shape) = {idx. in_shape shape idx}"
proof (induction shape)
  case (Cons s ss)
  have "idx \<in> set (grid (s # ss)) \<longleftrightarrow> in_shape (s # ss) idx" for idx
    using Cons by (cases idx) (auto simp: grid_Cons in_shape_def)
  then show ?case by blast
qed simp

lemma in_grid [simp]: "idx \<in> set (grid shape) \<longleftrightarrow> in_shape shape idx"
  by (simp add: set_grid)

lemma length_grid [simp]: "length (grid shape) = prod_list shape"
  by (induction shape) (simp_all add: grid_Cons length_concat comp_def sum_list_triv)

lemma distinct_grid: "distinct (grid shape)"
  unfolding grid_def by (rule distinct_product_lists) auto

lemma upt_blocks: "concat (map (\<lambda>i. map (\<lambda>j. i * n + j) [0..<n]) [0..<m]) = [0..<m * n]"
proof (induction m)
  case (Suc m)
  have "map (\<lambda>j. m * n + j) [0..<n] = [m * n..<n + m * n]"
    using map_add_upt [of "m * n" n] by (simp add: add.commute)
  moreover have "[0..<Suc m * n] = [0..<m * n] @ [m * n..<n + m * n]"
    using upt_add_eq_append [of 0 "m * n" n] by (simp add: add.commute)
  ultimately show ?case using Suc by simp
qed simp

lemma ravel_grid: "map (ravel shape) (grid shape) = [0..<prod_list shape]"
proof (induction shape)
  case (Cons s ss)
  have "map (ravel (s # ss)) (grid (s # ss))
      = concat (map (\<lambda>i. map (\<lambda>j. i * prod_list ss + j) (map (ravel ss) (grid ss))) [0..<s])"
    by (simp add: grid_Cons map_concat comp_def)
  also have "\<dots> = concat (map (\<lambda>i. map (\<lambda>j. i * prod_list ss + j) [0..<prod_list ss]) [0..<s])"
    by (simp only: Cons)
  also have "\<dots> = [0..<s * prod_list ss]"
    by (rule upt_blocks)
  finally show ?case by simp
qed simp

lemma ravel_bound: "in_shape shape idx \<Longrightarrow> ravel shape idx < prod_list shape"
proof -
  assume "in_shape shape idx"
  then have "ravel shape idx \<in> set (map (ravel shape) (grid shape))"
    by (simp add: set_grid)
  then show ?thesis by (simp only: ravel_grid) simp
qed

lemma ravel_inj: "in_shape shape a \<Longrightarrow> in_shape shape b \<Longrightarrow> ravel shape a = ravel shape b \<Longrightarrow> a = b"
proof -
  have "inj_on (ravel shape) (set (grid shape))"
    using distinct_map [of "ravel shape" "grid shape"] by (simp add: ravel_grid)
  then show "in_shape shape a \<Longrightarrow> in_shape shape b \<Longrightarrow> ravel shape a = ravel shape b \<Longrightarrow> a = b"
    by (auto simp: inj_on_def)
qed

lemma grid_nth_ravel: "in_shape shape idx \<Longrightarrow> grid shape ! ravel shape idx = idx"
proof -
  assume h: "in_shape shape idx"
  let ?k = "ravel shape idx"
  have k: "?k < prod_list shape" using h by (rule ravel_bound)
  have "map (ravel shape) (grid shape) ! ?k = ?k"
    using k by (simp only: ravel_grid) simp
  then have e: "ravel shape (grid shape ! ?k) = ?k" using k by simp
  have "in_shape shape (grid shape ! ?k)"
    using k in_grid nth_mem length_grid by metis
  then show ?thesis using ravel_inj h e by blast
qed

end
