(* ===== verification/Pg_Utils.thy ===== *)
theory Pg_Utils
  imports Etha_Prelude
begin

text \<open>
  The process-group cache of \<^verbatim>\<open>src/etha/pg_utils.py\<close>. \<open>dist.new_group\<close> is collective on
  WORLD and names a new group by a per-process counter, so the state keeps the sequence of
  \<open>new_group\<close> calls this process issued; the handle of a group is the number of its call.
  Two processes are wired consistently exactly when their call sequences agree.
\<close>

type_synonym group_handle = nat

record pg_state =
  pg_cache :: "(nat list, group_handle) dict"   \<comment> \<open>\<open>_PROCESS_GROUP_CACHE\<close>\<close>
  pg_calls :: "nat list list"                    \<comment> \<open>arguments of \<open>dist.new_group\<close>, in order\<close>

definition pg_init :: pg_state where
  "pg_init = \<lparr>pg_cache = [], pg_calls = []\<rparr>"

text \<open>\<open>dist.new_group(ranks)\<close>: the next group of the per-process counter.\<close>

definition new_group :: "nat list \<Rightarrow> pg_state \<Rightarrow> group_handle \<times> pg_state" where
  "new_group ranks st = (length (pg_calls st), st\<lparr>pg_calls := pg_calls st @ [ranks]\<rparr>)"

definition get_or_create_process_group :: "nat list \<Rightarrow> pg_state \<Rightarrow> group_handle \<times> pg_state" where
  "get_or_create_process_group ranks st =
     (let key = sorted_set ranks in
      case dict_get (pg_cache st) key of
        Some g \<Rightarrow> (g, st)
      | None \<Rightarrow>
          (let (g, st') = new_group key st
           in (g, st'\<lparr>pg_cache := dict_set (pg_cache st') key g\<rparr>)))"

text \<open>A loop of requests whose handles are dropped, as the prewarm pass makes.\<close>

definition create_groups :: "nat list list \<Rightarrow> pg_state \<Rightarrow> pg_state" where
  "create_groups rss st = fold (\<lambda>rs s. snd (get_or_create_process_group rs s)) rss st"

section \<open>The cache invariant\<close>

text \<open>
  Every cached handle is the number of the one \<open>new_group\<close> call for its key, and every
  call is for a canonical key: the cache is a function of the call sequence.
\<close>

definition pg_ok :: "pg_state \<Rightarrow> bool" where
  "pg_ok st \<longleftrightarrow> distinct (pg_calls st) \<and> pg_cache st = zip (pg_calls st) [0..<length (pg_calls st)]"

lemma pg_ok_init [simp]: "pg_ok pg_init"
  by (simp add: pg_ok_def pg_init_def)

lemma dict_set_fresh: "k \<notin> set (dict_keys d) \<Longrightarrow> dict_set d k v = d @ [(k, v)]"
  by (induction d) (auto simp: dict_keys_def)

lemma pg_ok_keys: "pg_ok st \<Longrightarrow> dict_keys (pg_cache st) = pg_calls st"
  by (simp add: pg_ok_def dict_keys_def)

lemma pg_lookup_Some:
  assumes "pg_ok st"
  shows "dict_get (pg_cache st) key = Some g \<longleftrightarrow> g < length (pg_calls st) \<and> pg_calls st ! g = key"
proof -
  have d: "distinct (map fst (pg_cache st))" and z: "pg_cache st = zip (pg_calls st) [0..<length (pg_calls st)]"
    using assms by (simp_all add: pg_ok_def)
  from d have "dict_get (pg_cache st) key = Some g \<longleftrightarrow> (key, g) \<in> set (pg_cache st)"
    by simp
  also have "\<dots> \<longleftrightarrow> g < length (pg_calls st) \<and> pg_calls st ! g = key"
    by (auto simp: z set_zip)
  finally show ?thesis .
qed

lemma pg_lookup_None: "pg_ok st \<Longrightarrow> dict_get (pg_cache st) key = None \<longleftrightarrow> key \<notin> set (pg_calls st)"
  by (metis map_of_eq_None_iff pg_ok_keys dict_keys_def list.set_map)

text \<open>The two branches of the cached constructor.\<close>

lemma get_or_create_hit:
  "pg_ok st \<Longrightarrow> sorted_set ranks \<in> set (pg_calls st) \<Longrightarrow> snd (get_or_create_process_group ranks st) = st"
  using pg_lookup_None [of st "sorted_set ranks"]
  by (auto simp: get_or_create_process_group_def split: option.splits)

lemma get_or_create_eqs:
  "dict_get (pg_cache st) (sorted_set ranks) = Some g \<Longrightarrow> get_or_create_process_group ranks st = (g, st)"
  "dict_get (pg_cache st) (sorted_set ranks) = None \<Longrightarrow> get_or_create_process_group ranks st =
     (length (pg_calls st),
      \<lparr>pg_cache = dict_set (pg_cache st) (sorted_set ranks) (length (pg_calls st)),
       pg_calls = pg_calls st @ [sorted_set ranks]\<rparr>)"
  by (simp_all add: get_or_create_process_group_def new_group_def Let_def)

lemma get_or_create_miss:
  assumes "pg_ok st" "sorted_set ranks \<notin> set (pg_calls st)"
  shows "pg_calls (snd (get_or_create_process_group ranks st)) = pg_calls st @ [sorted_set ranks]"
    and "pg_ok (snd (get_or_create_process_group ranks st))"
proof -
  from assms have n: "dict_get (pg_cache st) (sorted_set ranks) = None"
    by (simp add: pg_lookup_None)
  then show "pg_calls (snd (get_or_create_process_group ranks st)) = pg_calls st @ [sorted_set ranks]"
    by (simp add: get_or_create_eqs)
  have "sorted_set ranks \<notin> set (dict_keys (pg_cache st))"
    using assms by (simp add: pg_ok_keys)
  then have "dict_set (pg_cache st) (sorted_set ranks) (length (pg_calls st))
      = pg_cache st @ [(sorted_set ranks, length (pg_calls st))]"
    by (rule dict_set_fresh)
  with assms n show "pg_ok (snd (get_or_create_process_group ranks st))"
    by (simp add: get_or_create_eqs pg_ok_def)
qed

lemma get_or_create_ok [simp]: "pg_ok st \<Longrightarrow> pg_ok (snd (get_or_create_process_group ranks st))"
  by (metis get_or_create_hit get_or_create_miss(2))

lemma get_or_create_handle:
  assumes "pg_ok st"
  shows "let (g, st') = get_or_create_process_group ranks st
         in g < length (pg_calls st') \<and> pg_calls st' ! g = sorted_set ranks"
proof (cases "dict_get (pg_cache st) (sorted_set ranks)")
  case None
  then show ?thesis by (simp add: get_or_create_eqs)
next
  case (Some g)
  moreover have "g < length (pg_calls st) \<and> pg_calls st ! g = sorted_set ranks"
    using Some pg_lookup_Some [OF assms] by blast
  ultimately show ?thesis by (simp add: get_or_create_eqs)
qed

section \<open>The interface its clients rely on\<close>

text \<open>
  What the chunk builder and the agent use of the cache: a request for a known key changes
  nothing, a request for a new key appends exactly that key to the creation sequence.
\<close>

locale group_cache =
  fixes request :: "'r \<Rightarrow> 's \<Rightarrow> 's"
    and canon :: "'r \<Rightarrow> 'k"
    and made :: "'s \<Rightarrow> 'k list"
    and ok :: "'s \<Rightarrow> bool"
  assumes request_hit: "ok s \<Longrightarrow> canon r \<in> set (made s) \<Longrightarrow> request r s = s"
    and request_miss: "ok s \<Longrightarrow> canon r \<notin> set (made s) \<Longrightarrow> made (request r s) = made s @ [canon r]"
    and request_ok: "ok s \<Longrightarrow> ok (request r s)"
begin

lemma requests_ok: "ok s \<Longrightarrow> ok (fold request rs s)"
  by (induction rs arbitrary: s) (auto simp: request_ok)

lemma set_made_request: "ok s \<Longrightarrow> set (made (request r s)) = insert (canon r) (set (made s))"
  by (cases "canon r \<in> set (made s)") (auto simp: request_hit request_miss)

lemma set_made_requests: "ok s \<Longrightarrow> set (made (fold request rs s)) = canon ` set rs \<union> set (made s)"
  by (induction rs arbitrary: s) (auto simp: request_ok set_made_request)

lemma requests_cached: "ok s \<Longrightarrow> canon ` set rs \<subseteq> set (made s) \<Longrightarrow> fold request rs s = s"
  by (induction rs) (auto simp: request_hit)

lemma made_request_cong:
  "ok s \<Longrightarrow> ok t \<Longrightarrow> made s = made t \<Longrightarrow> canon r = canon q \<Longrightarrow> made (request r s) = made (request q t)"
  by (cases "canon r \<in> set (made s)") (auto simp: request_hit request_miss)

text \<open>The creation sequence depends on the keys requested only, in their order.\<close>

lemma made_requests_cong:
  "ok s \<Longrightarrow> ok t \<Longrightarrow> made s = made t \<Longrightarrow> map canon rs = map canon qs
   \<Longrightarrow> made (fold request rs s) = made (fold request qs t)"
proof (induction rs arbitrary: qs s t)
  case (Cons r rs)
  then obtain q qs' where q: "qs = q # qs'" "canon r = canon q" "map canon rs = map canon qs'"
    by (cases qs) auto
  have "made (request r s) = made (request q t)"
    using Cons.prems(1-3) q(2) by (rule made_request_cong)
  with Cons.IH [of "request r s" "request q t" qs'] Cons.prems(1,2) q(1,3) show ?case
    by (simp add: request_ok)
qed simp

lemma made_requests_prefix: "ok s \<Longrightarrow> \<exists>new. made (fold request rs s) = made s @ new"
proof (induction rs arbitrary: s)
  case (Cons r rs)
  then obtain new where n: "made (fold request rs (request r s)) = made (request r s) @ new"
    using request_ok by blast
  then show ?case
    using Cons.prems by (cases "canon r \<in> set (made s)") (auto simp: request_hit request_miss)
qed simp

end

interpretation pg: group_cache "\<lambda>rs s. snd (get_or_create_process_group rs s)" sorted_set pg_calls pg_ok
  by unfold_locales (simp_all add: get_or_create_hit get_or_create_miss)

lemmas create_groups_ok [simp] = pg.requests_ok [folded create_groups_def]
  and set_calls_create_groups = pg.set_made_requests [folded create_groups_def]
  and create_groups_cached = pg.requests_cached [folded create_groups_def]
  and create_groups_cong = pg.made_requests_cong [folded create_groups_def]

lemma create_groups_Nil [simp]: "create_groups [] st = st"
  by (simp add: create_groups_def)

lemma create_groups_append: "create_groups (a @ b) st = create_groups b (create_groups a st)"
  by (simp add: create_groups_def)

text \<open>The state is determined by its call sequence.\<close>

lemma pg_state_eqI: "pg_ok a \<Longrightarrow> pg_ok b \<Longrightarrow> pg_calls a = pg_calls b \<Longrightarrow> a = b"
  by (cases a; cases b) (simp add: pg_ok_def)

end
