(* ===== verification/Comm_IR.thy ===== *)
theory Comm_IR
  imports Pg_Utils
begin

text \<open>
  The intermediate representation of \<^verbatim>\<open>src/etha/comm/ir.py\<close> and the transport kinds of
  \<^verbatim>\<open>src/etha/comm/transfer.py\<close>: endpoints, routes, the mesh-to-mesh map, chunks and
  buckets with their byte layout. Tensor contents are not part of this theory: a tensor is the
  handle the descriptors carry (identity, shape, dtype); a slice is its start and stop.
\<close>

section \<open>Topology\<close>

datatype transport = P2P | BROADCAST | LOCAL | NONE

record endpoint =
  ep_rank :: nat
  ep_cell :: "nat list"

record route =
  r_src :: endpoint
  r_dsts :: "endpoint list"
  r_kind :: transport

record m2m_map =
  m2m_routes :: "route list option"
  m2m_source_num_slicers :: "nat list option"
  m2m_target_num_slicers :: "nat list option"
  m2m_source_partial_reductions :: "(nat \<times> string) list"

section \<open>Chunks\<close>

type_synonym py_slice = "nat \<times> nat"
type_synonym partial_groups = "(group_handle \<times> string) list"
type_synonym channel_key = "nat \<times> nat list \<times> partial_groups \<times> nat list \<times> transport"

record dtype =
  dt_name :: string
  itemsize :: nat

record tensor =
  t_id :: nat
  t_shape :: "nat list"
  t_dtype :: dtype

record chunk =
  c_transport :: transport
  c_is_source :: bool
  c_is_target :: bool
  c_src_rank :: nat
  c_dst_ranks :: "nat list"
  c_chunk_shape :: "nat list"
  c_tensor :: tensor
  c_src_tensor :: "tensor option"
  c_src_slice :: "py_slice list"
  c_dst_slice :: "py_slice list"
  c_transfer_dtype :: dtype
  c_src_idx :: "nat list"
  c_dst_idx :: "nat list option"
  c_source_partial_groups :: "partial_groups option"

text \<open>\<open>Chunk.__post_init__\<close>: an unset wire dtype is the tensor's own.\<close>

definition chunk_wire_dtype :: "dtype option \<Rightarrow> tensor \<Rightarrow> dtype" where
  "chunk_wire_dtype td t = (case td of None \<Rightarrow> t_dtype t | Some d \<Rightarrow> d)"

definition nbytes :: "chunk \<Rightarrow> nat" where
  "nbytes c = prod_list (c_chunk_shape c) * itemsize (c_transfer_dtype c)"

text \<open>
  \<open>Chunk.bucket_key\<close>. \<open>if self.source_partial_groups\<close> is Python truth: \<open>None\<close> and the
  empty list both skip the branch; the group handle stands for \<open>id(g)\<close>.
\<close>

definition bucket_key :: "chunk \<Rightarrow> channel_key" where
  "bucket_key c =
     (let groups = (case c_source_partial_groups c of None \<Rightarrow> [] | Some gs \<Rightarrow> gs);
          partial_sig = groups;
          cell_key = (if groups \<noteq> [] \<and> c_dst_ranks c = [] then c_src_idx c else [])
      in (c_src_rank c, c_dst_ranks c, partial_sig, cell_key, c_transport c))"

section \<open>Buckets\<close>

fun bucket_offsets :: "chunk list \<Rightarrow> nat \<Rightarrow> nat list" where
  "bucket_offsets [] cursor = []"
| "bucket_offsets (c # cs) cursor = cursor # bucket_offsets cs (cursor + nbytes c)"

record bucket =
  b_chunks :: "chunk list"
  b_offsets :: "nat list"

text \<open>\<open>Bucket(chunks=...)\<close> with its \<open>__post_init__\<close>.\<close>

definition Bucket :: "chunk list \<Rightarrow> bucket" where
  "Bucket cs = \<lparr>b_chunks = cs, b_offsets = bucket_offsets cs 0\<rparr>"

text \<open>
  The identity properties read the first chunk; on a bucket without chunks they raise, so
  they are stated on the result type.
\<close>

definition bucket_transport :: "bucket \<Rightarrow> transport result" where
  "bucket_transport b = res_bind (py_nth (b_chunks b) 0) (\<lambda>c. Inr (c_transport c))"

definition bucket_is_source :: "bucket \<Rightarrow> bool result" where
  "bucket_is_source b = res_bind (py_nth (b_chunks b) 0) (\<lambda>c. Inr (c_is_source c))"

definition bucket_is_target :: "bucket \<Rightarrow> bool result" where
  "bucket_is_target b = res_bind (py_nth (b_chunks b) 0) (\<lambda>c. Inr (c_is_target c))"

definition bucket_src_rank :: "bucket \<Rightarrow> nat result" where
  "bucket_src_rank b = res_bind (py_nth (b_chunks b) 0) (\<lambda>c. Inr (c_src_rank c))"

definition bucket_dst_ranks :: "bucket \<Rightarrow> nat list result" where
  "bucket_dst_ranks b = res_bind (py_nth (b_chunks b) 0) (\<lambda>c. Inr (c_dst_ranks c))"

definition Bucket_key :: "bucket \<Rightarrow> channel_key result" where
  "Bucket_key b = res_bind (py_nth (b_chunks b) 0) (\<lambda>c. Inr (bucket_key c))"

definition total_bytes :: "bucket \<Rightarrow> nat result" where
  "total_bytes b =
     (if b_offsets b = [] \<or> b_chunks b = [] then Inl IndexError
      else Inr (last (b_offsets b) + nbytes (last (b_chunks b))))"

lemma chunks_Bucket [simp]: "b_chunks (Bucket cs) = cs"
  by (simp add: Bucket_def)

lemma offsets_Bucket [simp]: "b_offsets (Bucket cs) = bucket_offsets cs 0"
  by (simp add: Bucket_def)

lemma length_bucket_offsets [simp]: "length (bucket_offsets cs n) = length cs"
  by (induction cs arbitrary: n) auto

lemma bucket_offsets_nth:
  "i < length cs \<Longrightarrow> bucket_offsets cs n ! i = n + sum_list (map nbytes (take i cs))"
proof (induction cs arbitrary: n i)
  case (Cons c cs)
  then show ?case by (cases i) auto
qed simp

lemma total_bytes_Bucket: "cs \<noteq> [] \<Longrightarrow> total_bytes (Bucket cs) = Inr (sum_list (map nbytes cs))"
proof -
  assume ne: "cs \<noteq> []"
  then have "bucket_offsets cs 0 \<noteq> []"
    by (metis length_bucket_offsets length_0_conv)
  then have "last (bucket_offsets cs 0) = sum_list (map nbytes (butlast cs))"
    using ne by (simp add: last_conv_nth bucket_offsets_nth butlast_conv_take)
  moreover have "sum_list (map nbytes cs) = sum_list (map nbytes (butlast cs)) + nbytes (last cs)"
    by (subst append_butlast_last_id [OF ne, symmetric], simp only: map_append sum_list_append) simp
  ultimately show ?thesis
    using ne \<open>bucket_offsets cs 0 \<noteq> []\<close> by (simp add: total_bytes_def)
qed

lemma Bucket_key_Bucket: "c \<in> set cs \<Longrightarrow> \<forall>d \<in> set cs. bucket_key d = k \<Longrightarrow> Bucket_key (Bucket cs) = Inr k"
  by (cases cs) (auto simp: Bucket_key_def py_nth_def)

text \<open>
  Consecutive chunks are adjacent: chunk \<open>i\<close> occupies the bytes from its offset up to the
  next chunk's offset, and the last chunk ends at the size of the buffer.
\<close>

lemma bucket_offsets_step:
  assumes "Suc i < length cs"
  shows "bucket_offsets cs n ! Suc i = bucket_offsets cs n ! i + nbytes (cs ! i)"
  using assms by (simp add: bucket_offsets_nth take_Suc_conv_app_nth)

lemma bucket_offsets_mono:
  "i < j \<Longrightarrow> j < length cs \<Longrightarrow> bucket_offsets cs n ! i + nbytes (cs ! i) \<le> bucket_offsets cs n ! j"
proof (induction j)
  case (Suc j)
  show ?case
  proof (cases "i = j")
    case True
    then show ?thesis using Suc.prems bucket_offsets_step [of j cs n] by simp
  next
    case False
    then show ?thesis
      using Suc bucket_offsets_step [of j cs n] by simp
  qed
qed simp

lemma bucket_offsets_bound:
  "i < length cs \<Longrightarrow> bucket_offsets cs 0 ! i + nbytes (cs ! i) \<le> sum_list (map nbytes cs)"
proof -
  assume i: "i < length cs"
  have "sum_list (map nbytes cs) = sum_list (map nbytes (take (Suc i) cs)) + sum_list (map nbytes (drop (Suc i) cs))"
    by (metis append_take_drop_id map_append sum_list_append)
  with i show ?thesis by (simp add: bucket_offsets_nth take_Suc_conv_app_nth)
qed

end
