(* ===== verification/Comm_Utils.thy ===== *)
theory Comm_Utils
  imports Comm_IR
begin

text \<open>
  The pure helpers of \<^verbatim>\<open>src/etha/comm/utils.py\<close>: the slice tuples of a tensor cut into a
  grid of cells, the lookup of one cell's slices by its multi-index, and the rank lists of the
  sub-groups along a mesh dimension.
\<close>

section \<open>Slicing\<close>

definition dim_slicers :: "nat \<Rightarrow> nat \<Rightarrow> py_slice list result" where
  "dim_slicers dim_size num_slices =
     res_bind (py_div dim_size num_slices)
       (\<lambda>slice_size. Inr (map (\<lambda>i. (i * slice_size, (i + 1) * slice_size)) [0..<num_slices]))"

fun slicers_per_dim :: "nat list \<Rightarrow> nat list \<Rightarrow> py_slice list list result" where
  "slicers_per_dim shape [] = Inr []"
| "slicers_per_dim [] (n # ns) = Inl IndexError"
| "slicers_per_dim (d # ds) (n # ns) =
     res_bind (dim_slicers d n) (\<lambda>sl. res_bind (slicers_per_dim ds ns) (\<lambda>rest. Inr (sl # rest)))"

definition get_slicer_tuples :: "nat list \<Rightarrow> nat list \<Rightarrow> py_slice list list result" where
  "get_slicer_tuples tensor_shape num_slicers =
     res_bind (slicers_per_dim tensor_shape num_slicers) (\<lambda>spd. Inr (product_lists spd))"

text \<open>The loop over \<open>reversed(range(len(source_idx)))\<close>; the counter is one above the index.\<close>

fun linear_index_loop :: "nat list \<Rightarrow> nat list \<Rightarrow> nat \<Rightarrow> nat \<Rightarrow> nat \<Rightarrow> nat result" where
  "linear_index_loop source_idx nums 0 linear_idx multiplier = Inr linear_idx"
| "linear_index_loop source_idx nums (Suc i) linear_idx multiplier =
     res_bind (py_nth source_idx i) (\<lambda>c.
     res_bind (py_nth nums i) (\<lambda>n.
       linear_index_loop source_idx nums i (linear_idx + c * multiplier) (multiplier * n)))"

definition get_slice_from_multi_index ::
  "nat list \<Rightarrow> nat list \<Rightarrow> py_slice list list \<Rightarrow> py_slice list result" where
  "get_slice_from_multi_index source_idx num_slicers slicer_tuples =
     res_bind (linear_index_loop source_idx num_slicers (length source_idx) 0 1)
       (\<lambda>linear_idx. py_nth slicer_tuples linear_idx)"

section \<open>Sub-groups along a mesh dimension\<close>

record device_mesh =
  mesh_shape :: "nat list"
  mesh_ranks :: "nat list"   \<comment> \<open>\<open>mesh.flatten().tolist()\<close>, row-major\<close>

definition mesh_ok :: "device_mesh \<Rightarrow> bool" where
  "mesh_ok m \<longleftrightarrow> length (mesh_ranks m) = prod_list (mesh_shape m) \<and> distinct (mesh_ranks m)
     \<and> mesh_ranks m \<noteq> []"

text \<open>
  \<open>mesh_tensor[tuple(slicer)].flatten().tolist()\<close>: every coordinate but \<open>mesh_dim_idx\<close>
  is fixed to \<open>other_coords\<close>.
\<close>

definition mesh_line :: "device_mesh \<Rightarrow> nat \<Rightarrow> nat list \<Rightarrow> nat list" where
  "mesh_line m d other_coords =
     map (\<lambda>j. mesh_ranks m ! ravel (mesh_shape m) (take d other_coords @ j # drop d other_coords))
       [0..<mesh_shape m ! d]"

definition enumerate_partial_subgroup_ranks :: "device_mesh \<Rightarrow> nat \<Rightarrow> nat list list result" where
  "enumerate_partial_subgroup_ranks m mesh_dim_idx =
     (let ndim = length (mesh_shape m) in
      if \<not> mesh_dim_idx < ndim then Inl ValueError
      else
        let other_dims = filter (\<lambda>d. d \<noteq> mesh_dim_idx) [0..<ndim];
            other_sizes = map (\<lambda>d. mesh_shape m ! d) other_dims
        in Inr (map (mesh_line m mesh_dim_idx) (grid other_sizes)))"

section \<open>What a cell's slices are\<close>

text \<open>The slices of cell \<open>idx\<close> when a dimension of size \<open>d\<close> is cut in \<open>n\<close>: \<open>[i*s, (i+1)*s)\<close>.\<close>

definition cell_slices :: "nat list \<Rightarrow> nat list \<Rightarrow> nat list \<Rightarrow> py_slice list" where
  "cell_slices shape nums idx =
     map (\<lambda>(i, d, n). (i * (d div n), (i + 1) * (d div n))) (zip idx (zip shape nums))"

lemma cell_slices_Cons [simp]:
  "cell_slices (d # ds) (n # ns) (i # is) = (i * (d div n), (i + 1) * (d div n)) # cell_slices ds ns is"
  by (simp add: cell_slices_def)

lemma cell_slices_Nil [simp]: "cell_slices shape nums [] = []"
  by (simp add: cell_slices_def)

lemma slicers_per_dim_ok:
  assumes "length nums = length shape" "\<forall>n \<in> set nums. 0 < n"
  shows "slicers_per_dim shape nums =
    Inr (map2 (\<lambda>d n. map (\<lambda>i. (i * (d div n), (i + 1) * (d div n))) [0..<n]) shape nums)"
  using assms
  by (induction shape nums rule: slicers_per_dim.induct) (auto simp: dim_slicers_def py_div_def)

lemma product_lists_cells:
  "length nums = length shape \<Longrightarrow>
   product_lists (map2 (\<lambda>d n. map (\<lambda>i. (i * (d div n), (i + 1) * (d div n))) [0..<n]) shape nums)
     = map (cell_slices shape nums) (grid nums)"
proof (induction nums arbitrary: shape)
  case (Cons n ns)
  then obtain d ds where s: "shape = d # ds" "length ns = length ds"
    by (cases shape) auto
  then show ?case
    using Cons.IH [of ds] by (simp add: grid_Cons map_concat comp_def)
qed simp

lemma get_slicer_tuples_ok:
  assumes "length nums = length shape" "\<forall>n \<in> set nums. 0 < n"
  shows "get_slicer_tuples shape nums = Inr (map (cell_slices shape nums) (grid nums))"
  unfolding get_slicer_tuples_def slicers_per_dim_ok [OF assms] res_bind.simps
    product_lists_cells [OF assms(1)] ..

subsection \<open>The linear index is the row-major position\<close>

lemma prod_list_replicate_one [simp]: "prod_list (replicate k (1::nat)) = 1"
  by (induction k) auto

lemma ravel_pad: "length idx = length nums \<Longrightarrow> ravel (nums @ replicate k 1) (idx @ replicate k 0) = ravel nums idx"
  by (induction nums idx rule: list_induct2') (auto, induction k, auto)

lemma ravel_snoc:
  "length idx = length nums \<Longrightarrow> ravel (nums @ [n]) (idx @ [i]) = ravel nums idx * n + i"
  by (induction nums idx rule: list_induct2') (auto simp: algebra_simps)

lemma linear_index_loop_ok:
  assumes "k \<le> length idx" "k \<le> length nums"
  shows "linear_index_loop idx nums k lin mul = Inr (lin + mul * ravel (take k nums) (take k idx))"
  using assms
proof (induction k arbitrary: lin mul)
  case (Suc k)
  then have t: "take (Suc k) nums = take k nums @ [nums ! k]" "take (Suc k) idx = take k idx @ [idx ! k]"
    by (simp_all add: take_Suc_conv_app_nth)
  have "ravel (take (Suc k) nums) (take (Suc k) idx) = ravel (take k nums) (take k idx) * nums ! k + idx ! k"
    unfolding t using Suc.prems by (intro ravel_snoc) simp
  then show ?case
    using Suc by (simp add: py_nth_def algebra_simps)
qed simp

lemma linear_index_loop_short: "length nums < length idx \<Longrightarrow> linear_index_loop idx nums (length idx) lin mul = Inl IndexError"
  by (cases idx) (auto simp: py_nth_def)

text \<open>
  The cell's slices, for a cell given in the first dimensions only: the trailing dimensions
  are cut in one piece, as the extension by ones in the chunk builder makes them.
\<close>

lemma get_slice_from_multi_index_ok:
  assumes cut: "in_shape nums idx" and pos: "\<forall>n \<in> set nums. 0 < n"
    and len: "length shape = length nums + k"
    and tuples: "get_slicer_tuples shape (nums @ replicate k 1) = Inr tuples"
  shows "get_slice_from_multi_index idx (nums @ replicate k 1) tuples
    = Inr (cell_slices shape (nums @ replicate k 1) (idx @ replicate k 0))"
proof -
  let ?nums = "nums @ replicate k 1" and ?idx = "idx @ replicate k 0"
  have n: "length idx = length nums" using cut by (rule in_shape_length)
  have tup: "tuples = map (cell_slices shape ?nums) (grid ?nums)"
    using tuples get_slicer_tuples_ok [of ?nums shape] len pos by (auto simp: ball_Un)
  have "in_shape ?nums ?idx"
    using cut by (auto simp: in_shape_nth nth_append)
  then have at: "grid ?nums ! ravel ?nums ?idx = ?idx" and bd: "ravel ?nums ?idx < prod_list ?nums"
    by (rule grid_nth_ravel, rule ravel_bound)
  have "linear_index_loop idx ?nums (length idx) 0 1 = Inr (ravel nums idx)"
    using n by (subst linear_index_loop_ok) auto
  moreover have "ravel nums idx = ravel ?nums ?idx"
    using n by (simp only: ravel_pad)
  ultimately show ?thesis
    using at bd by (simp add: get_slice_from_multi_index_def tup py_nth_def)
qed

section \<open>The cells tile the tensor\<close>

text \<open>An element lies in a tuple of slices.\<close>

definition in_slices :: "py_slice list \<Rightarrow> nat list \<Rightarrow> bool" where
  "in_slices sl x \<longleftrightarrow> list_all2 (\<lambda>(a, b) i. a \<le> i \<and> i < b) sl x"

lemma in_slices_Cons [simp]: "in_slices ((a, b) # sl) (i # x) \<longleftrightarrow> a \<le> i \<and> i < b \<and> in_slices sl x"
  by (simp add: in_slices_def)

lemma in_slices_Nil [simp]: "in_slices [] x \<longleftrightarrow> x = []"
  by (simp add: in_slices_def)

lemma in_block_iff: "(i * s \<le> x \<and> x < (i + 1) * s) \<longleftrightarrow> (0 < s \<and> x div s = (i::nat))"
proof
  assume h: "i * s \<le> x \<and> x < (i + 1) * s"
  then have "0 < s" by (cases s) auto
  moreover have "x div s = i"
    using h by (intro div_nat_eqI) (simp_all add: mult.commute)
  ultimately show "0 < s \<and> x div s = i" by simp
next
  assume h: "0 < s \<and> x div s = i"
  moreover have "x = x div s * s + x mod s" by simp
  moreover have "x mod s < s" using h by simp
  ultimately show "i * s \<le> x \<and> x < (i + 1) * s"
    by (metis add_less_cancel_left add_mult_distrib le_add1 mult_1)
qed

text \<open>How many cells of a grid hold an element: one, or none in the remainder of a dimension.\<close>

lemma count_cells:
  assumes "length nums = length shape" "length x = length shape"
  shows "length (filter (\<lambda>idx. in_slices (cell_slices shape nums idx) x) (grid nums))
    = (if \<forall>i < length shape. x ! i < nums ! i * (shape ! i div nums ! i) then 1 else 0)"
  using assms
proof (induction nums arbitrary: shape x)
  case (Cons n ns)
  then obtain d ds y ys where s: "shape = d # ds" "x = y # ys" "length ns = length ds" "length ys = length ds"
    by (cases shape; cases x) auto
  let ?s = "d div n"
  let ?rest = "filter (\<lambda>idx. in_slices (cell_slices ds ns idx) ys) (grid ns)"
  have hit: "in_slices (cell_slices shape (n # ns) (i # r)) x \<longleftrightarrow>
      (0 < ?s \<and> y div ?s = i) \<and> in_slices (cell_slices ds ns r) ys" for i r
    by (simp only: s cell_slices_Cons in_slices_Cons in_block_iff [symmetric] conj_assoc)
  have one: "filter (\<lambda>idx. in_slices (cell_slices shape (n # ns) idx) x) (map ((#) i) (grid ns))
      = (if 0 < ?s \<and> y div ?s = i then map ((#) i) ?rest else [])" for i
    unfolding filter_map comp_def hit by simp
  have "filter (\<lambda>idx. in_slices (cell_slices shape (n # ns) idx) x) (grid (n # ns))
      = concat (map (\<lambda>i. if 0 < ?s \<and> y div ?s = i then map ((#) i) ?rest else []) [0..<n])"
    by (simp only: grid_Cons filter_concat map_map comp_def one)
  then have "length (filter (\<lambda>idx. in_slices (cell_slices shape (n # ns) idx) x) (grid (n # ns)))
      = (\<Sum>i\<leftarrow>[0..<n]. if 0 < ?s \<and> y div ?s = i then length ?rest else 0)"
    by (simp add: length_concat comp_def if_distrib [of length] cong: if_cong)
  also have "\<dots> = (\<Sum>i = 0..<n. if 0 < ?s \<and> y div ?s = i then length ?rest else 0)"
    by (simp add: sum_list_sum_nth)
  also have "\<dots> = (if 0 < ?s \<and> y div ?s < n then length ?rest else 0)"
    by (auto simp: sum.delta)
  also have "(0 < ?s \<and> y div ?s < n) \<longleftrightarrow> y < n * ?s"
    by (metis div_less_iff_less_mult mult_0_right not_gr_zero not_less_zero)
  finally show ?case
    using Cons.IH [of ds ys] s by (auto simp: nth_Cons less_Suc_eq_0_disj split: nat.splits)
qed simp

section \<open>The sub-groups partition the mesh\<close>

lemma concat_map_concat: "concat (map (\<lambda>i. concat (f i)) xs) = concat (concat (map f xs))"
  by (induction xs) auto

lemma mset_concat_Cons:
  "mset (concat (map (\<lambda>y. g y # h y) ys)) = mset (map g ys) + mset (concat (map h ys))"
  by (induction ys) auto

lemma mset_concat_swap:
  "mset (concat (map (\<lambda>x. map (f x) ys) xs)) = mset (concat (map (\<lambda>y. map (\<lambda>x. f x y) xs) ys))"
  by (induction xs) (simp_all add: mset_concat_Cons map_replicate_const)

lemma mset_grid_insert:
  "d < length shape \<Longrightarrow>
   mset (concat (map (\<lambda>oc. map (\<lambda>j. take d oc @ j # drop d oc) [0..<shape ! d])
     (grid (take d shape @ drop (Suc d) shape)))) = mset (grid shape)"
proof (induction d arbitrary: shape)
  case 0
  then obtain s ss where s: "shape = s # ss" by (cases shape) auto
  show ?case
    using mset_concat_swap [of "\<lambda>oc j. j # oc" "[0..<s]" "grid ss"] by (simp add: s grid_Cons)
next
  case (Suc d)
  then obtain s ss where s: "shape = s # ss" "d < length ss" by (cases shape) auto
  let ?g = "grid (take d ss @ drop (Suc d) ss)"
  let ?ins = "\<lambda>oc. map (\<lambda>j. take d oc @ j # drop d oc) [0..<ss ! d]"
  have "concat (map (\<lambda>oc. map (\<lambda>j. take (Suc d) oc @ j # drop (Suc d) oc) [0..<shape ! Suc d])
      (grid (take (Suc d) shape @ drop (Suc (Suc d)) shape)))
    = concat (map (\<lambda>i. map ((#) i) (concat (map ?ins ?g))) [0..<s])"
    by (simp add: s grid_Cons map_concat comp_def concat_map_concat)
  also have "mset \<dots> = mset (concat (map (\<lambda>i. map ((#) i) (grid ss)) [0..<s]))"
    using Suc.IH [OF s(2)] by (simp add: mset_concat comp_def)
  finally show ?case by (simp add: s grid_Cons)
qed

lemma map_nth_filter_neq:
  "d < length xs \<Longrightarrow> map ((!) xs) (filter (\<lambda>i. i \<noteq> d) [0..<length xs]) = take d xs @ drop (Suc d) xs"
proof -
  assume d: "d < length xs"
  then have "[0..<length xs] = [0..<d] @ d # [Suc d..<length xs]"
    by (metis append_Cons append_Nil le_add1 less_imp_le upt_add_eq_append upt_conv_Cons add_diff_inverse_nat not_less le0 plus_nat.add_0)
  then have "filter (\<lambda>i. i \<noteq> d) [0..<length xs] = [0..<d] @ [Suc d..<length xs]"
    by (simp add: filter_id_conv)
  moreover have "map ((!) xs) [0..<d] = take d xs" "map ((!) xs) [Suc d..<length xs] = drop (Suc d) xs"
    using d by (auto intro: nth_equalityI)
  ultimately show ?thesis by simp
qed

section \<open>Properties\<close>

lemma slicers_per_dim_pos: "slicers_per_dim shape nums = Inr spd \<Longrightarrow> \<forall>n \<in> set nums. 0 < n"
  by (induction shape nums arbitrary: spd rule: slicers_per_dim.induct)
     (auto simp: res_simps dim_slicers_def)

text \<open>
  Slicing a tensor of any shape: an element of the tensor lies in exactly one of the slice
  tuples \<open>get_slicer_tuples\<close> returns, except when one of its coordinates falls in the
  remainder \<open>dim_size mod num_slices\<close> of its dimension, and then it lies in none. So the
  tuples are a partition of the tensor exactly when every dimension divides evenly.
\<close>

theorem slicer_tuples_cover:
  assumes "get_slicer_tuples shape nums = Inr tuples" "length nums = length shape" "in_shape shape x"
  shows "length (filter (\<lambda>t. in_slices t x) tuples)
    = (if \<forall>i < length shape. x ! i < nums ! i * (shape ! i div nums ! i) then 1 else 0)"
proof -
  have "\<forall>n \<in> set nums. 0 < n"
    using assms(1) by (auto simp: get_slicer_tuples_def res_simps dest: slicers_per_dim_pos)
  then have "tuples = map (cell_slices shape nums) (grid nums)"
    using assms(1,2) get_slicer_tuples_ok by simp
  then show ?thesis
    using count_cells [OF assms(2) in_shape_length [OF assms(3)]] by (simp add: filter_map comp_def)
qed

theorem slicer_tuples_cover_witness:
  "length (filter (\<lambda>t. in_slices t [2, 1]) [[(0, 2), (0, 3)], [(2, 4), (0, 3)]]) = 1
   \<and> length (filter (\<lambda>t. in_slices t [4, 1]) [[(0, 2), (0, 3)], [(2, 4), (0, 3)]]) = 0"
proof -
  have t: "get_slicer_tuples [5, 3] [2, 1] = Inr [[(0, 2), (0, 3)], [(2, 4), (0, 3)]]"
    by code_simp
  have i: "(\<forall>i < length [5, 3 :: nat]. [2, 1] ! i < [2, 1] ! i * ([5, 3] ! i div [2, 1] ! i :: nat))"
    "\<not> (\<forall>i < length [5, 3 :: nat]. [4, 1] ! i < [2, 1] ! i * ([5, 3] ! i div [2, 1] ! i :: nat))"
    by code_simp+
  show ?thesis
    using slicer_tuples_cover [OF t, of "[2, 1]"] slicer_tuples_cover [OF t, of "[4, 1]"] i
    by (simp only: if_True if_False) simp
qed

text \<open>
  A cell's multi-index selects the cell's own region: for a cell inside the grid the lookup
  by linear index returns, in every cut dimension, the slice \<open>[c*s, (c+1)*s)\<close> with
  \<open>s = dim_size // num_slices\<close>, and the whole dimension in every trailing dimension.
\<close>

theorem multi_index_selects_cell:
  assumes "in_shape nums idx" "\<forall>n \<in> set nums. 0 < n" "length shape = length nums + k"
    and "get_slicer_tuples shape (nums @ replicate k 1) = Inr tuples"
  shows "get_slice_from_multi_index idx (nums @ replicate k 1) tuples
    = Inr (cell_slices shape (nums @ replicate k 1) (idx @ replicate k 0))"
  using assms by (rule get_slice_from_multi_index_ok)

theorem multi_index_selects_cell_witness:
  "\<exists>tuples. get_slicer_tuples [6, 4, 5] ([3, 2] @ replicate 1 1) = Inr tuples \<and>
     get_slice_from_multi_index [2, 1] ([3, 2] @ replicate 1 1) tuples = Inr [(4, 6), (2, 4), (0, 5)]"
proof -
  obtain tuples where t: "get_slicer_tuples [6, 4, 5] ([3, 2] @ replicate 1 1) = Inr tuples"
    using get_slicer_tuples_ok [of "[3, 2] @ replicate 1 1" "[6, 4, 5]"] by simp
  have "get_slice_from_multi_index [2, 1] ([3, 2] @ replicate 1 1) tuples
      = Inr (cell_slices [6, 4, 5] ([3, 2] @ replicate 1 1) ([2, 1] @ replicate 1 0))"
    by (rule multi_index_selects_cell [OF _ _ _ t]) simp_all
  then show ?thesis using t by simp
qed

text \<open>
  The sub-groups along a mesh dimension partition the mesh: every rank of the mesh is in
  exactly one of the rank lists, and each list has one rank per coordinate of that dimension.
\<close>

theorem partial_subgroups_partition:
  assumes "mesh_ok m" "d < length (mesh_shape m)"
  shows "\<exists>sgs. enumerate_partial_subgroup_ranks m d = Inr sgs \<and> mset (concat sgs) = mset (mesh_ranks m)
    \<and> (\<forall>sg \<in> set sgs. length sg = mesh_shape m ! d)"
proof -
  let ?sh = "mesh_shape m" and ?rk = "mesh_ranks m"
  let ?others = "take d ?sh @ drop (Suc d) ?sh"
  let ?sgs = "map (mesh_line m d) (grid ?others)"
  have e: "enumerate_partial_subgroup_ranks m d = Inr ?sgs"
    using assms(2) by (simp add: enumerate_partial_subgroup_ranks_def map_nth_filter_neq Let_def)
  have "concat ?sgs = map (\<lambda>i. ?rk ! ravel ?sh i)
      (concat (map (\<lambda>oc. map (\<lambda>j. take d oc @ j # drop d oc) [0..<?sh ! d]) (grid ?others)))"
    by (simp add: map_concat comp_def mesh_line_def [abs_def])
  then have "mset (concat ?sgs) = image_mset (\<lambda>i. ?rk ! ravel ?sh i) (mset (grid ?sh))"
    using mset_grid_insert [OF assms(2)] by simp
  also have "\<dots> = mset (map ((!) ?rk) (map (ravel ?sh) (grid ?sh)))"
    by (simp add: multiset.map_comp comp_def)
  also have "\<dots> = mset ?rk"
    using assms(1) map_nth [of ?rk] by (simp only: ravel_grid mesh_ok_def)
  finally show ?thesis using e by (auto simp: mesh_line_def)
qed

theorem partial_subgroups_partition_witness:
  "enumerate_partial_subgroup_ranks \<lparr>mesh_shape = [2, 3], mesh_ranks = [4, 5, 6, 7, 8, 9]\<rparr> 0
     = Inr [[4, 7], [5, 8], [6, 9]] \<and>
   mset (concat [[4, 7], [5, 8], [6, 9 :: nat]]) = mset [4, 5, 6, 7, 8, 9]"
proof -
  let ?m = "\<lparr>mesh_shape = [2, 3], mesh_ranks = [4, 5, 6, 7, 8, 9]\<rparr>"
  have e: "enumerate_partial_subgroup_ranks ?m 0 = Inr [[4, 7], [5, 8], [6, 9]]"
    by code_simp
  have "mesh_ok ?m" "0 < length (mesh_shape ?m)" by (simp_all add: mesh_ok_def)
  then show ?thesis using partial_subgroups_partition [of ?m 0] e by auto
qed

end
