(* ===== verification/M2M_Trace.thy ===== *)
theory M2M_Trace
  imports Comm_Utils
begin

text \<open>
  The first half of \<^verbatim>\<open>src/etha/comm/get_m2m_map.py\<close>: the grid both sides can divide, the
  tag every source cell is stamped with, and what each rank reads back after the tagged
  tensor was gathered, sent and re-cut by the target layout. The tags live in a tensor made
  with \<open>torch.zeros\<close>, so they are 32-bit floats. PyTorch's DTensor is not part of the
  repository: \<open>distribute_tensor(...).to_local()\<close> and \<open>full_tensor()\<close> are the two fields
  of the parameter \<open>dtensor_api\<close>.
\<close>

section \<open>Placements and shard shapes\<close>

datatype placement = Shard int | Replicate | Partial string

fun shard_dims :: "placement list \<Rightarrow> int list" where
  "shard_dims [] = []"
| "shard_dims (Shard d # ps) = d # shard_dims ps"
| "shard_dims (_ # ps) = shard_dims ps"

definition get_tensor_ndim :: "placement list \<Rightarrow> int" where
  "get_tensor_ndim placements =
     (case shard_dims placements of [] \<Rightarrow> 0 | d # ds \<Rightarrow> fold max ds d) + 1"

text \<open>A Python subscript with a possibly negative index.\<close>

definition py_index :: "nat \<Rightarrow> int \<Rightarrow> nat result" where
  "py_index n i =
     (let j = (if i < 0 then int n + i else i)
      in if 0 \<le> j \<and> j < int n then Inr (nat j) else Inl IndexError)"

fun shard_shape_loop :: "nat list \<Rightarrow> placement list \<Rightarrow> nat \<Rightarrow> nat list \<Rightarrow> nat list result" where
  "shard_shape_loop device_mesh [] i shard_shape = Inr shard_shape"
| "shard_shape_loop device_mesh (Shard d # ps) i shard_shape =
     res_bind (py_index (length shard_shape) d) (\<lambda>k.
     res_bind (py_nth device_mesh i) (\<lambda>m.
       shard_shape_loop device_mesh ps (Suc i) (shard_shape[k := shard_shape ! k * m])))"
| "shard_shape_loop device_mesh (_ # ps) i shard_shape = shard_shape_loop device_mesh ps (Suc i) shard_shape"

definition get_shard_shape :: "nat list \<Rightarrow> placement list \<Rightarrow> int \<Rightarrow> nat list result" where
  "get_shard_shape device_mesh placements tensor_ndim =
     shard_shape_loop device_mesh placements 0 (replicate (nat tensor_ndim) 1)"

section \<open>Tags\<close>

text \<open>\<open>encoded_value = rank; for coord in idx: encoded_value = encoded_value * base + coord\<close>.\<close>

definition encode_cell :: "nat \<Rightarrow> nat \<Rightarrow> nat list \<Rightarrow> nat" where
  "encode_cell base rank idx = foldl (\<lambda>v coord. v * base + coord) rank idx"

text \<open>
  The decoding loop: \<open>n\<close> coordinates are split off least significant first, then reversed;
  what remains is the source rank.
\<close>

fun decode_loop :: "nat \<Rightarrow> nat \<Rightarrow> nat \<Rightarrow> nat list \<Rightarrow> nat \<times> nat list" where
  "decode_loop base 0 temp source_indices = (temp, source_indices)"
| "decode_loop base (Suc n) temp source_indices =
     decode_loop base n (temp div base) (source_indices @ [temp mod base])"

definition decode_cell :: "nat \<Rightarrow> nat \<Rightarrow> nat \<Rightarrow> nat \<times> nat list" where
  "decode_cell base n v = (let (temp, source_indices) = decode_loop base n v [] in (temp, rev source_indices))"

text \<open>
  A non-negative integer stored in a 32-bit float: 24 significant bits, rounded to nearest,
  ties to even. Tags below \<open>2^63\<close> are meant, which is what the assignment accepts.
\<close>

fun f32_exponent :: "nat \<Rightarrow> nat" where
  "f32_exponent n = (if n < 2 ^ 24 then 0 else Suc (f32_exponent (n div 2)))"

declare f32_exponent.simps [simp del]

text \<open>The same comparison without the constant, for evaluation with unary numbers.\<close>

lemma f32_exponent_code [code]:
  "f32_exponent n =
     (if n div 16 div 16 div 16 div 16 div 16 div 16 = 0 then 0 else Suc (f32_exponent (n div 2)))"
proof -
  have "n div 16 div 16 div 16 div 16 div 16 div 16 = n div 2 ^ 24" by (simp add: div_mult2_eq [symmetric])
  then show ?thesis by (subst f32_exponent.simps) (simp add: div_eq_0_iff)
qed

definition f32 :: "nat \<Rightarrow> nat" where
  "f32 n =
     (let u = 2 ^ f32_exponent n; q = n div u; r = n mod u
      in (if 2 * r < u \<or> (2 * r = u \<and> even q) then q else q + 1) * u)"

lemma f32_exact: "n < 2 ^ 24 \<Longrightarrow> f32 n = n"
  by (simp add: f32_def f32_exponent.simps [of n])

lemma f32_exponent_least: "n < 2 ^ (24 + e) \<Longrightarrow> f32_exponent n \<le> e"
proof (induction e arbitrary: n)
  case (Suc e)
  have "n < 2 * 2 ^ (24 + e)" using Suc.prems by (simp add: power_add)
  then have "n div 2 < 2 ^ (24 + e)" by linarith
  then show ?case using Suc.IH [of "n div 2"] by (subst f32_exponent.simps) simp
qed (simp add: f32_exponent.simps)

lemma f32_exponent_bound: "n < 2 ^ (24 + f32_exponent n)"
proof (induction n rule: f32_exponent.induct)
  case (1 n)
  show ?case
  proof (cases "n < 2 ^ 24")
    case True
    then show ?thesis by (simp add: f32_exponent.simps [of n])
  next
    case False
    then have "f32_exponent n = Suc (f32_exponent (n div 2))" by (subst f32_exponent.simps) simp
    moreover have "n < 2 * 2 ^ (24 + f32_exponent (n div 2))" using 1 [OF False] by linarith
    ultimately show ?thesis by (simp add: power_add)
  qed
qed

text \<open>A number is stored exactly when it has at most 24 significant bits.\<close>

lemma f32_fixed: "f32 n = n \<longleftrightarrow> (\<exists>m e. m < 2 ^ 24 \<and> n = m * 2 ^ e)"
proof
  let ?u = "2 ^ f32_exponent n :: nat"
  assume "f32 n = n"
  then have "?u dvd n" unfolding f32_def Let_def by (metis dvd_triv_right)
  moreover have "n div ?u < 2 ^ 24" using f32_exponent_bound [of n] by (simp add: power_add less_mult_imp_div_less)
  ultimately show "\<exists>m e. m < 2 ^ 24 \<and> n = m * 2 ^ e" by (metis dvd_div_mult_self)
next
  assume "\<exists>m e. m < 2 ^ 24 \<and> n = m * 2 ^ e"
  then obtain m e where me: "m < 2 ^ 24" "n = m * 2 ^ e" by blast
  then have "n < 2 ^ (24 + e)" by (simp add: power_add)
  then have "2 ^ f32_exponent n dvd n" using f32_exponent_least me(2) by (simp add: le_imp_power_dvd dvd_mult)
  then show "f32 n = n" by (simp add: f32_def Let_def dvd_div_mult_self)
qed

lemma encode_cell_snoc: "encode_cell base rank (idx @ [c]) = encode_cell base rank idx * base + c"
  by (simp add: encode_cell_def)

lemma encode_cell_Nil [simp]: "encode_cell base rank [] = rank"
  by (simp add: encode_cell_def)

lemma decode_loop_encode:
  "\<forall>c \<in> set idx. c < base \<Longrightarrow> decode_loop base (length idx) (encode_cell base rank idx) acc = (rank, acc @ rev idx)"
proof (induction idx arbitrary: acc rule: rev_induct)
  case (snoc c idx)
  then have b: "c < base" by simp
  then have "(encode_cell base rank idx * base + c) div base = encode_cell base rank idx"
    "(encode_cell base rank idx * base + c) mod base = c" by simp_all
  with snoc show ?case by (simp add: encode_cell_snoc)
qed simp

lemma decode_encode_cell:
  "\<forall>c \<in> set idx. c < base \<Longrightarrow> decode_cell base (length idx) (encode_cell base rank idx) = (rank, idx)"
  using decode_loop_encode [of idx base rank "[]"] by (simp add: decode_cell_def)

lemma decode_loop_value:
  "0 < base \<Longrightarrow> decode_loop base n v acc = (r, is) \<Longrightarrow> \<exists>js. is = acc @ js \<and> length js = n \<and> encode_cell base r (rev js) = v"
proof (induction n arbitrary: v acc)
  case (Suc n)
  obtain js where "is = (acc @ [v mod base]) @ js" "length js = n" "encode_cell base r (rev js) = v div base"
    using Suc.IH [OF Suc.prems(1), of "v div base" "acc @ [v mod base]"] Suc.prems(2) by auto
  then show ?case by (intro exI [of _ "v mod base # js"]) (simp add: encode_cell_snoc)
qed simp

lemma encode_decode_cell: "0 < base \<Longrightarrow> decode_cell base n v = (r, c) \<Longrightarrow> encode_cell base r c = v"
  using decode_loop_value [of base n v "[]" r "rev c"] by (auto simp: decode_cell_def split: prod.splits)

lemma stored_tag_iff:
  assumes "\<forall>c \<in> set idx. c < base" "0 < base"
  shows "decode_cell base (length idx) (f32 (encode_cell base rank idx)) = (rank, idx) \<longleftrightarrow>
    (\<exists>m e. m < 2 ^ 24 \<and> encode_cell base rank idx = m * 2 ^ e)"
  using encode_decode_cell [OF assms(2)] decode_encode_cell [OF assms(1)] unfolding f32_fixed [symmetric] by metis

lemma encode_cell_bound:
  "\<forall>c \<in> set idx. c < base \<Longrightarrow> encode_cell base rank idx < (rank + 1) * base ^ length idx"
proof (induction idx rule: rev_induct)
  case (snoc c idx)
  let ?e = "encode_cell base rank idx"
  have "?e + 1 \<le> (rank + 1) * base ^ length idx" using snoc by simp
  then have "(?e + 1) * base \<le> (rank + 1) * base ^ length idx * base"
    by (rule mult_le_mono1)
  moreover have "?e * base + c < (?e + 1) * base" using snoc.prems by simp
  ultimately have "?e * base + c < (rank + 1) * base ^ length idx * base" by linarith
  then show ?case by (simp add: encode_cell_snoc algebra_simps)
qed simp

lemma stored_tag_decodes:
  assumes "\<forall>c \<in> set idx. c < base" "(rank + 1) * base ^ length idx \<le> 2 ^ 24"
  shows "decode_cell base (length idx) (f32 (encode_cell base rank idx)) = (rank, idx)"
  using encode_cell_bound [OF assms(1), of rank] assms by (simp add: f32_exact decode_encode_cell)

section \<open>Tracing a redistribution\<close>

record ndarray =
  nd_shape :: "nat list"
  nd_at :: "nat list \<Rightarrow> nat"

text \<open>
  The two DTensor operations, per rank of the mesh: the local shard of a tensor distributed
  over a mesh, and the full tensor a rank restores when every rank \<open>q\<close> holds the local
  shard \<open>locals q\<close>.
\<close>

record dtensor_api =
  to_local :: "device_mesh \<Rightarrow> placement list \<Rightarrow> nat \<Rightarrow> ndarray \<Rightarrow> ndarray"
  full_tensor :: "device_mesh \<Rightarrow> placement list \<Rightarrow> nat \<Rightarrow> (nat \<Rightarrow> ndarray) \<Rightarrow> ndarray"

record m2m_side =
  side_mesh :: device_mesh
  side_placements :: "placement list"

definition zeros :: "nat list \<Rightarrow> ndarray" where
  "zeros shape = \<lparr>nd_shape = shape, nd_at = (\<lambda>_. 0)\<rparr>"

text \<open>\<open>local_shard.copy_(encoded_tensor)\<close> on source rank \<open>rank\<close>.\<close>

definition encoded_shard :: "dtensor_api \<Rightarrow> m2m_side \<Rightarrow> nat list \<Rightarrow> nat \<Rightarrow> nat \<Rightarrow> ndarray" where
  "encoded_shard api src middle base rank =
     (let local_shard = to_local api (side_mesh src) (side_placements src) rank (zeros middle)
      in local_shard\<lparr>nd_at := (\<lambda>idx. f32 (encode_cell base rank idx))\<rparr>)"

definition source_full :: "dtensor_api \<Rightarrow> m2m_side \<Rightarrow> nat list \<Rightarrow> nat \<Rightarrow> nat \<Rightarrow> ndarray" where
  "source_full api src middle base rank =
     full_tensor api (side_mesh src) (side_placements src) rank (encoded_shard api src middle base)"

text \<open>\<open>xs.index(x)\<close> for a member.\<close>

definition py_index_of :: "'a list \<Rightarrow> 'a \<Rightarrow> nat" where
  "py_index_of xs x = length (takeWhile (\<lambda>y. y \<noteq> x) xs)"

text \<open>Which source rank a target-only rank posts its receive to.\<close>

definition recv_source :: "nat list \<Rightarrow> nat list \<Rightarrow> nat \<Rightarrow> nat" where
  "recv_source source_ranks target_ranks rank =
     source_ranks ! (py_index_of target_ranks rank mod length source_ranks)"

text \<open>The ranks a source rank sends its full tensor to: every \<open>len(source)\<close>-th target.\<close>

definition send_targets :: "nat list \<Rightarrow> nat list \<Rightarrow> nat \<Rightarrow> nat list" where
  "send_targets source_ranks target_ranks rank =
     map (\<lambda>i. target_ranks ! i)
       (filter (\<lambda>i. i mod length source_ranks = py_index_of source_ranks rank
                   \<and> target_ranks ! i \<notin> set source_ranks)
         [py_index_of source_ranks rank..<length target_ranks])"

text \<open>
  The full tensor a rank holds after the exchange: a source rank its own, a target-only rank
  the one its source sent.
\<close>

definition full_tensor_restored :: "dtensor_api \<Rightarrow> m2m_side \<Rightarrow> nat list \<Rightarrow> nat list \<Rightarrow> nat \<Rightarrow> nat \<Rightarrow> ndarray" where
  "full_tensor_restored api src target_ranks middle base rank =
     (let source_ranks = mesh_ranks (side_mesh src)
      in if rank \<in> set source_ranks then source_full api src middle base rank
         else source_full api src middle base (recv_source source_ranks target_ranks rank))"

text \<open>The local target shard a rank decodes, and the source of one of its cells.\<close>

definition local_target_shard :: "dtensor_api \<Rightarrow> m2m_side \<Rightarrow> m2m_side \<Rightarrow> nat list \<Rightarrow> nat \<Rightarrow> nat \<Rightarrow> ndarray" where
  "local_target_shard api src tgt middle base rank =
     to_local api (side_mesh tgt) (side_placements tgt) rank
       (full_tensor_restored api src (mesh_ranks (side_mesh tgt)) middle base rank)"

definition traced_source :: "dtensor_api \<Rightarrow> m2m_side \<Rightarrow> m2m_side \<Rightarrow> nat list \<Rightarrow> nat \<Rightarrow> nat \<Rightarrow> nat list \<Rightarrow> nat \<times> nat list" where
  "traced_source api src tgt middle base rank idx =
     decode_cell base (length idx) (nd_at (local_target_shard api src tgt middle base rank) idx)"

section \<open>The documented DTensor behaviour the trace relies on\<close>

text \<open>
  \<open>dtensor_ok api pos side shape local_shape\<close>: on a tensor of shape \<open>shape\<close> every rank's
  local shard has shape \<open>local_shape\<close> and its element \<open>x\<close> is the element \<open>pos rank x\<close> of
  the tensor; \<open>full_tensor\<close> on any rank has the full shape and every one of its elements is
  read from the local shard of some rank, at a place that rank holds it.
\<close>

definition dtensor_ok ::
  "dtensor_api \<Rightarrow> (nat \<Rightarrow> nat list \<Rightarrow> nat list) \<Rightarrow> m2m_side \<Rightarrow> nat list \<Rightarrow> nat list \<Rightarrow> bool" where
  "dtensor_ok api pos side shape local_shape \<longleftrightarrow>
     (\<forall>r \<in> set (mesh_ranks (side_mesh side)). \<forall>t. nd_shape t = shape \<longrightarrow>
        nd_shape (to_local api (side_mesh side) (side_placements side) r t) = local_shape \<and>
        (\<forall>x. in_shape local_shape x \<longrightarrow> in_shape shape (pos r x) \<and>
          nd_at (to_local api (side_mesh side) (side_placements side) r t) x = nd_at t (pos r x))) \<and>
     (\<forall>r \<in> set (mesh_ranks (side_mesh side)). \<forall>locals.
        (\<forall>q \<in> set (mesh_ranks (side_mesh side)). nd_shape (locals q) = local_shape) \<longrightarrow>
        nd_shape (full_tensor api (side_mesh side) (side_placements side) r locals) = shape \<and>
        (\<forall>g. in_shape shape g \<longrightarrow>
          (\<exists>q \<in> set (mesh_ranks (side_mesh side)). \<exists>x. in_shape local_shape x \<and> pos q x = g \<and>
            nd_at (full_tensor api (side_mesh side) (side_placements side) r locals) g = nd_at (locals q) x)))"

lemma py_index_of_nth: "distinct xs \<Longrightarrow> i < length xs \<Longrightarrow> py_index_of xs (xs ! i) = i"
proof (induction xs arbitrary: i)
  case (Cons x xs)
  then show ?case by (cases i) (auto simp: py_index_of_def)
qed simp

lemma py_index_of_less: "x \<in> set xs \<Longrightarrow> py_index_of xs x < length xs \<and> xs ! py_index_of xs x = x"
  by (induction xs) (auto simp: py_index_of_def)

lemma dtensor_ok_local:
  assumes "dtensor_ok api pos side shape lsh" "r \<in> set (mesh_ranks (side_mesh side))" "nd_shape t = shape"
  shows "nd_shape (to_local api (side_mesh side) (side_placements side) r t) = lsh"
    and "in_shape lsh x \<Longrightarrow> in_shape shape (pos r x)"
    and "in_shape lsh x \<Longrightarrow>
      nd_at (to_local api (side_mesh side) (side_placements side) r t) x = nd_at t (pos r x)"
  using assms unfolding dtensor_ok_def by blast+

lemma dtensor_ok_full:
  assumes "dtensor_ok api pos side shape lsh" "r \<in> set (mesh_ranks (side_mesh side))"
    and "\<forall>q \<in> set (mesh_ranks (side_mesh side)). nd_shape (locals q) = lsh"
  shows "nd_shape (full_tensor api (side_mesh side) (side_placements side) r locals) = shape"
    and "in_shape shape g \<Longrightarrow> \<exists>q \<in> set (mesh_ranks (side_mesh side)). \<exists>x. in_shape lsh x \<and> pos q x = g \<and>
      nd_at (full_tensor api (side_mesh side) (side_placements side) r locals) g = nd_at (locals q) x"
  using assms unfolding dtensor_ok_def by blast+

lemma nd_shape_zeros [simp]: "nd_shape (zeros s) = s"
  by (simp add: zeros_def)

lemma encoded_shard_shape:
  "dtensor_ok api pos src middle lsh \<Longrightarrow> q \<in> set (mesh_ranks (side_mesh src))
   \<Longrightarrow> nd_shape (encoded_shard api src middle base q) = lsh"
  by (simp add: encoded_shard_def Let_def dtensor_ok_local)

lemma source_full_tag:
  assumes ok: "dtensor_ok api pos src middle lsh" and r: "r \<in> set (mesh_ranks (side_mesh src))"
    and g: "in_shape middle g"
  obtains s c where "s \<in> set (mesh_ranks (side_mesh src))" "in_shape lsh c" "pos s c = g"
    and "nd_at (source_full api src middle base r) g = f32 (encode_cell base s c)"
proof -
  have sh: "\<forall>q \<in> set (mesh_ranks (side_mesh src)). nd_shape (encoded_shard api src middle base q) = lsh"
    using ok by (simp add: encoded_shard_shape)
  obtain s c where "s \<in> set (mesh_ranks (side_mesh src))" "in_shape lsh c" "pos s c = g"
    "nd_at (source_full api src middle base r) g = nd_at (encoded_shard api src middle base s) c"
    unfolding source_full_def using dtensor_ok_full(2) [OF ok r sh g] by blast
  then show thesis
    by (intro that [of s c]) (simp_all add: encoded_shard_def Let_def)
qed

lemma source_full_shape:
  "dtensor_ok api pos src middle lsh \<Longrightarrow> r \<in> set (mesh_ranks (side_mesh src))
   \<Longrightarrow> nd_shape (source_full api src middle base r) = middle"
  unfolding source_full_def by (rule dtensor_ok_full) (auto simp: encoded_shard_shape)

lemma full_tensor_restored_source:
  assumes "mesh_ranks (side_mesh src) \<noteq> []"
  shows "\<exists>s \<in> set (mesh_ranks (side_mesh src)).
    full_tensor_restored api src target_ranks middle base r = source_full api src middle base s"
proof (cases "r \<in> set (mesh_ranks (side_mesh src))")
  case False
  then show ?thesis
    using assms by (auto simp: full_tensor_restored_def recv_source_def Let_def)
qed (auto simp: full_tensor_restored_def Let_def)

text \<open>
  A target cell carries the stored tag of a source rank and a cell of that rank's shard which
  stand for the same position of the tensor; decoding gives them back while the tag is exact.
\<close>

lemma traced_tag:
  assumes s: "dtensor_ok api spos src middle slocal" and t: "dtensor_ok api tpos tgt middle tlocal"
    and ne: "mesh_ranks (side_mesh src) \<noteq> []"
    and q: "q \<in> set (mesh_ranks (side_mesh tgt))" and d: "in_shape tlocal d"
    and len: "length slocal = length tlocal" and small: "\<forall>n \<in> set slocal. n < base"
  obtains r c where "traced_source api src tgt middle base q d = decode_cell base (length c) (f32 (encode_cell base r c))"
    and "r \<in> set (mesh_ranks (side_mesh src))" "in_shape slocal c" "spos r c = tpos q d" "\<forall>x \<in> set c. x < base"
proof -
  let ?full = "full_tensor_restored api src (mesh_ranks (side_mesh tgt)) middle base q"
  obtain r0 where r0: "r0 \<in> set (mesh_ranks (side_mesh src))" "?full = source_full api src middle base r0"
    using full_tensor_restored_source [OF ne] by blast
  have fs: "nd_shape ?full = middle" using r0 source_full_shape [OF s] by simp
  have g: "in_shape middle (tpos q d)" using dtensor_ok_local(2) [OF t q fs d] .
  obtain r c where rc: "r \<in> set (mesh_ranks (side_mesh src))" "in_shape slocal c" "spos r c = tpos q d"
    "nd_at ?full (tpos q d) = f32 (encode_cell base r c)"
    using source_full_tag [OF s r0(1) g] r0(2) by metis
  have lc: "length c = length d"
    using in_shape_length [OF rc(2)] in_shape_length [OF d] len by simp
  have "\<forall>x \<in> set c. x < base"
    using in_shape_member_less [OF rc(2)] small by (meson order.strict_trans)
  moreover have "traced_source api src tgt middle base q d = decode_cell base (length c) (f32 (encode_cell base r c))"
    using dtensor_ok_local(3) [OF t q fs d] rc(4) lc
    by (simp add: traced_source_def local_target_shard_def)
  ultimately show thesis using rc by (intro that)
qed

lemma traced_source_ok:
  assumes s: "dtensor_ok api spos src middle slocal" and t: "dtensor_ok api tpos tgt middle tlocal"
    and ne: "mesh_ranks (side_mesh src) \<noteq> []"
    and q: "q \<in> set (mesh_ranks (side_mesh tgt))" and d: "in_shape tlocal d"
    and len: "length slocal = length tlocal"
    and small: "\<forall>n \<in> set slocal. n < base"
      "\<forall>r \<in> set (mesh_ranks (side_mesh src)). (r + 1) * base ^ length slocal \<le> 2 ^ 24"
  obtains r c where "traced_source api src tgt middle base q d = (r, c)"
    and "r \<in> set (mesh_ranks (side_mesh src))" "in_shape slocal c" "spos r c = tpos q d"
proof (rule traced_tag [OF s t ne q d len small(1)])
  fix r c
  assume rc: "traced_source api src tgt middle base q d = decode_cell base (length c) (f32 (encode_cell base r c))"
    "r \<in> set (mesh_ranks (side_mesh src))" "in_shape slocal c" "spos r c = tpos q d" "\<forall>x \<in> set c. x < base"
  then have "decode_cell base (length c) (f32 (encode_cell base r c)) = (r, c)"
    using small(2) in_shape_length by (intro stored_tag_decodes) auto
  then show thesis using rc by (intro that) auto
qed

end
