(* ===== verification/Partial_Shadows.thy ===== *)
theory Partial_Shadows
  imports M2M_Trace
begin

text \<open>
  \<open>_expand_partial_shadows\<close> of \<^verbatim>\<open>src/etha/comm/get_m2m_map.py\<close>: the union-find with path
  halving over the Partial sub-groups, and the reduce-only entries it adds so that every member
  of a connected component takes part in the reduce of every cell the component ships.
\<close>

section \<open>Union-find\<close>

type_synonym parents = "(nat, nat) dict"

text \<open>
  \<open>find\<close>: the loop is bounded by fuel. \<open>None\<close> is a missing key or fuel exhausted;
  \<open>uf_find_ok\<close> below shows that neither happens with one unit more than there are keys.
\<close>

fun uf_find :: "nat \<Rightarrow> parents \<Rightarrow> nat \<Rightarrow> (parents \<times> nat) option" where
  "uf_find 0 parent x = None"
| "uf_find (Suc fuel) parent x =
     (case dict_get parent x of None \<Rightarrow> None
      | Some px \<Rightarrow>
          if px = x then Some (parent, x)
          else (case dict_get parent px of None \<Rightarrow> None
                | Some ppx \<Rightarrow> uf_find fuel (dict_set parent x ppx) ppx))"

definition find_root :: "parents \<Rightarrow> nat \<Rightarrow> (parents \<times> nat) option" where
  "find_root parent x = uf_find (Suc (length parent)) parent x"

definition init_parents :: "nat list list \<Rightarrow> parents" where
  "init_parents sub_groups = fold (\<lambda>r p. dict_set p r r) (concat sub_groups) []"

text \<open>One step of the merging loop: \<open>ra, rr = find(anchor), find(r); if ra != rr: parent[ra] = rr\<close>.\<close>

definition union_step :: "nat \<Rightarrow> nat \<Rightarrow> parents \<Rightarrow> parents option" where
  "union_step anchor r parent =
     Option.bind (find_root parent anchor) (\<lambda>(parent1, ra).
     Option.bind (find_root parent1 r) (\<lambda>(parent2, rr).
       Some (if ra \<noteq> rr then dict_set parent2 ra rr else parent2)))"

fun union_rest :: "nat \<Rightarrow> nat list \<Rightarrow> parents \<Rightarrow> parents option" where
  "union_rest anchor [] parent = Some parent"
| "union_rest anchor (r # rs) parent = Option.bind (union_step anchor r parent) (union_rest anchor rs)"

text \<open>\<open>anchor = sg[0]\<close> raises on an empty sub-group; here that is \<open>None\<close>.\<close>

fun union_groups :: "nat list list \<Rightarrow> parents \<Rightarrow> parents option" where
  "union_groups [] parent = Some parent"
| "union_groups ([] # sgs) parent = None"
| "union_groups ((anchor # rest) # sgs) parent = Option.bind (union_rest anchor rest parent) (union_groups sgs)"

text \<open>
  \<open>component_members[find(r)].add(r)\<close> for every key, and the compressed parents. The set of
  members is kept as the list of keys in iteration order.
\<close>

fun collect_members :: "nat list \<Rightarrow> parents \<Rightarrow> (nat, nat list) dict \<Rightarrow> (parents \<times> (nat, nat list) dict) option" where
  "collect_members [] parent members = Some (parent, members)"
| "collect_members (r # rs) parent members =
     Option.bind (find_root parent r) (\<lambda>(parent', root).
       collect_members rs parent' (dict_set members root (dict_get_or members root [] @ [r])))"

subsection \<open>Forests\<close>

text \<open>
  The representative a key leads to, and the forest invariant: parents are keys, and a height
  \<open>h\<close> strictly falls along every edge.
\<close>

inductive uf_rep :: "parents \<Rightarrow> nat \<Rightarrow> nat \<Rightarrow> bool" for p where
  root: "dict_get p x = Some x \<Longrightarrow> uf_rep p x x"
| step: "dict_get p x = Some y \<Longrightarrow> y \<noteq> x \<Longrightarrow> uf_rep p y r \<Longrightarrow> uf_rep p x r"

inductive_cases uf_rep_elim: "uf_rep p x r"

definition uf_ok :: "(nat \<Rightarrow> nat) \<Rightarrow> parents \<Rightarrow> bool" where
  "uf_ok h p \<longleftrightarrow> (\<forall>x y. dict_get p x = Some y \<longrightarrow> dict_get p y \<noteq> None \<and> (y \<noteq> x \<longrightarrow> h y < h x))"

definition uf_same :: "parents \<Rightarrow> nat \<Rightarrow> nat \<Rightarrow> bool" where
  "uf_same p x y \<longleftrightarrow> (\<exists>r. uf_rep p x r \<and> uf_rep p y r)"

lemma uf_okD:
  "uf_ok h p \<Longrightarrow> dict_get p x = Some y \<Longrightarrow> \<exists>z. dict_get p y = Some z"
  "uf_ok h p \<Longrightarrow> dict_get p x = Some y \<Longrightarrow> y \<noteq> x \<Longrightarrow> h y < h x"
  unfolding uf_ok_def by auto

lemma uf_rep_det: "uf_rep p x r \<Longrightarrow> uf_rep p x s \<Longrightarrow> r = s"
proof (induction arbitrary: s rule: uf_rep.induct)
  case (root x)
  then show ?case by (auto elim: uf_rep_elim)
next
  case (step x y r)
  from step.prems step.hyps have "uf_rep p y s" by (auto elim: uf_rep_elim)
  then show ?case by (rule step.IH)
qed

lemma uf_rep_root: "uf_rep p x r \<Longrightarrow> dict_get p r = Some r"
  by (induction rule: uf_rep.induct) auto

lemma uf_rep_total: "uf_ok h p \<Longrightarrow> dict_get p x = Some y \<Longrightarrow> \<exists>r. uf_rep p x r"
proof (induction "h x" arbitrary: x y rule: less_induct)
  case less
  show ?case
  proof (cases "y = x")
    case True
    then show ?thesis using less.prems uf_rep.root by blast
  next
    case False
    then have "h y < h x" "\<exists>z. dict_get p y = Some z" using uf_okD [OF less.prems] by blast+
    then show ?thesis using less.hyps less.prems False uf_rep.step by blast
  qed
qed

lemma uf_rep_dom: "uf_rep p x r \<Longrightarrow> dict_get p x \<noteq> None"
  by (auto elim: uf_rep_elim)

text \<open>Path halving keeps the forest and every representative.\<close>

lemma halve_ok:
  assumes "uf_ok h p" "dict_get p x = Some y" "y \<noteq> x" "dict_get p y = Some z"
  shows "uf_ok h (dict_set p x z)"
proof -
  have z: "h z < h x" "dict_get p z \<noteq> None"
    using assms uf_okD [OF assms(1)] by (metis order.strict_trans, metis option.discI)
  show ?thesis
    using assms(1) z unfolding uf_ok_def by (auto simp: dict_get_set split: if_splits)
qed

lemma halve_rep:
  assumes "uf_ok h p" "dict_get p x = Some y" "y \<noteq> x" "dict_get p y = Some z"
  shows "uf_rep p a r \<Longrightarrow> uf_rep (dict_set p x z) a r"
proof (induction rule: uf_rep.induct)
  case (root a)
  then show ?case using assms by (intro uf_rep.root) (auto simp: dict_get_set)
next
  case (step a b r)
  show ?case
  proof (cases "a = x")
    case False
    then show ?thesis using step by (intro uf_rep.step [of _ a b]) (auto simp: dict_get_set)
  next
    case True
    have zx: "h y < h x" "z \<noteq> y \<longrightarrow> h z < h y" using assms uf_okD [OF assms(1)] by auto
    have b: "b = y" using step.hyps assms True by simp
    have "uf_rep (dict_set p x z) z r"
    proof (cases "z = y")
      case False
      have yz: "dict_get (dict_set p x z) y = Some z" using assms by (simp add: dict_get_set)
      from step.IH b have "uf_rep (dict_set p x z) y r" by simp
      then show ?thesis by (rule uf_rep_elim) (use yz False in simp_all)
    qed (use step.IH b in simp)
    moreover have "z \<noteq> x" using zx by auto
    ultimately show ?thesis
      using True by (intro uf_rep.step [of _ a z]) (auto simp: dict_get_set)
  qed
qed

lemma same_rep_transfer:
  assumes "uf_ok h p" "\<And>a r. uf_rep p a r \<Longrightarrow> uf_rep q a r" "dom (map_of q) = dom (map_of p)"
  shows "uf_rep q a r \<longleftrightarrow> uf_rep p a r"
proof
  assume q: "uf_rep q a r"
  then obtain y where "dict_get p a = Some y" using uf_rep_dom assms(3) by blast
  then obtain s where "uf_rep p a s" using uf_rep_total [OF assms(1)] by blast
  then show "uf_rep p a r" using q uf_rep_det assms(2) by metis
qed (rule assms(2))

lemma dom_dict_set: "dict_get p x \<noteq> None \<Longrightarrow> dom (map_of (dict_set p x z)) = dom (map_of p)"
  by (auto simp: dict_get_set split: if_splits)

subsection \<open>Find\<close>

lemma uf_find_ok:
  assumes "uf_ok h p" "dict_get p x \<noteq> None" "card {y \<in> dom (map_of p). h y < h x} < fuel"
  shows "\<exists>q r. uf_find fuel p x = Some (q, r) \<and> uf_ok h q \<and> dom (map_of q) = dom (map_of p)
    \<and> uf_rep p x r \<and> (\<forall>a s. uf_rep q a s \<longleftrightarrow> uf_rep p a s)"
  using assms
proof (induction fuel arbitrary: p x)
  case (Suc fuel)
  obtain px where px: "dict_get p x = Some px" using Suc.prems by auto
  show ?case
  proof (cases "px = x")
    case True
    then show ?thesis using px Suc.prems by (auto intro: uf_rep.root)
  next
    case False
    obtain ppx where ppx: "dict_get p px = Some ppx" using uf_okD [OF Suc.prems(1) px] by blast
    let ?p = "dict_set p x ppx"
    have ok: "uf_ok h ?p" using Suc.prems(1) px False ppx by (rule halve_ok)
    have dm: "dom (map_of ?p) = dom (map_of p)" using px by (intro dom_dict_set) simp
    have lt: "h ppx < h x"
      using uf_okD(2) [OF Suc.prems(1) px False] uf_okD(2) [OF Suc.prems(1) ppx] by (cases "ppx = px") auto
    have in_p: "ppx \<in> dom (map_of p)" using uf_okD(1) [OF Suc.prems(1) ppx] by auto
    have "{y \<in> dom (map_of p). h y < h ppx} \<subset> {y \<in> dom (map_of p). h y < h x}"
      using lt in_p by auto
    then have "card {y \<in> dom (map_of ?p). h y < h ppx} < card {y \<in> dom (map_of p). h y < h x}"
      unfolding dm by (intro psubset_card_mono) (auto intro: finite_subset [OF _ finite_dom_map_of [of p]])
    with Suc.prems(3) have c: "card {y \<in> dom (map_of ?p). h y < h ppx} < fuel" by simp
    have "dict_get ?p ppx \<noteq> None" using in_p dm by blast
    then obtain q r where IH: "uf_find fuel ?p ppx = Some (q, r)" "uf_ok h q" "dom (map_of q) = dom (map_of ?p)"
      "uf_rep ?p ppx r" "\<forall>a s. uf_rep q a s \<longleftrightarrow> uf_rep ?p a s"
      using Suc.IH [OF ok _ c] by blast
    have eq: "uf_rep ?p a s \<longleftrightarrow> uf_rep p a s" for a s
      by (rule same_rep_transfer [OF Suc.prems(1) _ dm]) (rule halve_rep [OF Suc.prems(1) px False ppx])
    have "uf_rep p px r"
      using IH(4) eq ppx by (cases "ppx = px") (auto intro: uf_rep.step)
    then have "uf_rep p x r" using px False by (auto intro: uf_rep.step)
    then show ?thesis using px False ppx IH dm eq by auto
  qed
qed simp

text \<open>\<open>find\<close> always returns: the fuel of \<open>find_root\<close> is enough.\<close>

lemma find_root_ok:
  assumes "uf_ok h p" "dict_get p x \<noteq> None"
  obtains q r where "find_root p x = Some (q, r)" "uf_ok h q" "dom (map_of q) = dom (map_of p)"
    "uf_rep p x r" "\<And>a s. uf_rep q a s \<longleftrightarrow> uf_rep p a s"
proof -
  have "card {y \<in> dom (map_of p). h y < h x} \<le> card (fst ` set p)"
    by (intro card_mono) (auto simp: dom_map_of_conv_image_fst)
  also have "\<dots> \<le> length p" using card_image_le [of "set p" fst] card_length [of p] by simp
  finally show thesis
    using uf_find_ok [OF assms, of "Suc (length p)"] that unfolding find_root_def by auto
qed

subsection \<open>Union\<close>

text \<open>Linking two roots: every key of the first tree now leads to the second root.\<close>

lemma link_rep:
  assumes ok: "uf_ok h p" and ra: "dict_get p ra = Some ra" and rr: "dict_get p rr = Some rr" and ne: "ra \<noteq> rr"
  shows "uf_rep p a s \<Longrightarrow> uf_rep (dict_set p ra rr) a (if s = ra then rr else s)"
proof (induction rule: uf_rep.induct)
  case (root x)
  have rr': "uf_rep (dict_set p ra rr) rr rr" using rr ne by (intro uf_rep.root) (simp add: dict_get_set)
  show ?case
  proof (cases "x = ra")
    case True
    then show ?thesis using rr' ne by (auto intro!: uf_rep.step [of _ ra rr] simp: dict_get_set)
  next
    case False
    then show ?thesis using root by (auto intro!: uf_rep.root simp: dict_get_set)
  qed
next
  case (step x y r)
  then have "x \<noteq> ra" using ra by auto
  then show ?case using step by (intro uf_rep.step [of _ x y]) (auto simp: dict_get_set)
qed

lemma link_ok:
  assumes ok: "uf_ok h p" and ra: "dict_get p ra = Some ra" and rr: "dict_get p rr = Some rr" and ne: "ra \<noteq> rr"
  shows "uf_ok (\<lambda>x. if uf_rep p x ra then h x + h rr + 1 else h x) (dict_set p ra rr)"
proof -
  have "\<not> uf_rep p rr ra" using rr ne uf_rep_det uf_rep.root by metis
  moreover have "uf_rep p x ra \<longleftrightarrow> uf_rep p y ra" if "dict_get p x = Some y" "y \<noteq> x" for x y
    using that by (auto elim: uf_rep_elim intro: uf_rep.step)
  ultimately show ?thesis
    using ok ra rr ne uf_rep.root [OF ra] unfolding uf_ok_def
    by (auto simp: dict_get_set split: if_splits)
qed

lemma uf_same_link:
  assumes "uf_ok h p" "uf_rep p a ra" "uf_rep p b rr" "ra \<noteq> rr"
  shows "uf_same (dict_set p ra rr) x y \<longleftrightarrow>
    uf_same p x y \<or> (uf_same p x a \<and> uf_same p y b) \<or> (uf_same p x b \<and> uf_same p y a)"
proof -
  let ?q = "dict_set p ra rr"
  have roots: "dict_get p ra = Some ra" "dict_get p rr = Some rr" using assms uf_rep_root by blast+
  have dm: "dom (map_of ?q) = dom (map_of p)" using roots by (intro dom_dict_set) simp
  have fwd: "uf_rep p z s \<Longrightarrow> uf_rep ?q z (if s = ra then rr else s)" for z s
    using link_rep [OF assms(1) roots assms(4)] .
  have key: "uf_rep ?q z t \<longleftrightarrow> (\<exists>s. uf_rep p z s \<and> t = (if s = ra then rr else s))" for z t
  proof
    assume q: "uf_rep ?q z t"
    then obtain w where "dict_get p z = Some w" using uf_rep_dom dm by blast
    then obtain s where s: "uf_rep p z s" using uf_rep_total [OF assms(1)] by blast
    with fwd q uf_rep_det show "\<exists>s. uf_rep p z s \<and> t = (if s = ra then rr else s)" by blast
  qed (use fwd in blast)
  have a: "uf_same p z a \<longleftrightarrow> uf_rep p z ra" and b: "uf_same p z b \<longleftrightarrow> uf_rep p z rr" for z
    using assms(2,3) uf_rep_det unfolding uf_same_def by blast+
  show ?thesis
  proof
    assume "uf_same ?q x y"
    then obtain s t where "uf_rep p x s" "uf_rep p y t" "(if s = ra then rr else s) = (if t = ra then rr else t)"
      unfolding uf_same_def key by blast
    then show "uf_same p x y \<or> (uf_same p x a \<and> uf_same p y b) \<or> (uf_same p x b \<and> uf_same p y a)"
      unfolding a b unfolding uf_same_def by (auto split: if_splits)
  next
    assume "uf_same p x y \<or> (uf_same p x a \<and> uf_same p y b) \<or> (uf_same p x b \<and> uf_same p y a)"
    then obtain s t where "uf_rep p x s" "uf_rep p y t" "(if s = ra then rr else s) = (if t = ra then rr else t)"
      unfolding a b unfolding uf_same_def by (auto split: if_splits)
    then show "uf_same ?q x y" unfolding uf_same_def key by blast
  qed
qed

lemma uf_same_sym: "uf_same p x y \<Longrightarrow> uf_same p y x"
  unfolding uf_same_def by blast

lemma uf_same_trans: "uf_same p x y \<Longrightarrow> uf_same p y z \<Longrightarrow> uf_same p x z"
  unfolding uf_same_def using uf_rep_det by metis

lemma uf_same_refl: "uf_ok h p \<Longrightarrow> dict_get p x \<noteq> None \<Longrightarrow> uf_same p x x"
  unfolding uf_same_def using uf_rep_total by blast

lemma uf_same_dom: "uf_same p x y \<Longrightarrow> dict_get p x \<noteq> None \<and> dict_get p y \<noteq> None"
  unfolding uf_same_def using uf_rep_dom by blast

lemma union_step_ok:
  assumes ok: "uf_ok h p" and dm: "dict_get p a \<noteq> None" "dict_get p b \<noteq> None"
  obtains q h' where "union_step a b p = Some q" "uf_ok h' q" "dom (map_of q) = dom (map_of p)"
    "\<And>x y. uf_same q x y \<longleftrightarrow> uf_same p x y \<or> (uf_same p x a \<and> uf_same p y b) \<or> (uf_same p x b \<and> uf_same p y a)"
proof -
  obtain p1 ra where 1: "find_root p a = Some (p1, ra)" "uf_ok h p1" "dom (map_of p1) = dom (map_of p)"
    "uf_rep p a ra" "\<And>x s. uf_rep p1 x s \<longleftrightarrow> uf_rep p x s"
    using find_root_ok [OF ok dm(1)] by metis
  have "dict_get p1 b \<noteq> None" using 1(3) dm(2) by blast
  then obtain p2 rr where 2: "find_root p1 b = Some (p2, rr)" "uf_ok h p2" "dom (map_of p2) = dom (map_of p1)"
    "uf_rep p1 b rr" "\<And>x s. uf_rep p2 x s \<longleftrightarrow> uf_rep p1 x s"
    using find_root_ok [OF 1(2)] by metis
  have same: "uf_same p2 x y \<longleftrightarrow> uf_same p x y" for x y
    unfolding uf_same_def using 1(5) 2(5) by simp
  have reps: "uf_rep p2 a ra" "uf_rep p2 b rr" using 1 2 by simp_all
  show thesis
  proof (cases "ra = rr")
    case True
    then have "uf_same p2 a b" unfolding uf_same_def using reps by blast
    then have ab: "uf_same p a b" by (simp only: same)
    have "uf_same p x y" if "(uf_same p x a \<and> uf_same p y b) \<or> (uf_same p x b \<and> uf_same p y a)" for x y
      using that ab uf_same_sym uf_same_trans by meson
    then have "uf_same p2 x y \<longleftrightarrow> uf_same p x y \<or> (uf_same p x a \<and> uf_same p y b) \<or> (uf_same p x b \<and> uf_same p y a)" for x y
      unfolding same by blast
    moreover have "union_step a b p = Some p2" using 1(1) 2(1) True by (simp add: union_step_def)
    ultimately show thesis using that [of p2 h] 1(3) 2(2,3) by simp
  next
    case False
    have roots: "dict_get p2 ra = Some ra" "dict_get p2 rr = Some rr" using reps uf_rep_root by blast+
    have "dom (map_of (dict_set p2 ra rr)) = dom (map_of p)"
      using dom_dict_set [of p2 ra rr] roots 1(3) 2(3) by simp
    then show thesis
      using that [of "dict_set p2 ra rr"] 1 2 False link_ok [OF 2(2) roots False]
        uf_same_link [OF 2(2) reps False] same by (simp add: union_step_def)
  qed
qed

subsection \<open>The components\<close>

definition joined :: "nat list list \<Rightarrow> (nat \<times> nat) set" where
  "joined sgs = {(a, b). \<exists>sg \<in> set sgs. a \<in> set sg \<and> b \<in> set sg}"

lemma sym_joined: "sym (joined sgs)"
  by (auto simp: joined_def sym_def)

text \<open>
  What one run of merges keeps: it only grows the relation, and stays inside the closure of a
  symmetric relation that contains the pairs merged.
\<close>

definition grows :: "(nat \<times> nat) set \<Rightarrow> parents \<Rightarrow> parents \<Rightarrow> bool" where
  "grows R p q \<longleftrightarrow> (\<exists>h. uf_ok h q) \<and> dom (map_of q) = dom (map_of p) \<and>
     (\<forall>x y. uf_same p x y \<longrightarrow> uf_same q x y) \<and>
     ((\<forall>x y. uf_same p x y \<longrightarrow> (x, y) \<in> R\<^sup>*) \<longrightarrow> (\<forall>x y. uf_same q x y \<longrightarrow> (x, y) \<in> R\<^sup>*))"

lemma grows_refl: "uf_ok h p \<Longrightarrow> grows R p p"
  unfolding grows_def by blast

lemma grows_ex: "grows R p q \<Longrightarrow> \<exists>h. uf_ok h q"
  unfolding grows_def by blast

lemma growsD:
  assumes "grows R p q"
  shows "dom (map_of q) = dom (map_of p)" and "uf_same p x y \<Longrightarrow> uf_same q x y"
    and "(\<forall>x y. uf_same p x y \<longrightarrow> (x, y) \<in> R\<^sup>*) \<Longrightarrow> (\<forall>x y. uf_same q x y \<longrightarrow> (x, y) \<in> R\<^sup>*)"
  using assms unfolding grows_def by blast+

lemma grows_trans:
  assumes "grows R p q" "grows R q s"
  shows "grows R p s"
  unfolding grows_def
proof (intro conjI allI impI)
  show "\<exists>h. uf_ok h s" "dom (map_of s) = dom (map_of p)"
    using grows_ex [OF assms(2)] growsD(1) [OF assms(2)] growsD(1) [OF assms(1)] by simp_all
  show "uf_same s x y" if "uf_same p x y" for x y
    using that growsD(2) [OF assms(1)] growsD(2) [OF assms(2)] by blast
  show "(x, y) \<in> R\<^sup>*" if "\<forall>x y. uf_same p x y \<longrightarrow> (x, y) \<in> R\<^sup>*" "uf_same s x y" for x y
    using growsD(3) [OF assms(2) growsD(3) [OF assms(1) that(1)]] that(2) by blast
qed

lemma grows_step:
  assumes "uf_ok h p" "dict_get p a \<noteq> None" "dict_get p b \<noteq> None" "sym R" "(a, b) \<in> R"
  shows "\<exists>q. union_step a b p = Some q \<and> grows R p q \<and> uf_same q a b"
proof -
  obtain q h' where q: "union_step a b p = Some q" "uf_ok h' q" "dom (map_of q) = dom (map_of p)"
    "\<And>x y. uf_same q x y \<longleftrightarrow> uf_same p x y \<or> (uf_same p x a \<and> uf_same p y b) \<or> (uf_same p x b \<and> uf_same p y a)"
    using union_step_ok [OF assms(1-3)] by metis
  have ba: "(b, a) \<in> R" using assms(4,5) by (auto dest: symD)
  have R: "(x, y) \<in> R\<^sup>*"
    if inc: "\<forall>x y. uf_same p x y \<longrightarrow> (x, y) \<in> R\<^sup>*" and s: "uf_same q x y" for x y
  proof -
    have chain: "(x, y) \<in> R\<^sup>*" if "uf_same p x u" "uf_same p y v" "(u, v) \<in> R" for u v
      using that inc uf_same_sym [OF that(2)] by (meson r_into_rtrancl rtrancl_trans)
    show ?thesis using s inc chain [of a b] chain [of b a] assms(5) ba unfolding q(4) by blast
  qed
  have "uf_same q a b" using q(4) uf_same_refl [OF assms(1)] assms(2,3) by blast
  moreover have "grows R p q"
    unfolding grows_def
  proof (intro conjI allI impI)
    show "\<exists>h. uf_ok h q" "dom (map_of q) = dom (map_of p)" using q(2,3) by blast+
    show "uf_same q x y" if "uf_same p x y" for x y using that q(4) by blast
    show "(x, y) \<in> R\<^sup>*" if "\<forall>x y. uf_same p x y \<longrightarrow> (x, y) \<in> R\<^sup>*" "uf_same q x y" for x y
      using R that by blast
  qed
  ultimately show ?thesis using q(1) by blast
qed

lemma grows_rest:
  assumes "uf_ok h p" "dict_get p a \<noteq> None" "\<forall>r \<in> set rs. dict_get p r \<noteq> None \<and> (a, r) \<in> R" "sym R"
  shows "\<exists>q. union_rest a rs p = Some q \<and> grows R p q \<and> (\<forall>r \<in> set rs. uf_same q a r)"
  using assms
proof (induction rs arbitrary: p h)
  case Nil
  then show ?case using grows_refl by auto
next
  case (Cons r rs)
  then obtain q1 where q1: "union_step a r p = Some q1" "grows R p q1" "uf_same q1 a r"
    using grows_step [of h p a r R] by auto
  obtain h1 where h1: "uf_ok h1 q1" and d1: "dom (map_of q1) = dom (map_of p)"
    using grows_ex [OF q1(2)] growsD(1) [OF q1(2)] by blast
  have "dict_get q1 a \<noteq> None" "\<forall>r \<in> set rs. dict_get q1 r \<noteq> None \<and> (a, r) \<in> R"
    using Cons.prems(2,3) d1 by auto
  then obtain q where q: "union_rest a rs q1 = Some q" "grows R q1 q" "\<forall>r \<in> set rs. uf_same q a r"
    using Cons.IH [OF h1 _ _ Cons.prems(4)] by blast
  have "uf_same q a r" using growsD(2) [OF q(2) q1(3)] .
  moreover have "grows R p q" using q1(2) q(2) by (rule grows_trans)
  ultimately show ?case using q(1,3) q1(1) by simp
qed

lemma grows_groups:
  assumes "uf_ok h p" "\<forall>sg \<in> set sgs. sg \<noteq> [] \<and> (\<forall>r \<in> set sg. dict_get p r \<noteq> None)" "joined sgs \<subseteq> R" "sym R"
  shows "\<exists>q. union_groups sgs p = Some q \<and> grows R p q \<and> (\<forall>(a, b) \<in> joined sgs. uf_same q a b)"
  using assms
proof (induction sgs arbitrary: p h)
  case Nil
  then show ?case using grows_refl by (auto simp: joined_def)
next
  case (Cons sg sgs)
  obtain a rs where sg: "sg = a # rs" using Cons.prems(2) by (cases sg) auto
  have da: "dict_get p a \<noteq> None" and drs: "\<forall>r \<in> set rs. dict_get p r \<noteq> None \<and> (a, r) \<in> R"
    using Cons.prems(2,3) sg by (auto simp: joined_def)
  obtain q1 where q1: "union_rest a rs p = Some q1" "grows R p q1" "\<forall>r \<in> set rs. uf_same q1 a r"
    using grows_rest [OF Cons.prems(1) da drs Cons.prems(4)] by blast
  obtain h1 where h1: "uf_ok h1 q1" and d1: "dom (map_of q1) = dom (map_of p)"
    using grows_ex [OF q1(2)] growsD(1) [OF q1(2)] by blast
  have "dict_get q1 a \<noteq> None" using da d1 by blast
  then have a1: "\<forall>r \<in> set sg. uf_same q1 a r" using q1(3) uf_same_refl [OF h1] sg by auto
  have "\<forall>sg \<in> set sgs. sg \<noteq> [] \<and> (\<forall>r \<in> set sg. dict_get q1 r \<noteq> None)" "joined sgs \<subseteq> R"
    using Cons.prems(2,3) d1 by (auto simp: joined_def)
  then obtain q where q: "union_groups sgs q1 = Some q" "grows R q1 q" "\<forall>(a, b) \<in> joined sgs. uf_same q a b"
    using Cons.IH [OF h1 _ _ Cons.prems(4)] by blast
  have "uf_same q x y" if "x \<in> set sg" "y \<in> set sg" for x y
    using that a1 growsD(2) [OF q(2)] uf_same_sym [of q] uf_same_trans [of q] by blast
  then have "\<forall>(a, b) \<in> joined (sg # sgs). uf_same q a b"
    using q(3) by (auto simp: joined_def)
  moreover have "grows R p q" using q1(2) q(2) by (rule grows_trans)
  ultimately show ?case using q(1) q1(1) sg by simp
qed

lemma fold_self_get:
  "dict_get (fold (\<lambda>r p. dict_set p r r) xs p0) x = (if x \<in> set xs then Some x else dict_get p0 x)"
  by (induction xs arbitrary: p0) (auto simp: dict_get_set)

lemma init_parents_get: "dict_get (init_parents sgs) x = (if x \<in> set (concat sgs) then Some x else None)"
  unfolding init_parents_def using fold_self_get [of "concat sgs" "[]"] by simp

lemma init_parents_ok: "uf_ok h (init_parents sgs)"
  unfolding uf_ok_def init_parents_get by (auto split: if_splits)

lemma init_parents_same: "uf_same (init_parents sgs) x y \<Longrightarrow> x = y"
proof -
  have "uf_rep (init_parents sgs) a r \<Longrightarrow> a = r" for a r
    by (induction rule: uf_rep.induct) (auto simp: init_parents_get split: if_splits)
  then show "uf_same (init_parents sgs) x y \<Longrightarrow> x = y" unfolding uf_same_def by blast
qed

text \<open>After all merges two ranks have one root exactly when a chain of sub-groups links them.\<close>

lemma union_groups_components:
  assumes "\<forall>sg \<in> set sgs. sg \<noteq> []"
  obtains q h where "union_groups sgs (init_parents sgs) = Some q" "uf_ok h q"
    "dom (map_of q) = set (concat sgs)"
    "\<And>x y. uf_same q x y \<longleftrightarrow> x \<in> set (concat sgs) \<and> y \<in> set (concat sgs) \<and> (x, y) \<in> (joined sgs)\<^sup>*"
proof -
  let ?p = "init_parents sgs" and ?R = "joined sgs"
  have dm: "dom (map_of ?p) = set (concat sgs)" by (auto simp: init_parents_get dom_def)
  have "\<forall>sg \<in> set sgs. sg \<noteq> [] \<and> (\<forall>r \<in> set sg. dict_get ?p r \<noteq> None)"
    using assms by (auto simp: init_parents_get)
  then obtain q where q: "union_groups sgs ?p = Some q" "grows ?R ?p q" "\<forall>(a, b) \<in> ?R. uf_same q a b"
    using grows_groups [OF init_parents_ok _ subset_refl sym_joined] by blast
  obtain h where h: "uf_ok h q" using grows_ex [OF q(2)] by blast
  have dq: "dom (map_of q) = set (concat sgs)" using growsD(1) [OF q(2)] dm by simp
  have sound: "uf_same q x y \<Longrightarrow> (x, y) \<in> ?R\<^sup>*" for x y
    using growsD(3) [OF q(2)] init_parents_same by blast
  have complete: "(x, y) \<in> ?R\<^sup>* \<Longrightarrow> x \<in> set (concat sgs) \<Longrightarrow> uf_same q x y" for x y
  proof (induction rule: rtrancl_induct)
    case base
    then show ?case using uf_same_refl [OF h] dq by blast
  next
    case (step y z)
    then have "uf_same q x y" "uf_same q y z" using q(3) by blast+
    then show ?case by (rule uf_same_trans)
  qed
  have "uf_same q x y \<Longrightarrow> x \<in> set (concat sgs) \<and> y \<in> set (concat sgs)" for x y
    using uf_same_dom [of q x y] dq by (simp add: domIff set_eq_iff)
  then show thesis using that [OF q(1) h dq] sound complete by blast
qed

section \<open>Reduce-only entries\<close>

type_synonym cell_map = "(nat list, (nat \<times> nat list) list) dict"
type_synonym build_map = "(nat, cell_map) dict"

text \<open>\<open>expanded.setdefault(r, {}).setdefault(cell, [])\<close>.\<close>

definition setdefault_cell :: "build_map \<Rightarrow> nat \<Rightarrow> nat list \<Rightarrow> build_map" where
  "setdefault_cell e r cell =
     (let cells = dict_get_or e r []
      in dict_set e r (if dict_get cells cell = None then dict_set cells cell [] else cells))"

definition expand_cell :: "nat list \<Rightarrow> nat \<Rightarrow> nat list \<Rightarrow> build_map \<Rightarrow> build_map" where
  "expand_cell comp_ranks source_rank cell expanded =
     fold (\<lambda>r e. if r \<noteq> source_rank then setdefault_cell e r cell else e) comp_ranks expanded"

fun expand_ranks :: "build_map \<Rightarrow> parents \<Rightarrow> (nat, nat list) dict \<Rightarrow> build_map \<Rightarrow> build_map option" where
  "expand_ranks [] parent members expanded = Some expanded"
| "expand_ranks ((source_rank, cells) # rest) parent members expanded =
     (if dict_get parent source_rank = None then expand_ranks rest parent members expanded
      else Option.bind (find_root parent source_rank) (\<lambda>(parent', root).
        expand_ranks rest parent' members
          (fold (expand_cell (dict_get_or members root []) source_rank) (dict_keys cells) expanded)))"

fun partial_sub_groups :: "device_mesh \<Rightarrow> nat \<Rightarrow> placement list \<Rightarrow> nat list list result" where
  "partial_sub_groups mesh i [] = Inr []"
| "partial_sub_groups mesh i (Partial op # ps) =
     res_bind (enumerate_partial_subgroup_ranks mesh i) (\<lambda>sgs.
     res_bind (partial_sub_groups mesh (Suc i) ps) (\<lambda>rest. Inr (sgs @ rest)))"
| "partial_sub_groups mesh i (_ # ps) = partial_sub_groups mesh (Suc i) ps"

definition expand_partial_shadows :: "build_map \<Rightarrow> device_mesh \<Rightarrow> placement list \<Rightarrow> build_map result" where
  "expand_partial_shadows m source_mesh source_placements =
     res_bind (partial_sub_groups source_mesh 0 source_placements) (\<lambda>sub_groups.
       if sub_groups = [] then Inr m
       else
         (case Option.bind (union_groups sub_groups (init_parents sub_groups)) (\<lambda>parent.
               Option.bind (collect_members (dict_keys parent) parent []) (\<lambda>(parent', members).
                 expand_ranks m parent' members m)) of
            None \<Rightarrow> Inl KeyError
          | Some expanded \<Rightarrow> Inr expanded))"

subsection \<open>Lookup in the expanded map\<close>

definition m2_get :: "build_map \<Rightarrow> nat \<Rightarrow> nat list \<Rightarrow> (nat \<times> nat list) list option" where
  "m2_get m r c = Option.bind (dict_get m r) (\<lambda>cells. dict_get cells c)"

lemma m2_get_setdefault:
  "m2_get (setdefault_cell e r0 c0) r c =
     (if m2_get e r c = None \<and> r = r0 \<and> c = c0 then Some [] else m2_get e r c)"
  by (auto simp: m2_get_def setdefault_cell_def dict_get_or_def dict_get_set Let_def split: option.splits)

lemma m2_get_expand_cell:
  "m2_get (expand_cell comp_ranks s c0 e) r c =
     (if m2_get e r c = None \<and> r \<in> set comp_ranks \<and> r \<noteq> s \<and> c = c0 then Some [] else m2_get e r c)"
proof (induction comp_ranks arbitrary: e r c)
  case (Cons a comp_ranks)
  have "expand_cell (a # comp_ranks) s c0 e
      = expand_cell comp_ranks s c0 (if a \<noteq> s then setdefault_cell e a c0 else e)"
    by (simp add: expand_cell_def)
  then show ?case
    by (cases "a = s"; cases "c = c0"; cases "r = a"; cases "m2_get e r c") (simp_all add: Cons m2_get_setdefault)
qed (simp add: expand_cell_def)

lemma m2_get_expand_cells:
  "m2_get (fold (expand_cell comp_ranks s) cs e) r c =
     (if m2_get e r c = None \<and> r \<in> set comp_ranks \<and> r \<noteq> s \<and> c \<in> set cs then Some [] else m2_get e r c)"
proof (induction cs arbitrary: e r c)
  case (Cons c1 cs)
  then show ?case by (cases "c = c1"; cases "m2_get e r c") (simp_all add: m2_get_expand_cell)
qed simp

lemma collect_members_ok:
  assumes "uf_ok h p" "\<forall>r \<in> set rs. dict_get p r \<noteq> None"
  shows "\<exists>q members'. collect_members rs p members = Some (q, members') \<and> uf_ok h q \<and>
    dom (map_of q) = dom (map_of p) \<and> (\<forall>a s. uf_rep q a s \<longleftrightarrow> uf_rep p a s) \<and>
    (\<forall>root x. x \<in> set (dict_get_or members' root []) \<longleftrightarrow>
       x \<in> set (dict_get_or members root []) \<or> (x \<in> set rs \<and> uf_rep p x root))"
  using assms
proof (induction rs arbitrary: p members)
  case (Cons r rs)
  obtain p1 root where 1: "find_root p r = Some (p1, root)" "uf_ok h p1" "dom (map_of p1) = dom (map_of p)"
    "uf_rep p r root" "\<And>a s. uf_rep p1 a s \<longleftrightarrow> uf_rep p a s"
    using find_root_ok [OF Cons.prems(1)] Cons.prems(2) by (metis list.set_intros(1))
  have dr: "\<forall>r \<in> set rs. dict_get p1 r \<noteq> None" using Cons.prems(2) 1(3) by auto
  let ?m = "dict_set members root (dict_get_or members root [] @ [r])"
  obtain q members' where q: "collect_members rs p1 ?m = Some (q, members')" "uf_ok h q"
    "dom (map_of q) = dom (map_of p1)" "\<forall>a s. uf_rep q a s \<longleftrightarrow> uf_rep p1 a s"
    "\<forall>root x. x \<in> set (dict_get_or members' root []) \<longleftrightarrow>
       x \<in> set (dict_get_or ?m root []) \<or> (x \<in> set rs \<and> uf_rep p1 x root)"
    using Cons.IH [OF 1(2) dr, of ?m] by blast
  have "x \<in> set (dict_get_or members' rt []) \<longleftrightarrow>
      x \<in> set (dict_get_or members rt []) \<or> (x \<in> set (r # rs) \<and> uf_rep p x rt)" for x rt
    using q(5) 1(4,5) uf_rep_det by (auto simp: dict_get_or_set)
  then show ?case using q(1-4) 1 by (intro exI [of _ q] exI [of _ members']) simp
qed auto

lemma expand_ranks_ok:
  assumes "uf_ok h p" "\<And>root x. x \<in> set (dict_get_or members root []) \<longleftrightarrow> uf_rep p x root"
  shows "\<exists>e'. expand_ranks m p members e = Some e' \<and>
    (\<forall>r c. m2_get e' r c =
      (if m2_get e r c = None \<and> (\<exists>(s, cells) \<in> set m. c \<in> set (dict_keys cells) \<and> uf_same p s r \<and> r \<noteq> s)
       then Some [] else m2_get e r c))"
  using assms
proof (induction m arbitrary: p e)
  case (Cons sc m)
  obtain s cells where sc: "sc = (s, cells)" by (cases sc)
  show ?case
  proof (cases "dict_get p s")
    case None
    then have "\<not> uf_same p s r" for r using uf_same_dom by blast
    then show ?thesis using Cons.IH [OF Cons.prems] None by (simp add: sc)
  next
    case (Some y)
    then have "dict_get p s \<noteq> None" by simp
    then obtain p1 root where 1: "find_root p s = Some (p1, root)" "uf_ok h p1" "dom (map_of p1) = dom (map_of p)"
      "uf_rep p s root" "\<And>a t. uf_rep p1 a t \<longleftrightarrow> uf_rep p a t"
      using find_root_ok [OF Cons.prems(1)] by metis
    let ?e = "fold (expand_cell (dict_get_or members root []) s) (dict_keys cells) e"
    have same: "uf_same p1 a b \<longleftrightarrow> uf_same p a b" for a b unfolding uf_same_def using 1(5) by simp
    have root: "x \<in> set (dict_get_or members root []) \<longleftrightarrow> uf_same p s x" for x
      using Cons.prems(2) 1(4) uf_rep_det unfolding uf_same_def by blast
    obtain e' where e': "expand_ranks m p1 members ?e = Some e'"
      "\<forall>r c. m2_get e' r c =
        (if m2_get ?e r c = None \<and> (\<exists>(s, cells) \<in> set m. c \<in> set (dict_keys cells) \<and> uf_same p1 s r \<and> r \<noteq> s)
         then Some [] else m2_get ?e r c)"
      using Cons.IH [OF 1(2), of ?e] Cons.prems(2) 1(5) by auto
    have "expand_ranks (sc # m) p members e = Some e'" using Some 1(1) e'(1) by (simp add: sc)
    moreover have "m2_get e' r c =
      (if m2_get e r c = None \<and> (\<exists>(s, cells) \<in> set (sc # m). c \<in> set (dict_keys cells) \<and> uf_same p s r \<and> r \<noteq> s)
       then Some [] else m2_get e r c)" for r c
      unfolding e'(2) [rule_format] m2_get_expand_cells root same by (auto simp: sc)
    ultimately show ?thesis by blast
  qed
qed simp

subsection \<open>The expansion as a whole\<close>

lemma prod_list_pos: "prod_list xs \<noteq> (0::nat) \<Longrightarrow> x \<in> set xs \<Longrightarrow> 0 < x"
  by (induction xs) auto

lemma subgroups_nonempty:
  assumes "mesh_ok m" "enumerate_partial_subgroup_ranks m d = Inr sgs" "sg \<in> set sgs"
  shows "sg \<noteq> []"
proof -
  have d: "d < length (mesh_shape m)" and l: "length sg = mesh_shape m ! d"
    using assms(2,3) by (auto simp: enumerate_partial_subgroup_ranks_def mesh_line_def Let_def split: if_splits)
  have "prod_list (mesh_shape m) \<noteq> 0" using assms(1) by (metis mesh_ok_def length_0_conv)
  then have "0 < mesh_shape m ! d" using d by (intro prod_list_pos) auto
  then show ?thesis using l by auto
qed

lemma partial_sub_groups_nonempty:
  "mesh_ok m \<Longrightarrow> partial_sub_groups m i ps = Inr sgs \<Longrightarrow> \<forall>sg \<in> set sgs. sg \<noteq> []"
  by (induction m i ps arbitrary: sgs rule: partial_sub_groups.induct)
     (auto simp: res_simps dest: subgroups_nonempty)

lemma expand_partial_shadows_ok:
  assumes "mesh_ok mesh" "partial_sub_groups mesh 0 pls = Inr sgs"
  shows "\<exists>e. expand_partial_shadows m mesh pls = Inr e \<and> (\<forall>r c. m2_get e r c =
    (if m2_get m r c = None \<and> (\<exists>(s, cells) \<in> set m. c \<in> set (dict_keys cells) \<and> r \<noteq> s
          \<and> s \<in> set (concat sgs) \<and> r \<in> set (concat sgs) \<and> (s, r) \<in> (joined sgs)\<^sup>*)
     then Some [] else m2_get m r c))"
proof (cases "sgs = []")
  case True
  then show ?thesis using assms(2) by (auto simp: expand_partial_shadows_def)
next
  case False
  have "\<forall>sg \<in> set sgs. sg \<noteq> []" using assms by (rule partial_sub_groups_nonempty)
  then obtain p h where p: "union_groups sgs (init_parents sgs) = Some p" "uf_ok h p"
    "dom (map_of p) = set (concat sgs)"
    "\<And>x y. uf_same p x y \<longleftrightarrow> x \<in> set (concat sgs) \<and> y \<in> set (concat sgs) \<and> (x, y) \<in> (joined sgs)\<^sup>*"
    using union_groups_components by metis
  have "\<forall>r \<in> set (dict_keys p). dict_get p r \<noteq> None" by (auto simp: set_dict_keys)
  then obtain q ms where q: "collect_members (dict_keys p) p [] = Some (q, ms)" "uf_ok h q"
    "\<forall>a s. uf_rep q a s \<longleftrightarrow> uf_rep p a s"
    "\<forall>root x. x \<in> set (dict_get_or ms root []) \<longleftrightarrow>
       x \<in> set (dict_get_or [] root []) \<or> (x \<in> set (dict_keys p) \<and> uf_rep p x root)"
    using collect_members_ok [OF p(2), of "dict_keys p" "[]"] by blast
  have mem: "x \<in> set (dict_get_or ms root []) \<longleftrightarrow> uf_rep q x root" for root x
    using q(3,4) uf_rep_dom [of p x root] by (auto simp: dict_get_or_def set_dict_keys)
  have same: "uf_same q a b \<longleftrightarrow> uf_same p a b" for a b unfolding uf_same_def using q(3) by simp
  obtain e where e: "expand_ranks m q ms m = Some e" "\<forall>r c. m2_get e r c =
      (if m2_get m r c = None \<and> (\<exists>(s, cells) \<in> set m. c \<in> set (dict_keys cells) \<and> uf_same q s r \<and> r \<noteq> s)
       then Some [] else m2_get m r c)"
    using expand_ranks_ok [OF q(2) mem] by blast
  have "expand_partial_shadows m mesh pls = Inr e"
    using assms(2) False p(1) q(1) e(1) by (simp add: expand_partial_shadows_def)
  moreover have "m2_get e r c =
    (if m2_get m r c = None \<and> (\<exists>(s, cells) \<in> set m. c \<in> set (dict_keys cells) \<and> r \<noteq> s
          \<and> s \<in> set (concat sgs) \<and> r \<in> set (concat sgs) \<and> (s, r) \<in> (joined sgs)\<^sup>*)
     then Some [] else m2_get m r c)" for r c
    unfolding e(2) [rule_format] same p(4) by (rule if_cong) auto
  ultimately show ?thesis by blast
qed

text \<open>Well-formed build maps: no key occurs twice, on either level. Every update keeps it.\<close>

definition build_ok :: "build_map \<Rightarrow> bool" where
  "build_ok m \<longleftrightarrow> distinct (dict_keys m) \<and> (\<forall>(s, cells) \<in> set m. distinct (dict_keys cells))"

lemma build_ok_get: "build_ok m \<Longrightarrow> dict_get m r = Some cells \<Longrightarrow> distinct (dict_keys cells)"
  by (auto simp: build_ok_def dest: map_of_SomeD)

lemma build_ok_get_or: "build_ok m \<Longrightarrow> distinct (dict_keys (dict_get_or m r []))"
  by (auto simp: dict_get_or_def build_ok_get split: option.splits)

lemma build_ok_set: "build_ok m \<Longrightarrow> distinct (dict_keys cells) \<Longrightarrow> build_ok (dict_set m r cells)"
  using set_dict_set_subset [of r cells m] unfolding build_ok_def by auto

lemma build_ok_setdefault: "build_ok e \<Longrightarrow> build_ok (setdefault_cell e r c)"
  unfolding setdefault_cell_def Let_def by (intro build_ok_set) (simp_all add: build_ok_get_or)

lemma build_ok_expand_cell: "build_ok e \<Longrightarrow> build_ok (expand_cell comp_ranks s c e)"
  unfolding expand_cell_def by (induction comp_ranks arbitrary: e) (auto simp: build_ok_setdefault)

lemma build_ok_fold_expand: "build_ok e \<Longrightarrow> build_ok (fold (expand_cell comp_ranks s) cs e)"
  by (induction cs arbitrary: e) (auto simp: build_ok_expand_cell)

lemma build_ok_expand_ranks: "build_ok e \<Longrightarrow> expand_ranks m p ms e = Some e' \<Longrightarrow> build_ok e'"
  by (induction m p ms e rule: expand_ranks.induct)
     (auto simp: build_ok_fold_expand bind_eq_Some_conv split: if_splits)

lemma build_ok_expand: "build_ok m \<Longrightarrow> expand_partial_shadows m mesh pls = Inr e \<Longrightarrow> build_ok e"
  by (auto simp: expand_partial_shadows_def res_simps bind_eq_Some_conv
      intro: build_ok_expand_ranks split: if_splits option.splits)

text \<open>
  C15. Partial expansion: with the Partial sub-groups of the source mesh, the expanded map keeps
  every entry it had, and adds an empty (reduce-only) entry for rank \<open>r\<close> at cell \<open>c\<close>
  exactly when another rank ships cell \<open>c\<close> that a chain of sub-groups sharing members links
  to \<open>r\<close>. So every member of a connected component reaches every reduce of the component,
  and nobody else is drawn in. The union-find behind it always returns.
\<close>

theorem partial_shadows_exact:
  assumes "mesh_ok mesh" "partial_sub_groups mesh 0 pls = Inr sgs"
  shows "\<exists>e. expand_partial_shadows m mesh pls = Inr e \<and> (\<forall>r c. m2_get e r c =
    (if m2_get m r c = None \<and> (\<exists>(s, cells) \<in> set m. c \<in> set (dict_keys cells) \<and> r \<noteq> s
          \<and> s \<in> set (concat sgs) \<and> r \<in> set (concat sgs) \<and> (s, r) \<in> (joined sgs)\<^sup>*)
     then Some [] else m2_get m r c))"
  using assms by (rule expand_partial_shadows_ok)

theorem partial_shadows_exact_witness:
  "\<exists>e. expand_partial_shadows [(0, [([0], [(8, [0])])])]
         \<lparr>mesh_shape = [2, 2], mesh_ranks = [0, 1, 2, 3]\<rparr> [Partial ''sum'', Partial ''sum''] = Inr e
     \<and> m2_get e 3 [0] = Some []"
proof -
  let ?m = "[(0, [([0], [(8, [0])])])] :: build_map"
  let ?mesh = "\<lparr>mesh_shape = [2, 2], mesh_ranks = [0, 1, 2, 3]\<rparr>"
  let ?sgs = "[[0, 2], [1, 3], [0, 1], [2, 3]] :: nat list list"
  have sg: "partial_sub_groups ?mesh 0 [Partial ''sum'', Partial ''sum''] = Inr ?sgs" by code_simp
  have ok: "mesh_ok ?mesh" by (simp add: mesh_ok_def)
  have "(0, 2) \<in> joined ?sgs" "(2, 3) \<in> joined ?sgs" by (auto simp: joined_def)
  then have "(0, 3) \<in> (joined ?sgs)\<^sup>*" by (meson r_into_rtrancl rtrancl_trans)
  then show ?thesis
    using partial_shadows_exact [OF ok sg, of ?m] by (auto simp: m2_get_def dict_keys_def)
qed

end
