(* ===== verification/DTensor_Reference.thy ===== *)
theory DTensor_Reference
  imports M2M_Trace
begin

text \<open>
  A concrete instance of the DTensor parameter, used by the witnesses to show that the
  documented behaviour \<open>dtensor_ok\<close> can hold: contiguous equal blocks, earlier mesh
  dimensions coarser, and \<open>full_tensor\<close> reading every block from a rank of the reader's own
  replica. It models no code of the repository.
\<close>

definition ref_coords :: "device_mesh \<Rightarrow> nat \<Rightarrow> nat list" where
  "ref_coords m r = grid (mesh_shape m) ! py_index_of (mesh_ranks m) r"

definition ref_dims :: "placement list \<Rightarrow> nat \<Rightarrow> nat list" where
  "ref_dims pl d = filter (\<lambda>i. pl ! i = Shard (int d)) [0..<length pl]"

definition ref_count :: "device_mesh \<Rightarrow> placement list \<Rightarrow> nat \<Rightarrow> nat" where
  "ref_count m pl d = prod_list (map ((!) (mesh_shape m)) (ref_dims pl d))"

definition ref_block :: "device_mesh \<Rightarrow> placement list \<Rightarrow> nat \<Rightarrow> nat \<Rightarrow> nat" where
  "ref_block m pl r d =
     ravel (map ((!) (mesh_shape m)) (ref_dims pl d)) (map ((!) (ref_coords m r)) (ref_dims pl d))"

definition ref_pos :: "device_mesh \<Rightarrow> placement list \<Rightarrow> nat list \<Rightarrow> nat \<Rightarrow> nat list \<Rightarrow> nat list" where
  "ref_pos m pl lsh r x = map (\<lambda>d. ref_block m pl r d * lsh ! d + x ! d) [0..<length lsh]"

definition ref_local_shape :: "device_mesh \<Rightarrow> placement list \<Rightarrow> nat list \<Rightarrow> nat list" where
  "ref_local_shape m pl shape = map (\<lambda>d. shape ! d div ref_count m pl d) [0..<length shape]"

definition ref_replica :: "device_mesh \<Rightarrow> placement list \<Rightarrow> nat \<Rightarrow> nat list" where
  "ref_replica m pl r = map ((!) (ref_coords m r)) (filter (\<lambda>i. pl ! i = Replicate) [0..<length pl])"

definition ref_owner :: "device_mesh \<Rightarrow> placement list \<Rightarrow> nat list \<Rightarrow> nat \<Rightarrow> nat list \<Rightarrow> (nat \<times> nat list) option" where
  "ref_owner m pl lsh r g =
     List.find (\<lambda>(q, x). ref_pos m pl lsh q x = g \<and> ref_replica m pl q = ref_replica m pl r)
       (List.product (mesh_ranks m) (grid lsh))"

definition ref_api :: dtensor_api where
  "ref_api =
     \<lparr>to_local = (\<lambda>m pl r t.
        let lsh = ref_local_shape m pl (nd_shape t)
        in \<lparr>nd_shape = lsh, nd_at = (\<lambda>x. nd_at t (ref_pos m pl lsh r x))\<rparr>),
      full_tensor = (\<lambda>m pl r locals.
        let lsh = nd_shape (locals (hd (mesh_ranks m)))
        in \<lparr>nd_shape = map (\<lambda>d. lsh ! d * ref_count m pl d) [0..<length lsh],
            nd_at = (\<lambda>g. case ref_owner m pl lsh r g of None \<Rightarrow> 0 | Some (q, x) \<Rightarrow> nd_at (locals q) x)\<rparr>)\<rparr>"

definition ref_check :: "m2m_side \<Rightarrow> nat list \<Rightarrow> nat list \<Rightarrow> bool" where
  "ref_check side shape lsh =
     (let m = side_mesh side; pl = side_placements side in
      mesh_ranks m \<noteq> [] \<and> ref_local_shape m pl shape = lsh
      \<and> map (\<lambda>d. lsh ! d * ref_count m pl d) [0..<length lsh] = shape
      \<and> list_all (\<lambda>r. list_all (\<lambda>x. in_shape shape (ref_pos m pl lsh r x)) (grid lsh)) (mesh_ranks m)
      \<and> list_all (\<lambda>r. list_all (\<lambda>g. ref_owner m pl lsh r g \<noteq> None) (grid shape)) (mesh_ranks m))"

lemma find_SomeD: "List.find P xs = Some x \<Longrightarrow> x \<in> set xs \<and> P x"
  by (induction xs) (auto split: if_splits)

lemma ref_owner_Some:
  assumes "ref_owner m pl lsh r g = Some (q, x)"
  shows "q \<in> set (mesh_ranks m)" "in_shape lsh x" "ref_pos m pl lsh q x = g"
  using find_SomeD [OF assms [unfolded ref_owner_def]] by (auto simp: set_product)

lemma ref_api_ok:
  assumes "ref_check side shape lsh"
  shows "dtensor_ok ref_api (ref_pos (side_mesh side) (side_placements side) lsh) side shape lsh"
proof -
  let ?m = "side_mesh side" and ?pl = "side_placements side"
  have c: "mesh_ranks ?m \<noteq> []" "ref_local_shape ?m ?pl shape = lsh"
    "map (\<lambda>d. lsh ! d * ref_count ?m ?pl d) [0..<length lsh] = shape"
    "\<forall>r \<in> set (mesh_ranks ?m). \<forall>x. in_shape lsh x \<longrightarrow> in_shape shape (ref_pos ?m ?pl lsh r x)"
    "\<forall>r \<in> set (mesh_ranks ?m). \<forall>g. in_shape shape g \<longrightarrow> ref_owner ?m ?pl lsh r g \<noteq> None"
    using assms by (simp_all add: ref_check_def Let_def list_all_iff)
  show ?thesis
    unfolding dtensor_ok_def
  proof (intro conjI ballI allI impI)
    fix r t x assume r: "r \<in> set (mesh_ranks ?m)" and t: "nd_shape (t :: ndarray) = shape"
    show "nd_shape (to_local ref_api ?m ?pl r t) = lsh" using c(2) t by (simp add: ref_api_def Let_def)
    assume x: "in_shape lsh x"
    show "in_shape shape (ref_pos ?m ?pl lsh r x)" using c(4) r x by blast
    show "nd_at (to_local ref_api ?m ?pl r t) x = nd_at t (ref_pos ?m ?pl lsh r x)"
      using c(2) t by (simp add: ref_api_def Let_def)
  next
    fix r locals g
    assume r: "r \<in> set (mesh_ranks ?m)" and l: "\<forall>q \<in> set (mesh_ranks ?m). nd_shape (locals q :: ndarray) = lsh"
    have h: "nd_shape (locals (hd (mesh_ranks ?m))) = lsh" using c(1) l by simp
    show "nd_shape (full_tensor ref_api ?m ?pl r locals) = shape" using c(3) h by (simp add: ref_api_def Let_def)
    assume g: "in_shape shape g"
    obtain q x where qx: "ref_owner ?m ?pl lsh r g = Some (q, x)" using c(5) r g by fastforce
    then show "\<exists>q \<in> set (mesh_ranks ?m). \<exists>x. in_shape lsh x \<and> ref_pos ?m ?pl lsh q x = g \<and>
        nd_at (full_tensor ref_api ?m ?pl r locals) g = nd_at (locals q) x"
      using ref_owner_Some [OF qx] h by (auto simp: ref_api_def Let_def intro!: bexI [of _ q] exI [of _ x])
  qed
qed

end
