(* ===== verification/M2M_Map.thy ===== *)
theory M2M_Map
  imports Partial_Shadows DTensor_Reference
begin

text \<open>
  The second half of \<^verbatim>\<open>src/etha/comm/get_m2m_map.py\<close>: every rank's part of the map, the
  merge of the gathered parts, the expansion for Partial sources and the canonical list of
  routes. \<open>dist.all_gather_object\<close> hands every rank the same list, one part per rank of the
  pair's group in group order, so the result does not depend on the calling rank.
\<close>

section \<open>Routes\<close>

definition route_kind :: "(nat \<times> nat list) list \<Rightarrow> transport" where
  "route_kind dsts = (if dsts = [] then NONE else if 1 < length dsts then BROADCAST else P2P)"

definition mk_route :: "nat \<Rightarrow> nat list \<Rightarrow> (nat \<times> nat list) list \<Rightarrow> route" where
  "mk_route s c dsts =
     \<lparr>r_src = \<lparr>ep_rank = s, ep_cell = c\<rparr>,
      r_dsts = map (\<lambda>(r, c). \<lparr>ep_rank = r, ep_cell = c\<rparr>) dsts,
      r_kind = route_kind dsts\<rparr>"

definition cells_to_routes :: "nat \<Rightarrow> cell_map \<Rightarrow> route list" where
  "cells_to_routes s cells = map (\<lambda>c. mk_route s c (dict_get_or cells c [])) (sort (dict_keys cells))"

definition dict_to_routes :: "build_map \<Rightarrow> route list" where
  "dict_to_routes m = concat (map (\<lambda>s. cells_to_routes s (dict_get_or m s [])) (sort (dict_keys m)))"

section \<open>Planning the grid\<close>

definition has_partial :: "placement list \<Rightarrow> bool" where
  "has_partial ps \<longleftrightarrow> (\<exists>op. Partial op \<in> set ps)"

lemma has_partial_code [code]:
  "has_partial [] = False" "has_partial (p # ps) = ((case p of Partial _ \<Rightarrow> True | _ \<Rightarrow> False) \<or> has_partial ps)"
  by (auto simp: has_partial_def split: placement.splits)

fun partial_reductions :: "nat \<Rightarrow> placement list \<Rightarrow> (nat \<times> string) list" where
  "partial_reductions i [] = []"
| "partial_reductions i (Partial op # ps) = (i, op) # partial_reductions (Suc i) ps"
| "partial_reductions i (_ # ps) = partial_reductions (Suc i) ps"

fun effective_placement :: "placement \<Rightarrow> placement" where
  "effective_placement (Partial op) = Replicate"
| "effective_placement p = p"

record grid_plan =
  middle_shape :: "nat list"
  source_slicers :: "nat list"
  target_slicers :: "nat list"
  tag_base :: nat

text \<open>
  The shapes part: \<open>math.lcm\<close> per dimension, the slicer counts, and the tag base
  \<open>max(middle_tensor_shape) + 1\<close>.
\<close>

definition m2m_plan :: "m2m_side \<Rightarrow> m2m_side \<Rightarrow> grid_plan result" where
  "m2m_plan src tgt =
     (let ndim = max (get_tensor_ndim (side_placements src)) (get_tensor_ndim (side_placements tgt)) in
      res_bind (get_shard_shape (mesh_shape (side_mesh src)) (side_placements src) ndim) (\<lambda>so.
      res_bind (get_shard_shape (mesh_shape (side_mesh tgt)) (side_placements tgt) ndim) (\<lambda>st.
      let middle = map2 lcm so st in
      res_bind (res_mapM (\<lambda>(o', m, t). py_div m o') (zip so (zip middle st))) (\<lambda>sn.
      res_bind (res_mapM (\<lambda>(o', m, t). py_div m t) (zip so (zip middle st))) (\<lambda>tn.
      if middle = [] then Inl ValueError
      else Inr \<lparr>middle_shape = middle, source_slicers = sn, target_slicers = tn,
                tag_base = Max (set middle) + 1\<rparr>)))))"

section \<open>The parts and their merge\<close>

text \<open>\<open>m2m_map[s][c].extend(l)\<close> on a dictionary of dictionaries of lists.\<close>

definition extend_cell :: "nat \<Rightarrow> nat list \<Rightarrow> (nat \<times> nat list) list \<Rightarrow> build_map \<Rightarrow> build_map" where
  "extend_cell s c l m =
     (let cells = dict_get_or m s [] in dict_set m s (dict_set cells c (dict_get_or cells c [] @ l)))"

definition rank_m2m_map :: "dtensor_api \<Rightarrow> m2m_side \<Rightarrow> m2m_side \<Rightarrow> grid_plan \<Rightarrow> nat \<Rightarrow> build_map" where
  "rank_m2m_map api src tgt plan rank =
     (if rank \<in> set (mesh_ranks (side_mesh tgt)) then
        fold (\<lambda>idx m. case traced_source api src tgt (middle_shape plan) (tag_base plan) rank idx of
                        (s, c) \<Rightarrow> extend_cell s c [(rank, idx)] m)
          (grid (nd_shape (local_target_shard api src tgt (middle_shape plan) (tag_base plan) rank))) []
      else [])"

definition merge_cells :: "nat \<Rightarrow> cell_map \<Rightarrow> build_map \<Rightarrow> build_map" where
  "merge_cells s cells m = fold (\<lambda>(c, l). extend_cell s c l) cells m"

definition merge_map :: "build_map \<Rightarrow> build_map \<Rightarrow> build_map" where
  "merge_map part m = fold (\<lambda>(s, cells). merge_cells s cells) part m"

definition merge_maps :: "build_map option list \<Rightarrow> build_map" where
  "merge_maps parts = fold (\<lambda>part m. case part of None \<Rightarrow> m | Some p \<Rightarrow> merge_map p m) parts []"

text \<open>
  The gathered list has one slot per source and per target rank; the group fills its first
  slots, the others stay \<open>None\<close> when the two sides overlap.
\<close>

definition gathered_maps :: "dtensor_api \<Rightarrow> m2m_side \<Rightarrow> m2m_side \<Rightarrow> grid_plan \<Rightarrow> nat list \<Rightarrow> build_map option list" where
  "gathered_maps api src tgt plan group_ranks =
     map (\<lambda>r. Some (rank_m2m_map api src tgt plan r)) group_ranks
     @ replicate (length (mesh_ranks (side_mesh src)) + length (mesh_ranks (side_mesh tgt)) - length group_ranks) None"

definition get_m2m_map ::
  "dtensor_api \<Rightarrow> device_mesh \<Rightarrow> placement list \<Rightarrow> device_mesh \<Rightarrow> placement list \<Rightarrow> nat list \<Rightarrow> m2m_map result" where
  "get_m2m_map api source_mesh source_placements target_mesh target_placements group_ranks =
     (if has_partial target_placements then Inl NotImplementedError
      else
        let src = \<lparr>side_mesh = source_mesh, side_placements = map effective_placement source_placements\<rparr>;
            tgt = \<lparr>side_mesh = target_mesh, side_placements = target_placements\<rparr>
        in
        res_bind (m2m_plan src tgt) (\<lambda>plan.
        res_bind (expand_partial_shadows (merge_maps (gathered_maps api src tgt plan group_ranks))
                    source_mesh source_placements) (\<lambda>final.
        Inr \<lparr>m2m_routes = Some (dict_to_routes final),
             m2m_source_num_slicers = Some (source_slicers plan),
             m2m_target_num_slicers = Some (target_slicers plan),
             m2m_source_partial_reductions = partial_reductions 0 source_placements\<rparr>)))"

abbreviation source_side :: "device_mesh \<Rightarrow> placement list \<Rightarrow> m2m_side" where
  "source_side mesh pl \<equiv> \<lparr>side_mesh = mesh, side_placements = map effective_placement pl\<rparr>"

abbreviation target_side :: "device_mesh \<Rightarrow> placement list \<Rightarrow> m2m_side" where
  "target_side mesh pl \<equiv> \<lparr>side_mesh = mesh, side_placements = pl\<rparr>"

section \<open>Entries of the merged map\<close>

definition m2_list :: "build_map \<Rightarrow> nat \<Rightarrow> nat list \<Rightarrow> (nat \<times> nat list) list" where
  "m2_list m s c = (case m2_get m s c of None \<Rightarrow> [] | Some l \<Rightarrow> l)"

lemma m2_get_Nil [simp]: "m2_get [] s c = None"
  by (simp add: m2_get_def)

lemma m2_get_extend:
  "m2_get (extend_cell s c l m) r d = (if r = s \<and> d = c then Some (m2_list m s c @ l) else m2_get m r d)"
  by (auto simp: m2_get_def m2_list_def extend_cell_def dict_get_or_def dict_get_set Let_def split: option.splits)

lemma m2_list_extend:
  "m2_list (extend_cell s c l m) r d = m2_list m r d @ (if r = s \<and> d = c then l else [])"
  by (auto simp: m2_list_def m2_get_extend)

lemma build_ok_Nil [simp]: "build_ok []"
  by (simp add: build_ok_def)

lemma build_ok_extend: "build_ok m \<Longrightarrow> build_ok (extend_cell s c l m)"
  unfolding extend_cell_def Let_def by (intro build_ok_set distinct_dict_keys_set build_ok_get_or)

text \<open>No empty entry is ever made before the expansion.\<close>

definition no_empty :: "build_map \<Rightarrow> bool" where
  "no_empty m \<longleftrightarrow> (\<forall>s c. m2_get m s c \<noteq> Some [])"

lemma no_empty_extend: "no_empty m \<Longrightarrow> l \<noteq> [] \<Longrightarrow> no_empty (extend_cell s c l m)"
  by (simp add: no_empty_def m2_get_extend)

lemma no_empty_get: "no_empty m \<Longrightarrow> m2_get m s c = (if m2_list m s c = [] then None else Some (m2_list m s c))"
  by (auto simp: no_empty_def m2_list_def split: option.splits)

text \<open>A part is a fold of single appends.\<close>

lemma fold_trace:
  fixes tr :: "nat list \<Rightarrow> nat \<times> nat list"
  shows "m2_list (fold (\<lambda>idx m. case tr idx of (s, c) \<Rightarrow> extend_cell s c [(rank, idx)] m) xs m) s c
      = m2_list m s c @ map (\<lambda>idx. (rank, idx)) (filter (\<lambda>idx. tr idx = (s, c)) xs)"
    and "build_ok m \<Longrightarrow> build_ok (fold (\<lambda>idx m. case tr idx of (s, c) \<Rightarrow> extend_cell s c [(rank, idx)] m) xs m)"
    and "no_empty m \<Longrightarrow> no_empty (fold (\<lambda>idx m. case tr idx of (s, c) \<Rightarrow> extend_cell s c [(rank, idx)] m) xs m)"
  by (induction xs arbitrary: m)
     (auto simp: m2_list_extend build_ok_extend no_empty_extend split: prod.splits)

lemma merge_cells_list:
  "distinct (dict_keys cells) \<Longrightarrow>
   m2_list (merge_cells s cells m) r d = m2_list m r d @ (if r = s then dict_get_or cells d [] else [])"
proof (induction cells arbitrary: m)
  case (Cons cl cells)
  obtain c l where cl: "cl = (c, l)" by (cases cl)
  have fresh: "dict_get cells c = None" using Cons.prems cl by (auto simp: dict_keys_def map_of_eq_None_iff)
  have "merge_cells s (cl # cells) m = merge_cells s cells (extend_cell s c l m)"
    by (simp add: merge_cells_def cl)
  then show ?case
    using Cons fresh cl by (auto simp: m2_list_extend dict_get_or_def dict_keys_def)
qed (simp add: merge_cells_def dict_get_or_def)

lemma merge_map_list:
  "build_ok part \<Longrightarrow> m2_list (merge_map part m) r d = m2_list m r d @ m2_list part r d"
proof (induction part arbitrary: m)
  case (Cons sc part)
  obtain s cells where sc: "sc = (s, cells)" by (cases sc)
  have ok: "build_ok part" and dc: "distinct (dict_keys cells)" and fresh: "dict_get part s = None"
    using Cons.prems sc by (auto simp: build_ok_def dict_keys_def map_of_eq_None_iff)
  have "merge_map (sc # part) m = merge_map part (merge_cells s cells m)"
    by (simp add: merge_map_def sc)
  then show ?case
    using Cons.IH [OF ok] merge_cells_list [OF dc] fresh sc
    by (auto simp: m2_list_def m2_get_def dict_get_or_def split: option.splits)
qed (simp add: merge_map_def m2_list_def)

lemma merge_cells_ok: "build_ok m \<Longrightarrow> build_ok (merge_cells s cells m)"
  unfolding merge_cells_def by (induction cells arbitrary: m) (auto simp: build_ok_extend)

lemma merge_map_ok: "build_ok m \<Longrightarrow> build_ok (merge_map part m)"
  unfolding merge_map_def by (induction part arbitrary: m) (auto simp: merge_cells_ok)

lemma no_empty_parts:
  assumes "build_ok part" "no_empty part" "(s, cells) \<in> set part" "(c, l) \<in> set cells"
  shows "l \<noteq> []"
proof -
  have "dict_get part s = Some cells" "dict_get cells c = Some l"
    using assms(1,3,4) by (auto simp: build_ok_def dict_keys_def)
  then have "m2_get part s c = Some l" by (simp add: m2_get_def)
  then show ?thesis using assms(2) by (auto simp: no_empty_def)
qed

lemma merge_cells_no_empty:
  "no_empty m \<Longrightarrow> (\<And>c l. (c, l) \<in> set cells \<Longrightarrow> l \<noteq> []) \<Longrightarrow> no_empty (merge_cells s cells m)"
  unfolding merge_cells_def
proof (induction cells arbitrary: m)
  case (Cons cl cells)
  obtain c l where cl: "cl = (c, l)" by (cases cl)
  have "no_empty (extend_cell s c l m)" using Cons.prems(1) Cons.prems(2) [of c l] cl by (simp add: no_empty_extend)
  moreover have "l' \<noteq> []" if "(c', l') \<in> set cells" for c' l' using Cons.prems(2) [of c' l'] that by simp
  ultimately show ?case using Cons.IH cl by simp
qed simp

lemma fold_merge_no_empty:
  "no_empty m \<Longrightarrow> (\<And>s cells c l. (s, cells) \<in> set part \<Longrightarrow> (c, l) \<in> set cells \<Longrightarrow> l \<noteq> [])
   \<Longrightarrow> no_empty (merge_map part m)"
  unfolding merge_map_def
proof (induction part arbitrary: m)
  case (Cons sc part)
  obtain s cells where sc: "sc = (s, cells)" by (cases sc)
  have "no_empty (merge_cells s cells m)"
    using Cons.prems(1) Cons.prems(2) [of s cells] sc by (intro merge_cells_no_empty) auto
  moreover have "l \<noteq> []" if "(s', cells') \<in> set part" "(c, l) \<in> set cells'" for s' cells' c l
    using Cons.prems(2) [of s' cells' c l] that by simp
  ultimately show ?case using Cons.IH sc by simp
qed simp

lemma merge_map_no_empty: "no_empty m \<Longrightarrow> build_ok part \<Longrightarrow> no_empty part \<Longrightarrow> no_empty (merge_map part m)"
  by (rule fold_merge_no_empty) (auto dest: no_empty_parts)

lemma merge_parts:
  assumes "\<forall>p \<in> set parts. build_ok p \<and> no_empty p"
  shows "m2_list (merge_maps (map Some parts @ replicate k None)) s c = concat (map (\<lambda>p. m2_list p s c) parts)"
    and "build_ok (merge_maps (map Some parts @ replicate k None))"
    and "no_empty (merge_maps (map Some parts @ replicate k None))"
proof -
  let ?f = "\<lambda>part m. case part of None \<Rightarrow> m | Some p \<Rightarrow> merge_map p m"
  have nones: "fold ?f (replicate k None) m = m" for m :: build_map
    by (induction k) auto
  have "m2_list (fold ?f (map Some parts) m) s c = m2_list m s c @ concat (map (\<lambda>p. m2_list p s c) parts)
      \<and> (build_ok m \<longrightarrow> build_ok (fold ?f (map Some parts) m))
      \<and> (no_empty m \<longrightarrow> no_empty (fold ?f (map Some parts) m))" for m
    using assms
    by (induction parts arbitrary: m) (auto simp: merge_map_list merge_map_ok merge_map_no_empty)
  from this [of "[]"] show "m2_list (merge_maps (map Some parts @ replicate k None)) s c = concat (map (\<lambda>p. m2_list p s c) parts)"
    and "build_ok (merge_maps (map Some parts @ replicate k None))"
    and "no_empty (merge_maps (map Some parts @ replicate k None))"
    unfolding merge_maps_def fold_append comp_apply nones
    by (simp_all add: m2_list_def no_empty_def)
qed

text \<open>The destinations of a source cell, before the expansion.\<close>

definition cell_targets :: "dtensor_api \<Rightarrow> m2m_side \<Rightarrow> m2m_side \<Rightarrow> grid_plan \<Rightarrow> nat list \<Rightarrow> nat \<Rightarrow> nat list \<Rightarrow> (nat \<times> nat list) list" where
  "cell_targets api src tgt plan group_ranks s c =
     concat (map (\<lambda>r. map (\<lambda>idx. (r, idx))
       (filter (\<lambda>idx. traced_source api src tgt (middle_shape plan) (tag_base plan) r idx = (s, c))
         (grid (nd_shape (local_target_shard api src tgt (middle_shape plan) (tag_base plan) r)))))
       (filter (\<lambda>r. r \<in> set (mesh_ranks (side_mesh tgt))) group_ranks))"

lemma rank_m2m_map_ok:
  "build_ok (rank_m2m_map api src tgt plan r)" "no_empty (rank_m2m_map api src tgt plan r)"
proof -
  have "no_empty []" by (simp add: no_empty_def)
  then show "build_ok (rank_m2m_map api src tgt plan r)" "no_empty (rank_m2m_map api src tgt plan r)"
    by (auto simp: rank_m2m_map_def intro!: fold_trace)
qed

lemma merged_gathered:
  shows "m2_list (merge_maps (gathered_maps api src tgt plan grp)) s c = cell_targets api src tgt plan grp s c"
    and "build_ok (merge_maps (gathered_maps api src tgt plan grp))"
    and "no_empty (merge_maps (gathered_maps api src tgt plan grp))"
proof -
  let ?parts = "map (rank_m2m_map api src tgt plan) grp"
  have g: "gathered_maps api src tgt plan grp = map Some ?parts @
      replicate (length (mesh_ranks (side_mesh src)) + length (mesh_ranks (side_mesh tgt)) - length grp) None"
    by (simp add: gathered_maps_def comp_def)
  have ok: "\<forall>p \<in> set ?parts. build_ok p \<and> no_empty p" using rank_m2m_map_ok by auto
  show "build_ok (merge_maps (gathered_maps api src tgt plan grp))"
    "no_empty (merge_maps (gathered_maps api src tgt plan grp))"
    unfolding g by (rule merge_parts [OF ok])+
  have "m2_list (rank_m2m_map api src tgt plan r) s c =
      (if r \<in> set (mesh_ranks (side_mesh tgt)) then
        map (\<lambda>idx. (r, idx))
         (filter (\<lambda>idx. traced_source api src tgt (middle_shape plan) (tag_base plan) r idx = (s, c))
         (grid (nd_shape (local_target_shard api src tgt (middle_shape plan) (tag_base plan) r)))) else [])" for r
    by (simp add: rank_m2m_map_def fold_trace) (simp_all add: m2_list_def)
  then have "concat (map (\<lambda>p. m2_list p s c) ?parts) = cell_targets api src tgt plan grp s c"
    unfolding cell_targets_def by (induction grp) auto
  then show "m2_list (merge_maps (gathered_maps api src tgt plan grp)) s c = cell_targets api src tgt plan grp s c"
    unfolding g merge_parts(1) [OF ok] .
qed

section \<open>The list of routes\<close>

definition route_key :: "route \<Rightarrow> nat \<times> nat list" where
  "route_key rt = (ep_rank (r_src rt), ep_cell (r_src rt))"

lemma route_key_mk [simp]: "route_key (mk_route s c l) = (s, c)"
  by (simp add: route_key_def mk_route_def)

lemma set_dict_to_routes:
  assumes "build_ok m"
  shows "rt \<in> set (dict_to_routes m) \<longleftrightarrow> (\<exists>s c l. m2_get m s c = Some l \<and> rt = mk_route s c l)"
proof -
  have "rt \<in> set (dict_to_routes m) \<longleftrightarrow>
      (\<exists>s cells c l. dict_get m s = Some cells \<and> dict_get cells c = Some l \<and> rt = mk_route s c l)"
    by (force simp: dict_to_routes_def cells_to_routes_def set_dict_keys dict_get_or_def dom_def)
  then show ?thesis by (auto simp: m2_get_def bind_eq_Some_conv)
qed

text \<open>Routes come in ascending order of source rank, then cell, and no source cell twice.\<close>

definition key_less :: "nat \<times> nat list \<Rightarrow> nat \<times> nat list \<Rightarrow> bool" where
  "key_less a b \<longleftrightarrow> fst a < fst b \<or> (fst a = fst b \<and> snd a < snd b)"

lemma sorted_wrt_strict: "distinct xs \<Longrightarrow> sorted_wrt (<) (sort (xs :: 'a::linorder list))"
  by (simp add: strict_sorted_iff)

lemma sorted_wrt_concat:
  assumes "sorted_wrt (<) ks" "\<And>k. k \<in> set ks \<Longrightarrow> sorted_wrt R (f k)"
    and "\<And>k l x y. k < l \<Longrightarrow> x \<in> set (f k) \<Longrightarrow> y \<in> set (f l) \<Longrightarrow> R x y"
  shows "sorted_wrt R (concat (map f (ks :: 'a::linorder list)))"
  using assms by (induction ks) (auto simp: sorted_wrt_append)

lemma dict_to_routes_sorted:
  assumes "build_ok m"
  shows "sorted_wrt (\<lambda>a b. key_less (route_key a) (route_key b)) (dict_to_routes m)"
  unfolding dict_to_routes_def
proof (rule sorted_wrt_concat)
  show "sorted_wrt (<) (sort (dict_keys m))"
    using assms by (intro sorted_wrt_strict) (simp add: build_ok_def)
next
  fix s assume "s \<in> set (sort (dict_keys m))"
  have "distinct (dict_keys (dict_get_or m s []))" using assms by (rule build_ok_get_or)
  then have "sorted_wrt (<) (sort (dict_keys (dict_get_or m s [])))" by (rule sorted_wrt_strict)
  then show "sorted_wrt (\<lambda>a b. key_less (route_key a) (route_key b)) (cells_to_routes s (dict_get_or m s []))"
    by (simp add: cells_to_routes_def sorted_wrt_map key_less_def)
next
  fix s t x y assume "s < t" "x \<in> set (cells_to_routes s (dict_get_or m s []))" "y \<in> set (cells_to_routes t (dict_get_or m t []))"
  then show "key_less (route_key x) (route_key y)"
    by (auto simp: cells_to_routes_def key_less_def)
qed

section \<open>Correctness of the map\<close>

lemma m2m_planD:
  assumes "m2m_plan src tgt = Inr plan"
  shows "length (source_slicers plan) = length (middle_shape plan)"
    and "length (target_slicers plan) = length (middle_shape plan)"
    and "\<forall>n \<in> set (source_slicers plan). n < tag_base plan"
proof -
  obtain so st sn tn where p: "plan = \<lparr>middle_shape = map2 lcm so st, source_slicers = sn, target_slicers = tn,
      tag_base = Max (set (map2 lcm so st)) + 1\<rparr>"
    and ne: "map2 lcm so st \<noteq> []"
    and sn: "res_mapM (\<lambda>(o', m, t). py_div m o') (zip so (zip (map2 lcm so st) st)) = Inr sn"
    and tn: "res_mapM (\<lambda>(o', m, t). py_div m t) (zip so (zip (map2 lcm so st) st)) = Inr tn"
    using assms by (auto simp: m2m_plan_def Let_def res_simps split: if_splits)
  show "length (source_slicers plan) = length (middle_shape plan)"
    "length (target_slicers plan) = length (middle_shape plan)"
    using res_mapM_length [OF sn] res_mapM_length [OF tn] by (simp_all add: p)
  have "n < tag_base plan" if n: "n \<in> set sn" for n
  proof -
    obtain i where i: "i < length sn" "n = sn ! i" using n by (auto simp: in_set_conv_nth)
    let ?m = "map2 lcm so st"
    have il: "i < length so" "i < length st" "i < length ?m" using i(1) res_mapM_length [OF sn] by simp_all
    have "n = ?m ! i div so ! i"
      using res_mapM_nth [OF sn, of i] i il by (simp add: res_simps)
    then have "n \<le> ?m ! i" by simp
    also have "\<dots> \<le> Max (set ?m)" using il(3) by (intro Max_ge nth_mem) auto
    finally show ?thesis by (simp add: p)
  qed
  then show "\<forall>n \<in> set (source_slicers plan). n < tag_base plan" by (simp add: p)
qed

definition endpoint_pair :: "endpoint \<Rightarrow> nat \<times> nat list" where
  "endpoint_pair e = (ep_rank e, ep_cell e)"

lemma endpoint_pairs_mk [simp]: "map endpoint_pair (r_dsts (mk_route s c l)) = l"
  by (simp add: mk_route_def endpoint_pair_def comp_def case_prod_beta)

lemma count_list_concat: "count_list (concat xss) x = sum_list (map (\<lambda>xs. count_list xs x) xss)"
  by (induction xss) (auto simp: count_list_append)

lemma sum_list_one:
  "distinct (map f xs) \<Longrightarrow> k \<in> f ` set xs \<Longrightarrow> sum_list (map (\<lambda>x. if f x = k then 1 else 0 :: nat) xs) = 1"
proof (induction xs)
  case (Cons x xs)
  have z: "sum_list (map (\<lambda>x. if f x = k then 1 else 0 :: nat) xs) = 0" if "k \<notin> f ` set xs"
    using that by (induction xs) auto
  show ?case using Cons z by (cases "f x = k") auto
qed simp

lemma count_list_distinct: "distinct xs \<Longrightarrow> count_list xs x = (if x \<in> set xs then 1 else 0)"
  by (induction xs) auto

lemma cell_targets_set:
  "(q, d) \<in> set (cell_targets api src tgt plan grp s c) \<longleftrightarrow>
     q \<in> set grp \<and> q \<in> set (mesh_ranks (side_mesh tgt)) \<and>
     in_shape (nd_shape (local_target_shard api src tgt (middle_shape plan) (tag_base plan) q)) d \<and>
     traced_source api src tgt (middle_shape plan) (tag_base plan) q d = (s, c)"
  by (auto simp: cell_targets_def)

lemma cell_targets_distinct: "distinct grp \<Longrightarrow> distinct (cell_targets api src tgt plan grp s c)"
  unfolding cell_targets_def
  by (induction grp) (auto simp: distinct_map distinct_grid inj_on_def)

text \<open>The routes of the finished map: their destinations are the traced targets of their cell.\<close>

lemma get_m2m_map_routes:
  assumes m: "get_m2m_map api smesh spl tmesh tpl grp = Inr m2m"
    and plan: "m2m_plan (source_side smesh spl)
        (target_side tmesh tpl) = Inr plan"
    and mesh: "mesh_ok smesh"
  obtains rts where "m2m_routes m2m = Some rts"
    "sorted_wrt (\<lambda>a b. key_less (route_key a) (route_key b)) rts"
    "\<And>rt. rt \<in> set rts \<Longrightarrow> rt = mk_route (fst (route_key rt)) (snd (route_key rt))
       (cell_targets api (source_side smesh spl)
         (target_side tmesh tpl) plan grp (fst (route_key rt)) (snd (route_key rt)))"
    "\<And>s c. cell_targets api (source_side smesh spl)
         (target_side tmesh tpl) plan grp s c \<noteq> [] \<Longrightarrow> (s, c) \<in> route_key ` set rts"
proof -
  let ?src = "source_side smesh spl"
  let ?tgt = "target_side tmesh tpl"
  let ?m0 = "merge_maps (gathered_maps api ?src ?tgt plan grp)"
  obtain e where e: "expand_partial_shadows ?m0 smesh spl = Inr e" and r: "m2m_routes m2m = Some (dict_to_routes e)"
    using m plan by (auto simp: get_m2m_map_def Let_def res_simps split: if_splits)
  obtain sgs where "partial_sub_groups smesh 0 spl = Inr sgs"
    using e by (auto simp: expand_partial_shadows_def res_simps)
  then have get: "m2_get e s c = m2_get ?m0 s c \<or> m2_get ?m0 s c = None \<and> m2_get e s c = Some []" for s c
    using expand_partial_shadows_ok [OF mesh, of spl sgs ?m0] e by (auto split: if_splits)
  have ok: "build_ok e" using build_ok_expand [OF merged_gathered(2) e] .
  have m0: "m2_get ?m0 s c = (if cell_targets api ?src ?tgt plan grp s c = [] then None
      else Some (cell_targets api ?src ?tgt plan grp s c))" for s c
    using no_empty_get [OF merged_gathered(3)] merged_gathered(1) by simp
  show thesis
  proof (rule that [OF r dict_to_routes_sorted [OF ok]])
    fix rt assume "rt \<in> set (dict_to_routes e)"
    then obtain s c l where "m2_get e s c = Some l" "rt = mk_route s c l"
      using set_dict_to_routes [OF ok] by blast
    moreover from this(1) have "l = cell_targets api ?src ?tgt plan grp s c"
      using get [of s c] m0 [of s c] by (auto split: if_splits)
    ultimately show "rt = mk_route (fst (route_key rt)) (snd (route_key rt))
       (cell_targets api ?src ?tgt plan grp (fst (route_key rt)) (snd (route_key rt)))" by simp
  next
    fix s c assume "cell_targets api ?src ?tgt plan grp s c \<noteq> []"
    then have "m2_get e s c \<noteq> None" using get [of s c] m0 [of s c] by auto
    then obtain l where "m2_get e s c = Some l" by blast
    then have "mk_route s c l \<in> set (dict_to_routes e)" using set_dict_to_routes [OF ok] by blast
    then show "(s, c) \<in> route_key ` set (dict_to_routes e)" by (metis image_eqI route_key_mk)
  qed
qed

text \<open>The pieces of the correctness proof, under the hypotheses the trace needs.\<close>

lemma traced_cell:
  assumes "m2m_plan src tgt = Inr plan" "mesh_ranks (side_mesh src) \<noteq> []"
    and "dtensor_ok api spos src (middle_shape plan) (source_slicers plan)"
    and "dtensor_ok api tpos tgt (middle_shape plan) (target_slicers plan)"
    and "\<forall>r \<in> set (mesh_ranks (side_mesh src)). (r + 1) * tag_base plan ^ length (middle_shape plan) \<le> 2 ^ 24"
    and "q \<in> set (mesh_ranks (side_mesh tgt))" "in_shape (target_slicers plan) d"
  obtains s c where "traced_source api src tgt (middle_shape plan) (tag_base plan) q d = (s, c)"
    "s \<in> set (mesh_ranks (side_mesh src))" "in_shape (source_slicers plan) c" "spos s c = tpos q d"
  using traced_source_ok [OF assms(3,4,2,6,7), of "tag_base plan"] m2m_planD [OF assms(1)] assms(5) by auto

lemma target_shard_shape:
  assumes "mesh_ranks (side_mesh src) \<noteq> []" "dtensor_ok api spos src middle slocal"
    and "dtensor_ok api tpos tgt middle tlocal" "q \<in> set (mesh_ranks (side_mesh tgt))"
  shows "nd_shape (local_target_shard api src tgt middle base q) = tlocal"
proof -
  obtain s where s: "s \<in> set (mesh_ranks (side_mesh src))"
    "full_tensor_restored api src (mesh_ranks (side_mesh tgt)) middle base q = source_full api src middle base s"
    using full_tensor_restored_source [OF assms(1)] by blast
  then show ?thesis
    using source_full_shape [OF assms(2) s(1)] dtensor_ok_local(1) [OF assms(3,4)]
    by (simp add: local_target_shard_def)
qed

lemma routes_distinct_keys:
  "sorted_wrt (\<lambda>a b. key_less (route_key a) (route_key b)) rts \<Longrightarrow> distinct (map route_key rts)"
  by (induction rts) (auto simp: key_less_def)

text \<open>
  Routes with pairwise distinct source cells, whose destinations are the cells \<open>tr\<close> traces
  to them, deliver a target cell once.
\<close>

lemma delivered_once:
  fixes tr :: "nat \<Rightarrow> nat list \<Rightarrow> nat \<times> nat list"
  assumes "distinct (map route_key rts)" "tr q d \<in> route_key ` set rts"
    and "\<And>rt. rt \<in> set rts \<Longrightarrow>
      count_list (map endpoint_pair (r_dsts rt)) (q, d) = (if route_key rt = tr q d then 1 else 0)"
  shows "count_list (map endpoint_pair (concat (map r_dsts rts))) (q, d) = 1"
proof -
  have "count_list (map endpoint_pair (concat (map r_dsts rts))) (q, d)
      = sum_list (map (\<lambda>rt. count_list (map endpoint_pair (r_dsts rt)) (q, d)) rts)"
    by (simp add: map_concat count_list_concat comp_def)
  also have "\<dots> = sum_list (map (\<lambda>rt. if route_key rt = tr q d then 1 else 0) rts)"
    using assms(3) by (intro arg_cong [where f = sum_list] map_cong) auto
  also have "\<dots> = 1" using assms(1,2) by (rule sum_list_one)
  finally show ?thesis .
qed

section \<open>Success of the planning\<close>

text \<open>One placement per mesh dimension at most, and only non-negative tensor dimensions.\<close>

definition placements_ok :: "device_mesh \<Rightarrow> placement list \<Rightarrow> bool" where
  "placements_ok mesh pl \<longleftrightarrow> length pl \<le> length (mesh_shape mesh) \<and> (\<forall>d. Shard d \<in> set pl \<longrightarrow> 0 \<le> d)"

lemma shard_dims_set: "d \<in> set (shard_dims pl) \<longleftrightarrow> Shard d \<in> set pl"
  by (induction pl rule: shard_dims.induct) auto

lemma fold_max_ge: "x \<in> set (d # ds) \<Longrightarrow> x \<le> fold max ds (d :: int)"
proof (induction ds arbitrary: d x)
  case (Cons y ds)
  have "max y d \<le> fold max ds (max y d)" using Cons.IH [of "max y d"] by (simp only: list.set_intros)
  with Cons show ?case by auto
qed simp

lemma shard_dim_less: "Shard d \<in> set pl \<Longrightarrow> d < get_tensor_ndim pl"
  unfolding shard_dims_set [symmetric] get_tensor_ndim_def
  using fold_max_ge [of d] by (auto split: list.splits simp: zle_add1_eq_le)

lemma get_tensor_ndim_pos: "(\<And>d. Shard d \<in> set pl \<Longrightarrow> 0 \<le> d) \<Longrightarrow> 0 < get_tensor_ndim pl"
  using shard_dim_less [of _ pl] shard_dims_set [of _ pl]
  by (cases "shard_dims pl") (force simp: get_tensor_ndim_def)+

lemma mesh_shape_pos: "mesh_ok m \<Longrightarrow> x \<in> set (mesh_shape m) \<Longrightarrow> 0 < x"
  by (metis length_0_conv mesh_ok_def prod_list_pos)

lemma shard_shape_loop_total:
  assumes "\<And>d. Shard d \<in> set pl \<Longrightarrow> 0 \<le> d \<and> d < int (length sh)" "i + length pl \<le> length mesh"
    and "\<forall>x \<in> set mesh. 0 < x" "\<forall>x \<in> set sh. 0 < x"
  shows "\<exists>sh'. shard_shape_loop mesh pl i sh = Inr sh' \<and> length sh' = length sh \<and> (\<forall>x \<in> set sh'. 0 < x)"
  using assms
proof (induction mesh pl i sh rule: shard_shape_loop.induct)
  case (2 mesh d ps i sh)
  have d: "0 \<le> d" "d < int (length sh)" using 2(2) by auto
  then have k: "py_index (length sh) d = Inr (nat d)" "nat d < length sh" by (auto simp: py_index_def)
  have i: "i < length mesh" using 2(3) by simp
  let ?sh = "sh[nat d := sh ! nat d * mesh ! i]"
  have pos: "\<forall>x \<in> set ?sh. 0 < x"
    using 2(4,5) i k(2) by (metis in_set_conv_nth insertE nth_mem set_update_subset_insert subsetD nat_0_less_mult_iff)
  have "\<exists>sh'. shard_shape_loop mesh ps (Suc i) ?sh = Inr sh' \<and> length sh' = length ?sh \<and> (\<forall>x \<in> set sh'. 0 < x)"
    using 2(1) [of "nat d" "mesh ! i"] 2(2,3,4) pos by simp
  then show ?case using k i by (simp add: py_nth_def)
qed auto

lemma effective_shard: "Shard d \<in> set (map effective_placement pl) \<longleftrightarrow> Shard d \<in> set pl"
proof -
  have e: "Shard d = effective_placement p \<longleftrightarrow> p = Shard d" for p by (cases p) auto
  show ?thesis by (simp add: image_iff e)
qed

lemma get_shard_shape_total:
  assumes "mesh_ok mesh" "length pl \<le> length (mesh_shape mesh)" "\<And>d. Shard d \<in> set pl \<Longrightarrow> 0 \<le> d"
    and "get_tensor_ndim pl \<le> n"
  shows "\<exists>sh. get_shard_shape (mesh_shape mesh) pl n = Inr sh \<and> length sh = nat n \<and> (\<forall>x \<in> set sh. 0 < x)"
proof -
  have "0 \<le> d \<and> d < int (length (replicate (nat n) (1::nat)))" if "Shard d \<in> set pl" for d
    using assms(3) [OF that] shard_dim_less [OF that] assms(4) by simp
  then show ?thesis
    using shard_shape_loop_total [of pl "replicate (nat n) 1" 0 "mesh_shape mesh"] assms(2) mesh_shape_pos [OF assms(1)]
    unfolding get_shard_shape_def by simp
qed

lemma m2m_plan_total:
  assumes "mesh_ok smesh" "mesh_ok tmesh" "placements_ok smesh spl" "placements_ok tmesh tpl"
  shows "\<exists>plan. m2m_plan (source_side smesh spl) (target_side tmesh tpl) = Inr plan"
proof -
  let ?spl = "map effective_placement spl"
  let ?n = "max (get_tensor_ndim ?spl) (get_tensor_ndim tpl)"
  have sp: "length ?spl \<le> length (mesh_shape smesh)" "\<And>d. Shard d \<in> set ?spl \<Longrightarrow> 0 \<le> d"
    and tp: "length tpl \<le> length (mesh_shape tmesh)" "\<And>d. Shard d \<in> set tpl \<Longrightarrow> 0 \<le> d"
    using assms(3,4) unfolding placements_ok_def effective_shard by simp_all
  obtain so where so: "get_shard_shape (mesh_shape smesh) ?spl ?n = Inr so" "length so = nat ?n" "\<forall>x \<in> set so. 0 < x"
    using get_shard_shape_total [OF assms(1) sp, of ?n] by auto
  obtain st where st: "get_shard_shape (mesh_shape tmesh) tpl ?n = Inr st" "length st = nat ?n" "\<forall>x \<in> set st. 0 < x"
    using get_shard_shape_total [OF assms(2) tp, of ?n] by auto
  let ?z = "zip so (zip (map2 lcm so st) st)"
  have "0 < get_tensor_ndim tpl" by (rule get_tensor_ndim_pos) (rule tp(2))
  then have "so \<noteq> []" "st \<noteq> []" using so(2) st(2) by auto
  then have ne: "map2 lcm so st \<noteq> []" by simp
  have "res_mapM (\<lambda>(o', m, t). py_div m o') ?z = Inr (map (\<lambda>(o', m, t). m div o') ?z)"
    "res_mapM (\<lambda>(o', m, t). py_div m t) ?z = Inr (map (\<lambda>(o', m, t). m div t) ?z)"
    using so(3) st(3) by (auto intro!: res_mapM_Inr simp: py_div_def dest: set_zip_leftD dest: set_zip_rightD [OF set_zip_rightD])
  then show ?thesis using so(1) st(1) ne by (simp add: m2m_plan_def Let_def)
qed

lemma partial_sub_groups_total:
  "i + length pl \<le> length (mesh_shape mesh) \<Longrightarrow> \<exists>sgs. partial_sub_groups mesh i pl = Inr sgs"
  by (induction mesh i pl rule: partial_sub_groups.induct)
     (auto simp: enumerate_partial_subgroup_ranks_def Let_def)

lemma mk_route_kind:
  "r_kind (mk_route s c l) = (if r_dsts (mk_route s c l) = [] then NONE
     else if length (r_dsts (mk_route s c l)) = 1 then P2P else BROADCAST)"
  by (cases l) (auto simp: mk_route_def route_kind_def)

section \<open>The exchange\<close>

lemma send_recv_iff:
  assumes "distinct source_ranks" "distinct target_ranks" "s \<in> set source_ranks"
  shows "t \<in> set (send_targets source_ranks target_ranks s) \<longleftrightarrow>
    t \<in> set target_ranks \<and> t \<notin> set source_ranks \<and> recv_source source_ranks target_ranks t = s"
proof -
  let ?n = "length source_ranks" and ?k = "py_index_of source_ranks s" and ?j = "py_index_of target_ranks t"
  have k: "?k < ?n" "source_ranks ! ?k = s" using py_index_of_less [OF assms(3)] by auto
  have "recv_source source_ranks target_ranks t = s \<longleftrightarrow> ?j mod ?n = ?k"
    unfolding recv_source_def using k assms(1)
    by (metis py_index_of_nth mod_less_divisor length_pos_if_in_set assms(3))
  moreover have "t \<in> set (send_targets source_ranks target_ranks s) \<longleftrightarrow>
      (\<exists>i. ?k \<le> i \<and> i < length target_ranks \<and> i mod ?n = ?k \<and> target_ranks ! i = t \<and> t \<notin> set source_ranks)"
    by (auto simp: send_targets_def)
  moreover have "?k \<le> i" if "i mod ?n = ?k" for i using that mod_less_eq_dividend by metis
  ultimately show ?thesis
    using py_index_of_less [of t target_ranks] py_index_of_nth [OF assms(2)] by (metis nth_mem)
qed

text \<open>Every route, a shadow's included, starts at a cell that some rank is asked for.\<close>

lemma m2m_route_cells:
  assumes m: "get_m2m_map api smesh spl tmesh tpl grp = Inr m2m"
    and plan: "m2m_plan (source_side smesh spl) (target_side tmesh tpl) = Inr plan" and mesh: "mesh_ok smesh"
    and rt: "m2m_routes m2m = Some rts" "rt \<in> set rts"
  shows "\<exists>s. cell_targets api (source_side smesh spl) (target_side tmesh tpl) plan grp s (ep_cell (r_src rt)) \<noteq> []"
proof -
  let ?src = "source_side smesh spl" and ?tgt = "target_side tmesh tpl"
  let ?m0 = "merge_maps (gathered_maps api ?src ?tgt plan grp)"
  obtain e where e: "expand_partial_shadows ?m0 smesh spl = Inr e" "rts = dict_to_routes e"
    using m plan rt(1) by (auto simp: get_m2m_map_def Let_def res_simps split: if_splits)
  obtain sgs where "partial_sub_groups smesh 0 spl = Inr sgs" using e(1) by (auto simp: expand_partial_shadows_def res_simps)
  note get = expand_partial_shadows_ok [OF mesh this, of ?m0]
  have ok: "build_ok ?m0" "build_ok e" using merged_gathered(2) build_ok_expand [OF merged_gathered(2) e(1)] by blast+
  obtain s c l where l: "m2_get e s c = Some l" "rt = mk_route s c l" using set_dict_to_routes [OF ok(2)] rt(2) e(2) by blast
  have "\<exists>s. m2_get ?m0 s c \<noteq> None"
  proof (cases "m2_get ?m0 s c")
    case None
    then obtain s0 cells where "(s0, cells) \<in> set ?m0" "c \<in> set (dict_keys cells)" using get e(1) l(1) by (auto split: if_splits)
    then have "m2_get ?m0 s0 c \<noteq> None" using ok(1) by (auto simp: build_ok_def m2_get_def dict_keys_def set_dict_keys map_of_eq_Some_iff bind_eq_Some_conv)
    then show ?thesis by blast
  qed blast
  moreover have "ep_cell (r_src rt) = c" using l(2) by (simp add: mk_route_def)
  ultimately show ?thesis using no_empty_get [OF merged_gathered(3)] merged_gathered(1) by metis
qed
text \<open>The destinations of the routes: right, complete and each delivered once.\<close>

lemma m2m_routes_exact:
  assumes m: "get_m2m_map api smesh spl tmesh tpl grp = Inr m2m"
    and plan: "m2m_plan (source_side smesh spl)
        (target_side tmesh tpl) = Inr plan"
    and mesh: "mesh_ok smesh" and grp: "distinct grp" "set (mesh_ranks tmesh) \<subseteq> set grp"
    and src: "dtensor_ok api spos (source_side smesh spl)
        (middle_shape plan) (source_slicers plan)"
    and tgt: "dtensor_ok api tpos (target_side tmesh tpl)
        (middle_shape plan) (target_slicers plan)"
    and small: "\<forall>r \<in> set (mesh_ranks smesh). (r + 1) * tag_base plan ^ length (middle_shape plan) \<le> 2 ^ 24"
  shows "\<exists>rts. m2m_routes m2m = Some rts \<and>
    (\<forall>rt \<in> set rts. \<forall>e \<in> set (r_dsts rt).
       ep_rank (r_src rt) \<in> set (mesh_ranks smesh) \<and> in_shape (source_slicers plan) (ep_cell (r_src rt)) \<and>
       ep_rank e \<in> set (mesh_ranks tmesh) \<and> in_shape (target_slicers plan) (ep_cell e) \<and>
       spos (ep_rank (r_src rt)) (ep_cell (r_src rt)) = tpos (ep_rank e) (ep_cell e)) \<and>
    (\<forall>q \<in> set (mesh_ranks tmesh). \<forall>d. in_shape (target_slicers plan) d \<longrightarrow>
       count_list (map endpoint_pair (concat (map r_dsts rts))) (q, d) = 1)"
proof -
  let ?src = "source_side smesh spl" and ?tgt = "target_side tmesh tpl"
  let ?tr = "traced_source api ?src ?tgt (middle_shape plan) (tag_base plan)"
  let ?ct = "cell_targets api ?src ?tgt plan grp"
  obtain rts where r: "m2m_routes m2m = Some rts"
    and sorted: "sorted_wrt (\<lambda>a b. key_less (route_key a) (route_key b)) rts"
    and dsts: "\<And>rt. rt \<in> set rts \<Longrightarrow> rt = mk_route (fst (route_key rt)) (snd (route_key rt))
        (?ct (fst (route_key rt)) (snd (route_key rt)))"
    and all: "\<And>s c. ?ct s c \<noteq> [] \<Longrightarrow> (s, c) \<in> route_key ` set rts"
    using get_m2m_map_routes [OF m plan mesh] by blast
  have pairs: "map endpoint_pair (r_dsts rt) = ?ct (fst (route_key rt)) (snd (route_key rt))" if "rt \<in> set rts" for rt
    using dsts [OF that] endpoint_pairs_mk by metis
  have ne: "mesh_ranks (side_mesh ?src) \<noteq> []" using mesh by (simp add: mesh_ok_def)
  have cell: "(q, d) \<in> set (?ct s c) \<longleftrightarrow>
      q \<in> set (mesh_ranks tmesh) \<and> in_shape (target_slicers plan) d \<and> ?tr q d = (s, c)" for q d s c
    using target_shard_shape [OF ne src tgt] grp(2) by (auto simp: cell_targets_set)
  have "ep_rank (r_src rt) \<in> set (mesh_ranks smesh) \<and> in_shape (source_slicers plan) (ep_cell (r_src rt)) \<and>
       ep_rank e \<in> set (mesh_ranks tmesh) \<and> in_shape (target_slicers plan) (ep_cell e) \<and>
       spos (ep_rank (r_src rt)) (ep_cell (r_src rt)) = tpos (ep_rank e) (ep_cell e)"
    if rt: "rt \<in> set rts" and e: "e \<in> set (r_dsts rt)" for rt e
  proof -
    have "endpoint_pair e \<in> set (map endpoint_pair (r_dsts rt))" using e by simp
    then have ed: "ep_rank e \<in> set (mesh_ranks tmesh)" "in_shape (target_slicers plan) (ep_cell e)"
      "?tr (ep_rank e) (ep_cell e) = route_key rt"
      unfolding pairs [OF rt] endpoint_pair_def cell by simp_all
    then show ?thesis
      using traced_cell [OF plan ne src tgt, of "ep_rank e" "ep_cell e"] small by (auto simp: route_key_def)
  qed
  moreover have "count_list (map endpoint_pair (concat (map r_dsts rts))) (q, d) = 1"
    if q: "q \<in> set (mesh_ranks tmesh)" and d: "in_shape (target_slicers plan) d" for q d
  proof (rule delivered_once [where tr = ?tr])
    have "(q, d) \<in> set (?ct (fst (?tr q d)) (snd (?tr q d)))" using q d by (simp add: cell)
    then have "(fst (?tr q d), snd (?tr q d)) \<in> route_key ` set rts" by (intro all) auto
    then show "?tr q d \<in> route_key ` set rts" by (simp only: prod.collapse)
    show "count_list (map endpoint_pair (r_dsts rt)) (q, d) = (if route_key rt = ?tr q d then 1 else 0)"
      if "rt \<in> set rts" for rt
      using q d grp(1) unfolding pairs [OF that]
      by (simp add: count_list_distinct [OF cell_targets_distinct] cell prod_eq_iff)
  qed (rule routes_distinct_keys [OF sorted])
  ultimately show ?thesis using r by blast
qed

lemma m2m_plan_base: "m2m_plan src tgt = Inr plan \<Longrightarrow> 0 < tag_base plan"
  by (auto simp: m2m_plan_def Let_def res_simps split: if_splits)

text \<open>The source cell of the route that delivers a target cell is the one it was traced to.\<close>

lemma route_of_cell:
  assumes m: "get_m2m_map api smesh spl tmesh tpl grp = Inr m2m"
    and plan: "m2m_plan (source_side smesh spl) (target_side tmesh tpl) = Inr plan"
    and mesh: "mesh_ok smesh" and grp: "distinct grp" "set (mesh_ranks tmesh) \<subseteq> set grp"
    and src: "dtensor_ok api spos (source_side smesh spl) (middle_shape plan) (source_slicers plan)"
    and tgt: "dtensor_ok api tpos (target_side tmesh tpl) (middle_shape plan) (target_slicers plan)"
    and q: "q \<in> set (mesh_ranks tmesh)" and d: "in_shape (target_slicers plan) d"
  shows "\<exists>rts. m2m_routes m2m = Some rts \<and>
    (\<forall>s c. (\<exists>rt \<in> set rts. route_key rt = (s, c) \<and> (q, d) \<in> set (map endpoint_pair (r_dsts rt))) \<longleftrightarrow>
      traced_source api (source_side smesh spl) (target_side tmesh tpl) (middle_shape plan) (tag_base plan) q d = (s, c))"
proof -
  let ?src = "source_side smesh spl" and ?tgt = "target_side tmesh tpl"
  let ?tr = "traced_source api ?src ?tgt (middle_shape plan) (tag_base plan)"
  let ?ct = "cell_targets api ?src ?tgt plan grp"
  obtain rts where r: "m2m_routes m2m = Some rts"
    and "sorted_wrt (\<lambda>a b. key_less (route_key a) (route_key b)) rts"
    and dsts: "\<And>rt. rt \<in> set rts \<Longrightarrow> rt = mk_route (fst (route_key rt)) (snd (route_key rt))
        (?ct (fst (route_key rt)) (snd (route_key rt)))"
    and all: "\<And>s c. ?ct s c \<noteq> [] \<Longrightarrow> (s, c) \<in> route_key ` set rts"
    using get_m2m_map_routes [OF m plan mesh] by blast
  have pairs: "map endpoint_pair (r_dsts rt) = ?ct (fst (route_key rt)) (snd (route_key rt))" if "rt \<in> set rts" for rt
    using dsts [OF that] endpoint_pairs_mk by metis
  have ne: "mesh_ranks (side_mesh ?src) \<noteq> []" using mesh by (simp add: mesh_ok_def)
  have cell: "(q, d) \<in> set (?ct s c) \<longleftrightarrow> ?tr q d = (s, c)" for s c
    using target_shard_shape [OF ne src tgt] grp(2) q d by (auto simp: cell_targets_set)
  have "(\<exists>rt \<in> set rts. route_key rt = (s, c) \<and> (q, d) \<in> set (map endpoint_pair (r_dsts rt))) \<longleftrightarrow> ?tr q d = (s, c)" for s c
  proof
    assume "?tr q d = (s, c)"
    then have c: "(q, d) \<in> set (?ct s c)" by (simp add: cell)
    then obtain rt where "rt \<in> set rts" "route_key rt = (s, c)" using all [of s c] by (metis empty_iff empty_set imageE)
    then show "\<exists>rt \<in> set rts. route_key rt = (s, c) \<and> (q, d) \<in> set (map endpoint_pair (r_dsts rt))" using pairs c by (metis fst_conv snd_conv)
  next
    assume "\<exists>rt \<in> set rts. route_key rt = (s, c) \<and> (q, d) \<in> set (map endpoint_pair (r_dsts rt))"
    then obtain rt where "rt \<in> set rts" "route_key rt = (s, c)" "(q, d) \<in> set (map endpoint_pair (r_dsts rt))" by blast
    then show "?tr q d = (s, c)" using pairs [of rt] cell [of s c] by (metis fst_conv snd_conv)
  qed
  then show ?thesis using r by blast
qed

section \<open>A worked map\<close>

text \<open>One rank's tensor split over two: the map the code computes, evaluated, for the witnesses.\<close>

definition split_source :: device_mesh where
  "split_source = \<lparr>mesh_shape = [1], mesh_ranks = [0]\<rparr>"

definition split_target :: device_mesh where
  "split_target = \<lparr>mesh_shape = [2], mesh_ranks = [1, 2]\<rparr>"

definition split_plan :: grid_plan where
  "split_plan = \<lparr>middle_shape = [2], source_slicers = [2], target_slicers = [1], tag_base = 3\<rparr>"

definition split_map :: m2m_map where
  "split_map = \<lparr>m2m_routes = Some [mk_route 0 [0] [(1, [0])], mk_route 0 [1] [(2, [0])]],
     m2m_source_num_slicers = Some [2], m2m_target_num_slicers = Some [1], m2m_source_partial_reductions = []\<rparr>"

lemma split_map_computed:
  shows "get_m2m_map ref_api split_source [Shard 0] split_target [Shard 0] [0, 1, 2] = Inr split_map"
    and "m2m_plan (source_side split_source [Shard 0]) (target_side split_target [Shard 0]) = Inr split_plan"
proof -
  let ?src = "source_side split_source [Shard 0]" and ?tgt = "target_side split_target [Shard 0]"
  let ?m = "[(0, [([0], [(1, [0])]), ([1], [(2, [0])])])] :: build_map"
  show p: "m2m_plan ?src ?tgt = Inr split_plan" by code_simp
  have "rank_m2m_map ref_api ?src ?tgt split_plan 0 = []" "rank_m2m_map ref_api ?src ?tgt split_plan 1 = [(0, [([0], [(1, [0])])])]"
    "rank_m2m_map ref_api ?src ?tgt split_plan 2 = [(0, [([1], [(2, [0])])])]" by code_simp+
  then have gm: "gathered_maps ref_api ?src ?tgt split_plan [0, 1, 2]
      = [Some [], Some [(0, [([0], [(1, [0])])])], Some [(0, [([1], [(2, [0])])])]]"
    by (simp add: gathered_maps_def split_source_def split_target_def)
  have mm: "merge_maps (gathered_maps ref_api ?src ?tgt split_plan [0, 1, 2]) = ?m" unfolding gm by code_simp
  have ex: "expand_partial_shadows ?m split_source [Shard 0] = Inr ?m"
    "dict_to_routes ?m = [mk_route 0 [0] [(1, [0])], mk_route 0 [1] [(2, [0])]]" "has_partial [Shard 0] = False" by code_simp+
  show "get_m2m_map ref_api split_source [Shard 0] split_target [Shard 0] [0, 1, 2] = Inr split_map"
    unfolding get_m2m_map_def Let_def ex(3) if_False p mm res_bind.simps ex(1,2) split_map_def by (simp add: split_plan_def)
qed

lemma split_facts:
  "mesh_ok split_source" "distinct [0, 1, 2 :: nat]"
  "dtensor_ok ref_api (ref_pos split_source [Shard 0] [2]) (source_side split_source [Shard 0]) (middle_shape split_plan) (source_slicers split_plan)"
  "dtensor_ok ref_api (ref_pos split_target [Shard 0] [1]) (target_side split_target [Shard 0]) (middle_shape split_plan) (target_slicers split_plan)"
  "\<forall>r \<in> set (mesh_ranks split_source). (r + 1) * tag_base split_plan ^ length (middle_shape split_plan) \<le> 2 ^ 24"
proof -
  have "ref_check (source_side split_source [Shard 0]) [2] [2]" "ref_check (target_side split_target [Shard 0]) [2] [1]" by code_simp+
  then show "dtensor_ok ref_api (ref_pos split_source [Shard 0] [2]) (source_side split_source [Shard 0]) (middle_shape split_plan) (source_slicers split_plan)"
    "dtensor_ok ref_api (ref_pos split_target [Shard 0] [1]) (target_side split_target [Shard 0]) (middle_shape split_plan) (target_slicers split_plan)"
    using ref_api_ok by (fastforce simp: split_plan_def)+
qed (simp_all add: mesh_ok_def split_source_def split_plan_def)

section \<open>Properties\<close>

text \<open>
  C2. The mesh-to-mesh map is right and complete. Under the documented DTensor behaviour, and
  while every tag fits the 24 bits of a float exactly, every route goes from a source cell to
  target cells that stand for the same position of the tensor, and every cell of every target
  rank is delivered by exactly one route, exactly once.
\<close>

theorem m2m_routes_correct:
  assumes m: "get_m2m_map api smesh spl tmesh tpl grp = Inr m2m"
    and plan: "m2m_plan (source_side smesh spl)
        (target_side tmesh tpl) = Inr plan"
    and mesh: "mesh_ok smesh" and grp: "distinct grp" "set (mesh_ranks tmesh) \<subseteq> set grp"
    and src: "dtensor_ok api spos (source_side smesh spl)
        (middle_shape plan) (source_slicers plan)"
    and tgt: "dtensor_ok api tpos (target_side tmesh tpl)
        (middle_shape plan) (target_slicers plan)"
    and small: "\<forall>r \<in> set (mesh_ranks smesh). (r + 1) * tag_base plan ^ length (middle_shape plan) \<le> 2 ^ 24"
  shows "\<exists>rts. m2m_routes m2m = Some rts \<and>
    (\<forall>rt \<in> set rts. \<forall>e \<in> set (r_dsts rt).
       ep_rank (r_src rt) \<in> set (mesh_ranks smesh) \<and> in_shape (source_slicers plan) (ep_cell (r_src rt)) \<and>
       ep_rank e \<in> set (mesh_ranks tmesh) \<and> in_shape (target_slicers plan) (ep_cell e) \<and>
       spos (ep_rank (r_src rt)) (ep_cell (r_src rt)) = tpos (ep_rank e) (ep_cell e)) \<and>
    (\<forall>q \<in> set (mesh_ranks tmesh). \<forall>d. in_shape (target_slicers plan) d \<longrightarrow>
       count_list (map endpoint_pair (concat (map r_dsts rts))) (q, d) = 1)"
  using assms by (rule m2m_routes_exact)

theorem m2m_routes_correct_witness:
  "get_m2m_map ref_api split_source [Shard 0] split_target [Shard 0] [0, 1, 2] = Inr split_map
   \<and> count_list (map endpoint_pair (concat (map r_dsts (the (m2m_routes split_map))))) (2, [0]) = 1"
proof -
  have "set (mesh_ranks split_target) \<subseteq> set [0, 1, 2]" by (simp add: split_target_def)
  from m2m_routes_correct [OF split_map_computed(1,2) split_facts(1,2) this split_facts(3,4,5)]
  have "count_list (map endpoint_pair (concat (map r_dsts (the (m2m_routes split_map))))) (2, [0]) = 1"
    by (auto simp: split_map_def split_target_def split_plan_def)
  then show ?thesis using split_map_computed(1) by blast
qed

text \<open>
  The tag round trip is exact up to 24 bits: a source rank and a cell of its shard are
  recovered from the float the tag was stored in, whenever \<open>(rank + 1) * base ^ ndim\<close> is
  at most \<open>2 ^ 24\<close>.
\<close>

theorem stored_tag_roundtrip:
  assumes "\<forall>c \<in> set idx. c < base" "(rank + 1) * base ^ length idx \<le> 2 ^ 24"
  shows "decode_cell base (length idx) (f32 (encode_cell base rank idx)) = (rank, idx)"
  using assms by (rule stored_tag_decodes)

theorem stored_tag_roundtrip_witness:
  "decode_cell 257 (length [0, 256 :: nat]) (f32 (encode_cell 257 252 [0, 256])) = (252, [0, 256])"
  by (rule stored_tag_roundtrip) simp_all

text \<open>
  C40. The exact limit of the tags. Every target cell is given the data of some source cell of the
  same position; the map computed by the code delivers it from that very source cell exactly when
  the cell's tag, \<open>rank\<close> and indices in base \<open>tag_base\<close>, has at most 24 significant bits, so that
  the float it is stored in holds it; otherwise no route from that cell reaches the target cell.
  All tags below \<open>2 ^ 24\<close> fit, and no odd tag above. When the position has one source cell only,
  as with a source that is not replicated, that cell is the one meant. Nothing is assumed of the
  sizes: the hypotheses are those of the documented DTensor behaviour and of well-formed meshes.
\<close>

theorem tag_tracing_limit:
  assumes "get_m2m_map api smesh spl tmesh tpl grp = Inr m2m"
    and "m2m_plan (source_side smesh spl) (target_side tmesh tpl) = Inr plan"
    and "mesh_ok smesh" "distinct grp" "set (mesh_ranks tmesh) \<subseteq> set grp"
    and "dtensor_ok api spos (source_side smesh spl) (middle_shape plan) (source_slicers plan)"
    and "dtensor_ok api tpos (target_side tmesh tpl) (middle_shape plan) (target_slicers plan)"
    and "q \<in> set (mesh_ranks tmesh)" "in_shape (target_slicers plan) d"
  shows "\<exists>rts r c. m2m_routes m2m = Some rts \<and>
    r \<in> set (mesh_ranks smesh) \<and> in_shape (source_slicers plan) c \<and> spos r c = tpos q d \<and>
    ((\<exists>rt \<in> set rts. (ep_rank (r_src rt), ep_cell (r_src rt)) = (r, c) \<and> (q, d) \<in> set (map endpoint_pair (r_dsts rt))) \<longleftrightarrow>
     (\<exists>m e. m < 2 ^ 24 \<and> encode_cell (tag_base plan) r c = m * 2 ^ e))"
proof -
  obtain rts where r: "m2m_routes m2m = Some rts"
    and k: "\<And>s c. (\<exists>rt \<in> set rts. route_key rt = (s, c) \<and> (q, d) \<in> set (map endpoint_pair (r_dsts rt))) \<longleftrightarrow>
      traced_source api (source_side smesh spl) (target_side tmesh tpl) (middle_shape plan) (tag_base plan) q d = (s, c)"
    using route_of_cell [OF assms] by blast
  have ne: "mesh_ranks (side_mesh (source_side smesh spl)) \<noteq> []" using assms(3) by (simp add: mesh_ok_def)
  note planD = m2m_planD [OF assms(2)]
  have q: "q \<in> set (mesh_ranks (side_mesh (target_side tmesh tpl)))" using assms(8) by simp
  have len: "length (source_slicers plan) = length (target_slicers plan)" using planD(1,2) by simp
  obtain s c where sc: "traced_source api (source_side smesh spl) (target_side tmesh tpl) (middle_shape plan) (tag_base plan) q d =
      decode_cell (tag_base plan) (length c) (f32 (encode_cell (tag_base plan) s c))"
    "s \<in> set (mesh_ranks (side_mesh (source_side smesh spl)))" "in_shape (source_slicers plan) c" "spos s c = tpos q d"
    "\<forall>x \<in> set c. x < tag_base plan"
    by (rule traced_tag [OF assms(6,7) ne q assms(9) len planD(3)])
  have "0 < tag_base plan" by (rule m2m_plan_base [OF assms(2)])
  then show ?thesis using r k [of s c] sc stored_tag_iff [OF sc(5)] unfolding route_key_def by (intro exI [of _ rts] exI [of _ s] exI [of _ c]) simp
qed

theorem tag_tracing_limit_witness:
  "\<exists>r c. r \<in> set (mesh_ranks split_source) \<and>
    ((\<exists>rt \<in> set (the (m2m_routes split_map)). (ep_rank (r_src rt), ep_cell (r_src rt)) = (r, c) \<and> (2, [0]) \<in> set (map endpoint_pair (r_dsts rt))) \<longleftrightarrow>
     (\<exists>m e. m < 2 ^ 24 \<and> encode_cell (tag_base split_plan) r c = m * 2 ^ e))"
proof -
  have g: "set (mesh_ranks split_target) \<subseteq> set [0, 1, 2]" "2 \<in> set (mesh_ranks split_target)" "in_shape (target_slicers split_plan) [0]"
    by (simp_all add: split_target_def split_plan_def)
  obtain rts r c where "m2m_routes split_map = Some rts" "r \<in> set (mesh_ranks split_source)"
    "(\<exists>rt \<in> set rts. (ep_rank (r_src rt), ep_cell (r_src rt)) = (r, c) \<and> (2, [0]) \<in> set (map endpoint_pair (r_dsts rt))) \<longleftrightarrow>
     (\<exists>m e. m < 2 ^ 24 \<and> encode_cell (tag_base split_plan) r c = m * 2 ^ e)"
    using tag_tracing_limit [OF split_map_computed(1,2) split_facts(1,2) g(1) split_facts(3,4) g(2,3)] by metis
  then show ?thesis by (metis option.sel)
qed

text \<open>
  The exchange of the tagged tensor pairs up: a source rank sends to a rank of the target
  mesh that is not a source rank exactly when that rank waits for it, so every such rank gets
  one message and no send is left without its receive.
\<close>

theorem exchange_matches:
  assumes "distinct source_ranks" "distinct target_ranks" "s \<in> set source_ranks"
  shows "t \<in> set (send_targets source_ranks target_ranks s) \<longleftrightarrow>
    t \<in> set target_ranks \<and> t \<notin> set source_ranks \<and> recv_source source_ranks target_ranks t = s"
  using assms by (rule send_recv_iff)

theorem exchange_matches_witness:
  "2 \<in> set (send_targets [0, 1] [4, 1, 2, 3] 0) \<and> 3 \<in> set (send_targets [0, 1] [4, 1, 2, 3] 1)"
proof -
  have "recv_source [0, 1] [4, 1, 2, 3] 2 = 0" "recv_source [0, 1] [4, 1, 2, 3] 3 = 1" by code_simp+
  then show ?thesis
    using exchange_matches [of "[0, 1]" "[4, 1, 2, 3]" 0 2] exchange_matches [of "[0, 1]" "[4, 1, 2, 3]" 1 3] by simp
qed

text \<open>
  C22. The map is always computed: for two well-formed meshes whose placements name tensor
  dimensions from 0 up, one per mesh dimension, and with no Partial on the target side, every
  step succeeds, and the routes come in strictly ascending order of source cell, each with the
  transport its number of destinations calls for. A Partial target is refused.
\<close>

theorem m2m_map_total:
  assumes "mesh_ok smesh" "mesh_ok tmesh" "placements_ok smesh spl" "placements_ok tmesh tpl"
  shows "if has_partial tpl then get_m2m_map api smesh spl tmesh tpl grp = Inl NotImplementedError
    else \<exists>m2m rts. get_m2m_map api smesh spl tmesh tpl grp = Inr m2m \<and> m2m_routes m2m = Some rts \<and>
      sorted_wrt (\<lambda>a b. key_less (route_key a) (route_key b)) rts \<and>
      (\<forall>rt \<in> set rts. r_kind rt = (if r_dsts rt = [] then NONE else if length (r_dsts rt) = 1 then P2P else BROADCAST))"
proof (cases "has_partial tpl")
  case False
  obtain plan where plan: "m2m_plan (source_side smesh spl) (target_side tmesh tpl) = Inr plan"
    using m2m_plan_total [OF assms] False by blast
  obtain sgs where "partial_sub_groups smesh 0 spl = Inr sgs"
    using partial_sub_groups_total [of 0 spl smesh] assms(3) by (auto simp: placements_ok_def)
  then obtain e where "expand_partial_shadows (merge_maps (gathered_maps api (source_side smesh spl)
      (target_side tmesh tpl) plan grp)) smesh spl = Inr e"
    using expand_partial_shadows_ok [OF assms(1)] by blast
  then obtain m2m where m: "get_m2m_map api smesh spl tmesh tpl grp = Inr m2m"
    using False plan by (simp add: get_m2m_map_def)
  obtain rts where r: "m2m_routes m2m = Some rts"
    and sorted: "sorted_wrt (\<lambda>a b. key_less (route_key a) (route_key b)) rts"
    and mk: "\<And>rt. rt \<in> set rts \<Longrightarrow> \<exists>l. rt = mk_route (fst (route_key rt)) (snd (route_key rt)) l"
    using get_m2m_map_routes [OF m plan assms(1)] by metis
  have "r_kind rt = (if r_dsts rt = [] then NONE else if length (r_dsts rt) = 1 then P2P else BROADCAST)"
    if "rt \<in> set rts" for rt
    using mk [OF that] by (metis mk_route_kind)
  then show ?thesis using False m r sorted by auto
qed (simp add: get_m2m_map_def)

theorem m2m_map_total_witness:
  "\<exists>m2m. get_m2m_map ref_api \<lparr>mesh_shape = [2], mesh_ranks = [0, 1]\<rparr> [Partial ''sum'']
     \<lparr>mesh_shape = [2], mesh_ranks = [2, 3]\<rparr> [Shard 0] [0, 1, 2, 3] = Inr m2m"
proof -
  let ?sm = "\<lparr>mesh_shape = [2], mesh_ranks = [0, 1]\<rparr>" and ?tm = "\<lparr>mesh_shape = [2], mesh_ranks = [2, 3]\<rparr>"
  have ok: "mesh_ok ?sm" "mesh_ok ?tm" "placements_ok ?sm [Partial ''sum'']" "placements_ok ?tm [Shard 0]"
    by (simp_all add: mesh_ok_def placements_ok_def)
  have n: "\<not> has_partial [Shard 0]" by code_simp
  have "\<exists>m2m. get_m2m_map ref_api ?sm [Partial ''sum''] ?tm [Shard 0] [0, 1, 2, 3] = Inr m2m"
    using m2m_map_total [OF ok, of ref_api "[0, 1, 2, 3]"] n by (simp only: if_False) blast
  then show ?thesis .
qed

end
