(* ===== verification/Tensor_Memory.thy ===== *)
theory Tensor_Memory
  imports Comm_IR "HOL-Library.Word"
begin

text \<open>
  What \<^verbatim>\<open>ir.py\<close> uses of PyTorch tensors. Memory is a family of storages of bytes; a
  tensor is a view of a storage: the addresses of its bytes in row-major order, with a shape
  and a dtype. So slicing, \<open>narrow\<close> and \<open>view\<close> only choose addresses and share the
  storage, while \<open>contiguous\<close> (of a view with gaps), \<open>clone\<close> and \<open>to\<close> allocate.
  Conversion between dtypes and the collective reduction are PyTorch's own and parameters.
\<close>

type_synonym byte = "8 word"

record view =
  v_storage :: nat
  v_addrs :: "nat list"
  v_shape :: "nat list"
  v_dtype :: dtype

record memory =
  m_data :: "nat \<Rightarrow> nat \<Rightarrow> byte"
  m_next :: nat                      \<comment> \<open>storages from here on are free\<close>

record torch =
  to_view :: "tensor \<Rightarrow> view"
  to_cast :: "dtype \<Rightarrow> dtype \<Rightarrow> byte list \<Rightarrow> byte list"
  to_reduce :: "group_handle \<Rightarrow> string \<Rightarrow> byte list \<Rightarrow> byte list"   \<comment> \<open>\<open>all_reduce\<close> of this rank's bytes\<close>

definition uint8 :: dtype where
  "uint8 = \<lparr>dt_name = ''uint8'', itemsize = 1\<rparr>"

section \<open>Reading and writing\<close>

definition read_view :: "view \<Rightarrow> memory \<Rightarrow> byte list" where
  "read_view v m = map (m_data m (v_storage v)) (v_addrs v)"

definition write_view :: "view \<Rightarrow> byte list \<Rightarrow> memory \<Rightarrow> memory" where
  "write_view v bs m =
     m\<lparr>m_data := (m_data m)(v_storage v := (\<lambda>i. case map_of (zip (v_addrs v) bs) i of None \<Rightarrow> m_data m (v_storage v) i | Some b \<Rightarrow> b))\<rparr>"

definition alloc :: "nat list \<Rightarrow> dtype \<Rightarrow> memory \<Rightarrow> view \<times> memory" where
  "alloc shape d m =
     (\<lparr>v_storage = m_next m, v_addrs = [0..<prod_list shape * itemsize d], v_shape = shape, v_dtype = d\<rparr>, m\<lparr>m_next := m_next m + 1\<rparr>)"

text \<open>A new tensor with given contents.\<close>

definition fresh :: "nat list \<Rightarrow> dtype \<Rightarrow> byte list \<Rightarrow> memory \<Rightarrow> view \<times> memory" where
  "fresh shape d bs m = (case alloc shape d m of (v, m1) \<Rightarrow> (v, write_view v bs m1))"

section \<open>Views\<close>

text \<open>Positions, in row-major order, of the elements \<open>t[slices]\<close> picks; bounds beyond the size are cut off.\<close>

fun picked :: "nat list \<Rightarrow> py_slice list \<Rightarrow> nat list" where
  "picked [] sl = [0]"
| "picked (n # ns) [] = [0..<n * prod_list ns]"
| "picked (n # ns) ((lo, hi) # sl) = concat (map (\<lambda>i. map (\<lambda>e. i * prod_list ns + e) (picked ns sl)) [min lo n..<min hi n])"

fun sliced_shape :: "nat list \<Rightarrow> py_slice list \<Rightarrow> nat list" where
  "sliced_shape ns [] = ns"
| "sliced_shape [] sl = []"
| "sliced_shape (n # ns) ((lo, hi) # sl) = (min hi n - min lo n) # sliced_shape ns sl"

definition byte_positions :: "nat \<Rightarrow> nat list \<Rightarrow> nat list" where
  "byte_positions k es = concat (map (\<lambda>e. map (\<lambda>j. e * k + j) [0..<k]) es)"

definition index_view :: "view \<Rightarrow> py_slice list \<Rightarrow> view result" where
  "index_view v sl =
     (if length (v_shape v) < length sl then Inl IndexError
      else Inr (v\<lparr>v_addrs := map ((!) (v_addrs v)) (byte_positions (itemsize (v_dtype v)) (picked (v_shape v) sl)),
                  v_shape := sliced_shape (v_shape v) sl\<rparr>))"

definition is_contiguous :: "view \<Rightarrow> bool" where
  "is_contiguous v \<longleftrightarrow> (case v_addrs v of [] \<Rightarrow> True | a # _ \<Rightarrow> v_addrs v = [a..<a + length (v_addrs v)])"

definition clone :: "view \<Rightarrow> memory \<Rightarrow> view \<times> memory" where
  "clone v m = fresh (v_shape v) (v_dtype v) (read_view v m) m"

definition contiguous :: "view \<Rightarrow> memory \<Rightarrow> view \<times> memory" where
  "contiguous v m = (if is_contiguous v then (v, m) else clone v m)"

text \<open>\<open>t.to(dtype)\<close> for another dtype.\<close>

definition to_dtype :: "torch \<Rightarrow> dtype \<Rightarrow> view \<Rightarrow> memory \<Rightarrow> view \<times> memory" where
  "to_dtype T d v m = fresh (v_shape v) d (to_cast T (v_dtype v) d (read_view v m)) m"

text \<open>\<open>t.view(torch.uint8)\<close> of a contiguous tensor.\<close>

definition as_bytes :: "view \<Rightarrow> view result" where
  "as_bytes v =
     (if itemsize (v_dtype v) = 1 then Inr (v\<lparr>v_dtype := uint8\<rparr>)
      else if v_shape v = [] then Inl RuntimeError
      else Inr (v\<lparr>v_dtype := uint8, v_shape := butlast (v_shape v) @ [last (v_shape v) * itemsize (v_dtype v)]\<rparr>))"

text \<open>
  \<open>buffer.narrow(0, offset, nbytes).view(dtype)[:numel].view(shape)\<close> of a one-dimensional
  byte buffer with its own storage. A view with wider elements needs an offset that is a
  multiple of their size.
\<close>

definition narrow_as :: "view \<Rightarrow> nat \<Rightarrow> nat \<Rightarrow> dtype \<Rightarrow> nat list \<Rightarrow> view result" where
  "narrow_as buf offset n d shape =
     (if length (v_addrs buf) < offset + n then Inl RuntimeError
      else if itemsize d = 0 then Inl ZeroDivisionError
      else if offset mod itemsize d \<noteq> 0 \<or> n mod itemsize d \<noteq> 0 then Inl RuntimeError
      else if n div itemsize d \<noteq> prod_list shape then Inl RuntimeError
      else Inr \<lparr>v_storage = v_storage buf, v_addrs = take n (drop offset (v_addrs buf)), v_shape = shape, v_dtype = d\<rparr>)"

text \<open>Broadcasting of contents from one shape to another of the same length.\<close>

fun expand_to :: "nat list \<Rightarrow> nat list \<Rightarrow> 'a list \<Rightarrow> 'a list result" where
  "expand_to [] [] xs = Inr xs"
| "expand_to (m # ms) (n # ns) xs =
     (if m = n then res_bind (res_mapM (\<lambda>i. expand_to ms ns (take (prod_list ms) (drop (i * prod_list ms) xs))) [0..<n]) (\<lambda>ys. Inr (concat ys))
      else if m = 1 then res_bind (expand_to ms ns xs) (\<lambda>ys. Inr (concat (replicate n ys)))
      else Inl RuntimeError)"
| "expand_to _ _ xs = Inl RuntimeError"

text \<open>\<open>dst.copy_(src)\<close>: converts to the destination's dtype and broadcasts to its shape.\<close>

definition copy_view :: "torch \<Rightarrow> view \<Rightarrow> view \<Rightarrow> memory \<Rightarrow> memory result" where
  "copy_view T dst src m =
     (let bs = (if v_dtype src = v_dtype dst then read_view src m else to_cast T (v_dtype src) (v_dtype dst) (read_view src m));
          k = itemsize (v_dtype dst); pad = replicate (length (v_shape dst) - length (v_shape src)) 1 in
      res_bind (expand_to (pad @ v_shape src @ [k]) (v_shape dst @ [k]) bs) (\<lambda>ys. Inr (write_view dst ys m)))"

section \<open>Lemmas on contents\<close>

definition view_ok :: "view \<Rightarrow> bool" where
  "view_ok v \<longleftrightarrow> length (v_addrs v) = prod_list (v_shape v) * itemsize (v_dtype v) \<and> distinct (v_addrs v) \<and> 0 < itemsize (v_dtype v)"

lemma length_read [simp]: "length (read_view v m) = length (v_addrs v)"
  by (simp add: read_view_def)

lemma next_write [simp]: "m_next (write_view v bs m) = m_next m"
  by (simp add: write_view_def)

lemma read_write_same:
  assumes "length bs = length (v_addrs v)" "distinct (v_addrs v)"
  shows "read_view v (write_view v bs m) = bs"
proof (rule nth_equalityI)
  fix i assume "i < length (read_view v (write_view v bs m))"
  then have "i < length (v_addrs v)" by simp
  then have "map_of (zip (v_addrs v) bs) (v_addrs v ! i) = Some (bs ! i)"
    using assms by (auto intro!: map_of_is_SomeI simp: in_set_zip)
  then show "read_view v (write_view v bs m) ! i = bs ! i"
    using \<open>i < length (v_addrs v)\<close> by (simp add: read_view_def write_view_def)
qed (use assms in simp)

lemma write_elsewhere:
  assumes "v_storage v \<noteq> s \<or> i \<notin> set (v_addrs v)"
  shows "m_data (write_view v bs m) s i = m_data m s i"
proof -
  have "map_of (zip (v_addrs v) bs) i = None" if "i \<notin> set (v_addrs v)"
    using that by (auto simp: map_of_eq_None_iff dest: set_zip_leftD)
  then show ?thesis using assms by (auto simp: write_view_def)
qed

lemma read_write_other:
  assumes "v_storage v \<noteq> v_storage w \<or> set (v_addrs v) \<inter> set (v_addrs w) = {}"
  shows "read_view w (write_view v bs m) = read_view w m"
  using assms write_elsewhere unfolding read_view_def by (intro map_cong refl) blast

lemma read_same_storage: "m_data m' (v_storage v) = m_data m (v_storage v) \<Longrightarrow> read_view v m' = read_view v m"
  by (simp add: read_view_def)

text \<open>Everything allocated before is as it was.\<close>

definition kept :: "memory \<Rightarrow> memory \<Rightarrow> bool" where
  "kept m m' \<longleftrightarrow> m_next m \<le> m_next m' \<and> (\<forall>s < m_next m. m_data m' s = m_data m s)"

lemma kept_refl [simp]: "kept m m"
  by (simp add: kept_def)

lemma kept_trans: "kept a b \<Longrightarrow> kept b c \<Longrightarrow> kept a c"
  by (fastforce simp: kept_def)

lemma kept_read: "kept m m' \<Longrightarrow> v_storage v < m_next m \<Longrightarrow> read_view v m' = read_view v m"
  by (rule read_same_storage) (simp add: kept_def)

lemma kept_write: "kept m m' \<Longrightarrow> m_next m \<le> v_storage v \<Longrightarrow> kept m (write_view v bs m')"
  by (auto simp: kept_def write_view_def)

lemma fresh_facts:
  assumes "fresh shape d bs m = (v, m')" "length bs = prod_list shape * itemsize d" "0 < itemsize d"
  shows "kept m m'" "read_view v m' = bs" "v_storage v = m_next m" "m_next m' = m_next m + 1" "v_shape v = shape" "v_dtype v = d" "view_ok v"
    "is_contiguous v"
proof -
  have v: "v = \<lparr>v_storage = m_next m, v_addrs = [0..<prod_list shape * itemsize d], v_shape = shape, v_dtype = d\<rparr>"
    and m': "m' = write_view v bs (m\<lparr>m_next := m_next m + 1\<rparr>)"
    using assms(1) by (auto simp: fresh_def alloc_def)
  show "kept m m'" unfolding m' by (rule kept_write) (simp_all add: kept_def v)
  show "read_view v m' = bs" unfolding m' by (rule read_write_same) (simp_all add: v assms(2))
  show "v_storage v = m_next m" "m_next m' = m_next m + 1" "v_shape v = shape" "v_dtype v = d" "view_ok v"
    unfolding m' using assms(3) by (simp_all add: v view_ok_def)
  show "is_contiguous v" by (cases "prod_list shape * itemsize d") (simp_all add: v is_contiguous_def upt_conv_Cons del: upt_Suc)
qed

section \<open>Lemmas on views\<close>

lemma distinct_blocks:
  fixes p :: nat
  assumes "distinct xs" "distinct ys" "\<forall>y \<in> set ys. y < p"
  shows "distinct (concat (map (\<lambda>i. map (\<lambda>e. i * p + e) ys) xs))"
  using assms(1)
proof (induction xs)
  case (Cons x xs)
  have "i * p + e \<noteq> x * p + e'" if "i \<noteq> x" "e \<in> set ys" "e' \<in> set ys" for i e e'
  proof
    assume "i * p + e = x * p + e'"
    then have "(i * p + e) div p = (x * p + e') div p" by simp
    moreover have "(j * p + f) div p = j" if "f \<in> set ys" for j f using that assms(3) by (subst div_mult_self3) auto
    ultimately show False using that by simp
  qed
  then have "x * p + e' \<noteq> i * p + e" if "i \<in> set xs" "e \<in> set ys" "e' \<in> set ys" for i e e' using that Cons.prems by force
  then show ?case using Cons assms(2) by (auto simp: distinct_map inj_on_def)
qed simp

lemma block_less: "i < n \<Longrightarrow> e < p \<Longrightarrow> i * p + e < n * (p::nat)"
proof -
  assume "i < n" "e < p"
  then have "i * p + e < (i + 1) * p" by simp
  also have "\<dots> \<le> n * p" using \<open>i < n\<close> by (intro mult_right_mono) auto
  finally show ?thesis .
qed

lemma picked_facts:
  "length sl \<le> length shape \<Longrightarrow> distinct (picked shape sl) \<and> (\<forall>e \<in> set (picked shape sl). e < prod_list shape) \<and>
     length (picked shape sl) = prod_list (sliced_shape shape sl)"
proof (induction shape arbitrary: sl)
  case (Cons n ns)
  show ?case
  proof (cases sl)
    case (Cons s sl')
    obtain lo hi where s: "s = (lo, hi)" by (cases s)
    have ih: "distinct (picked ns sl')" "\<forall>e \<in> set (picked ns sl'). e < prod_list ns" "length (picked ns sl') = prod_list (sliced_shape ns sl')"
      using Cons.IH [of sl'] Cons.prems \<open>sl = s # sl'\<close> by auto
    have "distinct (picked (n # ns) ((lo, hi) # sl'))" using ih(1,2) by (simp add: distinct_blocks)
    moreover have "length (picked (n # ns) ((lo, hi) # sl')) = prod_list (sliced_shape (n # ns) ((lo, hi) # sl'))"
      by (simp add: length_concat comp_def ih(3) sum_list_triv)
    ultimately show ?thesis unfolding \<open>sl = s # sl'\<close> s using ih(2) by (auto intro!: block_less)
  qed auto
qed simp

lemma byte_positions_facts:
  assumes "distinct es" "\<forall>e \<in> set es. e < n"
  shows "distinct (byte_positions k es)" "\<forall>p \<in> set (byte_positions k es). p < n * k" "length (byte_positions k es) = length es * k"
proof -
  show "distinct (byte_positions k es)" unfolding byte_positions_def using assms(1) by (intro distinct_blocks) auto
  show "\<forall>p \<in> set (byte_positions k es). p < n * k"
    unfolding byte_positions_def set_concat set_map UN_iff image_iff using assms(2) by (auto simp del: image_add_atLeastLessThan intro!: block_less)
  show "length (byte_positions k es) = length es * k" by (simp add: byte_positions_def length_concat comp_def sum_list_triv)
qed

lemma index_view_facts:
  assumes "view_ok v" "index_view v sl = Inr w"
  shows "view_ok w" "v_storage w = v_storage v" "v_dtype w = v_dtype v" "v_shape w = sliced_shape (v_shape v) sl" "set (v_addrs w) \<subseteq> set (v_addrs v)"
proof -
  let ?ps = "byte_positions (itemsize (v_dtype v)) (picked (v_shape v) sl)"
  have len: "length sl \<le> length (v_shape v)"
    and w: "w = v\<lparr>v_addrs := map ((!) (v_addrs v)) ?ps, v_shape := sliced_shape (v_shape v) sl\<rparr>"
    using assms(2) by (auto simp: index_view_def split: if_splits)
  note p = picked_facts [OF len]
  note b = byte_positions_facts [of "picked (v_shape v) sl" "prod_list (v_shape v)" "itemsize (v_dtype v)"]
  have "\<forall>p \<in> set ?ps. p < length (v_addrs v)" "distinct ?ps" "length ?ps = prod_list (sliced_shape (v_shape v) sl) * itemsize (v_dtype v)"
    using b p assms(1) by (simp_all add: view_ok_def)
  moreover have "inj_on ((!) (v_addrs v)) (set ?ps)"
    using assms(1) calculation(1) by (intro inj_on_nth) (auto simp: view_ok_def)
  ultimately show "view_ok w" "set (v_addrs w) \<subseteq> set (v_addrs v)" using assms(1) by (auto simp: w view_ok_def distinct_map)
  show "v_storage w = v_storage v" "v_dtype w = v_dtype v" "v_shape w = sliced_shape (v_shape v) sl" by (simp_all add: w)
qed

lemma concat_blocks: "length xs = n * p \<Longrightarrow> concat (map (\<lambda>i. take p (drop (i * p) xs)) [0..<n]) = xs"
proof (induction n arbitrary: xs)
  case (Suc n)
  have "concat (map (\<lambda>i. take p (drop (i * p) (drop p xs))) [0..<n]) = drop p xs"
    using Suc.prems by (intro Suc.IH) simp
  moreover have "map (\<lambda>i. take p (drop (i * p) xs)) [0..<Suc n] = take p xs # map (\<lambda>i. take p (drop (i * p) (drop p xs))) [0..<n]"
    by (simp add: upt_conv_Cons map_Suc_upt [symmetric] add.commute del: upt_Suc)
  ultimately show ?case by (simp del: upt_Suc drop_drop)
qed simp

lemma expand_same: "length xs = prod_list shape \<Longrightarrow> expand_to shape shape xs = Inr xs"
proof (induction shape arbitrary: xs)
  case (Cons n ns)
  let ?f = "\<lambda>i. take (prod_list ns) (drop (i * prod_list ns) xs)"
  have "expand_to ns ns (?f i) = Inr (?f i)" if "i \<in> set [0..<n]" for i
  proof (rule Cons.IH)
    have "i * prod_list ns + prod_list ns \<le> n * prod_list ns"
      using that mult_le_mono1 [of "Suc i" n "prod_list ns"] by simp
    then show "length (?f i) = prod_list ns" using Cons.prems by simp
  qed
  then have "res_mapM (\<lambda>i. expand_to ns ns (?f i)) [0..<n] = Inr (map ?f [0..<n])" by (rule res_mapM_Inr)
  then show ?case using concat_blocks [of xs n "prod_list ns"] Cons.prems by simp
qed simp

lemma copy_same_shape:
  assumes "v_shape src = v_shape dst" "v_dtype src = v_dtype dst" "view_ok src"
  shows "copy_view T dst src m = Inr (write_view dst (read_view src m) m)"
  using assms by (simp add: copy_view_def Let_def expand_same view_ok_def)

text \<open>What \<open>contiguous\<close>, \<open>clone\<close> and \<open>to\<close> keep.\<close>

lemma contiguous_facts:
  assumes "contiguous v m = (w, m')" "view_ok v" "v_storage v < m_next m"
  shows "kept m m'" "read_view w m' = read_view v m" "v_shape w = v_shape v" "v_dtype w = v_dtype v" "view_ok w" "is_contiguous w" "v_storage w < m_next m'"
    "v_storage w = v_storage v \<and> w = v \<or> m_next m \<le> v_storage w"
proof -
  have "kept m m' \<and> read_view w m' = read_view v m \<and> v_shape w = v_shape v \<and> v_dtype w = v_dtype v \<and> view_ok w \<and> is_contiguous w \<and>
    v_storage w < m_next m' \<and> (v_storage w = v_storage v \<and> w = v \<or> m_next m \<le> v_storage w)"
  proof (cases "is_contiguous v")
    case True
    then show ?thesis using assms by (auto simp: contiguous_def)
  next
    case False
    then have "fresh (v_shape v) (v_dtype v) (read_view v m) m = (w, m')" using assms(1) by (simp add: contiguous_def clone_def)
    from fresh_facts [OF this] show ?thesis using assms(2) by (simp add: view_ok_def)
  qed
  then show "kept m m'" "read_view w m' = read_view v m" "v_shape w = v_shape v" "v_dtype w = v_dtype v" "view_ok w" "is_contiguous w"
    "v_storage w < m_next m'" "v_storage w = v_storage v \<and> w = v \<or> m_next m \<le> v_storage w" by blast+
qed

lemma clone_facts:
  assumes "clone v m = (w, m')" "view_ok v"
  shows "kept m m'" "read_view w m' = read_view v m" "v_shape w = v_shape v" "v_dtype w = v_dtype v" "view_ok w" "is_contiguous w"
    "v_storage w = m_next m" "m_next m' = m_next m + 1"
  using fresh_facts [of "v_shape v" "v_dtype v" "read_view v m" m w m'] assms by (simp_all add: clone_def view_ok_def)

text \<open>The documented behaviour of conversion and reduction the bucket code relies on: sizes.\<close>

definition torch_ok :: "torch \<Rightarrow> bool" where
  "torch_ok T \<longleftrightarrow> (\<forall>d d' bs n. 0 < itemsize d \<and> length bs = n * itemsize d \<longrightarrow> length (to_cast T d d' bs) = n * itemsize d') \<and>
     (\<forall>g p bs. length (to_reduce T g p bs) = length bs)"

lemma to_dtype_facts:
  assumes "to_dtype T d v m = (w, m')" "view_ok v" "torch_ok T" "0 < itemsize d"
  shows "kept m m'" "read_view w m' = to_cast T (v_dtype v) d (read_view v m)" "v_shape w = v_shape v" "v_dtype w = d" "view_ok w" "is_contiguous w"
    "v_storage w = m_next m" "m_next m' = m_next m + 1"
proof -
  have "length (to_cast T (v_dtype v) d (read_view v m)) = prod_list (v_shape v) * itemsize d"
    using assms(2,3) by (simp add: torch_ok_def view_ok_def)
  note f = fresh_facts [OF assms(1) [unfolded to_dtype_def] this assms(4)]
  show "kept m m'" "read_view w m' = to_cast T (v_dtype v) d (read_view v m)" "v_shape w = v_shape v" "v_dtype w = d" "view_ok w" "is_contiguous w"
    "v_storage w = m_next m" "m_next m' = m_next m + 1" by (rule f)+
qed

end
