(* ===== verification/Chunks.thy ===== *)
theory Chunks
  imports Comm_Utils
begin

text \<open>
  \<^verbatim>\<open>src/etha/comm/get_chunks.py\<close>: the broadcast groups of a map, the canonical pass that
  creates them, and the materialisation of a map onto the tensors of one rank. The process
  group cache is the state that is passed through; building the chunks may raise, so it
  returns a result beside the new state.
\<close>

section \<open>Broadcast groups\<close>

definition route_group :: "route \<Rightarrow> nat list" where
  "route_group rt = sorted_set (ep_rank (r_src rt) # map ep_rank (r_dsts rt))"

definition broadcast_group_ranks :: "m2m_map \<Rightarrow> nat list list" where
  "broadcast_group_ranks m2m =
     (let routes = (case m2m_routes m2m of None \<Rightarrow> [] | Some rts \<Rightarrow> rts)
      in remdups (map route_group (filter (\<lambda>rt. r_kind rt = BROADCAST) routes)))"

definition prewarm_broadcast_groups :: "m2m_map option list \<Rightarrow> pg_state \<Rightarrow> pg_state" where
  "prewarm_broadcast_groups m2m_maps st =
     create_groups
       (sorted_set (concat (map (\<lambda>m. case m of None \<Rightarrow> [] | Some m2m \<Rightarrow> broadcast_group_ranks m2m) m2m_maps))) st"

section \<open>Chunks of one rank\<close>

definition calculate_chunk_shape :: "nat list \<Rightarrow> nat list option \<Rightarrow> nat list result" where
  "calculate_chunk_shape num_slicers tensor_shape =
     (case tensor_shape of None \<Rightarrow> Inr []
      | Some shape \<Rightarrow> res_mapM (\<lambda>dim. res_bind (py_nth num_slicers dim) (py_div (shape ! dim))) [0..<length shape])"

text \<open>
  One side of the transfer on this rank: its tensor, the slicer counts cut or padded with 1 to
  the tensor's rank, and the slice tuples. A side without a tensor has none of them.
\<close>

record chunk_side =
  s_tensor :: tensor
  s_nums :: "nat list"
  s_tuples :: "py_slice list list"

definition extend_slicers :: "nat list \<Rightarrow> nat list \<Rightarrow> nat list" where
  "extend_slicers nums shape = take (length shape) (nums @ replicate (length shape) 1)"

definition slice_side :: "nat list option \<Rightarrow> tensor option \<Rightarrow> chunk_side option result" where
  "slice_side nums t =
     (case t of None \<Rightarrow> Inr None
      | Some t \<Rightarrow>
          (case nums of None \<Rightarrow> Inl TypeError
           | Some ns \<Rightarrow>
               res_bind (get_slicer_tuples (t_shape t) (extend_slicers ns (t_shape t))) (\<lambda>tuples.
               Inr (Some \<lparr>s_tensor = t, s_nums = extend_slicers ns (t_shape t), s_tuples = tuples\<rparr>))))"

definition side_slice :: "chunk_side option \<Rightarrow> nat list \<Rightarrow> py_slice list result" where
  "side_slice side idx =
     (case side of None \<Rightarrow> Inr [] | Some s \<Rightarrow> get_slice_from_multi_index idx (s_nums s) (s_tuples s))"

definition side_chunk_shape :: "chunk_side \<Rightarrow> nat list result" where
  "side_chunk_shape s = calculate_chunk_shape (s_nums s) (Some (t_shape (s_tensor s)))"

record chunk_args =
  a_rank :: nat
  a_source :: "chunk_side option"
  a_target :: "chunk_side option"
  a_transfer_dtype :: "dtype option"
  a_partial_groups :: "partial_groups option"

definition route_dst_ranks :: "route \<Rightarrow> nat list" where
  "route_dst_ranks rt = sorted_set (map ep_rank (r_dsts rt))"

definition self_p2p :: "chunk_args \<Rightarrow> route \<Rightarrow> bool" where
  "self_p2p a rt \<longleftrightarrow> r_kind rt = P2P \<and> route_dst_ranks rt = [a_rank a]"

definition source_chunk :: "chunk_args \<Rightarrow> route \<Rightarrow> chunk_side \<Rightarrow> py_slice list \<Rightarrow> chunk result" where
  "source_chunk a rt s src_slice =
     res_bind (side_chunk_shape s) (\<lambda>shape.
     Inr \<lparr>c_transport = r_kind rt, c_is_source = True, c_is_target = False, c_src_rank = a_rank a,
          c_dst_ranks = route_dst_ranks rt, c_chunk_shape = shape, c_tensor = s_tensor s,
          c_src_tensor = None, c_src_slice = src_slice, c_dst_slice = [],
          c_transfer_dtype = chunk_wire_dtype (a_transfer_dtype a) (s_tensor s),
          c_src_idx = ep_cell (r_src rt), c_dst_idx = None,
          c_source_partial_groups = a_partial_groups a\<rparr>)"

text \<open>The mutation of the source chunk that makes it write the local target too.\<close>

definition absorb_target :: "chunk \<Rightarrow> tensor \<Rightarrow> tensor \<Rightarrow> nat list \<Rightarrow> py_slice list \<Rightarrow> chunk" where
  "absorb_target c source_tensor target_tensor dst_idx dst_slice =
     c\<lparr>c_is_target := True, c_src_tensor := Some source_tensor, c_tensor := target_tensor,
       c_dst_idx := Some dst_idx, c_dst_slice := dst_slice\<rparr>"

definition local_chunk ::
  "chunk_args \<Rightarrow> route \<Rightarrow> chunk_side \<Rightarrow> chunk_side \<Rightarrow> py_slice list \<Rightarrow> nat list \<Rightarrow> py_slice list \<Rightarrow> chunk result" where
  "local_chunk a rt s t src_slice dst_idx dst_slice =
     res_bind (side_chunk_shape t) (\<lambda>shape.
     Inr \<lparr>c_transport = LOCAL, c_is_source = True, c_is_target = True, c_src_rank = ep_rank (r_src rt),
          c_dst_ranks = route_dst_ranks rt, c_chunk_shape = shape, c_tensor = s_tensor t,
          c_src_tensor = Some (s_tensor s), c_src_slice = src_slice, c_dst_slice = dst_slice,
          c_transfer_dtype = chunk_wire_dtype (a_transfer_dtype a) (s_tensor t),
          c_src_idx = ep_cell (r_src rt), c_dst_idx = Some dst_idx,
          c_source_partial_groups = (if self_p2p a rt then a_partial_groups a else None)\<rparr>)"

definition target_chunk :: "chunk_args \<Rightarrow> route \<Rightarrow> chunk_side \<Rightarrow> nat list \<Rightarrow> py_slice list \<Rightarrow> chunk result" where
  "target_chunk a rt t dst_idx dst_slice =
     res_bind (side_chunk_shape t) (\<lambda>shape.
     Inr \<lparr>c_transport = r_kind rt, c_is_source = False, c_is_target = True, c_src_rank = ep_rank (r_src rt),
          c_dst_ranks = route_dst_ranks rt, c_chunk_shape = shape, c_tensor = s_tensor t,
          c_src_tensor = None, c_src_slice = [], c_dst_slice = dst_slice,
          c_transfer_dtype = chunk_wire_dtype (a_transfer_dtype a) (s_tensor t),
          c_src_idx = ep_cell (r_src rt), c_dst_idx = Some dst_idx,
          c_source_partial_groups = None\<rparr>)"

text \<open>\<open>if source_partial_groups\<close> is Python truth.\<close>

definition reduces :: "chunk_args \<Rightarrow> bool" where
  "reduces a \<longleftrightarrow> (case a_partial_groups a of None \<Rightarrow> False | Some gs \<Rightarrow> gs \<noteq> [])"

text \<open>
  The loop over the destinations. It carries the source chunk of the route, which the Partial
  branch mutates in place, and the chunks appended after it. That branch is reached only after
  a source chunk was made (\<open>route_chunks_absorbs\<close> below).
\<close>

fun dst_loop ::
  "chunk_args \<Rightarrow> route \<Rightarrow> py_slice list \<Rightarrow> endpoint list \<Rightarrow> chunk option \<Rightarrow> chunk list
   \<Rightarrow> (chunk option \<times> chunk list) result" where
  "dst_loop a rt src_slice [] sc new = Inr (sc, new)"
| "dst_loop a rt src_slice (dst # dsts) sc new =
     (if ep_rank dst \<noteq> a_rank a then dst_loop a rt src_slice dsts sc new
      else res_bind (side_slice (a_target a) (ep_cell dst)) (\<lambda>dst_slice.
        case a_target a of
          None \<Rightarrow> dst_loop a rt src_slice dsts sc new
        | Some t \<Rightarrow>
            (if ep_rank (r_src rt) = a_rank a \<and> a_source a \<noteq> None then
               (if reduces a \<and> \<not> self_p2p a rt then
                  (case sc of
                     None \<Rightarrow> Inl RuntimeError
                   | Some c \<Rightarrow> dst_loop a rt src_slice dsts
                       (Some (absorb_target c (s_tensor (the (a_source a))) (s_tensor t) (ep_cell dst) dst_slice)) new)
                else res_bind (local_chunk a rt (the (a_source a)) t src_slice (ep_cell dst) dst_slice) (\<lambda>c.
                  dst_loop a rt src_slice dsts sc (new @ [c])))
             else res_bind (target_chunk a rt t (ep_cell dst) dst_slice) (\<lambda>c.
               dst_loop a rt src_slice dsts sc (new @ [c])))))"

definition route_source :: "chunk_args \<Rightarrow> route \<Rightarrow> py_slice list \<Rightarrow> chunk option result" where
  "route_source a rt src_slice =
     (case a_source a of
        None \<Rightarrow> Inr None
      | Some s \<Rightarrow>
          if ep_rank (r_src rt) = a_rank a \<and> \<not> (self_p2p a rt \<and> a_target a \<noteq> None)
          then res_bind (source_chunk a rt s src_slice) (\<lambda>c. Inr (Some c))
          else Inr None)"

definition route_chunks :: "chunk_args \<Rightarrow> route \<Rightarrow> chunk list result" where
  "route_chunks a rt =
     res_bind (if ep_rank (r_src rt) = a_rank a then side_slice (a_source a) (ep_cell (r_src rt)) else Inr []) (\<lambda>src_slice.
     res_bind (route_source a rt src_slice) (\<lambda>sc.
     res_bind (dst_loop a rt src_slice (r_dsts rt) sc []) (\<lambda>(sc', new).
     Inr ((case sc' of None \<Rightarrow> [] | Some c \<Rightarrow> [c]) @ new))))"

definition m2m_to_chunks ::
  "m2m_map \<Rightarrow> nat \<Rightarrow> tensor option \<Rightarrow> tensor option \<Rightarrow> dtype option \<Rightarrow> partial_groups option
   \<Rightarrow> pg_state \<Rightarrow> chunk list result \<times> pg_state" where
  "m2m_to_chunks m2m rank source_tensor target_tensor transfer_dtype source_partial_groups st =
     (case m2m_routes m2m of
        None \<Rightarrow> (Inr [], st)
      | Some [] \<Rightarrow> (Inr [], st)
      | Some routes \<Rightarrow>
          (case res_bind (slice_side (m2m_source_num_slicers m2m) source_tensor) (\<lambda>s.
                res_bind (slice_side (m2m_target_num_slicers m2m) target_tensor) (\<lambda>t. Inr (s, t))) of
             Inl e \<Rightarrow> (Inl e, st)
           | Inr (s, t) \<Rightarrow>
               (res_bind (res_mapM (route_chunks \<lparr>a_rank = rank, a_source = s, a_target = t,
                    a_transfer_dtype = transfer_dtype, a_partial_groups = source_partial_groups\<rparr>) routes)
                  (\<lambda>css. Inr (concat css)),
                create_groups (sorted_set (broadcast_group_ranks m2m)) st)))"

section \<open>What the chunks of a route are\<close>

text \<open>
  A chunk \<open>c\<close> writes destination \<open>d\<close> of route \<open>rt\<close> into the target tensor, at the slice of
  its cell; a chunk ships route \<open>rt\<close> from this rank.
\<close>

definition delivers :: "chunk_side \<Rightarrow> route \<Rightarrow> endpoint \<Rightarrow> chunk \<Rightarrow> bool" where
  "delivers t rt d c \<longleftrightarrow>
     c_is_target c \<and> c_src_rank c = ep_rank (r_src rt) \<and> c_src_idx c = ep_cell (r_src rt) \<and>
     c_dst_idx c = Some (ep_cell d) \<and> c_dst_ranks c = route_dst_ranks rt \<and> c_tensor c = s_tensor t \<and>
     side_slice (Some t) (ep_cell d) = Inr (c_dst_slice c)"

definition ships :: "chunk_args \<Rightarrow> chunk_side \<Rightarrow> route \<Rightarrow> chunk \<Rightarrow> bool" where
  "ships a s rt c \<longleftrightarrow>
     c_is_source c \<and> c_transport c = r_kind rt \<and> c_src_rank c = a_rank a \<and> c_src_idx c = ep_cell (r_src rt) \<and>
     c_dst_ranks c = route_dst_ranks rt \<and> c_source_partial_groups c = a_partial_groups a \<and>
     c_src_tensor c \<in> {None, Some (s_tensor s)} \<and> (c_src_tensor c = None \<longrightarrow> c_tensor c = s_tensor s) \<and>
     side_slice (Some s) (ep_cell (r_src rt)) = Inr (c_src_slice c)"

abbreviation local_dsts :: "chunk_args \<Rightarrow> endpoint list \<Rightarrow> endpoint list" where
  "local_dsts a dsts \<equiv> filter (\<lambda>d. ep_rank d = a_rank a) dsts"

definition absorbs :: "chunk_args \<Rightarrow> route \<Rightarrow> bool" where
  "absorbs a rt \<longleftrightarrow> ep_rank (r_src rt) = a_rank a \<and> a_source a \<noteq> None \<and> reduces a \<and> \<not> self_p2p a rt"

definition on_wire :: "chunk \<Rightarrow> bool" where
  "on_wire c \<longleftrightarrow> c_is_source c \<and> c_transport c \<noteq> LOCAL"

lemma local_chunk_delivers:
  "local_chunk a rt s t sl (ep_cell d) dsl = Inr c \<Longrightarrow> side_slice (Some t) (ep_cell d) = Inr dsl
   \<Longrightarrow> delivers t rt d c \<and> \<not> on_wire c"
  by (auto simp: local_chunk_def delivers_def on_wire_def res_simps)

lemma target_chunk_delivers:
  "target_chunk a rt t (ep_cell d) dsl = Inr c \<Longrightarrow> side_slice (Some t) (ep_cell d) = Inr dsl
   \<Longrightarrow> delivers t rt d c \<and> \<not> on_wire c"
  by (auto simp: target_chunk_def delivers_def on_wire_def res_simps)

lemma dst_loop_no_target: "a_target a = None \<Longrightarrow> dst_loop a rt sl dsts sc new = Inr (sc, new)"
  by (induction dsts) (auto simp: side_slice_def)

lemma dst_loop_appends:
  assumes "dst_loop a rt sl dsts sc new = Inr (sc', new')" "a_target a = Some t" "\<not> absorbs a rt"
  shows "sc' = sc \<and> (\<exists>cs. new' = new @ cs \<and> list_all2 (delivers t rt) (local_dsts a dsts) cs \<and> (\<forall>c \<in> set cs. \<not> on_wire c))"
  using assms(1)
proof (induction dsts arbitrary: new)
  case (Cons d dsts)
  show ?case
  proof (cases "ep_rank d = a_rank a")
    case True
    obtain dsl where dsl: "side_slice (Some t) (ep_cell d) = Inr dsl"
      using Cons.prems True assms(2) by (auto simp: res_simps)
    obtain c where lt: "local_chunk a rt (the (a_source a)) t sl (ep_cell d) dsl = Inr c \<or> target_chunk a rt t (ep_cell d) dsl = Inr c"
      and rest: "dst_loop a rt sl dsts sc (new @ [c]) = Inr (sc', new')"
      using Cons.prems True assms(2,3) dsl by (auto simp: res_simps absorbs_def split: if_splits)
    have c: "delivers t rt d c" "\<not> on_wire c"
      using lt local_chunk_delivers [OF _ dsl] target_chunk_delivers [OF _ dsl] by blast+
    show ?thesis using Cons.IH [OF rest] c True by auto
  qed (use Cons in auto)
qed simp

lemma dst_loop_absorbs:
  assumes "dst_loop a rt sl dsts sc new = Inr (sc', new')" "a_target a = Some t" "absorbs a rt"
    and "length (local_dsts a dsts) \<le> 1"
  shows "new' = new \<and> (case local_dsts a dsts of [] \<Rightarrow> sc' = sc
     | d # _ \<Rightarrow> \<exists>c dsl. sc = Some c \<and> side_slice (Some t) (ep_cell d) = Inr dsl \<and>
         sc' = Some (absorb_target c (s_tensor (the (a_source a))) (s_tensor t) (ep_cell d) dsl))"
  using assms(1,4)
proof (induction dsts arbitrary: sc)
  case (Cons d dsts)
  show ?case
  proof (cases "ep_rank d = a_rank a")
    case True
    then have none: "local_dsts a dsts = []" using Cons.prems(2) by simp
    obtain c dsl where c: "sc = Some c" "side_slice (Some t) (ep_cell d) = Inr dsl"
      and rest: "dst_loop a rt sl dsts (Some (absorb_target c (s_tensor (the (a_source a))) (s_tensor t) (ep_cell d) dsl)) new = Inr (sc', new')"
      using Cons.prems(1) True assms(2,3) by (auto simp: res_simps absorbs_def split: if_splits option.splits)
    show ?thesis using Cons.IH [OF rest] none True c by simp
  qed (use Cons in auto)
qed simp

lemma route_source_cases:
  assumes "route_source a rt sl = Inr sc" "ep_rank (r_src rt) = a_rank a \<Longrightarrow> side_slice (a_source a) (ep_cell (r_src rt)) = Inr sl"
  shows "case sc of
      None \<Rightarrow> a_source a = None \<or> ep_rank (r_src rt) \<noteq> a_rank a \<or> (self_p2p a rt \<and> a_target a \<noteq> None)
    | Some c \<Rightarrow> (\<exists>s. a_source a = Some s \<and> ships a s rt c \<and> c_src_tensor c = None) \<and> \<not> c_is_target c \<and>
        ep_rank (r_src rt) = a_rank a \<and> \<not> (self_p2p a rt \<and> a_target a \<noteq> None)"
  using assms by (auto simp: route_source_def source_chunk_def ships_def res_simps split: option.splits if_splits)

lemma absorb_delivers:
  "ships a s rt c \<Longrightarrow> ep_rank (r_src rt) = a_rank a \<Longrightarrow> side_slice (Some t) (ep_cell d) = Inr dsl
   \<Longrightarrow> delivers t rt d (absorb_target c (s_tensor s) (s_tensor t) (ep_cell d) dsl) \<and>
       ships a s rt (absorb_target c (s_tensor s) (s_tensor t) (ep_cell d) dsl)"
  by (simp add: delivers_def ships_def absorb_target_def)

lemma length_le_1_cases: "length xs \<le> 1 \<Longrightarrow> xs = [] \<or> (\<exists>x. xs = [x])"
  by (cases xs) auto

lemma route_chunks_deliver:
  assumes "route_chunks a rt = Inr cs" "a_target a = Some t" "length (local_dsts a (r_dsts rt)) \<le> 1 \<or> \<not> reduces a"
  shows "list_all2 (delivers t rt) (local_dsts a (r_dsts rt)) (filter c_is_target cs)"
proof -
  obtain sl sc sc' new
    where sl: "ep_rank (r_src rt) = a_rank a \<Longrightarrow> side_slice (a_source a) (ep_cell (r_src rt)) = Inr sl"
    and sc: "route_source a rt sl = Inr sc"
    and loop: "dst_loop a rt sl (r_dsts rt) sc [] = Inr (sc', new)"
    and cs: "cs = (case sc' of None \<Rightarrow> [] | Some c \<Rightarrow> [c]) @ new"
    using assms(1) by (auto simp: route_chunks_def res_simps split: if_splits)
  note src = route_source_cases [OF sc sl]
  show ?thesis
  proof (cases "absorbs a rt")
    case False
    have "sc' = sc" and new: "list_all2 (delivers t rt) (local_dsts a (r_dsts rt)) new"
      using dst_loop_appends [OF loop assms(2) False] by auto
    moreover have "\<forall>c \<in> set new. c_is_target c"
      using new by (auto simp: in_set_conv_nth list_all2_conv_all_nth delivers_def)
    ultimately show ?thesis using cs src by (cases sc) (auto simp: filter_id_conv)
  next
    case True
    then have one: "length (local_dsts a (r_dsts rt)) \<le> 1" using assms(3) by (auto simp: absorbs_def)
    note abs = dst_loop_absorbs [OF loop assms(2) True one]
    show ?thesis
    proof (cases "local_dsts a (r_dsts rt) = []")
      case True
      then show ?thesis using abs cs src by (cases sc) auto
    next
      case False
      then obtain d where d: "local_dsts a (r_dsts rt) = [d]" using length_le_1_cases [OF one] by blast
      obtain c dsl where c: "sc = Some c" "side_slice (Some t) (ep_cell d) = Inr dsl" "new = []"
        "sc' = Some (absorb_target c (s_tensor (the (a_source a))) (s_tensor t) (ep_cell d) dsl)"
        using abs d by auto
      obtain s where s: "a_source a = Some s" "ships a s rt c" "ep_rank (r_src rt) = a_rank a" using src c(1) by auto
      have "delivers t rt d (absorb_target c (s_tensor s) (s_tensor t) (ep_cell d) dsl)"
        using absorb_delivers [OF s(2,3) c(2)] by simp
      moreover from this have "c_is_target (absorb_target c (s_tensor s) (s_tensor t) (ep_cell d) dsl)"
        by (simp add: delivers_def)
      ultimately show ?thesis using cs c(3,4) s(1) d by simp
    qed
  qed
qed

lemma route_chunks_ship:
  assumes "route_chunks a rt = Inr cs" "a_source a = Some s" "r_kind rt \<noteq> LOCAL"
    and "length (local_dsts a (r_dsts rt)) \<le> 1 \<or> \<not> reduces a"
  shows "list_all2 (ships a s) (filter (\<lambda>rt. ep_rank (r_src rt) = a_rank a \<and> \<not> (self_p2p a rt \<and> a_target a \<noteq> None)) [rt])
    (filter on_wire cs)"
proof -
  obtain sl sc sc' new
    where sl: "ep_rank (r_src rt) = a_rank a \<Longrightarrow> side_slice (a_source a) (ep_cell (r_src rt)) = Inr sl"
    and sc: "route_source a rt sl = Inr sc"
    and loop: "dst_loop a rt sl (r_dsts rt) sc [] = Inr (sc', new)"
    and cs: "cs = (case sc' of None \<Rightarrow> [] | Some c \<Rightarrow> [c]) @ new"
    using assms(1) by (auto simp: route_chunks_def res_simps split: if_splits)
  note src = route_source_cases [OF sc sl]
  have wire: "on_wire c" if "ships a s rt c" for c using that assms(3) by (simp add: on_wire_def ships_def)
  have main: "(case sc of None \<Rightarrow> sc' = None | Some c \<Rightarrow> \<exists>c'. sc' = Some c' \<and> ships a s rt c') \<and> filter on_wire new = []"
  proof (cases "a_target a")
    case None
    then show ?thesis using dst_loop_no_target [OF None] loop src assms(2) by (cases sc) auto
  next
    case (Some t)
    show ?thesis
    proof (cases "absorbs a rt")
      case False
      then show ?thesis using dst_loop_appends [OF loop Some False] src assms(2) by (cases sc) (auto simp: filter_empty_conv)
    next
      case True
      then have one: "length (local_dsts a (r_dsts rt)) \<le> 1" using assms(4) by (auto simp: absorbs_def)
      note abs = dst_loop_absorbs [OF loop Some True one]
      show ?thesis
        using abs src length_le_1_cases [OF one] absorb_delivers assms(2) by (cases sc) (auto 4 4)
    qed
  qed
  show ?thesis using main src cs wire assms(2) by (cases sc) auto
qed

lemma list_all2_concat_map:
  "(\<And>x. x \<in> set xs \<Longrightarrow> list_all2 R (f x) (g x)) \<Longrightarrow> list_all2 R (concat (map f xs)) (concat (map g xs))"
  by (induction xs) (auto intro: list_all2_appendI)

lemma res_mapM_zip:
  "res_mapM f xs = Inr ys \<Longrightarrow> (x, y) \<in> set (zip xs ys) \<Longrightarrow> f x = Inr y"
  by (auto simp: set_zip dest: res_mapM_nth res_mapM_length)

lemma res_mapM_map: "res_mapM f xs = Inr ys \<Longrightarrow> ys = map (\<lambda>x. projr (f x)) xs \<and> (\<forall>x \<in> set xs. f x = Inr (projr (f x)))"
  by (induction xs arbitrary: ys) (auto simp: res_simps)

section \<open>Success\<close>

text \<open>The slicer counts fit a tensor: all positive, and no more of them than dimensions.\<close>

definition side_fits :: "nat list \<Rightarrow> tensor \<Rightarrow> bool" where
  "side_fits ns t \<longleftrightarrow> (\<forall>n \<in> set ns. 0 < n) \<and> length ns \<le> length (t_shape t)"

text \<open>The region of a cell: its own slice in the cut dimensions, the rest whole.\<close>

definition cell_region :: "nat list \<Rightarrow> tensor \<Rightarrow> nat list \<Rightarrow> py_slice list" where
  "cell_region ns t idx =
     cell_slices (t_shape t) (extend_slicers ns (t_shape t)) (idx @ replicate (length (t_shape t) - length ns) 0)"

lemma extend_slicers_fits:
  "side_fits ns t \<Longrightarrow> extend_slicers ns (t_shape t) = ns @ replicate (length (t_shape t) - length ns) 1"
  by (simp add: side_fits_def extend_slicers_def take_replicate min_def)

lemma chunk_shape_total:
  assumes "length nums = length shape" "\<forall>n \<in> set nums. 0 < n"
  shows "calculate_chunk_shape nums (Some shape) = Inr (map (\<lambda>d. shape ! d div nums ! d) [0..<length shape])"
  unfolding calculate_chunk_shape_def option.case
  by (rule res_mapM_Inr) (use assms in \<open>auto simp: py_nth_def py_div_def\<close>)

lemma slice_side_total:
  assumes "side_fits ns t"
  obtains s sh where "slice_side (Some ns) (Some t) = Inr (Some s)" "s_tensor s = t"
    "side_chunk_shape s = Inr sh"
    "\<And>idx. in_shape ns idx \<Longrightarrow> side_slice (Some s) idx = Inr (cell_region ns t idx)"
proof -
  let ?k = "length (t_shape t) - length ns"
  let ?n = "ns @ replicate ?k 1"
  have e: "extend_slicers ns (t_shape t) = ?n" using assms by (rule extend_slicers_fits)
  have len: "length ?n = length (t_shape t)" and pos: "\<forall>n \<in> set ns. 0 < n" "\<forall>n \<in> set ?n. 0 < n"
    using assms by (auto simp: side_fits_def)
  obtain tuples where tup: "get_slicer_tuples (t_shape t) ?n = Inr tuples"
    using get_slicer_tuples_ok [OF len pos(2)] by blast
  let ?s = "\<lparr>s_tensor = t, s_nums = ?n, s_tuples = tuples\<rparr>"
  show thesis
  proof (rule that [of ?s])
    show "slice_side (Some ns) (Some t) = Inr (Some ?s)" by (simp only: slice_side_def e tup option.case res_bind.simps)
    show "side_chunk_shape ?s = Inr (map (\<lambda>d. t_shape t ! d div ?n ! d) [0..<length (t_shape t)])"
      unfolding side_chunk_shape_def using chunk_shape_total [OF len pos(2)] by simp
    have l: "length (t_shape t) = length ns + ?k" using assms by (simp add: side_fits_def)
    show "side_slice (Some ?s) idx = Inr (cell_region ns t idx)" if "in_shape ns idx" for idx
      using get_slice_from_multi_index_ok [OF that pos(1) l tup] by (simp add: side_slice_def cell_region_def e)
  qed simp
qed

lemma dst_loop_total:
  assumes "absorbs a rt \<Longrightarrow> a_target a \<noteq> None \<Longrightarrow> sc \<noteq> None"
    and "\<And>t. a_target a = Some t \<Longrightarrow> \<exists>sh. side_chunk_shape t = Inr sh"
    and "\<And>d. d \<in> set (local_dsts a dsts) \<Longrightarrow> \<exists>sl. side_slice (a_target a) (ep_cell d) = Inr sl"
  shows "\<exists>r. dst_loop a rt sl dsts sc new = Inr r"
  using assms(1,3)
proof (induction dsts arbitrary: sc new)
  case (Cons d dsts)
  show ?case
  proof (cases "ep_rank d = a_rank a")
    case True
    then obtain dsl where dsl: "side_slice (a_target a) (ep_cell d) = Inr dsl" using Cons.prems(2) by auto
    have IH: "\<exists>r. dst_loop a rt sl dsts sc new = Inr r"
      if "absorbs a rt \<Longrightarrow> a_target a \<noteq> None \<Longrightarrow> sc \<noteq> None" for sc new
      using Cons.IH [of sc new] that Cons.prems(2) by auto
    show ?thesis
    proof (cases "a_target a")
      case None
      then show ?thesis using dst_loop_no_target by blast
    next
      case (Some t)
      then obtain sh where sh: "side_chunk_shape t = Inr sh" using assms(2) by blast
      show ?thesis
      proof (cases "absorbs a rt")
        case True
        then obtain c where c: "sc = Some c" using Cons.prems(1) Some by blast
        show ?thesis
          using True Some dsl c \<open>ep_rank d = a_rank a\<close> IH by (auto simp: absorbs_def)
      next
        case False
        then show ?thesis
          using Some dsl sh \<open>ep_rank d = a_rank a\<close> IH by (auto simp: absorbs_def local_chunk_def target_chunk_def)
      qed
    qed
  qed (use Cons in auto)
qed simp

lemma route_chunks_total:
  assumes src: "\<And>s. a_source a = Some s \<Longrightarrow> \<exists>sh. side_chunk_shape s = Inr sh"
      "ep_rank (r_src rt) = a_rank a \<Longrightarrow> \<exists>sl. side_slice (a_source a) (ep_cell (r_src rt)) = Inr sl"
    and tgt: "\<And>t. a_target a = Some t \<Longrightarrow> \<exists>sh. side_chunk_shape t = Inr sh"
      "\<And>d. d \<in> set (local_dsts a (r_dsts rt)) \<Longrightarrow> \<exists>sl. side_slice (a_target a) (ep_cell d) = Inr sl"
  shows "\<exists>cs. route_chunks a rt = Inr cs"
proof -
  obtain sl where sl: "(if ep_rank (r_src rt) = a_rank a then side_slice (a_source a) (ep_cell (r_src rt)) else Inr []) = Inr sl"
    using src(2) by (cases "ep_rank (r_src rt) = a_rank a") auto
  have "\<exists>sc. route_source a rt sl = Inr sc \<and> (absorbs a rt \<longrightarrow> sc \<noteq> None)"
    using src(1) by (cases "a_source a") (auto simp: route_source_def source_chunk_def absorbs_def)
  then obtain sc where sc: "route_source a rt sl = Inr sc" "absorbs a rt \<longrightarrow> sc \<noteq> None" by blast
  obtain r where "dst_loop a rt sl (r_dsts rt) sc [] = Inr r"
    using dst_loop_total [of a rt sc "r_dsts rt" sl "[]"] sc(2) tgt by blast
  then show ?thesis using sl sc(1) unfolding route_chunks_def by (cases r) simp
qed

section \<open>The chunks of a map\<close>

definition cells_fit :: "nat \<Rightarrow> nat list \<Rightarrow> nat list \<Rightarrow> route list \<Rightarrow> bool" where
  "cells_fit rank ns nt rts \<longleftrightarrow> (\<forall>rt \<in> set rts.
     (ep_rank (r_src rt) = rank \<longrightarrow> in_shape ns (ep_cell (r_src rt))) \<and> r_kind rt \<noteq> LOCAL \<and>
     (\<forall>d \<in> set (r_dsts rt). ep_rank d = rank \<longrightarrow> in_shape nt (ep_cell d)) \<and>
     length (filter (\<lambda>d. ep_rank d = rank) (r_dsts rt)) \<le> 1)"

lemma slice_side_option:
  assumes "\<And>t. tt = Some t \<Longrightarrow> side_fits ns t"
  obtains s where "slice_side (Some ns) tt = Inr s" "map_option s_tensor s = tt"
    "\<And>s'. s = Some s' \<Longrightarrow> \<exists>sh. side_chunk_shape s' = Inr sh"
    "\<And>idx. in_shape ns idx \<Longrightarrow> side_slice s idx = Inr (case tt of None \<Rightarrow> [] | Some t \<Rightarrow> cell_region ns t idx)"
proof (cases tt)
  case None
  show thesis by (rule that [of None]) (simp_all add: None slice_side_def side_slice_def)
next
  case (Some t)
  obtain s sh where "slice_side (Some ns) (Some t) = Inr (Some s)" "s_tensor s = t" "side_chunk_shape s = Inr sh"
    "\<And>idx. in_shape ns idx \<Longrightarrow> side_slice (Some s) idx = Inr (cell_region ns t idx)"
    using slice_side_total [OF assms [OF Some]] by blast
  then show thesis by (intro that [of "Some s"]) (simp_all add: Some)
qed

lemma m2m_to_chunks_run:
  assumes "m2m_routes m2m = Some rts" "m2m_source_num_slicers m2m = Some ns" "m2m_target_num_slicers m2m = Some nt"
    and "\<And>t. src = Some t \<Longrightarrow> side_fits ns t" "\<And>t. tgt = Some t \<Longrightarrow> side_fits nt t" "cells_fit rank ns nt rts"
  obtains s t a where "a = \<lparr>a_rank = rank, a_source = s, a_target = t, a_transfer_dtype = td, a_partial_groups = pgs\<rparr>"
    "fst (m2m_to_chunks m2m rank src tgt td pgs st) = Inr (concat (map (\<lambda>rt. projr (route_chunks a rt)) rts))"
    "\<And>rt. rt \<in> set rts \<Longrightarrow> route_chunks a rt = Inr (projr (route_chunks a rt))"
    "map_option s_tensor s = src" "map_option s_tensor t = tgt"
    "\<And>idx. in_shape ns idx \<Longrightarrow> side_slice s idx = Inr (case src of None \<Rightarrow> [] | Some t \<Rightarrow> cell_region ns t idx)"
    "\<And>idx. in_shape nt idx \<Longrightarrow> side_slice t idx = Inr (case tgt of None \<Rightarrow> [] | Some t \<Rightarrow> cell_region nt t idx)"
proof -
  obtain s where s: "slice_side (Some ns) src = Inr s" "map_option s_tensor s = src"
    "\<And>s'. s = Some s' \<Longrightarrow> \<exists>sh. side_chunk_shape s' = Inr sh"
    "\<And>idx. in_shape ns idx \<Longrightarrow> side_slice s idx = Inr (case src of None \<Rightarrow> [] | Some t \<Rightarrow> cell_region ns t idx)"
    using slice_side_option [OF assms(4)] by blast
  obtain t where t: "slice_side (Some nt) tgt = Inr t" "map_option s_tensor t = tgt"
    "\<And>s'. t = Some s' \<Longrightarrow> \<exists>sh. side_chunk_shape s' = Inr sh"
    "\<And>idx. in_shape nt idx \<Longrightarrow> side_slice t idx = Inr (case tgt of None \<Rightarrow> [] | Some t \<Rightarrow> cell_region nt t idx)"
    using slice_side_option [OF assms(5)] by blast
  let ?a = "\<lparr>a_rank = rank, a_source = s, a_target = t, a_transfer_dtype = td, a_partial_groups = pgs\<rparr>"
  have ok: "\<exists>cs. route_chunks ?a rt = Inr cs" if "rt \<in> set rts" for rt
    using assms(6) that s(3,4) t(3,4) by (intro route_chunks_total) (auto simp: cells_fit_def)
  then have eq: "route_chunks ?a rt = Inr (projr (route_chunks ?a rt))" if "rt \<in> set rts" for rt
    using that by fastforce
  have m: "res_mapM (route_chunks ?a) rts = Inr (map (\<lambda>rt. projr (route_chunks ?a rt)) rts)"
    by (rule res_mapM_Inr) (rule eq)
  have "fst (m2m_to_chunks m2m rank src tgt td pgs st) = Inr (concat (map (\<lambda>rt. projr (route_chunks ?a rt)) rts))"
    using assms(1,2,3) s(1) t(1) m unfolding m2m_to_chunks_def by (cases rts) simp_all
  then show thesis using eq s(2,4) t(2,4) by (intro that [of ?a s t]) simp_all
qed

section \<open>Prewarming\<close>

lemma broadcast_groups_canonical: "g \<in> set (broadcast_group_ranks m) \<Longrightarrow> sorted_set g = g"
  by (auto simp: broadcast_group_ranks_def route_group_def Let_def)

lemma prewarm_cong: "set maps = set maps' \<Longrightarrow> prewarm_broadcast_groups maps st = prewarm_broadcast_groups maps' st"
proof -
  assume "set maps = set maps'"
  then have "sorted_set (concat (map (\<lambda>m. case m of None \<Rightarrow> [] | Some m2m \<Rightarrow> broadcast_group_ranks m2m) maps))
      = sorted_set (concat (map (\<lambda>m. case m of None \<Rightarrow> [] | Some m2m \<Rightarrow> broadcast_group_ranks m2m) maps'))"
    by (intro sorted_set_cong) simp
  then show ?thesis by (simp only: prewarm_broadcast_groups_def)
qed

lemma prewarm_ok [simp]: "pg_ok st \<Longrightarrow> pg_ok (prewarm_broadcast_groups maps st)"
  by (simp add: prewarm_broadcast_groups_def)

lemma prewarm_makes:
  assumes "pg_ok st" "Some m \<in> set maps"
  shows "sorted_set ` set (broadcast_group_ranks m) \<subseteq> set (pg_calls (prewarm_broadcast_groups maps st))"
  using assms unfolding prewarm_broadcast_groups_def set_calls_create_groups [OF assms(1)] by force

lemma m2m_to_chunks_state:
  "snd (m2m_to_chunks m rank s t td g st) \<in> {st, create_groups (sorted_set (broadcast_group_ranks m)) st}"
  by (auto simp: m2m_to_chunks_def split: option.splits list.splits sum.splits)

lemma m2m_to_chunks_cached:
  assumes "pg_ok st" "sorted_set ` set (broadcast_group_ranks m) \<subseteq> set (pg_calls st)"
  shows "snd (m2m_to_chunks m rank s t td g st) = st"
proof -
  have "create_groups (sorted_set (broadcast_group_ranks m)) st = st"
    using assms by (intro create_groups_cached) simp_all
  then show ?thesis using m2m_to_chunks_state [of m rank s t td g st] by auto
qed

lemma chunks_after_prewarm:
  assumes "pg_ok st" "\<forall>(m, s, t, td, g) \<in> set calls. Some m \<in> set maps"
  shows "fold (\<lambda>(m, s, t, td, g) st. snd (m2m_to_chunks m rank s t td g st)) calls (prewarm_broadcast_groups maps st)
    = prewarm_broadcast_groups maps st"
  using assms(2)
  by (induction calls) (auto simp: m2m_to_chunks_cached prewarm_makes assms(1))

section \<open>Properties\<close>

text \<open>
  C3. Every delivery has its chunk: on well-formed input building the chunks succeeds, and the
  chunks that write the target are, in order, one per destination the routes have on this rank;
  each writes the target tensor at exactly its cell's region and names the right source cell.
  So nothing this rank should receive is dropped, duplicated or misplaced, whether it arrives
  over the wire, by a local copy or out of a Partial broadcast of its own.
\<close>

theorem chunks_deliver:
  assumes "m2m_routes m2m = Some rts" "m2m_source_num_slicers m2m = Some ns" "m2m_target_num_slicers m2m = Some nt"
    and "\<forall>t. src = Some t \<longrightarrow> side_fits ns t" "side_fits nt tgt" "cells_fit rank ns nt rts"
  shows "\<exists>cs. fst (m2m_to_chunks m2m rank src (Some tgt) td pgs st) = Inr cs \<and>
    list_all2 (\<lambda>(rt, d) c. c_is_target c \<and> c_tensor c = tgt \<and> c_dst_slice c = cell_region nt tgt (ep_cell d) \<and>
        c_dst_idx c = Some (ep_cell d) \<and> c_src_rank c = ep_rank (r_src rt) \<and> c_src_idx c = ep_cell (r_src rt))
      (concat (map (\<lambda>rt. map (Pair rt) (filter (\<lambda>d. ep_rank d = rank) (r_dsts rt))) rts))
      (filter c_is_target cs)"
proof -
  have f: "\<And>t. src = Some t \<Longrightarrow> side_fits ns t" "\<And>t. Some tgt = Some t \<Longrightarrow> side_fits nt t" using assms(4,5) by auto
  obtain s t a where a: "a = \<lparr>a_rank = rank, a_source = s, a_target = t, a_transfer_dtype = td, a_partial_groups = pgs\<rparr>"
    and run: "fst (m2m_to_chunks m2m rank src (Some tgt) td pgs st) = Inr (concat (map (\<lambda>rt. projr (route_chunks a rt)) rts))"
    and each: "\<And>rt. rt \<in> set rts \<Longrightarrow> route_chunks a rt = Inr (projr (route_chunks a rt))"
    and t: "map_option s_tensor t = Some tgt" "\<And>idx. in_shape nt idx \<Longrightarrow> side_slice t idx = Inr (cell_region nt tgt idx)"
    by (rule m2m_to_chunks_run [where src = src and tgt = "Some tgt", OF assms(1-3) f assms(6), where td = td and pgs = pgs and st = st]) auto
  obtain t' where t': "t = Some t'" "s_tensor t' = tgt" using t(1) by auto
  have ar: "a_rank a = rank" by (simp add: a)
  have "list_all2 (\<lambda>(rt, d) c. c_is_target c \<and> c_tensor c = tgt \<and> c_dst_slice c = cell_region nt tgt (ep_cell d) \<and>
        c_dst_idx c = Some (ep_cell d) \<and> c_src_rank c = ep_rank (r_src rt) \<and> c_src_idx c = ep_cell (r_src rt))
      (map (Pair rt) (filter (\<lambda>d. ep_rank d = rank) (r_dsts rt))) (filter c_is_target (projr (route_chunks a rt)))"
    if rt: "rt \<in> set rts" for rt
  proof -
    have "length (local_dsts a (r_dsts rt)) \<le> 1" using assms(6) rt by (simp add: cells_fit_def a)
    then have "list_all2 (delivers t' rt) (local_dsts a (r_dsts rt)) (filter c_is_target (projr (route_chunks a rt)))"
      using route_chunks_deliver [OF each [OF rt], of t'] by (simp add: a t'(1))
    then have "list_all2 (delivers t' rt) (filter (\<lambda>d. ep_rank d = rank) (r_dsts rt)) (filter c_is_target (projr (route_chunks a rt)))"
      unfolding ar .
    then show ?thesis
      using t(2) t' assms(6) rt unfolding list_all2_map1
      by (elim list.rel_mono_strong) (auto simp: a delivers_def cells_fit_def)
  qed
  then show ?thesis using run by (auto simp: filter_concat comp_def intro!: list_all2_concat_map)
qed

theorem chunks_deliver_witness:
  "\<exists>cs. fst (m2m_to_chunks
       \<lparr>m2m_routes = Some [\<lparr>r_src = \<lparr>ep_rank = 1, ep_cell = [0]\<rparr>, r_dsts = [\<lparr>ep_rank = 0, ep_cell = [1]\<rparr>], r_kind = P2P\<rparr>],
        m2m_source_num_slicers = Some [1], m2m_target_num_slicers = Some [2], m2m_source_partial_reductions = []\<rparr>
       0 None (Some \<lparr>t_id = 0, t_shape = [4, 3], t_dtype = \<lparr>dt_name = ''float32'', itemsize = 4\<rparr>\<rparr>) None None pg_init) = Inr cs
     \<and> map c_dst_slice (filter c_is_target cs) = [[(2, 4), (0, 3)]]"
proof -
  let ?rt = "\<lparr>r_src = \<lparr>ep_rank = 1, ep_cell = [0]\<rparr>, r_dsts = [\<lparr>ep_rank = 0, ep_cell = [1]\<rparr>], r_kind = P2P\<rparr>"
  let ?t = "\<lparr>t_id = 0, t_shape = [4, 3], t_dtype = \<lparr>dt_name = ''float32'', itemsize = 4\<rparr>\<rparr>"
  have "side_fits [2] ?t" "cells_fit 0 [1] [2] [?rt]" by (simp_all add: side_fits_def cells_fit_def)
  moreover have "cell_region [2] ?t [1] = [(2, 4), (0, 3)]"
    by code_simp
  ultimately show ?thesis
    using chunks_deliver [of "\<lparr>m2m_routes = Some [?rt], m2m_source_num_slicers = Some [1],
        m2m_target_num_slicers = Some [2], m2m_source_partial_reductions = []\<rparr>" "[?rt]" "[1]" "[2]" None ?t 0 None None pg_init]
    by (force simp: list_all2_Cons1)
qed

text \<open>
  Every shipment has its chunk: the chunks of a source rank that go on the wire or take
  part in a reduction are, in route order, one per route of this rank, with the route's
  transport, destinations and the Partial groups; the one exception is a route from the rank to
  itself alone, which is copied locally. Since the routes are the same on every rank, members
  of a Partial group meet in the same order.
\<close>

theorem chunks_ship:
  assumes "m2m_routes m2m = Some rts" "m2m_source_num_slicers m2m = Some ns" "m2m_target_num_slicers m2m = Some nt"
    and "side_fits ns src" "\<forall>t. tgt = Some t \<longrightarrow> side_fits nt t" "cells_fit rank ns nt rts"
  shows "\<exists>cs. fst (m2m_to_chunks m2m rank (Some src) tgt td pgs st) = Inr cs \<and>
    list_all2 (\<lambda>rt c. c_transport c = r_kind rt \<and> c_dst_ranks c = route_dst_ranks rt \<and> c_src_rank c = rank \<and>
        c_src_slice c = cell_region ns src (ep_cell (r_src rt)) \<and> c_source_partial_groups c = pgs \<and>
        (case c_src_tensor c of None \<Rightarrow> c_tensor c | Some t \<Rightarrow> t) = src)
      (filter (\<lambda>rt. ep_rank (r_src rt) = rank \<and>
          \<not> (r_kind rt = P2P \<and> route_dst_ranks rt = [rank] \<and> tgt \<noteq> None)) rts)
      (filter (\<lambda>c. c_is_source c \<and> c_transport c \<noteq> LOCAL) cs)"
proof -
  have f: "\<And>t. Some src = Some t \<Longrightarrow> side_fits ns t" "\<And>t. tgt = Some t \<Longrightarrow> side_fits nt t" using assms(4,5) by auto
  obtain s t a where a: "a = \<lparr>a_rank = rank, a_source = s, a_target = t, a_transfer_dtype = td, a_partial_groups = pgs\<rparr>"
    and run: "fst (m2m_to_chunks m2m rank (Some src) tgt td pgs st) = Inr (concat (map (\<lambda>rt. projr (route_chunks a rt)) rts))"
    and each: "\<And>rt. rt \<in> set rts \<Longrightarrow> route_chunks a rt = Inr (projr (route_chunks a rt))"
    and s: "map_option s_tensor s = Some src" "\<And>idx. in_shape ns idx \<Longrightarrow> side_slice s idx = Inr (cell_region ns src idx)"
    and t: "map_option s_tensor t = tgt"
    by (rule m2m_to_chunks_run [where src = "Some src" and tgt = tgt, OF assms(1-3) f assms(6), where td = td and pgs = pgs and st = st]) auto
  obtain s' where s': "s = Some s'" "s_tensor s' = src" using s(1) by auto
  let ?sel = "\<lambda>rt. ep_rank (r_src rt) = rank \<and> \<not> (r_kind rt = P2P \<and> route_dst_ranks rt = [rank] \<and> tgt \<noteq> None)"
  have "list_all2 (\<lambda>rt c. c_transport c = r_kind rt \<and> c_dst_ranks c = route_dst_ranks rt \<and> c_src_rank c = rank \<and>
        c_src_slice c = cell_region ns src (ep_cell (r_src rt)) \<and> c_source_partial_groups c = pgs \<and>
        (case c_src_tensor c of None \<Rightarrow> c_tensor c | Some t \<Rightarrow> t) = src)
      (filter ?sel [rt]) (filter on_wire (projr (route_chunks a rt)))"
    if rt: "rt \<in> set rts" for rt
  proof -
    have "length (local_dsts a (r_dsts rt)) \<le> 1" "r_kind rt \<noteq> LOCAL" using assms(6) rt by (simp_all add: cells_fit_def a)
    then have "list_all2 (ships a s') (filter ?sel [rt]) (filter on_wire (projr (route_chunks a rt)))"
      using route_chunks_ship [OF each [OF rt], of s'] t by (auto simp: a s'(1) self_p2p_def)
    then show ?thesis
      using s(2) s' assms(6) rt
      by (elim list.rel_mono_strong) (auto simp: a ships_def cells_fit_def split: if_splits)
  qed
  moreover have "filter ?sel rts = concat (map (\<lambda>rt. filter ?sel [rt]) rts)" by (induction rts) auto
  ultimately have "list_all2 (\<lambda>rt c. c_transport c = r_kind rt \<and> c_dst_ranks c = route_dst_ranks rt \<and> c_src_rank c = rank \<and>
        c_src_slice c = cell_region ns src (ep_cell (r_src rt)) \<and> c_source_partial_groups c = pgs \<and>
        (case c_src_tensor c of None \<Rightarrow> c_tensor c | Some t \<Rightarrow> t) = src)
      (filter ?sel rts) (filter on_wire (concat (map (\<lambda>rt. projr (route_chunks a rt)) rts)))"
    by (simp only: filter_concat map_map comp_def) (rule list_all2_concat_map)
  then show ?thesis unfolding run on_wire_def by blast
qed

theorem chunks_ship_witness:
  "\<exists>cs. fst (m2m_to_chunks
       \<lparr>m2m_routes = Some [\<lparr>r_src = \<lparr>ep_rank = 0, ep_cell = [1]\<rparr>,
            r_dsts = [\<lparr>ep_rank = 2, ep_cell = [0]\<rparr>, \<lparr>ep_rank = 1, ep_cell = [0]\<rparr>], r_kind = BROADCAST\<rparr>],
        m2m_source_num_slicers = Some [2], m2m_target_num_slicers = Some [1], m2m_source_partial_reductions = []\<rparr>
       0 (Some \<lparr>t_id = 0, t_shape = [4, 3], t_dtype = \<lparr>dt_name = ''float32'', itemsize = 4\<rparr>\<rparr>) None None None pg_init) = Inr cs
     \<and> map (\<lambda>c. (c_src_slice c, c_dst_ranks c)) (filter (\<lambda>c. c_is_source c \<and> c_transport c \<noteq> LOCAL) cs) = [([(2, 4), (0, 3)], [1, 2])]"
proof -
  let ?rt = "\<lparr>r_src = \<lparr>ep_rank = 0, ep_cell = [1]\<rparr>,
            r_dsts = [\<lparr>ep_rank = 2, ep_cell = [0]\<rparr>, \<lparr>ep_rank = 1, ep_cell = [0]\<rparr>], r_kind = BROADCAST\<rparr>"
  let ?t = "\<lparr>t_id = 0, t_shape = [4, 3], t_dtype = \<lparr>dt_name = ''float32'', itemsize = 4\<rparr>\<rparr>"
  have "side_fits [2] ?t" "cells_fit 0 [2] [1] [?rt]" by (simp_all add: side_fits_def cells_fit_def)
  moreover have "cell_region [2] ?t [1] = [(2, 4), (0, 3)]"
    by code_simp
  moreover have "route_dst_ranks ?rt = [1, 2]" by code_simp
  ultimately show ?thesis
    using chunks_ship [of "\<lparr>m2m_routes = Some [?rt], m2m_source_num_slicers = Some [2],
        m2m_target_num_slicers = Some [1], m2m_source_partial_reductions = []\<rparr>" "[?rt]" "[2]" "[1]" ?t None 0 None None pg_init]
    by (force simp: list_all2_Cons1)
qed

text \<open>A map with one broadcast route, for the concrete instances below.\<close>

definition broadcast_map :: "nat \<Rightarrow> nat list \<Rightarrow> m2m_map" where
  "broadcast_map src dsts =
     \<lparr>m2m_routes = Some [\<lparr>r_src = \<lparr>ep_rank = src, ep_cell = [0]\<rparr>,
         r_dsts = map (\<lambda>r. \<lparr>ep_rank = r, ep_cell = [0]\<rparr>) dsts, r_kind = BROADCAST\<rparr>],
      m2m_source_num_slicers = Some [1], m2m_target_num_slicers = Some [1], m2m_source_partial_reductions = []\<rparr>"

text \<open>
  C23. Prewarming makes group creation agree: two ranks that prewarm the same set of maps, in any
  order, and then build chunks for any of those maps, in any order and for any tensors, end in
  the same cache state, so their sequences of collective \<open>new_group\<close> calls are equal and
  every group handle names the same group on both.
\<close>

theorem prewarm_agrees:
  assumes "pg_ok st" "set maps = set maps'"
    and "\<forall>(m, s, t, td, g) \<in> set calls. Some m \<in> set maps" "\<forall>(m, s, t, td, g) \<in> set calls'. Some m \<in> set maps'"
  shows "fold (\<lambda>(m, s, t, td, g) st. snd (m2m_to_chunks m rank s t td g st)) calls (prewarm_broadcast_groups maps st) =
    fold (\<lambda>(m, s, t, td, g) st. snd (m2m_to_chunks m rank' s t td g st)) calls' (prewarm_broadcast_groups maps' st)"
  unfolding chunks_after_prewarm [OF assms(1,3)] chunks_after_prewarm [OF assms(1,4)]
  by (rule prewarm_cong [OF assms(2)])

theorem prewarm_agrees_witness:
  "snd (m2m_to_chunks (broadcast_map 2 [0, 1]) 0 None None None None
      (snd (m2m_to_chunks (broadcast_map 0 [2, 3]) 0 None None None None
        (prewarm_broadcast_groups [Some (broadcast_map 0 [2, 3]), Some (broadcast_map 2 [0, 1])] pg_init)))) =
   snd (m2m_to_chunks (broadcast_map 0 [2, 3]) 2 None None None None
      (snd (m2m_to_chunks (broadcast_map 2 [0, 1]) 2 None None None None
        (prewarm_broadcast_groups [Some (broadcast_map 2 [0, 1]), Some (broadcast_map 0 [2, 3])] pg_init))))"
  using prewarm_agrees [of pg_init "[Some (broadcast_map 0 [2, 3]), Some (broadcast_map 2 [0, 1])]"
      "[Some (broadcast_map 2 [0, 1]), Some (broadcast_map 0 [2, 3])]"
      "[(broadcast_map 0 [2, 3], None, None, None, None), (broadcast_map 2 [0, 1], None, None, None, None)]"
      "[(broadcast_map 2 [0, 1], None, None, None, None), (broadcast_map 0 [2, 3], None, None, None, None)]" 0 2]
  by auto

text \<open>
  Without the prewarm pass the two sides of a pair that broadcasts both ways diverge: each
  builds its own sending direction first, so the first \<open>new_group\<close> call of one side is for
  another group than the first call of the other.
\<close>

theorem first_touch_diverges:
  "pg_calls (snd (m2m_to_chunks (broadcast_map 2 [0, 1]) 0 None None None None
      (snd (m2m_to_chunks (broadcast_map 0 [2, 3]) 0 None None None None pg_init)))) = [[0, 2, 3], [0, 1, 2]]
   \<and> pg_calls (snd (m2m_to_chunks (broadcast_map 0 [2, 3]) 2 None None None None
      (snd (m2m_to_chunks (broadcast_map 2 [0, 1]) 2 None None None None pg_init)))) = [[0, 1, 2], [0, 2, 3]]"
  by code_simp

end
