(* ===== verification/Buckets.thy ===== *)
theory Buckets
  imports Chunks
begin

text \<open>
  \<^verbatim>\<open>src/etha/comm/get_buckets.py\<close>: bundling the chunks of a rank into buckets. The chunks
  of all channels come interleaved and are packed in one pass over a dictionary of open
  buckets; the reference it is compared with packs one channel at a time.
\<close>

section \<open>The pass over the chunks\<close>

type_synonym open_buckets = "(channel_key, chunk list \<times> nat) dict"

definition make_bucket :: "chunk list \<Rightarrow> bucket" where
  "make_bucket chunks = Bucket chunks"

definition bucket_step :: "nat \<Rightarrow> chunk \<Rightarrow> bucket list \<times> open_buckets \<Rightarrow> bucket list \<times> open_buckets" where
  "bucket_step bucket_size c state =
     (case state of (buckets, grouped_state) \<Rightarrow>
        if bucket_size \<le> nbytes c then (buckets @ [make_bucket [c]], grouped_state)
        else case dict_get_or grouped_state (bucket_key c) ([], 0) of (current_chunks, current_bytes) \<Rightarrow>
          if bucket_size \<le> current_bytes + nbytes c
          then (buckets @ [make_bucket (current_chunks @ [c])], dict_set grouped_state (bucket_key c) ([], 0))
          else (buckets, dict_set grouped_state (bucket_key c) (current_chunks @ [c], current_bytes + nbytes c)))"

definition flush_buckets :: "bucket list \<times> open_buckets \<Rightarrow> bucket list" where
  "flush_buckets state =
     (case state of (buckets, grouped_state) \<Rightarrow>
        buckets @ map (\<lambda>(k, cs, n). make_bucket cs) (filter (\<lambda>(k, cs, n). cs \<noteq> []) grouped_state))"

definition chunk_to_bucket_ops :: "chunk list \<Rightarrow> nat \<Rightarrow> bucket list" where
  "chunk_to_bucket_ops chunks bucket_size = flush_buckets (fold (bucket_step bucket_size) chunks ([], []))"

section \<open>One channel at a time\<close>

abbreviation bytes :: "chunk list \<Rightarrow> nat" where
  "bytes cs \<equiv> sum_list (map nbytes cs)"

fun pack :: "nat \<Rightarrow> chunk list \<Rightarrow> chunk list \<Rightarrow> chunk list list" where
  "pack n cur [] = (if cur = [] then [] else [cur])"
| "pack n cur (c # cs) =
     (if n \<le> nbytes c then [c] # pack n cur cs
      else if n \<le> bytes cur + nbytes c then (cur @ [c]) # pack n [] cs
      else pack n (cur @ [c]) cs)"

abbreviation on_channel :: "channel_key \<Rightarrow> bucket \<Rightarrow> bool" where
  "on_channel k b \<equiv> Bucket_key b = Inr k"

text \<open>The open buckets: one per key, with chunks of that key and their byte count.\<close>

definition open_ok :: "open_buckets \<Rightarrow> bool" where
  "open_ok g \<longleftrightarrow> distinct (dict_keys g) \<and> (\<forall>(k, cs, n) \<in> set g. n = bytes cs \<and> (\<forall>c \<in> set cs. bucket_key c = k))"

definition open_chunks :: "open_buckets \<Rightarrow> channel_key \<Rightarrow> chunk list" where
  "open_chunks g k = fst (dict_get_or g k ([], 0))"

lemma open_ok_get:
  assumes "open_ok g"
  shows "dict_get_or g k ([], 0) = (open_chunks g k, bytes (open_chunks g k))" "\<forall>c \<in> set (open_chunks g k). bucket_key c = k"
proof -
  have "dict_get_or g k ([], 0) = (open_chunks g k, bytes (open_chunks g k)) \<and> (\<forall>c \<in> set (open_chunks g k). bucket_key c = k)"
  proof (cases "dict_get g k")
    case None
    then show ?thesis by (simp add: open_chunks_def dict_get_or_def)
  next
    case (Some v)
    then have "(k, v) \<in> set g" by (rule map_of_SomeD)
    then show ?thesis using Some assms by (cases v) (auto simp: open_ok_def open_chunks_def dict_get_or_def)
  qed
  then show "dict_get_or g k ([], 0) = (open_chunks g k, bytes (open_chunks g k))" "\<forall>c \<in> set (open_chunks g k). bucket_key c = k"
    by blast+
qed

lemma open_ok_set:
  "open_ok g \<Longrightarrow> \<forall>c \<in> set cs. bucket_key c = k \<Longrightarrow> n = bytes cs \<Longrightarrow> open_ok (dict_set g k (cs, n))"
  using set_dict_set_subset [where d = g and k = k and v = "(cs, n)"] unfolding open_ok_def by fastforce

lemma open_chunks_set: "open_chunks (dict_set g k (cs, n)) k' = (if k' = k then cs else open_chunks g k')"
  by (simp add: open_chunks_def dict_simps)

lemma on_channel_make: "cs \<noteq> [] \<Longrightarrow> \<forall>c \<in> set cs. bucket_key c = k \<Longrightarrow> on_channel k' (make_bucket cs) \<longleftrightarrow> k' = k"
  by (cases cs) (auto simp: make_bucket_def Bucket_key_def py_nth_def)

lemma flush_channel:
  assumes "open_ok g"
  shows "filter (on_channel k) (flush_buckets (bs, g)) =
    filter (on_channel k) bs @ (if open_chunks g k = [] then [] else [make_bucket (open_chunks g k)])"
proof -
  have "filter (on_channel k) (map (\<lambda>(k, cs, n). make_bucket cs) (filter (\<lambda>(k, cs, n). cs \<noteq> []) g))
      = (if open_chunks g k = [] then [] else [make_bucket (open_chunks g k)])"
    using assms
  proof (induction g)
    case (Cons e g)
    obtain k' cs n where e: "e = (k', cs, n)" by (cases e)
    have ok: "open_ok g" and keys: "\<forall>c \<in> set cs. bucket_key c = k'" and fresh: "dict_get g k' = None"
      using Cons.prems e by (auto simp: open_ok_def dict_keys_def map_of_eq_None_iff)
    have "k = k' \<Longrightarrow> open_chunks g k = []" using fresh by (simp add: open_chunks_def dict_get_or_def)
    then show ?case
      using Cons.IH [OF ok] on_channel_make [OF _ keys, of k] e
      by (auto simp: open_chunks_def dict_get_or_def)
  qed (simp add: open_chunks_def dict_get_or_def)
  then show ?thesis by (simp add: flush_buckets_def)
qed

lemma pass_channel:
  "open_ok g \<Longrightarrow> filter (on_channel k) (flush_buckets (fold (bucket_step n) cs (bs, g)))
     = filter (on_channel k) bs @ map make_bucket (pack n (open_chunks g k) (filter (\<lambda>c. bucket_key c = k) cs))"
proof (induction cs arbitrary: bs g)
  case Nil
  then show ?case by (simp add: flush_channel)
next
  case (Cons c cs)
  let ?p = "open_chunks g (bucket_key c)"
  note get = open_ok_get [OF Cons.prems, of "bucket_key c"]
  have keys: "\<forall>d \<in> set (?p @ [c]). bucket_key d = bucket_key c" using get(2) by auto
  consider (big) "n \<le> nbytes c" | (full) "\<not> n \<le> nbytes c" "n \<le> bytes ?p + nbytes c"
    | (fits) "\<not> n \<le> nbytes c" "\<not> n \<le> bytes ?p + nbytes c" by blast
  then show ?case
  proof cases
    case big
    have "on_channel k (make_bucket [c]) \<longleftrightarrow> k = bucket_key c" by (rule on_channel_make) auto
    then show ?thesis using big Cons by (auto simp: bucket_step_def)
  next
    case full
    have "bucket_step n c (bs, g) = (bs @ [make_bucket (?p @ [c])], dict_set g (bucket_key c) ([], 0))"
      using full get(1) by (simp add: bucket_step_def)
    moreover have "open_ok (dict_set g (bucket_key c) ([], 0))" using Cons.prems by (rule open_ok_set) auto
    moreover have "on_channel k (make_bucket (?p @ [c])) \<longleftrightarrow> k = bucket_key c" using keys by (intro on_channel_make) auto
    ultimately show ?thesis using Cons.IH full by (auto simp: open_chunks_set)
  next
    case fits
    have "bucket_step n c (bs, g) = (bs, dict_set g (bucket_key c) (?p @ [c], bytes ?p + nbytes c))"
      using fits get(1) by (simp add: bucket_step_def)
    moreover have "open_ok (dict_set g (bucket_key c) (?p @ [c], bytes ?p + nbytes c))"
      using Cons.prems keys by (rule open_ok_set) simp
    ultimately show ?thesis using Cons.IH fits by (auto simp: open_chunks_set)
  qed
qed

lemma ops_channel:
  "filter (on_channel k) (chunk_to_bucket_ops cs n) = map make_bucket (pack n [] (filter (\<lambda>c. bucket_key c = k) cs))"
proof -
  have "open_ok []" by (simp add: open_ok_def)
  then show ?thesis using pass_channel [of "[]" k n cs "[]"] by (simp add: chunk_to_bucket_ops_def open_chunks_def dict_get_or_def)
qed

section \<open>What the pass keeps\<close>

lemma mset_values_set:
  assumes "open_ok g"
  shows "mset (concat (map (fst \<circ> snd) (dict_set g k (cs, m)))) + mset (open_chunks g k)
    = mset (concat (map (fst \<circ> snd) g)) + mset cs"
  using assms
proof (induction g)
  case (Cons e g)
  have "open_ok g" using Cons.prems by (auto simp: open_ok_def dict_keys_def)
  then show ?case using Cons.IH by (cases e) (auto simp: open_chunks_def dict_get_or_def algebra_simps)
qed (simp add: open_chunks_def dict_get_or_def)

lemma bucket_step_cases:
  assumes "open_ok g"
  obtains (big) "bucket_step n c (bs, g) = (bs @ [make_bucket [c]], g)"
  | (full) "bucket_step n c (bs, g) = (bs @ [make_bucket (open_chunks g (bucket_key c) @ [c])], dict_set g (bucket_key c) ([], 0))"
  | (fits) "bucket_step n c (bs, g) = (bs, dict_set g (bucket_key c)
        (open_chunks g (bucket_key c) @ [c], bytes (open_chunks g (bucket_key c) @ [c])))"
proof -
  let ?p = "open_chunks g (bucket_key c)"
  have get: "dict_get_or g (bucket_key c) ([], 0) = (?p, bytes ?p)" using assms by (rule open_ok_get)
  show thesis
  proof (cases "n \<le> nbytes c")
    case True
    then show thesis by (intro big) (simp add: bucket_step_def)
  next
    case False
    then show thesis using full fits get by (cases "n \<le> bytes ?p + nbytes c") (simp_all add: bucket_step_def)
  qed
qed

definition uniform :: "bucket \<Rightarrow> bool" where
  "uniform b \<longleftrightarrow> b_chunks b \<noteq> [] \<and> (\<forall>d \<in> set (b_chunks b). on_channel (bucket_key d) b)"

lemma chunks_make [simp]: "b_chunks (make_bucket cs) = cs"
  by (simp add: make_bucket_def)

lemma uniform_make: "cs \<noteq> [] \<Longrightarrow> \<forall>d \<in> set cs. bucket_key d = k \<Longrightarrow> uniform (make_bucket cs)"
  using on_channel_make by (auto simp: uniform_def)

text \<open>All chunks of a state of the pass, closed buckets and open ones.\<close>

definition state_chunks :: "bucket list \<times> open_buckets \<Rightarrow> chunk multiset" where
  "state_chunks st = mset (concat (map b_chunks (fst st))) + mset (concat (map (fst \<circ> snd) (snd st)))"

definition state_ok :: "bucket list \<times> open_buckets \<Rightarrow> bool" where
  "state_ok st \<longleftrightarrow> open_ok (snd st) \<and> (\<forall>b \<in> set (fst st). uniform b)"

lemma bucket_step_ok:
  assumes "state_ok st"
  shows "state_ok (bucket_step n c st)" "state_chunks (bucket_step n c st) = add_mset c (state_chunks st)"
proof -
  obtain bs g where st: "st = (bs, g)" by (cases st)
  let ?k = "bucket_key c"
  let ?p = "open_chunks g ?k"
  have g: "open_ok g" using assms by (simp add: state_ok_def st)
  have keys: "\<forall>d \<in> set (?p @ [c]). bucket_key d = ?k" using open_ok_get(2) [OF g] by auto
  note u = uniform_make [OF _ keys] uniform_make [of "[c]" ?k]
  note o = open_ok_set [OF g keys refl] open_ok_set [OF g, of "[]" ?k 0]
  note m = mset_values_set [OF g, of ?k "[]" 0] mset_values_set [OF g, of ?k "?p @ [c]" "bytes (?p @ [c])"]
  show "state_ok (bucket_step n c st)"
    using g assms u o by (cases rule: bucket_step_cases [OF g, of n c bs]) (simp_all add: st state_ok_def)
  show "state_chunks (bucket_step n c st) = add_mset c (state_chunks st)"
    using m by (cases rule: bucket_step_cases [OF g, of n c bs]) (simp_all add: st state_chunks_def add_ac)
qed

lemma pass_ok:
  "state_ok st \<Longrightarrow> state_ok (fold (bucket_step n) cs st) \<and> state_chunks (fold (bucket_step n) cs st) = mset cs + state_chunks st"
  by (induction cs arbitrary: st) (auto simp: bucket_step_ok)

lemma flush_ok:
  assumes "state_ok st"
  shows "mset (concat (map b_chunks (flush_buckets st))) = state_chunks st" "\<forall>b \<in> set (flush_buckets st). uniform b"
proof -
  obtain bs g where st: "st = (bs, g)" by (cases st)
  have "concat (map b_chunks (map (\<lambda>(k, cs, n). make_bucket cs) (filter (\<lambda>(k, cs, n). cs \<noteq> []) g))) = concat (map (fst \<circ> snd) g)"
    by (induction g) auto
  then show "mset (concat (map b_chunks (flush_buckets st))) = state_chunks st"
    by (simp add: st flush_buckets_def state_chunks_def)
  show "\<forall>b \<in> set (flush_buckets st). uniform b"
    using assms uniform_make by (fastforce simp: st flush_buckets_def state_ok_def open_ok_def)
qed

lemma buckets_member: "b \<in> set (chunk_to_bucket_ops cs n) \<Longrightarrow> uniform b"
  using pass_ok [of "([], [])" n cs] flush_ok(2)
  by (auto simp: chunk_to_bucket_ops_def state_ok_def open_ok_def)

lemma pack_sizes:
  assumes "cur = [] \<or> bytes cur < n" "p \<in> set (pack n cur cs)"
  shows "p \<noteq> [] \<and> (length p = 1 \<or> bytes (butlast p) < n)"
  using assms
proof (induction n cur cs rule: pack.induct)
  case (1 n cur)
  have "bytes (butlast cur) \<le> bytes cur" if "cur \<noteq> []"
    by (subst (2) append_butlast_last_id [OF that, symmetric]) (simp only: map_append sum_list_append le_add1)
  with 1 show ?case by (auto split: if_splits)
next
  case (2 n cur c cs)
  then show ?case by (cases "n \<le> nbytes c"; cases "n \<le> bytes cur + nbytes c") auto
qed

lemma pack_small_members: "p \<in> set (pack n cur cs) \<Longrightarrow> \<forall>c \<in> set cur. nbytes c < n \<Longrightarrow> length p = 1 \<or> (\<forall>c \<in> set p. nbytes c < n)"
  by (induction n cur cs rule: pack.induct) (fastforce split: if_splits)+

lemma pack_filled:
  "length (filter (\<lambda>p. bytes p < n) (pack n cur cs)) \<le> 1"
  by (induction n cur cs rule: pack.induct) auto

lemma pack_nbytes:
  "map nbytes cur = map nbytes cur' \<Longrightarrow> map nbytes cs = map nbytes cs'
   \<Longrightarrow> map (map nbytes) (pack n cur cs) = map (map nbytes) (pack n cur' cs')"
proof (induction n cur cs arbitrary: cur' cs' rule: pack.induct)
  case (1 n cur)
  then have "cur = [] \<longleftrightarrow> cur' = []" "cs' = []" by (metis map_is_Nil_conv)+
  with 1 show ?case by simp
next
  case (2 n cur c cs)
  then obtain d ds where d: "cs' = d # ds" "nbytes c = nbytes d" "map nbytes cs = map nbytes ds" by (cases cs') auto
  have b: "bytes cur = bytes cur'" using 2(4) by simp
  show ?case
    using 2(1) [OF _ 2(4) d(3)] 2(2) [of "[]" ds] 2(3) [of "cur' @ [d]" ds] 2(4) d b by simp
qed

section \<open>Properties\<close>

text \<open>A chunk of \<open>n\<close> bytes from \<open>src\<close> to \<open>dsts\<close>, for the concrete instances below.\<close>

definition sample_chunk :: "nat \<Rightarrow> nat list \<Rightarrow> partial_groups option \<Rightarrow> nat \<Rightarrow> chunk" where
  "sample_chunk src dsts pgs n =
     (let t = \<lparr>t_id = 0, t_shape = [n], t_dtype = \<lparr>dt_name = ''uint8'', itemsize = 1\<rparr>\<rparr> in
      \<lparr>c_transport = P2P, c_is_source = True, c_is_target = False, c_src_rank = src, c_dst_ranks = dsts,
       c_chunk_shape = [n], c_tensor = t, c_src_tensor = None, c_src_slice = [(0, n)], c_dst_slice = [],
       c_transfer_dtype = t_dtype t, c_src_idx = [0], c_dst_idx = None, c_source_partial_groups = pgs\<rparr>)"

abbreviation message_sizes :: "bucket list \<Rightarrow> nat list list" where
  "message_sizes bs \<equiv> map (\<lambda>b. map nbytes (b_chunks b)) bs"

text \<open>
  C5. Bundling refines independent packing: whatever the interleaving of the channels, the
  buckets of a channel are, in order, the ones a greedy packing of that channel's chunks alone
  makes. So what one channel carries does not depend on the others.
\<close>

theorem buckets_refine_packing:
  "filter (on_channel k) (chunk_to_bucket_ops cs n) = map Bucket (pack n [] (filter (\<lambda>c. bucket_key c = k) cs))"
  using ops_channel [of k cs n] by (simp add: make_bucket_def [abs_def])

text \<open>
  Nothing is lost or mixed: the buckets hold exactly the given chunks, each as often as it
  was given, no bucket is empty, and all chunks of a bucket have the bucket's own key (so its
  transport, role and ranks, read from the first chunk, are those of every chunk).
\<close>

theorem buckets_partition:
  "mset (concat (map b_chunks (chunk_to_bucket_ops cs n))) = mset cs \<and>
   (\<forall>b \<in> set (chunk_to_bucket_ops cs n). b_chunks b \<noteq> [] \<and> (\<forall>c \<in> set (b_chunks b). Bucket_key b = Inr (bucket_key c)))"
proof -
  let ?st = "fold (bucket_step n) cs ([], [])"
  have "state_ok ([], [])" by (simp add: state_ok_def open_ok_def)
  from pass_ok [OF this, of n cs] have "state_ok ?st" "state_chunks ?st = mset cs" by (simp_all add: state_chunks_def)
  then show ?thesis using flush_ok [of ?st] by (simp add: chunk_to_bucket_ops_def uniform_def)
qed

theorem buckets_partition_witness:
  "mset (concat (map b_chunks (chunk_to_bucket_ops [sample_chunk 0 [1] None 4, sample_chunk 2 [1] None 4, sample_chunk 0 [1] None 4] 8))) = mset [sample_chunk 0 [1] None 4, sample_chunk 2 [1] None 4, sample_chunk 0 [1] None 4] \<and>
   [] \<notin> set (map b_chunks (chunk_to_bucket_ops [sample_chunk 0 [1] None 4, sample_chunk 2 [1] None 4, sample_chunk 0 [1] None 4] 8))"
  using buckets_partition [of "[sample_chunk 0 [1] None 4, sample_chunk 2 [1] None 4, sample_chunk 0 [1] None 4]" 8] by fastforce

lemma bucket_bound:
  assumes "b \<in> set (chunk_to_bucket_ops cs n)"
  shows "total_bytes b = Inr (bytes (b_chunks b))" "length (b_chunks b) \<noteq> 1 \<Longrightarrow> bytes (b_chunks b) < 2 * n"
proof -
  have ne: "b_chunks b \<noteq> []" and key: "on_channel (bucket_key (hd (b_chunks b))) b"
    using buckets_member [OF assms(1)] by (auto simp: uniform_def)
  let ?k = "bucket_key (hd (b_chunks b))"
  have "b \<in> set (filter (on_channel ?k) (chunk_to_bucket_ops cs n))" using assms(1) key by simp
  then obtain p where p: "p \<in> set (pack n [] (filter (\<lambda>c. bucket_key c = ?k) cs))" "b = make_bucket p" unfolding ops_channel by auto
  show "total_bytes b = Inr (bytes (b_chunks b))" using ne p(2) total_bytes_Bucket [of p] by (simp add: make_bucket_def)
  assume "length (b_chunks b) \<noteq> 1"
  then have "bytes (butlast p) < n" "\<forall>c \<in> set p. nbytes c < n"
    using pack_sizes [of "[]" n p] pack_small_members [of p n "[]"] p by auto
  moreover have "bytes p = bytes (butlast p) + nbytes (last p)"
    using ne p(2) by (subst append_butlast_last_id [of p, symmetric]) (simp_all del: append_butlast_last_id)
  ultimately show "bytes (b_chunks b) < 2 * n" using ne p(2) by (metis add_less_mono chunks_make last_in_set mult_2)
qed

text \<open>
  C34. Bucket sizes. Every bucket is either one chunk or holds less than twice the bucket size;
  and on every channel, whatever its chunks, at most one bucket stays below the bucket size, so
  small chunks are always bundled.
\<close>

theorem bucket_sizes:
  "(\<forall>b \<in> set (chunk_to_bucket_ops cs n).
      total_bytes b = Inr (bytes (b_chunks b)) \<and> (length (b_chunks b) = 1 \<or> bytes (b_chunks b) < 2 * n)) \<and>
   (\<forall>k. length (filter (\<lambda>b. on_channel k b \<and> bytes (b_chunks b) < n) (chunk_to_bucket_ops cs n)) \<le> 1)"
proof (intro conjI ballI allI)
  fix k
  have "filter (\<lambda>b. on_channel k b \<and> bytes (b_chunks b) < n) (chunk_to_bucket_ops cs n)
      = map make_bucket (filter (\<lambda>p. bytes p < n) (pack n [] (filter (\<lambda>c. bucket_key c = k) cs)))"
    unfolding filter_filter [symmetric] ops_channel by (simp add: filter_map comp_def)
  then show "length (filter (\<lambda>b. on_channel k b \<and> bytes (b_chunks b) < n) (chunk_to_bucket_ops cs n)) \<le> 1"
    using pack_filled [of n "[]"] by simp
qed (use bucket_bound in blast)+

theorem bucket_sizes_witness:
  "length (filter (\<lambda>b. on_channel (0, [1], [], [], P2P) b \<and> bytes (b_chunks b) < 8)
     (chunk_to_bucket_ops [sample_chunk 0 [1] None 4, sample_chunk 2 [1] None 4, sample_chunk 0 [1] None 4, sample_chunk 0 [1] None 4] 8)) \<le> 1 \<and>
   Bucket [sample_chunk 0 [1] None 4, sample_chunk 0 [1] None 4]
     \<in> set (chunk_to_bucket_ops [sample_chunk 0 [1] None 4, sample_chunk 2 [1] None 4, sample_chunk 0 [1] None 4, sample_chunk 0 [1] None 4] 8) \<and>
   bytes [sample_chunk 0 [1] None 4, sample_chunk 0 [1] None 4] < 2 * 8"
proof -
  let ?cs = "[sample_chunk 0 [1] None 4, sample_chunk 2 [1] None 4, sample_chunk 0 [1] None 4, sample_chunk 0 [1] None 4]"
  let ?b = "[sample_chunk 0 [1] None 4, sample_chunk 0 [1] None 4]"
  have m: "Bucket ?b \<in> set (chunk_to_bucket_ops ?cs 8)" by code_simp
  have "bytes (b_chunks (Bucket ?b)) < 2 * 8" using bspec [OF bucket_sizes [THEN conjunct1] m] by simp
  moreover have "length (filter (\<lambda>b. on_channel (0, [1], [], [], P2P) b \<and> bytes (b_chunks b) < 8) (chunk_to_bucket_ops ?cs 8)) \<le> 1"
    by (rule bucket_sizes [THEN conjunct2, rule_format])
  ultimately show ?thesis using m by simp
qed

text \<open>
  C6. Both ends of a channel agree: when the chunks of a channel have the same sizes in the
  same order on the sending and on the receiving rank, both cut them into the same messages,
  whatever else the two ranks do on other channels.
\<close>

theorem channel_messages_agree:
  assumes "map nbytes (filter (\<lambda>c. bucket_key c = k) cs) = map nbytes (filter (\<lambda>c. bucket_key c = k') cs')"
  shows "map (\<lambda>b. map nbytes (b_chunks b)) (filter (on_channel k) (chunk_to_bucket_ops cs n)) =
    map (\<lambda>b. map nbytes (b_chunks b)) (filter (on_channel k') (chunk_to_bucket_ops cs' n))"
  using pack_nbytes [OF _ assms, of "[]" "[]" n] by (simp add: ops_channel comp_def)

theorem channel_messages_agree_witness:
  "message_sizes (filter (on_channel (0, [1], [], [], P2P))
       (chunk_to_bucket_ops [sample_chunk 0 [1] None 4, sample_chunk 2 [1] None 4, sample_chunk 0 [1] None 4] 8)) =
   message_sizes (filter (on_channel (0, [1], [], [], P2P))
       (chunk_to_bucket_ops [sample_chunk 0 [1] None 4, sample_chunk 0 [1] None 4] 8))"
proof -
  have "map nbytes (filter (\<lambda>c. bucket_key c = (0, [1], [], [], P2P))
      [sample_chunk 0 [1] None 4, sample_chunk 2 [1] None 4, sample_chunk 0 [1] None 4])
    = map nbytes (filter (\<lambda>c. bucket_key c = (0, [1], [], [], P2P)) [sample_chunk 0 [1] None 4, sample_chunk 0 [1] None 4])"
    by code_simp
  then show ?thesis by (rule channel_messages_agree)
qed

text \<open>
  The keys of the two ends can differ: the sender's key has the Partial groups of the
  chunk, the receiver's never has any. When a Partial and a non-Partial tensor travel between
  the same two ranks in one batch, the sender makes two messages of 4 bytes where the receiver
  expects one of 8.
\<close>

theorem mixed_partial_mismatch:
  "message_sizes (chunk_to_bucket_ops [sample_chunk 0 [1] (Some [(7, ''sum'')]) 4, sample_chunk 0 [1] None 4] 8) = [[4], [4]]
   \<and> message_sizes (chunk_to_bucket_ops [sample_chunk 0 [1] None 4, sample_chunk 0 [1] None 4] 8) = [[4, 4]]"
  by code_simp
end
