(* ===== verification/Bucket_Exec.thy ===== *)
theory Bucket_Exec
  imports Tensor_Memory Buckets
begin

text \<open>
  The data movement of \<^verbatim>\<open>ir.py\<close> and \<^verbatim>\<open>transfer.py\<close>: a chunk's buffer is taken
  from its tensor, a bucket's buffer is assembled from its chunks, the wire operation fills the
  buffer of the receiving side, and finalizing writes every chunk's bytes into its target
  region. The wire operations are PyTorch's: what arrives is an argument of the wait.
\<close>

section \<open>Chunks\<close>

definition reduce_ops :: "string list" where
  "reduce_ops = [''sum'', ''avg'', ''max'', ''min'', ''product'']"

fun all_reduces :: "torch \<Rightarrow> partial_groups \<Rightarrow> view \<Rightarrow> memory \<Rightarrow> memory result" where
  "all_reduces T [] buf m = Inr m"
| "all_reduces T ((g, p) # gs) buf m =
     (if p \<notin> set reduce_ops then Inl KeyError
      else all_reduces T gs buf (write_view buf (to_reduce T g p (read_view buf m)) m))"

definition read_tensor :: "chunk \<Rightarrow> tensor" where
  "read_tensor c = (case c_src_tensor c of None \<Rightarrow> c_tensor c | Some t \<Rightarrow> t)"

definition partial_of :: "chunk \<Rightarrow> partial_groups" where
  "partial_of c = (case c_source_partial_groups c of None \<Rightarrow> [] | Some gs \<Rightarrow> gs)"

definition maybe_contiguous :: "bool \<Rightarrow> view \<Rightarrow> memory \<Rightarrow> view \<times> memory" where
  "maybe_contiguous on v m = (if on then contiguous v m else (v, m))"

text \<open>Before an in-place reduction the buffer must not share the storage of the tensor it was read from.\<close>

definition own_storage :: "view \<Rightarrow> view \<Rightarrow> memory \<Rightarrow> view \<times> memory" where
  "own_storage base v m =
     (if v_storage v = v_storage base then (case contiguous v m of (w, m1) \<Rightarrow> clone w m1) else (v, m))"

definition chunk_prepare :: "torch \<Rightarrow> bool \<Rightarrow> chunk \<Rightarrow> memory \<Rightarrow> (view \<times> memory) result" where
  "chunk_prepare T contig c m =
     (if c_is_source c then
        let base = to_view T (read_tensor c) in
        res_bind (index_view base (c_src_slice c)) (\<lambda>v0.
        case maybe_contiguous contig v0 m of (v1, m1) \<Rightarrow>
        case (if partial_of c \<noteq> [] then own_storage base v1 m1 else (v1, m1)) of (v2, m2) \<Rightarrow>
        res_bind (all_reduces T (partial_of c) v2 m2) (\<lambda>m3.
        Inr (if c_transfer_dtype c \<noteq> v_dtype v2 then to_dtype T (c_transfer_dtype c) v2 m3 else (v2, m3))))
      else
        res_bind (index_view (to_view T (c_tensor c)) (c_dst_slice c)) (\<lambda>v0. Inr (maybe_contiguous contig v0 m)))"

definition chunk_finalize :: "torch \<Rightarrow> chunk \<Rightarrow> view option \<Rightarrow> memory \<Rightarrow> memory result" where
  "chunk_finalize T c buf m =
     (if c_is_target c then
        (case buf of
           None \<Rightarrow> Inl AttributeError
         | Some b \<Rightarrow>
             case (if v_dtype b \<noteq> t_dtype (c_tensor c) then to_dtype T (t_dtype (c_tensor c)) b m else (b, m)) of (b1, m1) \<Rightarrow>
             res_bind (index_view (to_view T (c_tensor c)) (c_dst_slice c)) (\<lambda>dst. copy_view T dst b1 m1))
      else Inr m)"

section \<open>Buckets\<close>

datatype device = Cpu | Cuda

datatype wire_op = Isend nat | Irecv nat | Bcast nat group_handle

record bucket_run =
  br_bucket :: bucket
  br_device :: "device option"
  br_ready_event :: bool
  br_buffer :: "view option"
  br_chunk_buffers :: "view option list"
  br_work :: "wire_op option"

definition idle_run :: "device option \<Rightarrow> bucket \<Rightarrow> bucket_run" where
  "idle_run dev b = \<lparr>br_bucket = b, br_device = dev, br_ready_event = False, br_buffer = None,
     br_chunk_buffers = map (\<lambda>_. None) (b_chunks b), br_work = None\<rparr>"

text \<open>One turn of the loop of \<open>Bucket.prepare\<close>: the chunk's part of the bucket buffer.\<close>

definition prepare_slot :: "torch \<Rightarrow> bool \<Rightarrow> view \<Rightarrow> nat \<times> chunk \<Rightarrow> memory \<Rightarrow> (view option \<times> memory) result" where
  "prepare_slot T is_source buf oc m =
     (case oc of (offset, c) \<Rightarrow>
      res_bind (narrow_as buf offset (nbytes c) (c_transfer_dtype c) (c_chunk_shape c)) (\<lambda>sl.
      if is_source then
        res_bind (chunk_prepare T False c m) (\<lambda>(v, m1).
        res_bind (copy_view T sl v m1) (\<lambda>m2.
        Inr (if c_is_target c then Some sl else None, m2)))
      else Inr (Some sl, m)))"

fun prepare_slots :: "torch \<Rightarrow> bool \<Rightarrow> view \<Rightarrow> (nat \<times> chunk) list \<Rightarrow> memory \<Rightarrow> (view option list \<times> memory) result" where
  "prepare_slots T is_source buf [] m = Inr ([], m)"
| "prepare_slots T is_source buf (oc # ocs) m =
     res_bind (prepare_slot T is_source buf oc m) (\<lambda>(v, m1).
     res_bind (prepare_slots T is_source buf ocs m1) (\<lambda>(vs, m2). Inr (v # vs, m2)))"

definition bucket_prepare :: "torch \<Rightarrow> bucket_run \<Rightarrow> memory \<Rightarrow> (bucket_run \<times> memory) result" where
  "bucket_prepare T r m =
     (case b_chunks (br_bucket r) of
        [c] \<Rightarrow>
          res_bind (chunk_prepare T True c m) (\<lambda>(v, m1).
          res_bind (as_bytes v) (\<lambda>u.
          Inr (r\<lparr>br_buffer := Some u, br_chunk_buffers := [if c_is_target c then Some v else None]\<rparr>, m1)))
      | cs \<Rightarrow>
          res_bind (total_bytes (br_bucket r)) (\<lambda>n.
          case alloc [n] uint8 m of (buf, m1) \<Rightarrow>
          res_bind (bucket_is_source (br_bucket r)) (\<lambda>is_source.
          res_bind (prepare_slots T is_source buf (zip (b_offsets (br_bucket r)) cs) m1) (\<lambda>(vs, m2).
          Inr (r\<lparr>br_buffer := Some buf, br_chunk_buffers := vs, br_ready_event := is_source \<and> br_device r = Some Cuda\<rparr>, m2)))))"

definition execute_p2p :: "bool \<Rightarrow> nat \<Rightarrow> nat \<Rightarrow> wire_op" where
  "execute_p2p is_source src_rank dst_rank = (if is_source then Isend dst_rank else Irecv src_rank)"

definition execute_broadcast :: "nat \<Rightarrow> nat list \<Rightarrow> pg_state \<Rightarrow> wire_op \<times> pg_state" where
  "execute_broadcast src_rank dst_ranks pg =
     (case get_or_create_process_group (sort (src_rank # dst_ranks)) pg of (g, pg') \<Rightarrow> (Bcast src_rank g, pg'))"

definition bucket_launch :: "bucket_run \<Rightarrow> pg_state \<Rightarrow> (bool \<times> bucket_run \<times> pg_state) result" where
  "bucket_launch r pg =
     (let b = br_bucket r; r1 = r\<lparr>br_ready_event := False\<rparr> in
      res_bind (bucket_transport b) (\<lambda>t.
      case t of
        LOCAL \<Rightarrow> Inr (True, r1\<lparr>br_work := None\<rparr>, pg)
      | NONE \<Rightarrow> Inr (True, r1\<lparr>br_work := None\<rparr>, pg)
      | P2P \<Rightarrow>
          res_bind (bucket_is_source b) (\<lambda>is_source. res_bind (bucket_src_rank b) (\<lambda>src. res_bind (bucket_dst_ranks b) (\<lambda>dsts.
          res_bind (py_nth dsts 0) (\<lambda>dst. Inr (True, r1\<lparr>br_work := Some (execute_p2p is_source src dst)\<rparr>, pg)))))
      | BROADCAST \<Rightarrow>
          res_bind (bucket_src_rank b) (\<lambda>src. res_bind (bucket_dst_ranks b) (\<lambda>dsts.
          case execute_broadcast src dsts pg of (w, pg') \<Rightarrow> Inr (True, r1\<lparr>br_work := Some w\<rparr>, pg')))))"

text \<open>\<open>work.wait()\<close>: afterwards the buffer of a receiving side holds what has arrived.\<close>

definition receives :: "bool \<Rightarrow> wire_op option \<Rightarrow> bool" where
  "receives is_source w = (case w of None \<Rightarrow> False | Some (Isend _) \<Rightarrow> False | Some (Irecv _) \<Rightarrow> True | Some (Bcast _ _) \<Rightarrow> \<not> is_source)"

definition work_wait :: "byte list \<Rightarrow> bucket_run \<Rightarrow> memory \<Rightarrow> (bucket_run \<times> memory) result" where
  "work_wait arrived r m =
     (if br_work r = None then Inr (r, m)
      else res_bind (bucket_is_source (br_bucket r)) (\<lambda>is_source.
        Inr (r\<lparr>br_work := None\<rparr>,
          case br_buffer r of Some buf \<Rightarrow> if receives is_source (br_work r) then write_view buf arrived m else m | None \<Rightarrow> m)))"

definition bucket_is_complete :: "bool \<Rightarrow> byte list \<Rightarrow> bucket_run \<Rightarrow> memory \<Rightarrow> (bool \<times> bucket_run \<times> memory) result" where
  "bucket_is_complete done_now arrived r m =
     (if br_work r = None then Inr (True, r, m)
      else if br_device r = Some Cpu then res_bind (work_wait arrived r m) (\<lambda>(r1, m1). Inr (True, r1, m1))
      else Inr (done_now, r, m))"

fun finalize_chunks :: "torch \<Rightarrow> (chunk \<times> view option) list \<Rightarrow> memory \<Rightarrow> memory result" where
  "finalize_chunks T [] m = Inr m"
| "finalize_chunks T ((c, b) # cbs) m = res_bind (chunk_finalize T c b m) (finalize_chunks T cbs)"

definition bucket_finalize :: "torch \<Rightarrow> byte list \<Rightarrow> bucket_run \<Rightarrow> memory \<Rightarrow> (bucket_run \<times> memory) result" where
  "bucket_finalize T arrived r m =
     res_bind (work_wait arrived r m) (\<lambda>(r1, m1).
     res_bind (bucket_is_target (br_bucket r1)) (\<lambda>is_target.
     if is_target then
       res_bind (finalize_chunks T (zip (b_chunks (br_bucket r1)) (br_chunk_buffers r1)) m1) (\<lambda>m2.
       Inr (r1\<lparr>br_buffer := None, br_chunk_buffers := map (\<lambda>_. None) (br_chunk_buffers r1)\<rparr>, m2))
     else Inr (r1\<lparr>br_buffer := None\<rparr>, m1)))"

section \<open>What is sent\<close>

definition src_region :: "torch \<Rightarrow> chunk \<Rightarrow> view" where
  "src_region T c = projr (index_view (to_view T (read_tensor c)) (c_src_slice c))"

definition dst_region :: "torch \<Rightarrow> chunk \<Rightarrow> view" where
  "dst_region T c = projr (index_view (to_view T (c_tensor c)) (c_dst_slice c))"

definition convert :: "torch \<Rightarrow> dtype \<Rightarrow> dtype \<Rightarrow> byte list \<Rightarrow> byte list" where
  "convert T d d' bs = (if d' \<noteq> d then to_cast T d d' bs else bs)"

text \<open>The bytes a source chunk stands for: its region, reduced over its Partial groups in the tensor's own dtype, then converted.\<close>

definition wire_bytes :: "torch \<Rightarrow> memory \<Rightarrow> chunk \<Rightarrow> byte list" where
  "wire_bytes T m c = convert T (t_dtype (read_tensor c)) (c_transfer_dtype c)
     (fold (\<lambda>(g, p). to_reduce T g p) (partial_of c) (read_view (src_region T c) m))"

definition tensor_ok :: "torch \<Rightarrow> memory \<Rightarrow> tensor \<Rightarrow> bool" where
  "tensor_ok T m t \<longleftrightarrow> view_ok (to_view T t) \<and> v_dtype (to_view T t) = t_dtype t \<and> v_shape (to_view T t) = t_shape t \<and> v_storage (to_view T t) < m_next m"

definition source_ok :: "torch \<Rightarrow> memory \<Rightarrow> chunk \<Rightarrow> bool" where
  "source_ok T m c \<longleftrightarrow> c_is_source c \<and> tensor_ok T m (read_tensor c) \<and> length (c_src_slice c) \<le> length (t_shape (read_tensor c)) \<and>
     sliced_shape (t_shape (read_tensor c)) (c_src_slice c) = c_chunk_shape c \<and> 0 < itemsize (c_transfer_dtype c) \<and>
     set (map snd (partial_of c)) \<subseteq> set reduce_ops"

definition target_ok :: "torch \<Rightarrow> memory \<Rightarrow> chunk \<Rightarrow> bool" where
  "target_ok T m c \<longleftrightarrow> c_is_target c \<and> tensor_ok T m (c_tensor c) \<and> length (c_dst_slice c) \<le> length (t_shape (c_tensor c)) \<and>
     sliced_shape (t_shape (c_tensor c)) (c_dst_slice c) = c_chunk_shape c \<and> 0 < itemsize (c_transfer_dtype c)"

lemma region_facts:
  assumes "tensor_ok T m t" "length sl \<le> length (t_shape t)"
  obtains v where "index_view (to_view T t) sl = Inr v" "view_ok v" "v_storage v = v_storage (to_view T t)" "v_storage v < m_next m" "v_dtype v = t_dtype t"
    "v_shape v = sliced_shape (t_shape t) sl"
proof -
  obtain v where v: "index_view (to_view T t) sl = Inr v" using assms by (simp add: index_view_def tensor_ok_def)
  have ok: "view_ok (to_view T t)" using assms(1) by (simp add: tensor_ok_def)
  show thesis using that [OF v] index_view_facts [OF ok v] assms(1) by (simp add: tensor_ok_def)
qed

lemma all_reduces_facts:
  assumes "view_ok buf" "set (map snd gs) \<subseteq> set reduce_ops" "torch_ok T"
  shows "\<exists>m'. all_reduces T gs buf m = Inr m' \<and> m_next m' = m_next m \<and> (\<forall>s. s \<noteq> v_storage buf \<longrightarrow> m_data m' s = m_data m s) \<and>
    read_view buf m' = fold (\<lambda>(g, p). to_reduce T g p) gs (read_view buf m) \<and> (gs = [] \<longrightarrow> m' = m)"
  using assms(2)
proof (induction gs arbitrary: m)
  case (Cons gp gs)
  obtain g p where gp: "gp = (g, p)" by (cases gp)
  let ?m = "write_view buf (to_reduce T g p (read_view buf m)) m"
  have "read_view buf ?m = to_reduce T g p (read_view buf m)"
    using assms(1,3) by (intro read_write_same) (simp_all add: torch_ok_def view_ok_def)
  moreover have "\<forall>s. s \<noteq> v_storage buf \<longrightarrow> m_data ?m s = m_data m s" by (simp add: write_view_def)
  ultimately show ?case using Cons.IH [of ?m] Cons.prems by (auto simp: gp)
qed simp

lemma maybe_contiguous_facts:
  assumes "maybe_contiguous on v m = (w, m')" "view_ok v" "v_storage v < m_next m"
  shows "kept m m' \<and> read_view w m' = read_view v m \<and> v_shape w = v_shape v \<and> v_dtype w = v_dtype v \<and> view_ok w \<and> v_storage w < m_next m' \<and>
    (w = v \<or> m_next m \<le> v_storage w) \<and> (on \<longrightarrow> is_contiguous w)"
proof (cases on)
  case True
  then have "contiguous v m = (w, m')" using assms(1) by (simp add: maybe_contiguous_def)
  from contiguous_facts [OF this assms(2,3)] show ?thesis by auto
qed (use assms in \<open>auto simp: maybe_contiguous_def\<close>)

lemma own_storage_facts:
  assumes "own_storage base v m = (w, m')" "view_ok v" "v_storage v < m_next m" "v_storage v = v_storage base \<or> k \<le> v_storage v" "k \<le> m_next m"
  shows "kept m m' \<and> read_view w m' = read_view v m \<and> v_shape w = v_shape v \<and> v_dtype w = v_dtype v \<and> view_ok w \<and> v_storage w < m_next m' \<and> k \<le> v_storage w \<and>
    (is_contiguous v \<longrightarrow> is_contiguous w)"
proof (cases "v_storage v = v_storage base")
  case True
  obtain u m1 where u: "contiguous v m = (u, m1)" by (cases "contiguous v m")
  then have c: "clone u m1 = (w, m')" using True assms(1) by (simp add: own_storage_def)
  note uf = contiguous_facts [OF u assms(2,3)]
  note cf = clone_facts [OF c uf(5)]
  have "k \<le> m_next m1" using uf(1) assms(5) by (simp add: kept_def)
  then show ?thesis using uf cf kept_trans [OF uf(1) cf(1)] by simp
qed (use assms in \<open>auto simp: own_storage_def\<close>)

lemma kept_reduce:
  assumes "\<forall>s. s \<noteq> b \<longrightarrow> m_data m' s = m_data m s" "m_next m' = m_next m" "k \<le> b" "k \<le> m_next m" "kept m0 m" "m_next m0 \<le> k"
  shows "kept m0 m'"
  using assms by (auto simp: kept_def)

lemma convert_view:
  assumes "(if d \<noteq> v_dtype v then to_dtype T d v m else (v, m)) = (w, m')" "view_ok v" "v_storage v < m_next m" "torch_ok T" "0 < itemsize d"
  shows "kept m m' \<and> read_view w m' = convert T (v_dtype v) d (read_view v m) \<and> v_shape w = v_shape v \<and> v_dtype w = d \<and> view_ok w \<and>
    v_storage w < m_next m' \<and> (is_contiguous v \<longrightarrow> is_contiguous w) \<and> (w = v \<or> m_next m \<le> v_storage w)"
proof (cases "d \<noteq> v_dtype v")
  case True
  then have "to_dtype T d v m = (w, m')" using assms(1) by simp
  from to_dtype_facts [OF this assms(2,4,5)] True show ?thesis by (simp add: convert_def)
qed (use assms in \<open>auto simp: convert_def\<close>)

lemma chunk_prepare_source:
  assumes "torch_ok T" "source_ok T m c"
  shows "\<exists>v m'. chunk_prepare T contig c m = Inr (v, m') \<and> kept m m' \<and> read_view v m' = wire_bytes T m c \<and> v_shape v = c_chunk_shape c \<and>
    v_dtype v = c_transfer_dtype c \<and> view_ok v \<and> v_storage v < m_next m' \<and> (contig \<longrightarrow> is_contiguous v)"
proof -
  let ?base = "to_view T (read_tensor c)" and ?gs = "partial_of c"
  have src: "c_is_source c" "tensor_ok T m (read_tensor c)" "length (c_src_slice c) \<le> length (t_shape (read_tensor c))"
    "sliced_shape (t_shape (read_tensor c)) (c_src_slice c) = c_chunk_shape c" "set (map snd ?gs) \<subseteq> set reduce_ops"
    using assms(2) by (simp_all add: source_ok_def)
  obtain v0 where v0: "index_view ?base (c_src_slice c) = Inr v0" "view_ok v0" "v_storage v0 = v_storage ?base" "v_storage v0 < m_next m"
    "v_dtype v0 = t_dtype (read_tensor c)" "v_shape v0 = c_chunk_shape c" using region_facts [OF src(2,3)] src(4) by metis
  obtain v1 m1 where 1: "maybe_contiguous contig v0 m = (v1, m1)" by fastforce
  note f1 = maybe_contiguous_facts [OF 1 v0(2,4)]
  obtain v2 m2 where 2: "(if ?gs \<noteq> [] then own_storage ?base v1 m1 else (v1, m1)) = (v2, m2)" by fastforce
  have f2: "kept m1 m2 \<and> read_view v2 m2 = read_view v1 m1 \<and> v_shape v2 = v_shape v1 \<and> v_dtype v2 = v_dtype v1 \<and> view_ok v2 \<and> v_storage v2 < m_next m2 \<and>
      (?gs \<noteq> [] \<longrightarrow> m_next m \<le> v_storage v2) \<and> (is_contiguous v1 \<longrightarrow> is_contiguous v2)"
  proof (cases "?gs = []")
    case False
    then have "own_storage ?base v1 m1 = (v2, m2)" using 2 by simp
    moreover have "v_storage v1 = v_storage ?base \<or> m_next m \<le> v_storage v1" "m_next m \<le> m_next m1" using f1 v0(3) by (auto simp: kept_def)
    ultimately show ?thesis using own_storage_facts [of ?base v1 m1 v2 m2 "m_next m"] f1 by blast
  qed (use 2 f1 in auto)
  obtain m3 where 3: "all_reduces T ?gs v2 m2 = Inr m3" "m_next m3 = m_next m2" "\<forall>s. s \<noteq> v_storage v2 \<longrightarrow> m_data m3 s = m_data m2 s"
    "read_view v2 m3 = fold (\<lambda>(g, p). to_reduce T g p) ?gs (read_view v2 m2)" "?gs = [] \<longrightarrow> m3 = m2"
    using all_reduces_facts [of v2 ?gs T m2] f2 src(5) assms(1) by blast
  have k2: "kept m m2" using f1 f2 kept_trans by blast
  have k3: "kept m m3"
  proof (cases "?gs = []")
    case False
    then show ?thesis using kept_reduce [OF 3(3,2), of "m_next m" m] f2 k2 by (simp add: kept_def)
  qed (use 3(5) k2 in simp)
  obtain v4 m4 where 4: "(if c_transfer_dtype c \<noteq> v_dtype v2 then to_dtype T (c_transfer_dtype c) v2 m3 else (v2, m3)) = (v4, m4)" by fastforce
  have f4: "kept m3 m4 \<and> read_view v4 m4 = convert T (v_dtype v2) (c_transfer_dtype c) (read_view v2 m3) \<and> v_shape v4 = v_shape v2 \<and>
      v_dtype v4 = c_transfer_dtype c \<and> view_ok v4 \<and> v_storage v4 < m_next m4 \<and> (is_contiguous v2 \<longrightarrow> is_contiguous v4) \<and> (v4 = v2 \<or> m_next m3 \<le> v_storage v4)"
    using f2 3(2) assms by (intro convert_view [OF 4]) (simp_all add: source_ok_def)
  have "chunk_prepare T contig c m = Inr (v4, m4)"
    using src(1) v0(1) 1 2 3(1) 4 by (simp add: chunk_prepare_def Let_def)
  moreover have "read_view v4 m4 = wire_bytes T m c"
    using f4 f2 f1 3(4) v0(1,5) by (simp add: wire_bytes_def src_region_def)
  ultimately show ?thesis using f4 f2 f1 v0(6) kept_trans [OF k3] by auto
qed

lemma source_kept: "kept m m' \<Longrightarrow> source_ok T m c \<Longrightarrow> source_ok T m' c"
  by (auto simp: source_ok_def tensor_ok_def kept_def)

lemma wire_bytes_kept:
  assumes "kept m m'" "source_ok T m c"
  shows "wire_bytes T m' c = wire_bytes T m c"
proof -
  obtain v where v: "index_view (to_view T (read_tensor c)) (c_src_slice c) = Inr v" "v_storage v < m_next m"
    using region_facts [of T m "read_tensor c" "c_src_slice c"] assms(2) unfolding source_ok_def by metis
  then show ?thesis using kept_read [OF assms(1)] by (simp add: wire_bytes_def src_region_def)
qed

section \<open>The slots of the bucket buffer\<close>

definition slot :: "nat \<Rightarrow> nat \<Rightarrow> chunk \<Rightarrow> view" where
  "slot s offset c = \<lparr>v_storage = s, v_addrs = [offset..<offset + nbytes c], v_shape = c_chunk_shape c, v_dtype = c_transfer_dtype c\<rparr>"

text \<open>Every chunk starts at a multiple of its element size.\<close>

fun aligned :: "chunk list \<Rightarrow> nat \<Rightarrow> bool" where
  "aligned [] cursor = True"
| "aligned (c # cs) cursor \<longleftrightarrow> cursor mod itemsize (c_transfer_dtype c) = 0 \<and> aligned cs (cursor + nbytes c)"

definition byte_buffer :: "nat \<Rightarrow> nat \<Rightarrow> view" where
  "byte_buffer s n = \<lparr>v_storage = s, v_addrs = [0..<n], v_shape = [n], v_dtype = uint8\<rparr>"

lemma slot_ok [simp]: "view_ok (slot s offset c) \<longleftrightarrow> 0 < itemsize (c_transfer_dtype c)"
  by (simp add: slot_def view_ok_def nbytes_def)

lemma slot_fields [simp]: "v_storage (slot s o' c) = s" "v_shape (slot s o' c) = c_chunk_shape c" "v_dtype (slot s o' c) = c_transfer_dtype c"
  "v_addrs (slot s o' c) = [o'..<o' + nbytes c]"
  by (simp_all add: slot_def)

lemma narrow_slot:
  assumes "offset + nbytes c \<le> n" "0 < itemsize (c_transfer_dtype c)"
  shows "narrow_as (byte_buffer s n) offset (nbytes c) (c_transfer_dtype c) (c_chunk_shape c) =
    (if offset mod itemsize (c_transfer_dtype c) = 0 then Inr (slot s offset c) else Inl RuntimeError)"
proof -
  have "take (nbytes c) (drop offset [0..<n]) = [offset..<offset + nbytes c]" using assms(1) by (simp add: drop_upt take_upt)
  then show ?thesis using assms by (simp add: narrow_as_def byte_buffer_def slot_def nbytes_def)
qed

lemma prepare_slot_source:
  assumes "torch_ok T" "source_ok T m c" "kept m m1" "m_next m \<le> s" "s < m_next m1" "offset + nbytes c \<le> n" "offset mod itemsize (c_transfer_dtype c) = 0"
  shows "\<exists>m2. prepare_slot T True (byte_buffer s n) (offset, c) m1 = Inr (if c_is_target c then Some (slot s offset c) else None, m2) \<and>
    kept m m2 \<and> m_next m1 \<le> m_next m2 \<and> read_view (slot s offset c) m2 = wire_bytes T m c \<and>
    (\<forall>i. i < offset \<longrightarrow> m_data m2 s i = m_data m1 s i)"
proof -
  have src: "source_ok T m1 c" using source_kept assms(2,3) by blast
  obtain v m' where v: "chunk_prepare T False c m1 = Inr (v, m')" "kept m1 m'" "read_view v m' = wire_bytes T m1 c" "v_shape v = c_chunk_shape c"
    "v_dtype v = c_transfer_dtype c" "view_ok v" "v_storage v < m_next m'"
    using chunk_prepare_source [OF assms(1) src, of False] by auto
  have wb: "wire_bytes T m1 c = wire_bytes T m c" using wire_bytes_kept assms(2,3) by blast
  let ?m2 = "write_view (slot s offset c) (wire_bytes T m c) m'"
  have cp: "copy_view T (slot s offset c) v m' = Inr ?m2" using copy_same_shape [of v "slot s offset c" T m'] v wb by simp
  have nr: "narrow_as (byte_buffer s n) offset (nbytes c) (c_transfer_dtype c) (c_chunk_shape c) = Inr (slot s offset c)"
    using narrow_slot [OF assms(6)] assms(2,7) by (simp add: source_ok_def)
  have "length (wire_bytes T m c) = nbytes c"
    using v(3-6) wb length_read [of v m'] by (simp add: view_ok_def nbytes_def)
  then have "read_view (slot s offset c) ?m2 = wire_bytes T m c" by (intro read_write_same) simp_all
  moreover have "kept m ?m2" using kept_write [OF kept_trans [OF assms(3) v(2)]] assms(4) by simp
  moreover have "\<forall>i. i < offset \<longrightarrow> m_data ?m2 s i = m_data m1 s i"
    using v(2) assms(5) by (auto simp: write_elsewhere kept_def)
  moreover have "m_next m1 \<le> m_next ?m2" using v(2) by (simp add: kept_def)
  ultimately show ?thesis using nr v(1) cp by (simp add: prepare_slot_def)
qed

fun slots :: "nat \<Rightarrow> chunk list \<Rightarrow> nat \<Rightarrow> view list" where
  "slots s [] cursor = []"
| "slots s (c # cs) cursor = slot s cursor c # slots s cs (cursor + nbytes c)"

definition fits_chunk :: "memory \<Rightarrow> chunk \<Rightarrow> view \<Rightarrow> bool" where
  "fits_chunk m c v \<longleftrightarrow> view_ok v \<and> v_storage v < m_next m \<and> v_shape v = c_chunk_shape c \<and> v_dtype v = c_transfer_dtype c"

lemma slots_storage: "v \<in> set (slots s cs n) \<Longrightarrow> v_storage v = s"
  by (induction cs arbitrary: n) auto

lemma slots_fit: "s < m_next m \<Longrightarrow> \<forall>c \<in> set cs. 0 < itemsize (c_transfer_dtype c) \<Longrightarrow> list_all2 (fits_chunk m) cs (slots s cs n)"
  by (induction cs arbitrary: n) (auto simp: fits_chunk_def)

lemma upt_split: "[a..<a + (n + k)] = [a..<a + n] @ [a + n..<a + n + (k::nat)]"
  by (metis add.assoc le_add1 upt_add_eq_append)

lemma prepare_slots_source:
  assumes "torch_ok T" "\<forall>c \<in> set cs. source_ok T m c" "m_next m \<le> s"
  shows "kept m m1 \<Longrightarrow> s < m_next m1 \<Longrightarrow> cursor + bytes cs \<le> n \<Longrightarrow> aligned cs cursor \<Longrightarrow>
    \<exists>m2. prepare_slots T True (byte_buffer s n) (zip (bucket_offsets cs cursor) cs) m1 =
        Inr (map2 (\<lambda>c v. if c_is_target c then Some v else None) cs (slots s cs cursor), m2) \<and>
      kept m m2 \<and> m_next m1 \<le> m_next m2 \<and> map (\<lambda>v. read_view v m2) (slots s cs cursor) = map (wire_bytes T m) cs \<and>
      map (m_data m2 s) [cursor..<cursor + bytes cs] = concat (map (wire_bytes T m) cs) \<and> (\<forall>i < cursor. m_data m2 s i = m_data m1 s i)"
  using assms(2)
proof (induction cs arbitrary: m1 cursor)
  case (Cons c cs)
  obtain m2 where 2: "prepare_slot T True (byte_buffer s n) (cursor, c) m1 = Inr (if c_is_target c then Some (slot s cursor c) else None, m2)"
    "kept m m2" "m_next m1 \<le> m_next m2" "read_view (slot s cursor c) m2 = wire_bytes T m c" "\<forall>i. i < cursor \<longrightarrow> m_data m2 s i = m_data m1 s i"
    using prepare_slot_source [OF assms(1) _ Cons.prems(1) assms(3) Cons.prems(2), of c cursor n] Cons.prems by auto
  obtain m3 where 3: "prepare_slots T True (byte_buffer s n) (zip (bucket_offsets cs (cursor + nbytes c)) cs) m2 =
        Inr (map2 (\<lambda>c v. if c_is_target c then Some v else None) cs (slots s cs (cursor + nbytes c)), m3)"
    "kept m m3" "m_next m2 \<le> m_next m3" "map (\<lambda>v. read_view v m3) (slots s cs (cursor + nbytes c)) = map (wire_bytes T m) cs"
    "map (m_data m3 s) [cursor + nbytes c..<cursor + nbytes c + bytes cs] = concat (map (wire_bytes T m) cs)"
    "\<forall>i < cursor + nbytes c. m_data m3 s i = m_data m2 s i"
    using Cons.IH [OF 2(2), of "cursor + nbytes c"] 2(3) Cons.prems by auto
  have same: "read_view (slot s cursor c) m3 = read_view (slot s cursor c) m2" using 3(6) by (simp add: read_view_def)
  have "map (m_data m3 s) [cursor..<cursor + nbytes c] = wire_bytes T m c" using 2(4) same unfolding read_view_def by (simp only: slot_fields)
  then have "map (m_data m3 s) [cursor..<cursor + bytes (c # cs)] = concat (map (wire_bytes T m) (c # cs))"
    using 3(5) by (simp add: upt_split [of cursor "nbytes c"])
  then show ?case using 2 3 same by auto
qed simp

lemma prepare_slots_misaligned:
  assumes "torch_ok T" "\<forall>c \<in> set cs. source_ok T m c" "m_next m \<le> s"
  shows "kept m m1 \<Longrightarrow> s < m_next m1 \<Longrightarrow> cursor + bytes cs \<le> n \<Longrightarrow> \<not> aligned cs cursor \<Longrightarrow>
    prepare_slots T True (byte_buffer s n) (zip (bucket_offsets cs cursor) cs) m1 = Inl RuntimeError"
  using assms(2)
proof (induction cs arbitrary: m1 cursor)
  case (Cons c cs)
  show ?case
  proof (cases "cursor mod itemsize (c_transfer_dtype c) = 0")
    case True
    obtain m2 where 2: "prepare_slot T True (byte_buffer s n) (cursor, c) m1 = Inr (if c_is_target c then Some (slot s cursor c) else None, m2)"
      "kept m m2" "m_next m1 \<le> m_next m2"
      using prepare_slot_source [OF assms(1) _ Cons.prems(1) assms(3) Cons.prems(2), of c cursor n] Cons.prems True by auto
    then show ?thesis using Cons.IH [OF 2(2), of "cursor + nbytes c"] Cons.prems True by simp
  next
    case False
    then show ?thesis using narrow_slot [of cursor c n s] Cons.prems by (simp add: prepare_slot_def source_ok_def)
  qed
qed simp

lemma prepare_slots_recv:
  assumes "\<forall>c \<in> set cs. 0 < itemsize (c_transfer_dtype c)" "cursor + bytes cs \<le> n"
  shows "prepare_slots T False (byte_buffer s n) (zip (bucket_offsets cs cursor) cs) m =
    (if aligned cs cursor then Inr (map Some (slots s cs cursor), m) else Inl RuntimeError)"
  using assms
proof (induction cs arbitrary: cursor)
  case (Cons c cs)
  show ?case
    using Cons.IH [of "cursor + nbytes c"] Cons.prems narrow_slot [of cursor c n s]
    by (cases "cursor mod itemsize (c_transfer_dtype c) = 0") (simp_all add: prepare_slot_def)
qed simp

section \<open>Assembling a bucket\<close>

text \<open>A bucket of one chunk is sent as it is, which needs at least one dimension to become bytes.\<close>

definition assembles :: "chunk list \<Rightarrow> bool" where
  "assembles cs \<longleftrightarrow> (case cs of [c] \<Rightarrow> itemsize (c_transfer_dtype c) = 1 \<or> c_chunk_shape c \<noteq> [] | _ \<Rightarrow> aligned cs 0)"

lemma assembles_multi: "cs = c # c' # cs' \<Longrightarrow> assembles cs = aligned cs 0"
  by (simp add: assembles_def)

lemma bucket_prepare_multi:
  assumes "cs = c # c' # cs'"
  shows "bucket_prepare T (idle_run dev (Bucket cs)) m =
    res_bind (prepare_slots T (c_is_source c) (byte_buffer (m_next m) (bytes cs)) (zip (bucket_offsets cs 0) cs) (m\<lparr>m_next := m_next m + 1\<rparr>)) (\<lambda>(vs, m2).
      Inr ((idle_run dev (Bucket cs))\<lparr>br_buffer := Some (byte_buffer (m_next m) (bytes cs)), br_chunk_buffers := vs,
        br_ready_event := c_is_source c \<and> dev = Some Cuda\<rparr>, m2))"
proof -
  have "total_bytes (Bucket cs) = Inr (bytes cs)" using assms by (intro total_bytes_Bucket) simp
  moreover have "alloc [bytes cs] uint8 m = (byte_buffer (m_next m) (bytes cs), m\<lparr>m_next := m_next m + 1\<rparr>)"
    by (simp add: alloc_def byte_buffer_def uint8_def)
  moreover have "bucket_is_source (Bucket cs) = Inr (c_is_source c)" using assms by (simp add: bucket_is_source_def py_nth_def)
  ultimately show ?thesis
    unfolding bucket_prepare_def by (simp add: assms idle_run_def del: bucket_offsets.simps)
qed

lemma as_bytes_facts:
  assumes "itemsize (v_dtype v) = 1 \<or> v_shape v \<noteq> []"
  shows "\<exists>u. as_bytes v = Inr u \<and> v_storage u = v_storage v \<and> v_addrs u = v_addrs v"
  using assms by (auto simp: as_bytes_def)

lemma kept_alloc: "kept m (m\<lparr>m_next := m_next m + 1\<rparr>)"
  by (simp add: kept_def)

lemma bucket_prepare_source:
  assumes "torch_ok T" "cs \<noteq> []" "\<forall>c \<in> set cs. source_ok T m c" "assembles cs"
  shows "\<exists>r m' buf vs. bucket_prepare T (idle_run dev (Bucket cs)) m = Inr (r, m') \<and> kept m m' \<and> br_buffer r = Some buf \<and>
    read_view buf m' = concat (map (wire_bytes T m) cs) \<and> br_chunk_buffers r = map2 (\<lambda>c v. if c_is_target c then Some v else None) cs vs \<and>
    map (\<lambda>v. read_view v m') vs = map (wire_bytes T m) cs \<and> list_all2 (fits_chunk m') cs vs \<and>
    (1 < length cs \<longrightarrow> (\<forall>v \<in> set vs. m_next m \<le> v_storage v)) \<and> br_bucket r = Bucket cs \<and> br_work r = None"
proof -
  consider (one) c where "cs = [c]" | (more) c c' cs' where "cs = c # c' # cs'" using assms(2) by (cases cs rule: remdups_adj.cases) auto
  then show ?thesis
  proof cases
    case one
    obtain v m' where v: "chunk_prepare T True c m = Inr (v, m')" "kept m m'" "read_view v m' = wire_bytes T m c" "v_shape v = c_chunk_shape c"
      "v_dtype v = c_transfer_dtype c" "view_ok v" "v_storage v < m_next m'" using chunk_prepare_source [OF assms(1), of m c True] assms(3) one by auto
    obtain u where u: "as_bytes v = Inr u" "v_storage u = v_storage v" "v_addrs u = v_addrs v"
      using as_bytes_facts [of v] assms(4) v(4,5) by (auto simp: assembles_def one)
    have "read_view u m' = wire_bytes T m c" using u(2,3) v(3) by (simp add: read_view_def)
    then show ?thesis using v u one
      by (intro exI [of _ "(idle_run dev (Bucket cs))\<lparr>br_buffer := Some u, br_chunk_buffers := [if c_is_target c then Some v else None]\<rparr>"]
          exI [of _ m'] exI [of _ u] exI [of _ "[v]"]) (simp add: bucket_prepare_def idle_run_def fits_chunk_def)
  next
    case more
    let ?n = "m_next m" and ?m1 = "m\<lparr>m_next := m_next m + 1\<rparr>"
    have al: "aligned cs 0" using assms(4) more assembles_multi by blast
    obtain m2 where 2: "prepare_slots T True (byte_buffer ?n (bytes cs)) (zip (bucket_offsets cs 0) cs) ?m1 =
        Inr (map2 (\<lambda>c v. if c_is_target c then Some v else None) cs (slots ?n cs 0), m2)" "kept m m2" "m_next ?m1 \<le> m_next m2"
      "map (\<lambda>v. read_view v m2) (slots ?n cs 0) = map (wire_bytes T m) cs" "map (m_data m2 ?n) [0..<0 + bytes cs] = concat (map (wire_bytes T m) cs)"
      using prepare_slots_source [OF assms(1,3) order_refl kept_alloc, of 0 "bytes cs"] al by auto
    have src: "c_is_source c" using assms(3) more by (simp add: source_ok_def)
    have "read_view (byte_buffer ?n (bytes cs)) m2 = concat (map (wire_bytes T m) cs)" using 2(5) by (simp add: read_view_def byte_buffer_def)
    moreover have "list_all2 (fits_chunk m2) cs (slots ?n cs 0)" using 2(3) assms(3) by (intro slots_fit) (simp_all add: source_ok_def)
    ultimately show ?thesis using bucket_prepare_multi [OF more, of T dev m] src 2 slots_storage [of _ ?n cs 0]
      by (auto simp: idle_run_def)
  qed
qed

end
