(* ===== verification/Bucket_Transfer.thy ===== *)
theory Bucket_Transfer
  imports Bucket_Exec
begin

text \<open>
  The receiving side of a bucket and what a transfer does as a whole: the bytes a sender
  assembles, delivered by the wire operation, end up converted in the target regions of the
  receiver's chunks, and nothing else changes on either side.
\<close>

section \<open>Writing back\<close>

definition landed :: "torch \<Rightarrow> chunk \<Rightarrow> byte list \<Rightarrow> byte list" where
  "landed T c bs = convert T (c_transfer_dtype c) (t_dtype (c_tensor c)) bs"

definition elsewhere :: "view \<Rightarrow> nat \<Rightarrow> nat \<Rightarrow> bool" where
  "elsewhere v s i \<longleftrightarrow> s \<noteq> v_storage v \<or> i \<notin> set (v_addrs v)"

definition apart :: "view \<Rightarrow> view \<Rightarrow> bool" where
  "apart v w \<longleftrightarrow> (\<forall>i \<in> set (v_addrs v). elsewhere w (v_storage v) i)"

lemma target_kept: "target_ok T m c \<Longrightarrow> m_next m \<le> m_next m' \<Longrightarrow> target_ok T m' c"
  by (auto simp: target_ok_def tensor_ok_def)

lemma dst_region_facts:
  assumes "target_ok T m c"
  shows "index_view (to_view T (c_tensor c)) (c_dst_slice c) = Inr (dst_region T c)" "view_ok (dst_region T c)" "v_storage (dst_region T c) < m_next m"
    "v_dtype (dst_region T c) = t_dtype (c_tensor c)" "v_shape (dst_region T c) = c_chunk_shape c"
proof -
  obtain v where "index_view (to_view T (c_tensor c)) (c_dst_slice c) = Inr v" "view_ok v" "v_storage v < m_next m" "v_dtype v = t_dtype (c_tensor c)"
    "v_shape v = sliced_shape (t_shape (c_tensor c)) (c_dst_slice c)"
    using region_facts [of T m "c_tensor c" "c_dst_slice c"] assms unfolding target_ok_def by metis
  then show "index_view (to_view T (c_tensor c)) (c_dst_slice c) = Inr (dst_region T c)" "view_ok (dst_region T c)" "v_storage (dst_region T c) < m_next m"
    "v_dtype (dst_region T c) = t_dtype (c_tensor c)" "v_shape (dst_region T c) = c_chunk_shape c"
    using assms by (simp_all add: dst_region_def target_ok_def)
qed

lemma chunk_finalize_facts:
  assumes "torch_ok T" "target_ok T m c" "fits_chunk m c b"
  shows "\<exists>m'. chunk_finalize T c (Some b) m = Inr m' \<and> m_next m \<le> m_next m' \<and> read_view (dst_region T c) m' = landed T c (read_view b m) \<and>
    (\<forall>s i. s < m_next m \<and> elsewhere (dst_region T c) s i \<longrightarrow> m_data m' s i = m_data m s i)"
proof -
  note d = dst_region_facts [OF assms(2)]
  obtain b1 m1 where 1: "(if t_dtype (c_tensor c) \<noteq> v_dtype b then to_dtype T (t_dtype (c_tensor c)) b m else (b, m)) = (b1, m1)" by fastforce
  have w: "0 < itemsize (t_dtype (c_tensor c))" using d(2,4) by (simp add: view_ok_def)
  have f: "kept m m1 \<and> read_view b1 m1 = landed T c (read_view b m) \<and> v_shape b1 = c_chunk_shape c \<and> v_dtype b1 = t_dtype (c_tensor c) \<and> view_ok b1"
    using convert_view [OF 1 _ _ assms(1) w] assms(3) by (simp add: fits_chunk_def landed_def)
  let ?m2 = "write_view (dst_region T c) (read_view b1 m1) m1"
  have "copy_view T (dst_region T c) b1 m1 = Inr ?m2" using f d by (intro copy_same_shape) simp_all
  then have run: "chunk_finalize T c (Some b) m = Inr ?m2"
    using assms(2) 1 d(1) by (simp add: chunk_finalize_def target_ok_def eq_commute [of "v_dtype b"])
  have "length (read_view b1 m1) = length (v_addrs (dst_region T c))"
    unfolding length_read using f d by (simp add: view_ok_def)
  then have "read_view (dst_region T c) ?m2 = landed T c (read_view b m)" using f d(2) read_write_same by (simp add: view_ok_def)
  moreover have "m_data ?m2 s i = m_data m s i" if "s < m_next m" "elsewhere (dst_region T c) s i" for s i
    using that f write_elsewhere [of "dst_region T c" s i "read_view b1 m1" m1] by (auto simp: kept_def elsewhere_def)
  ultimately show ?thesis using run f by (auto simp: kept_def)
qed

lemma read_undisturbed: "(\<And>i. i \<in> set (v_addrs v) \<Longrightarrow> m_data m' (v_storage v) i = m_data m (v_storage v) i) \<Longrightarrow> read_view v m' = read_view v m"
  by (simp add: read_view_def)

lemma finalize_chunks_facts:
  assumes "torch_ok T" "\<forall>c \<in> set cs. target_ok T m0 c"
  shows "list_all2 (fits_chunk m) cs vs \<Longrightarrow> \<forall>v \<in> set vs. m_next m0 \<le> v_storage v \<Longrightarrow> m_next m0 \<le> m_next m \<Longrightarrow>
    sorted_wrt (\<lambda>c c'. apart (dst_region T c) (dst_region T c')) cs \<Longrightarrow>
    \<exists>m'. finalize_chunks T (zip cs (map Some vs)) m = Inr m' \<and> m_next m \<le> m_next m' \<and>
      map (\<lambda>c. read_view (dst_region T c) m') cs = map2 (\<lambda>c v. landed T c (read_view v m)) cs vs \<and>
      (\<forall>s i. s < m_next m \<and> (\<forall>c \<in> set cs. elsewhere (dst_region T c) s i) \<longrightarrow> m_data m' s i = m_data m s i)"
  using assms(2)
proof (induction cs arbitrary: vs m)
  case (Cons c cs)
  obtain v vs' where vs: "vs = v # vs'" "fits_chunk m c v" "list_all2 (fits_chunk m) cs vs'" using Cons.prems(1) by (auto simp: list_all2_Cons1)
  have tc: "target_ok T m c" using Cons.prems(3,5) target_kept by auto
  obtain m1 where 1: "chunk_finalize T c (Some v) m = Inr m1" "m_next m \<le> m_next m1" "read_view (dst_region T c) m1 = landed T c (read_view v m)"
    "\<forall>s i. s < m_next m \<and> elsewhere (dst_region T c) s i \<longrightarrow> m_data m1 s i = m_data m s i"
    using chunk_finalize_facts [OF assms(1) tc vs(2)] by blast
  have fits1: "list_all2 (fits_chunk m1) cs vs'" using vs(3) 1(2) by (auto elim!: list_all2_mono simp: fits_chunk_def)
  have reg: "v_storage (dst_region T c') < m_next m0" if "c' \<in> set (c # cs)" for c' using dst_region_facts(3) Cons.prems(5) that by blast
  have same: "read_view w m1 = read_view w m" if "w \<in> set vs'" for w
  proof (rule read_undisturbed)
    have "m_next m0 \<le> v_storage w" "v_storage w < m_next m"
      using that Cons.prems(2) vs(1,3) by (auto simp: list_all2_conv_all_nth in_set_conv_nth fits_chunk_def)
    then show "m_data m1 (v_storage w) i = m_data m (v_storage w) i" for i using 1(4) reg [of c] by (auto simp: elsewhere_def)
  qed
  obtain m2 where 2: "finalize_chunks T (zip cs (map Some vs')) m1 = Inr m2" "m_next m1 \<le> m_next m2"
    "map (\<lambda>c. read_view (dst_region T c) m2) cs = map2 (\<lambda>c v. landed T c (read_view v m1)) cs vs'"
    "\<forall>s i. s < m_next m1 \<and> (\<forall>c \<in> set cs. elsewhere (dst_region T c) s i) \<longrightarrow> m_data m2 s i = m_data m1 s i"
    using Cons.IH [OF fits1] Cons.prems(2-5) vs(1) 1(2) by auto
  have "read_view (dst_region T c) m2 = read_view (dst_region T c) m1"
  proof (rule read_undisturbed)
    fix i assume "i \<in> set (v_addrs (dst_region T c))"
    then have "\<forall>c' \<in> set cs. elsewhere (dst_region T c') (v_storage (dst_region T c)) i" using Cons.prems(4) by (auto simp: apart_def)
    then show "m_data m2 (v_storage (dst_region T c)) i = m_data m1 (v_storage (dst_region T c)) i"
      using 2(4) reg [of c] Cons.prems(3) 1(2) by simp
  qed
  moreover have "map2 (\<lambda>c v. landed T c (read_view v m1)) cs vs' = map2 (\<lambda>c v. landed T c (read_view v m)) cs vs'"
    using same by (auto dest: set_zip_rightD)
  moreover have "m_data m2 s i = m_data m s i" if "s < m_next m" "\<forall>c' \<in> set (c # cs). elsewhere (dst_region T c') s i" for s i
    using 2(4) 1(2,4) that by simp
  ultimately show ?case using 1 2 vs(1) by (auto intro: exI [of _ m2])
qed simp

section \<open>Receiving\<close>

lemma slots_read:
  assumes "map length bss = map nbytes cs" "map (m_data m s) [n..<n + bytes cs] = concat bss"
  shows "map (\<lambda>v. read_view v m) (slots s cs n) = bss"
  using assms
proof (induction cs arbitrary: bss n)
  case (Cons c cs)
  obtain b bs where b: "bss = b # bs" "length b = nbytes c" "map length bs = map nbytes cs" using Cons.prems(1) by (cases bss) auto
  have "map (m_data m s) [n..<n + nbytes c] @ map (m_data m s) [n + nbytes c..<n + nbytes c + bytes cs] = b @ concat bs"
    using Cons.prems(2) by (simp add: b(1) upt_split [of n "nbytes c"])
  then have "map (m_data m s) [n..<n + nbytes c] = b" "map (m_data m s) [n + nbytes c..<n + nbytes c + bytes cs] = concat bs"
    using b(2) by (simp_all add: append_eq_append_conv)
  then show ?case using Cons.IH [OF b(3), of "n + nbytes c"] by (simp add: b(1) read_view_def)
qed simp

definition regions_apart :: "torch \<Rightarrow> chunk list \<Rightarrow> bool" where
  "regions_apart T cs \<longleftrightarrow> sorted_wrt (\<lambda>c c'. apart (dst_region T c) (dst_region T c')) cs"

text \<open>Nothing is freed, and outside the target regions of the chunks every tensor is as before.\<close>

definition only_regions :: "torch \<Rightarrow> chunk list \<Rightarrow> memory \<Rightarrow> memory \<Rightarrow> bool" where
  "only_regions T cs m m' \<longleftrightarrow> m_next m \<le> m_next m' \<and> (\<forall>s i. s < m_next m \<and> (\<forall>c \<in> set cs. elsewhere (dst_region T c) s i) \<longrightarrow> m_data m' s i = m_data m s i)"

definition receiving :: "chunk \<Rightarrow> bool" where
  "receiving c \<longleftrightarrow> \<not> c_is_source c \<and> c_transport c \<in> {P2P, BROADCAST} \<and> (c_transport c = P2P \<longrightarrow> c_dst_ranks c \<noteq> [])"

lemma launch_receiving:
  assumes "receiving c" "br_bucket r = Bucket (c # cs)" "br_work r = None"
  shows "\<exists>w pg'. bucket_launch r pg = Inr (True, r\<lparr>br_ready_event := False, br_work := Some w\<rparr>, pg') \<and> receives False (Some w)"
proof (cases "c_transport c = P2P")
  case True
  then have "bucket_launch r pg = Inr (True, r\<lparr>br_ready_event := False, br_work := Some (Irecv (c_src_rank c))\<rparr>, pg)"
    using assms by (simp add: bucket_launch_def Let_def bucket_transport_def bucket_is_source_def bucket_src_rank_def bucket_dst_ranks_def py_nth_def
        receiving_def execute_p2p_def)
  then show ?thesis by (auto simp: receives_def)
next
  case False
  obtain g pg' where g: "get_or_create_process_group (sort (c_src_rank c # c_dst_ranks c)) pg = (g, pg')" by fastforce
  then have "bucket_launch r pg = Inr (True, r\<lparr>br_ready_event := False, br_work := Some (Bcast (c_src_rank c) g)\<rparr>, pg')"
    using assms False by (simp add: bucket_launch_def Let_def bucket_transport_def bucket_src_rank_def bucket_dst_ranks_def py_nth_def
        receiving_def execute_broadcast_def)
  then show ?thesis by (auto simp: receives_def)
qed

lemma finalize_receiving:
  assumes "receives False (Some w)" "br_work r = Some w" "br_bucket r = Bucket (c # cs)" "\<not> c_is_source c" "c_is_target c" "br_buffer r = Some buf"
  shows "bucket_finalize T arrived r m =
    res_bind (finalize_chunks T (zip (c # cs) (br_chunk_buffers r)) (write_view buf arrived m)) (\<lambda>m2.
      Inr (r\<lparr>br_work := None, br_buffer := None, br_chunk_buffers := map (\<lambda>_. None) (br_chunk_buffers r)\<rparr>, m2))"
  using assms by (simp add: bucket_finalize_def work_wait_def bucket_is_source_def bucket_is_target_def py_nth_def)

text \<open>
  The buffer of a receiving bucket with one chunk is the target region itself, with the
  target's dtype: it only fits the message when that is the wire dtype.
\<close>

definition lands :: "chunk list \<Rightarrow> bool" where
  "lands cs \<longleftrightarrow> assembles cs \<and> (case cs of [c] \<Rightarrow> c_transfer_dtype c = t_dtype (c_tensor c) | _ \<Rightarrow> True)"

lemma recv_one:
  assumes "target_ok T m c" "receiving c" "itemsize (t_dtype (c_tensor c)) = 1 \<or> c_chunk_shape c \<noteq> []"
  shows "\<exists>v u m1. bucket_prepare T (idle_run dev (Bucket [c])) m =
      Inr ((idle_run dev (Bucket [c]))\<lparr>br_buffer := Some u, br_chunk_buffers := [Some v]\<rparr>, m1) \<and>
    maybe_contiguous True (dst_region T c) m = (v, m1) \<and> v_storage u = v_storage v \<and> v_addrs u = v_addrs v"
proof -
  note d = dst_region_facts [OF assms(1)]
  obtain v m1 where v: "maybe_contiguous True (dst_region T c) m = (v, m1)" by fastforce
  note f = maybe_contiguous_facts [OF v d(2,3)]
  obtain u where u: "as_bytes v = Inr u" "v_storage u = v_storage v" "v_addrs u = v_addrs v"
    using as_bytes_facts [of v] f d(4,5) assms(3) by auto
  have "chunk_prepare T True c m = Inr (v, m1)" using assms(2) v d(1) by (simp add: chunk_prepare_def receiving_def)
  then show ?thesis using u v assms(1) by (simp add: bucket_prepare_def idle_run_def target_ok_def)
qed

lemma receive_one:
  assumes "torch_ok T" "target_ok T m c" "receiving c" "lands [c]" "length bs = nbytes c"
  shows "\<exists>r1 m1 r2 pg' r3 m3. bucket_prepare T (idle_run dev (Bucket [c])) m = Inr (r1, m1) \<and> bucket_launch r1 pg = Inr (True, r2, pg') \<and>
    bucket_finalize T bs r2 m1 = Inr (r3, m3) \<and> read_view (dst_region T c) m3 = landed T c bs \<and> only_regions T [c] m m3"
proof -
  have wire: "c_transfer_dtype c = t_dtype (c_tensor c)" "itemsize (t_dtype (c_tensor c)) = 1 \<or> c_chunk_shape c \<noteq> []"
    using assms(4) by (auto simp: lands_def assembles_def)
  note d = dst_region_facts [OF assms(2)]
  obtain v u m1 where p: "bucket_prepare T (idle_run dev (Bucket [c])) m =
      Inr ((idle_run dev (Bucket [c]))\<lparr>br_buffer := Some u, br_chunk_buffers := [Some v]\<rparr>, m1)"
    "maybe_contiguous True (dst_region T c) m = (v, m1)" "v_storage u = v_storage v" "v_addrs u = v_addrs v"
    using recv_one [OF assms(2,3) wire(2)] by blast
  let ?r1 = "(idle_run dev (Bucket [c]))\<lparr>br_buffer := Some u, br_chunk_buffers := [Some v]\<rparr>"
  note f = maybe_contiguous_facts [OF p(2) d(2,3)]
  obtain w pg' where l: "bucket_launch ?r1 pg = Inr (True, ?r1\<lparr>br_ready_event := False, br_work := Some w\<rparr>, pg')" "receives False (Some w)"
    using launch_receiving [OF assms(3), of ?r1 "[]" pg] by (auto simp: idle_run_def)
  let ?r2 = "?r1\<lparr>br_ready_event := False, br_work := Some w\<rparr>" and ?m2 = "write_view u bs m1"
  have len: "length (v_addrs v) = nbytes c" using f d(4,5) wire(1) by (simp add: view_ok_def nbytes_def)
  have "read_view u ?m2 = bs" using f p(4) len assms(5) by (intro read_write_same) (simp_all add: view_ok_def)
  then have rd: "read_view v ?m2 = bs" using p(3,4) by (simp add: read_view_def)
  have fit: "fits_chunk ?m2 c v" using f d(4,5) wire(1) by (simp add: fits_chunk_def)
  have "target_ok T ?m2 c" using target_kept [OF assms(2)] f by (simp add: kept_def)
  then obtain m3 where 3: "chunk_finalize T c (Some v) ?m2 = Inr m3" "read_view (dst_region T c) m3 = landed T c bs"
    "\<forall>s i. s < m_next ?m2 \<and> elsewhere (dst_region T c) s i \<longrightarrow> m_data m3 s i = m_data ?m2 s i" "m_next ?m2 \<le> m_next m3"
    using chunk_finalize_facts [OF assms(1) _ fit] rd by auto
  have "m_data m3 s i = m_data m s i" if "s < m_next m" "elsewhere (dst_region T c) s i" for s i
  proof -
    have "m_data m3 s i = m_data ?m2 s i" using 3(3) that f by (simp add: kept_def)
    also have "\<dots> = m_data m1 s i" using f that p(3,4) by (intro write_elsewhere) (auto simp: elsewhere_def)
    also have "\<dots> = m_data m s i" using f that by (simp add: kept_def)
    finally show ?thesis .
  qed
  then have "only_regions T [c] m m3" using 3(4) f by (simp add: only_regions_def kept_def)
  moreover have "bucket_finalize T bs ?r2 m1 = Inr (?r2\<lparr>br_work := None, br_buffer := None, br_chunk_buffers := [None]\<rparr>, m3)"
    using finalize_receiving [OF l(2), of ?r2 c "[]" u T bs m1] 3(1) assms(2,3) by (simp add: idle_run_def receiving_def target_ok_def)
  ultimately show ?thesis using p(1) l(1) 3(2) by blast
qed

text \<open>Preparing a receiving bucket, letting the bytes arrive and writing back.\<close>

lemma receive_many:
  assumes "torch_ok T" "\<forall>c \<in> set cs. target_ok T m c \<and> receiving c" "regions_apart T cs" "aligned cs 0"
    and "map length bss = map nbytes cs" and more: "cs = c # c' # cs'"
  shows "\<exists>r1 m1 r2 pg' r3 m3. bucket_prepare T (idle_run dev (Bucket cs)) m = Inr (r1, m1) \<and> bucket_launch r1 pg = Inr (True, r2, pg') \<and>
    bucket_finalize T (concat bss) r2 m1 = Inr (r3, m3) \<and> map (\<lambda>c. read_view (dst_region T c) m3) cs = map2 (landed T) cs bss \<and> only_regions T cs m m3"
proof -
  let ?n = "m_next m" and ?m1 = "m\<lparr>m_next := m_next m + 1\<rparr>"
  let ?buf = "byte_buffer ?n (bytes cs)"
  let ?r1 = "(idle_run dev (Bucket cs))\<lparr>br_buffer := Some ?buf, br_chunk_buffers := map Some (slots ?n cs 0), br_ready_event := False\<rparr>"
  have c: "\<not> c_is_source c" "c_is_target c" "receiving c" using assms(2) more by (auto simp: receiving_def target_ok_def)
  have wide: "\<forall>c \<in> set cs. 0 < itemsize (c_transfer_dtype c)" using assms(2) by (auto simp: target_ok_def)
  then have p: "bucket_prepare T (idle_run dev (Bucket cs)) m = Inr (?r1, ?m1)"
    using bucket_prepare_multi [OF more, of T dev m] prepare_slots_recv [of cs 0 "bytes cs" T ?n ?m1] assms(4) c(1) by simp
  have r1: "br_bucket ?r1 = Bucket (c # c' # cs')" "br_work ?r1 = None" by (simp_all add: idle_run_def more)
  obtain w pg' where l: "bucket_launch ?r1 pg = Inr (True, ?r1\<lparr>br_ready_event := False, br_work := Some w\<rparr>, pg')" "receives False (Some w)"
    using launch_receiving [OF c(3) r1] by blast
  let ?r2 = "?r1\<lparr>br_ready_event := False, br_work := Some w\<rparr>"
  let ?m2 = "write_view ?buf (concat bss) ?m1"
  have len: "length (concat bss) = bytes cs" using assms(5) by (simp add: length_concat)
  have "map (m_data ?m2 ?n) [0..<0 + bytes cs] = concat bss"
    using read_write_same [of "concat bss" ?buf ?m1] len by (simp add: byte_buffer_def read_view_def)
  then have rd: "map (\<lambda>v. read_view v ?m2) (slots ?n cs 0) = bss" using slots_read [OF assms(5)] by blast
  have fit: "list_all2 (fits_chunk ?m2) cs (slots ?n cs 0)" using wide by (intro slots_fit) simp_all
  have tgt: "\<forall>c \<in> set cs. target_ok T m c" using assms(2) by blast
  have above: "\<forall>v \<in> set (slots ?n cs 0). m_next m \<le> v_storage v" by (simp add: slots_storage)
  obtain m3 where 3: "finalize_chunks T (zip cs (map Some (slots ?n cs 0))) ?m2 = Inr m3"
    "map (\<lambda>c. read_view (dst_region T c) m3) cs = map2 (\<lambda>c v. landed T c (read_view v ?m2)) cs (slots ?n cs 0)"
    "\<forall>s i. s < m_next ?m2 \<and> (\<forall>c \<in> set cs. elsewhere (dst_region T c) s i) \<longrightarrow> m_data m3 s i = m_data ?m2 s i" "m_next ?m2 \<le> m_next m3"
    using finalize_chunks_facts [OF assms(1) tgt fit above] assms(3) by (auto simp: regions_apart_def)
  have "map2 (\<lambda>c v. landed T c (read_view v ?m2)) cs (slots ?n cs 0) = map2 (landed T) cs (map (\<lambda>v. read_view v ?m2) (slots ?n cs 0))"
    by (simp add: zip_map2 comp_def split_def)
  then have "map (\<lambda>c. read_view (dst_region T c) m3) cs = map2 (landed T) cs bss" using 3(2) rd by simp
  moreover have "only_regions T cs m m3" using 3(3,4) by (auto simp: only_regions_def write_view_def byte_buffer_def)
  moreover have "bucket_finalize T (concat bss) ?r2 ?m1 = Inr (?r2\<lparr>br_work := None, br_buffer := None,
      br_chunk_buffers := map (\<lambda>_. None) (br_chunk_buffers ?r2)\<rparr>, m3)"
    using finalize_receiving [OF l(2), of ?r2 c "c' # cs'" ?buf T "concat bss" ?m1] c 3(1) unfolding more by (simp add: idle_run_def)
  ultimately show ?thesis using p l(1) by blast
qed

section \<open>Properties\<close>

lemma wire_bytes_length:
  assumes "torch_ok T" "source_ok T m c"
  shows "length (wire_bytes T m c) = nbytes c"
proof -
  obtain v m' where "read_view v m' = wire_bytes T m c" "v_shape v = c_chunk_shape c" "v_dtype v = c_transfer_dtype c" "view_ok v"
    using chunk_prepare_source [OF assms, of True] by blast
  then show ?thesis using length_read [of v m'] by (simp add: view_ok_def nbytes_def)
qed

text \<open>The sender's and the receiver's chunk of one delivery.\<close>

definition same_wire :: "chunk \<Rightarrow> chunk \<Rightarrow> bool" where
  "same_wire c c' \<longleftrightarrow> c_transfer_dtype c = c_transfer_dtype c' \<and> c_chunk_shape c = c_chunk_shape c'"

lemma same_wire_nbytes: "list_all2 same_wire cs cs' \<Longrightarrow> map nbytes cs' = map nbytes cs \<and> aligned cs' n = aligned cs n"
  by (induction cs cs' arbitrary: n rule: list_all2_induct) (auto simp: same_wire_def nbytes_def)

lemma same_wire_assembles: "list_all2 same_wire cs cs' \<Longrightarrow> lands cs' \<Longrightarrow> assembles cs"
proof -
  assume w: "list_all2 same_wire cs cs'" and l: "lands cs'"
  consider "cs' = []" | c where "cs' = [c]" | c d ds where "cs' = c # d # ds" by (cases cs' rule: remdups_adj.cases) auto
  then show ?thesis
  proof cases
    case 3
    then obtain a b as where "cs = a # b # as" using w by (auto simp: list_all2_Cons2)
    then show ?thesis using same_wire_nbytes [OF w, of 0] l 3 by (simp add: lands_def assembles_def del: aligned.simps)
  qed (use w l in \<open>auto simp: lands_def assembles_def same_wire_def list_all2_Cons2\<close>)
qed

lemma receive_bucket:
  assumes "torch_ok T" "cs \<noteq> []" "\<forall>c \<in> set cs. target_ok T m c \<and> receiving c" "regions_apart T cs" "lands cs" "map length bss = map nbytes cs"
  shows "\<exists>r1 m1 r2 pg' r3 m3. bucket_prepare T (idle_run dev (Bucket cs)) m = Inr (r1, m1) \<and> bucket_launch r1 pg = Inr (True, r2, pg') \<and>
    bucket_finalize T (concat bss) r2 m1 = Inr (r3, m3) \<and> map (\<lambda>c. read_view (dst_region T c) m3) cs = map2 (landed T) cs bss \<and> only_regions T cs m m3"
proof -
  consider (one) c where "cs = [c]" | (more) c c' cs' where "cs = c # c' # cs'" using assms(2) by (cases cs rule: remdups_adj.cases) auto
  then show ?thesis
  proof cases
    case one
    obtain bs where bs: "bss = [bs]" "length bs = nbytes c" using assms(6) one by (auto simp: map_eq_Cons_conv)
    have c: "target_ok T m c" "receiving c" "lands [c]" using assms(3,5) one by auto
    show ?thesis using receive_one [OF assms(1) c bs(2), of dev pg] unfolding one bs(1) by simp
  next
    case more
    have "aligned cs 0" using assms(5) more by (simp add: lands_def assembles_def)
    then show ?thesis by (rule receive_many [OF assms(1,3,4) _ assms(6) more])
  qed
qed

lemma bucket_delivers:
  assumes "torch_ok T" "torch_ok T'" "list_all2 same_wire cs cs'" "cs \<noteq> []"
    and "\<forall>c \<in> set cs. source_ok T m c" and "\<forall>c \<in> set cs'. target_ok T' m' c \<and> receiving c" "regions_apart T' cs'" "lands cs'"
  shows "\<exists>r m1 buf r1 m1' r2 pg' r3 m3. bucket_prepare T (idle_run dev (Bucket cs)) m = Inr (r, m1) \<and> kept m m1 \<and> br_buffer r = Some buf \<and>
    read_view buf m1 = concat (map (wire_bytes T m) cs) \<and>
    bucket_prepare T' (idle_run dev' (Bucket cs')) m' = Inr (r1, m1') \<and> bucket_launch r1 pg = Inr (True, r2, pg') \<and>
    bucket_finalize T' (read_view buf m1) r2 m1' = Inr (r3, m3) \<and>
    map (\<lambda>c. read_view (dst_region T' c) m3) cs' = map2 (\<lambda>c' c. landed T' c' (wire_bytes T m c)) cs' cs \<and> only_regions T' cs' m' m3"
proof -
  obtain r m1 buf where s: "bucket_prepare T (idle_run dev (Bucket cs)) m = Inr (r, m1)" "kept m m1" "br_buffer r = Some buf"
    "read_view buf m1 = concat (map (wire_bytes T m) cs)"
    using bucket_prepare_source [OF assms(1,4,5) same_wire_assembles [OF assms(3,8)]] by blast
  have ne: "cs' \<noteq> []" using assms(3,4) by auto
  have "map nbytes cs' = map nbytes cs" using same_wire_nbytes [OF assms(3)] by blast
  then have len: "map length (map (wire_bytes T m) cs) = map nbytes cs'" using wire_bytes_length assms(1,5) by simp
  have "map2 (landed T') cs' (map (wire_bytes T m) cs) = map2 (\<lambda>c' c. landed T' c' (wire_bytes T m c)) cs' cs"
    by (simp add: zip_map2 comp_def split_def)
  then show ?thesis using receive_bucket [OF assms(2) ne assms(6-8) len, of dev' pg] s by metis
qed

text \<open>
  C4. A bucket that can be laid out delivers its tensors: the sender assembles, without touching
  any tensor, one buffer with its chunks' bytes in order, each read from its region, reduced over
  its Partial groups and converted to the wire dtype; when a bucket of the same wire dtypes and
  shapes receives them, finalizing leaves in every target region exactly the bytes of the matching
  source chunk, converted to the target's dtype, and changes no other byte. Conditions: torch keeps
  element counts; tensors are live, slices have the chunk's shape, reduce operations are known; the
  receiver takes part by P2P or BROADCAST; target regions do not overlap; and the bucket \<open>lands\<close>:
  of several chunks each starts at a multiple of its element size, and a single chunk is no
  multi-byte scalar and has the target's dtype on the wire. The code does not check the last:
  see \<open>bucket_assembly_fails_iff\<close> and \<open>single_chunk_receive_size\<close>.
\<close>

theorem bucket_roundtrip:
  assumes "torch_ok T" "torch_ok T'" "list_all2 same_wire cs cs'" "cs \<noteq> []"
    and "\<forall>c \<in> set cs. source_ok T m c" and "\<forall>c \<in> set cs'. target_ok T' m' c \<and> receiving c" "regions_apart T' cs'" "lands cs'"
  shows "\<exists>r m1 buf r1 m1' r2 pg' r3 m3. bucket_prepare T (idle_run dev (Bucket cs)) m = Inr (r, m1) \<and> kept m m1 \<and> br_buffer r = Some buf \<and>
    read_view buf m1 = concat (map (wire_bytes T m) cs) \<and>
    bucket_prepare T' (idle_run dev' (Bucket cs')) m' = Inr (r1, m1') \<and> bucket_launch r1 pg = Inr (True, r2, pg') \<and>
    bucket_finalize T' (read_view buf m1) r2 m1' = Inr (r3, m3) \<and>
    map (\<lambda>c. read_view (dst_region T' c) m3) cs' = map2 (\<lambda>c' c. landed T' c' (wire_bytes T m c)) cs' cs \<and> only_regions T' cs' m' m3"
  using bucket_delivers [OF assms] .

text \<open>
  C37. When assembling fails: for a non-empty bucket of source chunks (live tensors, slices of the
  chunk's shape, known reduce operations), a bucket of one chunk that is a scalar of more than one
  byte, and a bucket of several chunks in which some chunk does not start at a multiple of its
  element size, raise a RuntimeError when the bucket is prepared; every other such bucket is
  assembled. No padding is laid out between chunks, so one-byte data in front of wider data
  is enough to fail.
\<close>

theorem bucket_assembly_fails_iff:
  assumes "torch_ok T" "cs \<noteq> []" "\<forall>c \<in> set cs. source_ok T m c"
  shows "if assembles cs then \<exists>r m'. bucket_prepare T (idle_run dev (Bucket cs)) m = Inr (r, m')
    else bucket_prepare T (idle_run dev (Bucket cs)) m = Inl RuntimeError"
proof (cases "assembles cs")
  case True
  then show ?thesis using bucket_prepare_source [OF assms True, of dev] by auto
next
  case False
  consider (one) c where "cs = [c]" | (more) c c' cs' where "cs = c # c' # cs'" using assms(2) by (cases cs rule: remdups_adj.cases) auto
  then show ?thesis
  proof cases
    case one
    obtain v m' where v: "chunk_prepare T True c m = Inr (v, m')" "v_shape v = c_chunk_shape c" "v_dtype v = c_transfer_dtype c"
      using chunk_prepare_source [OF assms(1), of m c True] assms(3) one by auto
    then show ?thesis using False by (simp add: one bucket_prepare_def idle_run_def as_bytes_def assembles_def)
  next
    case more
    have "\<not> aligned cs 0" "c_is_source c" using False assms(3) more by (simp_all add: assembles_def source_ok_def)
    then show ?thesis
      using bucket_prepare_multi [OF more, of T dev m] False
        prepare_slots_misaligned [OF assms(1,3) order_refl kept_alloc, of 0 "bytes cs"] by simp
  qed
qed

text \<open>
  A receiving bucket of one chunk takes its buffer in the target's dtype: it has room for the
  message exactly when the wire dtype has the same size. A target wider than the wire dtype
  posts a receive for more bytes than the sender sends.
\<close>

theorem single_chunk_receive_size:
  assumes "target_ok T m c" "receiving c" "c_chunk_shape c \<noteq> []" "0 < prod_list (c_chunk_shape c)"
  shows "\<exists>r m' buf. bucket_prepare T (idle_run dev (Bucket [c])) m = Inr (r, m') \<and> br_buffer r = Some buf \<and>
    length (v_addrs buf) = prod_list (c_chunk_shape c) * itemsize (t_dtype (c_tensor c)) \<and>
    (length (v_addrs buf) = nbytes c \<longleftrightarrow> itemsize (t_dtype (c_tensor c)) = itemsize (c_transfer_dtype c))"
proof -
  note d = dst_region_facts [OF assms(1)]
  obtain v u m1 where p: "bucket_prepare T (idle_run dev (Bucket [c])) m =
      Inr ((idle_run dev (Bucket [c]))\<lparr>br_buffer := Some u, br_chunk_buffers := [Some v]\<rparr>, m1)"
    "maybe_contiguous True (dst_region T c) m = (v, m1)" "v_addrs u = v_addrs v"
    using recv_one [OF assms(1,2)] assms(3) by blast
  note f = maybe_contiguous_facts [OF p(2) d(2,3)]
  have "length (v_addrs u) = prod_list (c_chunk_shape c) * itemsize (t_dtype (c_tensor c))" using f p(3) d by (simp add: view_ok_def)
  then show ?thesis using p(1) assms(4) by (simp add: nbytes_def)
qed

lemma aligned_uniform: "\<forall>c \<in> set cs. c_transfer_dtype c = d \<Longrightarrow> n mod itemsize d = 0 \<Longrightarrow> aligned cs n"
  by (induction cs arbitrary: n) (auto simp: nbytes_def)

lemma buckets_chunks: "b \<in> set (chunk_to_bucket_ops cs n) \<Longrightarrow> set (b_chunks b) \<subseteq> set cs"
proof -
  let ?st = "fold (bucket_step n) cs ([], [])"
  have "state_ok ([], [])" by (simp add: state_ok_def open_ok_def)
  from pass_ok [OF this, of n cs] have "state_ok ?st" "state_chunks ?st = mset cs" by (simp_all add: state_chunks_def)
  then have "mset (concat (map b_chunks (chunk_to_bucket_ops cs n))) = mset cs"
    using flush_ok(1) [of ?st] by (simp add: chunk_to_bucket_ops_def)
  then have "set (concat (map b_chunks (chunk_to_bucket_ops cs n))) = set cs" by (metis set_mset_mset)
  then show "b \<in> set (chunk_to_bucket_ops cs n) \<Longrightarrow> set (b_chunks b) \<subseteq> set cs" by auto
qed

text \<open>
  Batches of one wire dtype are safe: when all chunks of a rank have the same wire dtype and
  no chunk is a scalar, every bucket the bundling makes is assembled.
\<close>

theorem uniform_dtype_assembles:
  assumes "\<forall>c \<in> set cs. c_transfer_dtype c = d \<and> c_chunk_shape c \<noteq> []" "b \<in> set (chunk_to_bucket_ops cs n)"
  shows "assembles (b_chunks b)"
proof -
  have "aligned (b_chunks b) 0" using aligned_uniform [of "b_chunks b" d 0] buckets_chunks [OF assms(2)] assms(1) by auto
  then show ?thesis using assms buckets_chunks [OF assms(2)] by (auto simp: assembles_def split: list.split)
qed


lemma launch_self:
  assumes "c_transport c \<in> {LOCAL, BROADCAST}" "br_bucket r = Bucket (c # cs)"
  shows "\<exists>w pg'. bucket_launch r pg = Inr (True, r\<lparr>br_ready_event := False, br_work := w\<rparr>, pg') \<and> \<not> receives True w"
proof (cases "c_transport c = LOCAL")
  case True
  then have "bucket_launch r pg = Inr (True, r\<lparr>br_ready_event := False, br_work := None\<rparr>, pg)"
    using assms by (simp add: bucket_launch_def Let_def bucket_transport_def py_nth_def)
  then show ?thesis by (auto simp: receives_def)
next
  case False
  obtain g pg' where g: "get_or_create_process_group (sort (c_src_rank c # c_dst_ranks c)) pg = (g, pg')" by fastforce
  then have "bucket_launch r pg = Inr (True, r\<lparr>br_ready_event := False, br_work := Some (Bcast (c_src_rank c) g)\<rparr>, pg')"
    using assms False by (simp add: bucket_launch_def Let_def bucket_transport_def bucket_src_rank_def bucket_dst_ranks_def py_nth_def execute_broadcast_def)
  then show ?thesis by (auto simp: receives_def)
qed

text \<open>
  Delivery to oneself: a bucket whose chunks are both source and target on this rank (a local
  copy, or a broadcast in which the sender is also a destination) leaves in every target region
  the bytes its source region had before, converted; all sources are read before any target is
  written, so chunks that read what others write do not disturb each other.
\<close>

theorem self_delivery:
  assumes "torch_ok T" "cs \<noteq> []" "\<forall>c \<in> set cs. source_ok T m c \<and> target_ok T m c \<and> c_transport c \<in> {LOCAL, BROADCAST}" "regions_apart T cs" "assembles cs"
  shows "\<exists>r1 m1 r2 pg' r3 m3. bucket_prepare T (idle_run dev (Bucket cs)) m = Inr (r1, m1) \<and> bucket_launch r1 pg = Inr (True, r2, pg') \<and>
    bucket_finalize T arrived r2 m1 = Inr (r3, m3) \<and> map (\<lambda>c. read_view (dst_region T c) m3) cs = map (\<lambda>c. landed T c (wire_bytes T m c)) cs \<and>
    only_regions T cs m m3"
proof -
  have src: "\<forall>c \<in> set cs. source_ok T m c" and tgt: "\<forall>c \<in> set cs. target_ok T m c" using assms(3) by auto
  obtain r m1 vs where p: "bucket_prepare T (idle_run dev (Bucket cs)) m = Inr (r, m1)" "kept m m1"
    "br_chunk_buffers r = map2 (\<lambda>c v. if c_is_target c then Some v else None) cs vs" "map (\<lambda>v. read_view v m1) vs = map (wire_bytes T m) cs"
    "list_all2 (fits_chunk m1) cs vs" "1 < length cs \<longrightarrow> (\<forall>v \<in> set vs. m_next m \<le> v_storage v)" "br_bucket r = Bucket cs" "br_work r = None"
    using bucket_prepare_source [OF assms(1,2) src assms(5), of dev] by blast
  have lvs: "length vs = length cs" using p(5) by (simp add: list_all2_lengthD)
  have bufs: "br_chunk_buffers r = map Some vs"
    using p(3) tgt lvs by (auto simp: target_ok_def list_eq_iff_nth_eq)
  obtain c cs' where cs: "cs = c # cs'" using assms(2) by (cases cs) auto
  have c: "c_is_source c" "c_is_target c" "c_transport c \<in> {LOCAL, BROADCAST}" using assms(3) cs by (auto simp: source_ok_def target_ok_def)
  obtain w pg' where l: "bucket_launch r pg = Inr (True, r\<lparr>br_ready_event := False, br_work := w\<rparr>, pg')" "\<not> receives True w"
    using launch_self [OF c(3), of r cs' pg] p(7) cs by auto
  let ?r2 = "r\<lparr>br_ready_event := False, br_work := w\<rparr>"
  have "\<exists>m3. finalize_chunks T (zip cs (map Some vs)) m1 = Inr m3 \<and> m_next m1 \<le> m_next m3 \<and>
      map (\<lambda>c. read_view (dst_region T c) m3) cs = map2 (\<lambda>c v. landed T c (read_view v m1)) cs vs \<and>
      (\<forall>s i. s < m_next m1 \<and> (\<forall>c \<in> set cs. elsewhere (dst_region T c) s i) \<longrightarrow> m_data m3 s i = m_data m1 s i)"
  proof (cases "1 < length cs")
    case True
    then show ?thesis using finalize_chunks_facts [OF assms(1) tgt p(5)] p(2,6) assms(4) by (auto simp: regions_apart_def kept_def)
  next
    case False
    then obtain v where one: "cs = [c]" "vs = [v]" "fits_chunk m1 c v" using cs lvs p(5) by (cases vs) auto
    have "target_ok T m1 c" using tgt cs target_kept p(2) by (auto simp: kept_def)
    then show ?thesis using chunk_finalize_facts [OF assms(1) _ one(3)] one(1,2) by auto
  qed
  then obtain m3 where 3: "finalize_chunks T (zip cs (map Some vs)) m1 = Inr m3"
    "map (\<lambda>c. read_view (dst_region T c) m3) cs = map2 (\<lambda>c v. landed T c (read_view v m1)) cs vs"
    "\<forall>s i. s < m_next m1 \<and> (\<forall>c \<in> set cs. elsewhere (dst_region T c) s i) \<longrightarrow> m_data m3 s i = m_data m1 s i" "m_next m1 \<le> m_next m3" by blast
  have "read_view (vs ! i) m1 = wire_bytes T m (cs ! i)" if "i < length cs" for i
    using p(4) that lvs by (metis nth_map)
  then have "map (\<lambda>c. read_view (dst_region T c) m3) cs = map (\<lambda>c. landed T c (wire_bytes T m c)) cs"
    unfolding 3(2) using lvs by (intro nth_equalityI) simp_all
  moreover have "only_regions T cs m m3" using 3(3,4) p(2) by (auto simp: only_regions_def kept_def)
  moreover have "\<exists>r3. bucket_finalize T arrived ?r2 m1 = Inr (r3, m3)"
    using p(7) c l(2) 3(1) bufs
    by (auto simp: bucket_finalize_def work_wait_def bucket_is_source_def bucket_is_target_def py_nth_def cs split: option.split)
  ultimately show ?thesis using p(1) l(1) by blast
qed

section \<open>Concrete transfers\<close>

text \<open>Plain tensors, each the whole of its storage; conversion gives zeros of the right size and reduction changes nothing.\<close>

definition sample_torch :: torch where
  "sample_torch = \<lparr>to_view = (\<lambda>t. \<lparr>v_storage = t_id t, v_addrs = [0..<prod_list (t_shape t) * itemsize (t_dtype t)], v_shape = t_shape t, v_dtype = t_dtype t\<rparr>),
     to_cast = (\<lambda>d d' bs. replicate (length bs div itemsize d * itemsize d') 0), to_reduce = (\<lambda>_ _ bs. bs)\<rparr>"

definition sample_memory :: memory where
  "sample_memory = \<lparr>m_data = (\<lambda>s i. of_nat (s + i)), m_next = 4\<rparr>"

definition plain_tensor :: "nat \<Rightarrow> nat list \<Rightarrow> nat \<Rightarrow> tensor" where
  "plain_tensor i shape k = \<lparr>t_id = i, t_shape = shape, t_dtype = \<lparr>dt_name = ''d'', itemsize = k\<rparr>\<rparr>"

definition plain_chunk :: "transport \<Rightarrow> bool \<Rightarrow> bool \<Rightarrow> tensor \<Rightarrow> py_slice list \<Rightarrow> dtype \<Rightarrow> chunk" where
  "plain_chunk tr s tg t sl d = \<lparr>c_transport = tr, c_is_source = s, c_is_target = tg, c_src_rank = 0, c_dst_ranks = [1],
     c_chunk_shape = sliced_shape (t_shape t) sl, c_tensor = t, c_src_tensor = None, c_src_slice = sl, c_dst_slice = sl,
     c_transfer_dtype = d, c_src_idx = [0], c_dst_idx = None, c_source_partial_groups = None\<rparr>"

lemma sample_torch_ok [simp]: "torch_ok sample_torch"
  by (simp add: torch_ok_def sample_torch_def)

lemma sample_tensor_ok: "i < 4 \<Longrightarrow> 0 < k \<Longrightarrow> tensor_ok sample_torch sample_memory (plain_tensor i shape k)"
  by (simp add: tensor_ok_def view_ok_def sample_torch_def plain_tensor_def sample_memory_def)

lemma plain_source:
  "i < 4 \<Longrightarrow> 0 < k \<Longrightarrow> 0 < itemsize d \<Longrightarrow> length sl \<le> length shape \<Longrightarrow>
     source_ok sample_torch sample_memory (plain_chunk tr True tg (plain_tensor i shape k) sl d)"
  using sample_tensor_ok [of i k shape] by (simp add: source_ok_def plain_chunk_def read_tensor_def partial_of_def) (simp add: plain_tensor_def)

lemma plain_target:
  "i < 4 \<Longrightarrow> 0 < k \<Longrightarrow> 0 < itemsize d \<Longrightarrow> length sl \<le> length shape \<Longrightarrow>
     target_ok sample_torch sample_memory (plain_chunk tr s True (plain_tensor i shape k) sl d)"
  using sample_tensor_ok [of i k shape] by (simp add: target_ok_def plain_chunk_def) (simp add: plain_tensor_def)

abbreviation wide_dtype :: dtype where
  "wide_dtype \<equiv> \<lparr>dt_name = ''d'', itemsize = 2\<rparr>"

abbreviation half :: "transport \<Rightarrow> bool \<Rightarrow> bool \<Rightarrow> nat \<Rightarrow> nat \<Rightarrow> chunk" where
  "half tr s tg i j \<equiv> plain_chunk tr s tg (plain_tensor i [4] 2) [(j, j + 2)] wide_dtype"

theorem bucket_roundtrip_witness:
  "\<exists>r m1 buf r1 m1' r2 pg' r3 m3. bucket_prepare sample_torch (idle_run None (Bucket [half P2P True False 0 0, half P2P True False 0 2])) sample_memory = Inr (r, m1) \<and>
     br_buffer r = Some buf \<and>
     bucket_prepare sample_torch (idle_run None (Bucket [half P2P False True 1 0, half P2P False True 1 2])) sample_memory = Inr (r1, m1') \<and>
     bucket_launch r1 pg_init = Inr (True, r2, pg') \<and> bucket_finalize sample_torch (read_view buf m1) r2 m1' = Inr (r3, m3) \<and>
     read_view (dst_region sample_torch (half P2P False True 1 0)) m3 = [0, 1, 2, 3]"
proof -
  let ?cs = "[half P2P True False 0 0, half P2P True False 0 2]" and ?cs' = "[half P2P False True 1 0, half P2P False True 1 2]"
  have ap: "regions_apart sample_torch ?cs'"
    by (simp add: regions_apart_def) code_simp
  have la: "lands ?cs'" by code_simp
  have sw: "list_all2 same_wire ?cs ?cs'" by code_simp
  have so: "\<forall>c \<in> set ?cs. source_ok sample_torch sample_memory c" using plain_source by simp
  have ta: "\<forall>c \<in> set ?cs'. target_ok sample_torch sample_memory c \<and> receiving c"
    using plain_target by (simp add: receiving_def) (simp add: plain_chunk_def)
  have wb: "landed sample_torch (half P2P False True 1 0) (wire_bytes sample_torch sample_memory (half P2P True False 0 0)) = [0, 1, 2, 3]" by code_simp
  show ?thesis
    using bucket_roundtrip [OF sample_torch_ok sample_torch_ok sw _ so ta ap la, of None None pg_init] wb by (simp del: One_nat_def) blast
qed

theorem bucket_assembly_fails_iff_witness:
  "bucket_prepare sample_torch (idle_run None (Bucket [half P2P True False 0 0, plain_chunk P2P True False (plain_tensor 1 [1] 1) [(0, 1)] \<lparr>dt_name = ''b'', itemsize = 1\<rparr>,
     half P2P True False 0 2])) sample_memory = Inl RuntimeError"
proof -
  let ?cs = "[half P2P True False 0 0, plain_chunk P2P True False (plain_tensor 1 [1] 1) [(0, 1)] \<lparr>dt_name = ''b'', itemsize = 1\<rparr>, half P2P True False 0 2]"
  have so: "\<forall>c \<in> set ?cs. source_ok sample_torch sample_memory c" using plain_source by simp
  have "\<not> assembles ?cs" by code_simp
  then show ?thesis using bucket_assembly_fails_iff [OF sample_torch_ok _ so, of None] by simp
qed

theorem single_chunk_receive_size_witness:
  "\<exists>r m' buf. bucket_prepare sample_torch (idle_run None (Bucket [plain_chunk P2P False True (plain_tensor 0 [3] 4) [(0, 3)] wide_dtype])) sample_memory = Inr (r, m') \<and>
     br_buffer r = Some buf \<and> length (v_addrs buf) = 12 \<and> length (v_addrs buf) \<noteq> nbytes (plain_chunk P2P False True (plain_tensor 0 [3] 4) [(0, 3)] wide_dtype)"
proof -
  let ?c = "plain_chunk P2P False True (plain_tensor 0 [3] 4) [(0, 3)] wide_dtype"
  have ta: "target_ok sample_torch sample_memory ?c" using plain_target by simp
  have re: "receiving ?c" "c_chunk_shape ?c \<noteq> []" "0 < prod_list (c_chunk_shape ?c)" by code_simp+
  have n: "prod_list (c_chunk_shape ?c) * itemsize (t_dtype (c_tensor ?c)) = 12" "itemsize (t_dtype (c_tensor ?c)) \<noteq> itemsize (c_transfer_dtype ?c)" by code_simp+
  show ?thesis using single_chunk_receive_size [OF ta re, of None] n by metis
qed

theorem uniform_dtype_assembles_witness:
  "assembles [half P2P True False 0 0, half P2P True False 0 2]"
proof -
  have "Bucket [half P2P True False 0 0, half P2P True False 0 2] \<in> set (chunk_to_bucket_ops [half P2P True False 0 0, half P2P True False 0 2] 100)"
    by code_simp
  from uniform_dtype_assembles [OF _ this, of wide_dtype] show ?thesis by (simp add: plain_chunk_def plain_tensor_def)
qed

theorem self_delivery_witness:
  "\<exists>r1 m1 r2 pg' r3 m3. bucket_prepare sample_torch (idle_run None (Bucket [half LOCAL True True 2 2])) sample_memory = Inr (r1, m1) \<and>
     bucket_launch r1 pg_init = Inr (True, r2, pg') \<and> bucket_finalize sample_torch [] r2 m1 = Inr (r3, m3) \<and>
     read_view (dst_region sample_torch (half LOCAL True True 2 2)) m3 = [6, 7, 8, 9]"
proof -
  let ?c = "half LOCAL True True 2 2"
  have ok: "\<forall>c \<in> set [?c]. source_ok sample_torch sample_memory c \<and> target_ok sample_torch sample_memory c \<and> c_transport c \<in> {LOCAL, BROADCAST}"
    using plain_source plain_target by simp (simp add: plain_chunk_def)
  have la: "regions_apart sample_torch [?c]" "assembles [?c]" by (simp add: regions_apart_def) code_simp
  have "landed sample_torch ?c (wire_bytes sample_torch sample_memory ?c) = [6, 7, 8, 9]" by code_simp
  then show ?thesis using self_delivery [OF sample_torch_ok _ ok la, of None pg_init "[]"] by simp blast
qed

end
