(* ===== verification/Channel_Transfer.thy ===== *)
theory Channel_Transfer
  imports Bucket_Transfer
begin

text \<open>
  A whole channel, from the chunk lists of both ends to the bytes in the target tensors: both
  ends bundle their chunks with \<open>chunk_to_bucket_ops\<close>, the buckets of the channel meet one by
  one in order, and every chunk's bytes end up in its target region.
\<close>

section \<open>Running a channel\<close>

text \<open>The sender prepares, the receiver prepares and launches, and finalizes with what the sender's buffer holds.\<close>

definition pass_bucket ::
  "torch \<Rightarrow> torch \<Rightarrow> device option \<Rightarrow> device option \<Rightarrow> pg_state \<Rightarrow> bucket \<times> bucket \<Rightarrow> memory \<times> memory \<Rightarrow> (memory \<times> memory) result" where
  "pass_bucket T T' dev dev' pg bb mm =
     (case bb of (b, b') \<Rightarrow> case mm of (m, m') \<Rightarrow>
      res_bind (bucket_prepare T (idle_run dev b) m) (\<lambda>(r, m1).
      res_bind (case br_buffer r of None \<Rightarrow> Inl AttributeError | Some buf \<Rightarrow> Inr (read_view buf m1)) (\<lambda>sent.
      res_bind (bucket_prepare T' (idle_run dev' b') m') (\<lambda>(r1, m1').
      res_bind (bucket_launch r1 pg) (\<lambda>(_, r2, _).
      res_bind (bucket_finalize T' sent r2 m1') (\<lambda>(_, m2'). Inr (m1, m2')))))))"

fun run_channel ::
  "torch \<Rightarrow> torch \<Rightarrow> device option \<Rightarrow> device option \<Rightarrow> pg_state \<Rightarrow> (bucket \<times> bucket) list \<Rightarrow> memory \<times> memory \<Rightarrow> (memory \<times> memory) result" where
  "run_channel T T' dev dev' pg [] mm = Inr mm"
| "run_channel T T' dev dev' pg (bb # bbs) mm = res_bind (pass_bucket T T' dev dev' pg bb mm) (run_channel T T' dev dev' pg bbs)"

section \<open>Both ends pack alike\<close>

lemma pack_mset: "mset (concat (pack n cur cs)) = mset cur + mset cs"
  by (induction n cur cs rule: pack.induct) auto

lemma pack_nonempty: "b \<in> set (pack n cur cs) \<Longrightarrow> b \<noteq> []"
  by (induction n cur cs rule: pack.induct) (auto split: if_splits)

lemma pack_pairs:
  assumes "list_all2 same_wire cs cs'" "list_all2 same_wire cur cur'"
  shows "list_all2 (list_all2 same_wire) (pack n cur cs) (pack n cur' cs') \<and>
    mset (concat (map2 zip (pack n cur cs) (pack n cur' cs'))) = mset (zip cur cur') + mset (zip cs cs')"
  using assms
proof (induction cs cs' arbitrary: cur cur' rule: list_all2_induct)
  case Nil
  then show ?case by (cases "cur = []"; cases "cur' = []") auto
next
  case (Cons c cs c' cs')
  have n: "nbytes c = nbytes c'" using Cons.hyps(1) by (simp add: same_wire_def nbytes_def)
  have b: "bytes cur = bytes cur'" using same_wire_nbytes [OF Cons.prems] by simp
  have l: "length cur = length cur'" using Cons.prems by (rule list_all2_lengthD)
  have more: "list_all2 same_wire (cur @ [c]) (cur' @ [c'])" using Cons.hyps(1) Cons.prems by (simp add: list_all2_appendI)
  show ?case
    using Cons.IH [OF Cons.prems] Cons.IH [of "[]" "[]"] Cons.IH [OF more] Cons.hyps(1) Cons.prems more n b l by simp
qed

lemma sorted_wrt_permuted:
  assumes "\<And>x y. R x y \<Longrightarrow> R y x"
  shows "sorted_wrt R xs \<Longrightarrow> mset xs = mset ys \<Longrightarrow> sorted_wrt R ys"
proof (induction ys arbitrary: xs)
  case (Cons y ys)
  then have "y \<in> set xs" by (metis list.set_intros(1) set_mset_mset)
  then obtain a b where xs: "xs = a @ y # b" by (meson split_list)
  then have m: "mset (a @ b) = mset ys" using Cons.prems(2) by simp
  have "sorted_wrt R (a @ b)" using Cons.prems(1) xs by (auto simp: sorted_wrt_append)
  moreover have "\<forall>z \<in> set (a @ b). R y z" using Cons.prems(1) xs assms by (auto simp: sorted_wrt_append)
  moreover have "set (a @ b) = set ys" using m by (metis set_mset_mset)
  ultimately show ?case using Cons.IH [OF _ m] by simp
qed simp

lemma apart_sym: "apart v w \<Longrightarrow> apart w v"
  by (auto simp: apart_def elsewhere_def)

lemma regions_apart_permuted: "regions_apart T cs \<Longrightarrow> mset cs = mset cs' \<Longrightarrow> regions_apart T cs'"
  using sorted_wrt_permuted [of "\<lambda>c c'. apart (dst_region T c) (dst_region T c')" cs cs'] apart_sym by (simp add: regions_apart_def)

section \<open>Bucket by bucket\<close>

text \<open>The deliveries of a list of chunk pairs.\<close>

definition arrived :: "torch \<Rightarrow> torch \<Rightarrow> memory \<Rightarrow> memory \<Rightarrow> (chunk \<times> chunk) list \<Rightarrow> bool" where
  "arrived T T' m m' ccs \<longleftrightarrow> (\<forall>(c, c') \<in> set ccs. read_view (dst_region T' c') m' = landed T' c' (wire_bytes T m c))"

lemma pass_bucket_delivers:
  assumes "torch_ok T" "torch_ok T'" "list_all2 same_wire cs cs'" "cs \<noteq> []"
    and "\<forall>c \<in> set cs. source_ok T m c" and "\<forall>c \<in> set cs'. target_ok T' m' c \<and> receiving c" "regions_apart T' cs'" "lands cs'"
  shows "\<exists>m1 m1'. pass_bucket T T' dev dev' pg (Bucket cs, Bucket cs') (m, m') = Inr (m1, m1') \<and> kept m m1 \<and>
    arrived T T' m m1' (zip cs cs') \<and> only_regions T' cs' m' m1'"
proof -
  obtain r m1 buf r1 m1' r2 pg' r3 m3 where b: "bucket_prepare T (idle_run dev (Bucket cs)) m = Inr (r, m1)" "kept m m1" "br_buffer r = Some buf"
    "bucket_prepare T' (idle_run dev' (Bucket cs')) m' = Inr (r1, m1')" "bucket_launch r1 pg = Inr (True, r2, pg')"
    "bucket_finalize T' (read_view buf m1) r2 m1' = Inr (r3, m3)"
    "map (\<lambda>c. read_view (dst_region T' c) m3) cs' = map2 (\<lambda>c' c. landed T' c' (wire_bytes T m c)) cs' cs" "only_regions T' cs' m' m3"
    using bucket_delivers [OF assms, of dev dev' pg] by blast
  have len: "length cs = length cs'" using assms(3) by (rule list_all2_lengthD)
  have "read_view (dst_region T' (cs' ! i)) m3 = landed T' (cs' ! i) (wire_bytes T m (cs ! i))" if "i < length cs" for i
    using arg_cong [OF b(7), of "\<lambda>xs. xs ! i"] that len by simp
  then have "arrived T T' m m3 (zip cs cs')" using len by (auto simp: arrived_def in_set_zip)
  then show ?thesis using b by (simp add: pass_bucket_def)
qed

lemma only_regions_read:
  assumes "only_regions T cs m m'" "v_storage v < m_next m" "\<forall>c \<in> set cs. apart v (dst_region T c)"
  shows "read_view v m' = read_view v m"
  using assms by (intro read_undisturbed) (auto simp: only_regions_def apart_def)

lemma only_regions_trans:
  assumes "only_regions T cs m m1" "only_regions T ds m1 m2"
  shows "only_regions T (cs @ ds) m m2"
proof -
  have "m_data m2 s i = m_data m s i" if "s < m_next m" "\<forall>c \<in> set (cs @ ds). elsewhere (dst_region T c) s i" for s i
    using assms that by (simp add: only_regions_def)
  then show ?thesis using assms by (simp add: only_regions_def)
qed

lemma run_channel_delivers:
  assumes "torch_ok T" "torch_ok T'"
  shows "list_all2 (list_all2 same_wire) bs bs' \<Longrightarrow> \<forall>b \<in> set bs. b \<noteq> [] \<Longrightarrow> \<forall>c \<in> set (concat bs). source_ok T m c \<Longrightarrow>
    \<forall>c \<in> set (concat bs'). target_ok T' m' c \<and> receiving c \<Longrightarrow> regions_apart T' (concat bs') \<Longrightarrow> \<forall>b \<in> set bs'. lands b \<Longrightarrow>
    \<exists>m1 m1'. run_channel T T' dev dev' pg (zip (map Bucket bs) (map Bucket bs')) (m, m') = Inr (m1, m1') \<and> kept m m1 \<and>
      arrived T T' m m1' (concat (map2 zip bs bs')) \<and> only_regions T' (concat bs') m' m1'"
proof (induction bs bs' arbitrary: m m' rule: list_all2_induct)
  case (Cons cs bs cs' bs')
  have cs': "regions_apart T' cs'" "regions_apart T' (concat bs')" "\<forall>c \<in> set cs'. \<forall>d \<in> set (concat bs'). apart (dst_region T' c) (dst_region T' d)"
    using Cons.prems(4) by (auto simp: regions_apart_def sorted_wrt_append)
  obtain m1 m1' where p: "pass_bucket T T' dev dev' pg (Bucket cs, Bucket cs') (m, m') = Inr (m1, m1')" "kept m m1"
    "arrived T T' m m1' (zip cs cs')" "only_regions T' cs' m' m1'"
    using pass_bucket_delivers [OF assms Cons.hyps(1) _ _ _ cs'(1), of m m' dev dev' pg] Cons.prems by auto
  have src: "\<forall>c \<in> set (concat bs). source_ok T m c" using Cons.prems(2) by auto
  then have src1: "\<forall>c \<in> set (concat bs). source_ok T m1 c" using source_kept p(2) by blast
  have tgt1: "\<forall>c \<in> set (concat bs'). target_ok T' m1' c \<and> receiving c" 
    using Cons.prems(3) target_kept [of T' m' _ m1'] p(4) by (auto simp: only_regions_def)
  have rest: "\<forall>b \<in> set bs. b \<noteq> []" "\<forall>b \<in> set bs'. lands b" using Cons.prems(1,5) by auto
  obtain m2 m2' where q: "run_channel T T' dev dev' pg (zip (map Bucket bs) (map Bucket bs')) (m1, m1') = Inr (m2, m2')" "kept m1 m2"
    "arrived T T' m1 m2' (concat (map2 zip bs bs'))" "only_regions T' (concat bs') m1' m2'"
    using Cons.IH [OF rest(1) src1 tgt1 cs'(2) rest(2)] by blast
  have len: "length bs = length bs'" using Cons.hyps(2) by (rule list_all2_lengthD)
  have "wire_bytes T m1 c = wire_bytes T m c" if "(c, c') \<in> set (concat (map2 zip bs bs'))" for c c'
  proof -
    have "c \<in> set (concat bs)" using that by (auto dest!: set_zip_leftD)
    then show ?thesis using wire_bytes_kept [OF p(2)] src by blast
  qed
  then have later: "arrived T T' m m2' (concat (map2 zip bs bs'))" using q(3) by (fastforce simp: arrived_def)
  have "read_view (dst_region T' c') m2' = read_view (dst_region T' c') m1'" if "c' \<in> set cs'" for c'
  proof (rule only_regions_read [OF q(4)])
    have "v_storage (dst_region T' c') < m_next m'" using Cons.prems(3) that dst_region_facts(3) by auto
    then show "v_storage (dst_region T' c') < m_next m1'" using p(4) by (simp add: only_regions_def)
  qed (use cs'(3) that in blast)
  then have "arrived T T' m m2' (zip cs cs')" using p(3) set_zip_rightD by (fastforce simp: arrived_def)
  then show ?case using p q later kept_trans [OF p(2) q(2)] only_regions_trans [OF p(4) q(4)] by (auto simp: arrived_def)
qed (simp add: arrived_def only_regions_def)

text \<open>
  When the chunks of a channel match on both ends in order (same shape and wire dtype), both
  ranks cut them into the same sequence of buckets, whatever else they have to send or receive;
  passing these buckets one after the other leaves in every target region exactly the bytes of
  the matching source region, reduced and converted, all sources are unchanged, and the
  receiver's memory outside the target regions is as before.
\<close>

lemma channel_run:
  assumes "torch_ok T" "torch_ok T'" "list_all2 same_wire (filter (\<lambda>c. bucket_key c = k) cs) (filter (\<lambda>c. bucket_key c = k') cs')"
    and "\<forall>c \<in> set (filter (\<lambda>c. bucket_key c = k) cs). source_ok T m c"
    and "\<forall>c \<in> set (filter (\<lambda>c. bucket_key c = k') cs'). target_ok T' m' c \<and> receiving c"
    and "regions_apart T' (filter (\<lambda>c. bucket_key c = k') cs')"
    and "\<forall>b \<in> set (filter (on_channel k') (chunk_to_bucket_ops cs' n)). lands (b_chunks b)"
  shows "\<exists>m1 m1'. run_channel T T' dev dev' pg
      (zip (filter (on_channel k) (chunk_to_bucket_ops cs n)) (filter (on_channel k') (chunk_to_bucket_ops cs' n))) (m, m') = Inr (m1, m1') \<and>
    length (filter (on_channel k) (chunk_to_bucket_ops cs n)) = length (filter (on_channel k') (chunk_to_bucket_ops cs' n)) \<and> kept m m1 \<and>
    arrived T T' m m1' (zip (filter (\<lambda>c. bucket_key c = k) cs) (filter (\<lambda>c. bucket_key c = k') cs')) \<and>
    only_regions T' (filter (\<lambda>c. bucket_key c = k') cs') m' m1'"
proof -
  let ?F = "filter (\<lambda>c. bucket_key c = k) cs" and ?F' = "filter (\<lambda>c. bucket_key c = k') cs'"
  let ?B = "pack n [] ?F" and ?B' = "pack n [] ?F'"
  have ops: "filter (on_channel k) (chunk_to_bucket_ops cs n) = map Bucket ?B" "filter (on_channel k') (chunk_to_bucket_ops cs' n) = map Bucket ?B'"
    using ops_channel by (simp_all add: make_bucket_def [abs_def])
  have w: "list_all2 (list_all2 same_wire) ?B ?B'" and z: "mset (concat (map2 zip ?B ?B')) = mset (zip ?F ?F')"
    using pack_pairs [OF assms(3), of "[]" "[]" n] by simp_all
  have m: "mset (concat ?B) = mset ?F" "mset (concat ?B') = mset ?F'" using pack_mset [of n "[]"] by simp_all
  have ne: "\<forall>b \<in> set ?B. b \<noteq> []" using pack_nonempty by blast
  have sets: "set (concat ?B) = set ?F" "set (concat ?B') = set ?F'" using m by (metis set_mset_mset)+
  have land: "\<forall>b \<in> set ?B'. lands b" using assms(7) unfolding ops(2) by simp
  obtain m1 m1' where r: "run_channel T T' dev dev' pg (zip (map Bucket ?B) (map Bucket ?B')) (m, m') = Inr (m1, m1')" "kept m m1"
    "arrived T T' m m1' (concat (map2 zip ?B ?B'))" "only_regions T' (concat ?B') m' m1'"
    using run_channel_delivers [OF assms(1,2) w ne _ _ regions_apart_permuted [OF assms(6) m(2) [symmetric]] land, of m m'] sets assms(4,5) by metis
  have "set (concat (map2 zip ?B ?B')) = set (zip ?F ?F')" using z by (metis set_mset_mset)
  then have "arrived T T' m m1' (zip ?F ?F')" using r(3) by (simp only: arrived_def)
  moreover have "only_regions T' ?F' m' m1'" using r(4) unfolding only_regions_def sets(2) by blast
  ultimately show ?thesis using r(1,2) list_all2_lengthD [OF w] unfolding ops by auto
qed

end
