(* ===== verification/Route_Delivery.thy ===== *)
theory Route_Delivery
  imports Channel_Transfer
begin

text \<open>
  From the routes of a mesh-to-mesh map to the bytes in the target tensor: a sender that holds
  a source tensor and a receiver that holds a target tensor build their chunks from the same
  map, and what travels between them puts, for every route, the source cell into the target
  cell.
\<close>

section \<open>Different cells do not overlap\<close>

lemma picked_disjoint:
  assumes "k < length sl" "k < length sl'" "snd (sl ! k) \<le> fst (sl' ! k) \<or> snd (sl' ! k) \<le> fst (sl ! k)"
  shows "length sl \<le> length shape \<Longrightarrow> length sl' \<le> length shape \<Longrightarrow> set (picked shape sl) \<inter> set (picked shape sl') = {}"
  using assms
proof (induction shape arbitrary: sl sl' k)
  case (Cons n ns)
  obtain lo hi s lo' hi' s' where sl: "sl = (lo, hi) # s" "sl' = (lo', hi') # s'"
    using Cons.prems(3,4) by (cases sl; cases sl') auto
  have len: "length s \<le> length ns" "length s' \<le> length ns" using Cons.prems(1,2) sl by auto
  let ?p = "prod_list ns"
  have "False" if i: "i \<in> {min lo n..<min hi n}" "e \<in> set (picked ns s)" and i': "i' \<in> {min lo' n..<min hi' n}" "e' \<in> set (picked ns s')"
    and eq: "i * ?p + e = i' * ?p + e'" for i e i' e'
  proof -
    have lt: "e < ?p" "e' < ?p" using picked_facts len i(2) i'(2) by blast+
    have "i = (i * ?p + e) div ?p" "i' = (i' * ?p + e') div ?p" "e = (i * ?p + e) mod ?p" "e' = (i' * ?p + e') mod ?p" using lt by simp_all
    then have same: "i = i'" "e = e'" using eq by metis+
    show False
    proof (cases k)
      case 0
      then show ?thesis using i(1) i'(1) same(1) Cons.prems(5) sl by (auto simp: min_def split: if_splits)
    next
      case (Suc j)
      then have "set (picked ns s) \<inter> set (picked ns s') = {}" using Cons.IH [OF len, of j] Cons.prems(3-5) sl by simp
      then show ?thesis using i(2) i'(2) same(2) by blast
    qed
  qed
  then show ?case unfolding sl by fastforce
qed simp

lemma byte_position_owner: "p \<in> set (byte_positions k es) \<Longrightarrow> p div k \<in> set es"
proof -
  assume "p \<in> set (byte_positions k es)"
  then obtain e where e: "e \<in> set es" "e * k \<le> p" "p < k + e * k" by (auto simp: byte_positions_def)
  then have "p div k = e" by (intro div_nat_eqI) (simp_all add: mult.commute)
  then show ?thesis using e(1) by simp
qed

lemma byte_positions_disjoint: "set es \<inter> set es' = {} \<Longrightarrow> set (byte_positions k es) \<inter> set (byte_positions k es') = {}"
  using byte_position_owner by blast

lemma index_views_apart:
  assumes "view_ok v" "index_view v sl = Inr w" "index_view v sl' = Inr w'" "set (picked (v_shape v) sl) \<inter> set (picked (v_shape v) sl') = {}"
  shows "apart w w'"
proof -
  let ?k = "itemsize (v_dtype v)"
  let ?ps = "\<lambda>sl. byte_positions ?k (picked (v_shape v) sl)"
  have len: "length sl \<le> length (v_shape v)" "length sl' \<le> length (v_shape v)" using assms(2,3) by (auto simp: index_view_def split: if_splits)
  have w: "v_addrs w = map ((!) (v_addrs v)) (?ps sl)" "v_addrs w' = map ((!) (v_addrs v)) (?ps sl')"
    using assms(2,3) by (auto simp: index_view_def split: if_splits)
  have b: "\<forall>p \<in> set (?ps sl). p < length (v_addrs v)" "\<forall>p \<in> set (?ps sl'). p < length (v_addrs v)"
    using byte_positions_facts(2) [of "picked (v_shape v) sl" "prod_list (v_shape v)"] byte_positions_facts(2) [of "picked (v_shape v) sl'" "prod_list (v_shape v)"]
      picked_facts [OF len(1)] picked_facts [OF len(2)] assms(1) by (simp_all add: view_ok_def)
  have "inj_on ((!) (v_addrs v)) {..<length (v_addrs v)}" using assms(1) by (simp add: view_ok_def inj_on_nth)
  then have "set (v_addrs w) \<inter> set (v_addrs w') = {}"
    using byte_positions_disjoint [OF assms(4), of ?k] b unfolding w by (fastforce simp: inj_on_def)
  then show ?thesis by (auto simp: apart_def elsewhere_def)
qed

lemma length_cell_slices [simp]: "length (cell_slices shape nums idx) = min (length idx) (min (length shape) (length nums))"
  by (simp add: cell_slices_def)

lemma cell_slices_nth:
  "k < length idx \<Longrightarrow> k < length shape \<Longrightarrow> k < length nums \<Longrightarrow>
     cell_slices shape nums idx ! k = (idx ! k * (shape ! k div nums ! k), (idx ! k + 1) * (shape ! k div nums ! k))"
  by (simp add: cell_slices_def)

lemma cells_apart:
  assumes "length idx = length shape" "length idx' = length shape" "length nums = length shape" "idx \<noteq> idx'"
  shows "set (picked shape (cell_slices shape nums idx)) \<inter> set (picked shape (cell_slices shape nums idx')) = {}"
proof -
  obtain k where k: "k < length shape" "idx ! k \<noteq> idx' ! k" using assms by (metis nth_equalityI)
  have step: "(i + 1) * w \<le> i' * w" if "i < i'" for i i' w :: nat using that by (intro mult_le_mono1) simp
  have "snd (cell_slices shape nums idx ! k) \<le> fst (cell_slices shape nums idx' ! k) \<or> snd (cell_slices shape nums idx' ! k) \<le> fst (cell_slices shape nums idx ! k)"
    using step [of "idx ! k" "idx' ! k"] step [of "idx' ! k" "idx ! k"] k assms by (cases "idx ! k < idx' ! k") (auto simp: cell_slices_nth)
  then show ?thesis using k assms by (intro picked_disjoint [of k]) simp_all
qed

text \<open>The shape of a cell.\<close>

definition cell_shape :: "nat list \<Rightarrow> tensor \<Rightarrow> nat list" where
  "cell_shape ns t = map (\<lambda>d. t_shape t ! d div extend_slicers ns (t_shape t) ! d) [0..<length (t_shape t)]"

lemma sliced_cell_shape:
  assumes "length idx = length shape" "length nums = length shape" "\<forall>d < length shape. idx ! d < nums ! d"
  shows "sliced_shape shape (cell_slices shape nums idx) = map (\<lambda>d. shape ! d div nums ! d) [0..<length shape]"
  using assms
proof (induction shape arbitrary: idx nums)
  case (Cons d shape)
  obtain i js n ns where l: "idx = i # js" "nums = n # ns" using Cons.prems(1,2) by (cases idx; cases nums) auto
  have "i < n" "\<forall>d < length shape. js ! d < ns ! d" using Cons.prems(3) l by (force, fastforce)
  have "(i + 1) * (d div n) \<le> n * (d div n)" using \<open>i < n\<close> by (intro mult_le_mono1) simp
  also have "\<dots> \<le> d" by simp
  finally have "min ((i + 1) * (d div n)) d - min (i * (d div n)) d = d div n" by (simp add: min_def)
  moreover have "sliced_shape shape (cell_slices shape ns js) = map (\<lambda>d. shape ! d div ns ! d) [0..<length shape]"
    using Cons.IH [of js ns] Cons.prems l \<open>\<forall>d < length shape. js ! d < ns ! d\<close> by simp
  ultimately show ?case unfolding l by (simp add: map_upt_Suc del: upt_Suc)
qed simp

lemma cell_region_facts:
  assumes "side_fits ns t" "in_shape ns idx"
  shows "length (cell_region ns t idx) = length (t_shape t)" "sliced_shape (t_shape t) (cell_region ns t idx) = cell_shape ns t"
proof -
  let ?k = "length (t_shape t) - length ns"
  have e: "extend_slicers ns (t_shape t) = ns @ replicate ?k 1" using assms(1) by (rule extend_slicers_fits)
  have l: "length ns \<le> length (t_shape t)" "length idx = length ns" using assms by (auto simp: side_fits_def dest: in_shape_length)
  show "length (cell_region ns t idx) = length (t_shape t)" using l by (simp add: cell_region_def e)
  have "\<forall>d < length (t_shape t). (idx @ replicate ?k 0) ! d < (ns @ replicate ?k 1) ! d"
    using assms(2) l by (auto simp: nth_append in_shape_nth)
  then show "sliced_shape (t_shape t) (cell_region ns t idx) = cell_shape ns t"
    using l sliced_cell_shape [of "idx @ replicate ?k 0" "t_shape t" "ns @ replicate ?k 1"] unfolding cell_region_def cell_shape_def e by simp
qed

lemma cell_regions_apart:
  assumes "side_fits ns t" "in_shape ns idx" "in_shape ns idx'" "idx \<noteq> idx'"
  shows "set (picked (t_shape t) (cell_region ns t idx)) \<inter> set (picked (t_shape t) (cell_region ns t idx')) = {}"
proof -
  have "extend_slicers ns (t_shape t) = ns @ replicate (length (t_shape t) - length ns) 1" using assms(1) by (rule extend_slicers_fits)
  moreover have "length ns \<le> length (t_shape t)" "length idx = length ns" "length idx' = length ns"
    using assms by (auto simp: side_fits_def dest: in_shape_length)
  ultimately show ?thesis unfolding cell_region_def using assms(4) by (intro cells_apart) simp_all
qed

section \<open>The chunks of the two ends\<close>

text \<open>The chunk a pure sender makes for a route of its own, and the one a pure receiver makes for a destination on it.\<close>

definition ship_chunk :: "nat list \<Rightarrow> tensor \<Rightarrow> dtype option \<Rightarrow> partial_groups option \<Rightarrow> route \<Rightarrow> chunk" where
  "ship_chunk ns src td pgs rt =
     \<lparr>c_transport = r_kind rt, c_is_source = True, c_is_target = False, c_src_rank = ep_rank (r_src rt),
      c_dst_ranks = route_dst_ranks rt, c_chunk_shape = cell_shape ns src, c_tensor = src,
      c_src_tensor = None, c_src_slice = cell_region ns src (ep_cell (r_src rt)), c_dst_slice = [],
      c_transfer_dtype = chunk_wire_dtype td src, c_src_idx = ep_cell (r_src rt), c_dst_idx = None, c_source_partial_groups = pgs\<rparr>"

definition drop_chunk :: "nat list \<Rightarrow> tensor \<Rightarrow> dtype option \<Rightarrow> route \<Rightarrow> endpoint \<Rightarrow> chunk" where
  "drop_chunk nt tgt td rt e =
     \<lparr>c_transport = r_kind rt, c_is_source = False, c_is_target = True, c_src_rank = ep_rank (r_src rt),
      c_dst_ranks = route_dst_ranks rt, c_chunk_shape = cell_shape nt tgt, c_tensor = tgt,
      c_src_tensor = None, c_src_slice = [], c_dst_slice = cell_region nt tgt (ep_cell e),
      c_transfer_dtype = chunk_wire_dtype td tgt, c_src_idx = ep_cell (r_src rt), c_dst_idx = Some (ep_cell e), c_source_partial_groups = None\<rparr>"

lemma slice_side_shape:
  assumes "side_fits ns t"
  obtains s where "slice_side (Some ns) (Some t) = Inr (Some s)" "s_tensor s = t" "side_chunk_shape s = Inr (cell_shape ns t)"
    "\<And>idx. in_shape ns idx \<Longrightarrow> side_slice (Some s) idx = Inr (cell_region ns t idx)"
proof -
  obtain s sh where s: "slice_side (Some ns) (Some t) = Inr (Some s)" "s_tensor s = t"
    "\<And>idx. in_shape ns idx \<Longrightarrow> side_slice (Some s) idx = Inr (cell_region ns t idx)"
    using slice_side_total [OF assms] by metis
  have e: "extend_slicers ns (t_shape t) = ns @ replicate (length (t_shape t) - length ns) 1" using assms by (rule extend_slicers_fits)
  have "length (extend_slicers ns (t_shape t)) = length (t_shape t)" "\<forall>n \<in> set (extend_slicers ns (t_shape t)). 0 < n"
    using assms unfolding e by (auto simp: side_fits_def)
  then have "calculate_chunk_shape (extend_slicers ns (t_shape t)) (Some (t_shape t)) = Inr (cell_shape ns t)"
    using chunk_shape_total by (simp add: cell_shape_def)
  moreover have "s_nums s = extend_slicers ns (t_shape t)" using s(1) by (auto simp: slice_side_def res_simps)
  ultimately show thesis using s by (intro that [of s]) (simp_all add: side_chunk_shape_def)
qed

lemma sender_chunks:
  assumes "m2m_routes m2m = Some rts" "m2m_source_num_slicers m2m = Some ns" "side_fits ns src" "cells_fit rank ns nt rts"
  shows "fst (m2m_to_chunks m2m rank (Some src) None td pgs st) = Inr (map (ship_chunk ns src td pgs) (filter (\<lambda>rt. ep_rank (r_src rt) = rank) rts))"
proof -
  obtain s where s: "slice_side (Some ns) (Some src) = Inr (Some s)" "s_tensor s = src" "side_chunk_shape s = Inr (cell_shape ns src)"
    "\<And>idx. in_shape ns idx \<Longrightarrow> side_slice (Some s) idx = Inr (cell_region ns src idx)"
    using slice_side_shape [OF assms(3)] by blast
  let ?a = "\<lparr>a_rank = rank, a_source = Some s, a_target = None, a_transfer_dtype = td, a_partial_groups = pgs\<rparr>"
  have each: "route_chunks ?a rt = Inr (if ep_rank (r_src rt) = rank then [ship_chunk ns src td pgs rt] else [])" if "rt \<in> set rts" for rt
  proof -
    have "ep_rank (r_src rt) = rank \<Longrightarrow> side_slice (Some s) (ep_cell (r_src rt)) = Inr (cell_region ns src (ep_cell (r_src rt)))"
      using assms(4) that s(4) by (auto simp: cells_fit_def)
    then show ?thesis using s(2,3)
      by (simp add: route_chunks_def route_source_def source_chunk_def dst_loop_no_target ship_chunk_def)
  qed
  have "res_mapM (route_chunks ?a) rts = Inr (map (\<lambda>rt. if ep_rank (r_src rt) = rank then [ship_chunk ns src td pgs rt] else []) rts)"
    using each by (rule res_mapM_Inr)
  moreover have "concat (map (\<lambda>rt. if ep_rank (r_src rt) = rank then [ship_chunk ns src td pgs rt] else []) rts) =
      map (ship_chunk ns src td pgs) (filter (\<lambda>rt. ep_rank (r_src rt) = rank) rts)" by (induction rts) simp_all
  ultimately show ?thesis using assms(1,2) s(1) unfolding m2m_to_chunks_def by (cases rts) (simp_all add: slice_side_def)
qed

lemma dst_loop_receiver:
  assumes "a_source a = None" "a_target a = Some t" "s_tensor t = tgt" "side_chunk_shape t = Inr (cell_shape nt tgt)"
    "\<And>e. e \<in> set dsts \<Longrightarrow> ep_rank e = a_rank a \<Longrightarrow> side_slice (Some t) (ep_cell e) = Inr (cell_region nt tgt (ep_cell e))"
  shows "dst_loop a rt sl dsts sc new = Inr (sc, new @ map (drop_chunk nt tgt (a_transfer_dtype a) rt) (filter (\<lambda>e. ep_rank e = a_rank a) dsts))"
  using assms(5)
proof (induction dsts arbitrary: new)
  case (Cons e dsts)
  have "dst_loop a rt sl dsts sc new = Inr (sc, new @ map (drop_chunk nt tgt (a_transfer_dtype a) rt) (filter (\<lambda>e. ep_rank e = a_rank a) dsts))" for new
    using Cons by simp
  then show ?case using Cons.prems [of e] assms(1-4) by (simp add: target_chunk_def drop_chunk_def)
qed simp

lemma receiver_chunks:
  assumes "m2m_routes m2m = Some rts" "m2m_target_num_slicers m2m = Some nt" "side_fits nt tgt" "cells_fit rank ns nt rts"
  shows "fst (m2m_to_chunks m2m rank None (Some tgt) td pgs st) =
    Inr (concat (map (\<lambda>rt. map (drop_chunk nt tgt td rt) (filter (\<lambda>e. ep_rank e = rank) (r_dsts rt))) rts))"
proof -
  obtain t where t: "slice_side (Some nt) (Some tgt) = Inr (Some t)" "s_tensor t = tgt" "side_chunk_shape t = Inr (cell_shape nt tgt)"
    "\<And>idx. in_shape nt idx \<Longrightarrow> side_slice (Some t) idx = Inr (cell_region nt tgt idx)"
    using slice_side_shape [OF assms(3)] by blast
  let ?a = "\<lparr>a_rank = rank, a_source = None, a_target = Some t, a_transfer_dtype = td, a_partial_groups = pgs\<rparr>"
  have each: "route_chunks ?a rt = Inr (map (drop_chunk nt tgt td rt) (filter (\<lambda>e. ep_rank e = rank) (r_dsts rt)))" if "rt \<in> set rts" for rt
  proof -
    have "dst_loop ?a rt [] (r_dsts rt) None [] = Inr (None, map (drop_chunk nt tgt td rt) (filter (\<lambda>e. ep_rank e = rank) (r_dsts rt)))"
      using dst_loop_receiver [of ?a t tgt nt "r_dsts rt" rt "[]" None "[]"] t assms(4) that by (auto simp: cells_fit_def)
    then show ?thesis by (simp add: route_chunks_def route_source_def side_slice_def)
  qed
  have "res_mapM (route_chunks ?a) rts = Inr (map (\<lambda>rt. map (drop_chunk nt tgt td rt) (filter (\<lambda>e. ep_rank e = rank) (r_dsts rt))) rts)"
    using each by (rule res_mapM_Inr)
  then show ?thesis using assms(1,2) t(1) unfolding m2m_to_chunks_def by (cases rts) (simp_all add: slice_side_def)
qed

section \<open>One channel of a map\<close>

text \<open>The routes from one rank to one set of ranks, and the destination such a route has on a rank.\<close>

definition channel_routes :: "nat \<Rightarrow> nat list \<Rightarrow> transport \<Rightarrow> route list \<Rightarrow> route list" where
  "channel_routes s D kind rts = filter (\<lambda>rt. ep_rank (r_src rt) = s \<and> route_dst_ranks rt = D \<and> r_kind rt = kind) rts"

definition dst_on :: "nat \<Rightarrow> route \<Rightarrow> endpoint" where
  "dst_on d rt = hd (filter (\<lambda>e. ep_rank e = d) (r_dsts rt))"

lemma sender_channel:
  assumes "D \<noteq> []" "sig = (case pgs of None \<Rightarrow> [] | Some gs \<Rightarrow> gs)"
  shows "filter (\<lambda>c. bucket_key c = (s, D, sig, [], kind)) (map (ship_chunk ns src td pgs) (filter (\<lambda>rt. ep_rank (r_src rt) = s) rts)) =
    map (ship_chunk ns src td pgs) (channel_routes s D kind rts)"
proof -
  have "bucket_key (ship_chunk ns src td pgs rt) = (s, D, sig, [], kind) \<longleftrightarrow> ep_rank (r_src rt) = s \<and> route_dst_ranks rt = D \<and> r_kind rt = kind" for rt
    using assms by (auto simp: bucket_key_def ship_chunk_def Let_def)
  then show ?thesis by (simp add: filter_map comp_def channel_routes_def)
qed

lemma dst_on_facts:
  assumes "rt \<in> set (channel_routes s D kind rts)" "d \<in> set D" "cells_fit d ns nt rts"
  shows "filter (\<lambda>e. ep_rank e = d) (r_dsts rt) = [dst_on d rt]" "dst_on d rt \<in> set (r_dsts rt)" "ep_rank (dst_on d rt) = d"
    "e \<in> set (r_dsts rt) \<Longrightarrow> ep_rank e = d \<Longrightarrow> e = dst_on d rt" "in_shape nt (ep_cell (dst_on d rt))"
proof -
  have rt: "rt \<in> set rts" "route_dst_ranks rt = D" using assms(1) by (auto simp: channel_routes_def)
  let ?es = "filter (\<lambda>e. ep_rank e = d) (r_dsts rt)"
  have "set (map ep_rank (r_dsts rt)) = set D" using rt(2) by (metis route_dst_ranks_def set_sorted_set)
  then have "d \<in> ep_rank ` set (r_dsts rt)" using assms(2) by simp
  then have "?es \<noteq> []" by (auto simp: filter_empty_conv)
  moreover have "length ?es \<le> 1" using assms(3) rt(1) by (auto simp: cells_fit_def)
  ultimately obtain x where x: "?es = [x]" using length_le_1_cases by blast
  then show one: "?es = [dst_on d rt]" by (simp add: dst_on_def)
  have "set ?es = {dst_on d rt}" using one by simp
  then have "e \<in> set (r_dsts rt) \<and> ep_rank e = d \<longleftrightarrow> e = dst_on d rt" for e by auto
  then show "dst_on d rt \<in> set (r_dsts rt)" "ep_rank (dst_on d rt) = d" "e \<in> set (r_dsts rt) \<Longrightarrow> ep_rank e = d \<Longrightarrow> e = dst_on d rt" by blast+
  then show "in_shape nt (ep_cell (dst_on d rt))" using assms(3) rt(1) by (auto simp: cells_fit_def)
qed

lemma receiver_channel:
  assumes "d \<in> set D" "cells_fit d ns nt rts"
  shows "filter (\<lambda>c. bucket_key c = (s, D, [], [], kind)) (concat (map (\<lambda>rt. map (drop_chunk nt tgt td rt) (filter (\<lambda>e. ep_rank e = d) (r_dsts rt))) rts)) =
    map (\<lambda>rt. drop_chunk nt tgt td rt (dst_on d rt)) (channel_routes s D kind rts)"
proof -
  have key: "bucket_key (drop_chunk nt tgt td rt e) = (s, D, [], [], kind) \<longleftrightarrow> rt \<in> set (channel_routes s D kind [rt])" for rt e
    by (auto simp: bucket_key_def drop_chunk_def Let_def channel_routes_def)
  have "filter (\<lambda>c. bucket_key c = (s, D, [], [], kind)) (map (drop_chunk nt tgt td rt) (filter (\<lambda>e. ep_rank e = d) (r_dsts rt))) =
      map (\<lambda>rt. drop_chunk nt tgt td rt (dst_on d rt)) (channel_routes s D kind [rt])" if "rt \<in> set rts" for rt
  proof (cases "rt \<in> set (channel_routes s D kind [rt])")
    case True
    then have "rt \<in> set (channel_routes s D kind rts)" "channel_routes s D kind [rt] = [rt]" using that by (auto simp: channel_routes_def split: if_splits)
    then show ?thesis using key True dst_on_facts(1) [OF _ assms] by simp
  next
    case False
    then have "channel_routes s D kind [rt] = []" by (auto simp: channel_routes_def)
    then show ?thesis using key False by (simp add: filter_map comp_def)
  qed
  then have "concat (map (\<lambda>rt. filter (\<lambda>c. bucket_key c = (s, D, [], [], kind)) (map (drop_chunk nt tgt td rt) (filter (\<lambda>e. ep_rank e = d) (r_dsts rt)))) rts) =
      concat (map (\<lambda>rt. map (\<lambda>rt. drop_chunk nt tgt td rt (dst_on d rt)) (channel_routes s D kind [rt])) rts)" by (intro arg_cong [of _ _ concat] map_cong) auto
  moreover have "concat (map (\<lambda>rt. map f (channel_routes s D kind [rt])) rts) = map f (channel_routes s D kind rts)" for f :: "route \<Rightarrow> chunk"
    by (induction rts) (auto simp: channel_routes_def)
  ultimately show ?thesis by (simp add: filter_concat comp_def)
qed

section \<open>Delivery\<close>

text \<open>The part of a tensor that a cell stands for.\<close>

definition cell_view :: "torch \<Rightarrow> nat list \<Rightarrow> tensor \<Rightarrow> nat list \<Rightarrow> view" where
  "cell_view T ns t idx = projr (index_view (to_view T t) (cell_region ns t idx))"

text \<open>The bytes of a source cell as they are sent: reduced over the Partial groups, then converted.\<close>

definition cell_bytes :: "torch \<Rightarrow> memory \<Rightarrow> nat list \<Rightarrow> tensor \<Rightarrow> partial_groups option \<Rightarrow> dtype \<Rightarrow> nat list \<Rightarrow> byte list" where
  "cell_bytes T m ns src pgs d idx =
     convert T (t_dtype src) d (fold (\<lambda>(g, p). to_reduce T g p) (case pgs of None \<Rightarrow> [] | Some gs \<Rightarrow> gs) (read_view (cell_view T ns src idx) m))"

lemma ship_source_ok:
  assumes "side_fits ns src" "tensor_ok T m src" "in_shape ns (ep_cell (r_src rt))" "0 < itemsize (chunk_wire_dtype td src)"
    "\<forall>gs. pgs = Some gs \<longrightarrow> set (map snd gs) \<subseteq> set reduce_ops"
  shows "source_ok T m (ship_chunk ns src td pgs rt)"
    "wire_bytes T m (ship_chunk ns src td pgs rt) = cell_bytes T m ns src pgs (chunk_wire_dtype td src) (ep_cell (r_src rt))"
  using cell_region_facts [OF assms(1,3)] assms(2,4,5)
  by (auto simp: source_ok_def ship_chunk_def read_tensor_def partial_of_def wire_bytes_def src_region_def cell_view_def cell_bytes_def split: option.splits)

lemma drop_target_ok:
  assumes "side_fits nt tgt" "tensor_ok T m tgt" "in_shape nt (ep_cell e)" "chunk_wire_dtype td tgt = t_dtype tgt"
  shows "target_ok T m (drop_chunk nt tgt td rt e)" "dst_region T (drop_chunk nt tgt td rt e) = cell_view T nt tgt (ep_cell e)"
    "landed T (drop_chunk nt tgt td rt e) bs = bs"
  using cell_region_facts [OF assms(1,3)] assms(2,4)
  by (auto simp: target_ok_def drop_chunk_def dst_region_def cell_view_def landed_def convert_def tensor_ok_def view_ok_def)

lemma cell_views_apart:
  assumes "side_fits ns t" "tensor_ok T m t" "in_shape ns idx" "in_shape ns idx'" "idx \<noteq> idx'"
  shows "apart (cell_view T ns t idx) (cell_view T ns t idx')"
proof -
  have v: "view_ok (to_view T t)" "v_shape (to_view T t) = t_shape t" using assms(2) by (simp_all add: tensor_ok_def)
  obtain w w' where "index_view (to_view T t) (cell_region ns t idx) = Inr w" "index_view (to_view T t) (cell_region ns t idx') = Inr w'"
    using region_facts [OF assms(2)] cell_region_facts(1) [OF assms(1,3)] cell_region_facts(1) [OF assms(1,4)] by (metis order_refl)
  then show ?thesis using index_views_apart [OF v(1)] cell_regions_apart [OF assms(1,3,4,5)] v(2) by (simp add: cell_view_def)
qed

lemma drops_apart:
  assumes "side_fits nt tgt" "tensor_ok T m tgt" "\<forall>rt \<in> set rts. in_shape nt (ep_cell (f rt))" "distinct (map (\<lambda>rt. ep_cell (f rt)) rts)"
    "chunk_wire_dtype td tgt = t_dtype tgt"
  shows "regions_apart T (map (\<lambda>rt. drop_chunk nt tgt td rt (f rt)) rts)"
  using assms(3,4)
proof (induction rts)
  case (Cons rt rts)
  have "apart (cell_view T nt tgt (ep_cell (f rt))) (cell_view T nt tgt (ep_cell (f rt')))" if "rt' \<in> set rts" for rt'
    using cell_views_apart [OF assms(1,2)] Cons.prems that by (force simp: image_iff)
  then show ?case using Cons drop_target_ok(2) [OF assms(1,2) _ assms(5)] by (auto simp: regions_apart_def)
qed (simp add: regions_apart_def)

lemma drops_land:
  assumes "b \<in> set (chunk_to_bucket_ops cs n)" "\<forall>c \<in> set cs. c_transfer_dtype c = t_dtype (c_tensor c) \<and> c_transfer_dtype c = d \<and> c_chunk_shape c \<noteq> []"
  shows "lands (b_chunks b)"
proof -
  have sub: "\<forall>c \<in> set (b_chunks b). c_transfer_dtype c = t_dtype (c_tensor c) \<and> c_transfer_dtype c = d \<and> c_chunk_shape c \<noteq> []"
    using buckets_chunks [OF assms(1)] assms(2) by blast
  then have "aligned (b_chunks b) 0" by (intro aligned_uniform [of _ d]) auto
  then show ?thesis using sub by (auto simp: lands_def assembles_def split: list.splits)
qed

abbreviation signature :: "partial_groups option \<Rightarrow> partial_groups" where
  "signature pgs \<equiv> (case pgs of None \<Rightarrow> [] | Some gs \<Rightarrow> gs)"

lemma cell_view_facts:
  assumes "side_fits ns t" "tensor_ok T m t" "in_shape ns idx"
  shows "v_storage (cell_view T ns t idx) = v_storage (to_view T t)" "v_storage (cell_view T ns t idx) < m_next m"
proof -
  obtain v where "index_view (to_view T t) (cell_region ns t idx) = Inr v" "v_storage v = v_storage (to_view T t)" "v_storage v < m_next m"
    using region_facts [OF assms(2), of "cell_region ns t idx"] cell_region_facts(1) [OF assms(1,3)] by (metis order_refl)
  then show "v_storage (cell_view T ns t idx) = v_storage (to_view T t)" "v_storage (cell_view T ns t idx) < m_next m" by (simp_all add: cell_view_def)
qed

lemma drop_receiving: "d \<in> set (route_dst_ranks rt) \<Longrightarrow> r_kind rt \<in> {P2P, BROADCAST} \<Longrightarrow> receiving (drop_chunk nt tgt td rt e)"
  by (auto simp: receiving_def drop_chunk_def)

lemma channel_routes_facts:
  assumes "rt \<in> set (channel_routes s D kind rts)" "cells_fit s ns nt rts"
  shows "rt \<in> set rts" "in_shape ns (ep_cell (r_src rt))" "r_kind rt = kind" "route_dst_ranks rt = D"
  using assms by (auto simp: channel_routes_def cells_fit_def)

lemma routes_run:
  assumes map: "m2m_routes m2m = Some rts" "m2m_source_num_slicers m2m = Some ns" "m2m_target_num_slicers m2m = Some nt"
    and fit: "side_fits ns src" "side_fits nt tgt" "cells_fit s ns nt rts" "cells_fit d ns nt rts"
    and tensors: "torch_ok T" "torch_ok T'" "tensor_ok T m src" "tensor_ok T' m' tgt"
    and cells: "cell_shape ns src = cell_shape nt tgt" "cell_shape nt tgt \<noteq> []"
    and wire: "chunk_wire_dtype td src = t_dtype tgt" "chunk_wire_dtype td' tgt = t_dtype tgt"
    and groups: "\<forall>gs. pgs = Some gs \<longrightarrow> set (map snd gs) \<subseteq> set reduce_ops"
    and channel: "d \<in> set D" "kind \<in> {P2P, BROADCAST}" "distinct (map (\<lambda>rt. ep_cell (dst_on d rt)) (channel_routes s D kind rts))"
  shows "\<exists>m1 m1'. run_channel T T' dev dev' pg
      (zip (filter (on_channel (s, D, signature pgs, [], kind)) (chunk_to_bucket_ops (map (ship_chunk ns src td pgs) (filter (\<lambda>rt. ep_rank (r_src rt) = s) rts)) n))
        (filter (on_channel (s, D, [], [], kind))
          (chunk_to_bucket_ops (concat (map (\<lambda>rt. map (drop_chunk nt tgt td' rt) (filter (\<lambda>e. ep_rank e = d) (r_dsts rt))) rts)) n))) (m, m') = Inr (m1, m1') \<and>
    kept m m1 \<and> arrived T T' m m1' (zip (map (ship_chunk ns src td pgs) (channel_routes s D kind rts)) (map (\<lambda>rt. drop_chunk nt tgt td' rt (dst_on d rt)) (channel_routes s D kind rts))) \<and>
    only_regions T' (map (\<lambda>rt. drop_chunk nt tgt td' rt (dst_on d rt)) (channel_routes s D kind rts)) m' m1'"
proof -
  let ?R = "channel_routes s D kind rts"
  let ?cs = "map (ship_chunk ns src td pgs) (filter (\<lambda>rt. ep_rank (r_src rt) = s) rts)"
  let ?cs' = "concat (map (\<lambda>rt. map (drop_chunk nt tgt td' rt) (filter (\<lambda>e. ep_rank e = d) (r_dsts rt))) rts)"
  let ?F = "map (ship_chunk ns src td pgs) ?R" and ?F' = "map (\<lambda>rt. drop_chunk nt tgt td' rt (dst_on d rt)) ?R"
  have D: "D \<noteq> []" using channel(1) by auto
  have F: "filter (\<lambda>c. bucket_key c = (s, D, signature pgs, [], kind)) ?cs = ?F" "filter (\<lambda>c. bucket_key c = (s, D, [], [], kind)) ?cs' = ?F'"
    using sender_channel [OF D refl] receiver_channel [OF channel(1) fit(4)] by blast+
  note R = channel_routes_facts [OF _ fit(3)] and on = dst_on_facts [OF _ channel(1) fit(4)]
  have size: "0 < itemsize (t_dtype tgt)" using tensors(4) by (auto simp: tensor_ok_def view_ok_def)
  have sw: "list_all2 same_wire ?F ?F'"
    using cells(1) wire by (simp add: list_all2_conv_all_nth same_wire_def ship_chunk_def drop_chunk_def)
  have so: "\<forall>c \<in> set ?F. source_ok T m c" using ship_source_ok(1) [OF fit(1) tensors(3) _ _ groups] R(2) size wire(1) by auto
  have to: "\<forall>c \<in> set ?F'. target_ok T' m' c \<and> receiving c"
    using drop_target_ok(1) [OF fit(2) tensors(4) on(5) wire(2)] drop_receiving R(3,4) channel(1,2) by auto
  have ap: "regions_apart T' ?F'" using drops_apart [OF fit(2) tensors(4) _ channel(3) wire(2)] on(5) by blast
  have la: "\<forall>b \<in> set (filter (on_channel (s, D, [], [], kind)) (chunk_to_bucket_ops ?cs' n)). lands (b_chunks b)"
    using drops_land [of _ ?cs' n "t_dtype tgt"] wire(2) cells(2) by (auto simp: drop_chunk_def)
  show ?thesis
    using channel_run [of T T' "(s, D, signature pgs, [], kind)" ?cs "(s, D, [], [], kind)" ?cs' m m' n dev dev' pg]
    unfolding F using tensors(1,2) sw so to ap la by blast
qed

text \<open>
  What the map routes arrives: take a rank that holds the source tensor and a rank that
  holds the target tensor, each with the chunks it builds from the same map, and any channel
  from the first to the second (directly or in a broadcast). When both tensors have cells of
  one shape, the wire dtype is the target's and no target cell is named twice, then for any
  bucket size the buckets of the channel meet pairwise and passing them leaves in the target
  cell of every route of the channel exactly the bytes of its source cell, reduced over the
  Partial groups and converted; every other cell of the target, and every other tensor, is as
  before, and the sender's memory is untouched.
\<close>
theorem routes_delivered:
  assumes map: "m2m_routes m2m = Some rts" "m2m_source_num_slicers m2m = Some ns" "m2m_target_num_slicers m2m = Some nt"
    and fit: "side_fits ns src" "side_fits nt tgt" "cells_fit s ns nt rts" "cells_fit d ns nt rts"
    and tensors: "torch_ok T" "torch_ok T'" "tensor_ok T m src" "tensor_ok T' m' tgt"
    and cells: "cell_shape ns src = cell_shape nt tgt" "cell_shape nt tgt \<noteq> []"
    and wire: "chunk_wire_dtype td src = t_dtype tgt" "chunk_wire_dtype td' tgt = t_dtype tgt"
    and groups: "\<forall>gs. pgs = Some gs \<longrightarrow> set (map snd gs) \<subseteq> set reduce_ops"
    and channel: "d \<in> set D" "kind \<in> {P2P, BROADCAST}" "distinct (map (\<lambda>rt. ep_cell (dst_on d rt)) (channel_routes s D kind rts))"
  shows "\<exists>cs cs' m1 m1'. fst (m2m_to_chunks m2m s (Some src) None td pgs st) = Inr cs \<and>
    fst (m2m_to_chunks m2m d None (Some tgt) td' pgs' st') = Inr cs' \<and>
    run_channel T T' dev dev' pg (zip (filter (on_channel (s, D, signature pgs, [], kind)) (chunk_to_bucket_ops cs n))
      (filter (on_channel (s, D, [], [], kind)) (chunk_to_bucket_ops cs' n))) (m, m') = Inr (m1, m1') \<and>
    (\<forall>rt \<in> set (channel_routes s D kind rts). \<forall>e \<in> set (r_dsts rt). ep_rank e = d \<longrightarrow>
       read_view (cell_view T' nt tgt (ep_cell e)) m1' = cell_bytes T m ns src pgs (t_dtype tgt) (ep_cell (r_src rt))) \<and>
    (\<forall>idx. in_shape nt idx \<and> idx \<notin> set (map (\<lambda>rt. ep_cell (dst_on d rt)) (channel_routes s D kind rts)) \<longrightarrow>
       read_view (cell_view T' nt tgt idx) m1' = read_view (cell_view T' nt tgt idx) m') \<and>
    (\<forall>k i. k < m_next m' \<and> k \<noteq> v_storage (to_view T' tgt) \<longrightarrow> m_data m1' k i = m_data m' k i) \<and> kept m m1"
proof -
  let ?R = "channel_routes s D kind rts" and ?ship = "ship_chunk ns src td pgs" and ?drop = "\<lambda>rt. drop_chunk nt tgt td' rt (dst_on d rt)"
  note chunks = sender_chunks [OF map(1,2) fit(1,3), of td pgs st] receiver_chunks [OF map(1,3) fit(2,4), of td' pgs' st']
  obtain m1 m1' where run: "run_channel T T' dev dev' pg
      (zip (filter (on_channel (s, D, signature pgs, [], kind)) (chunk_to_bucket_ops (map ?ship (filter (\<lambda>rt. ep_rank (r_src rt) = s) rts)) n))
        (filter (on_channel (s, D, [], [], kind))
          (chunk_to_bucket_ops (concat (map (\<lambda>rt. map (drop_chunk nt tgt td' rt) (filter (\<lambda>e. ep_rank e = d) (r_dsts rt))) rts)) n))) (m, m') = Inr (m1, m1')"
    "kept m m1" "arrived T T' m m1' (zip (map ?ship ?R) (map ?drop ?R))" "only_regions T' (map ?drop ?R) m' m1'"
    using routes_run [OF assms, of dev dev' pg n] by blast
  note R = channel_routes_facts [OF _ fit(3)] and on = dst_on_facts [OF _ channel(1) fit(4)]
  have size: "0 < itemsize (chunk_wire_dtype td src)" using tensors(4) wire(1) by (auto simp: tensor_ok_def view_ok_def)
  have got: "read_view (cell_view T' nt tgt (ep_cell e)) m1' = cell_bytes T m ns src pgs (t_dtype tgt) (ep_cell (r_src rt))"
    if rt: "rt \<in> set ?R" and e: "e \<in> set (r_dsts rt)" "ep_rank e = d" for rt e
  proof -
    note dr = drop_target_ok [OF fit(2) tensors(4) on(5) [OF rt] wire(2), of rt]
    have "read_view (dst_region T' (?drop rt)) m1' = landed T' (?drop rt) (wire_bytes T m (?ship rt))"
      using run(3) rt by (auto simp: arrived_def zip_map_map zip_same_conv_map)
    then show ?thesis using dr(2,3) on(4) [OF rt e] ship_source_ok(2) [OF fit(1) tensors(3) R(2) [OF rt] size groups] wire(1) by simp
  qed
  have reg: "dst_region T' (?drop rt) = cell_view T' nt tgt (ep_cell (dst_on d rt))" if "rt \<in> set ?R" for rt
    using drop_target_ok(2) [OF fit(2) tensors(4) on(5) [OF that] wire(2)] .
  have stays: "read_view (cell_view T' nt tgt idx) m1' = read_view (cell_view T' nt tgt idx) m'"
    if "in_shape nt idx" "idx \<notin> set (map (\<lambda>rt. ep_cell (dst_on d rt)) ?R)" for idx
  proof (rule only_regions_read [OF run(4)])
    show "v_storage (cell_view T' nt tgt idx) < m_next m'" using cell_view_facts(2) [OF fit(2) tensors(4) that(1)] .
    show "\<forall>c \<in> set (map ?drop ?R). apart (cell_view T' nt tgt idx) (dst_region T' c)"
      using cell_views_apart [OF fit(2) tensors(4) that(1) on(5)] that(2) reg by auto
  qed
  have "m_data m1' k i = m_data m' k i" if "k < m_next m'" "k \<noteq> v_storage (to_view T' tgt)" for k i
    using run(4) that reg cell_view_facts(1) [OF fit(2) tensors(4) on(5)] by (auto simp: only_regions_def elsewhere_def)
  then show ?thesis using chunks run(1,2) got stays by blast
qed


definition swap_routes :: "route list" where
  "swap_routes = [\<lparr>r_src = \<lparr>ep_rank = 0, ep_cell = [0]\<rparr>, r_dsts = [\<lparr>ep_rank = 1, ep_cell = [1]\<rparr>], r_kind = P2P\<rparr>,
     \<lparr>r_src = \<lparr>ep_rank = 0, ep_cell = [1]\<rparr>, r_dsts = [\<lparr>ep_rank = 1, ep_cell = [0]\<rparr>], r_kind = P2P\<rparr>]"

definition swap_map :: m2m_map where
  "swap_map = \<lparr>m2m_routes = Some swap_routes, m2m_source_num_slicers = Some [2], m2m_target_num_slicers = Some [2], m2m_source_partial_reductions = []\<rparr>"

lemma swap_facts:
  "side_fits [2] (plain_tensor i [4] 2)" "cells_fit r [2] [2] swap_routes" "channel_routes 0 [1] P2P swap_routes = swap_routes"
  "distinct (map (\<lambda>rt. ep_cell (dst_on 1 rt)) swap_routes)" "cell_shape [2] (plain_tensor i [4] 2) = [2]"
proof -
  show "channel_routes 0 [1] P2P swap_routes = swap_routes" "distinct (map (\<lambda>rt. ep_cell (dst_on 1 rt)) swap_routes)" by code_simp+
qed (simp_all add: side_fits_def plain_tensor_def cells_fit_def swap_routes_def in_shape_def cell_shape_def extend_slicers_def)

theorem routes_delivered_witness:
  "\<exists>cs cs' m1 m1'. fst (m2m_to_chunks swap_map 0 (Some (plain_tensor 0 [4] 2)) None None None pg_init) = Inr cs \<and>
     fst (m2m_to_chunks swap_map 1 None (Some (plain_tensor 1 [4] 2)) None None pg_init) = Inr cs' \<and>
     run_channel sample_torch sample_torch None None pg_init (zip (filter (on_channel (0, [1], [], [], P2P)) (chunk_to_bucket_ops cs 100))
       (filter (on_channel (0, [1], [], [], P2P)) (chunk_to_bucket_ops cs' 100))) (sample_memory, sample_memory) = Inr (m1, m1') \<and>
     read_view (cell_view sample_torch [2] (plain_tensor 1 [4] 2) [1]) m1' = [0, 1, 2, 3]"
proof -
  let ?s = "plain_tensor 0 [4] 2" and ?t = "plain_tensor 1 [4] 2"
  have ok: "tensor_ok sample_torch sample_memory ?s" "tensor_ok sample_torch sample_memory ?t" by (simp_all add: sample_tensor_ok)
  have wire: "chunk_wire_dtype None ?s = t_dtype ?t" "chunk_wire_dtype None ?t = t_dtype ?t" by (simp_all add: chunk_wire_dtype_def plain_tensor_def)
  have route: "swap_routes ! 0 \<in> set (channel_routes 0 [1] P2P swap_routes)" by code_simp
  have dst: "\<lparr>ep_rank = 1, ep_cell = [1]\<rparr> \<in> set (r_dsts (swap_routes ! 0))" "ep_cell (r_src (swap_routes ! 0)) = [0]" by code_simp+
  have bytes: "cell_bytes sample_torch sample_memory [2] ?s None (t_dtype ?t) [0] = [0, 1, 2, 3]" by code_simp
  have m: "m2m_routes swap_map = Some swap_routes" "m2m_source_num_slicers swap_map = Some [2]" "m2m_target_num_slicers swap_map = Some [2]"
    by (simp_all add: swap_map_def)
  have shape: "cell_shape [2] ?s = cell_shape [2] ?t" "cell_shape [2] ?t \<noteq> []" by (simp_all add: swap_facts(5))
  have groups: "\<forall>gs. (None :: partial_groups option) = Some gs \<longrightarrow> set (map snd gs) \<subseteq> set reduce_ops" by simp
  have dist: "distinct (map (\<lambda>rt. ep_cell (dst_on 1 rt)) (channel_routes 0 [1] P2P swap_routes))" using swap_facts(3,4) by simp
  obtain cs cs' m1 m1' where r: "fst (m2m_to_chunks swap_map 0 (Some ?s) None None None pg_init) = Inr cs"
    "fst (m2m_to_chunks swap_map 1 None (Some ?t) None None pg_init) = Inr cs'"
    "run_channel sample_torch sample_torch None None pg_init (zip (filter (on_channel (0, [1], [], [], P2P)) (chunk_to_bucket_ops cs 100))
       (filter (on_channel (0, [1], [], [], P2P)) (chunk_to_bucket_ops cs' 100))) (sample_memory, sample_memory) = Inr (m1, m1')"
    "\<forall>rt \<in> set (channel_routes 0 [1] P2P swap_routes). \<forall>e \<in> set (r_dsts rt). ep_rank e = 1 \<longrightarrow>
       read_view (cell_view sample_torch [2] ?t (ep_cell e)) m1' = cell_bytes sample_torch sample_memory [2] ?s None (t_dtype ?t) (ep_cell (r_src rt))"
    using routes_delivered [OF m swap_facts(1) swap_facts(1) swap_facts(2) swap_facts(2) sample_torch_ok sample_torch_ok ok shape(1,2) wire groups, of 1 "[1]" P2P 0
        pg_init None pg_init None None pg_init 100] dist by auto
  then have "read_view (cell_view sample_torch [2] ?t (ep_cell \<lparr>ep_rank = 1, ep_cell = [1]\<rparr>)) m1' = [0, 1, 2, 3]"
    using route dst bytes by fastforce
  then show ?thesis using r by auto
qed

end
