(* ===== verification/Redistribution.thy ===== *)
theory Redistribution
  imports M2M_Map Route_Delivery
begin

text \<open>
  The whole path, from the layouts of the two sides to the bytes in a target tensor: the
  mesh-to-mesh map, the chunks every rank builds from it, the buckets, and the buckets of all
  senders arriving at one target rank, their channels interleaved in any order.
\<close>

section \<open>Receiving from many senders\<close>

text \<open>
  A rank goes through its receiving buckets; each takes the next bucket its channel carries. A
  channel whose queue is empty would leave the receive unanswered, which ends in the
  collective's time-out.
\<close>

fun take_in ::
  "(nat \<Rightarrow> torch) \<Rightarrow> torch \<Rightarrow> device option \<Rightarrow> device option \<Rightarrow> pg_state \<Rightarrow> bucket list \<Rightarrow> (channel_key \<Rightarrow> bucket list) \<Rightarrow>
   (nat \<Rightarrow> memory) \<times> memory \<Rightarrow> ((channel_key \<Rightarrow> bucket list) \<times> (nat \<Rightarrow> memory) \<times> memory) result" where
  "take_in T T' dev dev' pg [] sent mm = Inr (sent, mm)"
| "take_in T T' dev dev' pg (b' # bs') sent mm =
     res_bind (Bucket_key b') (\<lambda>k.
       case sent k of [] \<Rightarrow> Inl TimeoutError
       | b # rest \<Rightarrow>
           res_bind (pass_bucket (T (fst k)) T' dev dev' pg (b, b') (fst mm (fst k), snd mm)) (\<lambda>(m1, m1').
             take_in T T' dev dev' pg bs' (sent(k := rest)) ((fst mm)(fst k := m1), m1')))"

text \<open>The buckets of the two ends of a channel fit each other, one by one.\<close>

definition meets :: "bucket \<Rightarrow> bucket \<Rightarrow> bool" where
  "meets b b' \<longleftrightarrow> b = Bucket (b_chunks b) \<and> b' = Bucket (b_chunks b') \<and> b_chunks b \<noteq> [] \<and>
     list_all2 same_wire (b_chunks b) (b_chunks b')"

definition receivable :: "torch \<Rightarrow> memory \<Rightarrow> bucket \<Rightarrow> bool" where
  "receivable T' m' b' \<longleftrightarrow> lands (b_chunks b') \<and> (\<forall>c \<in> set (b_chunks b'). target_ok T' m' c \<and> receiving c)"

abbreviation landing_zone :: "bucket list \<Rightarrow> chunk list" where
  "landing_zone bs' \<equiv> concat (map b_chunks bs')"

lemma take_in_delivers:
  assumes T: "\<And>k. k \<in> K \<Longrightarrow> torch_ok (T (fst k))" "torch_ok T'"
  shows "\<forall>k \<in> K. list_all2 meets (sent k) (filter (on_channel k) bs') \<Longrightarrow> \<forall>b' \<in> set bs'. \<exists>k \<in> K. on_channel k b' \<Longrightarrow>
    \<forall>k \<in> K. \<forall>b \<in> set (sent k). \<forall>c \<in> set (b_chunks b). source_ok (T (fst k)) (ms (fst k)) c \<Longrightarrow>
    \<forall>b' \<in> set bs'. receivable T' m' b' \<Longrightarrow> regions_apart T' (landing_zone bs') \<Longrightarrow>
    \<exists>sent1 ms1 m1'. take_in T T' dev dev' pg bs' sent (ms, m') = Inr (sent1, ms1, m1') \<and> (\<forall>k \<in> K. sent1 k = []) \<and> (\<forall>s. kept (ms s) (ms1 s)) \<and>
      (\<forall>k \<in> K. \<forall>(b, b') \<in> set (zip (sent k) (filter (on_channel k) bs')). arrived (T (fst k)) T' (ms (fst k)) m1' (zip (b_chunks b) (b_chunks b'))) \<and>
      only_regions T' (landing_zone bs') m' m1'"
proof (induction bs' arbitrary: sent ms m')
  case (Cons b' bs')
  obtain k where k: "k \<in> K" "on_channel k b'" using Cons.prems(2) by auto
  obtain b rest where b: "sent k = b # rest" "meets b b'" "list_all2 meets rest (filter (on_channel k) bs')"
    using bspec [OF Cons.prems(1) k(1)] k(2) by (auto simp: list_all2_Cons2)
  let ?s = "fst k" and ?sent = "sent(k := rest)"
  have z: "regions_apart T' (b_chunks b')" "regions_apart T' (landing_zone bs')"
    "\<forall>c \<in> set (b_chunks b'). \<forall>d \<in> set (landing_zone bs'). apart (dst_region T' c) (dst_region T' d)"
    using Cons.prems(5) by (auto simp: regions_apart_def sorted_wrt_append)
  have sb: "\<forall>c \<in> set (b_chunks b). source_ok (T ?s) (ms ?s) c" using Cons.prems(3) k(1) b(1) by auto
  have rb: "lands (b_chunks b')" "\<forall>c \<in> set (b_chunks b'). target_ok T' m' c \<and> receiving c" using Cons.prems(4) by (auto simp: receivable_def)
  have eq: "b = Bucket (b_chunks b)" "b' = Bucket (b_chunks b')" using b(2) by (auto simp: meets_def)
  obtain m1 m1' where p: "pass_bucket (T ?s) T' dev dev' pg (b, b') (ms ?s, m') = Inr (m1, m1')" "kept (ms ?s) m1"
    "arrived (T ?s) T' (ms ?s) m1' (zip (b_chunks b) (b_chunks b'))" "only_regions T' (b_chunks b') m' m1'"
    using pass_bucket_delivers [OF T(1) [OF k(1)] T(2), of "b_chunks b" "b_chunks b'" "ms ?s" m' dev dev' pg] b(2) sb rb z(1) eq
    by (metis meets_def)
  let ?ms = "ms(?s := m1)"
  have keep: "kept (ms s) (?ms s)" for s using p(2) by simp
  have "list_all2 meets (?sent j) (filter (on_channel j) bs')" if "j \<in> K" for j
    using bspec [OF Cons.prems(1) that] b(3) k(2) by (auto split: if_splits)
  then have fit: "\<forall>j \<in> K. list_all2 meets (?sent j) (filter (on_channel j) bs')" by blast
  have "\<forall>c \<in> set (b_chunks a). source_ok (T (fst j)) (?ms (fst j)) c" if "j \<in> K" "a \<in> set (?sent j)" for j a
  proof -
    have "a \<in> set (sent j)" using that b(1) by (auto split: if_splits)
    then show ?thesis using Cons.prems(3) that(1) source_kept [OF keep] by blast
  qed
  then have src: "\<forall>j \<in> K. \<forall>a \<in> set (?sent j). \<forall>c \<in> set (b_chunks a). source_ok (T (fst j)) (?ms (fst j)) c" by blast
  have tgt: "\<forall>b' \<in> set bs'. receivable T' m1' b'"
    using Cons.prems(4) target_kept [of T' m' _ m1'] p(4) by (auto simp: receivable_def only_regions_def)
  have keys: "\<forall>b' \<in> set bs'. \<exists>k \<in> K. on_channel k b'" using Cons.prems(2) by simp
  obtain sent1 ms1 m2' where q: "take_in T T' dev dev' pg bs' ?sent (?ms, m1') = Inr (sent1, ms1, m2')" "\<forall>k \<in> K. sent1 k = []"
    "\<forall>s. kept (?ms s) (ms1 s)"
    "\<forall>k \<in> K. \<forall>(b, b') \<in> set (zip (?sent k) (filter (on_channel k) bs')). arrived (T (fst k)) T' (?ms (fst k)) m2' (zip (b_chunks b) (b_chunks b'))"
    "only_regions T' (landing_zone bs') m1' m2'"
    using Cons.IH [OF fit keys src tgt z(2)] by blast
  have run: "take_in T T' dev dev' pg (b' # bs') sent (ms, m') = Inr (sent1, ms1, m2')" using k(2) b(1) p(1) q(1) by simp
  have first: "arrived (T ?s) T' (ms ?s) m2' (zip (b_chunks b) (b_chunks b'))"
  proof -
    have "read_view (dst_region T' c') m2' = read_view (dst_region T' c') m1'" if "c' \<in> set (b_chunks b')" for c'
    proof (rule only_regions_read [OF q(5)])
      have "v_storage (dst_region T' c') < m_next m'" using rb(2) that dst_region_facts(3) by auto
      then show "v_storage (dst_region T' c') < m_next m1'" using p(4) by (simp add: only_regions_def)
    qed (use z(3) that in blast)
    then show ?thesis using p(3) set_zip_rightD by (fastforce simp: arrived_def)
  qed
  have later: "arrived (T (fst j)) T' (ms (fst j)) m2' (zip (b_chunks a) (b_chunks a'))"
    if "j \<in> K" "(a, a') \<in> set (zip (?sent j) (filter (on_channel j) bs'))" for j a a'
  proof -
    have "a \<in> set (sent j)" using set_zip_leftD [OF that(2)] b(1) by (auto split: if_splits)
    then have "\<forall>c \<in> set (b_chunks a). wire_bytes (T (fst j)) (?ms (fst j)) c = wire_bytes (T (fst j)) (ms (fst j)) c"
      using Cons.prems(3) that(1) wire_bytes_kept [OF keep] by blast
    moreover have "arrived (T (fst j)) T' (?ms (fst j)) m2' (zip (b_chunks a) (b_chunks a'))" using q(4) that by blast
    ultimately show ?thesis using set_zip_leftD by (fastforce simp: arrived_def)
  qed
  have "arrived (T (fst j)) T' (ms (fst j)) m2' (zip (b_chunks a) (b_chunks a'))"
    if "j \<in> K" "(a, a') \<in> set (zip (sent j) (filter (on_channel j) (b' # bs')))" for j a a'
    using later [OF that(1), of a a'] first that(2) k(2) b(1) by (cases "j = k") auto
  moreover have "kept (ms s) (ms1 s)" for s using kept_trans [OF keep] q(3) by blast
  moreover have "only_regions T' (landing_zone (b' # bs')) m' m2'" using only_regions_trans [OF p(4) q(5)] by simp
  ultimately show ?case using run q(2) by blast
qed (auto simp: only_regions_def)

section \<open>The routes of a computed map\<close>

text \<open>Both sides of a redistribution and what PyTorch documents of them, as the trace needs it.\<close>

definition layouts_ok ::
  "dtensor_api \<Rightarrow> (nat \<Rightarrow> nat list \<Rightarrow> nat list) \<Rightarrow> (nat \<Rightarrow> nat list \<Rightarrow> nat list) \<Rightarrow> device_mesh \<Rightarrow> placement list \<Rightarrow>
   device_mesh \<Rightarrow> placement list \<Rightarrow> nat list \<Rightarrow> grid_plan \<Rightarrow> bool" where
  "layouts_ok api spos tpos smesh spl tmesh tpl grp plan \<longleftrightarrow>
     m2m_plan (source_side smesh spl) (target_side tmesh tpl) = Inr plan \<and> mesh_ok smesh \<and> distinct grp \<and> set (mesh_ranks tmesh) \<subseteq> set grp \<and>
     dtensor_ok api spos (source_side smesh spl) (middle_shape plan) (source_slicers plan) \<and>
     dtensor_ok api tpos (target_side tmesh tpl) (middle_shape plan) (target_slicers plan) \<and>
     (\<forall>r \<in> set (mesh_ranks smesh). (r + 1) * tag_base plan ^ length (middle_shape plan) \<le> 2 ^ 24) \<and>
     (\<forall>q \<in> set (mesh_ranks tmesh). inj_on (tpos q) {x. in_shape (target_slicers plan) x})"

lemma distinct_count: "(\<And>x. count_list xs x \<le> 1) \<Longrightarrow> distinct xs"
proof (induction xs)
  case (Cons a xs)
  have "count_list xs a = 0" using Cons.prems [of a] by simp
  moreover have "count_list xs x \<le> 1" for x using Cons.prems [of x] by (simp split: if_splits)
  ultimately show ?case using Cons.IH by (simp add: count_list_0_iff)
qed simp

lemma count_on_rank: "count_list (map ep_cell (filter (\<lambda>e. ep_rank e = d) es)) x = count_list (map endpoint_pair es) (d, x)"
  by (induction es) (auto simp: endpoint_pair_def)

lemma length_le_1_if_same:
  assumes "distinct xs" "\<And>x y. x \<in> set xs \<Longrightarrow> y \<in> set xs \<Longrightarrow> x = y"
  shows "length xs \<le> 1"
proof (cases xs)
  case (Cons x ys)
  then have "ys = []" using assms(1) assms(2) [of x "hd ys"] by (cases ys) auto
  then show ?thesis using Cons by simp
qed simp

lemma computed_routes:
  assumes m: "get_m2m_map api smesh spl tmesh tpl grp = Inr m2m" and ok: "layouts_ok api spos tpos smesh spl tmesh tpl grp plan"
  obtains rts where "m2m_routes m2m = Some rts" "m2m_source_num_slicers m2m = Some (source_slicers plan)" "m2m_target_num_slicers m2m = Some (target_slicers plan)"
    "\<And>r. cells_fit r (source_slicers plan) (target_slicers plan) rts"
    "\<And>rt e. rt \<in> set rts \<Longrightarrow> e \<in> set (r_dsts rt) \<Longrightarrow>
       ep_rank (r_src rt) \<in> set (mesh_ranks smesh) \<and> spos (ep_rank (r_src rt)) (ep_cell (r_src rt)) = tpos (ep_rank e) (ep_cell e) \<and> r_kind rt \<in> {P2P, BROADCAST}"
    "\<And>d x. d \<in> set (mesh_ranks tmesh) \<Longrightarrow> in_shape (target_slicers plan) x \<Longrightarrow> \<exists>rt \<in> set rts. \<exists>e \<in> set (r_dsts rt). ep_rank e = d \<and> ep_cell e = x"
    "\<And>d. distinct (map ep_cell (filter (\<lambda>e. ep_rank e = d) (concat (map r_dsts rts))))"
proof -
  let ?ns = "source_slicers plan" and ?nt = "target_slicers plan"
  have plan: "m2m_plan (source_side smesh spl) (target_side tmesh tpl) = Inr plan" and mesh: "mesh_ok smesh" and grp: "distinct grp" "set (mesh_ranks tmesh) \<subseteq> set grp"
    and src: "dtensor_ok api spos (source_side smesh spl) (middle_shape plan) ?ns" and tgt: "dtensor_ok api tpos (target_side tmesh tpl) (middle_shape plan) ?nt"
    and small: "\<forall>r \<in> set (mesh_ranks smesh). (r + 1) * tag_base plan ^ length (middle_shape plan) \<le> 2 ^ 24"
    and inj: "\<And>q. q \<in> set (mesh_ranks tmesh) \<Longrightarrow> inj_on (tpos q) {x. in_shape ?nt x}"
    using ok by (simp_all add: layouts_ok_def)
  obtain rts where r: "m2m_routes m2m = Some rts"
    and right: "\<And>rt e. rt \<in> set rts \<Longrightarrow> e \<in> set (r_dsts rt) \<Longrightarrow>
       ep_rank (r_src rt) \<in> set (mesh_ranks smesh) \<and> in_shape ?ns (ep_cell (r_src rt)) \<and>
       ep_rank e \<in> set (mesh_ranks tmesh) \<and> in_shape ?nt (ep_cell e) \<and>
       spos (ep_rank (r_src rt)) (ep_cell (r_src rt)) = tpos (ep_rank e) (ep_cell e)"
    and once: "\<And>q d. q \<in> set (mesh_ranks tmesh) \<Longrightarrow> in_shape ?nt d \<Longrightarrow> count_list (map endpoint_pair (concat (map r_dsts rts))) (q, d) = 1"
    using m2m_routes_exact [OF m plan mesh grp src tgt small] by blast
  have nums: "m2m_source_num_slicers m2m = Some ?ns" "m2m_target_num_slicers m2m = Some ?nt"
    using m plan by (auto simp: get_m2m_map_def Let_def res_simps split: if_splits)
  have mk: "\<exists>l. rt = mk_route (fst (route_key rt)) (snd (route_key rt)) l" if "rt \<in> set rts" for rt
  proof -
    obtain rts' where "m2m_routes m2m = Some rts'" "\<And>rt. rt \<in> set rts' \<Longrightarrow> \<exists>l. rt = mk_route (fst (route_key rt)) (snd (route_key rt)) l"
      using get_m2m_map_routes [OF m plan mesh] by metis
    then show ?thesis using r that by simp
  qed
  have kind: "r_kind rt = (if r_dsts rt = [] then NONE else if length (r_dsts rt) = 1 then P2P else BROADCAST)" if "rt \<in> set rts" for rt
    using mk [OF that] mk_route_kind by metis
  have dist: "distinct (map ep_cell (filter (\<lambda>e. ep_rank e = d) (concat (map r_dsts rts))))" (is "distinct ?xs") for d
  proof (rule distinct_count)
    fix x show "count_list ?xs x \<le> 1"
    proof (cases "x \<in> set ?xs")
      case True
      then obtain rt e where "rt \<in> set rts" "e \<in> set (r_dsts rt)" "ep_rank e = d" "ep_cell e = x" by auto
      then show ?thesis using right [of rt e] once [of d x] by (simp add: count_on_rank)
    qed (simp add: count_list_0_iff)
  qed
  have fit: "cells_fit q ?ns ?nt rts" for q
    unfolding cells_fit_def
  proof (intro ballI conjI impI)
    fix rt assume rt: "rt \<in> set rts"
    obtain s where "cell_targets api (source_side smesh spl) (target_side tmesh tpl) plan grp s (ep_cell (r_src rt)) \<noteq> []"
      using m2m_route_cells [OF m plan mesh r rt] ..
    then obtain q' d' where "(q', d') \<in> set (cell_targets api (source_side smesh spl) (target_side tmesh tpl) plan grp s (ep_cell (r_src rt)))"
      using last_in_set by (metis prod.collapse)
    then have q': "q' \<in> set (mesh_ranks tmesh)" "traced_source api (source_side smesh spl) (target_side tmesh tpl) (middle_shape plan) (tag_base plan) q' d' = (s, ep_cell (r_src rt))"
      "in_shape ?nt d'"
      using target_shard_shape [OF _ src tgt, of q'] mesh by (auto simp: cell_targets_set mesh_ok_def)
    have "mesh_ranks (side_mesh (source_side smesh spl)) \<noteq> []" "\<forall>r \<in> set (mesh_ranks (side_mesh (source_side smesh spl))). (r + 1) * tag_base plan ^ length (middle_shape plan) \<le> 2 ^ 24"
      "q' \<in> set (mesh_ranks (side_mesh (target_side tmesh tpl)))" using mesh small q'(1) by (simp_all add: mesh_ok_def)
    then show "in_shape ?ns (ep_cell (r_src rt))" using traced_cell [OF plan _ src tgt _ _ q'(3)] q'(2) by (metis prod.inject)
    show "r_kind rt \<noteq> LOCAL" using kind [OF rt] by (simp split: if_splits)
    show "in_shape ?nt (ep_cell e)" if "e \<in> set (r_dsts rt)" "ep_rank e = q" for e using right [OF rt] that by blast
    let ?es = "filter (\<lambda>e. ep_rank e = q) (r_dsts rt)"
    have same: "e = e'" if "e \<in> set ?es" "e' \<in> set ?es" for e e'
    proof -
      have "ep_rank e = q" "ep_rank e' = q" "e \<in> set (r_dsts rt)" "e' \<in> set (r_dsts rt)" using that by simp_all
      moreover from this have "ep_cell e = ep_cell e'" using right [OF rt] inj_onD [OF inj] by (metis mem_Collect_eq)
      ultimately show ?thesis by simp
    qed
    obtain a c where "rts = a @ rt # c" using rt by (meson split_list)
    then have "distinct ?es" using dist [of q] by (simp add: distinct_map)
    then show "length ?es \<le> 1" using same by (rule length_le_1_if_same)
  qed
  show thesis
  proof (rule that [OF r nums fit _ _ dist])
    fix rt e assume rt: "rt \<in> set rts" "e \<in> set (r_dsts rt)"
    have "r_kind rt \<in> {P2P, BROADCAST}" using kind [OF rt(1)] rt(2) by (auto split: if_splits)
    then show "ep_rank (r_src rt) \<in> set (mesh_ranks smesh) \<and> spos (ep_rank (r_src rt)) (ep_cell (r_src rt)) = tpos (ep_rank e) (ep_cell e) \<and> r_kind rt \<in> {P2P, BROADCAST}"
      using right [OF rt] by blast
  next
    fix d x assume "d \<in> set (mesh_ranks tmesh)" "in_shape ?nt x"
    then have "(d, x) \<in> set (map endpoint_pair (concat (map r_dsts rts)))" using once by (metis count_list_0_iff zero_neq_one)
    then show "\<exists>rt \<in> set rts. \<exists>e \<in> set (r_dsts rt). ep_rank e = d \<and> ep_cell e = x" by (auto simp: endpoint_pair_def)
  qed
qed

section \<open>All channels into one rank\<close>

definition reaches :: "nat \<Rightarrow> route \<Rightarrow> bool" where
  "reaches d rt \<longleftrightarrow> d \<in> set (route_dst_ranks rt)"

text \<open>What the senders hand to a channel, in order: the receiver's key names the sender, the sender's own key also its Partial groups.\<close>

definition outbox :: "(nat \<Rightarrow> partial_groups option) \<Rightarrow> (nat \<Rightarrow> chunk list) \<Rightarrow> nat \<Rightarrow> channel_key \<Rightarrow> bucket list" where
  "outbox pgs cs n k =
     (case k of (s, D, _, _, kind) \<Rightarrow> filter (on_channel (s, D, signature (pgs s), [], kind)) (chunk_to_bucket_ops (cs s) n))"

abbreviation shipped :: "nat list \<Rightarrow> (nat \<Rightarrow> tensor) \<Rightarrow> dtype option \<Rightarrow> (nat \<Rightarrow> partial_groups option) \<Rightarrow> route list \<Rightarrow> nat \<Rightarrow> chunk list" where
  "shipped ns src td pgs rts s \<equiv> map (ship_chunk ns (src s) td (pgs s)) (filter (\<lambda>rt. ep_rank (r_src rt) = s) rts)"

abbreviation dropped :: "nat list \<Rightarrow> tensor \<Rightarrow> dtype option \<Rightarrow> route list \<Rightarrow> nat \<Rightarrow> chunk list" where
  "dropped nt tgt td rts d \<equiv> concat (map (\<lambda>rt. map (drop_chunk nt tgt td rt) (filter (\<lambda>e. ep_rank e = d) (r_dsts rt))) rts)"

lemma concat_map_singleton_if: "concat (map (\<lambda>x. if P x then [f x] else []) xs) = map f (filter P xs)"
  by (induction xs) simp_all

lemma reaches_on:
  assumes "reaches d rt" "rt \<in> set rts" "cells_fit d ns nt rts"
  shows "filter (\<lambda>e. ep_rank e = d) (r_dsts rt) = [dst_on d rt]" "dst_on d rt \<in> set (r_dsts rt)" "ep_rank (dst_on d rt) = d"
    "in_shape nt (ep_cell (dst_on d rt))" "e \<in> set (r_dsts rt) \<Longrightarrow> ep_rank e = d \<Longrightarrow> e = dst_on d rt"
proof -
  have "rt \<in> set (channel_routes (ep_rank (r_src rt)) (route_dst_ranks rt) (r_kind rt) rts)" "d \<in> set (route_dst_ranks rt)"
    using assms(1,2) by (simp_all add: channel_routes_def reaches_def)
  note on = dst_on_facts [OF this assms(3)]
  show "filter (\<lambda>e. ep_rank e = d) (r_dsts rt) = [dst_on d rt]" "dst_on d rt \<in> set (r_dsts rt)" "ep_rank (dst_on d rt) = d"
    "in_shape nt (ep_cell (dst_on d rt))" "e \<in> set (r_dsts rt) \<Longrightarrow> ep_rank e = d \<Longrightarrow> e = dst_on d rt"
    by (fact on(1) on(2) on(3) on(5) on(4))+
qed

lemma unreached: "\<not> reaches d rt \<Longrightarrow> filter (\<lambda>e. ep_rank e = d) (r_dsts rt) = []"
  by (auto simp: reaches_def route_dst_ranks_def filter_empty_conv)

lemma on_rank_list:
  assumes "cells_fit d ns nt rts"
  shows "concat (map (\<lambda>rt. map (f rt) (filter (\<lambda>e. ep_rank e = d) (r_dsts rt))) rts) = map (\<lambda>rt. f rt (dst_on d rt)) (filter (reaches d) rts)"
proof -
  have "map (f rt) (filter (\<lambda>e. ep_rank e = d) (r_dsts rt)) = (if reaches d rt then [f rt (dst_on d rt)] else [])" if "rt \<in> set rts" for rt
    using reaches_on(1) [OF _ that assms] unreached by simp
  then have "concat (map (\<lambda>rt. map (f rt) (filter (\<lambda>e. ep_rank e = d) (r_dsts rt))) rts) = concat (map (\<lambda>rt. if reaches d rt then [f rt (dst_on d rt)] else []) rts)"
    by (intro arg_cong [of _ _ concat] map_cong) auto
  then show ?thesis by (simp add: concat_map_singleton_if)
qed

lemma outbox_packed:
  assumes "d \<in> set D"
  shows "outbox pgs (shipped ns src td pgs rts) n (s, D, [], [], kind) = map Bucket (pack n [] (map (ship_chunk ns (src s) td (pgs s)) (channel_routes s D kind rts)))"
proof -
  have "D \<noteq> []" using assms by auto
  then show ?thesis using ops_channel sender_channel [OF _ refl] by (simp add: outbox_def make_bucket_def [abs_def])
qed

lemma inbox_packed:
  assumes "d \<in> set D" "cells_fit d ns nt rts"
  shows "filter (on_channel (s, D, [], [], kind)) (chunk_to_bucket_ops (dropped nt tgt td rts d) n) =
    map Bucket (pack n [] (map (\<lambda>rt. drop_chunk nt tgt td rt (dst_on d rt)) (channel_routes s D kind rts)))"
  using ops_channel receiver_channel [OF assms] by (simp add: make_bucket_def [abs_def])

lemma packed_meet:
  assumes "list_all2 same_wire cs cs'"
  shows "list_all2 meets (map Bucket (pack n [] cs)) (map Bucket (pack n [] cs'))"
    "(c, c') \<in> set (zip cs cs') \<Longrightarrow>
      \<exists>b b'. (b, b') \<in> set (zip (map Bucket (pack n [] cs)) (map Bucket (pack n [] cs'))) \<and> (c, c') \<in> set (zip (b_chunks b) (b_chunks b'))"
proof -
  let ?B = "pack n [] cs" and ?B' = "pack n [] cs'"
  have w: "list_all2 (list_all2 same_wire) ?B ?B'" and z: "mset (concat (map2 zip ?B ?B')) = mset (zip cs cs')"
    using pack_pairs [OF assms, of "[]" "[]" n] by simp_all
  have "meets (Bucket (?B ! i)) (Bucket (?B' ! i))" if "i < length ?B" for i
    using w that pack_nonempty [of "?B ! i" n "[]" cs] by (simp add: meets_def list_all2_conv_all_nth)
  then show "list_all2 meets (map Bucket ?B) (map Bucket ?B')" using list_all2_lengthD [OF w] by (simp add: list_all2_conv_all_nth)
  assume "(c, c') \<in> set (zip cs cs')"
  then have "(c, c') \<in> set (concat (map2 zip ?B ?B'))" using z by (metis set_mset_mset)
  then obtain x y where xy: "(x, y) \<in> set (zip ?B ?B')" "(c, c') \<in> set (zip x y)" by auto
  have "(Bucket x, Bucket y) \<in> set (zip (map Bucket ?B) (map Bucket ?B'))" using xy(1) by (force simp: zip_map_map)
  then show "\<exists>b b'. (b, b') \<in> set (zip (map Bucket ?B) (map Bucket ?B')) \<and> (c, c') \<in> set (zip (b_chunks b) (b_chunks b'))"
    using xy(2) by (intro exI [of _ "Bucket x"] exI [of _ "Bucket y"]) simp
qed

lemma packed_chunks: "b \<in> set (map Bucket (pack n [] cs)) \<Longrightarrow> c \<in> set (b_chunks b) \<Longrightarrow> c \<in> set cs"
proof -
  assume "b \<in> set (map Bucket (pack n [] cs))" "c \<in> set (b_chunks b)"
  then have "c \<in> set (concat (pack n [] cs))" by auto
  moreover have "mset (concat (pack n [] cs)) = mset cs" using pack_mset [of n "[]"] by simp
  ultimately show ?thesis by (metis set_mset_mset)
qed

lemma landing_zone_cong: "mset bs = mset bs' \<Longrightarrow> mset (landing_zone bs) = mset (landing_zone bs')"
proof -
  have "mset (landing_zone xs) = sum_mset (image_mset (\<lambda>b. mset (b_chunks b)) (mset xs))" for xs by (induction xs) simp_all
  then show "mset bs = mset bs' \<Longrightarrow> ?thesis" by simp
qed

lemma ops_facts:
  "mset (landing_zone (chunk_to_bucket_ops cs n)) = mset cs" "b \<in> set (chunk_to_bucket_ops cs n) \<Longrightarrow> uniform b"
proof -
  let ?st = "fold (bucket_step n) cs ([], [])"
  have "state_ok ([], [])" by (simp add: state_ok_def open_ok_def)
  from pass_ok [OF this, of n cs] have st: "state_ok ?st" "state_chunks ?st = mset cs" by (simp_all add: state_chunks_def)
  show "mset (landing_zone (chunk_to_bucket_ops cs n)) = mset cs" using flush_ok(1) [OF st(1)] st(2) by (simp add: chunk_to_bucket_ops_def)
  show "b \<in> set (chunk_to_bucket_ops cs n) \<Longrightarrow> uniform b" using flush_ok(2) [OF st(1)] by (simp add: chunk_to_bucket_ops_def)
qed

text \<open>What a sender and the receiver bring: live tensors cut into cells of one shape, and the target's dtype on the wire.\<close>

definition sender_ready :: "torch \<Rightarrow> memory \<Rightarrow> nat list \<Rightarrow> tensor \<Rightarrow> dtype option \<Rightarrow> partial_groups option \<Rightarrow> nat list \<Rightarrow> tensor \<Rightarrow> bool" where
  "sender_ready T m ns src td pgs nt tgt \<longleftrightarrow> torch_ok T \<and> tensor_ok T m src \<and> side_fits ns src \<and> cell_shape ns src = cell_shape nt tgt \<and>
     chunk_wire_dtype td src = t_dtype tgt \<and> (\<forall>gs. pgs = Some gs \<longrightarrow> set (map snd gs) \<subseteq> set reduce_ops)"

definition receiver_ready :: "torch \<Rightarrow> memory \<Rightarrow> nat list \<Rightarrow> tensor \<Rightarrow> dtype option \<Rightarrow> bool" where
  "receiver_ready T m nt tgt td \<longleftrightarrow> torch_ok T \<and> tensor_ok T m tgt \<and> side_fits nt tgt \<and> cell_shape nt tgt \<noteq> [] \<and> chunk_wire_dtype td tgt = t_dtype tgt"

definition dropped_at :: "torch \<Rightarrow> memory \<Rightarrow> nat list \<Rightarrow> tensor \<Rightarrow> dtype option \<Rightarrow> nat \<Rightarrow> route \<Rightarrow> chunk \<Rightarrow> bool" where
  "dropped_at T m nt tgt td d rt c \<longleftrightarrow> c = drop_chunk nt tgt td rt (dst_on d rt) \<and> target_ok T m c \<and> receiving c \<and>
     dst_region T c = cell_view T nt tgt (ep_cell (dst_on d rt)) \<and> (\<forall>bs. landed T c bs = bs) \<and>
     v_storage (dst_region T c) = v_storage (to_view T tgt) \<and> bucket_key c = (ep_rank (r_src rt), route_dst_ranks rt, [], [], r_kind rt)"

lemma dropped_atI:
  assumes fit: "cells_fit d ns nt rts" and kind: "r_kind rt \<in> {P2P, BROADCAST}" and r: "receiver_ready T m nt tgt td"
    and rt: "rt \<in> set rts" "reaches d rt"
  shows "dropped_at T m nt tgt td d rt (drop_chunk nt tgt td rt (dst_on d rt))"
proof -
  have r': "side_fits nt tgt" "tensor_ok T m tgt" "chunk_wire_dtype td tgt = t_dtype tgt" using r by (simp_all add: receiver_ready_def)
  have x: "in_shape nt (ep_cell (dst_on d rt))" using reaches_on(4) [OF rt(2,1) fit] .
  have "bucket_key (drop_chunk nt tgt td rt (dst_on d rt)) = (ep_rank (r_src rt), route_dst_ranks rt, [], [], r_kind rt)"
    by (simp add: bucket_key_def drop_chunk_def)
  then show ?thesis
    using drop_target_ok [OF r'(1,2) x r'(3)] cell_view_facts(1) [OF r'(1,2) x] drop_receiving [of d rt nt tgt td "dst_on d rt"] kind rt(2)
    by (simp add: dropped_at_def reaches_def)
qed

lemma receiver_buckets:
  assumes fit: "cells_fit d ns nt rts" and dist: "distinct (map ep_cell (filter (\<lambda>e. ep_rank e = d) (concat (map r_dsts rts))))"
    and kind: "\<And>rt. rt \<in> set rts \<Longrightarrow> reaches d rt \<Longrightarrow> r_kind rt \<in> {P2P, BROADCAST}" and r: "receiver_ready T m nt tgt td"
    and order: "mset bs' = mset (chunk_to_bucket_ops (dropped nt tgt td rts d) n)"
  shows "regions_apart T (landing_zone bs')"
    "c \<in> set (landing_zone bs') \<Longrightarrow> \<exists>rt \<in> set rts. reaches d rt \<and> dropped_at T m nt tgt td d rt c"
    "b' \<in> set bs' \<Longrightarrow> receivable T m b' \<and> (\<exists>c \<in> set (b_chunks b'). on_channel (bucket_key c) b')"
proof -
  let ?drop = "\<lambda>rt. drop_chunk nt tgt td rt (dst_on d rt)"
  have r': "side_fits nt tgt" "tensor_ok T m tgt" "chunk_wire_dtype td tgt = t_dtype tgt" "cell_shape nt tgt \<noteq> []" using r by (simp_all add: receiver_ready_def)
  have cs': "dropped nt tgt td rts d = map ?drop (filter (reaches d) rts)" using on_rank_list [OF fit] by blast
  have zone: "mset (landing_zone bs') = mset (map ?drop (filter (reaches d) rts))"
    using landing_zone_cong [OF order] ops_facts(1) unfolding cs' by simp
  have "distinct (map (\<lambda>rt. ep_cell (dst_on d rt)) (filter (reaches d) rts))"
    using dist on_rank_list [OF fit, of "\<lambda>_. ep_cell"] by (simp add: filter_concat map_concat comp_def)
  moreover have "\<forall>rt \<in> set (filter (reaches d) rts). in_shape nt (ep_cell (dst_on d rt))" using reaches_on(4) [OF _ _ fit] by simp
  ultimately have "regions_apart T (map ?drop (filter (reaches d) rts))" by (intro drops_apart [OF r'(1,2) _ _ r'(3)])
  then show "regions_apart T (landing_zone bs')" by (rule regions_apart_permuted [OF _ zone [symmetric]])
  have drops: "\<exists>rt \<in> set rts. reaches d rt \<and> dropped_at T m nt tgt td d rt c" if "c \<in> set (landing_zone bs')" for c
  proof -
    have "c \<in> set (map ?drop (filter (reaches d) rts))" using that by (simp only: mset_eq_setD [OF zone])
    then obtain rt where "rt \<in> set rts" "reaches d rt" "c = ?drop rt" by auto
    then show ?thesis using dropped_atI [OF fit _ r] kind by blast
  qed
  then show "c \<in> set (landing_zone bs') \<Longrightarrow> \<exists>rt \<in> set rts. reaches d rt \<and> dropped_at T m nt tgt td d rt c" .
  assume "b' \<in> set bs'"
  then have b': "b' \<in> set (chunk_to_bucket_ops (dropped nt tgt td rts d) n)" "set (b_chunks b') \<subseteq> set (landing_zone bs')"
    using mset_eq_setD [OF order] by auto
  have "lands (b_chunks b')" using drops_land [OF b'(1), of "t_dtype tgt"] r'(3,4) by (auto simp: drop_chunk_def)
  moreover have "target_ok T m c \<and> receiving c" if "c \<in> set (b_chunks b')" for c using drops b'(2) that unfolding dropped_at_def by blast
  moreover have "\<exists>c \<in> set (b_chunks b'). on_channel (bucket_key c) b'" using ops_facts(2) [OF b'(1)] by (metis uniform_def last_in_set)
  ultimately show "receivable T m b' \<and> (\<exists>c \<in> set (b_chunks b'). on_channel (bucket_key c) b')" by (simp add: receivable_def)
qed

lemma sender_buckets:
  assumes fit: "cells_fit s ns nt rts" "cells_fit d ns nt rts" and sr: "sender_ready T m ns (src s) td (pgs s) nt tgt" and r: "receiver_ready T' m' nt tgt td'"
    and D: "d \<in> set D"
  shows "list_all2 meets (outbox pgs (shipped ns src td pgs rts) n (s, D, [], [], kind))
      (filter (on_channel (s, D, [], [], kind)) (chunk_to_bucket_ops (dropped nt tgt td' rts d) n))"
    "b \<in> set (outbox pgs (shipped ns src td pgs rts) n (s, D, [], [], kind)) \<Longrightarrow> c \<in> set (b_chunks b) \<Longrightarrow> source_ok T m c"
    "rt \<in> set (channel_routes s D kind rts) \<Longrightarrow>
      wire_bytes T m (ship_chunk ns (src s) td (pgs s) rt) = cell_bytes T m ns (src s) (pgs s) (t_dtype tgt) (ep_cell (r_src rt)) \<and>
      (\<exists>b b'. (b, b') \<in> set (zip (outbox pgs (shipped ns src td pgs rts) n (s, D, [], [], kind))
        (filter (on_channel (s, D, [], [], kind)) (chunk_to_bucket_ops (dropped nt tgt td' rts d) n))) \<and>
        (ship_chunk ns (src s) td (pgs s) rt, drop_chunk nt tgt td' rt (dst_on d rt)) \<in> set (zip (b_chunks b) (b_chunks b')))"
proof -
  let ?R = "channel_routes s D kind rts"
  let ?F = "map (ship_chunk ns (src s) td (pgs s)) ?R" and ?F' = "map (\<lambda>rt. drop_chunk nt tgt td' rt (dst_on d rt)) ?R"
  have s: "side_fits ns (src s)" "tensor_ok T m (src s)" "cell_shape ns (src s) = cell_shape nt tgt" "chunk_wire_dtype td (src s) = t_dtype tgt"
    "\<forall>gs. pgs s = Some gs \<longrightarrow> set (map snd gs) \<subseteq> set reduce_ops" using sr by (simp_all add: sender_ready_def)
  have size: "0 < itemsize (chunk_wire_dtype td (src s))" using r s(4) by (auto simp: receiver_ready_def tensor_ok_def view_ok_def)
  have sw: "list_all2 same_wire ?F ?F'"
    using s(3,4) r by (simp add: receiver_ready_def list_all2_conv_all_nth same_wire_def ship_chunk_def drop_chunk_def)
  have x: "in_shape ns (ep_cell (r_src rt))" if "rt \<in> set ?R" for rt using channel_routes_facts(2) [OF that fit(1)] .
  note so = ship_source_ok [OF s(1,2) x size s(5)]
  show "list_all2 meets (outbox pgs (shipped ns src td pgs rts) n (s, D, [], [], kind))
      (filter (on_channel (s, D, [], [], kind)) (chunk_to_bucket_ops (dropped nt tgt td' rts d) n))"
    unfolding outbox_packed [OF D] inbox_packed [OF D fit(2)] by (rule packed_meet(1) [OF sw])
  show "source_ok T m c" if "b \<in> set (outbox pgs (shipped ns src td pgs rts) n (s, D, [], [], kind))" "c \<in> set (b_chunks b)"
    using packed_chunks [OF that(1) [unfolded outbox_packed [OF D]] that(2)] so(1) by auto
  assume rt: "rt \<in> set ?R"
  then have "(ship_chunk ns (src s) td (pgs s) rt, drop_chunk nt tgt td' rt (dst_on d rt)) \<in> set (zip ?F ?F')" by (auto simp: zip_map_map zip_same_conv_map)
  from packed_meet(2) [OF sw this] show "wire_bytes T m (ship_chunk ns (src s) td (pgs s) rt) = cell_bytes T m ns (src s) (pgs s) (t_dtype tgt) (ep_cell (r_src rt)) \<and>
      (\<exists>b b'. (b, b') \<in> set (zip (outbox pgs (shipped ns src td pgs rts) n (s, D, [], [], kind))
        (filter (on_channel (s, D, [], [], kind)) (chunk_to_bucket_ops (dropped nt tgt td' rts d) n))) \<and>
        (ship_chunk ns (src s) td (pgs s) rt, drop_chunk nt tgt td' rt (dst_on d rt)) \<in> set (zip (b_chunks b) (b_chunks b')))"
    unfolding outbox_packed [OF D] inbox_packed [OF D fit(2)] using so(2) [OF rt] s(4) by simp
qed

lemma all_channels_run:
  assumes fit: "\<And>r. cells_fit r ns nt rts" and dist: "distinct (map ep_cell (filter (\<lambda>e. ep_rank e = d) (concat (map r_dsts rts))))"
    and known: "\<forall>rt \<in> set rts. reaches d rt \<longrightarrow> ep_rank (r_src rt) \<in> S \<and> r_kind rt \<in> {P2P, BROADCAST}"
    and senders: "\<forall>s \<in> S. sender_ready (T s) (ms s) ns (src s) td (pgs s) nt tgt" and receiver: "receiver_ready T' m' nt tgt td'"
    and order: "mset bs' = mset (chunk_to_bucket_ops (dropped nt tgt td' rts d) n)"
      "\<forall>k. filter (on_channel k) bs' = filter (on_channel k) (chunk_to_bucket_ops (dropped nt tgt td' rts d) n)"
  shows "\<exists>sent ms1 m1'. take_in T T' dev dev' pg bs' (outbox pgs (shipped ns src td pgs rts) n) (ms, m') = Inr (sent, ms1, m1') \<and>
    (\<forall>s \<in> S. \<forall>D kind. d \<in> set D \<longrightarrow> sent (s, D, [], [], kind) = []) \<and> (\<forall>s. kept (ms s) (ms1 s)) \<and>
    (\<forall>rt \<in> set rts. reaches d rt \<longrightarrow> read_view (cell_view T' nt tgt (ep_cell (dst_on d rt))) m1' =
       cell_bytes (T (ep_rank (r_src rt))) (ms (ep_rank (r_src rt))) ns (src (ep_rank (r_src rt))) (pgs (ep_rank (r_src rt))) (t_dtype tgt) (ep_cell (r_src rt))) \<and>
    (\<forall>j i. j < m_next m' \<and> j \<noteq> v_storage (to_view T' tgt) \<longrightarrow> m_data m1' j i = m_data m' j i)"
proof -
  define K :: "channel_key set" where "K = {k. fst k \<in> S \<and> (\<exists>D kind. d \<in> set D \<and> k = (fst k, D, [], [], kind))}"
  define q where "q = outbox pgs (shipped ns src td pgs rts) n"
  have K: "(s, D, [], [], kind) \<in> K" if "s \<in> S" "d \<in> set D" for s D kind using that by (simp add: K_def)
  note s = sender_buckets [where src = src and pgs = pgs, OF fit fit bspec [OF senders] receiver]
  note r = receiver_buckets [OF fit dist _ receiver order(1)]
  have kind: "\<And>rt. rt \<in> set rts \<Longrightarrow> reaches d rt \<Longrightarrow> r_kind rt \<in> {P2P, BROADCAST}" using known by blast
  have meet: "\<forall>k \<in> K. list_all2 meets (q k) (filter (on_channel k) bs')"
  proof
    fix k assume "k \<in> K"
    then obtain s D kind where k: "k = (s, D, [], [], kind)" "s \<in> S" "d \<in> set D" by (auto simp: K_def)
    show "list_all2 meets (q k) (filter (on_channel k) bs')" unfolding order(2) [rule_format] q_def k(1) using k(2,3) by (rule s(1))
  qed
  have src: "\<forall>k \<in> K. \<forall>b \<in> set (q k). \<forall>c \<in> set (b_chunks b). source_ok (T (fst k)) (ms (fst k)) c"
  proof (intro ballI)
    fix k b c assume "k \<in> K" and b: "b \<in> set (q k)" "c \<in> set (b_chunks b)"
    then obtain s D kind where k: "k = (s, D, [], [], kind)" "s \<in> S" "d \<in> set D" by (auto simp: K_def)
    show "source_ok (T (fst k)) (ms (fst k)) c" using s(2) [OF k(2,3)] b unfolding q_def k(1) fst_conv .
  qed
  have keys: "\<forall>b' \<in> set bs'. \<exists>k \<in> K. on_channel k b'"
  proof
    fix b' assume b': "b' \<in> set bs'"
    obtain c where c: "c \<in> set (b_chunks b')" "on_channel (bucket_key c) b'" using r(3) [OF kind b'] by blast
    then obtain rt where "rt \<in> set rts" "reaches d rt" "bucket_key c = (ep_rank (r_src rt), route_dst_ranks rt, [], [], r_kind rt)"
      using r(2) [OF kind, of c] b' by (auto simp: dropped_at_def)
    then show "\<exists>k \<in> K. on_channel k b'" using c(2) K known by (metis reaches_def)
  qed
  have tgt: "\<forall>b' \<in> set bs'. receivable T' m' b'" using r(3) [OF kind] by blast
  have T: "\<And>k. k \<in> K \<Longrightarrow> torch_ok (T (fst k))" "torch_ok T'" using senders receiver by (auto simp: K_def sender_ready_def receiver_ready_def)
  obtain sent ms1 m1' where run: "take_in T T' dev dev' pg bs' q (ms, m') = Inr (sent, ms1, m1')" "\<forall>k \<in> K. sent k = []" "\<forall>s. kept (ms s) (ms1 s)"
    "\<forall>k \<in> K. \<forall>(b, b') \<in> set (zip (q k) (filter (on_channel k) bs')). arrived (T (fst k)) T' (ms (fst k)) m1' (zip (b_chunks b) (b_chunks b'))"
    "only_regions T' (landing_zone bs') m' m1'"
    using take_in_delivers [OF T meet keys src tgt r(1) [OF kind], of dev dev' pg] by blast
  have "read_view (cell_view T' nt tgt (ep_cell (dst_on d rt))) m1' = cell_bytes (T s) (ms s) ns (src s) (pgs s) (t_dtype tgt) (ep_cell (r_src rt))"
    if rt: "rt \<in> set rts" "reaches d rt" and sr: "s = ep_rank (r_src rt)" for rt s
  proof -
    let ?k = "(s, route_dst_ranks rt, [], [], r_kind rt)" and ?c = "ship_chunk ns (src s) td (pgs s) rt" and ?c' = "drop_chunk nt tgt td' rt (dst_on d rt)"
    have S: "s \<in> S" "d \<in> set (route_dst_ranks rt)" using known rt sr by (simp_all add: reaches_def)
    have R: "rt \<in> set (channel_routes s (route_dst_ranks rt) (r_kind rt) rts)" using rt(1) sr by (simp add: channel_routes_def)
    obtain b b' where b: "(b, b') \<in> set (zip (q ?k) (filter (on_channel ?k) bs'))" "(?c, ?c') \<in> set (zip (b_chunks b) (b_chunks b'))"
      and w: "wire_bytes (T s) (ms s) ?c = cell_bytes (T s) (ms s) ns (src s) (pgs s) (t_dtype tgt) (ep_cell (r_src rt))"
      using s(3) [OF S R, of n] unfolding order(2) [rule_format] q_def by blast
    have "arrived (T s) T' (ms s) m1' (zip (b_chunks b) (b_chunks b'))" using run(4) K [OF S] b(1) by fastforce
    then have "read_view (dst_region T' ?c') m1' = landed T' ?c' (wire_bytes (T s) (ms s) ?c)" using b(2) by (auto simp: arrived_def)
    then show ?thesis using dropped_atI [OF fit kind [OF rt] receiver rt] w by (simp add: dropped_at_def)
  qed
  moreover have "m_data m1' j i = m_data m' j i" if "j < m_next m'" "j \<noteq> v_storage (to_view T' tgt)" for j i
  proof -
    have "\<forall>c \<in> set (landing_zone bs'). elsewhere (dst_region T' c) j i" using r(2) [OF kind] that(2) unfolding dropped_at_def elsewhere_def by metis
    then show ?thesis using run(5) that(1) by (simp add: only_regions_def)
  qed
  ultimately show ?thesis using run(1,2,3) K unfolding q_def by blast
qed

section \<open>Properties\<close>

text \<open>
  C1. A redistribution in the target's dtype is correct from end to end. Suppose the map of two
  layouts is computed, DTensor behaves as documented and the tags have at most 24 bits
  (\<open>layouts_ok\<close>); torch keeps element counts (\<open>torch_ok\<close>); the tensors are live and cut evenly into
  cells of one shape, not a scalar's; Partial groups name known reduce operations; and on both ends
  the wire dtype is the target's own. (A target wider than the agreed wire dtype is excluded: its
  one-chunk buckets receive into buffers of the wrong size.) Every rank builds its chunks and
  buckets on its own; the target rank takes its buckets in any order that keeps every channel's.
  Then every receive is answered, nothing sent to that rank is left over, and every cell of the
  target tensor holds the bytes of a source cell for the same position, reduced over the Partial
  groups and converted to the target's dtype. No other tensor of the target rank changes, and no
  tensor of any sender.
\<close>

theorem redistribution_correct:
  assumes m: "get_m2m_map api smesh spl tmesh tpl grp = Inr m2m" and ok: "layouts_ok api spos tpos smesh spl tmesh tpl grp plan"
    and d: "d \<in> set (mesh_ranks tmesh)"
    and senders: "\<forall>s \<in> set (mesh_ranks smesh). sender_ready (T s) (ms s) (source_slicers plan) (src s) td (pgs s) (target_slicers plan) tgt"
    and receiver: "receiver_ready T' m' (target_slicers plan) tgt td'"
  shows "\<exists>cs cs'. (\<forall>s \<in> set (mesh_ranks smesh). fst (m2m_to_chunks m2m s (Some (src s)) None td (pgs s) (st s)) = Inr (cs s)) \<and>
    fst (m2m_to_chunks m2m d None (Some tgt) td' pgs' st') = Inr cs' \<and>
    (\<forall>bs'. mset bs' = mset (chunk_to_bucket_ops cs' n) \<and> (\<forall>k. filter (on_channel k) bs' = filter (on_channel k) (chunk_to_bucket_ops cs' n)) \<longrightarrow>
      (\<exists>sent ms1 m1'. take_in T T' dev dev' pg bs' (outbox pgs cs n) (ms, m') = Inr (sent, ms1, m1') \<and>
        (\<forall>s \<in> set (mesh_ranks smesh). \<forall>D kind. d \<in> set D \<longrightarrow> sent (s, D, [], [], kind) = []) \<and>
        (\<forall>x. in_shape (target_slicers plan) x \<longrightarrow>
          (\<exists>s \<in> set (mesh_ranks smesh). \<exists>c. in_shape (source_slicers plan) c \<and> spos s c = tpos d x \<and>
            read_view (cell_view T' (target_slicers plan) tgt x) m1' = cell_bytes (T s) (ms s) (source_slicers plan) (src s) (pgs s) (t_dtype tgt) c)) \<and>
        (\<forall>j i. j < m_next m' \<and> j \<noteq> v_storage (to_view T' tgt) \<longrightarrow> m_data m1' j i = m_data m' j i) \<and> (\<forall>s. kept (ms s) (ms1 s))))"
proof -
  let ?ns = "source_slicers plan" and ?nt = "target_slicers plan" and ?S = "set (mesh_ranks smesh)"
  obtain rts where r: "m2m_routes m2m = Some rts" "m2m_source_num_slicers m2m = Some ?ns" "m2m_target_num_slicers m2m = Some ?nt"
    and fit: "\<And>r. cells_fit r ?ns ?nt rts"
    and right: "\<And>rt e. rt \<in> set rts \<Longrightarrow> e \<in> set (r_dsts rt) \<Longrightarrow>
       ep_rank (r_src rt) \<in> ?S \<and> spos (ep_rank (r_src rt)) (ep_cell (r_src rt)) = tpos (ep_rank e) (ep_cell e) \<and> r_kind rt \<in> {P2P, BROADCAST}"
    and all: "\<And>d x. d \<in> set (mesh_ranks tmesh) \<Longrightarrow> in_shape ?nt x \<Longrightarrow> \<exists>rt \<in> set rts. \<exists>e \<in> set (r_dsts rt). ep_rank e = d \<and> ep_cell e = x"
    and dist: "\<And>d. distinct (map ep_cell (filter (\<lambda>e. ep_rank e = d) (concat (map r_dsts rts))))"
    using computed_routes [OF m ok] by blast
  have known: "\<forall>rt \<in> set rts. reaches d rt \<longrightarrow> ep_rank (r_src rt) \<in> ?S \<and> r_kind rt \<in> {P2P, BROADCAST}"
    using right reaches_on(2) [OF _ _ fit] by blast
  note run = all_channels_run [where src = src and pgs = pgs and n = n and dev = dev and dev' = dev' and pg = pg, OF fit dist known senders receiver]
  have ship: "fst (m2m_to_chunks m2m s (Some (src s)) None td (pgs s) (st s)) = Inr (shipped ?ns src td pgs rts s)" if "s \<in> ?S" for s
    using sender_chunks [OF r(1,2) _ fit] senders that by (simp add: sender_ready_def)
  have drop: "fst (m2m_to_chunks m2m d None (Some tgt) td' pgs' st') = Inr (dropped ?nt tgt td' rts d)"
    using receiver_chunks [OF r(1,3) _ fit] receiver by (simp add: receiver_ready_def)
  have cell: "\<exists>rt \<in> set rts. reaches d rt \<and> ep_cell (dst_on d rt) = x \<and> spos (ep_rank (r_src rt)) (ep_cell (r_src rt)) = tpos d x \<and>
      ep_rank (r_src rt) \<in> ?S \<and> in_shape ?ns (ep_cell (r_src rt))" if x: "in_shape ?nt x" for x
  proof -
    obtain rt e where rt: "rt \<in> set rts" "e \<in> set (r_dsts rt)" "ep_rank e = d" "ep_cell e = x" using all [OF d x] by blast
    then have "reaches d rt" by (auto simp: reaches_def route_dst_ranks_def)
    moreover have "in_shape ?ns (ep_cell (r_src rt))" using fit [of "ep_rank (r_src rt)"] rt(1) by (simp add: cells_fit_def)
    ultimately show ?thesis using reaches_on(5) [OF _ rt(1) fit rt(2,3)] right [OF rt(1,2)] rt by auto
  qed
  show ?thesis
  proof (intro exI [of _ "shipped ?ns src td pgs rts"] exI [of _ "dropped ?nt tgt td' rts d"] conjI allI impI ballI)
    fix bs' assume o: "mset bs' = mset (chunk_to_bucket_ops (dropped ?nt tgt td' rts d) n) \<and>
      (\<forall>k. filter (on_channel k) bs' = filter (on_channel k) (chunk_to_bucket_ops (dropped ?nt tgt td' rts d) n))"
    obtain sent ms1 m1' where t: "take_in T T' dev dev' pg bs' (outbox pgs (shipped ?ns src td pgs rts) n) (ms, m') = Inr (sent, ms1, m1')"
      "\<forall>s \<in> ?S. \<forall>D kind. d \<in> set D \<longrightarrow> sent (s, D, [], [], kind) = []" "\<forall>s. kept (ms s) (ms1 s)"
      "\<forall>rt \<in> set rts. reaches d rt \<longrightarrow> read_view (cell_view T' ?nt tgt (ep_cell (dst_on d rt))) m1' =
         cell_bytes (T (ep_rank (r_src rt))) (ms (ep_rank (r_src rt))) ?ns (src (ep_rank (r_src rt))) (pgs (ep_rank (r_src rt))) (t_dtype tgt) (ep_cell (r_src rt))"
      "\<forall>j i. j < m_next m' \<and> j \<noteq> v_storage (to_view T' tgt) \<longrightarrow> m_data m1' j i = m_data m' j i"
      using run [OF conjunct1 [OF o] conjunct2 [OF o]] by blast
    have "\<exists>s \<in> ?S. \<exists>c. in_shape ?ns c \<and> spos s c = tpos d x \<and>
        read_view (cell_view T' ?nt tgt x) m1' = cell_bytes (T s) (ms s) ?ns (src s) (pgs s) (t_dtype tgt) c" if "in_shape ?nt x" for x
      using cell [OF that] t(4) by metis
    then show "\<exists>sent ms1 m1'. take_in T T' dev dev' pg bs' (outbox pgs (shipped ?ns src td pgs rts) n) (ms, m') = Inr (sent, ms1, m1') \<and>
        (\<forall>s \<in> ?S. \<forall>D kind. d \<in> set D \<longrightarrow> sent (s, D, [], [], kind) = []) \<and>
        (\<forall>x. in_shape ?nt x \<longrightarrow> (\<exists>s \<in> ?S. \<exists>c. in_shape ?ns c \<and> spos s c = tpos d x \<and>
          read_view (cell_view T' ?nt tgt x) m1' = cell_bytes (T s) (ms s) ?ns (src s) (pgs s) (t_dtype tgt) c)) \<and>
        (\<forall>j i. j < m_next m' \<and> j \<noteq> v_storage (to_view T' tgt) \<longrightarrow> m_data m1' j i = m_data m' j i) \<and> (\<forall>s. kept (ms s) (ms1 s))"
      using t(1,2,3,5) by blast
  qed (use ship drop in blast)+
qed

theorem redistribution_correct_witness:
  "\<exists>cs cs' sent ms1 m1'. fst (m2m_to_chunks split_map 0 (Some (plain_tensor 0 [4] 2)) None None None pg_init) = Inr (cs 0) \<and>
     fst (m2m_to_chunks split_map 2 None (Some (plain_tensor 1 [2] 2)) None None pg_init) = Inr cs' \<and>
     take_in (\<lambda>_. sample_torch) sample_torch None None pg_init (chunk_to_bucket_ops cs' 100) (outbox (\<lambda>_. None) cs 100)
       (\<lambda>_. sample_memory, sample_memory) = Inr (sent, ms1, m1') \<and>
     read_view (cell_view sample_torch [1] (plain_tensor 1 [2] 2) [0]) m1' = [4, 5, 6, 7]"
proof -
  let ?s = "plain_tensor 0 [4] 2" and ?t = "plain_tensor 1 [2] 2"
  have sl: "source_slicers split_plan = [2]" "target_slicers split_plan = [1]" and rk: "mesh_ranks split_source = [0]" "mesh_ranks split_target = [1, 2]"
    by (simp_all add: split_plan_def split_source_def split_target_def)
  have "{x. in_shape [1 :: nat] x} = {[0]}" by (auto simp: in_shape_def list_all2_Cons2)
  then have ok: "layouts_ok ref_api (ref_pos split_source [Shard 0] [2]) (ref_pos split_target [Shard 0] [1]) split_source [Shard 0] split_target [Shard 0] [0, 1, 2] split_plan"
    using split_map_computed(2) split_facts by (simp add: layouts_ok_def rk sl)
  have d: "2 \<in> set (mesh_ranks split_target)" by (simp add: rk)
  have s: "\<forall>s \<in> set (mesh_ranks split_source). sender_ready sample_torch sample_memory (source_slicers split_plan) ?s None None (target_slicers split_plan) ?t"
    and r: "receiver_ready sample_torch sample_memory (target_slicers split_plan) ?t None"
    using sample_tensor_ok [of 0 2 "[4]"] sample_tensor_ok [of 1 2 "[2]"]
    by (simp_all add: sender_ready_def receiver_ready_def side_fits_def cell_shape_def extend_slicers_def chunk_wire_dtype_def plain_tensor_def sl)
  obtain cs cs' where c: "fst (m2m_to_chunks split_map 0 (Some ?s) None None None pg_init) = Inr (cs 0)"
    "fst (m2m_to_chunks split_map 2 None (Some ?t) None None pg_init) = Inr cs'"
    and run: "\<exists>sent ms1 m1'. take_in (\<lambda>_. sample_torch) sample_torch None None pg_init (chunk_to_bucket_ops cs' 100) (outbox (\<lambda>_. None) cs 100)
       (\<lambda>_. sample_memory, sample_memory) = Inr (sent, ms1, m1') \<and>
       (\<forall>x. in_shape [1] x \<longrightarrow> (\<exists>c. in_shape [2] c \<and> ref_pos split_source [Shard 0] [2] 0 c = ref_pos split_target [Shard 0] [1] 2 x \<and>
         read_view (cell_view sample_torch [1] ?t x) m1' = cell_bytes sample_torch sample_memory [2] ?s None (t_dtype ?t) c))"
    using redistribution_correct [where T = "\<lambda>_. sample_torch" and ms = "\<lambda>_. sample_memory" and src = "\<lambda>_. ?s" and pgs = "\<lambda>_. None" and st = "\<lambda>_. pg_init" and n = 100
        and dev = None and dev' = None and pg = pg_init and pgs' = None and st' = pg_init, OF split_map_computed(1) ok d s r]
    unfolding rk sl by auto
  obtain sent ms1 m1' x where t: "take_in (\<lambda>_. sample_torch) sample_torch None None pg_init (chunk_to_bucket_ops cs' 100) (outbox (\<lambda>_. None) cs 100)
       (\<lambda>_. sample_memory, sample_memory) = Inr (sent, ms1, m1')"
    "in_shape [2] x" "ref_pos split_source [Shard 0] [2] 0 x = ref_pos split_target [Shard 0] [1] 2 [0]"
    "read_view (cell_view sample_torch [1] ?t [0]) m1' = cell_bytes sample_torch sample_memory [2] ?s None (t_dtype ?t) x"
    using run by (force simp: in_shape_def)
  have pos: "ref_pos split_target [Shard 0] [1] 2 [0] = [1]" "ref_pos split_source [Shard 0] [2] 0 [0] = [0]" by code_simp+
  have "x = [0] \<or> x = [1]" using t(2) by (auto simp: in_shape_def list_all2_Cons2 less_Suc_eq numeral_2_eq_2)
  then have x: "x = [1]" using t(3) pos by auto
  have "cell_bytes sample_torch sample_memory [2] ?s None (t_dtype ?t) [1] = [4, 5, 6, 7]" by code_simp
  then show ?thesis using c t x by auto
qed

end
