(* ===== verification/Command_Queue.thy ===== *)
theory Command_Queue
  imports Etha_Prelude
begin

text \<open>
  \<^verbatim>\<open>src/etha/tensor_bus/command_queue.py\<close>: the circular command queue in an LMDB database
  with two named semaphores. The database is a dictionary from byte strings to byte strings,
  with the pointers and the slots under the keys the code uses; a semaphore is its count. The
  message codec (msgspec) is not part of the repository and is a parameter: \<open>enc\<close> and \<open>dec\<close>,
  where \<open>dec\<close> is None on what raises \<open>DecodeError\<close>. An operation of this theory is one
  critical section, taken at the moment its semaphore is granted; the interleavings of several
  processes inside an operation are the subject of \<open>Queue_Processes\<close>.
\<close>

section \<open>Byte strings\<close>

type_synonym bytes = "nat list"

fun le_bytes :: "nat \<Rightarrow> nat \<Rightarrow> bytes" where
  "le_bytes 0 n = []"
| "le_bytes (Suc k) n = n mod 256 # le_bytes k (n div 256)"

fun le_value :: "bytes \<Rightarrow> nat" where
  "le_value [] = 0"
| "le_value (b # bs) = b + 256 * le_value bs"

text \<open>\<open>struct.pack("Q", n)\<close> and \<open>struct.unpack("Q", b)[0]\<close> on a little-endian machine.\<close>

definition pack_Q :: "nat \<Rightarrow> bytes result" where
  "pack_Q n = (if n < 2 ^ 64 then Inr (le_bytes 8 n) else Inl StructError)"

definition unpack_Q :: "bytes \<Rightarrow> nat result" where
  "unpack_Q b = (if length b = 8 then Inr (le_value b) else Inl StructError)"

definition head_key :: bytes where
  "head_key = [95, 95, 104, 101, 97, 100, 95, 95]"

definition tail_key :: bytes where
  "tail_key = [95, 95, 116, 97, 105, 108, 95, 95]"

section \<open>State\<close>

type_synonym lmdb = "(bytes, bytes) dict"

record command_queue =
  q_capacity :: nat
  q_db :: lmdb
  q_sem :: nat          \<comment> \<open>\<open>_sem\<close>: available items\<close>
  q_space_sem :: nat    \<comment> \<open>\<open>_space_sem\<close>: free slots\<close>

text \<open>
  Acquiring a semaphore: not at all (\<open>timeout=0\<close>), for a while, or forever. What a wait ends
  with depends on the others; \<open>acquire\<close> is the outcome at the moment the wait ends.
\<close>

datatype wait = NoWait | Timed | Forever

datatype acquired = Acquired nat | Busy | Waits

definition acquire :: "wait \<Rightarrow> nat \<Rightarrow> acquired" where
  "acquire w n = (if 0 < n then Acquired (n - 1) else if w = Forever then Waits else Busy)"

section \<open>Transactions\<close>

definition get_pointer :: "bytes \<Rightarrow> lmdb \<Rightarrow> nat result" where
  "get_pointer key txn = (case dict_get txn key of None \<Rightarrow> Inl TypeError | Some b \<Rightarrow> unpack_Q b)"

definition get_head :: "lmdb \<Rightarrow> nat result" where
  "get_head txn = get_pointer head_key txn"

definition get_tail :: "lmdb \<Rightarrow> nat result" where
  "get_tail txn = get_pointer tail_key txn"

definition set_head :: "nat \<Rightarrow> lmdb \<Rightarrow> lmdb result" where
  "set_head value txn = res_bind (pack_Q value) (\<lambda>b. Inr (dict_set txn head_key b))"

definition set_tail :: "nat \<Rightarrow> lmdb \<Rightarrow> lmdb result" where
  "set_tail value txn = res_bind (pack_Q value) (\<lambda>b. Inr (dict_set txn tail_key b))"

definition increment_head :: "lmdb \<Rightarrow> lmdb result" where
  "increment_head txn = res_bind (get_head txn) (\<lambda>head. set_head (head + 1) txn)"

definition increment_tail :: "lmdb \<Rightarrow> lmdb result" where
  "increment_tail txn = res_bind (get_tail txn) (\<lambda>tail. set_tail (tail + 1) txn)"

definition circular_key :: "nat \<Rightarrow> nat \<Rightarrow> bytes result" where
  "circular_key capacity pos = (if capacity = 0 then Inl ZeroDivisionError else pack_Q (pos mod capacity))"

definition put_message :: "('m \<Rightarrow> bytes) \<Rightarrow> nat \<Rightarrow> nat \<Rightarrow> 'm \<Rightarrow> lmdb \<Rightarrow> lmdb result" where
  "put_message enc capacity pos msg txn =
     res_bind (circular_key capacity pos) (\<lambda>key. Inr (dict_set txn key (enc msg)))"

definition get_message :: "(bytes \<Rightarrow> 'm option) \<Rightarrow> nat \<Rightarrow> nat \<Rightarrow> lmdb \<Rightarrow> 'm option result" where
  "get_message dec capacity pos txn =
     res_bind (circular_key capacity pos) (\<lambda>key.
     Inr (case dict_get txn key of None \<Rightarrow> None | Some cmd_data \<Rightarrow> dec cmd_data))"

definition txn_size :: "lmdb \<Rightarrow> int result" where
  "txn_size txn = res_bind (get_tail txn) (\<lambda>tail. res_bind (get_head txn) (\<lambda>head. Inr (int tail - int head)))"

section \<open>Opening\<close>

definition init_pointers :: "lmdb \<Rightarrow> lmdb result" where
  "init_pointers txn =
     (case dict_get txn head_key of
        None \<Rightarrow> res_bind (set_head 0 txn) (set_tail 0)
      | Some _ \<Rightarrow> Inr txn)"

text \<open>
  \<open>__init__\<close> of the leader: the counts of the new semaphores come from the size found in the
  database; a negative initial count is refused. A follower opens the same database, runs
  \<open>init_pointers\<close> again and attaches to the semaphores.
\<close>

definition open_leader :: "nat \<Rightarrow> lmdb \<Rightarrow> command_queue result" where
  "open_leader capacity db =
     res_bind (init_pointers db) (\<lambda>db'.
     res_bind (txn_size db') (\<lambda>current_size.
     if current_size < 0 \<or> int capacity < current_size then Inl ValueError
     else Inr \<lparr>q_capacity = capacity, q_db = db', q_sem = nat current_size,
               q_space_sem = nat (int capacity - current_size)\<rparr>))"

definition open_follower :: "command_queue \<Rightarrow> command_queue result" where
  "open_follower q = res_bind (init_pointers (q_db q)) (\<lambda>db. Inr (q\<lparr>q_db := db\<rparr>))"

section \<open>Operations\<close>

text \<open>An operation that has to wait changes nothing yet and has no answer.\<close>

datatype 'a answer = Answer "'a result" | Waiting

text \<open>The write transaction of \<open>enqueue\<close>, after the space was acquired. A failed one leaves no trace in the database.\<close>

definition enqueue_txn :: "('m \<Rightarrow> bytes) \<Rightarrow> 'm \<Rightarrow> command_queue \<Rightarrow> nat result \<times> command_queue" where
  "enqueue_txn enc msg q =
     (case res_bind (get_tail (q_db q)) (\<lambda>tail.
           res_bind (put_message enc (q_capacity q) tail msg (q_db q)) (\<lambda>txn.
           res_bind (increment_tail txn) (\<lambda>txn'. Inr (tail, txn')))) of
        Inl e \<Rightarrow> (Inl e, q)
      | Inr (tail, txn) \<Rightarrow> (Inr tail, q\<lparr>q_db := txn, q_sem := q_sem q + 1\<rparr>))"

definition enqueue :: "('m \<Rightarrow> bytes) \<Rightarrow> wait \<Rightarrow> 'm \<Rightarrow> command_queue \<Rightarrow> nat answer \<times> command_queue" where
  "enqueue enc w msg q =
     (case acquire w (q_space_sem q) of
        Busy \<Rightarrow> (Answer (Inl QueueFullError), q)
      | Waits \<Rightarrow> (Waiting, q)
      | Acquired n \<Rightarrow> (case enqueue_txn enc msg (q\<lparr>q_space_sem := n\<rparr>) of (r, q') \<Rightarrow> (Answer r, q')))"

definition dequeue_txn :: "(bytes \<Rightarrow> 'm option) \<Rightarrow> command_queue \<Rightarrow> 'm option result \<times> command_queue" where
  "dequeue_txn dec q =
     (case res_bind (get_head (q_db q)) (\<lambda>head.
           res_bind (txn_size (q_db q)) (\<lambda>size.
           if size \<le> 0 then Inr (None, q)
           else res_bind (get_message dec (q_capacity q) head (q_db q)) (\<lambda>cmd.
             res_bind (increment_head (q_db q)) (\<lambda>txn.
             Inr (cmd, q\<lparr>q_db := txn,
               q_space_sem := q_space_sem q + (if cmd \<noteq> None then 1 else 0)\<rparr>))))) of
        Inl e \<Rightarrow> (Inl e, q)
      | Inr (cmd, q') \<Rightarrow> (Inr cmd, q'))"

text \<open>\<open>dequeue(block=False)\<close> does not touch the item semaphore.\<close>

definition dequeue :: "(bytes \<Rightarrow> 'm option) \<Rightarrow> wait option \<Rightarrow> command_queue \<Rightarrow> 'm option answer \<times> command_queue" where
  "dequeue dec block q =
     (case block of
        None \<Rightarrow> (case dequeue_txn dec q of (r, q') \<Rightarrow> (Answer r, q'))
      | Some w \<Rightarrow>
          (case acquire w (q_sem q) of
             Busy \<Rightarrow> (Answer (Inr None), q)
           | Waits \<Rightarrow> (Waiting, q)
           | Acquired n \<Rightarrow> (case dequeue_txn dec (q\<lparr>q_sem := n\<rparr>) of (r, q') \<Rightarrow> (Answer r, q'))))"

fun batch_loop :: "(bytes \<Rightarrow> 'm option) \<Rightarrow> nat \<Rightarrow> lmdb \<Rightarrow> nat \<Rightarrow> nat list \<Rightarrow> 'm list \<Rightarrow> 'm list result" where
  "batch_loop dec capacity txn head [] commands = Inr commands"
| "batch_loop dec capacity txn head (i # is) commands =
     res_bind (get_message dec capacity (head + i) txn) (\<lambda>cmd.
     batch_loop dec capacity txn head is (commands @ (case cmd of None \<Rightarrow> [] | Some m \<Rightarrow> [m])))"

text \<open>The transaction of \<open>dequeue_batch\<close>; the slots are given back after it, one release each.\<close>

definition batch_txn :: "(bytes \<Rightarrow> 'm option) \<Rightarrow> nat \<Rightarrow> command_queue \<Rightarrow> ('m list \<times> nat) result \<times> command_queue" where
  "batch_txn dec max_count q =
     (case res_bind (get_head (q_db q)) (\<lambda>head.
           res_bind (get_tail (q_db q)) (\<lambda>tail.
           let count = nat (min (int max_count) (int tail - int head)) in
           res_bind (batch_loop dec (q_capacity q) (q_db q) head [0..<count] []) (\<lambda>commands.
           res_bind (if 0 < count then set_head (head + count) (q_db q) else Inr (q_db q)) (\<lambda>txn.
           Inr ((commands, count), q\<lparr>q_db := txn\<rparr>))))) of
        Inl e \<Rightarrow> (Inl e, q)
      | Inr (r, q') \<Rightarrow> (Inr r, q'))"

definition release_space :: "command_queue \<Rightarrow> command_queue" where
  "release_space q = q\<lparr>q_space_sem := q_space_sem q + 1\<rparr>"

definition dequeue_batch :: "(bytes \<Rightarrow> 'm option) \<Rightarrow> nat \<Rightarrow> command_queue \<Rightarrow> 'm list result \<times> command_queue" where
  "dequeue_batch dec max_count q =
     (case batch_txn dec max_count q of
        (Inl e, q') \<Rightarrow> (Inl e, q')
      | (Inr (commands, n), q') \<Rightarrow> (Inr commands, (release_space ^^ n) q'))"

definition queue_size :: "command_queue \<Rightarrow> int result" where
  "queue_size q = txn_size (q_db q)"

definition is_empty :: "command_queue \<Rightarrow> bool result" where
  "is_empty q = res_bind (queue_size q) (\<lambda>n. Inr (n = 0))"

definition peek :: "(bytes \<Rightarrow> 'm option) \<Rightarrow> command_queue \<Rightarrow> 'm option result" where
  "peek dec q =
     res_bind (get_head (q_db q)) (\<lambda>head.
     res_bind (txn_size (q_db q)) (\<lambda>size.
     if size \<le> 0 then Inr None else get_message dec (q_capacity q) head (q_db q)))"

definition starts_with :: "'a list \<Rightarrow> 'a list \<Rightarrow> bool" where
  "starts_with p xs \<longleftrightarrow> take (length p) xs = p"

text \<open>Draining a semaphore: acquire without waiting until it is busy.\<close>

fun drain :: "nat \<Rightarrow> nat" where
  "drain 0 = 0"
| "drain (Suc n) = drain n"

definition clear :: "bool \<Rightarrow> command_queue \<Rightarrow> unit result \<times> command_queue" where
  "clear delete_commands q =
     (case res_bind (set_head 0 (q_db q)) (set_tail 0) of
        Inl e \<Rightarrow> (Inl e, q)
      | Inr txn \<Rightarrow>
          (Inr (), q\<lparr>q_db := (if delete_commands then filter (\<lambda>(key, _). starts_with [95, 95] key) txn else txn),
             q_sem := drain (q_sem q), q_space_sem := drain (q_space_sem q) + q_capacity q\<rparr>))"


section \<open>Keys and pointers\<close>

lemma le_value_bytes: "n < 256 ^ k \<Longrightarrow> le_value (le_bytes k n) = n"
proof (induction k arbitrary: n)
  case (Suc k)
  have "n div 256 < 256 ^ k" using Suc.prems by (simp add: less_mult_imp_div_less mult.commute)
  then show ?case using Suc.IH by simp
qed simp

lemma length_le_bytes [simp]: "length (le_bytes k n) = k"
  by (induction k arbitrary: n) auto

lemma le_bytes_nth: "i < k \<Longrightarrow> le_bytes k n ! i = n div 256 ^ i mod 256"
  by (induction k arbitrary: n i) (auto simp: nth_Cons div_mult2_eq [symmetric] mult.commute split: nat.splits)

lemma le_bytes_last: "n < 2 ^ 56 \<Longrightarrow> le_bytes 8 n ! 7 = 0"
  by (simp add: le_bytes_nth)

lemma le_bytes_inj: "a < 256 ^ k \<Longrightarrow> b < 256 ^ k \<Longrightarrow> le_bytes k a = le_bytes k b \<longleftrightarrow> a = b"
  by (metis le_value_bytes)

lemma slot_keys:
  assumes "i < 2 ^ 56"
  shows "le_bytes 8 i \<noteq> head_key" "le_bytes 8 i \<noteq> tail_key"
proof -
  have "head_key ! 7 = 95" "tail_key ! 7 = 95" by (simp_all add: head_key_def tail_key_def)
  then show "le_bytes 8 i \<noteq> head_key" "le_bytes 8 i \<noteq> tail_key" using le_bytes_last [OF assms] by auto
qed

lemma head_tail_key [simp]: "head_key \<noteq> tail_key" "tail_key \<noteq> head_key"
  by (simp_all add: head_key_def tail_key_def)

lemma pack_Q_ok: "n < 2 ^ 64 \<Longrightarrow> pack_Q n = Inr (le_bytes 8 n)"
  by (simp add: pack_Q_def)

lemma get_pointer_ok: "dict_get db key = Some (le_bytes 8 n) \<Longrightarrow> n < 2 ^ 64 \<Longrightarrow> get_pointer key db = Inr n"
  using le_value_bytes [of n 8] by (simp add: get_pointer_def unpack_Q_def)

section \<open>The messages a state holds\<close>

text \<open>
  \<open>holds dec q h ms\<close>: the unread messages in the database are \<open>ms\<close>, the oldest first and at
  position \<open>h\<close>. The capacity is at most \<open>2 ^ 56\<close>, so no slot key is one of the pointer keys.
  \<open>represents\<close> adds that no process is inside an operation: the semaphores agree.
\<close>

definition holds :: "(bytes \<Rightarrow> 'm option) \<Rightarrow> command_queue \<Rightarrow> nat \<Rightarrow> 'm list \<Rightarrow> bool" where
  "holds dec q h ms \<longleftrightarrow>
     h + length ms < 2 ^ 64 \<and> 0 < q_capacity q \<and> q_capacity q \<le> 2 ^ 56 \<and>
     dict_get (q_db q) head_key = Some (le_bytes 8 h) \<and> dict_get (q_db q) tail_key = Some (le_bytes 8 (h + length ms)) \<and>
     (\<forall>i < length ms. \<exists>b. dict_get (q_db q) (le_bytes 8 ((h + i) mod q_capacity q)) = Some b \<and> dec b = Some (ms ! i))"

definition represents :: "(bytes \<Rightarrow> 'm option) \<Rightarrow> command_queue \<Rightarrow> nat \<Rightarrow> 'm list \<Rightarrow> bool" where
  "represents dec q h ms \<longleftrightarrow>
     holds dec q h ms \<and> q_space_sem q + length ms = q_capacity q \<and> length ms \<le> q_sem q"

lemma holds_sems [simp]: "holds dec (q\<lparr>q_sem := a\<rparr>) h ms \<longleftrightarrow> holds dec q h ms"
  "holds dec (q\<lparr>q_space_sem := b\<rparr>) h ms \<longleftrightarrow> holds dec q h ms"
  by (simp_all add: holds_def)

lemma holds_pointers:
  assumes "holds dec q h ms"
  shows "get_head (q_db q) = Inr h" "get_tail (q_db q) = Inr (h + length ms)" "txn_size (q_db q) = Inr (int (length ms))"
proof -
  show h: "get_head (q_db q) = Inr h" and t: "get_tail (q_db q) = Inr (h + length ms)"
    using assms unfolding holds_def get_head_def get_tail_def by (auto intro!: get_pointer_ok)
  show "txn_size (q_db q) = Inr (int (length ms))" by (simp add: txn_size_def h t)
qed

lemma circular_key_ok:
  assumes "holds dec q h ms"
  shows "circular_key (q_capacity q) pos = Inr (le_bytes 8 (pos mod q_capacity q))"
    "pos mod q_capacity q < 2 ^ 56" "pos mod q_capacity q < 256 ^ 8"
proof -
  have c: "0 < q_capacity q" "q_capacity q \<le> 2 ^ 56" using assms by (simp_all add: holds_def)
  have "pos mod q_capacity q < q_capacity q" using c(1) by simp
  then show *: "pos mod q_capacity q < 2 ^ 56" using c(2) by linarith
  then show "pos mod q_capacity q < 256 ^ 8" by simp
  show "circular_key (q_capacity q) pos = Inr (le_bytes 8 (pos mod q_capacity q))"
    using c(1) * unfolding circular_key_def by (simp add: pack_Q_ok)
qed

lemma get_message_ok:
  assumes "holds dec q h ms" "i < length ms"
  shows "get_message dec (q_capacity q) (h + i) (q_db q) = Inr (Some (ms ! i))"
proof -
  have "\<exists>b. dict_get (q_db q) (le_bytes 8 ((h + i) mod q_capacity q)) = Some b \<and> dec b = Some (ms ! i)"
    using assms by (simp add: holds_def)
  then show ?thesis unfolding get_message_def circular_key_ok(1) [OF assms(1)] by auto
qed

lemma mod_window: "a < b \<Longrightarrow> b < a + c \<Longrightarrow> a mod c \<noteq> b mod (c :: nat)"
  by (metis add_diff_inverse_nat less_diff_conv2 mod_eq_dvd_iff_nat nat_dvd_not_less nless_le zero_less_diff less_imp_le_nat add.commute)

lemma enqueue_txn_ok:
  assumes r: "holds dec q h ms" and room: "length ms < q_capacity q"
    and t: "h + length ms + 1 < 2 ^ 64" and codec: "dec (enc m) = Some m"
  shows "\<exists>db. enqueue_txn enc m q = (Inr (h + length ms), q\<lparr>q_db := db, q_sem := q_sem q + 1\<rparr>) \<and>
    holds dec (q\<lparr>q_db := db\<rparr>) h (ms @ [m])"
proof -
  let ?c = "q_capacity q" and ?t = "h + length ms"
  let ?s = "le_bytes 8 (?t mod ?c)"
  note key = circular_key_ok [OF r]
  note sk = slot_keys [OF key(2) [of ?t]]
  let ?db1 = "dict_set (q_db q) ?s (enc m)"
  let ?db2 = "dict_set ?db1 tail_key (le_bytes 8 (?t + 1))"
  have "get_tail ?db1 = get_tail (q_db q)"
    using sk by (simp add: get_tail_def get_pointer_def dict_get_set)
  then have inc: "increment_tail ?db1 = Inr ?db2"
    using t by (simp add: increment_tail_def holds_pointers [OF r] set_tail_def pack_Q_ok)
  have "enqueue_txn enc m q = (Inr ?t, q\<lparr>q_db := ?db2, q_sem := q_sem q + 1\<rparr>)"
    using inc holds_pointers(2) [OF r] key(1) by (simp add: enqueue_txn_def put_message_def)
  moreover have "holds dec (q\<lparr>q_db := ?db2\<rparr>) h (ms @ [m])"
  proof -
    have slot: "\<exists>b. dict_get ?db2 (le_bytes 8 ((h + i) mod ?c)) = Some b \<and> dec b = Some ((ms @ [m]) ! i)"
      if i: "i < Suc (length ms)" for i
    proof (cases "i = length ms")
      case True
      then show ?thesis using sk codec by (simp add: dict_get_set)
    next
      case False
      then have i: "i < length ms" using i by simp
      have "(h + i) mod ?c \<noteq> ?t mod ?c" using i room by (intro mod_window) auto
      then have "le_bytes 8 ((h + i) mod ?c) \<noteq> ?s" using key(3) by (simp add: le_bytes_inj)
      then show ?thesis
        using r i slot_keys [OF key(2) [of "h + i"]] by (simp add: dict_get_set holds_def nth_append)
    qed
    then show ?thesis using r t sk unfolding holds_def by (simp add: dict_get_set)
  qed
  ultimately show ?thesis by blast
qed

lemma enqueue_ok:
  assumes r: "represents dec q h ms" and room: "length ms < q_capacity q"
    and t: "h + length ms + 1 < 2 ^ 64" and codec: "dec (enc m) = Some m"
  shows "\<exists>q'. enqueue enc w m q = (Answer (Inr (h + length ms)), q') \<and> represents dec q' h (ms @ [m]) \<and>
    q_capacity q' = q_capacity q"
proof -
  have "holds dec (q\<lparr>q_space_sem := q_space_sem q - 1\<rparr>) h ms" using r by (simp add: represents_def)
  then obtain db where "enqueue_txn enc m (q\<lparr>q_space_sem := q_space_sem q - 1\<rparr>) =
      (Inr (h + length ms), q\<lparr>q_space_sem := q_space_sem q - 1, q_db := db, q_sem := q_sem q + 1\<rparr>)"
    "holds dec (q\<lparr>q_space_sem := q_space_sem q - 1, q_db := db\<rparr>) h (ms @ [m])"
    using enqueue_txn_ok [of dec _ h ms enc m, OF _ _ t codec] room by fastforce
  moreover have "0 < q_space_sem q" using r room by (auto simp: represents_def)
  ultimately show ?thesis using r by (auto simp: enqueue_def acquire_def represents_def holds_def)
qed

lemma enqueue_full:
  assumes "represents dec q h ms" "length ms = q_capacity q"
  shows "enqueue enc w m q = (if w = Forever then Waiting else Answer (Inl QueueFullError), q)"
  using assms by (simp add: represents_def enqueue_def acquire_def)

lemma holds_pop:
  assumes r: "holds dec q h ms" and k: "k \<le> length ms"
  shows "holds dec (q\<lparr>q_db := dict_set (q_db q) head_key (le_bytes 8 (h + k))\<rparr>) (h + k) (drop k ms)"
proof -
  have "\<exists>b. dict_get (dict_set (q_db q) head_key (le_bytes 8 (h + k))) (le_bytes 8 ((h + k + i) mod q_capacity q)) = Some b
      \<and> dec b = Some (ms ! (k + i))" if "i < length ms - k" for i
    using r that slot_keys [OF circular_key_ok(2) [OF r, of "h + k + i"]]
    by (auto simp: dict_get_set holds_def add.assoc)
  then show ?thesis using r k by (simp add: holds_def dict_get_set)
qed

text \<open>The transaction of a dequeue, for any decoder: the head moves on, the slot is freed when the message decodes.\<close>

lemma dequeue_txn_step:
  assumes r: "holds dec q h (m # ms)" and get: "get_message dec' (q_capacity q) h (q_db q) = Inr cmd"
  shows "\<exists>db. dequeue_txn dec' q =
      (Inr cmd, q\<lparr>q_db := db, q_space_sem := q_space_sem q + (if cmd = None then 0 else 1)\<rparr>) \<and>
    holds dec (q\<lparr>q_db := db\<rparr>) (h + 1) ms"
proof -
  let ?db = "dict_set (q_db q) head_key (le_bytes 8 (h + 1))"
  have "h + 1 < 2 ^ 64" using r by (simp add: holds_def)
  then have "increment_head (q_db q) = Inr ?db"
    by (simp add: increment_head_def holds_pointers [OF r] set_head_def pack_Q_ok)
  then show ?thesis using get holds_pop [OF r, of 1] by (auto simp: dequeue_txn_def holds_pointers [OF r])
qed

lemma dequeue_txn_ok:
  assumes "holds dec q h (m # ms)"
  shows "\<exists>db. dequeue_txn dec q = (Inr (Some m), q\<lparr>q_db := db, q_space_sem := q_space_sem q + 1\<rparr>) \<and>
    holds dec (q\<lparr>q_db := db\<rparr>) (h + 1) ms"
  using dequeue_txn_step [OF assms, of dec "Some m"] get_message_ok [OF assms, of 0] by simp

lemma dequeue_txn_empty: "holds dec q h [] \<Longrightarrow> dequeue_txn dec' q = (Inr None, q)"
  by (simp add: dequeue_txn_def holds_pointers)

lemma represents_sem: "represents dec q h ms \<Longrightarrow> length ms \<le> q_sem q"
  by (simp add: represents_def)

lemma dequeue_ok:
  assumes r: "represents dec q h (m # ms)"
  shows "\<exists>q'. dequeue dec block q = (Answer (Inr (Some m)), q') \<and> represents dec q' (h + 1) ms \<and> q_capacity q' = q_capacity q
    \<and> (block = None \<longrightarrow> q_sem q' = q_sem q)"
proof -
  have h: "holds dec (q\<lparr>q_sem := s\<rparr>) h (m # ms)" for s using r by (simp add: represents_def)
  have s: "length ms \<le> q_sem q - 1" "0 < q_sem q" "length ms \<le> q_sem q" using represents_sem [OF r] by simp_all
  obtain db where db: "dequeue_txn dec (q\<lparr>q_sem := s\<rparr>) = (Inr (Some m), q\<lparr>q_sem := s, q_db := db s, q_space_sem := q_space_sem q + 1\<rparr>)"
    "holds dec (q\<lparr>q_db := db s\<rparr>) (h + 1) ms" for s
    using dequeue_txn_ok [OF h] by (simp add: holds_def) metis
  show ?thesis
    using r s db [of "q_sem q"] db [of "q_sem q - 1"]
    by (cases block) (auto simp: dequeue_def acquire_def represents_def holds_def)
qed

lemma dequeue_empty:
  assumes r: "represents dec q h []"
  shows "dequeue dec None q = (Answer (Inr None), q)"
  using dequeue_txn_empty [of dec q h dec] r by (simp add: dequeue_def represents_def)

lemma peek_ok: "holds dec q h ms \<Longrightarrow> peek dec q = Inr (case ms of [] \<Rightarrow> None | m # _ \<Rightarrow> Some m)"
  using get_message_ok [of dec q h ms 0] by (cases ms) (simp_all add: peek_def holds_pointers)

lemma batch_loop_ok:
  assumes r: "holds dec q h ms" and k: "k \<le> length ms" "j \<le> k"
  shows "batch_loop dec (q_capacity q) (q_db q) h [j..<k] cs = Inr (cs @ drop j (take k ms))"
  using k(2)
proof (induction "k - j" arbitrary: j cs)
  case (Suc n)
  then have j: "j < k" by simp
  have "drop j (take k ms) = ms ! j # drop (Suc j) (take k ms)"
    using j k(1) by (simp add: Cons_nth_drop_Suc [symmetric])
  then show ?case
    using Suc.hyps(1) [of "Suc j"] Suc.hyps(2) j get_message_ok [OF r, of j] k(1) by (simp add: upt_conv_Cons)
qed simp

lemma batch_txn_ok:
  assumes r: "holds dec q h ms"
  shows "\<exists>db. batch_txn dec n q = (Inr (take n ms, min n (length ms)), q\<lparr>q_db := db\<rparr>) \<and>
    holds dec (q\<lparr>q_db := db\<rparr>) (h + min n (length ms)) (drop n ms)"
proof -
  let ?k = "min n (length ms)"
  have count: "nat (min (int n) (int (h + length ms) - int h)) = ?k" by (simp add: min_def)
  have loop: "batch_loop dec (q_capacity q) (q_db q) h [0..<?k] [] = Inr (take n ms)"
    using batch_loop_ok [OF r, of ?k 0 "[]"] by (simp add: min_def)
  have d: "drop ?k ms = drop n ms" by (simp add: min_def)
  show ?thesis
  proof (cases "?k = 0")
    case True
    then have "batch_txn dec n q = (Inr (take n ms, ?k), q\<lparr>q_db := q_db q\<rparr>)"
      using loop unfolding batch_txn_def holds_pointers [OF r] Let_def res_bind.simps count by simp
    moreover have "drop n ms = ms" using True d by simp
    ultimately show ?thesis using r True by (intro exI [of _ "q_db q"]) simp
  next
    case False
    have "h + ?k < 2 ^ 64" using r unfolding holds_def by linarith
    then have "batch_txn dec n q = (Inr (take n ms, ?k), q\<lparr>q_db := dict_set (q_db q) head_key (le_bytes 8 (h + ?k))\<rparr>)"
      using False loop unfolding batch_txn_def holds_pointers [OF r] Let_def res_bind.simps count
      by (simp add: set_head_def pack_Q_ok)
    then show ?thesis using holds_pop [OF r, of ?k] d by auto
  qed
qed

lemma release_space_pow: "(release_space ^^ n) q = q\<lparr>q_space_sem := q_space_sem q + n\<rparr>"
  by (induction n) (simp_all add: release_space_def)

lemma dequeue_batch_ok:
  assumes r: "represents dec q h ms"
  shows "\<exists>q'. dequeue_batch dec n q = (Inr (take n ms), q') \<and> represents dec q' (h + min n (length ms)) (drop n ms) \<and>
    q_capacity q' = q_capacity q"
proof -
  have "holds dec q h ms" using r by (simp add: represents_def)
  then obtain db where "batch_txn dec n q = (Inr (take n ms, min n (length ms)), q\<lparr>q_db := db\<rparr>)"
    "holds dec (q\<lparr>q_db := db\<rparr>) (h + min n (length ms)) (drop n ms)" using batch_txn_ok by blast
  then show ?thesis using r by (auto simp: dequeue_batch_def release_space_pow represents_def min_def)
qed

lemma drain_zero [simp]: "drain n = 0"
  by (induction n) auto

lemma filter_lookup: "(\<And>v. P (k, v)) \<Longrightarrow> map_of (filter P d) k = map_of d k"
  by (induction d) auto

lemma clear_ok:
  assumes "0 < q_capacity q" "q_capacity q \<le> 2 ^ 56"
  shows "\<exists>q'. clear d q = (Inr (), q') \<and> represents dec q' 0 [] \<and> q_capacity q' = q_capacity q \<and> q_sem q' = 0"
proof -
  let ?db = "dict_set (dict_set (q_db q) head_key (le_bytes 8 0)) tail_key (le_bytes 8 0)"
  have keys: "starts_with [95, 95] head_key" "starts_with [95, 95] tail_key"
    by (simp_all add: starts_with_def head_key_def tail_key_def)
  have "dict_get (filter (\<lambda>(key, _). starts_with [95, 95] key) ?db) k = dict_get ?db k" if "k \<in> {head_key, tail_key}" for k
    using that keys by (intro filter_lookup) auto
  then show ?thesis using assms
    by (simp add: clear_def set_head_def set_tail_def pack_Q_ok represents_def holds_def dict_get_set)
qed

lemma open_leader_fresh:
  assumes "0 < c" "c \<le> 2 ^ 56"
  shows "\<exists>q. open_leader c [] = Inr q \<and> represents dec q 0 [] \<and> q_capacity q = c"
proof -
  have "txn_size (dict_set (dict_set [] head_key (le_bytes 8 0)) tail_key (le_bytes 8 0)) = Inr 0"
    using get_pointer_ok [of _ _ 0] by (simp add: txn_size_def get_tail_def get_head_def dict_get_set)
  then show ?thesis using assms
    by (auto simp: open_leader_def init_pointers_def set_head_def set_tail_def pack_Q_ok represents_def holds_def dict_get_set)
qed

lemma open_leader_ok:
  assumes r: "represents dec q h ms"
  shows "\<exists>q'. open_leader (q_capacity q) (q_db q) = Inr q' \<and> represents dec q' h ms \<and> q_sem q' = length ms"
proof -
  have h: "holds dec q h ms" "length ms \<le> q_capacity q" using r by (auto simp: represents_def)
  then have "init_pointers (q_db q) = Inr (q_db q)" by (simp add: init_pointers_def holds_def)
  then show ?thesis using h by (auto simp: open_leader_def holds_pointers [OF h(1)] represents_def holds_def)
qed

section \<open>The FIFO contract\<close>

datatype 'm request = Put 'm | Take

datatype 'm reply = Put_reply "nat answer" | Take_reply "'m option answer"

text \<open>Serving a sequence of requests with given operations.\<close>

fun serve :: "('m \<Rightarrow> 's \<Rightarrow> nat answer \<times> 's) \<Rightarrow> ('s \<Rightarrow> 'm option answer \<times> 's) \<Rightarrow> 's \<Rightarrow> 'm request list \<Rightarrow> 'm reply list" where
  "serve enq deq s [] = []"
| "serve enq deq s (Put m # rs) = (case enq m s of (r, s') \<Rightarrow> Put_reply r # serve enq deq s' rs)"
| "serve enq deq s (Take # rs) = (case deq s of (r, s') \<Rightarrow> Take_reply r # serve enq deq s' rs)"

text \<open>The abstract queue: a list of at most \<open>cap\<close> messages, the first at position \<open>h\<close>.\<close>

fun fifo :: "nat \<Rightarrow> nat \<Rightarrow> 'm list \<Rightarrow> 'm request list \<Rightarrow> 'm reply list" where
  "fifo cap h ms [] = []"
| "fifo cap h ms (Put m # rs) =
     (if length ms < cap then Put_reply (Answer (Inr (h + length ms))) # fifo cap h (ms @ [m]) rs
      else Put_reply (Answer (Inl QueueFullError)) # fifo cap h ms rs)"
| "fifo cap h [] (Take # rs) = Take_reply (Answer (Inr None)) # fifo cap h [] rs"
| "fifo cap h (m # ms) (Take # rs) = Take_reply (Answer (Inr (Some m))) # fifo cap (h + 1) ms rs"

text \<open>
  What the client and the agent rely on: a non-blocking put either appends and names the
  position or refuses a full queue unchanged; a non-blocking take pops the oldest message.
\<close>

locale bounded_fifo =
  fixes enq :: "'m \<Rightarrow> 's \<Rightarrow> nat answer \<times> 's"
    and deq :: "'s \<Rightarrow> 'm option answer \<times> 's"
    and rep :: "'s \<Rightarrow> nat \<Rightarrow> 'm list \<Rightarrow> bool"
    and cap :: "'s \<Rightarrow> nat"
    and limit :: nat
  assumes rep_cap: "rep s h ms \<Longrightarrow> length ms \<le> cap s"
    and enq_room: "rep s h ms \<Longrightarrow> length ms < cap s \<Longrightarrow> h + length ms + 1 < limit \<Longrightarrow>
      \<exists>s'. enq m s = (Answer (Inr (h + length ms)), s') \<and> rep s' h (ms @ [m]) \<and> cap s' = cap s"
    and enq_full: "rep s h ms \<Longrightarrow> length ms = cap s \<Longrightarrow> enq m s = (Answer (Inl QueueFullError), s)"
    and deq_some: "rep s h (m # ms) \<Longrightarrow>
      \<exists>s'. deq s = (Answer (Inr (Some m)), s') \<and> rep s' (h + 1) ms \<and> cap s' = cap s"
    and deq_none: "rep s h [] \<Longrightarrow> deq s = (Answer (Inr None), s)"
begin

lemma serve_fifo:
  "rep s h ms \<Longrightarrow> h + length ms + length rs < limit \<Longrightarrow> serve enq deq s rs = fifo (cap s) h ms rs"
proof (induction rs arbitrary: s h ms)
  case (Cons r rs)
  show ?case
  proof (cases r)
    case (Put m)
    show ?thesis
    proof (cases "length ms < cap s")
      case True
      obtain s' where s': "enq m s = (Answer (Inr (h + length ms)), s')" "rep s' h (ms @ [m])" "cap s' = cap s"
        using enq_room [OF Cons.prems(1) True] Cons.prems(2) by force
      then show ?thesis using Put True Cons.IH [OF s'(2)] Cons.prems(2) by simp
    next
      case False
      then have "length ms = cap s" using rep_cap [OF Cons.prems(1)] by simp
      then show ?thesis using Put Cons enq_full [OF Cons.prems(1)] by simp
    qed
  next
    case Take
    show ?thesis
    proof (cases ms)
      case Nil
      then show ?thesis using Take Cons deq_none by simp
    next
      case (Cons m ms')
      then obtain s' where s': "deq s = (Answer (Inr (Some m)), s')" "rep s' (h + 1) ms'" "cap s' = cap s"
        using deq_some Cons.prems(1) by blast
      then show ?thesis using Take Cons Cons.IH [OF s'(2)] Cons.prems(2) by simp
    qed
  qed
qed simp

end

interpretation cq: bounded_fifo "enqueue enc NoWait" "dequeue dec None"
  "\<lambda>q h ms. represents dec q h ms \<and> (\<forall>m. dec (enc m) = Some m)" q_capacity "2 ^ 64"
  for enc :: "'m \<Rightarrow> bytes" and dec :: "bytes \<Rightarrow> 'm option"
proof (unfold_locales, goal_cases)
  case (1 q h ms)
  then show ?case by (auto simp: represents_def)
next
  case (2 q h ms m)
  then show ?case using enqueue_ok [of dec q h ms enc m NoWait] by blast
next
  case (3 q h ms m)
  then show ?case using enqueue_full [of dec q h ms enc NoWait m] by simp
next
  case (4 q h m ms)
  then show ?case using dequeue_ok [of dec q h m ms None] by blast
next
  case (5 q h)
  then show ?case using dequeue_empty by blast
qed

lemma num_div_256: "24415 div 256 = (95 :: nat)" "24415 mod 256 = (95 :: nat)"
  by simp_all

lemma slot_starts_with_underscores: "starts_with [95, 95] (le_bytes 8 n) \<longleftrightarrow> n mod 65536 = 24415"
proof -
  have e: "n mod 65536 = 256 * (n div 256 mod 256) + n mod 256" using mod_mult2_eq [of n 256 256] by simp
  have l: "n mod 256 < 256" by simp
  have u: "256 * b + a = 24415 \<longleftrightarrow> a = 95 \<and> b = 95" if "a < 256" for a b :: nat
  proof
    assume "256 * b + a = 24415"
    moreover have "(256 * b + a) div 256 = b" "(256 * b + a) mod 256 = a" using that by simp_all
    ultimately show "a = 95 \<and> b = 95" by (metis num_div_256)
  qed simp
  have m: "n mod 65536 = 24415 \<longleftrightarrow> n mod 256 = 95 \<and> n div 256 mod 256 = 95" unfolding e by (rule u [OF l])
  have tk: "take (length [95, 95 :: nat]) xs = [xs ! 0, xs ! 1]" if "length xs = 8" for xs :: bytes
    using that by (intro nth_equalityI) (auto simp: less_Suc_eq)
  show ?thesis unfolding starts_with_def tk [OF length_le_bytes] m by (simp add: le_bytes_nth)
qed

section \<open>Properties\<close>

text \<open>
  C7. The command queue is a FIFO queue of its capacity: any sequence of non-blocking enqueues and
  dequeues is answered exactly as by a list that appends at the end and pops at the front, with
  message positions counting up, \<open>QueueFullError\<close> exactly when \<open>capacity\<close> messages are
  unread and None exactly when there is none, across any number of wrap-arounds of the circular
  slots, as long as the positions stay below \<open>2 ^ 64\<close>.
\<close>

theorem command_queue_fifo:
  assumes "represents dec q h ms" "\<forall>m. dec (enc m) = Some m" "h + length ms + length rs < 2 ^ 64"
  shows "serve (enqueue enc NoWait) (dequeue dec None) q rs = fifo (q_capacity q) h ms rs"
  using cq.serve_fifo [of dec q h ms enc rs] assms by simp

theorem command_queue_fifo_witness:
  "\<exists>q. open_leader 2 [] = Inr q \<and>
     serve (enqueue id NoWait) (dequeue Some None) q [Put [7], Put [8], Put [9], Take, Put [9], Take, Take, Take] =
     fifo 2 0 [] [Put [7], Put [8], Put [9], Take, Put [9], Take, Take, Take]"
proof -
  obtain q where q: "open_leader 2 [] = Inr q" "represents Some q 0 ([] :: bytes list)" "q_capacity q = 2"
    using open_leader_fresh [of 2 Some] by auto
  have "serve (enqueue id NoWait) (dequeue Some None) q [Put [7], Put [8], Put [9], Take, Put [9], Take, Take, Take] =
     fifo (q_capacity q) 0 [] [Put [7], Put [8], Put [9], Take, Put [9], Take, Take, Take]"
    by (rule command_queue_fifo [OF q(2)]) simp_all
  then show ?thesis using q by auto
qed

text \<open>
  The other operations on a represented queue: \<open>peek\<close> shows the oldest message and changes
  nothing, \<open>dequeue_batch\<close> hands out the oldest \<open>n\<close> in order and frees exactly their slots,
  reopening the database after all processes are gone finds the same unread messages with
  matching semaphores, and \<open>clear\<close> leaves an empty queue with all slots free.
\<close>

theorem command_queue_bulk:
  assumes "represents dec q h ms"
  shows "peek dec q = Inr (case ms of [] \<Rightarrow> None | m # _ \<Rightarrow> Some m) \<and>
    (\<exists>q'. dequeue_batch dec n q = (Inr (take n ms), q') \<and> represents dec q' (h + min n (length ms)) (drop n ms)) \<and>
    (\<exists>q'. open_leader (q_capacity q) (q_db q) = Inr q' \<and> represents dec q' h ms) \<and>
    (\<exists>q'. clear d q = (Inr (), q') \<and> represents dec q' 0 [] \<and> q_sem q' = 0 \<and> q_space_sem q' = q_capacity q)"
proof -
  have c: "0 < q_capacity q" "q_capacity q \<le> 2 ^ 56" "holds dec q h ms" using assms by (simp_all add: represents_def holds_def)
  obtain q' where "clear d q = (Inr (), q')" "represents dec q' 0 []" "q_capacity q' = q_capacity q" "q_sem q' = 0"
    using clear_ok [OF c(1,2)] by blast
  moreover from this have "q_space_sem q' = q_capacity q" by (simp add: represents_def)
  ultimately show ?thesis
    using peek_ok [OF c(3)] dequeue_batch_ok [OF assms, of n] open_leader_ok [OF assms] by blast
qed

theorem command_queue_bulk_witness:
  "\<exists>q q'. open_leader 2 [] = Inr q \<and> enqueue id NoWait [7] q = (Answer (Inr 0), q') \<and> peek Some q' = Inr (Some [7])"
proof -
  obtain q where q: "open_leader 2 [] = Inr q" "represents Some q 0 ([] :: bytes list)" "q_capacity q = 2"
    using open_leader_fresh [of 2 Some] by auto
  obtain q' where q': "enqueue id NoWait [7] q = (Answer (Inr 0), q')" "represents Some q' 0 [[7]]"
    using enqueue_ok [OF q(2), of id "[7]" NoWait] q(3) by auto
  show ?thesis using command_queue_bulk [OF q'(2), of 1 True] q(1) q'(1) by auto
qed

text \<open>
  A slot is lost with every message the reader cannot decode: \<open>dequeue\<close> moves the head
  past it but frees its slot only when the message decodes, so from then on one slot fewer than
  the capacity can be used; a queue of capacity one refuses every later message, although empty.
\<close>

theorem corrupt_message_leaks_slot:
  assumes "represents dec q h (m # ms)"
  shows "\<exists>q'. dequeue (\<lambda>_. None :: 'm option) None q = (Answer (Inr None), q') \<and>
    queue_size q' = Inr (int (length ms)) \<and> q_space_sem q' + length ms + 1 = q_capacity q' \<and>
    (q_capacity q = 1 \<longrightarrow> fst (enqueue enc NoWait m' q') = Answer (Inl QueueFullError))"
proof -
  have h: "holds dec q h (m # ms)" and sp: "q_space_sem q + length ms + 1 = q_capacity q"
    using assms by (simp_all add: represents_def)
  have "get_message (\<lambda>_. None :: 'm option) (q_capacity q) h (q_db q) = Inr None"
    by (simp add: get_message_def circular_key_ok(1) [OF h] split: option.splits)
  then obtain db where db: "dequeue_txn (\<lambda>_. None :: 'm option) q = (Inr None, q\<lparr>q_db := db, q_space_sem := q_space_sem q + 0\<rparr>)"
    "holds dec (q\<lparr>q_db := db\<rparr>) (h + 1) ms" using dequeue_txn_step [OF h] by fastforce
  have "queue_size (q\<lparr>q_db := db\<rparr>) = Inr (int (length ms))"
    using holds_pointers(3) [OF db(2)] by (simp add: queue_size_def)
  then show ?thesis using db(1) sp by (auto simp: dequeue_def enqueue_def acquire_def queue_size_def)
qed

theorem corrupt_message_leaks_slot_witness:
  "\<exists>q q1 q2. open_leader 1 [] = Inr q \<and> enqueue id NoWait [1] q = (Answer (Inr 0), q1) \<and>
     dequeue (\<lambda>_. None :: bytes option) None q1 = (Answer (Inr None), q2) \<and> queue_size q2 = Inr 0 \<and>
     fst (enqueue id NoWait [2] q2) = Answer (Inl QueueFullError)"
proof -
  obtain q where q: "open_leader 1 [] = Inr q" "represents Some q 0 ([] :: bytes list)" "q_capacity q = 1"
    using open_leader_fresh [of 1 Some] by auto
  obtain q1 where q1: "enqueue id NoWait [1] q = (Answer (Inr 0), q1)" "represents Some q1 0 [[1]]" "q_capacity q1 = 1"
    using enqueue_ok [OF q(2), of id "[1]" NoWait] q(3) by auto
  show ?thesis using corrupt_message_leaks_slot [OF q1(2), of id "[2]"] q(1) q1 by auto
qed

text \<open>
  A blocking dequeue may come back empty-handed: a non-blocking dequeue takes the message
  without taking its count from the item semaphore, so the next \<open>dequeue(block=True)\<close>, even
  without a timeout, returns None on the empty queue instead of waiting.
\<close>

theorem blocking_dequeue_spurious:
  assumes "represents dec q h [m]"
  shows "\<exists>q'. dequeue dec None q = (Answer (Inr (Some m)), q') \<and> queue_size q' = Inr 0 \<and>
    fst (dequeue dec (Some w) q') = Answer (Inr None)"
proof -
  obtain q' where q': "dequeue dec None q = (Answer (Inr (Some m)), q')" "represents dec q' (h + 1) []" "q_sem q' = q_sem q"
    using dequeue_ok [OF assms, of None] by auto
  have "holds dec (q'\<lparr>q_sem := n\<rparr>) (h + 1) []" for n using q'(2) by (simp add: represents_def)
  then have "dequeue_txn dec (q'\<lparr>q_sem := n\<rparr>) = (Inr None, q'\<lparr>q_sem := n\<rparr>)" for n by (rule dequeue_txn_empty)
  moreover have "0 < q_sem q'" using represents_sem [OF assms] q'(3) by simp
  moreover have "txn_size (q_db q') = Inr 0" using holds_pointers(3) [of dec q' "h + 1" "[]"] q'(2) by (simp add: represents_def)
  ultimately show ?thesis using q'(1) by (auto simp: dequeue_def acquire_def queue_size_def)
qed

theorem blocking_dequeue_spurious_witness:
  "\<exists>q q1 q2. open_leader 1 [] = Inr q \<and> enqueue id NoWait [1] q = (Answer (Inr 0), q1) \<and>
     dequeue Some None q1 = (Answer (Inr (Some [1])), q2) \<and> fst (dequeue Some (Some Forever) q2) = Answer (Inr None)"
proof -
  obtain q where q: "open_leader 1 [] = Inr q" "represents Some q 0 ([] :: bytes list)" "q_capacity q = 1"
    using open_leader_fresh [of 1 Some] by auto
  obtain q1 where q1: "enqueue id NoWait [1] q = (Answer (Inr 0), q1)" "represents Some q1 0 [[1]]"
    using enqueue_ok [OF q(2), of id "[1]" NoWait] q(3) by auto
  show ?thesis using blocking_dequeue_spurious [OF q1(2), of Forever] q(1) q1 by blast
qed

text \<open>
  \<open>clear\<close> deletes the slots but one in 65536: it keeps every key that starts with two
  underscores, meant for the two pointers, and the little-endian key of a slot starts with them
  when its number ends in \<open>0x5f5f\<close>; the message of such a slot survives.
\<close>

theorem clear_keeps_underscore_slots:
  assumes "n < 2 ^ 56"
  shows "dict_get (q_db (snd (clear True q))) (le_bytes 8 n) =
    (if n mod 65536 = 24415 then dict_get (q_db q) (le_bytes 8 n) else None)"
proof -
  let ?db = "dict_set (dict_set (q_db q) head_key (le_bytes 8 0)) tail_key (le_bytes 8 0)"
  let ?P = "\<lambda>(key, _ :: bytes). starts_with [95, 95] key"
  note s = slot_starts_with_underscores [of n]
  have "map_of (filter ?P ?db) (le_bytes 8 n) = (if n mod 65536 = 24415 then dict_get ?db (le_bytes 8 n) else None)"
    using s filter_lookup [of ?P "le_bytes 8 n" ?db] by (auto simp: map_of_eq_None_iff)
  then show ?thesis
    using slot_keys [OF assms] by (simp add: clear_def set_head_def set_tail_def pack_Q_ok dict_get_set)
qed

theorem clear_keeps_underscore_slots_witness:
  "dict_get (q_db (snd (clear True
      \<lparr>q_capacity = 50000, q_db = [(le_bytes 8 24415, [1]), (le_bytes 8 24416, [2])], q_sem = 0, q_space_sem = 50000\<rparr>)))
    (le_bytes 8 24415) = Some [1]"
  using clear_keeps_underscore_slots [of 24415
      "\<lparr>q_capacity = 50000, q_db = [(le_bytes 8 24415, [1]), (le_bytes 8 24416, [2])], q_sem = 0, q_space_sem = 50000\<rparr>"]
  by simp
end
