(* ===== verification/Queue_Processes.thy ===== *)
theory Queue_Processes
  imports Command_Queue
begin

text \<open>
  Several processes on one command queue. LMDB write transactions are serialised and a
  semaphore operation is atomic, but between them other processes run: a producer that has
  acquired its slot has not written yet, and a batch consumer frees its slots one by one after
  its transaction. The step relation interleaves these sections in any order; an event records
  what was written or handed out.
\<close>

record queue_system =
  qs_queue :: command_queue
  qs_writers :: nat     \<comment> \<open>producers between \<open>_space_sem.acquire\<close> and their transaction\<close>
  qs_freeing :: nat     \<comment> \<open>releases that batch consumers still owe after their transaction\<close>

datatype 'm queue_event = Silent | Wrote 'm | Handed_out "'m list"

inductive queue_step ::
  "('m \<Rightarrow> bytes) \<Rightarrow> (bytes \<Rightarrow> 'm option) \<Rightarrow> queue_system \<Rightarrow> 'm queue_event \<Rightarrow> queue_system \<Rightarrow> bool"
  for enc dec where
  take_space: "acquire w (q_space_sem q) = Acquired n \<Longrightarrow>
    queue_step enc dec \<lparr>qs_queue = q, qs_writers = p, qs_freeing = f\<rparr> Silent
      \<lparr>qs_queue = q\<lparr>q_space_sem := n\<rparr>, qs_writers = Suc p, qs_freeing = f\<rparr>"
| writes: "enqueue_txn enc m q = (Inr pos, q') \<Longrightarrow>
    queue_step enc dec \<lparr>qs_queue = q, qs_writers = Suc p, qs_freeing = f\<rparr> (Wrote m)
      \<lparr>qs_queue = q', qs_writers = p, qs_freeing = f\<rparr>"
| take_item: "acquire w (q_sem q) = Acquired n \<Longrightarrow>
    queue_step enc dec \<lparr>qs_queue = q, qs_writers = p, qs_freeing = f\<rparr> Silent
      \<lparr>qs_queue = q\<lparr>q_sem := n\<rparr>, qs_writers = p, qs_freeing = f\<rparr>"
| reads: "dequeue_txn dec q = (Inr cmd, q') \<Longrightarrow>
    queue_step enc dec \<lparr>qs_queue = q, qs_writers = p, qs_freeing = f\<rparr>
      (Handed_out (case cmd of None \<Rightarrow> [] | Some m \<Rightarrow> [m])) \<lparr>qs_queue = q', qs_writers = p, qs_freeing = f\<rparr>"
| reads_batch: "batch_txn dec n q = (Inr (commands, k), q') \<Longrightarrow>
    queue_step enc dec \<lparr>qs_queue = q, qs_writers = p, qs_freeing = f\<rparr> (Handed_out commands)
      \<lparr>qs_queue = q', qs_writers = p, qs_freeing = f + k\<rparr>"
| frees: "queue_step enc dec \<lparr>qs_queue = q, qs_writers = p, qs_freeing = Suc f\<rparr> Silent
      \<lparr>qs_queue = release_space q, qs_writers = p, qs_freeing = f\<rparr>"

inductive queue_run ::
  "('m \<Rightarrow> bytes) \<Rightarrow> (bytes \<Rightarrow> 'm option) \<Rightarrow> queue_system \<Rightarrow> 'm queue_event list \<Rightarrow> queue_system \<Rightarrow> bool"
  for enc dec s where
  start: "queue_run enc dec s [] s"
| extend: "queue_run enc dec s es s' \<Longrightarrow> queue_step enc dec s' e s'' \<Longrightarrow> queue_run enc dec s (es @ [e]) s''"

fun written :: "'m queue_event list \<Rightarrow> 'm list" where
  "written [] = []"
| "written (Wrote m # es) = m # written es"
| "written (_ # es) = written es"

fun handed_out :: "'m queue_event list \<Rightarrow> 'm list" where
  "handed_out [] = []"
| "handed_out (Handed_out ms # es) = ms @ handed_out es"
| "handed_out (_ # es) = handed_out es"

lemma written_append [simp]: "written (a @ b) = written a @ written b"
  by (induction a rule: written.induct) auto

lemma handed_out_append [simp]: "handed_out (a @ b) = handed_out a @ handed_out b"
  by (induction a rule: handed_out.induct) auto

lemma length_written: "length (written es) \<le> length es"
  by (induction es rule: written.induct) auto

text \<open>The invariant: every slot is free, unread, granted to a producer or about to be freed.\<close>

definition system_holds :: "(bytes \<Rightarrow> 'm option) \<Rightarrow> queue_system \<Rightarrow> nat \<Rightarrow> 'm list \<Rightarrow> bool" where
  "system_holds dec s h ms \<longleftrightarrow>
     holds dec (qs_queue s) h ms \<and>
     q_space_sem (qs_queue s) + length ms + qs_writers s + qs_freeing s = q_capacity (qs_queue s)"

lemma step_holds:
  assumes "queue_step enc dec s e s'" "system_holds dec s h ms" "\<forall>m. dec (enc m) = Some m" "h + length ms + 1 < 2 ^ 64"
  shows "\<exists>h' ms'. system_holds dec s' h' ms' \<and> ms @ written [e] = handed_out [e] @ ms' \<and>
    h' + length ms' = h + length ms + length (written [e]) \<and> q_capacity (qs_queue s') = q_capacity (qs_queue s)"
  using assms(1,2)
proof (cases rule: queue_step.cases)
  case (take_space w q n p f)
  then show ?thesis
    using assms(2) by (intro exI [of _ h] exI [of _ ms]) (auto simp: system_holds_def acquire_def split: if_splits)
next
  case (writes m q pos q' p f)
  have h: "holds dec q h ms" and room: "length ms < q_capacity q" using assms(2) writes by (auto simp: system_holds_def)
  obtain db where "enqueue_txn enc m q = (Inr (h + length ms), q\<lparr>q_db := db, q_sem := q_sem q + 1\<rparr>)"
    "holds dec (q\<lparr>q_db := db\<rparr>) h (ms @ [m])"
    using enqueue_txn_ok [OF h room assms(4), of enc m] assms(3) by blast
  then show ?thesis
    using assms(2) writes by (intro exI [of _ h] exI [of _ "ms @ [m]"]) (auto simp: system_holds_def holds_def)
next
  case (take_item w q n p f)
  then show ?thesis using assms(2) by (intro exI [of _ h] exI [of _ ms]) (auto simp: system_holds_def)
next
  case (reads q cmd q' p f)
  have h: "holds dec q h ms" using assms(2) reads by (simp add: system_holds_def)
  show ?thesis
  proof (cases ms)
    case Nil
    then show ?thesis
      using assms(2) reads h dequeue_txn_empty [of dec q h dec] by (intro exI [of _ h] exI [of _ ms]) auto
  next
    case (Cons m ms')
    obtain db where "dequeue_txn dec q = (Inr (Some m), q\<lparr>q_db := db, q_space_sem := q_space_sem q + 1\<rparr>)"
      "holds dec (q\<lparr>q_db := db\<rparr>) (h + 1) ms'" using dequeue_txn_ok [OF h [unfolded Cons]] by blast
    then show ?thesis
      using assms(2) reads Cons by (intro exI [of _ "h + 1"] exI [of _ ms']) (auto simp: system_holds_def holds_def)
  qed
next
  case (reads_batch n q commands k q' p f)
  have h: "holds dec q h ms" using assms(2) reads_batch by (simp add: system_holds_def)
  obtain db where "batch_txn dec n q = (Inr (take n ms, min n (length ms)), q\<lparr>q_db := db\<rparr>)"
    "holds dec (q\<lparr>q_db := db\<rparr>) (h + min n (length ms)) (drop n ms)" using batch_txn_ok [OF h] by blast
  then show ?thesis
    using assms(2) reads_batch
    by (intro exI [of _ "h + min n (length ms)"] exI [of _ "drop n ms"]) (auto simp: system_holds_def holds_def)
next
  case (frees q p f)
  then show ?thesis
    using assms(2) by (intro exI [of _ h] exI [of _ ms]) (auto simp: system_holds_def release_space_def)
qed

lemma run_holds:
  assumes "queue_run enc dec s es s'" "system_holds dec s 0 []" "\<forall>m. dec (enc m) = Some m" "length es < 2 ^ 64"
  shows "\<exists>h ms. system_holds dec s' h ms \<and> written es = handed_out es @ ms \<and> h + length ms = length (written es) \<and>
    q_capacity (qs_queue s') = q_capacity (qs_queue s)"
  using assms(1,4)
proof (induction rule: queue_run.induct)
  case start
  then show ?case using assms(2) by auto
next
  case (extend es s' e s'')
  then obtain h ms where i: "system_holds dec s' h ms" "written es = handed_out es @ ms" "h + length ms = length (written es)"
    "q_capacity (qs_queue s') = q_capacity (qs_queue s)" by auto
  have "h + length ms + 1 < 2 ^ 64" using i(3) length_written [of es] extend.prems by simp
  then obtain h' ms' where "system_holds dec s'' h' ms'" "ms @ written [e] = handed_out [e] @ ms'"
    "h' + length ms' = h + length ms + length (written [e])" "q_capacity (qs_queue s'') = q_capacity (qs_queue s')"
    using step_holds [OF extend.hyps(2) i(1) assms(3)] by blast
  moreover from this(2) have "length ms + length (written [e]) = length (handed_out [e]) + length ms'"
    by (metis length_append)
  ultimately show ?case using i by (intro exI [of _ h'] exI [of _ ms']) auto
qed

section \<open>Properties\<close>

text \<open>
  C8. No message is lost, duplicated, reordered or overwritten, however the processes interleave:
  in every run from an empty queue of any mix of enqueues, single and batch dequeues, the
  messages handed out so far are a prefix of the messages written so far, the rest is what the
  queue holds, and never more than its capacity. When no process is inside an operation, the
  free-slot semaphore counts exactly the free slots.
\<close>

theorem queue_interleavings_fifo:
  assumes "queue_run enc dec \<lparr>qs_queue = q, qs_writers = 0, qs_freeing = 0\<rparr> es s" "represents dec q 0 []"
    and "\<forall>m. dec (enc m) = Some m" "length es < 2 ^ 64"
  shows "\<exists>h ms. written es = handed_out es @ ms \<and> holds dec (qs_queue s) h ms \<and> length ms \<le> q_capacity q \<and>
    (qs_writers s = 0 \<and> qs_freeing s = 0 \<longrightarrow> q_space_sem (qs_queue s) = q_capacity q - length ms)"
proof -
  have "system_holds dec \<lparr>qs_queue = q, qs_writers = 0, qs_freeing = 0\<rparr> 0 []"
    using assms(2) by (simp add: system_holds_def represents_def)
  then obtain h ms where i: "system_holds dec s h ms" "written es = handed_out es @ ms"
    "q_capacity (qs_queue s) = q_capacity q"
    using run_holds [OF assms(1) _ assms(3,4)] by auto
  have "length ms \<le> q_capacity q" "qs_writers s = 0 \<and> qs_freeing s = 0 \<longrightarrow> q_space_sem (qs_queue s) = q_capacity q - length ms"
    using i(1) unfolding i(3) [symmetric] system_holds_def by auto
  then show ?thesis using i(1,2) unfolding system_holds_def by blast
qed

theorem queue_interleavings_fifo_witness:
  "\<exists>q s es. open_leader 1 [] = Inr q \<and>
     queue_run id Some \<lparr>qs_queue = q, qs_writers = 0, qs_freeing = 0\<rparr> es s \<and> written es = [[7]] \<and> handed_out es = [] \<and>
     (\<exists>h. holds Some (qs_queue s) h [[7]])"
proof -
  obtain q where q: "open_leader 1 [] = Inr q" "represents Some q 0 ([] :: bytes list)" "q_capacity q = 1"
    using open_leader_fresh [of 1 Some] by auto
  let ?s0 = "\<lparr>qs_queue = q, qs_writers = 0, qs_freeing = 0\<rparr>"
  let ?q1 = "q\<lparr>q_space_sem := 0\<rparr>"
  have "acquire NoWait (q_space_sem q) = Acquired 0" using q(2,3) by (simp add: represents_def acquire_def)
  then have s1: "queue_step id Some ?s0 Silent \<lparr>qs_queue = ?q1, qs_writers = Suc 0, qs_freeing = 0\<rparr>" by (rule take_space)
  have "holds Some ?q1 0 ([] :: bytes list)" using q(2) by (simp add: represents_def)
  then obtain q2 where "enqueue_txn id [7] ?q1 = (Inr 0, q2)" using enqueue_txn_ok [of Some ?q1 0 "[]" id "[7]"] q(3) by auto
  then have s2: "queue_step id Some \<lparr>qs_queue = ?q1, qs_writers = Suc 0, qs_freeing = 0\<rparr> (Wrote [7])
      \<lparr>qs_queue = q2, qs_writers = 0, qs_freeing = 0\<rparr>" by (rule writes)
  have run: "queue_run id Some ?s0 (([] @ [Silent]) @ [Wrote [7]]) \<lparr>qs_queue = q2, qs_writers = 0, qs_freeing = 0\<rparr>"
    by (rule queue_run.extend [OF queue_run.extend [OF queue_run.start s1] s2])
  have "\<exists>h. holds Some q2 h [[7]]" using queue_interleavings_fifo [OF run q(2)] by auto
  then show ?thesis
    using q(1) run
    by (intro exI [of _ q] exI [of _ "\<lparr>qs_queue = q2, qs_writers = 0, qs_freeing = 0\<rparr>"] exI [of _ "[Silent, Wrote [7]]"]) auto
qed

end
