(* ===== verification/Bucket_Comm.thy ===== *)
theory Bucket_Comm
  imports Bucket_Transfer
begin

text \<open>
  \<^verbatim>\<open>src/etha/comm/comm_methods.py\<close>, \<open>bucket_comm\<close>: the pipeline that runs the buckets of a
  rank. The world holds the rank's memory, its process groups, the answers the network will
  give to \<open>is_completed\<close> (once they are used up everything has completed) and a log of what
  happened to which bucket. What arrives for a bucket is an argument.
\<close>

section \<open>Operations on the world\<close>

datatype event = Prepared bucket | Launched bucket | Finalized bucket

record world =
  w_mem :: memory
  w_pg :: pg_state
  w_polls :: "bool list"
  w_log :: "event list"

type_synonym network = "bucket \<Rightarrow> event list \<Rightarrow> byte list"

definition note_event :: "event \<Rightarrow> world \<Rightarrow> world" where
  "note_event e w = w\<lparr>w_log := w_log w @ [e]\<rparr>"

definition do_prepare :: "torch \<Rightarrow> bucket_run \<Rightarrow> world \<Rightarrow> (bucket_run \<times> world) result" where
  "do_prepare T r w =
     res_bind (bucket_prepare T r (w_mem w)) (\<lambda>(r', m). Inr (r', note_event (Prepared (br_bucket r)) (w\<lparr>w_mem := m\<rparr>)))"

definition do_launch :: "bucket_run \<Rightarrow> world \<Rightarrow> (bool \<times> bucket_run \<times> world) result" where
  "do_launch r w =
     res_bind (bucket_launch r (w_pg w)) (\<lambda>(ok, r', pg). Inr (ok, r', note_event (Launched (br_bucket r)) (w\<lparr>w_pg := pg\<rparr>)))"

text \<open>Whether \<open>work.is_completed()\<close> is asked.\<close>

definition asks :: "bucket_run \<Rightarrow> bool" where
  "asks r \<longleftrightarrow> br_work r \<noteq> None \<and> br_device r \<noteq> Some Cpu"

definition do_is_complete :: "network \<Rightarrow> bucket_run \<Rightarrow> world \<Rightarrow> (bool \<times> bucket_run \<times> world) result" where
  "do_is_complete net r w =
     res_bind (bucket_is_complete (w_polls w = [] \<or> hd (w_polls w)) (net (br_bucket r) (w_log w)) r (w_mem w)) (\<lambda>(ok, r', m).
     Inr (ok, r', w\<lparr>w_mem := m, w_polls := (if asks r then tl (w_polls w) else w_polls w)\<rparr>))"

definition do_finalize :: "torch \<Rightarrow> network \<Rightarrow> bucket_run \<Rightarrow> world \<Rightarrow> (bucket_run \<times> world) result" where
  "do_finalize T net r w =
     res_bind (bucket_finalize T (net (br_bucket r) (w_log w)) r (w_mem w)) (\<lambda>(r', m).
     Inr (r', note_event (Finalized (br_bucket r)) (w\<lparr>w_mem := m\<rparr>)))"

section \<open>The sequential mode\<close>

fun run_sequential :: "torch \<Rightarrow> network \<Rightarrow> bucket_run list \<Rightarrow> world \<Rightarrow> world result" where
  "run_sequential T net [] w = Inr w"
| "run_sequential T net (r # rs) w =
     res_bind (do_prepare T r w) (\<lambda>(r1, w1).
     res_bind (do_launch r1 w1) (\<lambda>(_, r2, w2).
     res_bind (do_finalize T net r2 w2) (\<lambda>(_, w3).
     run_sequential T net rs w3)))"

section \<open>The overlapping mode\<close>

record channel =
  ch_candidate :: "bucket_run list"
  ch_prepared :: "bucket_run list"
  ch_in_flight :: "bucket_run list"

type_synonym channels = "(channel_key, channel) dict"

definition new_channel :: channel where
  "new_channel = \<lparr>ch_candidate = [], ch_prepared = [], ch_in_flight = []\<rparr>"

fun fill_channels :: "bucket_run list \<Rightarrow> channels \<Rightarrow> channels result" where
  "fill_channels [] cs = Inr cs"
| "fill_channels (r # rs) cs =
     res_bind (Bucket_key (br_bucket r)) (\<lambda>k.
     let ch = dict_get_or cs k new_channel in
     fill_channels rs (dict_set cs k (ch\<lparr>ch_candidate := ch_candidate ch @ [r]\<rparr>)))"

definition has_work :: "channels \<Rightarrow> bool" where
  "has_work cs \<longleftrightarrow> list_ex (\<lambda>(_, ch). ch_candidate ch \<noteq> [] \<or> ch_prepared ch \<noteq> [] \<or> ch_in_flight ch \<noteq> []) cs"

datatype phase = Preparing | Launching | Finalizing

text \<open>The body of the \<open>for\<close> loop over the channels, for each of the three loops.\<close>

fun phase_step :: "torch \<Rightarrow> network \<Rightarrow> nat \<Rightarrow> phase \<Rightarrow> channel \<Rightarrow> world \<Rightarrow> (bool \<times> channel \<times> world) result" where
  "phase_step T net max_in_flight Preparing ch w =
     (case ch_candidate ch of
        [] \<Rightarrow> Inr (False, ch, w)
      | r # rs \<Rightarrow>
          if length (ch_prepared ch) + length (ch_in_flight ch) < max_in_flight then
            res_bind (do_prepare T r w) (\<lambda>(r', w').
            Inr (True, ch\<lparr>ch_candidate := rs, ch_prepared := ch_prepared ch @ [r']\<rparr>, w'))
          else Inr (False, ch, w))"
| "phase_step T net max_in_flight Launching ch w =
     (case ch_prepared ch of
        [] \<Rightarrow> Inr (False, ch, w)
      | r # rs \<Rightarrow>
          res_bind (do_launch r w) (\<lambda>(ok, r', w').
          if ok then Inr (True, ch\<lparr>ch_prepared := rs, ch_in_flight := ch_in_flight ch @ [r']\<rparr>, w')
          else Inr (False, ch\<lparr>ch_prepared := r' # rs\<rparr>, w')))"
| "phase_step T net max_in_flight Finalizing ch w =
     (case ch_in_flight ch of
        [] \<Rightarrow> Inr (False, ch, w)
      | r # rs \<Rightarrow>
          res_bind (do_is_complete net r w) (\<lambda>(ok, r', w').
          if ok then res_bind (do_finalize T net r' w') (\<lambda>(_, w''). Inr (True, ch\<lparr>ch_in_flight := rs\<rparr>, w''))
          else Inr (False, ch\<lparr>ch_in_flight := r' # rs\<rparr>, w')))"

fun channel_pass :: "torch \<Rightarrow> network \<Rightarrow> nat \<Rightarrow> phase \<Rightarrow> channels \<Rightarrow> world \<Rightarrow> (bool \<times> channels \<times> world) result" where
  "channel_pass T net n ph [] w = Inr (False, [], w)"
| "channel_pass T net n ph ((k, ch) # cs) w =
     res_bind (phase_step T net n ph ch w) (\<lambda>(p, ch', w1).
     res_bind (channel_pass T net n ph cs w1) (\<lambda>(q, cs', w2). Inr (p \<or> q, (k, ch') # cs', w2)))"

definition weight :: "channel \<Rightarrow> nat" where
  "weight ch = 3 * length (ch_candidate ch) + 2 * length (ch_prepared ch) + length (ch_in_flight ch)"

abbreviation total_weight :: "channels \<Rightarrow> nat" where
  "total_weight cs \<equiv> sum_list (map (\<lambda>kc. weight (snd kc)) cs)"

lemma launch_true:
  assumes "bucket_launch r pg = Inr (ok, r', pg')"
  shows "ok \<and> br_bucket r' = br_bucket r"
proof (cases "bucket_transport (br_bucket r)")
  case (Inr t)
  then show ?thesis using assms by (cases t) (auto simp: bucket_launch_def Let_def res_simps split_def)
qed (use assms in \<open>simp add: bucket_launch_def Let_def\<close>)

lemma prepare_bucket: "bucket_prepare T r m = Inr (r', m') \<Longrightarrow> br_bucket r' = br_bucket r"
  by (auto simp: bucket_prepare_def res_simps split_def split: list.splits)

lemma do_launch_true:
  assumes "do_launch r w = Inr (ok, r', w')"
  shows "ok \<and> br_bucket r' = br_bucket r \<and> w_polls w' = w_polls w \<and> w_log w' = w_log w @ [Launched (br_bucket r)]"
proof -
  obtain pg where l: "bucket_launch r (w_pg w) = Inr (ok, r', pg)" "w' = note_event (Launched (br_bucket r)) (w\<lparr>w_pg := pg\<rparr>)"
    using assms by (auto simp: do_launch_def res_simps)
  then show ?thesis using launch_true [OF l(1)] by (simp add: note_event_def)
qed

lemma do_prepare_facts:
  assumes "do_prepare T r w = Inr (r', w')"
  shows "br_bucket r' = br_bucket r \<and> w_polls w' = w_polls w \<and> w_log w' = w_log w @ [Prepared (br_bucket r)]"
proof -
  obtain m where "bucket_prepare T r (w_mem w) = Inr (r', m)" "w' = note_event (Prepared (br_bucket r)) (w\<lparr>w_mem := m\<rparr>)"
    using assms by (auto simp: do_prepare_def res_simps)
  then show ?thesis using prepare_bucket by (simp add: note_event_def)
qed

lemma do_finalize_facts: "do_finalize T net r w = Inr (r', w') \<Longrightarrow> w_polls w' = w_polls w \<and> w_log w' = w_log w @ [Finalized (br_bucket r)]"
  by (auto simp: do_finalize_def res_simps note_event_def)

lemma do_is_complete_facts:
  assumes "do_is_complete net r w = Inr (ok, r', w')"
  shows "br_bucket r' = br_bucket r \<and> w_log w' = w_log w \<and> length (w_polls w') \<le> length (w_polls w) \<and> (\<not> ok \<longrightarrow> length (w_polls w') < length (w_polls w))"
  using assms
  by (cases "w_polls w") (auto simp: do_is_complete_def bucket_is_complete_def work_wait_def asks_def res_simps split_def split: if_splits)

text \<open>A step that makes progress takes one bucket one stage further; one that does not leaves the queues alone.\<close>

lemma phase_step_weight:
  assumes "phase_step T net n ph ch w = Inr (p, ch', w')"
  shows "weight ch = weight ch' + (if p then 1 else 0)" "length (w_polls w') \<le> length (w_polls w)"
proof -
  have "weight ch = weight ch' + (if p then 1 else 0) \<and> length (w_polls w') \<le> length (w_polls w)"
  proof (cases ph)
    case Preparing
    then show ?thesis using assms do_prepare_facts
      by (auto simp: weight_def res_simps split: list.splits if_splits)
  next
    case Launching
    then show ?thesis using assms do_launch_true
      by (auto simp: weight_def res_simps split: list.splits if_splits)
  next
    case Finalizing
    then show ?thesis using assms
      by (auto simp: weight_def res_simps split: list.splits if_splits dest!: do_is_complete_facts do_finalize_facts)
  qed
  then show "weight ch = weight ch' + (if p then 1 else 0)" "length (w_polls w') \<le> length (w_polls w)" by blast+
qed

lemma pass_weight:
  "channel_pass T net n ph cs w = Inr (p, cs', w') \<Longrightarrow>
     (if p then total_weight cs' < total_weight cs else total_weight cs' = total_weight cs) \<and> length (w_polls w') \<le> length (w_polls w)"
proof (induction cs arbitrary: p cs' w)
  case (Cons c cs)
  obtain k ch where c: "c = (k, ch)" by (cases c)
  obtain p1 ch1 w1 q cs2 where s: "phase_step T net n ph ch w = Inr (p1, ch1, w1)" "channel_pass T net n ph cs w1 = Inr (q, cs2, w')"
    "p = (p1 \<or> q)" "cs' = (k, ch1) # cs2" using Cons.prems by (clarsimp simp: c res_simps)
  show ?case using Cons.IH [OF s(2)] phase_step_weight [OF s(1)] s(3,4) c by (auto split: if_splits)
qed auto

text \<open>\<open>while made_progress\<close>.\<close>

function while_progress :: "torch \<Rightarrow> network \<Rightarrow> nat \<Rightarrow> phase \<Rightarrow> channels \<Rightarrow> world \<Rightarrow> (channels \<times> world) result" where
  "while_progress T net n ph cs w =
     (case channel_pass T net n ph cs w of
        Inl e \<Rightarrow> Inl e
      | Inr (made_progress, cs', w') \<Rightarrow> if made_progress then while_progress T net n ph cs' w' else Inr (cs', w'))"
  by auto
termination
proof (relation "measure (\<lambda>(T, net, n, ph, cs, w). total_weight cs)")
  show "((T, net, n, ph, cs', w'), (T, net, n, ph, cs, w)) \<in> measure (\<lambda>(T, net, n, ph, cs, w). total_weight cs)"
    if "channel_pass T net n ph cs w = Inr x" "(p, y) = x" "(cs', w') = y" p for T net n ph cs w x p y cs' w'
    using that pass_weight [of T net n ph cs w p cs' w'] by auto
qed simp

declare while_progress.simps [simp del]

definition comm_round :: "torch \<Rightarrow> network \<Rightarrow> nat \<Rightarrow> channels \<Rightarrow> world \<Rightarrow> (channels \<times> world) result" where
  "comm_round T net n cs w =
     res_bind (while_progress T net n Preparing cs w) (\<lambda>(cs1, w1).
     res_bind (while_progress T net n Launching cs1 w1) (\<lambda>(cs2, w2).
     while_progress T net n Finalizing cs2 w2))"

text \<open>\<open>while _has_work()\<close>: the value is \<open>None\<close> when the loop never ends.\<close>

partial_function (option) comm_loop :: "torch \<Rightarrow> network \<Rightarrow> nat \<Rightarrow> channels \<Rightarrow> world \<Rightarrow> world result option" where
  "comm_loop T net n cs w =
     (if has_work cs then
        (case comm_round T net n cs w of
           Inl e \<Rightarrow> Some (Inl e)
         | Inr (cs', w') \<Rightarrow> comm_loop T net n cs' w')
      else Some (Inr w))"

declare comm_loop.simps [code]

definition bucket_comm :: "torch \<Rightarrow> network \<Rightarrow> bucket_run list \<Rightarrow> nat \<Rightarrow> bool \<Rightarrow> world \<Rightarrow> world result option" where
  "bucket_comm T net buckets max_in_flight sequential w =
     (if sequential then Some (run_sequential T net buckets w)
      else case fill_channels buckets [] of
        Inl e \<Rightarrow> Some (Inl e)
      | Inr cs \<Rightarrow> comm_loop T net max_in_flight cs w)"

section \<open>The pipeline ends\<close>

text \<open>What a pass without progress leaves behind.\<close>

definition stalled :: "nat \<Rightarrow> phase \<Rightarrow> channel \<Rightarrow> bool" where
  "stalled n ph ch \<longleftrightarrow> (case ph of
     Preparing \<Rightarrow> ch_candidate ch = [] \<or> n \<le> length (ch_prepared ch) + length (ch_in_flight ch)
   | Launching \<Rightarrow> ch_prepared ch = []
   | Finalizing \<Rightarrow> ch_in_flight ch = [])"

lemma phase_step_stalled:
  assumes "phase_step T net n ph ch w = Inr (False, ch', w')" "length (w_polls w') = length (w_polls w)"
  shows "stalled n ph ch \<and> ch' = ch \<and> w' = w"
  using assms
proof (cases ph)
  case Preparing
  then show ?thesis using assms by (auto simp: stalled_def res_simps split: list.splits if_splits)
next
  case Launching
  then show ?thesis using assms by (auto simp: stalled_def res_simps split: list.splits if_splits dest!: do_launch_true)
next
  case Finalizing
  then show ?thesis using assms by (auto simp: stalled_def res_simps split: list.splits if_splits dest!: do_is_complete_facts do_finalize_facts)
qed

lemma pass_stalled:
  "channel_pass T net n ph cs w = Inr (False, cs', w') \<Longrightarrow> length (w_polls w') = length (w_polls w) \<Longrightarrow>
     cs' = cs \<and> w' = w \<and> (\<forall>(k, ch) \<in> set cs. stalled n ph ch)"
proof (induction cs arbitrary: cs' w)
  case (Cons c cs)
  obtain k ch where c: "c = (k, ch)" by (cases c)
  obtain ch1 w1 cs2 where s: "phase_step T net n ph ch w = Inr (False, ch1, w1)" "channel_pass T net n ph cs w1 = Inr (False, cs2, w')"
    "cs' = (k, ch1) # cs2" using Cons.prems(1) by (clarsimp simp: c res_simps)
  have "length (w_polls w') \<le> length (w_polls w1)" "length (w_polls w1) \<le> length (w_polls w)"
    using pass_weight [OF s(2)] phase_step_weight [OF s(1)] by simp_all
  then have "length (w_polls w1) = length (w_polls w)" "length (w_polls w') = length (w_polls w1)" using Cons.prems(2) by simp_all
  then show ?case using Cons.IH [OF s(2)] phase_step_stalled [OF s(1)] s(3) c by auto
qed simp

abbreviation fuel_of :: "channels \<Rightarrow> world \<Rightarrow> nat" where
  "fuel_of cs w \<equiv> total_weight cs + length (w_polls w)"

lemma while_progress_fuel:
  "while_progress T net n ph cs w = Inr (cs', w') \<Longrightarrow>
     fuel_of cs' w' \<le> fuel_of cs w \<and> length (w_polls w') \<le> length (w_polls w) \<and>
     (fuel_of cs' w' = fuel_of cs w \<longrightarrow> cs' = cs \<and> w' = w \<and> (\<forall>(k, ch) \<in> set cs. stalled n ph ch))"
proof (induction T net n ph cs w arbitrary: cs' w' rule: while_progress.induct)
  case (1 T net n ph cs w)
  obtain p cs1 w1 where p: "channel_pass T net n ph cs w = Inr (p, cs1, w1)"
    using "1.prems" by (cases "channel_pass T net n ph cs w") (auto simp: while_progress.simps [of T net n ph cs w])
  note pw = pass_weight [OF p]
  show ?case
  proof (cases p)
    case True
    then have "while_progress T net n ph cs1 w1 = Inr (cs', w')" using "1.prems" p by (simp add: while_progress.simps [of T net n ph cs w])
    from "1.IH" [OF p refl refl True this] show ?thesis using pw True by auto
  next
    case False
    then have "cs' = cs1" "w' = w1" using "1.prems" p by (simp_all add: while_progress.simps [of T net n ph cs w])
    then show ?thesis using pw False pass_stalled [of T net n ph cs w cs1 w1] p by auto
  qed
qed

lemma comm_round_fuel:
  assumes "comm_round T net n cs w = Inr (cs', w')" "has_work cs" "0 < n"
  shows "fuel_of cs' w' < fuel_of cs w"
proof -
  obtain cs1 w1 cs2 w2 where s: "while_progress T net n Preparing cs w = Inr (cs1, w1)" "while_progress T net n Launching cs1 w1 = Inr (cs2, w2)"
    "while_progress T net n Finalizing cs2 w2 = Inr (cs', w')" using assms(1) by (auto simp: comm_round_def res_simps)
  note f = while_progress_fuel [OF s(1)] while_progress_fuel [OF s(2)] while_progress_fuel [OF s(3)]
  have "fuel_of cs' w' \<noteq> fuel_of cs w"
  proof
    assume eq: "fuel_of cs' w' = fuel_of cs w"
    have "cs1 = cs" "w1 = w" "\<forall>(k, ch) \<in> set cs. stalled n Preparing ch" using f eq by auto
    moreover have "cs2 = cs1" "w2 = w1" "\<forall>(k, ch) \<in> set cs1. stalled n Launching ch" using f eq by auto
    moreover have "\<forall>(k, ch) \<in> set cs2. stalled n Finalizing ch" using f eq by auto
    ultimately have "\<forall>(k, ch) \<in> set cs. ch_candidate ch = [] \<and> ch_prepared ch = [] \<and> ch_in_flight ch = []"
      using assms(3) by (fastforce simp: stalled_def)
    then show False using assms(2) by (auto simp: has_work_def list_ex_iff)
  qed
  then show ?thesis using f by linarith
qed

lemma comm_loop_returns: "0 < n \<Longrightarrow> \<exists>res. comm_loop T net n cs w = Some res"
proof (induction "fuel_of cs w" arbitrary: cs w rule: less_induct)
  case less
  show ?case
  proof (cases "has_work cs")
    case True
    show ?thesis
    proof (cases "comm_round T net n cs w")
      case (Inl e)
      then show ?thesis using True by (simp add: comm_loop.simps)
    next
      case (Inr x)
      obtain cs' w' where x: "x = (cs', w')" by (cases x)
      then have "fuel_of cs' w' < fuel_of cs w" using comm_round_fuel [of T net n cs w cs' w'] Inr True less.prems by simp
      from less.hyps [OF this less.prems] show ?thesis using True Inr x by (simp add: comm_loop.simps [of T net n cs w])
    qed
  qed (simp add: comm_loop.simps)
qed

section \<open>What happens to each bucket\<close>

definition prepared_on :: "channel_key \<Rightarrow> event list \<Rightarrow> bucket list" where
  "prepared_on k es = filter (on_channel k) (concat (map (\<lambda>e. case e of Prepared b \<Rightarrow> [b] | _ \<Rightarrow> []) es))"

definition launched_on :: "channel_key \<Rightarrow> event list \<Rightarrow> bucket list" where
  "launched_on k es = filter (on_channel k) (concat (map (\<lambda>e. case e of Launched b \<Rightarrow> [b] | _ \<Rightarrow> []) es))"

definition finalized_on :: "channel_key \<Rightarrow> event list \<Rightarrow> bucket list" where
  "finalized_on k es = filter (on_channel k) (concat (map (\<lambda>e. case e of Finalized b \<Rightarrow> [b] | _ \<Rightarrow> []) es))"

lemmas on_defs = prepared_on_def launched_on_def finalized_on_def

lemma on_append [simp]:
  "prepared_on k (es @ [e]) = prepared_on k es @ prepared_on k [e]" "launched_on k (es @ [e]) = launched_on k es @ launched_on k [e]"
  "finalized_on k (es @ [e]) = finalized_on k es @ finalized_on k [e]"
  by (simp_all add: on_defs)

lemma on_single [simp]:
  "prepared_on k [Prepared b] = (if on_channel k b then [b] else [])" "prepared_on k [Launched b] = []" "prepared_on k [Finalized b] = []"
  "launched_on k [Launched b] = (if on_channel k b then [b] else [])" "launched_on k [Prepared b] = []" "launched_on k [Finalized b] = []"
  "finalized_on k [Finalized b] = (if on_channel k b then [b] else [])" "finalized_on k [Prepared b] = []" "finalized_on k [Launched b] = []"
  by (simp_all add: on_defs)

lemma on_Nil [simp]: "prepared_on k [] = []" "launched_on k [] = []" "finalized_on k [] = []"
  by (simp_all add: on_defs)

text \<open>
  The queues of a channel are what its part of the log says: the buckets given to it are those
  prepared and those still to come, those prepared are the launched ones and the waiting ones,
  those launched are the finalized ones and the ones in flight.
\<close>

definition channel_inv :: "nat \<Rightarrow> (channel_key \<Rightarrow> bucket list) \<Rightarrow> event list \<Rightarrow> channel_key \<Rightarrow> channel \<Rightarrow> bool" where
  "channel_inv n given es k ch \<longleftrightarrow>
     (\<forall>r \<in> set (ch_candidate ch @ ch_prepared ch @ ch_in_flight ch). on_channel k (br_bucket r)) \<and>
     given k = prepared_on k es @ map br_bucket (ch_candidate ch) \<and>
     prepared_on k es = launched_on k es @ map br_bucket (ch_prepared ch) \<and>
     launched_on k es = finalized_on k es @ map br_bucket (ch_in_flight ch) \<and>
     length (ch_prepared ch) + length (ch_in_flight ch) \<le> n"

text \<open>A log is in order when at every moment, on every channel, no bucket is ahead of its stage or of its turn and at most \<open>n\<close> are under way.\<close>

definition orderly :: "nat \<Rightarrow> event list \<Rightarrow> bool" where
  "orderly n es \<longleftrightarrow> (\<forall>k. (\<exists>xs ys. prepared_on k es = launched_on k es @ xs \<and> launched_on k es = finalized_on k es @ ys \<and> length xs + length ys \<le> n))"

definition always_orderly :: "nat \<Rightarrow> event list \<Rightarrow> bool" where
  "always_orderly n es \<longleftrightarrow> (\<forall>i \<le> length es. orderly n (take i es))"

lemma always_orderly_snoc: "always_orderly n es \<Longrightarrow> orderly n (es @ [e]) \<Longrightarrow> always_orderly n (es @ [e])"
  by (auto simp: always_orderly_def le_Suc_eq)

definition on_key :: "channel_key \<Rightarrow> event \<Rightarrow> bool" where
  "on_key k e \<longleftrightarrow> (case e of Prepared b \<Rightarrow> on_channel k b | Launched b \<Rightarrow> on_channel k b | Finalized b \<Rightarrow> on_channel k b)"

lemma other_key: "on_key k e \<Longrightarrow> k' \<noteq> k \<Longrightarrow> prepared_on k' [e] = [] \<and> launched_on k' [e] = [] \<and> finalized_on k' [e] = []"
  by (cases e) (auto simp: on_key_def)

lemma orderly_snoc:
  assumes "always_orderly n es" "on_key k e" "channel_inv n given (es @ [e]) k ch"
  shows "always_orderly n (es @ [e])"
proof (rule always_orderly_snoc [OF assms(1)])
  have o: "orderly n es" using assms(1) unfolding always_orderly_def by (metis order_refl take_all)
  show "orderly n (es @ [e])"
    unfolding orderly_def
  proof
    fix k'
    show "\<exists>xs ys. prepared_on k' (es @ [e]) = launched_on k' (es @ [e]) @ xs \<and> launched_on k' (es @ [e]) = finalized_on k' (es @ [e]) @ ys \<and> length xs + length ys \<le> n"
    proof (cases "k' = k")
      case True
      then show ?thesis using assms(3) unfolding channel_inv_def
        by (intro exI [of _ "map br_bucket (ch_prepared ch)"] exI [of _ "map br_bucket (ch_in_flight ch)"]) simp
    next
      case False
      then show ?thesis using other_key [OF assms(2) False] o [unfolded orderly_def, rule_format, of k'] by simp
    qed
  qed
qed

lemma phase_step_inv:
  assumes "phase_step T net n ph ch w = Inr (p, ch', w')" "channel_inv n given (w_log w) k ch"
  shows "channel_inv n given (w_log w') k ch' \<and> (w_log w' = w_log w \<or> (\<exists>e. on_key k e \<and> w_log w' = w_log w @ [e]))"
proof (cases ph)
  case Preparing
  show ?thesis
  proof (cases "ch_candidate ch")
    case (Cons r rs)
    show ?thesis
    proof (cases "length (ch_prepared ch) + length (ch_in_flight ch) < n")
      case True
      then obtain r' where s: "do_prepare T r w = Inr (r', w')" "ch' = ch\<lparr>ch_candidate := rs, ch_prepared := ch_prepared ch @ [r']\<rparr>"
        using assms(1) Preparing Cons by (auto simp: res_simps)
      note f = do_prepare_facts [OF s(1)]
      have "on_channel k (br_bucket r)" using assms(2) Cons by (simp add: channel_inv_def)
      then show ?thesis using assms(2) Cons s(2) f True by (auto simp: channel_inv_def on_key_def)
    qed (use assms Preparing Cons in auto)
  qed (use assms Preparing in auto)
next
  case Launching
  show ?thesis
  proof (cases "ch_prepared ch")
    case (Cons r rs)
    obtain ok r' w1 where s: "do_launch r w = Inr (ok, r', w1)" using assms(1) Launching Cons by (auto simp: res_simps)
    note f = do_launch_true [OF s]
    have ch': "ch' = ch\<lparr>ch_prepared := rs, ch_in_flight := ch_in_flight ch @ [r']\<rparr>" "w1 = w'" using assms(1) Launching Cons s f by auto
    have "on_channel k (br_bucket r)" using assms(2) Cons by (simp add: channel_inv_def)
    then show ?thesis using assms(2) Cons ch' f by (auto simp: channel_inv_def on_key_def)
  qed (use assms Launching in auto)
next
  case Finalizing
  show ?thesis
  proof (cases "ch_in_flight ch")
    case (Cons r rs)
    obtain ok r' w1 where s: "do_is_complete net r w = Inr (ok, r', w1)" using assms(1) Finalizing Cons by (auto simp: res_simps)
    note f = do_is_complete_facts [OF s]
    have k: "on_channel k (br_bucket r)" using assms(2) Cons by (simp add: channel_inv_def)
    show ?thesis
    proof (cases ok)
      case True
      then obtain r2 where e: "do_finalize T net r' w1 = Inr (r2, w')" "ch' = ch\<lparr>ch_in_flight := rs\<rparr>"
        using assms(1) Finalizing Cons s by (auto simp: res_simps)
      show ?thesis using assms(2) Cons e(2) f do_finalize_facts [OF e(1)] k by (auto simp: channel_inv_def on_key_def)
    next
      case False
      then have "ch' = ch\<lparr>ch_in_flight := r' # rs\<rparr>" "w1 = w'" using assms(1) Finalizing Cons s by auto
      then show ?thesis using assms(2) Cons f by (auto simp: channel_inv_def)
    qed
  qed (use assms Finalizing in auto)
qed

lemma channel_inv_other: "channel_inv n given es k' ch \<Longrightarrow> on_key k e \<Longrightarrow> k' \<noteq> k \<Longrightarrow> channel_inv n given (es @ [e]) k' ch"
  using other_key [of k e k'] by (simp add: channel_inv_def)

definition comm_inv :: "nat \<Rightarrow> (channel_key \<Rightarrow> bucket list) \<Rightarrow> channels \<Rightarrow> event list \<Rightarrow> bool" where
  "comm_inv n given cs es \<longleftrightarrow> distinct (dict_keys cs) \<and> (\<forall>(k, ch) \<in> set cs. channel_inv n given es k ch) \<and> always_orderly n es"

lemma pass_inv:
  "channel_pass T net n ph cs w = Inr (p, cs', w') \<Longrightarrow> comm_inv n given cs (w_log w) \<Longrightarrow>
     comm_inv n given cs' (w_log w') \<and> dict_keys cs' = dict_keys cs \<and>
     (\<forall>k ch. k \<notin> set (dict_keys cs) \<and> channel_inv n given (w_log w) k ch \<longrightarrow> channel_inv n given (w_log w') k ch)"
proof (induction cs arbitrary: p cs' w)
  case (Cons c cs)
  obtain k ch where c: "c = (k, ch)" by (cases c)
  obtain p1 ch1 w1 q cs2 where s: "phase_step T net n ph ch w = Inr (p1, ch1, w1)" "channel_pass T net n ph cs w1 = Inr (q, cs2, w')"
    "cs' = (k, ch1) # cs2" using Cons.prems(1) by (clarsimp simp: c res_simps)
  have inv: "channel_inv n given (w_log w) k ch" "always_orderly n (w_log w)" "k \<notin> set (dict_keys cs)" "distinct (dict_keys cs)"
    "\<forall>(k', ch') \<in> set cs. channel_inv n given (w_log w) k' ch'" using Cons.prems(2) by (auto simp: comm_inv_def c dict_keys_def)
  note st = phase_step_inv [OF s(1) inv(1)]
  have others: "channel_inv n given (w_log w1) k' ch'" if "k' \<noteq> k" "channel_inv n given (w_log w) k' ch'" for k' ch'
    using st channel_inv_other [OF that(2) _ that(1)] that(2) by auto
  have ord: "always_orderly n (w_log w1)" using st orderly_snoc [OF inv(2)] inv(2) by metis
  have "\<forall>(k', ch') \<in> set cs. channel_inv n given (w_log w1) k' ch'"
    using inv(3,5) others by (fastforce simp: dict_keys_def)
  then have ih: "comm_inv n given cs2 (w_log w')" "dict_keys cs2 = dict_keys cs"
    "\<forall>k ch. k \<notin> set (dict_keys cs) \<and> channel_inv n given (w_log w1) k ch \<longrightarrow> channel_inv n given (w_log w') k ch"
    using Cons.IH [OF s(2)] ord inv(4) by (simp_all add: comm_inv_def)
  have k1: "channel_inv n given (w_log w') k ch1" using ih(3) inv(3) st by blast
  have keys: "dict_keys cs' = dict_keys (c # cs)" using ih(2) by (simp add: s(3) c dict_keys_def)
  moreover have "comm_inv n given cs' (w_log w')"
    using ih(1,2) k1 inv(3) by (auto simp: comm_inv_def s(3) dict_keys_def)
  moreover have "k' \<noteq> k \<and> k' \<notin> set (dict_keys cs)" if "k' \<notin> set (dict_keys (c # cs))" for k' using that by (simp add: c dict_keys_def)
  ultimately show ?case using ih(3) others by blast
qed simp

definition others_kept :: "nat \<Rightarrow> (channel_key \<Rightarrow> bucket list) \<Rightarrow> channels \<Rightarrow> event list \<Rightarrow> event list \<Rightarrow> bool" where
  "others_kept n given cs es es' \<longleftrightarrow> (\<forall>k ch. k \<notin> set (dict_keys cs) \<and> channel_inv n given es k ch \<longrightarrow> channel_inv n given es' k ch)"

lemma others_kept_trans:
  "others_kept n given cs es es' \<Longrightarrow> others_kept n given cs' es' es'' \<Longrightarrow> dict_keys cs' = dict_keys cs \<Longrightarrow> others_kept n given cs es es''"
  by (simp add: others_kept_def)

lemma while_progress_inv:
  "while_progress T net n ph cs w = Inr (cs', w') \<Longrightarrow> comm_inv n given cs (w_log w) \<Longrightarrow>
     comm_inv n given cs' (w_log w') \<and> dict_keys cs' = dict_keys cs \<and> others_kept n given cs (w_log w) (w_log w')"
proof (induction T net n ph cs w arbitrary: cs' w' rule: while_progress.induct)
  case (1 T net n ph cs w)
  obtain p cs1 w1 where p: "channel_pass T net n ph cs w = Inr (p, cs1, w1)"
    using "1.prems"(1) by (cases "channel_pass T net n ph cs w") (auto simp: while_progress.simps [of T net n ph cs w])
  have i: "comm_inv n given cs1 (w_log w1)" "dict_keys cs1 = dict_keys cs" "others_kept n given cs (w_log w) (w_log w1)"
    using pass_inv [OF p "1.prems"(2)] by (simp_all add: others_kept_def)
  show ?case
  proof (cases p)
    case True
    then have "while_progress T net n ph cs1 w1 = Inr (cs', w')" using "1.prems"(1) p by (simp add: while_progress.simps [of T net n ph cs w])
    from "1.IH" [OF p refl refl True this i(1)] show ?thesis using i(2) others_kept_trans [OF i(3) _ i(2)] by auto
  qed (use "1.prems"(1) p i in \<open>simp add: while_progress.simps [of T net n ph cs w]\<close>)
qed

lemma comm_round_inv:
  assumes "comm_round T net n cs w = Inr (cs', w')" "comm_inv n given cs (w_log w)"
  shows "comm_inv n given cs' (w_log w') \<and> dict_keys cs' = dict_keys cs \<and> others_kept n given cs (w_log w) (w_log w')"
proof -
  obtain cs1 w1 cs2 w2 where s: "while_progress T net n Preparing cs w = Inr (cs1, w1)" "while_progress T net n Launching cs1 w1 = Inr (cs2, w2)"
    "while_progress T net n Finalizing cs2 w2 = Inr (cs', w')" using assms(1) by (auto simp: comm_round_def res_simps)
  note 1 = while_progress_inv [OF s(1) assms(2)]
  note 2 = while_progress_inv [OF s(2) 1 [THEN conjunct1]]
  note 3 = while_progress_inv [OF s(3) 2 [THEN conjunct1]]
  show ?thesis using 1 2 3 unfolding others_kept_def by metis
qed

lemma comm_loop_inv:
  "comm_loop T net n cs w = Some (Inr w') \<Longrightarrow> 0 < n \<Longrightarrow> comm_inv n given cs (w_log w) \<Longrightarrow>
     \<exists>cs'. comm_inv n given cs' (w_log w') \<and> dict_keys cs' = dict_keys cs \<and> \<not> has_work cs' \<and> others_kept n given cs (w_log w) (w_log w')"
proof (induction "fuel_of cs w" arbitrary: cs w rule: less_induct)
  case less
  show ?case
  proof (cases "has_work cs")
    case True
    obtain cs1 w1 where r: "comm_round T net n cs w = Inr (cs1, w1)" "comm_loop T net n cs1 w1 = Some (Inr w')"
      using less.prems(1) True by (auto simp: comm_loop.simps [of T net n cs w] split: sum.splits)
    have i: "comm_inv n given cs1 (w_log w1)" "dict_keys cs1 = dict_keys cs" "others_kept n given cs (w_log w) (w_log w1)"
      using comm_round_inv [OF r(1) less.prems(3)] by simp_all
    show ?thesis using less.hyps [OF comm_round_fuel [OF r(1) True less.prems(2)] r(2) less.prems(2) i(1)] i(2) others_kept_trans [OF i(3) _ i(2)] by auto
  next
    case False
    then show ?thesis using less.prems by (auto simp: comm_loop.simps [of T net n cs w] others_kept_def)
  qed
qed

lemma fill_channels_facts:
  "fill_channels rs cs = Inr cs' \<Longrightarrow> distinct (dict_keys cs) \<Longrightarrow>
     (\<forall>k. dict_get cs' k = (if dict_get cs k = None \<and> filter (\<lambda>r. on_channel k (br_bucket r)) rs = [] then None
       else Some ((dict_get_or cs k new_channel)\<lparr>ch_candidate := ch_candidate (dict_get_or cs k new_channel) @ filter (\<lambda>r. on_channel k (br_bucket r)) rs\<rparr>))) \<and>
     distinct (dict_keys cs')"
proof (induction rs arbitrary: cs)
  case Nil
  then show ?case by (auto simp: dict_get_or_def split: option.split)
next
  case (Cons r rs)
  obtain k where k: "Bucket_key (br_bucket r) = Inr k" "fill_channels rs (dict_set cs k
      ((dict_get_or cs k new_channel)\<lparr>ch_candidate := ch_candidate (dict_get_or cs k new_channel) @ [r]\<rparr>)) = Inr cs'"
    using Cons.prems(1) by (auto simp: res_simps Let_def)
  show ?case using Cons.IH [OF k(2)] Cons.prems(2) k(1) by (auto simp: dict_simps)
qed

lemma fill_channels_inv:
  assumes "fill_channels rs [] = Inr cs" "0 < n"
  shows "comm_inv n (\<lambda>k. filter (on_channel k) (map br_bucket rs)) cs []"
    "\<And>k. k \<notin> set (dict_keys cs) \<Longrightarrow> filter (on_channel k) (map br_bucket rs) = []"
proof -
  note ff = fill_channels_facts [OF assms(1), simplified]
  have f: "\<And>k. dict_get cs k = (if filter (\<lambda>r. on_channel k (br_bucket r)) rs = [] then None
       else Some (new_channel\<lparr>ch_candidate := filter (\<lambda>r. on_channel k (br_bucket r)) rs\<rparr>))" "distinct (dict_keys cs)"
    using ff [THEN conjunct2] ff [THEN conjunct1] by (auto simp: dict_get_or_def new_channel_def)
  have "channel_inv n (\<lambda>k. filter (on_channel k) (map br_bucket rs)) [] k ch" if "(k, ch) \<in> set cs" for k ch
  proof -
    have "dict_get cs k = Some ch" using that f(2) by (simp add: dict_keys_def)
    then have "ch = new_channel\<lparr>ch_candidate := filter (\<lambda>r. on_channel k (br_bucket r)) rs\<rparr>" using f(1) [of k] by (simp split: if_splits)
    then show ?thesis by (simp add: channel_inv_def new_channel_def filter_map comp_def)
  qed
  then show "comm_inv n (\<lambda>k. filter (on_channel k) (map br_bucket rs)) cs []"
    using f(2) by (auto simp: comm_inv_def always_orderly_def orderly_def)
  show "filter (on_channel k) (map br_bucket rs) = []" if "k \<notin> set (dict_keys cs)" for k
    using f(1) [of k] that by (simp add: set_dict_keys domIff filter_map comp_def split: if_splits)
qed

text \<open>
  C13. Every bucket goes through every stage once and in turn: when the overlapping pipeline
  returns, the buckets of each channel have been prepared, launched and finalized exactly as
  often as they were given and in the order given, so the two ends of a channel run their
  collectives in the same order; and at every moment of the run, on every channel, nothing was
  launched before it was prepared or finalized before it was launched, and at most
  \<open>max_in_flight\<close> buckets held a buffer.
\<close>

theorem bucket_comm_orderly:
  assumes "bucket_comm T net rs n False w = Some (Inr w')" "0 < n" "w_log w = []"
  shows "always_orderly n (w_log w') \<and>
    (\<forall>k. finalized_on k (w_log w') = filter (on_channel k) (map br_bucket rs) \<and>
         launched_on k (w_log w') = filter (on_channel k) (map br_bucket rs) \<and>
         prepared_on k (w_log w') = filter (on_channel k) (map br_bucket rs))"
proof -
  let ?given = "\<lambda>k. filter (on_channel k) (map br_bucket rs)"
  obtain cs where fill: "fill_channels rs [] = Inr cs" and loop: "comm_loop T net n cs w = Some (Inr w')"
    using assms(1) by (auto simp: bucket_comm_def split: sum.splits)
  note init = fill_channels_inv [OF fill assms(2)]
  obtain cs' where cs': "comm_inv n ?given cs' (w_log w')" "dict_keys cs' = dict_keys cs" "\<not> has_work cs'"
    "others_kept n ?given cs [] (w_log w')"
    using comm_loop_inv [OF loop assms(2)] init(1) assms(3) by auto
  have empty: "channel_inv n ?given (w_log w') k new_channel" for k
  proof (cases "k \<in> set (dict_keys cs)")
    case True
    then have "k \<in> fst ` set cs'" using cs'(2) by (metis dict_keys_def list.set_map)
    then obtain ch where ch: "(k, ch) \<in> set cs'" by auto
    then have "ch = new_channel" using cs'(3) by (auto simp: has_work_def list_ex_iff new_channel_def)
    then show ?thesis using ch cs'(1) by (auto simp: comm_inv_def)
  next
    case False
    have "channel_inv n ?given [] k new_channel" using init(2) [OF False] by (simp add: channel_inv_def new_channel_def)
    then show ?thesis using cs'(4) False unfolding others_kept_def by blast
  qed
  have "finalized_on k (w_log w') = ?given k \<and> launched_on k (w_log w') = ?given k \<and> prepared_on k (w_log w') = ?given k" for k
    using empty [of k] by (simp add: channel_inv_def new_channel_def)
  then show ?thesis using cs'(1) by (simp add: comm_inv_def)
qed

lemma sequential_log:
  "run_sequential T net rs w = Inr w' \<Longrightarrow> w_log w' = w_log w @ concat (map (\<lambda>r. [Prepared (br_bucket r), Launched (br_bucket r), Finalized (br_bucket r)]) rs)"
proof (induction rs arbitrary: w)
  case (Cons r rs)
  obtain r1 w1 ok r2 w2 r3 w3 where s: "do_prepare T r w = Inr (r1, w1)" "do_launch r1 w1 = Inr (ok, r2, w2)" "do_finalize T net r2 w2 = Inr (r3, w3)"
    "run_sequential T net rs w3 = Inr w'" using Cons.prems by (auto simp: res_simps)
  show ?case using Cons.IH [OF s(4)] do_prepare_facts [OF s(1)] do_launch_true [OF s(2)] do_finalize_facts [OF s(3)] by simp
qed simp

text \<open>
  The sequential mode keeps the order of the list: when it returns, every bucket has been
  prepared, launched and finalized before the next one was touched, across all channels. Two
  ranks with the same list of buckets therefore issue their collectives in the same order.
\<close>

theorem sequential_in_list_order:
  assumes "bucket_comm T net rs n True w = Some (Inr w')"
  shows "w_log w' = w_log w @ concat (map (\<lambda>r. [Prepared (br_bucket r), Launched (br_bucket r), Finalized (br_bucket r)]) rs)"
  using assms sequential_log by (simp add: bucket_comm_def)

text \<open>With nothing allowed in flight the pipeline never returns once there is a bucket.\<close>

lemma pass_zero:
  assumes "\<forall>(k, ch) \<in> set cs. ch_prepared ch = [] \<and> ch_in_flight ch = []"
  shows "channel_pass T net 0 ph cs w = Inr (False, cs, w)"
  using assms
proof (induction cs)
  case (Cons c cs)
  then show ?case by (cases c; cases ph) (auto split: list.split)
qed simp

lemma comm_loop_some_zero:
  assumes "comm_loop T net n cs w = Some y"
  shows "\<not> (has_work cs \<and> (\<forall>(k, ch) \<in> set cs. ch_prepared ch = [] \<and> ch_in_flight ch = []) \<and> n = 0)"
proof (rule comm_loop.raw_induct [OF _ assms])
  fix loop T net n cs w y
  assume ih: "\<And>T net n cs w y. loop T net n cs w = Some y \<Longrightarrow>
      \<not> (has_work cs \<and> (\<forall>(k, ch) \<in> set cs. ch_prepared ch = [] \<and> ch_in_flight ch = []) \<and> n = 0)"
    and some: "(if has_work cs then (case comm_round T net n cs w of Inl e \<Rightarrow> Some (Inl e) | Inr (cs', w') \<Rightarrow> loop T net n cs' w') else Some (Inr w)) = Some y"
  show "\<not> (has_work cs \<and> (\<forall>(k, ch) \<in> set cs. ch_prepared ch = [] \<and> ch_in_flight ch = []) \<and> n = 0)"
  proof
    assume a: "has_work cs \<and> (\<forall>(k, ch) \<in> set cs. ch_prepared ch = [] \<and> ch_in_flight ch = []) \<and> n = 0"
    then have "comm_round T net n cs w = Inr (cs, w)"
      using pass_zero [of cs T net _ w] by (simp add: comm_round_def while_progress.simps)
    then show False using ih [of T net n cs w y] some a by simp
  qed
qed

lemma comm_loop_zero:
  assumes "has_work cs" "\<forall>(k, ch) \<in> set cs. ch_prepared ch = [] \<and> ch_in_flight ch = []"
  shows "comm_loop T net 0 cs w = None"
  using comm_loop_some_zero [of T net 0 cs w] assms by (cases "comm_loop T net 0 cs w") auto

lemma fill_channels_fails: "(\<exists>e. fill_channels rs cs = Inl e) \<longleftrightarrow> [] \<in> set (map (\<lambda>r. b_chunks (br_bucket r)) rs)"
proof (induction rs arbitrary: cs)
  case (Cons r rs)
  show ?case
  proof (cases "b_chunks (br_bucket r)")
    case Nil
    then show ?thesis by (simp add: Bucket_key_def py_nth_def)
  next
    case (Cons c cs')
    then show ?thesis using Cons.IH by (simp add: Bucket_key_def py_nth_def Let_def)
  qed
qed simp

lemma fill_channels_idle:
  assumes "fill_channels rs [] = Inr cs"
  shows "\<forall>(k, ch) \<in> set cs. ch_prepared ch = [] \<and> ch_in_flight ch = []" "has_work cs \<longleftrightarrow> rs \<noteq> []"
proof -
  note ff = fill_channels_facts [OF assms, simplified]
  have f: "\<And>k. dict_get cs k = (if filter (\<lambda>r. on_channel k (br_bucket r)) rs = [] then None
       else Some (new_channel\<lparr>ch_candidate := filter (\<lambda>r. on_channel k (br_bucket r)) rs\<rparr>))" "distinct (dict_keys cs)"
    using ff [THEN conjunct2] ff [THEN conjunct1] by (auto simp: dict_get_or_def new_channel_def)
  have ch: "ch = new_channel\<lparr>ch_candidate := filter (\<lambda>r. on_channel k (br_bucket r)) rs\<rparr> \<and> ch_candidate ch \<noteq> []" if "(k, ch) \<in> set cs" for k ch
  proof -
    have "dict_get cs k = Some ch" using that f(2) by (simp add: dict_keys_def)
    then show ?thesis using f(1) [of k] by (auto simp: new_channel_def split: if_splits)
  qed
  then show "\<forall>(k, ch) \<in> set cs. ch_prepared ch = [] \<and> ch_in_flight ch = []" by (fastforce simp: new_channel_def)
  show "has_work cs \<longleftrightarrow> rs \<noteq> []"
  proof (cases rs)
    case Nil
    then show ?thesis using assms by (auto simp: has_work_def)
  next
    case (Cons r rs')
    then obtain k where "Bucket_key (br_bucket r) = Inr k" using assms by (auto simp: res_simps)
    then have "dict_get cs k = Some (new_channel\<lparr>ch_candidate := filter (\<lambda>r. on_channel k (br_bucket r)) rs\<rparr>)" using f(1) [of k] Cons by simp
    then have m: "(k, new_channel\<lparr>ch_candidate := filter (\<lambda>r. on_channel k (br_bucket r)) rs\<rparr>) \<in> set cs" by (rule map_of_SomeD)
    then show ?thesis using ch [OF m] Cons unfolding has_work_def list_ex_iff by (intro iffI) (auto intro!: bexI [OF _ m])
  qed
qed

text \<open>
  C14. When the pipeline ends: \<open>bucket_comm\<close> returns or raises for every list of buckets, every
  grouping into channels and every order in which the network reports completion, as long as
  every wire operation eventually completes; the one case in which it runs for ever is the
  overlapping mode with \<open>max_in_flight = 0\<close> and something to do.
\<close>

theorem bucket_comm_diverges_iff:
  "bucket_comm T net rs n sequential w = None \<longleftrightarrow> \<not> sequential \<and> n = 0 \<and> rs \<noteq> [] \<and> [] \<notin> set (map (\<lambda>r. b_chunks (br_bucket r)) rs)"
proof (cases "sequential \<or> (\<exists>e. fill_channels rs [] = Inl e)")
  case True
  then show ?thesis using fill_channels_fails [of rs "[]"] by (auto simp: bucket_comm_def)
next
  case False
  then obtain cs where cs: "fill_channels rs [] = Inr cs" by (cases "fill_channels rs []") auto
  have "comm_loop T net n cs w = None \<longleftrightarrow> n = 0 \<and> rs \<noteq> []"
  proof (cases "n = 0 \<and> rs \<noteq> []")
    case True
    then show ?thesis using comm_loop_zero fill_channels_idle [OF cs] by auto
  next
    case False
    then show ?thesis using comm_loop_returns [of n T net cs w] fill_channels_idle(2) [OF cs] comm_loop.simps [of T net n cs w] by auto
  qed
  then show ?thesis using False cs fill_channels_fails [of rs "[]"] by (simp add: bucket_comm_def)
qed

section \<open>Concrete runs\<close>

definition sample_world :: "bool list \<Rightarrow> world" where
  "sample_world polls = \<lparr>w_mem = sample_memory, w_pg = pg_init, w_polls = polls, w_log = []\<rparr>"

definition sample_run :: bucket_run where
  "sample_run = idle_run None (Bucket [half P2P True False 0 0])"

lemma sample_runs:
  "\<exists>w'. bucket_comm sample_torch (\<lambda>_ _. []) [sample_run, sample_run] 1 False (sample_world [False]) = Some (Inr w')"
  "\<exists>w'. bucket_comm sample_torch (\<lambda>_ _. []) [sample_run, sample_run] 1 True (sample_world [False]) = Some (Inr w')"
proof -
  have "(case bucket_comm sample_torch (\<lambda>_ _. []) [sample_run, sample_run] 1 False (sample_world [False]) of Some (Inr w) \<Rightarrow> True | _ \<Rightarrow> False)"
    "(case bucket_comm sample_torch (\<lambda>_ _. []) [sample_run, sample_run] 1 True (sample_world [False]) of Some (Inr w) \<Rightarrow> True | _ \<Rightarrow> False)"
    by code_simp+
  then show "\<exists>w'. bucket_comm sample_torch (\<lambda>_ _. []) [sample_run, sample_run] 1 False (sample_world [False]) = Some (Inr w')"
    "\<exists>w'. bucket_comm sample_torch (\<lambda>_ _. []) [sample_run, sample_run] 1 True (sample_world [False]) = Some (Inr w')"
    by (auto split: option.splits sum.splits)
qed

theorem bucket_comm_orderly_witness:
  "\<exists>w'. bucket_comm sample_torch (\<lambda>_ _. []) [sample_run, sample_run] 1 False (sample_world [False]) = Some (Inr w') \<and>
     finalized_on (0, [1], [], [], P2P) (w_log w') = [br_bucket sample_run, br_bucket sample_run]"
proof -
  obtain w' where w': "bucket_comm sample_torch (\<lambda>_ _. []) [sample_run, sample_run] 1 False (sample_world [False]) = Some (Inr w')" using sample_runs(1) ..
  have "on_channel (0, [1], [], [], P2P) (br_bucket sample_run)" by code_simp
  then show ?thesis using bucket_comm_orderly [OF w'] w' by (simp add: sample_world_def)
qed

theorem sequential_in_list_order_witness:
  "\<exists>w'. bucket_comm sample_torch (\<lambda>_ _. []) [sample_run, sample_run] 1 True (sample_world [False]) = Some (Inr w') \<and> length (w_log w') = 6"
proof -
  obtain w' where w': "bucket_comm sample_torch (\<lambda>_ _. []) [sample_run, sample_run] 1 True (sample_world [False]) = Some (Inr w')" using sample_runs(2) ..
  then show ?thesis using sequential_in_list_order [OF w'] by (simp add: sample_world_def)
qed

end
