(* ===== verification/KV_Store.thy ===== *)
theory KV_Store
  imports Etha_Prelude
begin

text \<open>
  \<^verbatim>\<open>src/etha/kvstore\<close>: key prefixing (\<^verbatim>\<open>base.py\<close>) and the two backends, over a TCPStore
  (\<^verbatim>\<open>tcp.py\<close>) and over etcd (\<^verbatim>\<open>etcd.py\<close>). A character is a byte, so \<open>string\<close> serves for
  Python's ASCII \<open>str\<close> and for \<open>bytes\<close> alike. The two servers are third-party code; what is
  used of them is a dictionary of byte strings (for etcd also its watches), so a backend's state is
  that dictionary beside the client's own fields. A wait runs beside other clients: what a polling
  wait sees of the server in each round, and what other clients write during a watching wait, are
  arguments.
\<close>

section \<open>Keys\<close>

record kv_client =
  kv_namespace :: string
  kv_component :: string

definition prefixed :: "kv_client \<Rightarrow> string \<Rightarrow> string option \<Rightarrow> string" where
  "prefixed self key component =
     (let c = (case component of None \<Rightarrow> kv_component self | Some c \<Rightarrow> if c = [] then kv_component self else c)
      in kv_namespace self @ ''/'' @ c @ ''/'' @ key)"

text \<open>\<open>s.split(sep, n)\<close> with at most \<open>n\<close> cuts.\<close>

fun split_cuts :: "char \<Rightarrow> nat \<Rightarrow> string \<Rightarrow> string list" where
  "split_cuts sep 0 s = [s]"
| "split_cuts sep (Suc n) s =
     (if sep \<in> set s then takeWhile (\<lambda>x. x \<noteq> sep) s # split_cuts sep n (tl (dropWhile (\<lambda>x. x \<noteq> sep) s)) else [s])"

definition strip_prefix :: "string \<Rightarrow> string" where
  "strip_prefix key = (let parts = split_cuts (CHR ''/'') 2 key in if 2 < length parts then parts ! 2 else key)"

section \<open>Wildcards\<close>

text \<open>
  \<open>fnmatch.fnmatch\<close> for patterns without bracket expressions: \<open>*\<close> matches any run of
  characters, \<open>?\<close> any one character, everything else itself.
\<close>

fun fnmatch :: "string \<Rightarrow> string \<Rightarrow> bool" where
  "fnmatch name [] \<longleftrightarrow> name = []"
| "fnmatch [] (p # pat) \<longleftrightarrow> p = CHR ''*'' \<and> fnmatch [] pat"
| "fnmatch (x # name) (p # pat) \<longleftrightarrow>
     (if p = CHR ''*'' then fnmatch (x # name) pat \<or> fnmatch name (p # pat) else (p = CHR ''?'' \<or> x = p) \<and> fnmatch name pat)"

section \<open>Base64\<close>

definition b64_alphabet :: string where
  "b64_alphabet = ''ABCDEFGHIJKLMNOPQRSTUVWXYZabcdefghijklmnopqrstuvwxyz0123456789+/''"

definition b64_char :: "nat \<Rightarrow> char" where
  "b64_char n = b64_alphabet ! n"

definition b64_index :: "char \<Rightarrow> nat" where
  "b64_index c = length (takeWhile (\<lambda>x. x \<noteq> c) b64_alphabet)"

fun b64encode :: "string \<Rightarrow> string" where
  "b64encode [] = []"
| "b64encode [a] =
     (let x = of_char a :: nat in [b64_char (x div 4), b64_char (x mod 4 * 16), CHR ''='', CHR ''=''])"
| "b64encode [a, b] =
     (let x = of_char a :: nat; y = of_char b :: nat
      in [b64_char (x div 4), b64_char (x mod 4 * 16 + y div 16), b64_char (y mod 16 * 4), CHR ''=''])"
| "b64encode (a # b # c # s) =
     (let x = of_char a :: nat; y = of_char b :: nat; z = of_char c :: nat
      in b64_char (x div 4) # b64_char (x mod 4 * 16 + y div 16) # b64_char (y mod 16 * 4 + z div 64)
         # b64_char (z mod 64) # b64encode s)"

text \<open>
  Decoding drops every character outside the alphabet and the padding, reads groups of four and
  refuses a group that is not complete.
\<close>

fun b64_groups :: "string \<Rightarrow> string result" where
  "b64_groups [] = Inr []"
| "b64_groups (a # b # c # d # s) =
     (let i = b64_index a; j = b64_index b; k = b64_index c; l = b64_index d;
          x = char_of (i * 4 + j div 16); y = char_of (j mod 16 * 16 + k div 4); z = char_of (k mod 4 * 64 + l)
      in if c = CHR ''='' then Inr [x] else if d = CHR ''='' then Inr [x, y]
         else res_bind (b64_groups s) (\<lambda>rest. Inr (x # y # z # rest)))"
| "b64_groups _ = Inl ValueError"

definition b64decode :: "string \<Rightarrow> string result" where
  "b64decode s = b64_groups (filter (\<lambda>c. c \<in> set (CHR ''='' # b64_alphabet)) s)"

section \<open>TorchTCPStore\<close>

record tcp_store = kv_client +
  tcp_data :: "(string, string) dict"     \<comment> \<open>the keys of the TCPStore server\<close>
  tcp_known_keys :: "string list"          \<comment> \<open>\<open>_known_keys\<close>, a set\<close>

abbreviation tcp_prefixed :: "tcp_store \<Rightarrow> string \<Rightarrow> string option \<Rightarrow> string" where
  "tcp_prefixed s key c \<equiv> prefixed (kv_client.truncate s) key c"

definition tcp_set :: "string \<Rightarrow> string \<Rightarrow> string option \<Rightarrow> tcp_store \<Rightarrow> tcp_store" where
  "tcp_set key value component s =
     s\<lparr>tcp_data := dict_set (tcp_data s) (tcp_prefixed s key component) value,
       tcp_known_keys := List.insert key (tcp_known_keys s)\<rparr>"

text \<open>\<open>_store.check([k])\<close> and \<open>_store.get(k)\<close>; \<open>get\<close> is called on present keys only.\<close>

definition tcp_check :: "string \<Rightarrow> tcp_store \<Rightarrow> bool" where
  "tcp_check k s \<longleftrightarrow> dict_get (tcp_data s) k \<noteq> None"

definition tcp_get :: "string \<Rightarrow> string option \<Rightarrow> tcp_store \<Rightarrow> string option" where
  "tcp_get key component s =
     (let k = tcp_prefixed s key component in if \<not> tcp_check k s then None else dict_get (tcp_data s) k)"

definition tcp_exists :: "string \<Rightarrow> string option \<Rightarrow> tcp_store \<Rightarrow> bool" where
  "tcp_exists key component s = tcp_check (tcp_prefixed s key component) s"

definition tcp_delete :: "string \<Rightarrow> string option \<Rightarrow> tcp_store \<Rightarrow> bool \<times> tcp_store" where
  "tcp_delete key component s =
     (let k = tcp_prefixed s key component in
      if \<not> tcp_check k s then (False, s)
      else (True, s\<lparr>tcp_data := dict_set (tcp_data s) k [], tcp_known_keys := remove1 key (tcp_known_keys s)\<rparr>))"

definition tcp_set_bytes :: "string \<Rightarrow> string \<Rightarrow> string option \<Rightarrow> tcp_store \<Rightarrow> tcp_store" where
  "tcp_set_bytes key data component s =
     s\<lparr>tcp_data := dict_set (tcp_data s) (tcp_prefixed s key component) (b64encode data),
       tcp_known_keys := List.insert key (tcp_known_keys s)\<rparr>"

definition tcp_get_bytes :: "string \<Rightarrow> string option \<Rightarrow> tcp_store \<Rightarrow> string option result" where
  "tcp_get_bytes key component s =
     (let k = tcp_prefixed s key component in
      case dict_get (tcp_data s) k of
        None \<Rightarrow> Inr None
      | Some v \<Rightarrow> res_bind (b64decode v) (\<lambda>b. Inr (Some b)))"

text \<open>
  A polling loop sees the server at each round and then whether the timeout has passed; the
  list of rounds is as long as the loop has run, and None is "still waiting".
\<close>

type_synonym poll = "(string, string) dict \<times> bool"

fun poll_until :: "((string, string) dict \<Rightarrow> 'a option) \<Rightarrow> poll list \<Rightarrow> 'a result option" where
  "poll_until found [] = None"
| "poll_until found ((snapshot, expired) # rounds) =
     (case found snapshot of
        Some r \<Rightarrow> Some (Inr r)
      | None \<Rightarrow> if expired then Some (Inl TimeoutError) else poll_until found rounds)"

definition tcp_wait_for_key :: "string \<Rightarrow> string option \<Rightarrow> tcp_store \<Rightarrow> poll list \<Rightarrow> string result option" where
  "tcp_wait_for_key key component s rounds =
     poll_until (\<lambda>data. case dict_get data (tcp_prefixed s key component) of
                   None \<Rightarrow> None | Some v \<Rightarrow> if v = [] then None else Some v) rounds"

definition tcp_wait_for_value :: "string \<Rightarrow> string \<Rightarrow> string option \<Rightarrow> tcp_store \<Rightarrow> poll list \<Rightarrow> string result option" where
  "tcp_wait_for_value key expected component s rounds =
     poll_until (\<lambda>data. case dict_get data (tcp_prefixed s key component) of
                   None \<Rightarrow> None | Some v \<Rightarrow> if v = expected then Some v else None) rounds"

text \<open>
  \<open>wait_for_keys\<close> checks the timeout before each round and keeps what it has matched; here a
  round is the check of the timeout followed by the snapshot of the poll.
\<close>

definition poll_candidates :: "(string \<Rightarrow> string) \<Rightarrow> string \<Rightarrow> (string, string) dict \<Rightarrow> string list \<Rightarrow> string list \<Rightarrow> string list" where
  "poll_candidates pre value data candidates matched =
     fold (\<lambda>key m. if key \<in> set m then m else if dict_get data (pre key) = Some value then m @ [key] else m) candidates matched"

fun wait_for_keys_loop ::
  "(string \<Rightarrow> string) \<Rightarrow> nat \<Rightarrow> string \<Rightarrow> string list \<Rightarrow> string list \<Rightarrow> poll list \<Rightarrow> string list result option" where
  "wait_for_keys_loop pre expected_count value candidates matched rounds =
     (if expected_count \<le> length matched then Some (Inr (take expected_count (sort matched)))
      else case rounds of
        [] \<Rightarrow> None
      | (data, expired) # rounds' \<Rightarrow>
          if expired then Some (Inl TimeoutError)
          else wait_for_keys_loop pre expected_count value candidates
                 (poll_candidates pre value data candidates matched) rounds')"

declare wait_for_keys_loop.simps [simp del]

definition tcp_wait_for_keys ::
  "string \<Rightarrow> nat \<Rightarrow> string \<Rightarrow> string list option \<Rightarrow> string option \<Rightarrow> tcp_store \<Rightarrow> poll list \<Rightarrow> string list result option" where
  "tcp_wait_for_keys key_pattern expected_count value candidate_keys component s rounds =
     (case candidate_keys of
        None \<Rightarrow> Some (Inl ValueError)
      | Some ks \<Rightarrow> wait_for_keys_loop (\<lambda>k. tcp_prefixed s k component) expected_count value
          (filter (\<lambda>k. fnmatch k key_pattern) ks) [] rounds)"

section \<open>EtcdStore\<close>

record etcd_store = kv_client +
  etcd_data :: "(string, string) dict"    \<comment> \<open>the keys of the etcd server\<close>

abbreviation etcd_prefixed :: "etcd_store \<Rightarrow> string \<Rightarrow> string option \<Rightarrow> string" where
  "etcd_prefixed s key c \<equiv> prefixed (kv_client.truncate s) key c"

definition has_prefix :: "string \<Rightarrow> string \<Rightarrow> bool" where
  "has_prefix p k \<longleftrightarrow> take (length p) k = p"

definition delete_prefix :: "string \<Rightarrow> (string, string) dict \<Rightarrow> (string, string) dict" where
  "delete_prefix p data = filter (\<lambda>(k, _). \<not> has_prefix p k) data"

definition etcd_open :: "bool \<Rightarrow> string \<Rightarrow> string \<Rightarrow> (string, string) dict \<Rightarrow> etcd_store" where
  "etcd_open cleanup namespace component data =
     \<lparr>kv_namespace = namespace, kv_component = component,
      etcd_data = (if cleanup then delete_prefix (namespace @ ''/'') data else data)\<rparr>"

definition etcd_set :: "string \<Rightarrow> string \<Rightarrow> string option \<Rightarrow> etcd_store \<Rightarrow> etcd_store" where
  "etcd_set key value component s = s\<lparr>etcd_data := dict_set (etcd_data s) (etcd_prefixed s key component) value\<rparr>"

definition etcd_get :: "string \<Rightarrow> string option \<Rightarrow> etcd_store \<Rightarrow> string option" where
  "etcd_get key component s = dict_get (etcd_data s) (etcd_prefixed s key component)"

definition etcd_exists :: "string \<Rightarrow> string option \<Rightarrow> etcd_store \<Rightarrow> bool" where
  "etcd_exists key component s \<longleftrightarrow> etcd_get key component s \<noteq> None"

definition etcd_delete :: "string \<Rightarrow> string option \<Rightarrow> etcd_store \<Rightarrow> bool \<times> etcd_store" where
  "etcd_delete key component s =
     (let k = etcd_prefixed s key component
      in (dict_get (etcd_data s) k \<noteq> None, s\<lparr>etcd_data := dict_del (etcd_data s) k\<rparr>))"

definition etcd_set_bytes :: "string \<Rightarrow> string \<Rightarrow> string option \<Rightarrow> etcd_store \<Rightarrow> etcd_store" where
  "etcd_set_bytes key data component s = s\<lparr>etcd_data := dict_set (etcd_data s) (etcd_prefixed s key component) data\<rparr>"

definition etcd_get_bytes :: "string \<Rightarrow> string option \<Rightarrow> etcd_store \<Rightarrow> string option" where
  "etcd_get_bytes key component s = etcd_get key component s"

definition etcd_close :: "bool \<Rightarrow> etcd_store \<Rightarrow> etcd_store" where
  "etcd_close cleanup s =
     (if cleanup then s\<lparr>etcd_data := delete_prefix (kv_namespace s @ ''/'') (etcd_data s)\<rparr> else s)"

text \<open>
  What a wait uses of the etcd server: the keys, whether the wait's watch is registered, and the
  events delivered to its callback. A put reaches the callback exactly when the watch is registered
  by then.
\<close>

type_synonym watch_event = "string \<times> string"

record etcd_server =
  srv_data :: "(string, string) dict"
  srv_watching :: bool
  srv_events :: "watch_event list"

definition srv_put :: "watch_event \<Rightarrow> etcd_server \<Rightarrow> etcd_server" where
  "srv_put e srv = srv\<lparr>srv_data := dict_set (srv_data srv) (fst e) (snd e),
     srv_events := (if srv_watching srv then srv_events srv @ [e] else srv_events srv)\<rparr>"

definition srv_watch :: "etcd_server \<Rightarrow> etcd_server" where
  "srv_watch srv = srv\<lparr>srv_watching := True\<rparr>"

text \<open>
  What other clients put while a wait runs: before its watch is registered, between that and its
  check, and after the check, each with the moment at which it happens on the clock of the timeout.
\<close>

record traffic =
  tr_before :: "watch_event list"
  tr_between :: "watch_event list"
  tr_later :: "(nat \<times> watch_event) list"

definition in_time :: "nat \<Rightarrow> traffic \<Rightarrow> watch_event list" where
  "in_time timeout tr = map snd (filter (\<lambda>(moment, _). moment \<le> timeout) (tr_later tr))"

text \<open>
  The callback runs on every event; a result it has is kept and sets \<open>done\<close>, and \<open>done.wait\<close>
  returns with the first one.
\<close>

primrec callbacks :: "('e \<Rightarrow> 'st \<Rightarrow> 'a option \<times> 'st) \<Rightarrow> 'e list \<Rightarrow> 'a option \<times> 'st \<Rightarrow> 'a option \<times> 'st" where
  "callbacks on_event [] res = res"
| "callbacks on_event (e # es) res =
     callbacks on_event es (case on_event e (snd res) of (Some r, st) \<Rightarrow> (Some r, st) | (None, st) \<Rightarrow> (fst res, st))"

fun first_event :: "('e \<Rightarrow> 'st \<Rightarrow> 'a option \<times> 'st) \<Rightarrow> 'e list \<Rightarrow> 'st \<Rightarrow> 'a option" where
  "first_event on_event [] st = None"
| "first_event on_event (e # es) st =
     (case on_event e st of (Some r, _) \<Rightarrow> Some r | (None, st') \<Rightarrow> first_event on_event es st')"

text \<open>
  \<open>_wait_with_watch\<close>: the watch is registered, then the condition is checked, then the callback is
  waited for. \<open>st\<close> is what check and callback share.
\<close>

definition wait_with_watch ::
  "((string, string) dict \<Rightarrow> 'st \<Rightarrow> 'a option \<times> 'st) \<Rightarrow> (watch_event \<Rightarrow> 'st \<Rightarrow> 'a option \<times> 'st) \<Rightarrow> nat \<Rightarrow> traffic \<Rightarrow>
   (string, string) dict \<Rightarrow> 'st \<Rightarrow> 'a result" where
  "wait_with_watch check_fn on_event timeout tr data st =
     (let srv = fold srv_put (tr_before tr) \<lparr>srv_data = data, srv_watching = False, srv_events = []\<rparr>;
          watched = fold srv_put (tr_between tr) (srv_watch srv);
          (result, st1) = callbacks on_event (srv_events watched) (None, st)
      in case check_fn (srv_data watched) st1 of
           (Some r, _) \<Rightarrow> Inr r
         | (None, st2) \<Rightarrow>
             (case result of
                Some r \<Rightarrow> Inr r
              | None \<Rightarrow>
                  (let ended = fold srv_put (in_time timeout tr) watched
                   in case first_event on_event (drop (length (srv_events watched)) (srv_events ended)) st2 of
                        Some r \<Rightarrow> Inr r | None \<Rightarrow> Inl TimeoutError)))"

definition etcd_wait_for_key :: "string \<Rightarrow> string option \<Rightarrow> nat \<Rightarrow> traffic \<Rightarrow> etcd_store \<Rightarrow> string result" where
  "etcd_wait_for_key key component timeout tr s =
     wait_with_watch (\<lambda>data _. (etcd_get key component (s\<lparr>etcd_data := data\<rparr>), ()))
       (\<lambda>(k, v) _. (if k = etcd_prefixed s key component then Some v else None, ())) timeout tr (etcd_data s) ()"

definition etcd_wait_for_value :: "string \<Rightarrow> string \<Rightarrow> string option \<Rightarrow> nat \<Rightarrow> traffic \<Rightarrow> etcd_store \<Rightarrow> string result" where
  "etcd_wait_for_value key expected component timeout tr s =
     wait_with_watch (\<lambda>data _. (case etcd_get key component (s\<lparr>etcd_data := data\<rparr>) of
                             None \<Rightarrow> None | Some v \<Rightarrow> if v = expected then Some v else None, ()))
       (\<lambda>(k, v) _. (if k = etcd_prefixed s key component \<and> v = expected then Some v else None, ())) timeout tr (etcd_data s) ()"

definition literal_prefix :: "string \<Rightarrow> string" where
  "literal_prefix pattern = takeWhile (\<lambda>c. c \<noteq> CHR ''*'') pattern"

definition enough_matched :: "nat \<Rightarrow> string list \<Rightarrow> string list option \<times> string list" where
  "enough_matched expected_count matched =
     (if expected_count \<le> length matched
      then (Some (map strip_prefix (take expected_count (sort matched))), matched) else (None, matched))"

definition etcd_wait_for_keys ::
  "string \<Rightarrow> nat \<Rightarrow> string \<Rightarrow> string option \<Rightarrow> nat \<Rightarrow> traffic \<Rightarrow> etcd_store \<Rightarrow> string list result" where
  "etcd_wait_for_keys key_pattern expected_count value component timeout tr s =
     (let pat = etcd_prefixed s key_pattern component;
          matches = (\<lambda>(k, v). v = value \<and> fnmatch k pat)
      in wait_with_watch
           (\<lambda>data matched. enough_matched expected_count
              (fold (\<lambda>(k, v) m. if matches (k, v) then List.insert k m else m)
                 (filter (\<lambda>(k, _). has_prefix (literal_prefix pat) k) data) matched))
           (\<lambda>(k, v) matched. if matches (k, v) then enough_matched expected_count (List.insert k matched) else (None, matched))
           timeout tr (etcd_data s) [])"

section \<open>Choosing a backend\<close>

datatype backend = Etcd | Tcp

datatype kv_store = Etcd_store etcd_store | Tcp_store tcp_store

text \<open>\<open>create_store\<close>: connecting is I/O; the client attaches to the server's present keys.\<close>

definition create_store :: "backend \<Rightarrow> string \<Rightarrow> string \<Rightarrow> (string, string) dict \<Rightarrow> kv_store" where
  "create_store backend namespace component data =
     (case backend of
        Etcd \<Rightarrow> Etcd_store (etcd_open False namespace component data)
      | Tcp \<Rightarrow> Tcp_store \<lparr>kv_namespace = namespace, kv_component = component, tcp_data = data, tcp_known_keys = []\<rparr>)"

section \<open>Base64 is lossless\<close>

lemma b64_index_char_all: "\<forall>n \<in> set [0..<64]. b64_index (b64_char n) = n \<and> b64_char n \<in> set b64_alphabet \<and> b64_char n \<noteq> CHR ''=''"
  by code_simp

lemma b64_index_char:
  assumes "n < 64"
  shows "b64_index (b64_char n) = n" "b64_char n \<in> set b64_alphabet" "b64_char n \<noteq> CHR ''=''" "CHR ''='' \<noteq> b64_char n"
  using b64_index_char_all assms by (auto dest!: bspec [of _ _ n])

lemma of_char_256: "of_char (c :: char) < (256 :: nat)"
  by simp

lemma sextets:
  assumes "x < 256" "y < 256" "z < (256 :: nat)"
  shows "x div 4 < 64" "x mod 4 * 16 < 64" "x mod 4 * 16 + y div 16 < 64" "y mod 16 * 4 < 64"
    "y mod 16 * 4 + z div 64 < 64" "z mod 64 < 64"
    "x div 4 * 4 + x mod 4 * 16 div 16 = x"
    "x div 4 * 4 + (x mod 4 * 16 + y div 16) div 16 = x"
    "(x mod 4 * 16 + y div 16) mod 16 * 16 + y mod 16 * 4 div 4 = y"
    "(x mod 4 * 16 + y div 16) mod 16 * 16 + (y mod 16 * 4 + z div 64) div 4 = y"
    "(y mod 16 * 4 + z div 64) mod 4 * 64 + z mod 64 = z"
proof -
  have y: "y div 16 < 16" and z: "z div 64 < 4" using assms by auto
  show "x div 4 < 64" "x mod 4 * 16 < 64" "y mod 16 * 4 < 64" "z mod 64 < 64" using assms by auto
  have m: "x mod 4 \<le> 3" "y mod 16 \<le> 15" using mod_less_divisor [of 4 x] mod_less_divisor [of 16 y] by linarith+
  show "x mod 4 * 16 + y div 16 < 64" "y mod 16 * 4 + z div 64 < 64" using m y z by linarith+
  show "x div 4 * 4 + x mod 4 * 16 div 16 = x" by simp
  show "x div 4 * 4 + (x mod 4 * 16 + y div 16) div 16 = x" using y by simp
  show "(x mod 4 * 16 + y div 16) mod 16 * 16 + y mod 16 * 4 div 4 = y" using y by simp
  show "(x mod 4 * 16 + y div 16) mod 16 * 16 + (y mod 16 * 4 + z div 64) div 4 = y" using y z by simp
  show "(y mod 16 * 4 + z div 64) mod 4 * 64 + z mod 64 = z" using z by simp
qed

lemma b64_group:
  assumes "i < 64" "j < 64" "k < 64" "l < 64"
  shows "b64_groups (b64_char i # b64_char j # b64_char k # b64_char l # s) =
      res_bind (b64_groups s) (\<lambda>rest. Inr (char_of (i * 4 + j div 16) # char_of (j mod 16 * 16 + k div 4) # char_of (k mod 4 * 64 + l) # rest))"
    and "b64_groups [b64_char i, b64_char j, b64_char k, CHR ''=''] = Inr [char_of (i * 4 + j div 16), char_of (j mod 16 * 16 + k div 4)]"
    and "b64_groups [b64_char i, b64_char j, CHR ''='', CHR ''=''] = Inr [char_of (i * 4 + j div 16)]"
  using b64_index_char [OF assms(1)] b64_index_char [OF assms(2)] b64_index_char [OF assms(3)] b64_index_char [OF assms(4)]
  by (simp_all only: b64_groups.simps Let_def if_True if_False simp_thms)

lemma b64_groups_encode: "b64_groups (b64encode s) = Inr s"
proof (induction s rule: b64encode.induct)
  case (2 a)
  note x = sextets [OF of_char_256 [of a] of_char_256 [of a] of_char_256 [of a]]
  show ?case unfolding b64encode.simps Let_def b64_group(3) [OF x(1,2,1,1)] x(7) by simp
next
  case (3 a b)
  note x = sextets [OF of_char_256 [of a] of_char_256 [of b] of_char_256 [of b]]
  show ?case unfolding b64encode.simps Let_def b64_group(2) [OF x(1,3,4,1)] x(8,9) by simp
next
  case (4 a b c s)
  note x = sextets [OF of_char_256 [of a] of_char_256 [of b] of_char_256 [of c]]
  show ?case unfolding b64encode.simps Let_def b64_group(1) [OF x(1,3,5,6)] x(8,10,11) 4 [OF refl refl refl] by simp
qed simp

lemma b64encode_alphabet: "set (b64encode s) \<subseteq> insert (CHR ''='') (set b64_alphabet)"
proof (induction s rule: b64encode.induct)
  case (2 a)
  note x = sextets [OF of_char_256 [of a] of_char_256 [of a] of_char_256 [of a]]
  show ?case unfolding b64encode.simps Let_def
    using b64_index_char(2) [OF x(1)] b64_index_char(2) [OF x(2)] by (simp only: list.set insert_subset) blast
next
  case (3 a b)
  note x = sextets [OF of_char_256 [of a] of_char_256 [of b] of_char_256 [of b]]
  show ?case unfolding b64encode.simps Let_def
    using b64_index_char(2) [OF x(1)] b64_index_char(2) [OF x(3)] b64_index_char(2) [OF x(4)]
    by (simp only: list.set insert_subset) blast
next
  case (4 a b c s)
  note x = sextets [OF of_char_256 [of a] of_char_256 [of b] of_char_256 [of c]]
  show ?case unfolding b64encode.simps Let_def
    using b64_index_char(2) [OF x(1)] b64_index_char(2) [OF x(3)] b64_index_char(2) [OF x(5)]
      b64_index_char(2) [OF x(6)] 4 [OF refl refl refl]
    by (simp only: list.set insert_subset) blast
qed simp

lemma b64_roundtrip: "b64decode (b64encode s) = Inr s"
proof -
  have "filter (\<lambda>c. c \<in> set (CHR ''='' # b64_alphabet)) (b64encode s) = b64encode s"
    using b64encode_alphabet by (intro filter_True) (simp only: list.set, blast)
  then show ?thesis by (simp only: b64decode_def b64_groups_encode)
qed

section \<open>Prefixes\<close>

lemma while_sep:
  assumes "sep \<notin> set a"
  shows "takeWhile (\<lambda>x. x \<noteq> sep) (a @ sep # b) = a" "dropWhile (\<lambda>x. x \<noteq> sep) (a @ sep # b) = sep # b"
  using assms by (induction a) auto

lemma split_cuts_append: "sep \<notin> set a \<Longrightarrow> split_cuts sep (Suc n) (a @ sep # b) = a # split_cuts sep n b"
  by (simp add: while_sep)

lemma split_cuts_length: "length (split_cuts sep n s) = Suc (min n (length (filter ((=) sep) s)))"
proof (induction sep n s rule: split_cuts.induct)
  case (2 sep n s)
  show ?case
  proof (cases "sep \<in> set s")
    case True
    then obtain a b where s: "s = a @ sep # b" "sep \<notin> set a" by (meson split_list_first)
    have "filter ((=) sep) a = []" using s(2) by (auto simp: filter_empty_conv)
    moreover have "tl (dropWhile (\<lambda>x. x \<noteq> sep) s) = b" using s by (simp add: while_sep)
    ultimately show ?thesis using 2(1) [OF True] s True by simp
  next
    case False
    then have "filter ((=) sep) s = []" by (auto simp: filter_empty_conv)
    then show ?thesis using False by simp
  qed
qed simp

definition kv_comp :: "kv_client \<Rightarrow> string option \<Rightarrow> string" where
  "kv_comp self component = (case component of None \<Rightarrow> kv_component self | Some c \<Rightarrow> if c = [] then kv_component self else c)"

lemma prefixed_eq: "prefixed self key component = kv_namespace self @ CHR ''/'' # kv_comp self component @ CHR ''/'' # key"
  by (simp add: prefixed_def kv_comp_def)

lemma strip_prefixed:
  assumes "CHR ''/'' \<notin> set (kv_namespace self)" "CHR ''/'' \<notin> set (kv_comp self component)"
  shows "strip_prefix (prefixed self key component) = key"
proof -
  have "split_cuts (CHR ''/'') 2 (prefixed self key component) = [kv_namespace self, kv_comp self component, key]"
    unfolding prefixed_eq numeral_2_eq_2 split_cuts_append [OF assms(1)] split_cuts_append [OF assms(2)] by simp
  then show ?thesis by (simp add: strip_prefix_def)
qed

lemma slash_split: "CHR ''/'' \<notin> set a \<Longrightarrow> CHR ''/'' \<notin> set c \<Longrightarrow> a @ CHR ''/'' # b = c @ CHR ''/'' # d \<longleftrightarrow> a = c \<and> b = d"
  by (metis while_sep list.inject)

lemma prefixed_inj:
  assumes "CHR ''/'' \<notin> set (kv_comp self c)" "CHR ''/'' \<notin> set (kv_comp self c')"
  shows "prefixed self k c = prefixed self k' c' \<longleftrightarrow> k = k' \<and> kv_comp self c = kv_comp self c'"
  using slash_split [OF assms, of k k'] by (auto simp: prefixed_eq)

section \<open>The store contract\<close>

text \<open>
  What the agent relies on: a read after a write of the same full key sees the written value,
  writes of other keys are not seen, and \<open>exists\<close> tells whether \<open>get\<close> answers.
\<close>

locale key_value_store =
  fixes set_key :: "string \<Rightarrow> string \<Rightarrow> string option \<Rightarrow> 's \<Rightarrow> 's"
    and get_key :: "string \<Rightarrow> string option \<Rightarrow> 's \<Rightarrow> string option"
    and has_key :: "string \<Rightarrow> string option \<Rightarrow> 's \<Rightarrow> bool"
    and full :: "'s \<Rightarrow> string \<Rightarrow> string option \<Rightarrow> string"
  assumes get_set: "get_key k' c' (set_key k v c s) = (if full s k' c' = full s k c then Some v else get_key k' c' s)"
    and full_set: "full (set_key k v c s) = full s"
    and has_iff: "has_key k c s \<longleftrightarrow> get_key k c s \<noteq> None"
begin

lemma full_sets: "full (fold (\<lambda>(k, v, c). set_key k v c) ws s) = full s"
  by (induction ws arbitrary: s) (auto simp: full_set)

lemma last_write:
  "get_key k c (fold (\<lambda>(k, v, c). set_key k v c) ws s) =
     (case map_of (rev (map (\<lambda>(k, v, c). (full s k c, v)) ws)) (full s k c) of Some v \<Rightarrow> Some v | None \<Rightarrow> get_key k c s)"
proof (induction ws arbitrary: s)
  case (Cons w ws)
  obtain k0 v0 c0 where w: "w = (k0, v0, c0)" by (cases w)
  show ?case
    by (simp add: w Cons.IH full_set get_set map_of_append map_add_def split: option.splits)
qed simp

lemma written_exists: "has_key k c (set_key k v c s)"
  by (simp add: has_iff get_set)

end

lemmas tcp_defs = tcp_set_def tcp_get_def tcp_check_def tcp_exists_def tcp_delete_def tcp_set_bytes_def tcp_get_bytes_def
  and etcd_defs = etcd_set_def etcd_get_def etcd_exists_def etcd_delete_def etcd_set_bytes_def etcd_get_bytes_def

lemma truncate_updates [simp]:
  "kv_client.truncate (s\<lparr>tcp_data := d\<rparr>) = kv_client.truncate s"
  "kv_client.truncate (s\<lparr>tcp_known_keys := ks\<rparr>) = kv_client.truncate s"
  "kv_client.truncate (e\<lparr>etcd_data := d\<rparr>) = kv_client.truncate e"
  by (simp_all add: kv_client.defs)

interpretation tcp: key_value_store tcp_set tcp_get tcp_exists tcp_prefixed
  by unfold_locales (auto simp: tcp_defs Let_def dict_simps)

interpretation etcd: key_value_store etcd_set etcd_get etcd_exists etcd_prefixed
  by unfold_locales (auto simp: etcd_defs Let_def dict_simps)

section \<open>Waiting\<close>

lemma poll_until_found:
  assumes "i < length rounds" "found (fst (rounds ! i)) \<noteq> None" "\<forall>j < i. \<not> snd (rounds ! j)"
  shows "\<exists>r. poll_until found rounds = Some (Inr r)"
  using assms
proof (induction rounds arbitrary: i)
  case (Cons rd rounds)
  obtain d e where rd: "rd = (d, e)" by (cases rd)
  show ?case
  proof (cases "found d")
    case None
    then obtain k where i: "i = Suc k" using Cons.prems(2) rd by (cases i) auto
    have "\<not> e" using Cons.prems(3) i rd by force
    then show ?thesis using Cons.IH [of k] Cons.prems i None rd by fastforce
  qed (simp add: rd)
qed simp

lemma poll_until_sound: "poll_until found rounds = Some (Inr r) \<Longrightarrow> \<exists>(d, e) \<in> set rounds. found d = Some r"
  by (induction found rounds rule: poll_until.induct) (auto split: option.splits if_splits)

text \<open>A callback without state answers exactly when an event it accepts has arrived.\<close>

lemma first_event_None: "first_event (\<lambda>e _. (f e, ())) es st = None \<longleftrightarrow> (\<forall>e \<in> set es. f e = None)"
  by (induction es arbitrary: st) (auto split: option.split)

lemma first_event_Some: "first_event (\<lambda>e _. (f e, ())) es st = Some r \<Longrightarrow> \<exists>e \<in> set es. f e = Some r"
  by (induction es arbitrary: st) (auto split: option.splits)

lemma callbacks_None: "fst (callbacks (\<lambda>e _. (f e, ())) es res) = None \<longleftrightarrow> fst res = None \<and> (\<forall>e \<in> set es. f e = None)"
  by (induction es arbitrary: res) (auto split: option.split)

lemma callbacks_Some: "fst (callbacks (\<lambda>e _. (f e, ())) es res) = Some r \<Longrightarrow> fst res = Some r \<or> (\<exists>e \<in> set es. f e = Some r)"
  by (induction es arbitrary: res) (fastforce split: option.splits)+

text \<open>The events of a watch are the puts since it was registered.\<close>

definition put_all :: "watch_event list \<Rightarrow> (string, string) dict \<Rightarrow> (string, string) dict" where
  "put_all es data = fold (\<lambda>(k, v) d. dict_set d k v) es data"

lemma srv_puts:
  "srv_data (fold srv_put es srv) = put_all es (srv_data srv)" "srv_watching (fold srv_put es srv) = srv_watching srv"
  "srv_events (fold srv_put es srv) = srv_events srv @ (if srv_watching srv then es else [])"
  by (induction es arbitrary: srv) (auto simp: put_all_def srv_put_def case_prod_beta)

lemma put_all_get: "dict_get (put_all es data) k = (case map_of (rev es) k of Some v \<Rightarrow> Some v | None \<Rightarrow> dict_get data k)"
  by (induction es arbitrary: data) (auto simp: put_all_def dict_simps map_add_def split: option.split)

lemma put_all_None: "dict_get (put_all es data) k = None \<longleftrightarrow> dict_get data k = None \<and> (\<forall>v. (k, v) \<notin> set es)"
  by (auto simp: put_all_get map_of_eq_None_iff image_iff split: option.split dest: map_of_SomeD)

lemma put_all_Some: "dict_get (put_all es data) k = Some v \<Longrightarrow> dict_get data k = Some v \<or> (k, v) \<in> set es"
  by (auto simp: put_all_get split: option.splits dest: map_of_SomeD)

lemma watch_wait:
  fixes tr timeout
  defines "seen \<equiv> put_all (tr_before tr @ tr_between tr)" and "events \<equiv> tr_between tr @ in_time timeout tr"
  shows "wait_with_watch (\<lambda>data _. (g data, ())) (\<lambda>e _. (f e, ())) timeout tr data () = Inl TimeoutError \<longleftrightarrow>
      g (seen data) = None \<and> (\<forall>e \<in> set events. f e = None)"
    and "wait_with_watch (\<lambda>data _. (g data, ())) (\<lambda>e _. (f e, ())) timeout tr data () = Inr r \<Longrightarrow>
      g (seen data) = Some r \<or> (\<exists>e \<in> set events. f e = Some r)"
    and "wait_with_watch (\<lambda>data _. (g data, ())) (\<lambda>e _. (f e, ())) timeout tr data () = Inl e \<Longrightarrow> e = TimeoutError"
proof -
  have s: "put_all (tr_between tr) (put_all (tr_before tr) data) = seen data" by (simp add: seen_def put_all_def)
  note w = wait_with_watch_def Let_def srv_puts srv_watch_def s
  show "wait_with_watch (\<lambda>data _. (g data, ())) (\<lambda>e _. (f e, ())) timeout tr data () = Inl TimeoutError \<longleftrightarrow>
      g (seen data) = None \<and> (\<forall>e \<in> set events. f e = None)"
    using callbacks_None [of f "tr_between tr" "(None, ())"] first_event_None [of f "in_time timeout tr" "()"]
    by (auto simp: w events_def split: option.split prod.split)
  show "wait_with_watch (\<lambda>data _. (g data, ())) (\<lambda>e _. (f e, ())) timeout tr data () = Inr r \<Longrightarrow>
      g (seen data) = Some r \<or> (\<exists>e \<in> set events. f e = Some r)"
    using callbacks_Some [of f "tr_between tr" "(None, ())" r] first_event_Some [of f "in_time timeout tr" "()" r]
    by (auto simp: w events_def split: option.splits prod.splits)
  show "wait_with_watch (\<lambda>data _. (g data, ())) (\<lambda>e _. (f e, ())) timeout tr data () = Inl e \<Longrightarrow> e = TimeoutError"
    by (auto simp: w split: option.splits prod.splits)
qed

lemma poll_candidates_set:
  "set (poll_candidates pre v data cands m) = set m \<union> {k \<in> set cands. dict_get data (pre k) = Some v}"
  "distinct m \<Longrightarrow> distinct (poll_candidates pre v data cands m)"
  by (induction cands arbitrary: m) (auto simp: poll_candidates_def)

lemma wait_for_keys_sound:
  assumes "wait_for_keys_loop pre n v cands m rounds = Some (Inr ks)" "distinct m" "\<forall>k \<in> set m. P k"
    and "\<And>k data e. (data, e) \<in> set rounds \<Longrightarrow> k \<in> set cands \<Longrightarrow> dict_get data (pre k) = Some v \<Longrightarrow> P k"
  shows "length ks = n \<and> sorted ks \<and> distinct ks \<and> (\<forall>k \<in> set ks. P k)"
  using assms
proof (induction rounds arbitrary: m)
  case Nil
  then show ?case
    by (auto simp: wait_for_keys_loop.simps [of _ _ _ _ m] sorted_wrt_take dest: in_set_takeD split: if_splits)
next
  case (Cons rd rounds)
  obtain data e where rd: "rd = (data, e)" by (cases rd)
  show ?case
  proof (cases "n \<le> length m")
    case True
    then show ?thesis using Cons.prems
      by (auto simp: wait_for_keys_loop.simps [of _ _ _ _ m] sorted_wrt_take dest: in_set_takeD)
  next
    case False
    then have l: "wait_for_keys_loop pre n v cands (poll_candidates pre v data cands m) rounds = Some (Inr ks)"
      using Cons.prems(1) rd by (simp add: wait_for_keys_loop.simps [of _ _ _ _ m] split: if_splits)
    show ?thesis
    proof (rule Cons.IH [OF l])
      show "\<forall>k \<in> set (poll_candidates pre v data cands m). P k"
        using Cons.prems(3,4) rd by (auto simp: poll_candidates_set(1))
    qed (use Cons.prems rd in \<open>auto simp: poll_candidates_set\<close>)
  qed
qed

lemma wait_for_keys_complete:
  assumes "i < length rounds" "\<forall>j \<le> i. \<not> snd (rounds ! j)" "distinct m"
    and "n \<le> card {k \<in> set cands. dict_get (fst (rounds ! i)) (pre k) = Some v}"
  shows "\<exists>ks. wait_for_keys_loop pre n v cands m rounds = Some (Inr ks)"
  using assms
proof (induction rounds arbitrary: m i)
  case (Cons rd rounds)
  obtain data e where rd: "rd = (data, e)" by (cases rd)
  have e: "\<not> e" using Cons.prems(2) rd by force
  show ?case
  proof (cases "n \<le> length m")
    case True
    then show ?thesis by (simp add: wait_for_keys_loop.simps [of _ _ _ _ m])
  next
    case False
    let ?m = "poll_candidates pre v data cands m"
    have step: "wait_for_keys_loop pre n v cands m (rd # rounds) = wait_for_keys_loop pre n v cands ?m rounds"
      using False e rd by (simp add: wait_for_keys_loop.simps [of _ _ _ _ m])
    have d: "distinct ?m" using Cons.prems(3) by (rule poll_candidates_set(2))
    show ?thesis
    proof (cases i)
      case 0
      have "card {k \<in> set cands. dict_get data (pre k) = Some v} \<le> card (set ?m)"
        by (rule card_mono) (auto simp: poll_candidates_set(1))
      then have "n \<le> length ?m" using Cons.prems(4) 0 rd d by (simp add: distinct_card)
      then show ?thesis unfolding step by (simp add: wait_for_keys_loop.simps [of _ _ _ _ ?m])
    next
      case (Suc j)
      have "\<forall>l \<le> j. \<not> snd (rounds ! l)" using Cons.prems(2) Suc by auto
      then show ?thesis unfolding step using Cons.IH [of j ?m] Cons.prems(1,4) Suc d by simp
    qed
  qed
qed simp

section \<open>Properties\<close>

text \<open>
  Last write wins, on both backends: after any sequence of writes a read returns the last
  value written under the same full key, or what was there before when there was none; writes
  under other keys or components are never seen.
\<close>

theorem kv_last_write:
  "tcp_get k c (fold (\<lambda>(k, v, c). tcp_set k v c) ws s) =
     (case map_of (rev (map (\<lambda>(k, v, c). (tcp_prefixed s k c, v)) ws)) (tcp_prefixed s k c) of
        Some v \<Rightarrow> Some v | None \<Rightarrow> tcp_get k c s) \<and>
   etcd_get k c (fold (\<lambda>(k, v, c). etcd_set k v c) ws e) =
     (case map_of (rev (map (\<lambda>(k, v, c). (etcd_prefixed e k c, v)) ws)) (etcd_prefixed e k c) of
        Some v \<Rightarrow> Some v | None \<Rightarrow> etcd_get k c e)"
  by (simp only: tcp.last_write etcd.last_write)

text \<open>
  Prefixing is faithful: with no slash in the namespace and the components, two full keys are
  equal exactly when key and component are, and stripping the prefix gives the key back, whatever
  slashes the key has.
\<close>

theorem prefix_roundtrip:
  assumes "CHR ''/'' \<notin> set (kv_namespace self)"
    and "CHR ''/'' \<notin> set (kv_comp self c)" "CHR ''/'' \<notin> set (kv_comp self c')"
  shows "strip_prefix (prefixed self k c) = k \<and>
    (prefixed self k c = prefixed self k' c' \<longleftrightarrow> k = k' \<and> kv_comp self c = kv_comp self c')"
  using strip_prefixed [OF assms(1,2)] prefixed_inj [OF assms(2,3)] by simp

theorem prefix_roundtrip_witness:
  "strip_prefix (prefixed \<lparr>kv_namespace = ''job1'', kv_component = ''tensorbus''\<rparr> ''pair:a/rank:0'' (Some ''global'')) = ''pair:a/rank:0''"
proof -
  let ?c = "\<lparr>kv_namespace = ''job1'', kv_component = ''tensorbus''\<rparr>"
  have "CHR ''/'' \<notin> set (kv_namespace ?c)" "CHR ''/'' \<notin> set (kv_comp ?c (Some ''global''))"
    by (simp_all add: kv_comp_def)
  then show ?thesis using prefix_roundtrip [of ?c "Some ''global''" "Some ''global''" "''pair:a/rank:0''"] by blast
qed

text \<open>
  Binary values survive: what \<open>set_bytes\<close> stores, \<open>get_bytes\<close> returns unchanged, through
  base64 on the TCP backend and directly on etcd.
\<close>

theorem bytes_roundtrip:
  "tcp_get_bytes k c (tcp_set_bytes k data c s) = Inr (Some data) \<and>
   etcd_get_bytes k c (etcd_set_bytes k data c e) = Some data"
  by (simp add: tcp_get_bytes_def tcp_set_bytes_def etcd_defs Let_def dict_simps b64_roundtrip)

text \<open>
  Deleting a key of the TCP backend does not remove it: afterwards the key still exists with an
  empty value, and deleting it again reports a deletion again; only \<open>wait_for_key\<close> treats it
  as absent. On etcd the key is gone and a second delete reports False.
\<close>

theorem delete_backends_differ:
  assumes "tcp_exists k c s" "etcd_exists k c e"
  shows "(let (r, s') = tcp_delete k c s in
      r \<and> tcp_exists k c s' \<and> tcp_get k c s' = Some [] \<and> fst (tcp_delete k c s') \<and>
      tcp_wait_for_key k c s' [(tcp_data s', True)] = Some (Inl TimeoutError)) \<and>
    (let (r, e') = etcd_delete k c e in
      r \<and> \<not> etcd_exists k c e' \<and> etcd_get k c e' = None \<and> \<not> fst (etcd_delete k c e'))"
  using assms by (auto simp: tcp_defs etcd_defs tcp_wait_for_key_def Let_def dict_simps)

theorem delete_backends_differ_witness:
  "(let s = tcp_set ''k'' ''1'' None \<lparr>kv_namespace = ''n'', kv_component = ''c'', tcp_data = [], tcp_known_keys = []\<rparr>;
        e = etcd_set ''k'' ''1'' None \<lparr>kv_namespace = ''n'', kv_component = ''c'', etcd_data = []\<rparr>
    in tcp_get ''k'' None (snd (tcp_delete ''k'' None s)) = Some [] \<and> etcd_get ''k'' None (snd (etcd_delete ''k'' None e)) = None)"
proof -
  let ?s = "tcp_set ''k'' ''1'' None \<lparr>kv_namespace = ''n'', kv_component = ''c'', tcp_data = [], tcp_known_keys = []\<rparr>"
  let ?e = "etcd_set ''k'' ''1'' None \<lparr>kv_namespace = ''n'', kv_component = ''c'', etcd_data = []\<rparr>"
  have "tcp_exists ''k'' None ?s" "etcd_exists ''k'' None ?e" by (rule tcp.written_exists, rule etcd.written_exists)
  from delete_backends_differ [OF this] show ?thesis by (simp add: Let_def case_prod_beta)
qed

lemma ball_pairs: "(\<forall>e \<in> S. P e) \<longleftrightarrow> (\<forall>k v. (k, v) \<in> S \<longrightarrow> P (k, v))"
  by auto

lemma etcd_waits_are_watches:
  "etcd_wait_for_key key c timeout tr s = wait_with_watch (\<lambda>data _. (dict_get data (etcd_prefixed s key c), ()))
     (\<lambda>e _. (if fst e = etcd_prefixed s key c then Some (snd e) else None, ())) timeout tr (etcd_data s) ()"
  "etcd_wait_for_value key expected c timeout tr s = wait_with_watch
     (\<lambda>data _. (case dict_get data (etcd_prefixed s key c) of None \<Rightarrow> None | Some v \<Rightarrow> if v = expected then Some v else None, ()))
     (\<lambda>e _. (if fst e = etcd_prefixed s key c \<and> snd e = expected then Some (snd e) else None, ())) timeout tr (etcd_data s) ()"
  unfolding etcd_wait_for_key_def etcd_wait_for_value_def etcd_get_def by (simp_all add: split_def)

lemma etcd_wait_for_key_iff:
  "etcd_wait_for_key key c timeout tr s = Inl e \<longleftrightarrow>
     e = TimeoutError \<and> etcd_get key c s = None \<and> (\<forall>v. (etcd_prefixed s key c, v) \<notin> set (tr_before tr @ tr_between tr @ in_time timeout tr))"
  "etcd_wait_for_key key c timeout tr s = Inr v \<Longrightarrow>
     etcd_get key c s = Some v \<or> (etcd_prefixed s key c, v) \<in> set (tr_before tr @ tr_between tr @ in_time timeout tr)"
proof -
  note w = watch_wait [where g = "\<lambda>data. dict_get data (etcd_prefixed s key c)" and
      f = "\<lambda>e. if fst e = etcd_prefixed s key c then Some (snd e) else None" and tr = tr and timeout = timeout and data = "etcd_data s",
      folded etcd_waits_are_watches(1)]
  show "etcd_wait_for_key key c timeout tr s = Inl e \<longleftrightarrow>
     e = TimeoutError \<and> etcd_get key c s = None \<and> (\<forall>v. (etcd_prefixed s key c, v) \<notin> set (tr_before tr @ tr_between tr @ in_time timeout tr))"
  proof (cases "e = TimeoutError")
    case True
    show ?thesis unfolding True w(1) put_all_None ball_pairs by (auto simp: etcd_get_def)
  qed (use w(3) in blast)
  show "etcd_get key c s = Some v \<or> (etcd_prefixed s key c, v) \<in> set (tr_before tr @ tr_between tr @ in_time timeout tr)"
    if "etcd_wait_for_key key c timeout tr s = Inr v"
    using w(2) [OF that] by (auto simp: etcd_get_def dest!: put_all_Some split: if_splits)
qed

lemma etcd_wait_for_value_iff:
  fixes s tr
  defines "data \<equiv> put_all (tr_before tr @ tr_between tr) (etcd_data s)"
  shows "etcd_wait_for_value key expected c timeout tr s = Inl e \<longleftrightarrow>
      e = TimeoutError \<and> dict_get data (etcd_prefixed s key c) \<noteq> Some expected \<and> (etcd_prefixed s key c, expected) \<notin> set (tr_between tr @ in_time timeout tr)"
    and "etcd_wait_for_value key expected c timeout tr s = Inr v \<Longrightarrow>
      v = expected \<and> (dict_get data (etcd_prefixed s key c) = Some expected \<or> (etcd_prefixed s key c, expected) \<in> set (tr_between tr @ in_time timeout tr))"
proof -
  note w = watch_wait [where g = "\<lambda>data. case dict_get data (etcd_prefixed s key c) of None \<Rightarrow> None | Some v \<Rightarrow> if v = expected then Some v else None" and
      f = "\<lambda>e. if fst e = etcd_prefixed s key c \<and> snd e = expected then Some (snd e) else None" and tr = tr and timeout = timeout and data = "etcd_data s",
      folded etcd_waits_are_watches(2) data_def]
  show "etcd_wait_for_value key expected c timeout tr s = Inl e \<longleftrightarrow>
      e = TimeoutError \<and> dict_get data (etcd_prefixed s key c) \<noteq> Some expected \<and> (etcd_prefixed s key c, expected) \<notin> set (tr_between tr @ in_time timeout tr)"
  proof (cases "e = TimeoutError")
    case True
    show ?thesis unfolding True w(1) ball_pairs by (auto split: option.split)
  qed (use w(3) in blast)
  show "v = expected \<and> (dict_get data (etcd_prefixed s key c) = Some expected \<or> (etcd_prefixed s key c, expected) \<in> set (tr_between tr @ in_time timeout tr))"
    if "etcd_wait_for_value key expected c timeout tr s = Inr v"
    using w(2) [OF that] by (auto split: if_splits option.splits)
qed

text \<open>
  C36. No wake-up is lost on etcd, whatever other clients put while the wait runs: before its watch
  is registered, between the watch and the check, or after the check. \<open>wait_for_key\<close> times out
  exactly when the key was absent and nobody put it until the timeout, and otherwise returns a
  value the key had at that time. \<open>wait_for_value\<close> times out exactly when the value that the check
  finds is another one and nobody put the expected value between the registration of the watch and
  the timeout, so also a value that is overwritten again before the check ends the wait; otherwise
  it returns the expected value.
\<close>

theorem etcd_wait_no_lost_wakeup:
  "(case etcd_wait_for_key key c timeout tr s of
      Inl e \<Rightarrow> e = TimeoutError \<and> etcd_get key c s = None \<and>
        (\<forall>v. (etcd_prefixed s key c, v) \<notin> set (tr_before tr @ tr_between tr @ in_time timeout tr))
    | Inr v \<Rightarrow> etcd_get key c s = Some v \<or> (etcd_prefixed s key c, v) \<in> set (tr_before tr @ tr_between tr @ in_time timeout tr)) \<and>
   (case etcd_wait_for_value key expected c timeout tr s of
      Inl e \<Rightarrow> e = TimeoutError \<and> dict_get (put_all (tr_before tr @ tr_between tr) (etcd_data s)) (etcd_prefixed s key c) \<noteq> Some expected \<and>
        (etcd_prefixed s key c, expected) \<notin> set (tr_between tr @ in_time timeout tr)
    | Inr v \<Rightarrow> v = expected \<and> (dict_get (put_all (tr_before tr @ tr_between tr) (etcd_data s)) (etcd_prefixed s key c) = Some expected \<or>
        (etcd_prefixed s key c, expected) \<in> set (tr_between tr @ in_time timeout tr)))"
  using etcd_wait_for_key_iff [of key c timeout tr s] etcd_wait_for_value_iff [of key expected c timeout tr s]
  by (auto split: sum.split)

text \<open>
  \<open>wait_for_keys\<close> on the TCP backend: when it answers, it names exactly the expected number of
  different candidates in sorted order, each matching the pattern and seen with the value in
  some round; and it answers as soon as, in one round before the timeout, enough of the matching
  candidates have the value.
\<close>

theorem tcp_wait_for_keys_correct:
  assumes "cands = filter (\<lambda>k. fnmatch k pat) ks" "pre = (\<lambda>k. tcp_prefixed s k c)"
  shows "(tcp_wait_for_keys pat n v (Some ks) c s rounds = Some (Inr found) \<longrightarrow>
      length found = n \<and> sorted found \<and> distinct found \<and>
      (\<forall>k \<in> set found. k \<in> set cands \<and> (\<exists>(data, e) \<in> set rounds. dict_get data (pre k) = Some v))) \<and>
    (\<forall>i < length rounds. (\<forall>j \<le> i. \<not> snd (rounds ! j)) \<longrightarrow> n \<le> card {k \<in> set cands. dict_get (fst (rounds ! i)) (pre k) = Some v}
      \<longrightarrow> (\<exists>found. tcp_wait_for_keys pat n v (Some ks) c s rounds = Some (Inr found)))"
proof -
  have w: "tcp_wait_for_keys pat n v (Some ks) c s rounds = wait_for_keys_loop pre n v cands [] rounds"
    by (simp add: tcp_wait_for_keys_def assms)
  show ?thesis unfolding w
    using wait_for_keys_sound [of pre n v cands "[]" rounds found
        "\<lambda>k. k \<in> set cands \<and> (\<exists>(data, e) \<in> set rounds. dict_get data (pre k) = Some v)"]
      wait_for_keys_complete [of _ rounds "[]" n cands pre v] by fastforce
qed

theorem tcp_wait_for_keys_correct_witness:
  "\<exists>found. tcp_wait_for_keys ''r:*'' 1 ''1'' (Some [''r:0'', ''r:1'', ''x'']) None
     \<lparr>kv_namespace = ''n'', kv_component = ''c'', tcp_data = [], tcp_known_keys = []\<rparr>
     [([], False), ([(''n/c/r:1'', ''1'')], False)] = Some (Inr found)"
proof -
  let ?s = "\<lparr>kv_namespace = ''n'', kv_component = ''c'', tcp_data = [], tcp_known_keys = []\<rparr>"
  let ?cs = "filter (\<lambda>k. fnmatch k ''r:*'') [''r:0'', ''r:1'', ''x'']"
  let ?pre = "\<lambda>k. tcp_prefixed ?s k None"
  let ?rounds = "[([], False), ([(''n/c/r:1'', ''1'')], False)] :: poll list"
  have "{k \<in> set ?cs. dict_get (fst (?rounds ! 1)) (?pre k) = Some ''1''} = {''r:1''}"
    by (auto simp: prefixed_def kv_client.defs)
  then have "1 < length ?rounds" "\<forall>j \<le> 1. \<not> snd (?rounds ! j)"
    "1 \<le> card {k \<in> set ?cs. dict_get (fst (?rounds ! 1)) (?pre k) = Some ''1''}" by (simp_all add: le_Suc_eq)
  then show ?thesis
    using tcp_wait_for_keys_correct [OF refl refl, where pat = "''r:*''" and ks = "[''r:0'', ''r:1'', ''x'']" and s = ?s
        and c = None and n = 1 and v = "''1''" and rounds = ?rounds] by blast
qed
end
