(* ===== verification/Text_Codec.thy ===== *)
theory Text_Codec
  imports KV_Store
begin

text \<open>
  The texts the agent keeps in the store: decimal numbers (\<open>str\<close> and \<open>int\<close>) and the JSON
  lists of two names (\<open>json.dumps\<close> and \<open>json.loads\<close>), with the round trips the handlers
  rely on. Names are printable ASCII, so quotes and backslashes are all that JSON escapes.
\<close>

section \<open>Decimal numbers\<close>

definition digit :: "nat \<Rightarrow> char" where
  "digit d = char_of (48 + d)"

fun show_nat :: "nat \<Rightarrow> string" where
  "show_nat n = (if n < 10 then [digit n] else show_nat (n div 10) @ [digit (n mod 10)])"

declare show_nat.simps [simp del]

definition is_digit :: "char \<Rightarrow> bool" where
  "is_digit c \<longleftrightarrow> (48 :: nat) \<le> of_char c \<and> of_char c < (58 :: nat)"

definition digits_value :: "string \<Rightarrow> nat" where
  "digits_value s = foldl (\<lambda>n c. 10 * n + (of_char c - 48)) 0 s"

definition read_nat :: "string \<Rightarrow> nat result" where
  "read_nat s = (if s \<noteq> [] \<and> list_all is_digit s then Inr (digits_value s) else Inl ValueError)"

text \<open>\<open>str(i)\<close> and \<open>int(s)\<close>.\<close>

definition show_int :: "int \<Rightarrow> string" where
  "show_int i = (if i < 0 then CHR ''-'' # show_nat (nat (- i)) else show_nat (nat i))"

definition read_int :: "string \<Rightarrow> int result" where
  "read_int s =
     (case s of
        c # s' \<Rightarrow> if c = CHR ''-'' then res_bind (read_nat s') (\<lambda>n. Inr (- int n)) else res_bind (read_nat s) (\<lambda>n. Inr (int n))
      | [] \<Rightarrow> Inl ValueError)"

lemma of_char_digit: "d < 10 \<Longrightarrow> of_char (digit d) = 48 + d"
  by (simp add: digit_def of_char_of)

lemma show_nat_digits: "show_nat n \<noteq> [] \<and> list_all is_digit (show_nat n) \<and> digits_value (show_nat n) = n"
proof (induction n rule: show_nat.induct)
  case (1 n)
  have d: "is_digit (digit d)" if "d < 10" for d using that by (simp add: is_digit_def of_char_digit)
  show ?case
  proof (cases "n < 10")
    case True
    then show ?thesis using d by (simp add: show_nat.simps [of n] digits_value_def of_char_digit)
  next
    case False
    have "n mod 10 < 10" by simp
    then show ?thesis
      using 1 [OF False] False d [of "n mod 10"] of_char_digit [of "n mod 10"]
      by (simp add: show_nat.simps [of n] digits_value_def)
  qed
qed

lemma read_show_nat: "read_nat (show_nat n) = Inr n"
  using show_nat_digits [of n] by (simp add: read_nat_def)

lemma show_nat_inj: "show_nat a = show_nat b \<longleftrightarrow> a = b"
  using show_nat_digits by metis

lemma show_nat_hd: "show_nat n = c # s \<Longrightarrow> c \<noteq> CHR ''-''"
  using show_nat_digits [of n] by (auto simp: is_digit_def)

lemma read_show_int: "read_int (show_int i) = Inr i"
proof (cases "i < 0")
  case True
  then show ?thesis by (simp add: read_int_def show_int_def read_show_nat)
next
  case False
  obtain c s where "show_nat (nat i) = c # s" using show_nat_digits [of "nat i"] by (cases "show_nat (nat i)") auto
  then show ?thesis
    using False show_nat_hd [of "nat i"] read_show_nat [of "nat i"] by (simp add: read_int_def show_int_def)
qed

lemma show_int_nonempty: "show_int i \<noteq> []"
  using show_nat_digits by (simp add: show_int_def)

lemma show_int_inj: "show_int a = show_int b \<longleftrightarrow> a = b"
  using read_show_int by (metis sum.inject(2))

lemma show_int_chars: "c \<in> set (show_int i) \<Longrightarrow> is_digit c \<or> c = CHR ''-''"
  using show_nat_digits by (auto simp: show_int_def list_all_iff split: if_splits)

section \<open>JSON\<close>

fun json_escape :: "string \<Rightarrow> string" where
  "json_escape [] = []"
| "json_escape (c # s) =
     (if c = CHR 0x22 \<or> c = CHR 0x5C then CHR 0x5C # c # json_escape s else c # json_escape s)"

definition json_string :: "string \<Rightarrow> string" where
  "json_string s = CHR 0x22 # json_escape s @ [CHR 0x22]"

text \<open>\<open>json.dumps\<close> of a list or tuple of two strings.\<close>

definition json_dumps :: "string \<times> string \<Rightarrow> string" where
  "json_dumps p = ''['' @ json_string (fst p) @ '', '' @ json_string (snd p) @ '']''"

text \<open>Reading a string up to its closing quote, and \<open>json.loads\<close> of a list of two strings.\<close>

fun json_read_string :: "string \<Rightarrow> (string \<times> string) option" where
  "json_read_string [] = None"
| "json_read_string [c] = (if c = CHR 0x22 then Some ([], []) else None)"
| "json_read_string (c # d # s) =
     (if c = CHR 0x22 then Some ([], d # s)
      else if c = CHR 0x5C then map_option (\<lambda>(x, r). (d # x, r)) (json_read_string s)
      else map_option (\<lambda>(x, r). (c # x, r)) (json_read_string (d # s)))"

definition json_loads :: "string \<Rightarrow> (string \<times> string) result" where
  "json_loads s =
     (if take 2 s = [CHR 0x5B, CHR 0x22] then
        (case json_read_string (drop 2 s) of
           Some (a, r) \<Rightarrow>
             if take 3 r = [CHR 0x2C, CHR 0x20, CHR 0x22] then
               (case json_read_string (drop 3 r) of
                  Some (b, r') \<Rightarrow> if r' = [CHR 0x5D] then Inr (a, b) else Inl ValueError
                | None \<Rightarrow> Inl ValueError)
             else Inl ValueError
         | None \<Rightarrow> Inl ValueError)
      else Inl ValueError)"

lemma json_read_escape: "json_read_string (json_escape s @ CHR 0x22 # r) = Some (s, r)"
proof (induction s)
  case Nil
  then show ?case by (cases r) auto
next
  case (Cons c s)
  obtain d t where dt: "json_escape s @ CHR 0x22 # r = d # t" by (cases "json_escape s @ CHR 0x22 # r") auto
  then show ?case using Cons by auto
qed

lemma json_roundtrip: "json_loads (json_dumps p) = Inr p"
proof -
  have two: "take 2 (json_dumps p) = [CHR 0x5B, CHR 0x22]"
    "drop 2 (json_dumps p) = json_escape (fst p) @ CHR 0x22 # '', '' @ json_string (snd p) @ '']''"
    by (simp_all add: json_dumps_def json_string_def eval_nat_numeral)
  let ?r = "'', '' @ json_string (snd p) @ '']''"
  have three: "take 3 ?r = [CHR 0x2C, CHR 0x20, CHR 0x22]" "drop 3 ?r = json_escape (snd p) @ CHR 0x22 # '']''"
    by (simp_all add: json_string_def eval_nat_numeral)
  show ?thesis
    unfolding json_loads_def two three json_read_escape option.case prod.case by simp
qed

lemma json_dumps_inj: "json_dumps p = json_dumps q \<longleftrightarrow> p = q"
  by (metis json_roundtrip sum.inject(2))

lemma json_dumps_nonempty: "json_dumps p \<noteq> []"
  by (simp add: json_dumps_def)

end
