(* ===== verification/Agent_State.thy ===== *)
theory Agent_State
  imports Text_Codec Buckets M2M_Map
begin

text \<open>
  The commands (\<^verbatim>\<open>commands.py\<close>), the pair and batch state (\<^verbatim>\<open>pair_state.py\<close>,
  \<^verbatim>\<open>batch_state.py\<close>) and the state of one agent process with the small operations its
  handlers share (\<^verbatim>\<open>agent.py\<close>). An agent's state holds its own memory, the shared store as
  it sees it (the TCP backend, the default), its LMDB state database, the named semaphores that
  exist, and a trace of what it did to the outside: barriers, transfers, store signals and
  wake-ups, in order. A handler is a function on that state that may raise; the state survives
  the exception.
\<close>

section \<open>Commands\<close>

datatype transfer_type = Send | Recv

record transfer_cmd =
  tc_semaphore :: "string option"
  tc_batch_id :: string
  tc_transfer_type :: transfer_type
  tc_role :: "string option"
  tc_sync_round :: int
  tc_generation :: nat

record register_cmd =
  rc_semaphore :: "string option"
  rc_batch_id :: string
  rc_tensors :: "(string \<times> string) list"   \<comment> \<open>pair name and pickled tensor\<close>
  rc_bucket_size :: "nat option"
  rc_role :: "string option"

record init_cmd =
  ic_semaphore :: "string option"
  ic_pair_name :: string
  ic_local_name :: string
  ic_expected_world_size :: nat
  ic_remote_name :: string
  ic_mesh_shape_payload :: "string option"
  ic_placements_payload :: "string option"

record query_cmd =
  qc_semaphore :: "string option"
  qc_batch_id :: string
  qc_state_name :: string
  qc_generation :: nat

record cleanup_cmd =
  cc_semaphore :: "string option"
  cc_batch_id :: string
  cc_generation :: nat

datatype message =
    Transfer transfer_cmd | RegisterTensors register_cmd | InitPair init_cmd
  | QueryStatus query_cmd | CleanupBatch cleanup_cmd

fun semaphore_name :: "message \<Rightarrow> string option" where
  "semaphore_name (Transfer c) = tc_semaphore c"
| "semaphore_name (RegisterTensors c) = rc_semaphore c"
| "semaphore_name (InitPair c) = ic_semaphore c"
| "semaphore_name (QueryStatus c) = qc_semaphore c"
| "semaphore_name (CleanupBatch c) = cc_semaphore c"

definition command_error_key :: "string \<Rightarrow> string" where
  "command_error_key s = ''command:'' @ s @ '':error''"

definition command_result_key :: "string \<Rightarrow> string" where
  "command_result_key s = ''command:'' @ s @ '':result''"

section \<open>Pairs and batches\<close>

record pair_state =
  p_pair_name :: string
  p_local_name :: string
  p_local_ranks :: "nat list"
  p_remote_name :: string
  p_remote_ranks :: "nat list"
  p_pair_size :: nat
  p_local_group :: group_handle
  p_pair_group :: group_handle
  p_local_is_first :: bool
  p_m2m_send :: "m2m_map option"
  p_m2m_recv :: "m2m_map option"
  p_source_partial_groups :: "partial_groups option"
  p_dual_endpoint :: bool
  p_role_ranks :: "(string, nat list) dict"
  p_role_groups :: "(string, group_handle) dict"
  p_role_mesh_shapes :: "(string, nat list) dict"
  p_m2m_by_source_role :: "(string, m2m_map option) dict"
  p_partial_by_source_role :: "(string, partial_groups option) dict"

type_synonym direction = "string \<times> string"

record round_pending =
  rp_roles :: "string list"          \<comment> \<open>a set\<close>
  rp_semaphores :: "string list"

type_synonym layout_signature = "string \<times> nat option \<times> (string \<times> nat \<times> (nat list \<times> nat list) option) list \<times> bool"

record batch_state =
  b_batch_id :: string
  b_pair_names :: "string list"
  b_generation :: nat
  b_local_leader :: "nat option"
  b_local_group :: "group_handle option"
  b_batch_group :: "group_handle option"
  b_pair_tensors :: "(string, tensor list) dict"
  b_pair_target_dtypes :: "(string, dtype option list) dict"
  b_send_buckets :: "bucket list option"
  b_recv_buckets :: "bucket list option"
  b_bucket_size :: "nat option"
  b_dual :: bool
  b_pair_role_tensors :: "(string \<times> string, tensor list) dict"
  b_pair_role_dtypes :: "(string \<times> string, dtype list) dict"
  b_dual_direction_buckets :: "(direction, bucket list option) dict"
  b_dual_direction_done :: "(direction, int) dict"
  b_dual_direction :: "direction option"
  b_dual_round_pending :: "(direction \<times> int, round_pending) dict"
  b_dual_layout_signature :: "layout_signature option"
  b_pending_register_semaphores :: "string list"

text \<open>\<open>BatchState(batch_id=..., pair_names=..., bucket_size=..., dual=..., generation=...)\<close>.\<close>

definition new_batch :: "string \<Rightarrow> string list \<Rightarrow> nat option \<Rightarrow> bool \<Rightarrow> nat \<Rightarrow> batch_state" where
  "new_batch batch_id pair_names bucket_size dual gen =
     \<lparr>b_batch_id = batch_id, b_pair_names = pair_names, b_generation = gen, b_local_leader = None,
      b_local_group = None, b_batch_group = None, b_pair_tensors = [], b_pair_target_dtypes = [],
      b_send_buckets = None, b_recv_buckets = None, b_bucket_size = bucket_size, b_dual = dual,
      b_pair_role_tensors = [], b_pair_role_dtypes = [], b_dual_direction_buckets = [],
      b_dual_direction_done = [], b_dual_direction = None, b_dual_round_pending = [],
      b_dual_layout_signature = None, b_pending_register_semaphores = []\<rparr>"

record pending_pair =
  pp_pair_name :: string
  pp_local_name :: string
  pp_remote_name :: string
  pp_expected :: "(string, nat) dict"
  pp_semaphores :: "(string, string option list) dict"

definition add_semaphore :: "string \<Rightarrow> string option \<Rightarrow> pending_pair \<Rightarrow> pending_pair" where
  "add_semaphore name sem p = p\<lparr>pp_semaphores := dict_set (pp_semaphores p) name (dict_get_or (pp_semaphores p) name [] @ [sem])\<rparr>"

definition somes :: "'a option list \<Rightarrow> 'a list" where
  "somes xs = concat (map (\<lambda>x. case x of None \<Rightarrow> [] | Some y \<Rightarrow> [y]) xs)"

definition all_semaphores :: "pending_pair \<Rightarrow> string list" where
  "all_semaphores p = concat (map (\<lambda>(_, names). somes names) (pp_semaphores p))"

section \<open>The agent\<close>

datatype state_value = Error_payload py_error | Scalar int | Flag bool | Text string | Time nat

datatype effect =
    Barrier "group_handle option" | Gathered "group_handle option"
  | Ran string "(direction \<times> int) option" "bucket list" bool   \<comment> \<open>\<open>bucket_comm(buckets, sequential)\<close> for a batch, and the round of a dual one\<close>
  | Simple_transfer transfer_type tensor nat
  | Signal string string
  | Recorded string py_error   \<comment> \<open>an error record is in the state database\<close>
  | Woke string                \<comment> \<open>\<open>sem.release()\<close>, followed by \<open>unlink\<close>\<close>

record agent =
  ag_rank :: nat
  ag_world_size :: nat
  ag_store :: tcp_store
  ag_state_db :: "(string, state_value) dict"
  ag_command_error_times :: "(string, nat) dict"
  ag_clock :: nat                              \<comment> \<open>\<open>time.monotonic()\<close> and \<open>time.time()\<close>, in seconds\<close>
  ag_pairs :: "(string, pair_state) dict"
  ag_batches :: "(string, batch_state) dict"
  ag_batch_generation :: "(string, nat) dict"
  ag_pending_pairs :: "(string, pending_pair) dict"
  ag_completion_cursor :: nat
  ag_completion_log_len :: nat
  ag_pg :: pg_state
  ag_semaphores :: "string list"               \<comment> \<open>named semaphores clients have created\<close>
  ag_trace :: "effect list"

type_synonym 'a act = "agent \<Rightarrow> 'a result \<times> agent"

definition act_return :: "'a \<Rightarrow> 'a act" where
  "act_return x a = (Inr x, a)"

definition act_raise :: "py_error \<Rightarrow> 'a act" where
  "act_raise e a = (Inl e, a)"

definition act_lift :: "'a result \<Rightarrow> 'a act" where
  "act_lift r a = (r, a)"

definition act_modify :: "(agent \<Rightarrow> agent) \<Rightarrow> unit act" where
  "act_modify f a = (Inr (), f a)"

definition act_bind :: "'a act \<Rightarrow> ('a \<Rightarrow> 'b act) \<Rightarrow> 'b act" where
  "act_bind m f a = (case m a of (Inl e, a') \<Rightarrow> (Inl e, a') | (Inr x, a') \<Rightarrow> f x a')"

definition act_catch :: "'a act \<Rightarrow> (py_error \<Rightarrow> 'a act) \<Rightarrow> 'a act" where
  "act_catch m handler a = (case m a of (Inl e, a') \<Rightarrow> handler e a' | (Inr x, a') \<Rightarrow> (Inr x, a'))"

fun act_for :: "('a \<Rightarrow> unit act) \<Rightarrow> 'a list \<Rightarrow> unit act" where
  "act_for f [] = act_return ()"
| "act_for f (x # xs) = act_bind (f x) (\<lambda>_. act_for f xs)"

fun act_fold :: "('a \<Rightarrow> 's \<Rightarrow> 's act) \<Rightarrow> 'a list \<Rightarrow> 's \<Rightarrow> 's act" where
  "act_fold f [] acc = act_return acc"
| "act_fold f (x # xs) acc = act_bind (f x acc) (act_fold f xs)"

named_theorems act_simps \<open>unfolding of handler steps\<close>

lemmas act_defs [act_simps] = act_return_def act_raise_def act_lift_def act_modify_def act_bind_def act_catch_def

section \<open>Shared operations\<close>

definition COMMAND_ERROR_TTL :: nat where
  "COMMAND_ERROR_TTL = 30 * 60"

definition emit :: "effect \<Rightarrow> agent \<Rightarrow> agent" where
  "emit e a = a\<lparr>ag_trace := ag_trace a @ [e]\<rparr>"

text \<open>
  \<open>_release_semaphore\<close>: a missing semaphore is only logged; an existing one is released, which
  wakes its client, and unlinked. It never raises.
\<close>

definition release_semaphore :: "string \<Rightarrow> agent \<Rightarrow> agent" where
  "release_semaphore s a =
     (if s \<in> set (ag_semaphores a) then emit (Woke s) (a\<lparr>ag_semaphores := removeAll s (ag_semaphores a)\<rparr>) else a)"

definition expired_records :: "agent \<Rightarrow> string list" where
  "expired_records a =
     map fst (filter (\<lambda>(_, written_at). written_at + COMMAND_ERROR_TTL < ag_clock a) (ag_command_error_times a))"

definition drop_records :: "string list \<Rightarrow> (string, state_value) dict \<Rightarrow> (string, state_value) dict" where
  "drop_records names db = fold (\<lambda>s d. dict_del (dict_del d (command_error_key s)) (command_result_key s)) names db"

definition record_times :: "string \<Rightarrow> agent \<Rightarrow> (string, nat) dict" where
  "record_times s a =
     dict_set (fold (\<lambda>x d. dict_del d x) (expired_records a) (ag_command_error_times a)) s (ag_clock a)"

definition write_command_result :: "string \<Rightarrow> state_value \<Rightarrow> agent \<Rightarrow> agent" where
  "write_command_result s v a =
     a\<lparr>ag_state_db := dict_set (drop_records (expired_records a) (ag_state_db a)) (command_result_key s) v,
       ag_command_error_times := record_times s a\<rparr>"

definition record_command_error :: "string \<Rightarrow> py_error \<Rightarrow> agent \<Rightarrow> agent" where
  "record_command_error s e a =
     a\<lparr>ag_state_db := dict_set (dict_del (drop_records (expired_records a) (ag_state_db a)) (command_result_key s))
         (command_error_key s) (Error_payload e),
       ag_command_error_times := record_times s a, ag_trace := ag_trace a @ [Recorded s e]\<rparr>"

definition fail_semaphore :: "py_error \<Rightarrow> string \<Rightarrow> agent \<Rightarrow> agent" where
  "fail_semaphore e s a = release_semaphore s (record_command_error s e a)"

definition update_heartbeat :: "agent \<Rightarrow> agent" where
  "update_heartbeat a = a\<lparr>ag_state_db := dict_set (ag_state_db a) ''agent:heartbeat'' (Time (ag_clock a))\<rparr>"

definition store_set :: "string \<Rightarrow> string \<Rightarrow> string option \<Rightarrow> agent \<Rightarrow> agent" where
  "store_set key value component a = a\<lparr>ag_store := tcp_set key value component (ag_store a)\<rparr>"

definition signal :: "string \<Rightarrow> string \<Rightarrow> agent \<Rightarrow> agent" where
  "signal key value a = emit (Signal key value) (store_set key value (Some ''global'') a)"

definition leader_set :: "string \<Rightarrow> string \<Rightarrow> batch_state \<Rightarrow> agent \<Rightarrow> agent" where
  "leader_set key value batch a =
     emit (Barrier (b_local_group batch)) (if Some (ag_rank a) = b_local_leader batch then signal key value a else a)"

definition put_batch :: "batch_state \<Rightarrow> agent \<Rightarrow> agent" where
  "put_batch b a = a\<lparr>ag_batches := dict_set (ag_batches a) (b_batch_id b) b\<rparr>"

definition next_batch_generation :: "string \<Rightarrow> agent \<Rightarrow> nat \<times> agent" where
  "next_batch_generation batch_id a =
     (let gen = dict_get_or (ag_batch_generation a) batch_id 0 + 1
      in (gen, a\<lparr>ag_batch_generation := dict_set (ag_batch_generation a) batch_id gen,
                 ag_state_db := dict_set (ag_state_db a) (''batch:'' @ batch_id @ ''/generation'') (Scalar (int gen))\<rparr>))"

text \<open>\<open>_extract_rank\<close>: the number after \<open>/rank:\<close> in a key.\<close>

fun after_first :: "string \<Rightarrow> string \<Rightarrow> string option" where
  "after_first p [] = (if p = [] then Some [] else None)"
| "after_first p (c # s) = (if has_prefix p (c # s) then Some (drop (length p) (c # s)) else after_first p s)"

definition extract_rank :: "string \<Rightarrow> int result" where
  "extract_rank key =
     (case after_first ''/rank:'' key of
        None \<Rightarrow> Inl ValueError
      | Some rest \<Rightarrow> read_int (takeWhile (\<lambda>c. c \<noteq> CHR ''/'') rest))"

section \<open>Waking and failing\<close>

definition woken :: "agent \<Rightarrow> string list" where
  "woken a = concat (map (\<lambda>e. case e of Woke s \<Rightarrow> [s] | _ \<Rightarrow> []) (ag_trace a))"

definition has_error :: "string \<Rightarrow> agent \<Rightarrow> bool" where
  "has_error s a \<longleftrightarrow> (\<exists>e. dict_get (ag_state_db a) (command_error_key s) = Some (Error_payload e))"

lemma keys_differ: "command_error_key s \<noteq> command_result_key t"
proof
  assume "command_error_key s = command_result_key t"
  then have "last (command_error_key s) = last (command_result_key t)" by simp
  then show False by (simp add: command_error_key_def command_result_key_def)
qed

lemma command_error_key_inj [simp]: "command_error_key s = command_error_key t \<longleftrightarrow> s = t"
  by (simp add: command_error_key_def)

lemma command_result_key_inj [simp]: "command_result_key s = command_result_key t \<longleftrightarrow> s = t"
  by (simp add: command_result_key_def)

lemma woken_release: "woken (release_semaphore s a) = woken a @ (if s \<in> set (ag_semaphores a) then [s] else [])"
  by (simp add: woken_def release_semaphore_def emit_def)

lemma semaphores_release [simp]: "ag_semaphores (release_semaphore s a) = removeAll s (ag_semaphores a)"
  by (simp add: release_semaphore_def emit_def)

lemma record_error_same [simp]:
  "ag_semaphores (record_command_error s e a) = ag_semaphores a" "ag_trace (record_command_error s e a) = ag_trace a @ [Recorded s e]"
  "woken (record_command_error s e a) = woken a" "ag_clock (record_command_error s e a) = ag_clock a"
  by (simp_all add: record_command_error_def woken_def)

lemma release_same [simp]:
  "ag_state_db (release_semaphore s a) = ag_state_db a" "ag_clock (release_semaphore s a) = ag_clock a"
  "ag_command_error_times (release_semaphore s a) = ag_command_error_times a"
  by (simp_all add: release_semaphore_def emit_def)

lemma has_error_record: "has_error s (record_command_error s e a)"
  by (simp add: has_error_def record_command_error_def dict_simps)

text \<open>A fresh record is not dropped by the records written at the same time.\<close>

lemma drop_records_get:
  "(\<forall>s \<in> set names. k \<noteq> command_error_key s \<and> k \<noteq> command_result_key s) \<Longrightarrow> dict_get (drop_records names db) k = dict_get db k"
  unfolding drop_records_def by (induction names arbitrary: db) (auto simp: dict_get_del)

definition fresh_record :: "string \<Rightarrow> agent \<Rightarrow> bool" where
  "fresh_record s a \<longleftrightarrow> s \<notin> set (expired_records a)"

lemma times_after_record: "dict_get (record_times s a) s = Some (ag_clock a)"
  by (simp add: record_times_def dict_simps)

lemma has_error_keep:
  assumes "has_error s a" "fresh_record s a" "s \<noteq> t"
  shows "has_error s (record_command_error t e a)"
proof -
  have "dict_get (drop_records (expired_records a) (ag_state_db a)) (command_error_key s) = dict_get (ag_state_db a) (command_error_key s)"
    using assms(2) keys_differ by (intro drop_records_get) (auto simp: fresh_record_def)
  then show ?thesis
    using assms(1,3) keys_differ by (simp add: has_error_def record_command_error_def dict_simps)
qed

section \<open>Frames of handlers\<close>

lemma snd_pure [simp]: "snd (act_return x a) = a" "snd (act_raise e a) = a" "snd (act_lift r a) = a" "snd (act_modify g a) = g a"
  by (simp_all add: act_simps)

text \<open>
  A reflexive and transitive relation between agent states that the small steps of a handler
  respect is respected by the handler, whether it returns or raises.
\<close>

locale handler_frame =
  fixes R :: "agent \<Rightarrow> agent \<Rightarrow> bool"
  assumes frame_refl: "R a a"
    and frame_trans: "R a b \<Longrightarrow> R b c \<Longrightarrow> R a c"
begin

lemma frame_pure: "R a (snd (act_return x a))" "R a (snd (act_raise e a))" "R a (snd (act_lift r a))"
  by (simp_all add: act_simps frame_refl)

lemma frame_modify: "R a (f a) \<Longrightarrow> R a (snd (act_modify f a))"
  by (simp add: act_simps)

lemma frame_bind:
  assumes "R a (snd (m a))" "\<And>x b. m a = (Inr x, b) \<Longrightarrow> R b (snd (f x b))"
  shows "R a (snd (act_bind m f a))"
proof (cases "m a")
  case (Pair r b)
  then show ?thesis using assms by (cases r) (auto simp: act_bind_def intro: frame_trans)
qed

lemma frame_catch:
  assumes "R a (snd (m a))" "\<And>e b. m a = (Inl e, b) \<Longrightarrow> R b (snd (h e b))"
  shows "R a (snd (act_catch m h a))"
proof (cases "m a")
  case (Pair r b)
  then show ?thesis using assms by (cases r) (auto simp: act_catch_def intro: frame_trans)
qed

lemma frame_for: "(\<And>x b. x \<in> set xs \<Longrightarrow> R b (snd (f x b))) \<Longrightarrow> R a (snd (act_for f xs a))"
  by (induction xs arbitrary: a) (auto intro!: frame_refl frame_bind)

lemma frame_fold: "(\<And>x acc b. x \<in> set xs \<Longrightarrow> R b (snd (f x acc b))) \<Longrightarrow> R a (snd (act_fold f xs acc a))"
  by (induction xs arbitrary: a acc) (auto intro!: frame_refl frame_bind)

end

end
