(* ===== verification/Pair_Rendezvous.thy ===== *)
theory Pair_Rendezvous
  imports Agent_State
begin

text \<open>
  The pair rendezvous of \<^verbatim>\<open>agent.py\<close>: InitPair writes one side's keys and parks, the
  WORLD leader appends ready pairs to a log in the store, and every rank completes pairs in log
  order.

  What an agent meets outside itself is the record \<open>outside\<close>: the DTensor parameter of the
  mesh-to-mesh maps, unpickling (\<open>ForkingPickler.loads\<close>, None where it raises), what the store
  shows during a wait until its timeout, what \<open>all_gather_object\<close> returns for this rank's
  contribution when registrations and rounds are compared, the dtype the other side sends for a
  tensor, and the error the collectives of a transfer raise, if any.
\<close>

record reg_layout =
  rl_signature :: layout_signature
  rl_role :: "string option"
  rl_local_ok :: bool
  rl_role_dup :: bool

record outside =
  o_api :: dtensor_api
  o_load_shape :: "string \<Rightarrow> nat list option"
  o_load_placements :: "string \<Rightarrow> placement list option"
  o_load_tensor :: "string \<Rightarrow> tensor option"
  o_polls :: "poll list"
  o_layouts :: "reg_layout \<Rightarrow> reg_layout option list"
  o_dtypes :: "string \<Rightarrow> nat \<Rightarrow> dtype option"
  o_rounds :: "int \<Rightarrow> int list"
  o_comm_error :: "py_error option"

definition truthy :: "string option \<Rightarrow> string option" where
  "truthy s = (case s of None \<Rightarrow> None | Some x \<Rightarrow> if x = [] then None else Some x)"

definition release_if :: "string option \<Rightarrow> agent \<Rightarrow> agent" where
  "release_if sem a = (case truthy sem of None \<Rightarrow> a | Some s \<Rightarrow> release_semaphore s a)"

section \<open>Keys\<close>

definition side_key :: "string \<Rightarrow> nat \<Rightarrow> string \<Rightarrow> string" where
  "side_key pair_name rank name = ''pair:'' @ pair_name @ ''/rank:'' @ show_nat rank @ ''/'' @ name"

definition rank_size_key :: "string \<Rightarrow> nat \<Rightarrow> string \<Rightarrow> string" where
  "rank_size_key pair_name rank name =
     ''pair:'' @ pair_name @ ''/'' @ name @ ''/rank:'' @ show_nat rank @ ''/expected_world_size''"

definition size_key :: "string \<Rightarrow> string \<Rightarrow> string" where
  "size_key pair_name name = ''pair:'' @ pair_name @ ''/'' @ name @ ''/expected_world_size''"

definition field_key :: "string \<Rightarrow> nat \<Rightarrow> string \<Rightarrow> string \<Rightarrow> string" where
  "field_key pair_name rank name field = side_key pair_name rank name @ ''/'' @ field"

definition marker_key :: "string \<Rightarrow> string" where
  "marker_key pair_name = ''pair_completion:logged:'' @ pair_name"

definition entry_key :: "nat \<Rightarrow> string" where
  "entry_key n = ''pair_completion:entry:'' @ show_nat n"

section \<open>InitPair\<close>

definition write_init_pair_keys :: "init_cmd \<Rightarrow> unit act" where
  "write_init_pair_keys msg =
     (\<lambda>a. let p = ic_pair_name msg; l = ic_local_name msg; r = ag_rank a;
              want = show_nat (ic_expected_world_size msg) in
      act_bind (act_modify (\<lambda>a. store_set (rank_size_key p r l) want None (store_set (side_key p r l) ''1'' None a))) (\<lambda>_.
      (\<lambda>a. let existing = tcp_get (size_key p l) None (ag_store a) in
        if existing \<notin> {None, Some [], Some want} then act_raise InvalidRegistrationError a
        else act_modify (\<lambda>a.
          let a' = store_set (size_key p l) want None a in
          case (ic_mesh_shape_payload msg, ic_placements_payload msg) of
            (Some shape, Some placements) \<Rightarrow>
              a'\<lparr>ag_store := tcp_set_bytes (field_key p r l ''placements'') placements None
                   (tcp_set_bytes (field_key p r l ''mesh_shape'') shape None (ag_store a'))\<rparr>
          | _ \<Rightarrow> a') a)) a)"

definition known_peers :: "pair_state \<Rightarrow> string list" where
  "known_peers p = (if p_role_ranks p \<noteq> [] then dict_keys (p_role_ranks p) else [p_local_name p, p_remote_name p])"

definition known_size :: "pair_state \<Rightarrow> string \<Rightarrow> nat" where
  "known_size p name =
     (case dict_get (p_role_ranks p) name of
        Some ranks \<Rightarrow> length ranks
      | None \<Rightarrow> if name = p_local_name p then length (p_local_ranks p) else length (p_remote_ranks p))"

text \<open>A payload of a repeated InitPair is accepted when it unpickles to what is stored.\<close>

definition load_opt :: "(string \<Rightarrow> 'v option) \<Rightarrow> string option \<Rightarrow> 'v option result" where
  "load_opt load b = (case b of None \<Rightarrow> Inr None
     | Some x \<Rightarrow> (case load x of None \<Rightarrow> Inl InvalidRegistrationError | Some v \<Rightarrow> Inr (Some v)))"

definition same_field :: "(string \<Rightarrow> 'v option) \<Rightarrow> string \<Rightarrow> string option \<Rightarrow> unit act" where
  "same_field load key payload =
     (\<lambda>a. act_bind (act_lift (tcp_get_bytes key None (ag_store a))) (\<lambda>stored.
      act_bind (act_lift (load_opt load stored)) (\<lambda>previous.
      act_bind (act_lift (load_opt load payload)) (\<lambda>requested.
      if requested \<noteq> previous then act_raise InvalidRegistrationError else act_return ()))) a)"

definition repeat_init_pair :: "outside \<Rightarrow> init_cmd \<Rightarrow> pair_state \<Rightarrow> unit act" where
  "repeat_init_pair env msg existing =
     (\<lambda>a. if ic_local_name msg \<notin> set (known_peers existing) \<or> ic_remote_name msg \<notin> set (known_peers existing)
        then act_raise InvalidRegistrationError a
      else if ic_expected_world_size msg \<noteq> known_size existing (ic_local_name msg)
        then act_raise InvalidRegistrationError a
      else
        let key = field_key (ic_pair_name msg) (ag_rank a) (ic_local_name msg) in
        act_bind (same_field (o_load_shape env) (key ''mesh_shape'') (ic_mesh_shape_payload msg)) (\<lambda>_.
        act_bind (same_field (o_load_placements env) (key ''placements'') (ic_placements_payload msg)) (\<lambda>_.
        act_modify (release_if (ic_semaphore msg)))) a)"

definition pending_conflict :: "init_cmd \<Rightarrow> pending_pair \<Rightarrow> bool" where
  "pending_conflict msg p \<longleftrightarrow>
     ic_local_name msg \<notin> {pp_local_name p, pp_remote_name p} \<or> ic_remote_name msg \<notin> {pp_local_name p, pp_remote_name p} \<or>
     dict_get (pp_expected p) (ic_local_name msg) \<notin> {None, Some (ic_expected_world_size msg)}"

definition put_pending :: "pending_pair \<Rightarrow> agent \<Rightarrow> agent" where
  "put_pending p a = a\<lparr>ag_pending_pairs := dict_set (ag_pending_pairs a) (pp_pair_name p) p\<rparr>"

definition handle_init_pair :: "outside \<Rightarrow> init_cmd \<Rightarrow> unit act" where
  "handle_init_pair env msg =
     (\<lambda>a. let l = ic_local_name msg; p = ic_pair_name msg in
      case dict_get (ag_pairs a) p of
        Some existing \<Rightarrow> repeat_init_pair env msg existing a
      | None \<Rightarrow>
          (case dict_get (ag_pending_pairs a) p of
             None \<Rightarrow>
               act_bind (write_init_pair_keys msg) (\<lambda>_.
               act_modify (put_pending (add_semaphore l (ic_semaphore msg)
                 \<lparr>pp_pair_name = p, pp_local_name = l, pp_remote_name = ic_remote_name msg,
                  pp_expected = [(l, ic_expected_world_size msg)], pp_semaphores = []\<rparr>))) a
           | Some pending \<Rightarrow>
               if pending_conflict msg pending then act_raise InvalidRegistrationError a
               else
                 act_bind (write_init_pair_keys msg) (\<lambda>_.
                 act_modify (\<lambda>a. put_pending (add_semaphore l (ic_semaphore msg)
                     (pending\<lparr>pp_expected := (if dict_get (pp_expected pending) l = None
                        then dict_set (pp_expected pending) l (ic_expected_world_size msg) else pp_expected pending)\<rparr>))
                   (store_set (marker_key p) [] None a))) a))"

section \<open>Readiness\<close>

fun side_loop :: "string \<Rightarrow> string \<Rightarrow> tcp_store \<Rightarrow> nat list \<Rightarrow> nat list \<Rightarrow> nat list \<Rightarrow> (nat list \<times> nat list) option result" where
  "side_loop pair_name name store [] present sizes = Inr (Some (present, sizes))"
| "side_loop pair_name name store (r # rs) present sizes =
     (if tcp_get (side_key pair_name r name) None store = Some ''1'' then
        (case tcp_get (rank_size_key pair_name r name) None store of
           None \<Rightarrow> Inr None
         | Some size_bytes \<Rightarrow>
             if size_bytes = [] then Inr None
             else res_bind (read_nat size_bytes) (\<lambda>n. side_loop pair_name name store rs (present @ [r]) (sizes @ [n])))
      else side_loop pair_name name store rs present sizes)"

definition check_side_ready :: "string \<Rightarrow> string \<Rightarrow> nat \<Rightarrow> tcp_store \<Rightarrow> (nat \<times> nat list) option result" where
  "check_side_ready pair_name name world_size store =
     res_bind (side_loop pair_name name store [0..<world_size] [] []) (\<lambda>r.
     Inr (case r of
            None \<Rightarrow> None
          | Some (present, sizes) \<Rightarrow>
              if sizes = [] \<or> length (remdups sizes) \<noteq> 1 then None
              else if length present \<noteq> hd sizes then None
              else Some (hd sizes, sort present)))"

definition pair_ready :: "pending_pair \<Rightarrow> nat \<Rightarrow> tcp_store \<Rightarrow> bool result" where
  "pair_ready p world_size store =
     res_bind (check_side_ready (pp_pair_name p) (pp_local_name p) world_size store) (\<lambda>l.
     if l = None then Inr False
     else res_bind (check_side_ready (pp_pair_name p) (pp_remote_name p) world_size store) (\<lambda>r. Inr (r \<noteq> None)))"

section \<open>The completion log\<close>

definition append_if_ready :: "string \<Rightarrow> unit act" where
  "append_if_ready pair_name =
     (\<lambda>a. if tcp_get (marker_key pair_name) None (ag_store a) \<notin> {None, Some []} then act_return () a
      else case dict_get (ag_pending_pairs a) pair_name of
        None \<Rightarrow> act_return () a
      | Some pending \<Rightarrow>
          act_bind (act_lift (pair_ready pending (ag_world_size a) (ag_store a))) (\<lambda>ready.
          if \<not> ready then act_return ()
          else act_modify (\<lambda>a.
            let n = ag_completion_log_len a + 1 in
            store_set (marker_key pair_name) ''1'' None
              (store_set (entry_key n) pair_name None (a\<lparr>ag_completion_log_len := n\<rparr>)))) a)"

definition append_ready_pairs_to_log :: "unit act" where
  "append_ready_pairs_to_log = (\<lambda>a. act_for append_if_ready (sort (dict_keys (ag_pending_pairs a))) a)"

definition fail_all :: "py_error \<Rightarrow> string list \<Rightarrow> agent \<Rightarrow> agent" where
  "fail_all e sems a = fold (fail_semaphore e) sems a"

definition release_all :: "string list \<Rightarrow> agent \<Rightarrow> agent" where
  "release_all sems a = fold release_semaphore sems a"

text \<open>
  One round of the consuming loop, for a given completion of a pair: False when the log has no
  further entry. A failed completion keeps the pending pair, without its semaphores.
\<close>

definition consume_entry :: "(pending_pair \<Rightarrow> unit act) \<Rightarrow> bool act" where
  "consume_entry complete_pair =
     (\<lambda>a. case tcp_get (entry_key (ag_completion_cursor a + 1)) None (ag_store a) of
        None \<Rightarrow> (Inr False, a)
      | Some pair_name \<Rightarrow>
          let a1 = a\<lparr>ag_completion_cursor := ag_completion_cursor a + 1\<rparr> in
          case dict_get (ag_pending_pairs a1) pair_name of
            None \<Rightarrow> (Inr True, a1)
          | Some pending \<Rightarrow>
              (case complete_pair pending a1 of
                 (Inl e, a2) \<Rightarrow>
                   (Inr True, put_pending (pending\<lparr>pp_semaphores := []\<rparr>) (fail_all e (all_semaphores pending) a2))
               | (Inr _, a2) \<Rightarrow>
                   (Inr True, (release_all (all_semaphores pending) a2)
                      \<lparr>ag_pending_pairs := dict_del (ag_pending_pairs a2) pair_name\<rparr>)))"

fun consume_completion_log :: "nat \<Rightarrow> (pending_pair \<Rightarrow> unit act) \<Rightarrow> unit act" where
  "consume_completion_log 0 complete_pair = act_return ()"
| "consume_completion_log (Suc fuel) complete_pair =
     act_bind (consume_entry complete_pair) (\<lambda>more.
     if more then consume_completion_log fuel complete_pair else act_return ())"

section \<open>Completing a pair\<close>

definition collect_rank_info :: "outside \<Rightarrow> string \<Rightarrow> string \<Rightarrow> tcp_store \<Rightarrow> nat \<Rightarrow> (nat list \<times> placement list) list result" where
  "collect_rank_info env pair_name name store rank =
     res_bind (tcp_get_bytes (field_key pair_name rank name ''mesh_shape'') None store) (\<lambda>shape.
     res_bind (tcp_get_bytes (field_key pair_name rank name ''placements'') None store) (\<lambda>placements.
     case (shape, placements) of
       (Some s, Some p) \<Rightarrow>
         (case (o_load_shape env s, o_load_placements env p) of
            (Some s', Some p') \<Rightarrow> Inr [(s', p')]
          | _ \<Rightarrow> Inl RuntimeError)
     | _ \<Rightarrow> Inr []))"

definition collect_mesh_placement_info ::
  "outside \<Rightarrow> string \<Rightarrow> nat list \<Rightarrow> string \<Rightarrow> tcp_store \<Rightarrow> (nat list \<times> placement list) list result" where
  "collect_mesh_placement_info env pair_name ranks name store =
     res_bind (res_mapM (collect_rank_info env pair_name name store) ranks) (\<lambda>xss. Inr (concat xss))"

definition validate_mesh_placement_consistency :: "(nat list \<times> placement list) list \<Rightarrow> unit result" where
  "validate_mesh_placement_consistency infos =
     (if length infos = 1 \<or> list_all (\<lambda>i. i = hd infos) infos then Inr () else Inl AssertionError)"

text \<open>\<open>torch.arange(ranks[0], ranks[0] + prod(shape)).view(shape)\<close>.\<close>

definition mesh_from :: "nat list \<Rightarrow> nat list \<Rightarrow> device_mesh" where
  "mesh_from ranks shape = \<lparr>mesh_shape = shape, mesh_ranks = [hd ranks..<hd ranks + prod_list shape]\<rparr>"

definition partial_subgroup ::
  "nat \<Rightarrow> nat list \<Rightarrow> group_handle \<Rightarrow> string \<Rightarrow> nat list \<Rightarrow> partial_groups \<times> pg_state \<Rightarrow> partial_groups \<times> pg_state" where
  "partial_subgroup this_rank full_ranks full_group reduce_op sub_ranks st =
     (case st of (my_groups, pg) \<Rightarrow>
        case (if set sub_ranks = set full_ranks then (full_group, pg) else get_or_create_process_group sub_ranks pg) of
          (g, pg') \<Rightarrow> (my_groups @ (if this_rank \<in> set sub_ranks then [(g, reduce_op)] else []), pg'))"

fun create_partial_groups ::
  "device_mesh \<Rightarrow> (nat \<times> string) list \<Rightarrow> nat \<Rightarrow> nat list \<Rightarrow> group_handle \<Rightarrow> partial_groups \<times> pg_state
   \<Rightarrow> partial_groups result \<times> pg_state" where
  "create_partial_groups mesh [] this_rank full_ranks full_group st = (Inr (fst st), snd st)"
| "create_partial_groups mesh ((dim, reduce_op) # reds) this_rank full_ranks full_group st =
     (case enumerate_partial_subgroup_ranks mesh dim of
        Inl e \<Rightarrow> (Inl e, snd st)
      | Inr subs \<Rightarrow>
          create_partial_groups mesh reds this_rank full_ranks full_group
            (fold (partial_subgroup this_rank full_ranks full_group reduce_op) subs st))"

text \<open>The two sides of a pair as the store shows them to every rank, and the peer names agreed on.\<close>

record pair_sides =
  ps_local_ranks :: "nat list"
  ps_remote_ranks :: "nat list"
  ps_local_info :: "(nat list \<times> placement list) list"
  ps_remote_info :: "(nat list \<times> placement list) list"

definition side_ranks :: "pending_pair \<Rightarrow> string \<Rightarrow> nat list act" where
  "side_ranks pending name =
     (\<lambda>a. act_bind (act_lift (check_side_ready (pp_pair_name pending) name (ag_world_size a) (ag_store a))) (\<lambda>ready.
      case ready of None \<Rightarrow> act_raise AssertionError | Some (_, ranks) \<Rightarrow> act_return ranks) a)"

definition agree_on_peers :: "outside \<Rightarrow> pending_pair \<Rightarrow> nat list \<Rightarrow> unit act" where
  "agree_on_peers env pending all_ranks =
     (let key = ''pair:'' @ pp_pair_name pending @ ''/canonical_peers'';
          names = sort [pp_local_name pending, pp_remote_name pending];
          payload = json_dumps (names ! 0, names ! 1)
      in act_bind (act_modify (\<lambda>a. if ag_rank a = Min (set all_ranks) then store_set key payload None a else a)) (\<lambda>_ a.
         case tcp_wait_for_key key None (ag_store a) ((tcp_data (ag_store a), False) # o_polls env) of
           Some (Inr got) \<Rightarrow>
             act_bind (act_lift (json_loads got)) (\<lambda>g.
             if g \<noteq> (names ! 0, names ! 1) then act_raise InvalidRegistrationError else act_return ()) a
         | _ \<Rightarrow> act_raise TimeoutError a))"

definition gather_sides :: "outside \<Rightarrow> pending_pair \<Rightarrow> pair_sides act" where
  "gather_sides env pending =
     act_bind (side_ranks pending (pp_local_name pending)) (\<lambda>local_ranks.
     act_bind (side_ranks pending (pp_remote_name pending)) (\<lambda>remote_ranks.
     act_bind (agree_on_peers env pending (local_ranks @ remote_ranks)) (\<lambda>_.
     if pp_local_name pending = pp_remote_name pending then act_raise ValueError
     else (\<lambda>a.
       act_bind (act_lift (collect_mesh_placement_info env (pp_pair_name pending) local_ranks (pp_local_name pending) (ag_store a))) (\<lambda>li.
       act_bind (act_lift (collect_mesh_placement_info env (pp_pair_name pending) remote_ranks (pp_remote_name pending) (ag_store a))) (\<lambda>ri.
       act_bind (act_lift (validate_mesh_placement_consistency li)) (\<lambda>_.
       act_bind (act_lift (validate_mesh_placement_consistency ri)) (\<lambda>_.
       if set local_ranks = set remote_ranks \<and> (li = [] \<or> ri = []) then act_raise ValueError
       else act_return \<lparr>ps_local_ranks = local_ranks, ps_remote_ranks = remote_ranks,
                        ps_local_info = li, ps_remote_info = ri\<rparr>)))) a))))"

text \<open>Both maps of a pair, from the canonically first side to the second and back; a direction with a Partial target is skipped.\<close>

definition direction_map ::
  "dtensor_api \<Rightarrow> device_mesh \<Rightarrow> placement list \<Rightarrow> device_mesh \<Rightarrow> placement list \<Rightarrow> nat list \<Rightarrow> m2m_map option result" where
  "direction_map api smesh spl tmesh tpl grp =
     (if has_partial tpl then Inr None else res_bind (get_m2m_map api smesh spl tmesh tpl grp) (\<lambda>m. Inr (Some m)))"

text \<open>
  The process groups and maps of a pair in the canonical order of its sides. Without mesh
  information from both sides there are no maps and no Partial groups. The groups
  \<open>DeviceMesh\<close> makes for itself are destroyed again and not modelled.
\<close>

record topology =
  t_pair_group :: group_handle
  t_groups :: "group_handle \<times> group_handle"
  t_maps :: "m2m_map option \<times> m2m_map option"
  t_partials :: "(partial_groups \<times> partial_groups) option"
  t_shapes :: "nat list \<times> nat list"

definition side_groups :: "nat list \<Rightarrow> nat list \<Rightarrow> pg_state \<Rightarrow> (group_handle \<times> group_handle) \<times> pg_state" where
  "side_groups first_ranks second_ranks pg =
     (case get_or_create_process_group first_ranks pg of (first_group, pg1) \<Rightarrow>
      case get_or_create_process_group second_ranks pg1 of (second_group, pg2) \<Rightarrow> ((first_group, second_group), pg2))"

definition reductions :: "m2m_map option \<Rightarrow> (nat \<times> string) list" where
  "reductions m = (case m of None \<Rightarrow> [] | Some x \<Rightarrow> m2m_source_partial_reductions x)"

definition both_partial_groups ::
  "device_mesh \<times> device_mesh \<Rightarrow> m2m_map option \<times> m2m_map option \<Rightarrow> nat \<Rightarrow> nat list \<times> nat list
   \<Rightarrow> group_handle \<times> group_handle \<Rightarrow> pg_state \<Rightarrow> (partial_groups \<times> partial_groups) result \<times> pg_state" where
  "both_partial_groups meshes maps rank ranks groups pg =
     (case create_partial_groups (fst meshes) (reductions (fst maps)) rank (fst ranks) (fst groups) ([], pg) of
        (Inl e, pg1) \<Rightarrow> (Inl e, pg1)
      | (Inr partials_1, pg1) \<Rightarrow>
          (case create_partial_groups (snd meshes) (reductions (snd maps)) rank (snd ranks) (snd groups) ([], pg1) of
             (Inl e, pg2) \<Rightarrow> (Inl e, pg2)
           | (Inr partials_2, pg2) \<Rightarrow> (Inr (partials_1, partials_2), pg2)))"

definition both_maps ::
  "dtensor_api \<Rightarrow> device_mesh \<times> device_mesh \<Rightarrow> placement list \<times> placement list \<Rightarrow> nat list
   \<Rightarrow> (m2m_map option \<times> m2m_map option) result" where
  "both_maps api meshes pls grp =
     res_bind (direction_map api (fst meshes) (fst pls) (snd meshes) (snd pls) grp) (\<lambda>first_to_second.
     res_bind (direction_map api (snd meshes) (snd pls) (fst meshes) (fst pls) grp) (\<lambda>second_to_first.
     Inr (first_to_second, second_to_first)))"

definition build_topology ::
  "outside \<Rightarrow> nat list \<Rightarrow> nat list \<Rightarrow> (nat list \<times> placement list) list \<Rightarrow> (nat list \<times> placement list) list
   \<Rightarrow> nat list \<Rightarrow> nat \<Rightarrow> pg_state \<Rightarrow> topology result \<times> pg_state" where
  "build_topology env first_ranks second_ranks first_info second_info all_ranks rank pg =
     (case get_or_create_process_group all_ranks pg of (pair_group, pg1) \<Rightarrow>
      if first_info = [] \<or> second_info = [] then
        (case side_groups first_ranks second_ranks pg1 of (groups, pg2) \<Rightarrow>
         (Inr \<lparr>t_pair_group = pair_group, t_groups = groups, t_maps = (None, None), t_partials = None, t_shapes = ([], [])\<rparr>, pg2))
      else
        let meshes = (mesh_from first_ranks (fst (hd first_info)), mesh_from second_ranks (fst (hd second_info))) in
        case both_maps (o_api env) meshes (snd (hd first_info), snd (hd second_info)) (sorted_set all_ranks) of
          Inl e \<Rightarrow> (Inl e, pg1)
        | Inr maps \<Rightarrow>
          (case side_groups first_ranks second_ranks pg1 of (groups, pg2) \<Rightarrow>
           case both_partial_groups meshes maps rank (first_ranks, second_ranks) groups pg2 of
             (Inl e, pg3) \<Rightarrow> (Inl e, pg3)
           | (Inr partials, pg3) \<Rightarrow>
             (Inr \<lparr>t_pair_group = pair_group, t_groups = groups, t_maps = maps, t_partials = Some partials,
                   t_shapes = (mesh_shape (fst meshes), mesh_shape (snd meshes))\<rparr>, pg3)))"

text \<open>\<open>_order\<close>: what belongs to the local side first, or second, in canonical order; it is its own inverse.\<close>

definition in_order :: "bool \<Rightarrow> 'a \<times> 'a \<Rightarrow> 'a \<times> 'a" where
  "in_order local_is_first xy = (if local_is_first then xy else (snd xy, fst xy))"

definition none_if_empty :: "partial_groups \<Rightarrow> partial_groups option" where
  "none_if_empty gs = (if gs = [] then None else Some gs)"

definition by_role :: "string \<times> string \<Rightarrow> 'v \<times> 'v \<Rightarrow> (string, 'v) dict" where
  "by_role names vs = [(fst names, fst vs), (snd names, snd vs)]"

definition make_pair_state :: "pending_pair \<Rightarrow> pair_sides \<Rightarrow> topology \<Rightarrow> pair_state" where
  "make_pair_state p sides t =
     (let first = (pp_local_name p < pp_remote_name p);
          names = in_order first (pp_local_name p, pp_remote_name p);
          ranks = in_order first (ps_local_ranks sides, ps_remote_ranks sides)
      in \<lparr>p_pair_name = pp_pair_name p, p_local_name = pp_local_name p, p_local_ranks = ps_local_ranks sides,
          p_remote_name = pp_remote_name p, p_remote_ranks = ps_remote_ranks sides,
          p_pair_size = length (fst ranks) + length (snd ranks),
          p_local_group = fst (in_order first (t_groups t)), p_pair_group = t_pair_group t, p_local_is_first = first,
          p_m2m_send = fst (in_order first (t_maps t)), p_m2m_recv = snd (in_order first (t_maps t)),
          p_source_partial_groups = map_option (\<lambda>gs. fst (in_order first gs)) (t_partials t),
          p_dual_endpoint = (set (fst ranks) = set (snd ranks)),
          p_role_ranks = by_role names ranks, p_role_groups = by_role names (t_groups t),
          p_role_mesh_shapes = by_role names (t_shapes t), p_m2m_by_source_role = by_role names (t_maps t),
          p_partial_by_source_role = by_role names
            (case t_partials t of None \<Rightarrow> (None, None) | Some (g1, g2) \<Rightarrow> (none_if_empty g1, none_if_empty g2))\<rparr>)"

definition build_pair ::
  "outside \<Rightarrow> pending_pair \<Rightarrow> pair_sides \<Rightarrow> nat \<Rightarrow> pg_state \<Rightarrow> pair_state result \<times> pg_state" where
  "build_pair env p sides rank pg =
     (let first = (pp_local_name p < pp_remote_name p);
          ranks = in_order first (ps_local_ranks sides, ps_remote_ranks sides);
          infos = in_order first (ps_local_info sides, ps_remote_info sides)
      in case build_topology env (fst ranks) (snd ranks) (fst infos) (snd infos)
                (ps_local_ranks sides @ ps_remote_ranks sides) rank pg of
           (Inl e, pg') \<Rightarrow> (Inl e, pg')
         | (Inr t, pg') \<Rightarrow> (Inr (make_pair_state p sides t), pg'))"

definition complete_pair :: "outside \<Rightarrow> pending_pair \<Rightarrow> unit act" where
  "complete_pair env pending =
     act_bind (gather_sides env pending) (\<lambda>sides a.
     case build_pair env pending sides (ag_rank a) (ag_pg a) of
       (Inl e, pg) \<Rightarrow> act_raise e (a\<lparr>ag_pg := pg\<rparr>)
     | (Inr state, pg) \<Rightarrow>
         act_return () (a\<lparr>ag_pg := pg,
           ag_pairs := dict_set (ag_pairs a) (pp_pair_name pending) state,
           ag_state_db := dict_set (ag_state_db a) (''pair:'' @ pp_pair_name pending @ ''/state:match'') (Text ''matched'')\<rparr>))"

definition poll_pending_pairs :: "outside \<Rightarrow> nat \<Rightarrow> unit act" where
  "poll_pending_pairs env fuel =
     (\<lambda>a. if ag_pending_pairs a = [] then act_return () a
      else act_bind (if ag_rank a = 0 then append_ready_pairs_to_log else act_return ()) (\<lambda>_.
        consume_completion_log fuel (complete_pair env)) a)"

end
