(* ===== verification/Pair_Properties.thy ===== *)
theory Pair_Properties
  imports Pair_Rendezvous
begin

text \<open>
  What the rendezvous of \<^verbatim>\<open>agent.py\<close> guarantees: the ranks of a pair build the same groups
  and maps from either side, all ranks complete pairs in the order of one log, a side counts as
  ready exactly when all its ranks have registered, and when the mesh made for a side is the
  side's own.
\<close>

section \<open>Both perspectives build the same pair\<close>

lemma get_or_create_same_set: "set rs = set rs' \<Longrightarrow> get_or_create_process_group rs st = get_or_create_process_group rs' st"
  by (simp add: get_or_create_process_group_def sorted_set_cong [of rs rs'])

lemma partial_subgroup_rank_free: "snd (partial_subgroup r full g op sub st) = snd (partial_subgroup r' full g op sub st')"
  if "snd st = snd st'"
  using that by (auto simp: partial_subgroup_def split: prod.splits)

lemma partial_subgroups_rank_free:
  "snd st = snd st' \<Longrightarrow> snd (fold (partial_subgroup r full g op) subs st) = snd (fold (partial_subgroup r' full g op) subs st')"
proof (induction subs arbitrary: st st')
  case (Cons sub subs)
  show ?case using Cons.IH [OF partial_subgroup_rank_free [OF Cons.prems]] by simp
qed simp

lemma create_partial_groups_rank_free:
  assumes "snd st = snd st'"
  shows "rel_prod (rel_sum (=) (\<lambda>_ _. True)) (=) (create_partial_groups mesh reds r full g st) (create_partial_groups mesh reds r' full g st')"
  using assms
proof (induction reds arbitrary: st st')
  case (Cons x reds)
  obtain dim op where x: "x = (dim, op)" by (cases x)
  show ?case
  proof (cases "enumerate_partial_subgroup_ranks mesh dim")
    case (Inr subs)
    then show ?thesis using Cons.IH [OF partial_subgroups_rank_free [OF Cons.prems]] by (simp add: x)
  qed (simp add: x Cons.prems)
qed simp

text \<open>What two ranks of a pair must agree on: everything but the Partial groups they are members of.\<close>

definition topologies_agree :: "topology \<Rightarrow> topology \<Rightarrow> bool" where
  "topologies_agree t t' \<longleftrightarrow> t_pair_group t = t_pair_group t' \<and> t_groups t = t_groups t' \<and> t_maps t = t_maps t' \<and>
     t_shapes t = t_shapes t' \<and> (t_partials t = None \<longleftrightarrow> t_partials t' = None)"

lemma both_partial_groups_rank_free:
  "rel_prod (rel_sum (=) (\<lambda>_ _. True)) (=) (both_partial_groups ms maps r ranks gs pg) (both_partial_groups ms maps r' ranks gs pg)"
proof -
  let ?c1 = "\<lambda>r. create_partial_groups (fst ms) (reductions (fst maps)) r (fst ranks) (fst gs) ([], pg)"
  let ?c2 = "\<lambda>r pg1. create_partial_groups (snd ms) (reductions (snd maps)) r (snd ranks) (snd gs) ([], pg1)"
  have 2: "rel_prod (rel_sum (=) (\<lambda>_ _. True)) (=) (?c2 r pg1) (?c2 r' pg1)" for pg1
    by (rule create_partial_groups_rank_free) simp
  have 1: "rel_prod (rel_sum (=) (\<lambda>_ _. True)) (=) (?c1 r) (?c1 r')"
    by (rule create_partial_groups_rank_free) simp
  obtain x x' pg1 where c1: "?c1 r = (x, pg1)" "?c1 r' = (x', pg1)" "rel_sum (=) (\<lambda>_ _. True) x x'"
    using 1 by (cases "?c1 r"; cases "?c1 r'") auto
  obtain y y' pg2 where c2: "?c2 r pg1 = (y, pg2)" "?c2 r' pg1 = (y', pg2)" "rel_sum (=) (\<lambda>_ _. True) y y'"
    using 2 [of pg1] by (cases "?c2 r pg1"; cases "?c2 r' pg1") auto
  show ?thesis
    using c1(3) c2(3) by (cases x; cases x'; cases y; cases y') (simp_all add: both_partial_groups_def c1(1,2) c2(1,2))
qed

lemma build_topology_rank_free:
  assumes "set all = set all'"
  shows "rel_prod (rel_sum (=) topologies_agree) (=)
    (build_topology env f s fi si all rank pg) (build_topology env f s fi si all' rank' pg)"
proof -
  obtain pair_group pg1 where g: "get_or_create_process_group all pg = (pair_group, pg1)" by (cases "get_or_create_process_group all pg")
  have g': "get_or_create_process_group all' pg = (pair_group, pg1)" using get_or_create_same_set [OF assms, of pg] g by simp
  have grp: "sorted_set all' = sorted_set all" by (rule sorted_set_cong [OF assms [symmetric]])
  obtain groups pg2 where sg: "side_groups f s pg1 = (groups, pg2)" by (cases "side_groups f s pg1")
  let ?ms = "(mesh_from f (fst (hd fi)), mesh_from s (fst (hd si)))"
  show ?thesis
  proof (cases "fi = [] \<or> si = []")
    case True
    then show ?thesis by (simp add: build_topology_def g g' sg topologies_agree_def)
  next
    case False
    show ?thesis
    proof (cases "both_maps (o_api env) ?ms (snd (hd fi), snd (hd si)) (sorted_set all)")
      case (Inl e)
      then show ?thesis using False by (simp add: build_topology_def g g' grp Let_def)
    next
      case (Inr maps)
      let ?b = "\<lambda>r. both_partial_groups ?ms maps r (f, s) groups pg2"
      obtain x x' pg3 where b: "?b rank = (x, pg3)" "?b rank' = (x', pg3)" "rel_sum (=) (\<lambda>_ _. True) x x'"
        using both_partial_groups_rank_free [of ?ms maps rank "(f, s)" groups pg2 rank'] by (cases "?b rank"; cases "?b rank'") auto
      show ?thesis
        using b(3) by (cases x; cases x')
          (simp_all add: build_topology_def g g' grp sg Let_def Inr False b(1,2) topologies_agree_def)
    qed
  qed
qed

text \<open>Two ranks that see the same pair, from the same side or from opposite sides.\<close>

definition same_pair :: "pending_pair \<times> pair_sides \<Rightarrow> pending_pair \<times> pair_sides \<Rightarrow> bool" where
  "same_pair x y \<longleftrightarrow> (case (x, y) of ((p, s), (p', s')) \<Rightarrow>
     pp_pair_name p' = pp_pair_name p \<and> pp_local_name p \<noteq> pp_remote_name p \<and>
     (pp_local_name p' = pp_local_name p \<and> pp_remote_name p' = pp_remote_name p \<and> s' = s \<or>
      pp_local_name p' = pp_remote_name p \<and> pp_remote_name p' = pp_local_name p \<and>
      ps_local_ranks s' = ps_remote_ranks s \<and> ps_remote_ranks s' = ps_local_ranks s \<and>
      ps_local_info s' = ps_remote_info s \<and> ps_remote_info s' = ps_local_info s))"

text \<open>Everything the roles share is equal, and each rank sends by the map of its own role and receives by the other one's.\<close>

definition own_maps :: "pair_state \<Rightarrow> bool" where
  "own_maps s \<longleftrightarrow> dict_get (p_m2m_by_source_role s) (p_local_name s) = Some (p_m2m_send s) \<and>
     dict_get (p_m2m_by_source_role s) (p_remote_name s) = Some (p_m2m_recv s) \<and>
     dict_get (p_role_groups s) (p_local_name s) = Some (p_local_group s)"

definition pairs_agree :: "pair_state \<Rightarrow> pair_state \<Rightarrow> bool" where
  "pairs_agree s s' \<longleftrightarrow> p_pair_group s = p_pair_group s' \<and> p_role_ranks s = p_role_ranks s' \<and> p_role_groups s = p_role_groups s' \<and>
     p_role_mesh_shapes s = p_role_mesh_shapes s' \<and> p_m2m_by_source_role s = p_m2m_by_source_role s' \<and>
     p_dual_endpoint s = p_dual_endpoint s' \<and> own_maps s \<and> own_maps s'"

lemma own_maps_make:
  assumes "pp_local_name p \<noteq> pp_remote_name p"
  shows "own_maps (make_pair_state p s t)"
  using assms by (simp add: own_maps_def make_pair_state_def Let_def by_role_def in_order_def)

lemma make_pair_state_agree:
  assumes "same_pair (p, s) (p', s')" "topologies_agree t t'"
  shows "pairs_agree (make_pair_state p s t) (make_pair_state p' s' t')"
proof -
  let ?f = "\<lambda>p. pp_local_name p < pp_remote_name p"
  have ne: "pp_local_name p \<noteq> pp_remote_name p" "pp_local_name p' \<noteq> pp_remote_name p'"
    using assms(1) by (auto simp: same_pair_def)
  have lt: "?f p \<longleftrightarrow> \<not> pp_remote_name p < pp_local_name p" using ne(1) by auto
  have same: "in_order (?f p') (pp_local_name p', pp_remote_name p') = in_order (?f p) (pp_local_name p, pp_remote_name p)"
    "in_order (?f p') (ps_local_ranks s', ps_remote_ranks s') = in_order (?f p) (ps_local_ranks s, ps_remote_ranks s)"
    using assms(1) lt by (auto simp: same_pair_def in_order_def)
  have t: "t_pair_group t = t_pair_group t'" "t_groups t = t_groups t'" "t_maps t = t_maps t'" "t_shapes t = t_shapes t'"
    using assms(2) by (auto simp: topologies_agree_def)
  show ?thesis
    unfolding pairs_agree_def
    by (intro conjI own_maps_make ne) (simp_all add: make_pair_state_def Let_def same t)
qed

lemma build_pair_agree:
  assumes "same_pair (p, s) (p', s')"
  shows "rel_prod (rel_sum (=) pairs_agree) (=) (build_pair env p s rank pg) (build_pair env p' s' rank' pg)"
proof -
  let ?ranks = "\<lambda>p s. in_order (pp_local_name p < pp_remote_name p) (ps_local_ranks s, ps_remote_ranks s)"
  let ?infos = "\<lambda>p s. in_order (pp_local_name p < pp_remote_name p) (ps_local_info s, ps_remote_info s)"
  let ?all = "\<lambda>s. ps_local_ranks s @ ps_remote_ranks s"
  have lt: "pp_local_name p < pp_remote_name p \<longleftrightarrow> \<not> pp_remote_name p < pp_local_name p"
    using assms by (auto simp: same_pair_def)
  have same: "?ranks p' s' = ?ranks p s" "?infos p' s' = ?infos p s" "set (?all s) = set (?all s')"
    using assms lt by (auto simp: same_pair_def in_order_def)
  let ?t = "\<lambda>al r. build_topology env (fst (?ranks p s)) (snd (?ranks p s)) (fst (?infos p s)) (snd (?infos p s)) al r pg"
  obtain x x' pg' where t: "?t (?all s) rank = (x, pg')" "?t (?all s') rank' = (x', pg')" "rel_sum (=) topologies_agree x x'"
    using build_topology_rank_free [OF same(3), of env "fst (?ranks p s)" "snd (?ranks p s)" "fst (?infos p s)" "snd (?infos p s)" rank pg rank']
    by (cases "?t (?all s) rank"; cases "?t (?all s') rank'") auto
  have "build_pair env p s rank pg = (map_sum id (make_pair_state p s) x, pg')"
    "build_pair env p' s' rank' pg = (map_sum id (make_pair_state p' s') x', pg')"
    unfolding build_pair_def Let_def same(1,2) t(1,2) by (cases x; cases x'; simp)+
  then show ?thesis
    using t(3) make_pair_state_agree [OF assms] by (cases x; cases x') auto
qed

fun build_pairs :: "outside \<Rightarrow> nat \<Rightarrow> (pending_pair \<times> pair_sides) list \<Rightarrow> pg_state \<Rightarrow> pair_state result list \<times> pg_state" where
  "build_pairs env rank [] pg = ([], pg)"
| "build_pairs env rank ((p, s) # rest) pg =
     (case build_pair env p s rank pg of (r, pg1) \<Rightarrow> case build_pairs env rank rest pg1 of (rs, pg2) \<Rightarrow> (r # rs, pg2))"

text \<open>
  C28. Ranks that complete the same pairs in the same order, whichever side of a pair they are on,
  issue the same sequence of collective \<open>new_group\<close> calls and end with the same group
  handles, rank lists and maps for every pair, each rank sending by its own role's map and
  receiving by the other's; where one rank's construction fails, the other's fails in the same
  way. (The Partial groups a rank keeps are those it is a member of.)
\<close>

theorem pair_construction_agrees:
  assumes "list_all2 same_pair xs ys"
  shows "list_all2 (rel_sum (=) pairs_agree) (fst (build_pairs env rank xs pg)) (fst (build_pairs env rank' ys pg)) \<and>
    snd (build_pairs env rank xs pg) = snd (build_pairs env rank' ys pg)"
  using assms
proof (induction xs ys arbitrary: pg rule: list_all2_induct)
  case (Cons x xs y ys)
  obtain p s p' s' where xy: "x = (p, s)" "y = (p', s')" by (cases x; cases y)
  obtain r r' pg1 where b: "build_pair env p s rank pg = (r, pg1)" "build_pair env p' s' rank' pg = (r', pg1)" "rel_sum (=) pairs_agree r r'"
    using build_pair_agree [of p s p' s' env rank pg rank'] Cons.hyps(1) xy
    by (cases "build_pair env p s rank pg"; cases "build_pair env p' s' rank' pg") auto
  show ?case using Cons.IH [of pg1] b by (auto simp: xy split: prod.splits)
qed simp

section \<open>The completion log\<close>

text \<open>The names in the log so far: entry \<open>n\<close> of the store, counted from 1.\<close>

definition log_holds :: "string list \<Rightarrow> tcp_store \<Rightarrow> bool" where
  "log_holds es s \<longleftrightarrow> (\<forall>n \<ge> 1. tcp_get (entry_key n) None s = (if n \<le> length es then Some (es ! (n - 1)) else None))"

lemma tcp_get_set: "tcp_get k' None (tcp_set k v None s) = (if k' = k then Some v else tcp_get k' None s)"
  using tcp.get_set [of k' None k v None s] by (simp add: prefixed_eq)

lemma entry_key_inj [simp]: "entry_key m = entry_key n \<longleftrightarrow> m = n"
  by (simp add: entry_key_def show_nat_inj)

lemma marker_key_inj [simp]: "marker_key m = marker_key n \<longleftrightarrow> m = n"
  by (simp add: marker_key_def)

lemma log_keys_differ [simp]:
  "entry_key n \<noteq> marker_key p" "marker_key p \<noteq> entry_key n"
  "entry_key n \<noteq> ''pair:'' @ x" "marker_key p \<noteq> ''pair:'' @ x" "''pair:'' @ x \<noteq> entry_key n" "''pair:'' @ x \<noteq> marker_key p"
  by (simp_all add: entry_key_def marker_key_def)

lemma log_holds_append:
  assumes "log_holds es s"
  shows "log_holds (es @ [p]) (tcp_set (marker_key p) m None (tcp_set (entry_key (length es + 1)) p None s))"
  unfolding log_holds_def
proof (intro allI impI)
  fix n :: nat assume n: "1 \<le> n"
  show "tcp_get (entry_key n) None (tcp_set (marker_key p) m None (tcp_set (entry_key (length es + 1)) p None s)) =
    (if n \<le> length (es @ [p]) then Some ((es @ [p]) ! (n - 1)) else None)"
    using assms n by (auto simp: log_holds_def tcp_get_set nth_append)
qed

definition to_log :: "agent \<Rightarrow> string \<Rightarrow> bool" where
  "to_log a n \<longleftrightarrow> tcp_get (marker_key n) None (ag_store a) \<in> {None, Some []} \<and>
     (\<exists>p. dict_get (ag_pending_pairs a) n = Some p \<and> pair_ready p (ag_world_size a) (ag_store a) = Inr True)"

text \<open>Readiness only reads keys of the pairs.\<close>

lemma side_loop_same:
  assumes "\<And>x. tcp_get (''pair:'' @ x) None s' = tcp_get (''pair:'' @ x) None s"
  shows "side_loop p n s' rs present sizes = side_loop p n s rs present sizes"
proof -
  have "tcp_get (side_key p r n) None s' = tcp_get (side_key p r n) None s"
    "tcp_get (rank_size_key p r n) None s' = tcp_get (rank_size_key p r n) None s" for r
    unfolding side_key_def rank_size_key_def by (rule assms)+
  then show ?thesis by (induction rs arbitrary: present sizes) (simp_all split: option.split)
qed

lemma pair_ready_same:
  assumes "\<And>x. tcp_get (''pair:'' @ x) None s' = tcp_get (''pair:'' @ x) None s"
  shows "pair_ready p w s' = pair_ready p w s"
proof -
  have "check_side_ready q n w s' = check_side_ready q n w s" for q n
    unfolding check_side_ready_def side_loop_same [OF assms] ..
  then show ?thesis unfolding pair_ready_def by (simp only:)
qed

text \<open>One pass of the leader over a list of different names.\<close>

lemma append_pass:
  assumes "act_for append_if_ready names a = (Inr (), a')" "log_holds es (ag_store a)" "ag_completion_log_len a = length es" "distinct names"
  shows "log_holds (es @ filter (to_log a) names) (ag_store a') \<and> ag_completion_log_len a' = length es + length (filter (to_log a) names) \<and>
    ag_pending_pairs a' = ag_pending_pairs a \<and>
    (\<forall>n. tcp_get (marker_key n) None (ag_store a') = (if n \<in> set names \<and> to_log a n then Some ''1'' else tcp_get (marker_key n) None (ag_store a)))"
  using assms
proof (induction names arbitrary: a es)
  case Nil
  then show ?case by (simp add: act_simps)
next
  case (Cons n names)
  let ?skip = "append_if_ready n a = (Inr (), a)"
  show ?case
  proof (cases "to_log a n")
    case True
    let ?a = "store_set (marker_key n) ''1'' None (store_set (entry_key (length es + 1)) n None (a\<lparr>ag_completion_log_len := length es + 1\<rparr>))"
    have step: "append_if_ready n a = (Inr (), ?a)"
      using True Cons.prems(3) by (auto simp: append_if_ready_def to_log_def act_simps Let_def)
    then have rest: "act_for append_if_ready names ?a = (Inr (), a')" using Cons.prems(1) by (simp add: act_simps)
    have log: "log_holds (es @ [n]) (ag_store ?a)" using log_holds_append [OF Cons.prems(2)] by (simp add: store_set_def)
    have "to_log ?a m = to_log a m" if "m \<noteq> n" for m
    proof -
      have "pair_ready p (ag_world_size ?a) (ag_store ?a) = pair_ready p (ag_world_size a) (ag_store a)" for p
        by (simp add: store_set_def, rule pair_ready_same) (simp add: tcp_get_set entry_key_def marker_key_def)
      then show ?thesis using that by (simp add: to_log_def store_set_def tcp_get_set)
    qed
    then have t: "to_log ?a m = to_log a m" if "m \<in> set names" for m using that Cons.prems(4) by (metis distinct.simps(2))
    then have f: "filter (to_log ?a) names = filter (to_log a) names" by (intro filter_cong refl)
    have IH: "log_holds ((es @ [n]) @ filter (to_log ?a) names) (ag_store a') \<and>
        ag_completion_log_len a' = length (es @ [n]) + length (filter (to_log ?a) names) \<and> ag_pending_pairs a' = ag_pending_pairs ?a \<and>
        (\<forall>m. tcp_get (marker_key m) None (ag_store a') = (if m \<in> set names \<and> to_log ?a m then Some ''1'' else tcp_get (marker_key m) None (ag_store ?a)))"
      by (rule Cons.IH [OF rest log]) (use Cons.prems(4) in \<open>simp_all add: store_set_def\<close>)
    show ?thesis
    proof (intro conjI allI)
      fix m
      show "tcp_get (marker_key m) None (ag_store a') =
          (if m \<in> set (n # names) \<and> to_log a m then Some ''1'' else tcp_get (marker_key m) None (ag_store a))"
        using IH t [of m] True by (cases "m \<in> set names") (auto simp: store_set_def tcp_get_set)
    qed (use IH True f in \<open>simp_all add: store_set_def\<close>)
  next
    case False
    have step: "append_if_ready n a = (Inr (), a)"
      using False Cons.prems(1) by (auto simp: append_if_ready_def to_log_def act_simps split: option.splits sum.splits if_splits)
    then have rest: "act_for append_if_ready names a = (Inr (), a')" using Cons.prems(1) by (simp add: act_simps)
    show ?thesis using Cons.IH [OF rest Cons.prems(2,3)] Cons.prems(4) False by auto
  qed
qed

text \<open>A handler that leaves the log and this rank's position in it alone.\<close>

definition same_log :: "agent \<Rightarrow> agent \<Rightarrow> bool" where
  "same_log a b \<longleftrightarrow> ag_completion_cursor b = ag_completion_cursor a \<and>
     (\<forall>n. tcp_get (entry_key n) None (ag_store b) = tcp_get (entry_key n) None (ag_store a))"

definition keeps_log :: "'a act \<Rightarrow> bool" where
  "keeps_log m \<longleftrightarrow> (\<forall>a. same_log a (snd (m a)))"

lemma same_log_refl [simp]: "same_log a a"
  by (simp add: same_log_def)

interpretation log: handler_frame same_log
  by unfold_locales (simp_all add: same_log_def)

lemma same_log_updates [simp]:
  "same_log a (put_pending q b) = same_log a b" "same_log a (b\<lparr>ag_pending_pairs := d\<rparr>) = same_log a b"
  "same_log a (b\<lparr>ag_pg := g, ag_pairs := ps, ag_state_db := db\<rparr>) = same_log a b" "same_log a (b\<lparr>ag_pg := g\<rparr>) = same_log a b"
  by (simp_all add: same_log_def put_pending_def)

lemmas same_log_intros = log.frame_bind log.frame_pure log.frame_modify

lemma same_log_agree: "same_log a (snd (agree_on_peers env p ranks a))"
proof -
  have set: "same_log a (store_set (''pair:'' @ x) v None a)" for a x v
    by (simp add: same_log_def store_set_def tcp_get_set entry_key_def)
  have modify: "same_log a (snd (act_modify (\<lambda>a. if P a then store_set (''pair:'' @ x) v None a else a) a))" for a P x v
    using set by (simp del: append_Cons)
  show ?thesis unfolding agree_on_peers_def Let_def
  proof (rule log.frame_bind)
    show "same_log b (snd (case tcp_wait_for_key k None (ag_store b) polls of
        Some (Inr got) \<Rightarrow> act_bind (act_lift (json_loads got)) (\<lambda>g. if g \<noteq> names then act_raise e else act_return ()) b | _ \<Rightarrow> act_raise e' b))"
      for b k polls names e e'
      by (auto intro!: same_log_intros split: option.split sum.split)
  qed (rule modify)
qed

lemma same_log_side_ranks: "same_log a (snd (side_ranks p n a))"
  unfolding side_ranks_def by (auto intro!: same_log_intros split: option.split)

lemma same_log_gather: "same_log a (snd (gather_sides env p a))"
  unfolding gather_sides_def
  by (intro log.frame_bind same_log_side_ranks same_log_agree) (auto intro!: same_log_intros)

lemma keeps_log_complete: "keeps_log (complete_pair env p)"
  unfolding keeps_log_def complete_pair_def
  by (intro allI log.frame_bind same_log_gather) (auto split: prod.split sum.split)

text \<open>Consuming the entry of one name.\<close>

definition complete_named :: "(pending_pair \<Rightarrow> unit act) \<Rightarrow> string \<Rightarrow> agent \<Rightarrow> agent" where
  "complete_named f name a =
     (let a1 = a\<lparr>ag_completion_cursor := ag_completion_cursor a + 1\<rparr> in
      case dict_get (ag_pending_pairs a1) name of
        None \<Rightarrow> a1
      | Some pending \<Rightarrow>
          (case f pending a1 of
             (Inl e, a2) \<Rightarrow> put_pending (pending\<lparr>pp_semaphores := []\<rparr>) (fail_all e (all_semaphores pending) a2)
           | (Inr _, a2) \<Rightarrow> (release_all (all_semaphores pending) a2)\<lparr>ag_pending_pairs := dict_del (ag_pending_pairs a2) name\<rparr>))"

lemma same_log_waking [simp]:
  "same_log a (release_all ss b) = same_log a b" "same_log a (fail_all e ss b) = same_log a b"
proof -
  have 1: "ag_store (release_semaphore s b) = ag_store b \<and> ag_completion_cursor (release_semaphore s b) = ag_completion_cursor b" for s b
    by (simp add: release_semaphore_def emit_def)
  have 2: "ag_store (fail_semaphore e s b) = ag_store b \<and> ag_completion_cursor (fail_semaphore e s b) = ag_completion_cursor b" for s b
    by (simp add: fail_semaphore_def 1 record_command_error_def)
  have "ag_store (release_all ss b) = ag_store b \<and> ag_completion_cursor (release_all ss b) = ag_completion_cursor b"
    "ag_store (fail_all e ss b) = ag_store b \<and> ag_completion_cursor (fail_all e ss b) = ag_completion_cursor b"
    unfolding release_all_def fail_all_def by (induction ss arbitrary: b) (simp_all add: 1 2)
  then show "same_log a (release_all ss b) = same_log a b" "same_log a (fail_all e ss b) = same_log a b"
    by (simp_all add: same_log_def)
qed

lemma complete_named_log:
  assumes "\<And>p. keeps_log (f p)"
  shows "same_log (a\<lparr>ag_completion_cursor := ag_completion_cursor a + 1\<rparr>) (complete_named f name a)"
proof -
  let ?a = "a\<lparr>ag_completion_cursor := ag_completion_cursor a + 1\<rparr>"
  have "same_log ?a (snd (f p ?a))" for p using assms [of p] by (simp add: keeps_log_def)
  then show ?thesis unfolding complete_named_def Let_def
    by (auto split: option.split prod.split sum.split) (metis snd_conv)+
qed

lemma consume_run:
  assumes "\<And>p. keeps_log (f p)" "log_holds es (ag_store a)" "ag_completion_cursor a \<le> length es" "length es - ag_completion_cursor a < fuel"
  shows "consume_completion_log fuel f a = (Inr (), fold (complete_named f) (drop (ag_completion_cursor a) es) a) \<and>
    ag_completion_cursor (fold (complete_named f) (drop (ag_completion_cursor a) es) a) = length es"
  using assms(2-)
proof (induction fuel arbitrary: a)
  case (Suc fuel)
  let ?c = "ag_completion_cursor a"
  have entry: "tcp_get (entry_key (?c + 1)) None (ag_store a) = (if ?c < length es then Some (es ! ?c) else None)"
    using Suc.prems(1) by (simp add: log_holds_def)
  show ?case
  proof (cases "?c < length es")
    case True
    let ?b = "complete_named f (es ! ?c) a"
    have log: "same_log (a\<lparr>ag_completion_cursor := ?c + 1\<rparr>) ?b" by (rule complete_named_log [OF assms(1)])
    then have b: "ag_completion_cursor ?b = ?c + 1" "log_holds es (ag_store ?b)"
      using Suc.prems(1) by (simp_all add: same_log_def log_holds_def)
    have "consume_entry f a = (Inr True, ?b)"
      using entry True by (auto simp: consume_entry_def complete_named_def Let_def split: option.split prod.split sum.split)
    then have "consume_completion_log (Suc fuel) f a = consume_completion_log fuel f ?b" by (simp add: act_simps)
    moreover have "drop ?c es = es ! ?c # drop (?c + 1) es" using True by (simp add: Cons_nth_drop_Suc)
    ultimately show ?thesis using Suc.IH [OF b(2)] b True Suc.prems(3) by simp
  next
    case False
    then show ?thesis using entry Suc.prems(2) by (simp add: act_simps consume_entry_def)
  qed
qed simp

text \<open>Completing one pair leaves the other pending pairs alone.\<close>

definition same_pending :: "agent \<Rightarrow> agent \<Rightarrow> bool" where
  "same_pending a b \<longleftrightarrow> ag_pending_pairs b = ag_pending_pairs a"

lemma same_pending_refl [simp]: "same_pending a a"
  by (simp add: same_pending_def)

interpretation pend: handler_frame same_pending
  by unfold_locales (simp_all add: same_pending_def)

lemma pending_agree: "same_pending a (snd (agree_on_peers env p ranks a))"
  unfolding agree_on_peers_def Let_def
proof (rule pend.frame_bind)
  show "same_pending b (snd (case tcp_wait_for_key k None (ag_store b) polls of
      Some (Inr got) \<Rightarrow> act_bind (act_lift (json_loads got)) (\<lambda>g. if g \<noteq> names then act_raise e else act_return ()) b | _ \<Rightarrow> act_raise e' b))"
    for b k polls names e e'
    by (auto intro!: pend.frame_bind pend.frame_pure split: option.split sum.split)
qed (simp add: same_pending_def store_set_def)

lemma pending_side_ranks: "same_pending a (snd (side_ranks p n a))"
  unfolding side_ranks_def by (auto intro!: pend.frame_bind pend.frame_pure split: option.split)

lemma pending_complete: "ag_pending_pairs (snd (complete_pair env p a)) = ag_pending_pairs a"
proof -
  have "same_pending a (snd (gather_sides env p a))"
    unfolding gather_sides_def
    by (intro pend.frame_bind pending_side_ranks pending_agree) (auto intro!: pend.frame_bind pend.frame_pure)
  then have "same_pending a (snd (complete_pair env p a))"
    unfolding complete_pair_def by (rule pend.frame_bind) (auto simp: same_pending_def split: prod.split sum.split)
  then show ?thesis by (simp add: same_pending_def)
qed

lemma pending_waking [simp]:
  "ag_pending_pairs (release_all ss b) = ag_pending_pairs b" "ag_pending_pairs (fail_all e ss b) = ag_pending_pairs b"
proof -
  have 1: "ag_pending_pairs (release_semaphore s b) = ag_pending_pairs b" for s b by (simp add: release_semaphore_def emit_def)
  have 2: "ag_pending_pairs (fail_semaphore e s b) = ag_pending_pairs b" for s b by (simp add: fail_semaphore_def 1 record_command_error_def emit_def)
  show "ag_pending_pairs (release_all ss b) = ag_pending_pairs b" "ag_pending_pairs (fail_all e ss b) = ag_pending_pairs b"
    unfolding release_all_def fail_all_def by (induction ss arbitrary: b) (simp_all add: 1 2)
qed

definition named_pending :: "agent \<Rightarrow> bool" where
  "named_pending a \<longleftrightarrow> (\<forall>n p. dict_get (ag_pending_pairs a) n = Some p \<longrightarrow> pp_pair_name p = n)"

lemma complete_named_pending:
  assumes "named_pending a"
  shows "named_pending (complete_named (complete_pair env) name a)"
    and "n \<noteq> name \<Longrightarrow> dict_get (ag_pending_pairs (complete_named (complete_pair env) name a)) n = dict_get (ag_pending_pairs a) n"
proof -
  have k: "complete_pair env q b = (r, c) \<Longrightarrow> ag_pending_pairs c = ag_pending_pairs b" for q b r c
    using pending_complete [of env q b] by simp
  show "named_pending (complete_named (complete_pair env) name a)"
    using assms by (auto simp: complete_named_def named_pending_def put_pending_def Let_def dict_simps dest!: k
        split: option.split prod.split sum.split if_splits)
  show "n \<noteq> name \<Longrightarrow> dict_get (ag_pending_pairs (complete_named (complete_pair env) name a)) n = dict_get (ag_pending_pairs a) n"
    using assms by (auto simp: complete_named_def named_pending_def put_pending_def Let_def dict_simps dest!: k
        split: option.split prod.split sum.split)
qed

text \<open>The pairs for which a run of the consumer calls \<open>_complete_pair\<close>, in order.\<close>

fun attempted :: "nat \<Rightarrow> (pending_pair \<Rightarrow> unit act) \<Rightarrow> agent \<Rightarrow> string list" where
  "attempted 0 f a = []"
| "attempted (Suc fuel) f a =
     (case tcp_get (entry_key (ag_completion_cursor a + 1)) None (ag_store a) of
        None \<Rightarrow> []
      | Some name \<Rightarrow> (if dict_get (ag_pending_pairs a) name = None then [] else [name]) @ attempted fuel f (snd (consume_entry f a)))"

abbreviation is_pending :: "agent \<Rightarrow> string \<Rightarrow> bool" where
  "is_pending a n \<equiv> dict_get (ag_pending_pairs a) n \<noteq> None"

lemma attempted_run:
  assumes "log_holds es (ag_store a)" "ag_completion_cursor a \<le> length es" "length es - ag_completion_cursor a < fuel"
    and "named_pending a" "distinct (drop (ag_completion_cursor a) es)"
  shows "attempted fuel (complete_pair env) a = filter (is_pending a) (drop (ag_completion_cursor a) es)"
  using assms
proof (induction fuel arbitrary: a)
  case (Suc fuel)
  let ?c = "ag_completion_cursor a" and ?f = "complete_pair env"
  have entry: "tcp_get (entry_key (?c + 1)) None (ag_store a) = (if ?c < length es then Some (es ! ?c) else None)"
    using Suc.prems(1) by (simp add: log_holds_def)
  show ?case
  proof (cases "?c < length es")
    case True
    let ?b = "complete_named ?f (es ! ?c) a"
    have b: "ag_completion_cursor ?b = ?c + 1" "log_holds es (ag_store ?b)"
      using complete_named_log [where f = ?f and a = a and name = "es ! ?c", OF keeps_log_complete] Suc.prems(1) by (simp_all add: same_log_def log_holds_def)
    have "consume_entry ?f a = (Inr True, ?b)"
      using entry True by (auto simp: consume_entry_def complete_named_def Let_def split: option.split prod.split sum.split)
    moreover have d: "drop ?c es = es ! ?c # drop (?c + 1) es" using True by (simp add: Cons_nth_drop_Suc)
    moreover have "attempted fuel ?f ?b = filter (is_pending ?b) (drop (?c + 1) es)"
      using Suc.IH [OF b(2)] b(1) True Suc.prems(3,5) complete_named_pending(1) [OF Suc.prems(4)] d by simp
    moreover have "filter (is_pending ?b) (drop (?c + 1) es) = filter (is_pending a) (drop (?c + 1) es)"
    proof (rule filter_cong [OF refl])
      fix n assume "n \<in> set (drop (?c + 1) es)"
      then have "n \<noteq> es ! ?c" using Suc.prems(5) d by auto
      then show "is_pending ?b n = is_pending a n" using complete_named_pending(2) [OF Suc.prems(4), of n] by presburger
    qed
    ultimately show ?thesis using entry True by simp
  next
    case False
    then show ?thesis using entry Suc.prems(2) by simp
  qed
qed simp

text \<open>Two selections from one list without repetitions have their common elements in the same order.\<close>

lemma common_order:
  assumes "distinct (drop c xs)" "c \<le> i" "c \<le> j"
  shows "filter (\<lambda>x. x \<in> set (filter Q (drop j xs))) (filter P (drop i xs)) = filter (\<lambda>x. x \<in> set (filter P (drop i xs))) (filter Q (drop j xs))"
proof -
  have sel: "\<exists>A. drop i xs = filter A (drop c xs)" if "c \<le> i" for i
  proof -
    have s: "drop c xs = take (i - c) (drop c xs) @ drop i xs" using that by (metis append_take_drop_id drop_drop le_add_diff_inverse add.commute)
    then have "distinct (take (i - c) (drop c xs) @ drop i xs)" using assms(1) by metis
    then have "filter (\<lambda>x. x \<in> set (drop i xs)) (take (i - c) (drop c xs) @ drop i xs) = drop i xs"
      by (auto simp: filter_empty_conv)
    then show ?thesis using s by metis
  qed
  obtain A B where "drop i xs = filter A (drop c xs)" "drop j xs = filter B (drop c xs)" using sel assms(2,3) by metis
  then show ?thesis by (auto intro!: filter_cong)
qed

text \<open>
  C29. The completion order is one for all ranks. The leader's pass appends to the log exactly the
  pending pairs that are ready and not logged yet, sorted by name, and changes no earlier entry.
  A rank that then consumes, wherever it had stopped, goes through every further entry in log
  order (past a failed completion too) and stops at the end of the log; when no pair is named twice
  in the entries ahead (a pair is logged again only for a retry), it attempts to complete exactly
  those it has pending, and skips those it never got an \<open>InitPair\<close> for. So any two ranks attempt
  the pairs that both of them complete in the same order, wherever each had stopped.
\<close>

theorem completion_log_order:
  assumes "log_holds es (ag_store leader)" "ag_completion_log_len leader = length es" "distinct (dict_keys (ag_pending_pairs leader))"
    and "append_ready_pairs_to_log leader = (Inr (), leader')"
    and "log = es @ filter (to_log leader) (sort (dict_keys (ag_pending_pairs leader)))"
    and "\<forall>b \<in> {b1, b2}. ag_store b = ag_store leader' \<and> named_pending b \<and> c \<le> ag_completion_cursor b \<and> ag_completion_cursor b \<le> length log"
    and "distinct (drop c log)" "length log < fuel"
  shows "log_holds log (ag_store leader') \<and> ag_completion_log_len leader' = length log \<and>
    (\<forall>b \<in> {b1, b2}. consume_completion_log fuel (complete_pair env) b =
        (Inr (), fold (complete_named (complete_pair env)) (drop (ag_completion_cursor b) log) b) \<and>
      ag_completion_cursor (snd (consume_completion_log fuel (complete_pair env) b)) = length log \<and>
      attempted fuel (complete_pair env) b = filter (is_pending b) (drop (ag_completion_cursor b) log)) \<and>
    filter (\<lambda>n. n \<in> set (attempted fuel (complete_pair env) b2)) (attempted fuel (complete_pair env) b1) =
    filter (\<lambda>n. n \<in> set (attempted fuel (complete_pair env) b1)) (attempted fuel (complete_pair env) b2)"
proof -
  have pass: "log_holds log (ag_store leader') \<and> ag_completion_log_len leader' = length log"
    using append_pass [of "sort (dict_keys (ag_pending_pairs leader))" leader leader' es] assms(1-5)
    by (simp add: append_ready_pairs_to_log_def)
  have run: "consume_completion_log fuel (complete_pair env) b =
        (Inr (), fold (complete_named (complete_pair env)) (drop (ag_completion_cursor b) log) b) \<and>
      ag_completion_cursor (snd (consume_completion_log fuel (complete_pair env) b)) = length log \<and>
      attempted fuel (complete_pair env) b = filter (is_pending b) (drop (ag_completion_cursor b) log)" if "b \<in> {b1, b2}" for b
  proof -
    have b: "log_holds log (ag_store b)" "named_pending b" "c \<le> ag_completion_cursor b" "ag_completion_cursor b \<le> length log"
      using bspec [OF assms(6) that] pass by auto
    moreover have "drop (ag_completion_cursor b) log = drop (ag_completion_cursor b - c) (drop c log)" using b(3) by simp
    then have "distinct (drop (ag_completion_cursor b) log)" using assms(7) by (metis distinct_drop)
    moreover have "length log - ag_completion_cursor b < fuel" using assms(8) by linarith
    ultimately show ?thesis using consume_run [OF keeps_log_complete [of env], of log b fuel] attempted_run [of log b fuel env] by simp
  qed
  have att: "attempted fuel (complete_pair env) b = filter (is_pending b) (drop (ag_completion_cursor b) log)" if "b \<in> {b1, b2}" for b
    using run [OF that] by blast
  have "filter (\<lambda>n. n \<in> set (attempted fuel (complete_pair env) b2)) (attempted fuel (complete_pair env) b1) =
    filter (\<lambda>n. n \<in> set (attempted fuel (complete_pair env) b1)) (attempted fuel (complete_pair env) b2)"
    unfolding att [of b1, simplified] att [of b2, simplified] by (rule common_order [OF assms(7)]) (use assms(6) in auto)
  then show ?thesis using pass run by blast
qed

section \<open>Readiness\<close>

lemma show_nat_no_slash: "CHR ''/'' \<notin> set (show_nat n)"
  using show_nat_digits [of n] by (auto simp: list_all_iff is_digit_def)

text \<open>With no slash in a side's name the keys of different ranks and kinds are different.\<close>

lemma side_keys_differ:
  assumes "CHR ''/'' \<notin> set l"
  shows "side_key p r l = side_key p r' l \<longleftrightarrow> r = r'" "rank_size_key p r l = rank_size_key p r' l \<longleftrightarrow> r = r'"
    "side_key p r l \<noteq> rank_size_key p r' l" "side_key p r l \<noteq> size_key p l" "rank_size_key p r l \<noteq> size_key p l"
    "side_key p r l \<noteq> field_key p r' l f" "rank_size_key p r l \<noteq> field_key p r' l ''mesh_shape''" "rank_size_key p r l \<noteq> field_key p r' l ''placements''"
    "size_key p l \<noteq> field_key p r' l f"
proof -
  let ?R = "\<lambda>r. ''rank:'' @ show_nat r"
  have sl: "CHR ''/'' \<notin> set (?R r)" for r using show_nat_no_slash by simp
  have tails: "side_key p r l = (''pair:'' @ p @ ''/'') @ ?R r @ CHR ''/'' # l"
    "rank_size_key p r l = (''pair:'' @ p @ ''/'') @ l @ CHR ''/'' # ?R r @ CHR ''/'' # ''expected_world_size''"
    "size_key p l = (''pair:'' @ p @ ''/'') @ l @ CHR ''/'' # ''expected_world_size''"
    "field_key p r l f = (''pair:'' @ p @ ''/'') @ ?R r @ CHR ''/'' # l @ CHR ''/'' # f" for r f
    by (simp_all add: side_key_def rank_size_key_def size_key_def field_key_def)
  have no: "l \<noteq> x @ CHR ''/'' # y" for x y using assms by (metis in_set_conv_decomp)
  have exp: "''expected_world_size'' \<noteq> x @ CHR ''/'' # y" for x y
  proof
    assume eq: "''expected_world_size'' = x @ CHR ''/'' # y"
    have "CHR ''/'' \<in> set (x @ CHR ''/'' # y)" by simp
    then show False unfolding eq [symmetric] by simp
  qed
  have rk: "?R r \<noteq> ''expected_world_size''" "''expected_world_size'' \<noteq> ?R r" for r by simp_all
  show "side_key p r l = side_key p r' l \<longleftrightarrow> r = r'" "rank_size_key p r l = rank_size_key p r' l \<longleftrightarrow> r = r'"
    unfolding tails by (simp_all add: show_nat_inj)
  show "side_key p r l \<noteq> rank_size_key p r' l"
    unfolding tails same_append_eq slash_split [OF sl assms] using no [of "?R r'" "''expected_world_size''"] by blast
  show "side_key p r l \<noteq> size_key p l"
    unfolding tails same_append_eq slash_split [OF sl assms] using rk [of r] by blast
  show "rank_size_key p r l \<noteq> size_key p l"
    unfolding tails same_append_eq slash_split [OF assms assms] using exp [of "?R r" "''expected_world_size''", symmetric] by blast
  show "side_key p r l \<noteq> field_key p r' l f"
    unfolding tails same_append_eq slash_split [OF sl sl] using no [of l f] by blast
  show "rank_size_key p r l \<noteq> field_key p r' l ''mesh_shape''" "rank_size_key p r l \<noteq> field_key p r' l ''placements''"
    unfolding tails same_append_eq slash_split [OF assms sl] slash_split [OF sl assms] by simp_all
  show "size_key p l \<noteq> field_key p r' l f"
    unfolding tails same_append_eq slash_split [OF assms sl] using exp [of l f] by blast
qed

text \<open>What the readiness check sees of a side: the ranks in \<open>R\<close> have registered, each for size \<open>n\<close>.\<close>

definition registered :: "string \<Rightarrow> string \<Rightarrow> nat \<Rightarrow> nat set \<Rightarrow> tcp_store \<Rightarrow> bool" where
  "registered p l n R s \<longleftrightarrow>
     (\<forall>r. tcp_get (side_key p r l) None s = Some ''1'' \<longleftrightarrow> r \<in> R) \<and>
     (\<forall>r \<in> R. tcp_get (rank_size_key p r l) None s = Some (show_nat n)) \<and>
     tcp_get (size_key p l) None s \<in> {None, Some [], Some (show_nat n)}"

lemma side_loop_registered:
  assumes "registered p l n R s"
  shows "side_loop p l s rs present sizes =
    Inr (Some (present @ filter (\<lambda>r. r \<in> R) rs, sizes @ replicate (length (filter (\<lambda>r. r \<in> R) rs)) n))"
  using assms show_nat_digits [of n]
  by (induction rs arbitrary: present sizes) (auto simp: registered_def read_show_nat)

lemma side_ready_registered:
  assumes "registered p l n R s" "R \<subseteq> {..<w}" "finite R"
  shows "check_side_ready p l w s = Inr (if R \<noteq> {} \<and> card R = n then Some (n, sorted_list_of_set R) else None)"
proof -
  let ?rs = "filter (\<lambda>r. r \<in> R) [0..<w]"
  have rs: "?rs = sorted_list_of_set R"
    using assms(2,3) by (intro sorted_distinct_set_unique) (auto simp: sorted_wrt_filter)
  have len: "length (sorted_list_of_set R) = card R" by simp
  have dup: "remdups (replicate k n) = (if k = 0 then [] else [n])" for k
    by (induction k) auto
  have sorted: "sort (sorted_list_of_set R) = sorted_list_of_set R" by (simp add: sorted_sort_id)
  show ?thesis
  proof (cases "R = {}")
    case True
    then show ?thesis by (simp add: check_side_ready_def side_loop_registered [OF assms(1)] rs)
  next
    case False
    then have "card R \<noteq> 0" using assms(3) by simp
    then show ?thesis
      using False by (simp add: check_side_ready_def side_loop_registered [OF assms(1)] rs dup sorted hd_replicate)
  qed
qed

text \<open>One rank's InitPair.\<close>

lemma tcp_get_set_bytes: "tcp_get k' None (tcp_set_bytes k v None s) = (if k' = k then Some (b64encode v) else tcp_get k' None s)"
  by (auto simp: tcp_set_bytes_def tcp_get_def tcp_check_def prefixed_eq dict_simps Let_def kv_client.defs kv_comp_def)

lemma registered_write:
  assumes "registered p l n R (ag_store a)" "CHR ''/'' \<notin> set l"
    and "ic_pair_name msg = p" "ic_local_name msg = l" "ic_expected_world_size msg = n"
  shows "\<exists>a'. write_init_pair_keys msg a = (Inr (), a') \<and> registered p l n (insert (ag_rank a) R) (ag_store a')"
proof -
  note ne = side_keys_differ [OF assms(2)] side_keys_differ(3-) [OF assms(2), symmetric]
  show ?thesis
    using assms(1) unfolding write_init_pair_keys_def assms(3-5)
    by (auto simp: act_simps Let_def registered_def store_set_def tcp_get_set tcp_get_set_bytes ne split: option.split)
qed

lemma registered_init:
  assumes "registered p l n R (ag_store a)" "CHR ''/'' \<notin> set l"
    and "ic_pair_name msg = p" "ic_local_name msg = l" "ic_expected_world_size msg = n"
    and "dict_get (ag_pairs a) p = None" "dict_get (ag_pending_pairs a) p = None"
  shows "fst (handle_init_pair env msg a) = Inr () \<and> registered p l n (insert (ag_rank a) R) (ag_store (snd (handle_init_pair env msg a)))"
  using registered_write [OF assms(1-5)] assms(3-7)
  by (auto simp: handle_init_pair_def act_simps Let_def put_pending_def)

text \<open>InitPair handled on rank \<open>r\<close> over the shared store \<open>s\<close>: what the store holds afterwards.\<close>

definition init_on :: "outside \<Rightarrow> init_cmd \<Rightarrow> agent \<Rightarrow> nat \<Rightarrow> tcp_store \<Rightarrow> tcp_store" where
  "init_on env msg a r s = ag_store (snd (handle_init_pair env msg (a\<lparr>ag_rank := r, ag_store := s\<rparr>)))"

text \<open>
  C30. A side is ready exactly when all its ranks have registered: whatever ranks have handled the
  side's InitPair, in whatever order, the readiness check finds the side complete, with those
  ranks in ascending order, exactly when their number is the expected world size. The store
  holds no registration of this side before, the side's name has no slash, every rank is below
  the world size that is scanned, and the pair is neither complete nor pending on these ranks.
\<close>

theorem side_ready_iff_all_registered:
  assumes "registered p l n {} s" "CHR ''/'' \<notin> set l" "distinct rs" "set rs \<subseteq> {..<w}"
    and "ic_pair_name msg = p" "ic_local_name msg = l" "ic_expected_world_size msg = n"
    and "dict_get (ag_pairs a) p = None" "dict_get (ag_pending_pairs a) p = None"
  shows "check_side_ready p l w (fold (init_on env msg a) rs s) = Inr (if rs \<noteq> [] \<and> length rs = n then Some (n, sort rs) else None)"
proof -
  have "registered p l n (R \<union> set rs) (fold (init_on env msg a) rs s)" if "registered p l n R s" for R s
    using that
  proof (induction rs arbitrary: R s)
    case (Cons r rs)
    have "registered p l n (insert r R) (init_on env msg a r s)"
      using registered_init [of p l n R "a\<lparr>ag_rank := r, ag_store := s\<rparr>" msg env] Cons.prems assms(2,5-)
      by (simp add: init_on_def)
    then show ?case using Cons.IH by fastforce
  qed simp
  from this [OF assms(1)] have "registered p l n (set rs) (fold (init_on env msg a) rs s)" by simp
  moreover have "sorted_list_of_set (set rs) = sort rs" using assms(3) by (simp add: sorted_list_of_set_sort_remdups distinct_remdups_id)
  ultimately show ?thesis
    using side_ready_registered [of p l n "set rs" _ w] assms(3,4) by (simp add: distinct_card)
qed

section \<open>The mesh of a side\<close>

text \<open>
  The mesh built for a side is right only for consecutive ranks: it counts up from the
  smallest rank, so for the sorted ranks of a side it has these ranks, in order, exactly when
  they are consecutive and as many as the mesh shape says. A side on ranks 0 and 2 gets the
  mesh of ranks 0 and 1, and its maps route to rank 1.
\<close>

theorem mesh_only_for_consecutive_ranks:
  assumes "sorted ranks" "distinct ranks" "ranks \<noteq> []"
  shows "mesh_ranks (mesh_from ranks shape) = ranks \<longleftrightarrow> prod_list shape = length ranks \<and> last ranks = hd ranks + length ranks - 1"
proof
  assume eq: "mesh_ranks (mesh_from ranks shape) = ranks"
  have len: "prod_list shape = length ranks" using arg_cong [OF eq, of length] by (simp add: mesh_from_def)
  moreover have "last ranks = hd ranks + length ranks - 1"
    using arg_cong [OF eq, of last] len assms(3) by (simp add: mesh_from_def)
  ultimately show "prod_list shape = length ranks \<and> last ranks = hd ranks + length ranks - 1" ..
next
  assume r: "prod_list shape = length ranks \<and> last ranks = hd ranks + length ranks - 1"
  have sub: "set ranks \<subseteq> {hd ranks..<hd ranks + length ranks}"
  proof
    fix x assume "x \<in> set ranks"
    then have "hd ranks \<le> x" "x \<le> last ranks" using assms(1,3)
      by (metis hd_conv_nth in_set_conv_nth length_greater_0_conv sorted_nth_mono le0,
          metis One_nat_def Suc_pred diff_Suc_less in_set_conv_nth last_conv_nth length_greater_0_conv less_Suc_eq_le sorted_nth_mono)
    then show "x \<in> {hd ranks..<hd ranks + length ranks}" using r assms(3) by (cases ranks) auto
  qed
  have "set ranks = {hd ranks..<hd ranks + length ranks}"
    by (rule card_subset_eq [OF _ sub]) (use assms(2) in \<open>simp_all add: distinct_card\<close>)
  then have "ranks = [hd ranks..<hd ranks + length ranks]"
    using assms(1,2) by (intro sorted_distinct_set_unique) auto
  then show "mesh_ranks (mesh_from ranks shape) = ranks" using r by (simp add: mesh_from_def)
qed


definition sample_outside :: outside where
  "sample_outside = \<lparr>o_api = ref_api, o_load_shape = (\<lambda>_. None), o_load_placements = (\<lambda>_. None), o_load_tensor = (\<lambda>_. None),
     o_polls = [], o_layouts = (\<lambda>l. [Some l]), o_dtypes = (\<lambda>_ _. None), o_rounds = (\<lambda>r. [r]), o_comm_error = None\<rparr>"

definition empty_store :: tcp_store where
  "empty_store = \<lparr>kv_namespace = ''ns'', kv_component = ''tensorbus'', tcp_data = [], tcp_known_keys = []\<rparr>"

definition idle_agent :: "nat \<Rightarrow> nat \<Rightarrow> agent" where
  "idle_agent rank world_size =
     \<lparr>ag_rank = rank, ag_world_size = world_size, ag_store = empty_store, ag_state_db = [], ag_command_error_times = [],
      ag_clock = 0, ag_pairs = [], ag_batches = [], ag_batch_generation = [], ag_pending_pairs = [],
      ag_completion_cursor = 0, ag_completion_log_len = 0, ag_pg = pg_init, ag_semaphores = [], ag_trace = []\<rparr>"

definition sample_init :: init_cmd where
  "sample_init = \<lparr>ic_semaphore = Some ''s'', ic_pair_name = ''w'', ic_local_name = ''train'', ic_expected_world_size = 2,
     ic_remote_name = ''infer'', ic_mesh_shape_payload = None, ic_placements_payload = None\<rparr>"

lemma empty_store_get [simp]: "tcp_get k c empty_store = None"
  by (simp add: tcp_get_def tcp_check_def empty_store_def)

theorem side_ready_iff_all_registered_witness:
  "check_side_ready ''w'' ''train'' 3 (fold (init_on sample_outside sample_init (idle_agent 0 3)) [2, 0] empty_store) = Inr (Some (2, [0, 2])) \<and>
   check_side_ready ''w'' ''train'' 3 (fold (init_on sample_outside sample_init (idle_agent 0 3)) [2] empty_store) = Inr None"
  using side_ready_iff_all_registered [of "''w''" "''train''" 2 empty_store "[2, 0]" 3 sample_init "idle_agent 0 3" sample_outside]
    side_ready_iff_all_registered [of "''w''" "''train''" 2 empty_store "[2]" 3 sample_init "idle_agent 0 3" sample_outside]
  by (simp add: registered_def sample_init_def idle_agent_def)

theorem mesh_only_for_consecutive_ranks_witness:
  "mesh_ranks (mesh_from [0, 2] [2]) \<noteq> [0, 2]"
  using mesh_only_for_consecutive_ranks [of "[0, 2]" "[2]"] by simp

definition sample_pending :: "string \<Rightarrow> string \<Rightarrow> pending_pair" where
  "sample_pending l r = \<lparr>pp_pair_name = ''w'', pp_local_name = l, pp_remote_name = r, pp_expected = [(l, 1)], pp_semaphores = []\<rparr>"

definition sample_sides :: "nat list \<Rightarrow> nat list \<Rightarrow> pair_sides" where
  "sample_sides lr rr = \<lparr>ps_local_ranks = lr, ps_remote_ranks = rr, ps_local_info = [([length lr], [Shard 0])], ps_remote_info = [([length rr], [Shard 0])]\<rparr>"

theorem pair_construction_agrees_witness:
  "snd (build_pairs sample_outside 0 [(sample_pending ''train'' ''infer'', sample_sides [0, 1] [2])] pg_init) =
   snd (build_pairs sample_outside 2 [(sample_pending ''infer'' ''train'', sample_sides [2] [0, 1])] pg_init)"
  using pair_construction_agrees [of "[(sample_pending ''train'' ''infer'', sample_sides [0, 1] [2])]"
      "[(sample_pending ''infer'' ''train'', sample_sides [2] [0, 1])]" sample_outside 0 pg_init 2]
  by (simp add: same_pair_def sample_pending_def sample_sides_def)

definition sample_leader :: agent where
  "sample_leader = (idle_agent 0 2)\<lparr>ag_pending_pairs := [(''w'', sample_pending ''train'' ''infer'')],
     ag_store := fold (\<lambda>(k, v). tcp_set k v None)
       [(side_key ''w'' 0 ''train'', ''1''), (rank_size_key ''w'' 0 ''train'', ''1''),
        (side_key ''w'' 1 ''infer'', ''1''), (rank_size_key ''w'' 1 ''infer'', ''1'')] empty_store\<rparr>"

lemma sample_leader_ready: "pair_ready (sample_pending ''train'' ''infer'') 2 (ag_store sample_leader) = Inr True"
  by code_simp

lemma sample_leader_append: "fst (append_ready_pairs_to_log sample_leader) = Inr ()"
  by code_simp

theorem completion_log_order_witness:
  "log_holds [''w''] (ag_store (snd (append_ready_pairs_to_log sample_leader))) \<and>
   ag_completion_cursor (snd (consume_completion_log 2 (complete_pair sample_outside)
     ((idle_agent 1 2)\<lparr>ag_store := ag_store (snd (append_ready_pairs_to_log sample_leader))\<rparr>))) = 1 \<and>
   attempted 2 (complete_pair sample_outside) (sample_leader\<lparr>ag_store := ag_store (snd (append_ready_pairs_to_log sample_leader))\<rparr>) = [''w'']"
proof -
  have log: "log_holds [] (ag_store sample_leader)"
    by (simp add: log_holds_def sample_leader_def tcp_get_set entry_key_def side_key_def rank_size_key_def)
  have "tcp_get (marker_key ''w'') None (ag_store sample_leader) = None"
    by (simp add: sample_leader_def tcp_get_set marker_key_def side_key_def rank_size_key_def)
  then have ready: "to_log sample_leader ''w''"
    using sample_leader_ready by (simp add: to_log_def) (simp add: sample_leader_def idle_agent_def)
  have keys: "dict_keys (ag_pending_pairs sample_leader) = [''w'']" "ag_completion_log_len sample_leader = 0"
    by (simp_all add: sample_leader_def idle_agent_def dict_keys_def)
  have run: "append_ready_pairs_to_log sample_leader = (Inr (), snd (append_ready_pairs_to_log sample_leader))"
    using sample_leader_append by (simp add: prod_eq_iff)
  let ?st = "ag_store (snd (append_ready_pairs_to_log sample_leader))"
  let ?b1 = "(idle_agent 1 2)\<lparr>ag_store := ?st\<rparr>" and ?b2 = "sample_leader\<lparr>ag_store := ?st\<rparr>"
  have len: "ag_completion_log_len sample_leader = length []" and dist: "distinct (dict_keys (ag_pending_pairs sample_leader))"
    and log': "[''w''] = [] @ filter (to_log sample_leader) (sort (dict_keys (ag_pending_pairs sample_leader)))"
    using ready by (simp_all add: keys)
  have c: "ag_completion_cursor ?b1 = 0" "ag_completion_cursor ?b2 = 0" by (simp_all add: sample_leader_def idle_agent_def)
  have "named_pending ?b1" "named_pending ?b2" by (simp_all add: named_pending_def sample_leader_def sample_pending_def idle_agent_def)
  then have b: "\<forall>b \<in> {?b1, ?b2}. ag_store b = ?st \<and> named_pending b \<and> 0 \<le> ag_completion_cursor b \<and> ag_completion_cursor b \<le> length [''w'']"
    using c by simp
  have p: "is_pending ?b2 ''w''" by (simp add: sample_leader_def)
  have d: "distinct (drop 0 [''w''])" "length [''w''] < 2" by simp_all
  note facts = completion_log_order [OF log len dist run log' b d, of sample_outside]
  have "ag_completion_cursor (snd (consume_completion_log 2 (complete_pair sample_outside) ?b1)) = length [''w'']"
    "attempted 2 (complete_pair sample_outside) ?b2 = filter (is_pending ?b2) (drop (ag_completion_cursor ?b2) [''w''])"
    using facts [THEN conjunct2, THEN conjunct2, THEN conjunct1] by blast+
  then show ?thesis using facts [THEN conjunct1] c p by simp
qed

end
