(* ===== verification/Registration.thy ===== *)
theory Registration
  imports Pair_Properties
begin

text \<open>
  Tensor registration in \<^verbatim>\<open>agent.py\<close>: \<open>_handle_register_tensors\<close> with its layout check
  across ranks, the split path that generates buckets at once, and the dual path that merges the
  two roles of a colocated batch and generates buckets when both are there. The batch object is
  shared between the local variable and \<open>self.batches\<close> in the code; here every update of it
  goes through \<open>update_batch\<close>.
\<close>

definition update_batch :: "string \<Rightarrow> (batch_state \<Rightarrow> batch_state) \<Rightarrow> agent \<Rightarrow> agent" where
  "update_batch batch_id f a =
     (case dict_get (ag_batches a) batch_id of
        None \<Rightarrow> a
      | Some b \<Rightarrow> a\<lparr>ag_batches := dict_set (ag_batches a) batch_id (f b)\<rparr>)"

text \<open>A dictionary lookup \<open>d[k]\<close> and unpickling, which may raise.\<close>

definition lookup :: "('k, 'v) dict \<Rightarrow> 'k \<Rightarrow> 'v act" where
  "lookup d k = (case dict_get d k of None \<Rightarrow> act_raise KeyError | Some v \<Rightarrow> act_return v)"

definition load_tensor :: "outside \<Rightarrow> string \<Rightarrow> tensor act" where
  "load_tensor env payload = (case o_load_tensor env payload of None \<Rightarrow> act_raise RuntimeError | Some t \<Rightarrow> act_return t)"

section \<open>The layout of a registration\<close>

definition group_payloads :: "(string \<times> string) list \<Rightarrow> (string, string list) dict" where
  "group_payloads tensors = fold (\<lambda>(pair_name, payload) g. dict_set g pair_name (dict_get_or g pair_name [] @ [payload])) tensors []"

definition pair_is_dual :: "agent \<Rightarrow> string \<Rightarrow> bool" where
  "pair_is_dual a name = (case dict_get (ag_pairs a) name of None \<Rightarrow> False | Some p \<Rightarrow> p_dual_endpoint p)"

definition batch_is_dual :: "agent \<Rightarrow> string list \<Rightarrow> bool" where
  "batch_is_dual a pair_names = list_ex (pair_is_dual a) pair_names"

definition role_ok :: "agent \<Rightarrow> string list \<Rightarrow> string option \<Rightarrow> bool" where
  "role_ok a pair_names role =
     (if batch_is_dual a pair_names then
        (case role of
           None \<Rightarrow> False
         | Some r \<Rightarrow> list_all (\<lambda>name. case dict_get (ag_pairs a) name of None \<Rightarrow> False
                                  | Some p \<Rightarrow> r \<in> set (dict_keys (p_role_ranks p))) pair_names)
      else role = None)"

definition role_duplicate :: "agent \<Rightarrow> string \<Rightarrow> string list \<Rightarrow> string option \<Rightarrow> bool" where
  "role_duplicate a batch_id pair_names role =
     (batch_is_dual a pair_names \<and>
      (case (role, dict_get (ag_batches a) batch_id) of
         (Some r, Some b) \<Rightarrow> list_ex (\<lambda>name. (name, r) \<in> set (dict_keys (b_pair_role_tensors b))) pair_names
       | _ \<Rightarrow> False))"

definition sides_of :: "agent \<Rightarrow> string \<Rightarrow> (nat list \<times> nat list) option" where
  "sides_of a name = (case dict_get (ag_pairs a) name of None \<Rightarrow> None | Some p \<Rightarrow> Some (sort (p_local_ranks p), sort (p_remote_ranks p)))"

definition membership :: "agent \<Rightarrow> string \<Rightarrow> (nat list \<times> nat list) option" where
  "membership a name = map_option (\<lambda>(l, r). (min l r, max l r)) (sides_of a name)"

definition registration_layout :: "register_cmd \<Rightarrow> agent \<Rightarrow> reg_layout" where
  "registration_layout msg a =
     (let grouped = group_payloads (rc_tensors msg);
          pair_names = sort (dict_keys grouped);
          pair_layout = map (\<lambda>name. (name, length (dict_get_or grouped name []), membership a name)) pair_names;
          valid = length (remdups (somes (map (sides_of a) pair_names))) = 1;
          mix_ok = (\<not> batch_is_dual a pair_names \<or> list_all (pair_is_dual a) pair_names)
      in \<lparr>rl_signature = (rc_batch_id msg, rc_bucket_size msg, pair_layout, valid), rl_role = rc_role msg,
          rl_local_ok = (mix_ok \<and> role_ok a pair_names (rc_role msg)),
          rl_role_dup = role_duplicate a (rc_batch_id msg) pair_names (rc_role msg)\<rparr>)"

text \<open>\<open>_abort_dual_registration\<close>.\<close>

definition abort_dual_registration :: "batch_state \<Rightarrow> py_error \<Rightarrow> agent \<Rightarrow> agent" where
  "abort_dual_registration batch e a =
     (let a' = fail_all e (b_pending_register_semaphores batch) a
      in a'\<lparr>ag_batches := dict_del (ag_batches a') (b_batch_id batch)\<rparr>)"

text \<open>A rejected registration aborts a batch whose first role still waits.\<close>

definition reject_registration :: "string \<Rightarrow> 'a act" where
  "reject_registration batch_id a =
     act_raise InvalidRegistrationError
       (case dict_get (ag_batches a) batch_id of
          None \<Rightarrow> a
        | Some b \<Rightarrow> if b_pending_register_semaphores b = [] then a else abort_dual_registration b InvalidRegistrationError a)"

section \<open>The split path\<close>

text \<open>The wire dtype: the smaller of the two by item size, this side's own when they are equal.\<close>

definition wire_dtype :: "dtype \<Rightarrow> dtype option \<Rightarrow> dtype option" where
  "wire_dtype mine remote =
     (case remote of None \<Rightarrow> None | Some d \<Rightarrow> Some (if itemsize mine \<le> itemsize d then mine else d))"

definition make_chunks ::
  "m2m_map option \<Rightarrow> tensor option \<Rightarrow> tensor option \<Rightarrow> dtype option \<Rightarrow> partial_groups option \<Rightarrow> chunk list act" where
  "make_chunks m2m source target dt partials =
     (case m2m of
        None \<Rightarrow> act_return []
      | Some m \<Rightarrow> (\<lambda>a. case m2m_to_chunks m (ag_rank a) source target dt partials (ag_pg a) of (r, pg) \<Rightarrow> (r, a\<lparr>ag_pg := pg\<rparr>)))"

definition register_tensor ::
  "outside \<Rightarrow> string \<Rightarrow> string \<Rightarrow> pair_state \<Rightarrow> nat \<times> string \<Rightarrow> chunk list \<times> chunk list \<Rightarrow> (chunk list \<times> chunk list) act" where
  "register_tensor env batch_id name pair ip acc =
     (let target_dtype = o_dtypes env name (fst ip) in
      act_bind (load_tensor env (snd ip)) (\<lambda>t.
      act_bind (act_modify (update_batch batch_id (\<lambda>b.
        b\<lparr>b_pair_tensors := dict_set (b_pair_tensors b) name (dict_get_or (b_pair_tensors b) name [] @ [t]),
          b_pair_target_dtypes := dict_set (b_pair_target_dtypes b) name (dict_get_or (b_pair_target_dtypes b) name [] @ [target_dtype])\<rparr>))) (\<lambda>_.
      let dt = wire_dtype (t_dtype t) target_dtype in
      act_bind (make_chunks (p_m2m_send pair) (Some t) None dt (p_source_partial_groups pair)) (\<lambda>send.
      act_bind (make_chunks (p_m2m_recv pair) None (Some t) dt None) (\<lambda>recv.
      act_return (fst acc @ send, snd acc @ recv))))))"

definition register_pair ::
  "outside \<Rightarrow> string \<Rightarrow> (string, string list) dict \<Rightarrow> string \<Rightarrow> chunk list \<times> chunk list \<Rightarrow> (chunk list \<times> chunk list) act" where
  "register_pair env batch_id grouped name acc =
     (\<lambda>a. act_bind (lookup (ag_pairs a) name) (\<lambda>pair.
      act_bind (act_modify (update_batch batch_id (\<lambda>b.
        b\<lparr>b_pair_tensors := dict_set (b_pair_tensors b) name [], b_pair_target_dtypes := dict_set (b_pair_target_dtypes b) name []\<rparr>))) (\<lambda>_.
      act_fold (register_tensor env batch_id name pair) (enumerate 0 (dict_get_or grouped name [])) acc)) a)"

definition coalesce_bytes :: "nat option \<Rightarrow> nat" where
  "coalesce_bytes bucket_size = (case bucket_size of None \<Rightarrow> 1 | Some n \<Rightarrow> if n = 0 then 1 else n)"

definition pair_maps :: "(pair_state \<Rightarrow> m2m_map option list) \<Rightarrow> string list \<Rightarrow> agent \<Rightarrow> m2m_map option list" where
  "pair_maps maps names a = concat (map (\<lambda>n. case dict_get (ag_pairs a) n of None \<Rightarrow> [] | Some p \<Rightarrow> maps p) names)"

definition result_if :: "string option \<Rightarrow> nat \<Rightarrow> agent \<Rightarrow> agent" where
  "result_if sem gen a = (case truthy sem of None \<Rightarrow> a | Some s \<Rightarrow> write_command_result s (Scalar (int gen)) a)"

definition register_split :: "outside \<Rightarrow> register_cmd \<Rightarrow> bool act" where
  "register_split env msg =
     (\<lambda>a0. let batch_id = rc_batch_id msg; grouped = group_payloads (rc_tensors msg); names = sort (dict_keys grouped) in
      case next_batch_generation batch_id a0 of (gen, a) \<Rightarrow>
      act_bind (act_modify (put_batch (new_batch batch_id names (rc_bucket_size msg) False gen))) (\<lambda>_.
      act_bind (lookup (ag_pairs a) (hd names)) (\<lambda>first_pair.
      act_bind (act_modify (update_batch batch_id (\<lambda>b.
        b\<lparr>b_local_leader := Some (hd (sort (p_local_ranks first_pair))), b_local_group := Some (p_local_group first_pair),
          b_batch_group := Some (p_pair_group first_pair)\<rparr>))) (\<lambda>_.
      act_bind (act_modify (\<lambda>a. a\<lparr>ag_pg := prewarm_broadcast_groups (pair_maps (\<lambda>p. [p_m2m_send p, p_m2m_recv p]) names a) (ag_pg a)\<rparr>)) (\<lambda>_.
      act_bind (act_fold (register_pair env batch_id grouped) names ([], [])) (\<lambda>(send, recv).
      act_bind (act_modify (update_batch batch_id (\<lambda>b.
        b\<lparr>b_send_buckets := Some (chunk_to_bucket_ops send (coalesce_bytes (rc_bucket_size msg))),
          b_recv_buckets := Some (chunk_to_bucket_ops recv (coalesce_bytes (rc_bucket_size msg)))\<rparr>))) (\<lambda>_.
      act_bind (act_modify (result_if (rc_semaphore msg) gen)) (\<lambda>_.
      act_return True))))))) a)"

section \<open>The dual path\<close>

text \<open>The chunks of one direction over all pairs so far; None once a pair has no map for it.\<close>

type_synonym direction_chunks = "(direction, chunk list option) dict"

definition tensor_chunks :: "m2m_map \<Rightarrow> partial_groups option \<Rightarrow> (tensor \<times> tensor) \<times> dtype \<times> dtype \<Rightarrow> chunk list \<Rightarrow> chunk list act" where
  "tensor_chunks m2m partials x chunks =
     (case x of ((source, target), (sd, td)) \<Rightarrow>
      act_bind (make_chunks (Some m2m) (Some source) (Some target) (Some (if itemsize sd \<le> itemsize td then sd else td)) partials) (\<lambda>new.
      act_return (chunks @ new)))"

definition direction_step ::
  "batch_state \<Rightarrow> string \<Rightarrow> pair_state \<Rightarrow> string \<Rightarrow> direction_chunks \<Rightarrow> direction_chunks act" where
  "direction_step batch pair_name pair src_role acc =
     (case filter (\<lambda>name. name \<noteq> src_role) (dict_keys (p_m2m_by_source_role pair)) of
        [] \<Rightarrow> act_raise ValueError
      | dst_role # _ \<Rightarrow>
          act_bind (lookup (p_m2m_by_source_role pair) src_role) (\<lambda>m2m.
          if m2m = None \<or> dict_get acc (src_role, dst_role) = Some None
          then act_return (dict_set acc (src_role, dst_role) None)
          else
            act_bind (lookup (b_pair_role_tensors batch) (pair_name, src_role)) (\<lambda>src_tensors.
            act_bind (lookup (b_pair_role_tensors batch) (pair_name, dst_role)) (\<lambda>dst_tensors.
            act_bind (lookup (b_pair_role_dtypes batch) (pair_name, src_role)) (\<lambda>src_dtypes.
            act_bind (lookup (b_pair_role_dtypes batch) (pair_name, dst_role)) (\<lambda>dst_dtypes.
            if length src_tensors \<noteq> length dst_tensors then act_raise InvalidRegistrationError
            else
              act_bind (act_fold (tensor_chunks (the m2m) (case dict_get (p_partial_by_source_role pair) src_role of None \<Rightarrow> None | Some g \<Rightarrow> g))
                  (zip (zip src_tensors dst_tensors) (zip src_dtypes dst_dtypes))
                  (case dict_get acc (src_role, dst_role) of Some (Some cs) \<Rightarrow> cs | _ \<Rightarrow> [])) (\<lambda>chunks.
              act_return (dict_set acc (src_role, dst_role) (Some chunks)))))))))"

definition pair_directions :: "batch_state \<Rightarrow> string \<Rightarrow> direction_chunks \<Rightarrow> direction_chunks act" where
  "pair_directions batch pair_name acc =
     (\<lambda>a. act_bind (lookup (ag_pairs a) pair_name) (\<lambda>pair.
      act_fold (direction_step batch pair_name pair) (sort (dict_keys (p_m2m_by_source_role pair))) acc) a)"

definition direction_buckets :: "nat \<Rightarrow> direction_chunks \<Rightarrow> (direction, bucket list option) dict \<Rightarrow> (direction, bucket list option) dict" where
  "direction_buckets bucket_size chunks d =
     fold (\<lambda>dir d. dict_set d dir (map_option (\<lambda>cs. chunk_to_bucket_ops cs bucket_size) (dict_get_or chunks dir None)))
       (sort_key fst (sort_key snd (dict_keys chunks))) d"

definition generate_dual_buckets :: "string \<Rightarrow> batch_state \<Rightarrow> unit act" where
  "generate_dual_buckets batch_id batch =
     (act_bind (act_modify (\<lambda>a. a\<lparr>ag_pg := prewarm_broadcast_groups
          (pair_maps (\<lambda>p. map snd (p_m2m_by_source_role p)) (b_pair_names batch) a) (ag_pg a)\<rparr>)) (\<lambda>_.
      act_bind (act_fold (pair_directions batch) (sort (b_pair_names batch)) []) (\<lambda>chunks.
      act_modify (update_batch batch_id (\<lambda>b.
        b\<lparr>b_dual_direction_buckets := direction_buckets (coalesce_bytes (b_bucket_size b)) chunks (b_dual_direction_buckets b)\<rparr>)))))"

definition merge_role :: "outside \<Rightarrow> string \<Rightarrow> (string, string list) dict \<Rightarrow> string \<Rightarrow> string \<Rightarrow> unit act" where
  "merge_role env batch_id grouped role pair_name =
     (\<lambda>a. act_bind (lookup (ag_batches a) batch_id) (\<lambda>b.
      if (pair_name, role) \<in> set (dict_keys (b_pair_role_tensors b)) then act_raise InvalidRegistrationError
      else
        act_bind (lookup grouped pair_name) (\<lambda>payloads.
        act_bind (act_fold (\<lambda>payload ts. act_bind (load_tensor env payload) (\<lambda>t. act_return (ts @ [t]))) payloads []) (\<lambda>ts.
        act_modify (update_batch batch_id (\<lambda>b.
          b\<lparr>b_pair_role_tensors := dict_set (b_pair_role_tensors b) (pair_name, role) ts,
            b_pair_role_dtypes := dict_set (b_pair_role_dtypes b) (pair_name, role) (map t_dtype ts)\<rparr>))))) a)"

definition roles_present :: "batch_state \<Rightarrow> string \<Rightarrow> nat" where
  "roles_present b pair_name = length (remdups (map snd (filter (\<lambda>(p, r). p = pair_name) (dict_keys (b_pair_role_tensors b)))))"

definition finish_dual :: "string \<Rightarrow> string option \<Rightarrow> bool act" where
  "finish_dual batch_id sem =
     (\<lambda>a. act_bind (lookup (ag_batches a) batch_id) (\<lambda>b.
      act_bind (act_catch (generate_dual_buckets batch_id b) (\<lambda>e.
        act_bind (act_modify (abort_dual_registration b e)) (\<lambda>_. act_raise e))) (\<lambda>_.
      act_bind (act_modify (fold (\<lambda>s a. release_semaphore s (write_command_result s (Scalar (int (b_generation b))) a))
        (b_pending_register_semaphores b))) (\<lambda>_.
      act_bind (act_modify (update_batch batch_id (\<lambda>b. b\<lparr>b_pending_register_semaphores := []\<rparr>))) (\<lambda>_.
      act_bind (act_modify (result_if sem (b_generation b))) (\<lambda>_.
      act_return True))))) a)"

definition register_dual_role ::
  "outside \<Rightarrow> string \<Rightarrow> (string, string list) dict \<Rightarrow> string \<Rightarrow> string option \<Rightarrow> bool act" where
  "register_dual_role env batch_id grouped role sem =
     (\<lambda>a. act_bind (lookup (ag_batches a) batch_id) (\<lambda>b.
      act_bind (lookup (ag_pairs a) (hd (b_pair_names b))) (\<lambda>first_pair.
      let first_name = hd (sort (dict_keys (p_role_ranks first_pair))) in
      act_bind (lookup (p_role_ranks first_pair) first_name) (\<lambda>ranks.
      act_bind (lookup (p_role_groups first_pair) first_name) (\<lambda>group.
      act_bind (act_modify (update_batch batch_id (\<lambda>b.
        b\<lparr>b_local_leader := Some (hd (sort ranks)), b_local_group := Some group, b_batch_group := Some (p_pair_group first_pair)\<rparr>))) (\<lambda>_.
      act_bind (act_for (merge_role env batch_id grouped role) (b_pair_names b)) (\<lambda>_.
      (\<lambda>a. act_bind (lookup (ag_batches a) batch_id) (\<lambda>b.
        if list_ex (\<lambda>p. roles_present b p < 2) (b_pair_names b)
        then act_bind (act_modify (update_batch batch_id (\<lambda>b. case truthy sem of None \<Rightarrow> b
               | Some s \<Rightarrow> b\<lparr>b_pending_register_semaphores := b_pending_register_semaphores b @ [s]\<rparr>))) (\<lambda>_. act_return False)
        else finish_dual batch_id sem) a))))))) a)"

definition register_dual :: "outside \<Rightarrow> register_cmd \<Rightarrow> layout_signature \<Rightarrow> reg_layout option list \<Rightarrow> bool act" where
  "register_dual env msg signature layouts =
     (\<lambda>a0. let batch_id = rc_batch_id msg; grouped = group_payloads (rc_tensors msg); names = sort (dict_keys grouped);
               a = (case dict_get (ag_batches a0) batch_id of
                      Some _ \<Rightarrow> a0
                    | None \<Rightarrow> (case next_batch_generation batch_id a0 of (gen, a1) \<Rightarrow>
                        put_batch (new_batch batch_id names (rc_bucket_size msg) True gen) a1))
      in act_bind (lookup (ag_batches a) batch_id) (\<lambda>b.
         if list_ex (\<lambda>other. map_option rl_signature other \<noteq> Some signature) layouts
            \<or> b_dual_layout_signature b \<notin> {None, Some signature}
         then act_bind (act_modify (abort_dual_registration b InvalidRegistrationError)) (\<lambda>_. act_raise InvalidRegistrationError)
         else
           act_bind (act_modify (update_batch batch_id (\<lambda>b. b\<lparr>b_dual_layout_signature := Some signature\<rparr>))) (\<lambda>_.
           register_dual_role env batch_id grouped (case rc_role msg of None \<Rightarrow> [] | Some r \<Rightarrow> r) (rc_semaphore msg))) a)"

section \<open>The handler\<close>

definition handle_register_tensors :: "outside \<Rightarrow> register_cmd \<Rightarrow> bool act" where
  "handle_register_tensors env msg =
     (\<lambda>a. let names = sort (dict_keys (group_payloads (rc_tensors msg)));
              layout = registration_layout msg a;
              layouts = o_layouts env layout;
              memberships = map (membership a) names;
              valid = snd (snd (snd (rl_signature layout)))
      in act_bind (act_modify (emit (Gathered None))) (\<lambda>_.
         if list_ex (\<lambda>other. case other of None \<Rightarrow> False | Some l \<Rightarrow> rl_role_dup l) layouts then reject_registration (rc_batch_id msg)
         else if list_ex (\<lambda>other. case other of None \<Rightarrow> True | Some l \<Rightarrow> \<not> rl_local_ok l) layouts then reject_registration (rc_batch_id msg)
         else if names = [] \<or> None \<in> set memberships \<or> length (remdups memberships) \<noteq> 1 \<or> \<not> valid
         then reject_registration (rc_batch_id msg)
         else if batch_is_dual a names then register_dual env msg (rl_signature layout) layouts
         else if list_ex (\<lambda>other. other \<noteq> Some layout) layouts then act_raise InvalidRegistrationError
         else register_split env msg) a)"

end
