(* ===== verification/Transfers.thy ===== *)
theory Transfers
  imports Registration Queue_Processes
begin

text \<open>
  Transfers, queries and cleanup in \<^verbatim>\<open>agent.py\<close>, the dispatch of commands and the agent's
  loop step. A dual transfer parks until both roles have asked for its round, runs once, and
  publishes the round before it wakes anybody. \<open>bucket_comm\<close> is recorded in the trace with the
  buckets it is given; \<open>o_comm_error\<close> is what the collectives under it raise.
\<close>

definition run_buckets :: "outside \<Rightarrow> string \<Rightarrow> (direction \<times> int) option \<Rightarrow> bucket list \<Rightarrow> bool \<Rightarrow> unit act" where
  "run_buckets env batch_id round buckets sequential =
     (case o_comm_error env of
        Some e \<Rightarrow> act_raise e
      | None \<Rightarrow> act_modify (emit (Ran batch_id round buckets sequential)))"

definition barrier :: "group_handle option \<Rightarrow> unit act" where
  "barrier g = act_modify (emit (Barrier g))"

section \<open>Split transfers\<close>

definition simple_transfer :: "transfer_type \<Rightarrow> pair_state \<Rightarrow> tensor \<Rightarrow> unit act" where
  "simple_transfer ty pair t =
     (\<lambda>a. if ag_rank a \<notin> set (p_local_ranks pair) then act_raise ValueError a
      else act_bind (act_lift (py_nth (p_remote_ranks pair) (py_index_of (p_local_ranks pair) (ag_rank a)))) (\<lambda>peer.
        act_modify (emit (Simple_transfer ty t peer))) a)"

definition simple_transfers :: "transfer_type \<Rightarrow> batch_state \<Rightarrow> string \<Rightarrow> unit act" where
  "simple_transfers ty batch pair_name =
     (\<lambda>a. act_bind (lookup (ag_pairs a) pair_name) (\<lambda>pair.
      act_bind (lookup (b_pair_tensors batch) pair_name) (\<lambda>ts.
      act_for (simple_transfer ty pair) ts)) a)"

definition no_buckets :: "bucket list option \<Rightarrow> bool" where
  "no_buckets bs = (bs = None \<or> bs = Some [])"

definition split_transfer :: "outside \<Rightarrow> transfer_cmd \<Rightarrow> batch_state \<Rightarrow> bool act" where
  "split_transfer env msg batch =
     (let ty = tc_transfer_type msg; key = ''batch:'' @ tc_batch_id msg @ ''/state:transfer_signal'';
          buckets = (if ty = Send then b_send_buckets batch else b_recv_buckets batch) in
      act_bind (if ty = Send then act_modify (leader_set key ''1'' batch) else act_return ()) (\<lambda>_.
      act_bind (barrier (b_batch_group batch)) (\<lambda>_.
      act_bind (if \<not> no_buckets (b_send_buckets batch) \<or> \<not> no_buckets (b_recv_buckets batch)
                then (if no_buckets buckets then act_raise RuntimeError
                      else run_buckets env (tc_batch_id msg) None (the buckets) False)
                else act_for (simple_transfers ty batch) (b_pair_names batch)) (\<lambda>_.
      act_bind (barrier (b_batch_group batch)) (\<lambda>_.
      act_bind (if ty = Recv then act_modify (leader_set key ''0'' batch) else act_return ()) (\<lambda>_.
      act_return True))))))"

section \<open>Dual transfers\<close>

definition request_key :: "string \<Rightarrow> direction \<Rightarrow> string" where
  "request_key batch_id d = ''batch:'' @ batch_id @ ''/state:transfer_request_round:'' @ fst d @ ''->'' @ snd d"

definition done_key :: "string \<Rightarrow> string" where
  "done_key batch_id = ''batch:'' @ batch_id @ ''/state:transfer_signal_round''"

definition pin_key :: "string \<Rightarrow> nat \<Rightarrow> string" where
  "pin_key batch_id gen = ''batch:'' @ batch_id @ ''/g'' @ show_nat gen @ ''/state:dual_direction''"

definition stored_round :: "string \<Rightarrow> agent \<Rightarrow> int result" where
  "stored_round key a =
     (case tcp_get key (Some ''global'') (ag_store a) of None \<Rightarrow> Inr (-1) | Some raw \<Rightarrow> read_int raw)"

definition is_leader :: "batch_state \<Rightarrow> agent \<Rightarrow> bool" where
  "is_leader batch a \<longleftrightarrow> Some (ag_rank a) = b_local_leader batch"

definition publish_transfer_request :: "batch_state \<Rightarrow> direction \<Rightarrow> int \<Rightarrow> unit act" where
  "publish_transfer_request batch d sync_round =
     (\<lambda>a. if \<not> is_leader batch a then act_return () a
      else act_bind (act_lift (stored_round (request_key (b_batch_id batch) d) a)) (\<lambda>current.
        if current < sync_round then act_modify (signal (request_key (b_batch_id batch) d) (show_int sync_round))
        else act_return ()) a)"

definition transfer_direction :: "transfer_cmd \<Rightarrow> pair_state \<Rightarrow> (string \<times> direction) result" where
  "transfer_direction msg pair =
     (case tc_role msg of
        None \<Rightarrow> Inl InvalidRegistrationError
      | Some role \<Rightarrow>
          if role \<notin> set (dict_keys (p_role_ranks pair)) then Inl InvalidRegistrationError
          else (case filter (\<lambda>n. n \<noteq> role) (dict_keys (p_role_ranks pair)) of
                  [] \<Rightarrow> Inl InvalidRegistrationError
                | other # _ \<Rightarrow> Inr (role, if tc_transfer_type msg = Send then (role, other) else (other, role))))"

text \<open>The direction of a dual batch is fixed by the first request the leader sees.\<close>

definition pin_direction :: "outside \<Rightarrow> batch_state \<Rightarrow> direction \<Rightarrow> unit act" where
  "pin_direction env batch d =
     (\<lambda>a. case b_dual_direction batch of
        Some _ \<Rightarrow> act_return () a
      | None \<Rightarrow>
          let key = pin_key (b_batch_id batch) (b_generation batch) in
          act_bind (act_modify (\<lambda>a. if is_leader batch a \<and> tcp_get key (Some ''global'') (ag_store a) = None
              then signal key (json_dumps d) a else a)) (\<lambda>_ a.
          case tcp_wait_for_key key (Some ''global'') (ag_store a) ((tcp_data (ag_store a), False) # o_polls env) of
            Some (Inr got) \<Rightarrow>
              act_bind (act_lift (json_loads got)) (\<lambda>pinned.
              act_modify (update_batch (b_batch_id batch) (\<lambda>b. b\<lparr>b_dual_direction := Some pinned\<rparr>))) a
          | _ \<Rightarrow> act_raise TimeoutError a) a)"

definition done_round :: "batch_state \<Rightarrow> direction \<Rightarrow> int" where
  "done_round b d = dict_get_or (b_dual_direction_done b) d (-1)"

definition no_round :: round_pending where
  "no_round = \<lparr>rp_roles = [], rp_semaphores = []\<rparr>"

definition pending_round :: "batch_state \<Rightarrow> direction \<Rightarrow> int \<Rightarrow> round_pending" where
  "pending_round b d r = dict_get_or (b_dual_round_pending b) (d, r) no_round"

definition drop_round :: "string \<Rightarrow> direction \<Rightarrow> int \<Rightarrow> agent \<Rightarrow> agent" where
  "drop_round batch_id d r = update_batch batch_id (\<lambda>b. b\<lparr>b_dual_round_pending := dict_del (b_dual_round_pending b) (d, r)\<rparr>)"

definition join_round :: "string \<Rightarrow> string option \<Rightarrow> round_pending \<Rightarrow> round_pending" where
  "join_round role sem p =
     \<lparr>rp_roles = List.insert role (rp_roles p),
      rp_semaphores = rp_semaphores p @ (case truthy sem of None \<Rightarrow> [] | Some s \<Rightarrow> [s])\<rparr>"

text \<open>\<open>_fail_round\<close>: everybody parked on the round but the caller itself is failed and woken, then the error is raised.\<close>

definition fail_round :: "batch_state \<Rightarrow> direction \<Rightarrow> transfer_cmd \<Rightarrow> py_error \<Rightarrow> bool act" where
  "fail_round batch d msg e =
     (let id = b_batch_id batch; r = tc_sync_round msg in
      act_bind (act_modify (\<lambda>a. fail_all e (filter (\<lambda>s. Some s \<noteq> tc_semaphore msg) (rp_semaphores (pending_round batch d r)))
        (drop_round id d r a))) (\<lambda>_.
      act_bind (act_modify (\<lambda>a. if is_leader batch a then signal (request_key id d) (show_int (done_round batch d)) a else a)) (\<lambda>_.
      act_raise e)))"

text \<open>Both roles have asked for the round.\<close>

definition run_round :: "outside \<Rightarrow> batch_state \<Rightarrow> direction \<Rightarrow> transfer_cmd \<Rightarrow> bool act" where
  "run_round env batch d msg =
     (let id = b_batch_id batch; r = tc_sync_round msg; group = b_batch_group batch in
      case dict_get (b_dual_direction_buckets batch) d of
        None \<Rightarrow> fail_round batch d msg InvalidRegistrationError
      | Some None \<Rightarrow> fail_round batch d msg InvalidRegistrationError
      | Some (Some buckets) \<Rightarrow>
          act_bind (act_modify (emit (Gathered group))) (\<lambda>_.
          if list_ex (\<lambda>seen. seen \<noteq> r) (o_rounds env r) then fail_round batch d msg InvalidRegistrationError
          else
            act_bind (barrier group) (\<lambda>_.
            act_bind (run_buckets env id (Some (d, r)) buckets True) (\<lambda>_.
            act_bind (act_modify (update_batch id (\<lambda>b. b\<lparr>b_dual_direction_done := dict_set (b_dual_direction_done b) d r\<rparr>))) (\<lambda>_.
            act_bind (barrier group) (\<lambda>_.
            act_bind (act_modify (\<lambda>a. if is_leader batch a then signal (done_key id) (show_int r) a else a)) (\<lambda>_.
            act_bind (barrier group) (\<lambda>_.
            act_bind (act_modify (release_all (rp_semaphores (pending_round batch d r)))) (\<lambda>_.
            act_bind (act_modify (drop_round id d r)) (\<lambda>_.
            act_return True))))))))))"

text \<open>The command joins its round; the first one publishes the request before it parks.\<close>

definition enter_round :: "outside \<Rightarrow> batch_state \<Rightarrow> string \<Rightarrow> direction \<Rightarrow> transfer_cmd \<Rightarrow> bool act" where
  "enter_round env batch role d msg =
     (let id = b_batch_id batch; r = tc_sync_round msg; p = join_round role (tc_semaphore msg) (pending_round batch d r) in
      act_bind (act_modify (update_batch id (\<lambda>b. b\<lparr>b_dual_round_pending := dict_set (b_dual_round_pending b) (d, r) (pending_round batch d r)\<rparr>))) (\<lambda>_.
      act_bind (if rp_roles (pending_round batch d r) = [] then publish_transfer_request batch d r else act_return ()) (\<lambda>_.
      act_bind (act_modify (update_batch id (\<lambda>b. b\<lparr>b_dual_round_pending := dict_set (b_dual_round_pending b) (d, r) p\<rparr>))) (\<lambda>_.
      if length (rp_roles p) < 2 then act_return False
      else (\<lambda>a. act_bind (lookup (ag_batches a) id) (\<lambda>b. run_round env b d msg) a)))))"

definition execute_dual_transfer :: "outside \<Rightarrow> transfer_cmd \<Rightarrow> batch_state \<Rightarrow> bool act" where
  "execute_dual_transfer env msg batch =
     (\<lambda>a. let id = b_batch_id batch; r = tc_sync_round msg in
      act_bind (if tc_role msg = None then act_raise InvalidRegistrationError else act_return ()) (\<lambda>_.
      act_bind (act_lift (py_nth (b_pair_names batch) 0)) (\<lambda>first_name.
      act_bind (lookup (ag_pairs a) first_name) (\<lambda>first_pair.
      act_bind (act_lift (transfer_direction msg first_pair)) (\<lambda>(role, d).
      if r < 0 then act_raise InvalidRegistrationError
      else
        act_bind (pin_direction env batch d) (\<lambda>_ a.
        act_bind (lookup (ag_batches a) id) (\<lambda>b.
        if b_dual_direction b \<noteq> Some d then act_raise InvalidRegistrationError
        else if r \<le> done_round b d then
          act_bind (act_modify (\<lambda>a. release_all (rp_semaphores (pending_round b d r)) (drop_round id d r a))) (\<lambda>_. act_return True)
        else enter_round env b role d msg) a))))) a)"

definition stale :: "nat \<Rightarrow> batch_state \<Rightarrow> bool" where
  "stale gen b \<longleftrightarrow> gen \<noteq> 0 \<and> b_generation b \<noteq> 0 \<and> gen \<noteq> b_generation b"

definition handle_transfer :: "outside \<Rightarrow> transfer_cmd \<Rightarrow> bool act" where
  "handle_transfer env msg =
     (\<lambda>a. case dict_get (ag_batches a) (tc_batch_id msg) of
        None \<Rightarrow> act_raise InvalidRegistrationError a
      | Some b \<Rightarrow>
          if stale (tc_generation msg) b
          then act_raise InvalidRegistrationError a
          else if b_dual b then execute_dual_transfer env msg b a
          else split_transfer env msg b a)"

section \<open>Queries and cleanup\<close>

definition state_key :: "string \<Rightarrow> string \<Rightarrow> string" where
  "state_key batch_id state_name = ''batch:'' @ batch_id @ ''/state:'' @ state_name"

definition answer_query :: "query_cmd \<Rightarrow> state_value \<Rightarrow> agent \<Rightarrow> agent" where
  "answer_query msg v a =
     (case truthy (qc_semaphore msg) of
        Some s \<Rightarrow> write_command_result s v a
      | None \<Rightarrow> a\<lparr>ag_state_db := dict_set (ag_state_db a) (state_key (qc_batch_id msg) (qc_state_name msg)) v\<rparr>)"

definition handle_query_status :: "query_cmd \<Rightarrow> unit act" where
  "handle_query_status msg =
     (\<lambda>a. let name = qc_state_name msg; key = state_key (qc_batch_id msg) name in
      case dict_get (ag_batches a) (qc_batch_id msg) of
        None \<Rightarrow> act_return () a
      | Some b \<Rightarrow>
          if stale (qc_generation msg) b
          then act_modify (answer_query msg (if name = ''transfer_signal'' then Flag False else Scalar (-1))) a
          else if name = ''transfer_signal''
          then act_modify (answer_query msg (Flag (tcp_get key (Some ''global'') (ag_store a) = Some ''1''))) a
          else if name = ''transfer_signal_round'' \<or> has_prefix ''transfer_request_round'' name
          then act_bind (act_lift (stored_round key a)) (\<lambda>r. act_modify (answer_query msg (Scalar r))) a
          else act_return () a)"

definition reset_dual_store_signals :: "batch_state \<Rightarrow> agent \<Rightarrow> agent" where
  "reset_dual_store_signals b a =
     fold (\<lambda>d. signal (request_key (b_batch_id b) d) ''-1'')
       (remdups (dict_keys (b_dual_direction_buckets b) @ (case b_dual_direction b of None \<Rightarrow> [] | Some d \<Rightarrow> [d])))
       (signal (done_key (b_batch_id b)) ''-1'' a)"

definition parked_rounds :: "batch_state \<Rightarrow> string list" where
  "parked_rounds b = concat (map (\<lambda>(_, p). rp_semaphores p) (b_dual_round_pending b))"

definition handle_cleanup_batch :: "cleanup_cmd \<Rightarrow> unit act" where
  "handle_cleanup_batch msg =
     (\<lambda>a. case dict_get (ag_batches a) (cc_batch_id msg) of
        None \<Rightarrow> act_return () a
      | Some b \<Rightarrow>
          if stale (cc_generation msg) b then act_return () a
          else
            act_bind (act_modify (fail_all RuntimeError (b_pending_register_semaphores b))) (\<lambda>_.
            act_bind (act_modify (fail_all RuntimeError (parked_rounds b))) (\<lambda>_.
            act_bind (act_modify (\<lambda>a. if b_dual b \<and> is_leader b a then reset_dual_store_signals b a else a)) (\<lambda>_.
            act_modify (\<lambda>a. a\<lparr>ag_batches := dict_del (ag_batches a) (cc_batch_id msg)\<rparr>)))) a)"

section \<open>Dispatch and the loop step\<close>

definition handle_message :: "outside \<Rightarrow> message \<Rightarrow> bool act" where
  "handle_message env msg =
     (case msg of
        InitPair c \<Rightarrow> act_bind (handle_init_pair env c) (\<lambda>_. act_return True)
      | Transfer c \<Rightarrow> handle_transfer env c
      | QueryStatus c \<Rightarrow> act_bind (handle_query_status c) (\<lambda>_. act_return True)
      | RegisterTensors c \<Rightarrow> handle_register_tensors env c
      | CleanupBatch c \<Rightarrow> act_bind (handle_cleanup_batch c) (\<lambda>_. act_return True))"

definition is_init_pair :: "message \<Rightarrow> bool" where
  "is_init_pair msg = (case msg of InitPair _ \<Rightarrow> True | _ \<Rightarrow> False)"

definition fail_if :: "string option \<Rightarrow> py_error \<Rightarrow> agent \<Rightarrow> agent" where
  "fail_if sem e a = (case truthy sem of None \<Rightarrow> a | Some s \<Rightarrow> fail_semaphore e s a)"

definition execute_command :: "outside \<Rightarrow> message \<Rightarrow> unit act" where
  "execute_command env msg a =
     (case handle_message env msg a of
        (Inr complete, a') \<Rightarrow>
          (Inr (), if complete \<and> \<not> is_init_pair msg then release_if (semaphore_name msg) a' else a')
      | (Inl e, a') \<Rightarrow>
          (if e = InvalidRegistrationError then Inr () else Inl e, fail_if (semaphore_name msg) e a'))"

definition poll_if_pending :: "outside \<Rightarrow> nat \<Rightarrow> unit act" where
  "poll_if_pending env fuel = (\<lambda>a. if ag_pending_pairs a = [] then act_return () a else poll_pending_pairs env fuel a)"

text \<open>One iteration of the main loop; the queue is the agent's own.\<close>

definition step :: "outside \<Rightarrow> nat \<Rightarrow> (bytes \<Rightarrow> message option) \<Rightarrow> agent \<times> command_queue \<Rightarrow> bool result \<times> agent \<times> command_queue" where
  "step env fuel dec s =
     (case s of (a, q) \<Rightarrow>
      case poll_if_pending env fuel (update_heartbeat a) of
        (Inl e, a1) \<Rightarrow> (Inl e, a1, q)
      | (Inr _, a1) \<Rightarrow>
      case dequeue dec (Some Timed) q of
        (Waiting, q') \<Rightarrow> (Inr False, a1, q')
      | (Answer (Inl e), q') \<Rightarrow> (Inl e, a1, q')
      | (Answer (Inr msg), q') \<Rightarrow>
      case (case msg of None \<Rightarrow> (Inr (), a1) | Some m \<Rightarrow> execute_command env m a1) of
        (Inl e, a2) \<Rightarrow> (Inl e, a2, q')
      | (Inr _, a2) \<Rightarrow>
      case poll_if_pending env fuel a2 of
        (Inl e, a3) \<Rightarrow> (Inl e, a3, q')
      | (Inr _, a3) \<Rightarrow> (Inr (msg \<noteq> None), a3, q'))"

end
