(* ===== verification/Round_Properties.thy ===== *)
theory Round_Properties
  imports Transfers
begin

text \<open>
  What the transfer handlers of \<^verbatim>\<open>agent.py\<close> guarantee for the rounds of a dual batch: every
  round runs at most once and in ascending order, it runs exactly when both roles have asked for
  it, and its completion is published before anybody who waits for it is woken.
\<close>

section \<open>Rounds in the trace\<close>

definition round_of :: "effect \<Rightarrow> (string \<times> direction \<times> int) list" where
  "round_of e = (case e of Ran bid (Some (d, r)) _ _ \<Rightarrow> [(bid, d, r)] | _ \<Rightarrow> [])"

definition ran_rounds :: "agent \<Rightarrow> (string \<times> direction \<times> int) list" where
  "ran_rounds a = concat (map round_of (ag_trace a))"

text \<open>The rounds of one direction of one batch this agent has executed, in order.\<close>

definition executed :: "string \<Rightarrow> direction \<Rightarrow> agent \<Rightarrow> int list" where
  "executed bid d a = map (snd \<circ> snd) (filter (\<lambda>(bid', d', _). bid' = bid \<and> d' = d) (ran_rounds a))"

definition batches_ok :: "agent \<Rightarrow> bool" where
  "batches_ok a \<longleftrightarrow> (\<forall>bid b. dict_get (ag_batches a) bid = Some b \<longrightarrow> b_batch_id b = bid)"

section \<open>Steps that run no round\<close>

definition same_done :: "batch_state \<Rightarrow> batch_state \<Rightarrow> bool" where
  "same_done b b' \<longleftrightarrow> b_batch_id b' = b_batch_id b \<and> b_dual_direction_done b' = b_dual_direction_done b"

definition quiet :: "agent \<Rightarrow> agent \<Rightarrow> bool" where
  "quiet a a' \<longleftrightarrow> ran_rounds a' = ran_rounds a \<and> (\<forall>bid. rel_option same_done (dict_get (ag_batches a) bid) (dict_get (ag_batches a') bid))"

lemma quiet_refl [simp]: "quiet a a"
  by (auto simp: quiet_def same_done_def option.rel_refl)

lemma quiet_trans: "quiet a b \<Longrightarrow> quiet b c \<Longrightarrow> quiet a c"
proof -
  assume q: "quiet a b" "quiet b c"
  have "rel_option same_done x z" if "rel_option same_done x y" "rel_option same_done y z" for x y z
    using that by (cases x; cases y; cases z) (auto simp: same_done_def)
  then show "quiet a c" using q unfolding quiet_def by metis
qed

interpretation quiet: handler_frame quiet
  by unfold_locales (auto intro: quiet_trans)

lemma quiet_emit: "round_of e = [] \<Longrightarrow> quiet a (emit e b) = quiet a b"
  by (simp add: quiet_def ran_rounds_def emit_def)

lemma quiet_fields [simp]:
  "quiet a (b\<lparr>ag_semaphores := x1\<rparr>) = quiet a b" "quiet a (b\<lparr>ag_store := x2\<rparr>) = quiet a b" "quiet a (b\<lparr>ag_state_db := x3\<rparr>) = quiet a b"
  "quiet a (b\<lparr>ag_state_db := x3, ag_command_error_times := x4\<rparr>) = quiet a b"
  "quiet a (b\<lparr>ag_state_db := x3, ag_command_error_times := x4, ag_trace := ag_trace b @ [Recorded s e]\<rparr>) = quiet a b"
  by (simp_all add: quiet_def ran_rounds_def round_of_def)

lemma quiet_ops [simp]:
  "quiet a (release_semaphore s b) = quiet a b" "quiet a (record_command_error s e b) = quiet a b" "quiet a (fail_semaphore e s b) = quiet a b"
  "quiet a (signal k v b) = quiet a b" "quiet a (leader_set k v bt b) = quiet a b" "quiet a (write_command_result s w b) = quiet a b"
proof -
  show r: "quiet a (release_semaphore s b) = quiet a b" for b by (simp add: release_semaphore_def quiet_emit round_of_def)
  show w: "quiet a (record_command_error s e b) = quiet a b" "quiet a (write_command_result s w b) = quiet a b"
    by (simp_all add: record_command_error_def write_command_result_def)
  show "quiet a (fail_semaphore e s b) = quiet a b" by (simp add: fail_semaphore_def r w)
  show s: "quiet a (signal k v b) = quiet a b" by (simp add: signal_def store_set_def quiet_emit round_of_def)
  show "quiet a (leader_set k v bt b) = quiet a b" by (simp add: leader_set_def quiet_emit round_of_def s)
qed

lemma quiet_folds [simp]: "quiet a (release_all ss b) = quiet a b" "quiet a (fail_all e ss b) = quiet a b"
  unfolding release_all_def fail_all_def by (induction ss arbitrary: b) auto

lemma quiet_update:
  assumes "\<And>b. same_done b (f b)"
  shows "quiet a (update_batch bid f a)"
proof -
  have "rel_option same_done (dict_get (ag_batches a) bid') (dict_get (ag_batches (update_batch bid f a)) bid')" for bid'
    using assms by (cases "dict_get (ag_batches a) bid'") (auto simp: update_batch_def dict_simps same_done_def split: option.split)
  moreover have "ran_rounds (update_batch bid f a) = ran_rounds a" by (simp add: update_batch_def ran_rounds_def split: option.split)
  ultimately show ?thesis by (simp add: quiet_def)
qed

lemma quiet_drop: "quiet a (drop_round bid d r a)"
  unfolding drop_round_def by (rule quiet_update) (simp add: same_done_def)

lemmas quiet_intros = quiet.frame_bind quiet.frame_pure quiet.frame_modify quiet.frame_for quiet_update quiet_drop

lemma quiet_lookup [simp]: "quiet a (snd (lookup d k a))"
  by (simp add: lookup_def split: option.split)

lemma quiet_split: "quiet a (snd (split_transfer env msg b a))"
proof -
  have 1: "quiet a (snd (simple_transfer ty pair t a))" for ty pair t a
    unfolding simple_transfer_def by (auto intro!: quiet_intros simp: quiet_emit round_of_def)
  have 2: "quiet a (snd (simple_transfers ty b n a))" for ty b n a
    unfolding simple_transfers_def by (intro quiet_intros quiet_lookup 1)
  have 3: "quiet a (snd (run_buckets env bid None bs seq a))" for bid bs seq a
    unfolding run_buckets_def by (auto simp: quiet_emit round_of_def split: option.split)
  have 4: "quiet a (snd (barrier g a))" for g a by (simp add: barrier_def quiet_emit round_of_def)
  show ?thesis unfolding split_transfer_def Let_def
    by (auto intro!: quiet.frame_bind quiet.frame_for simp: 2 3 4)
qed

lemma quiet_pin: "quiet a (snd (pin_direction env b d a))"
  unfolding pin_direction_def Let_def
  by (auto intro!: quiet.frame_bind quiet_update simp: same_done_def split: option.split sum.split)

lemma quiet_publish: "quiet a (snd (publish_transfer_request b d r a))"
  unfolding publish_transfer_request_def by (auto intro!: quiet.frame_bind)

lemma quiet_fail_round: "quiet a (snd (fail_round b d msg e a))"
  unfolding fail_round_def Let_def by (auto intro!: quiet.frame_bind quiet_drop)

section \<open>Running a round\<close>

text \<open>The state right after \<open>bucket_comm\<close> returned and the round was noted as done.\<close>

definition after_run :: "batch_state \<Rightarrow> direction \<Rightarrow> int \<Rightarrow> bucket list \<Rightarrow> agent \<Rightarrow> agent" where
  "after_run b d r bs a =
     update_batch (b_batch_id b) (\<lambda>b. b\<lparr>b_dual_direction_done := dict_set (b_dual_direction_done b) d r\<rparr>)
       (emit (Ran (b_batch_id b) (Some (d, r)) bs True) (emit (Barrier (b_batch_group b)) (emit (Gathered (b_batch_group b)) a)))"

definition after_publish :: "batch_state \<Rightarrow> direction \<Rightarrow> int \<Rightarrow> agent \<Rightarrow> agent" where
  "after_publish b d r a =
     emit (Barrier (b_batch_group b))
       (let a1 = emit (Barrier (b_batch_group b)) a in if is_leader b a then signal (done_key (b_batch_id b)) (show_int r) a1 else a1)"

definition runnable :: "outside \<Rightarrow> batch_state \<Rightarrow> direction \<Rightarrow> int \<Rightarrow> bucket list \<Rightarrow> bool" where
  "runnable env b d r bs \<longleftrightarrow> dict_get (b_dual_direction_buckets b) d = Some (Some bs) \<and>
     list_all (\<lambda>seen. seen = r) (o_rounds env r) \<and> o_comm_error env = None"

lemma is_leader_same [simp]:
  "is_leader b (emit e a) = is_leader b a" "is_leader b (update_batch i f a) = is_leader b a" "is_leader b (after_run b' d r bs a) = is_leader b a"
  by (simp_all add: is_leader_def emit_def update_batch_def after_run_def split: option.split)

lemma run_round_runs:
  assumes "runnable env b d (tc_sync_round msg) bs"
  shows "run_round env b d msg a =
    (Inr True, drop_round (b_batch_id b) d (tc_sync_round msg) (release_all (rp_semaphores (pending_round b d (tc_sync_round msg)))
       (after_publish b d (tc_sync_round msg) (after_run b d (tc_sync_round msg) bs a))))"
proof -
  have "\<not> list_ex (\<lambda>seen. seen \<noteq> tc_sync_round msg) (o_rounds env (tc_sync_round msg))"
    using assms by (simp add: runnable_def list_ex_iff list_all_iff)
  then show ?thesis
    using assms by (simp add: run_round_def Let_def runnable_def act_simps barrier_def run_buckets_def after_run_def after_publish_def)
qed

lemma run_round_fails:
  assumes "\<nexists>bs. runnable env b d (tc_sync_round msg) bs"
  shows "quiet a (snd (run_round env b d msg a)) \<and> (\<exists>e. fst (run_round env b d msg a) = Inl e)"
proof -
  have fail: "\<exists>e. fst (fail_round b d msg e0 a) = Inl e" for e0 a
    by (simp add: fail_round_def Let_def act_simps)
  consider (no) "\<nexists>bs. dict_get (b_dual_direction_buckets b) d = Some (Some bs)"
    | (mixed) bs where "dict_get (b_dual_direction_buckets b) d = Some (Some bs)" "list_ex (\<lambda>seen. seen \<noteq> tc_sync_round msg) (o_rounds env (tc_sync_round msg))"
    | (comm) bs e where "dict_get (b_dual_direction_buckets b) d = Some (Some bs)" "\<not> list_ex (\<lambda>seen. seen \<noteq> tc_sync_round msg) (o_rounds env (tc_sync_round msg))"
        "o_comm_error env = Some e"
    using assms by (auto simp: runnable_def list_ex_iff list_all_iff) (metis option.exhaust)
  then show ?thesis
  proof cases
    case no
    then show ?thesis
      using quiet_fail_round fail by (auto simp: run_round_def Let_def split: option.split)
  next
    case mixed
    have "quiet a (emit (Gathered (b_batch_group b)) a)" by (simp add: quiet_emit round_of_def)
    then show ?thesis
      using mixed quiet_trans [OF _ quiet_fail_round] fail by (simp add: run_round_def Let_def act_bind_def act_modify_def)
  next
    case comm
    then show ?thesis
      by (simp add: run_round_def Let_def act_simps barrier_def run_buckets_def quiet_emit round_of_def)
  qed
qed

text \<open>One round, above everything done before in its direction, has run; nothing else has.\<close>

definition ran_one :: "agent \<Rightarrow> agent \<Rightarrow> bool" where
  "ran_one a a' \<longleftrightarrow> (\<exists>bid b b' d r. dict_get (ag_batches a) bid = Some b \<and> done_round b d < r \<and>
     ran_rounds a' = ran_rounds a @ [(bid, d, r)] \<and> dict_get (ag_batches a') bid = Some b' \<and> b_batch_id b' = b_batch_id b \<and>
     b_dual_direction_done b' = dict_set (b_dual_direction_done b) d r \<and>
     (\<forall>bid'. bid' \<noteq> bid \<longrightarrow> rel_option same_done (dict_get (ag_batches a) bid') (dict_get (ag_batches a') bid')))"

definition progress :: "agent \<Rightarrow> agent \<Rightarrow> bool" where
  "progress a a' \<longleftrightarrow> quiet a a' \<or> ran_one a a'"

lemma done_round_same: "same_done b b' \<Longrightarrow> done_round b' d = done_round b d"
  by (simp add: same_done_def done_round_def)

lemma same_done_lookup: "quiet a a' \<Longrightarrow> dict_get (ag_batches a) bid = Some b \<Longrightarrow> \<exists>b'. dict_get (ag_batches a') bid = Some b' \<and> same_done b b'"
  unfolding quiet_def by (metis option.rel_cases option.distinct(1) option.inject)

lemma same_done_lookup': "quiet a a' \<Longrightarrow> dict_get (ag_batches a') bid = Some b' \<Longrightarrow> \<exists>b. dict_get (ag_batches a) bid = Some b \<and> same_done b b'"
  unfolding quiet_def by (metis option.rel_cases option.distinct(1) option.inject)

lemma rel_done_trans: "rel_option same_done x y \<Longrightarrow> rel_option same_done y z \<Longrightarrow> rel_option same_done x z"
  by (cases x; cases y; cases z) (auto simp: same_done_def)

lemma ran_one_quiet_left:
  assumes "quiet a b" "ran_one b c"
  shows "ran_one a c"
proof -
  obtain bid bt bt' d r where r: "dict_get (ag_batches b) bid = Some bt" "done_round bt d < r" "ran_rounds c = ran_rounds b @ [(bid, d, r)]"
    "dict_get (ag_batches c) bid = Some bt'" "b_batch_id bt' = b_batch_id bt" "b_dual_direction_done bt' = dict_set (b_dual_direction_done bt) d r"
    "\<forall>bid'. bid' \<noteq> bid \<longrightarrow> rel_option same_done (dict_get (ag_batches b) bid') (dict_get (ag_batches c) bid')"
    using assms(2) unfolding ran_one_def by blast
  obtain b0 where b0: "dict_get (ag_batches a) bid = Some b0" "same_done b0 bt" using same_done_lookup' [OF assms(1) r(1)] by blast
  have "ran_rounds c = ran_rounds a @ [(bid, d, r)]" using assms(1) r(3) by (simp add: quiet_def)
  moreover have "done_round b0 d < r" using r(2) done_round_same [OF b0(2)] by simp
  moreover have "b_batch_id bt' = b_batch_id b0" "b_dual_direction_done bt' = dict_set (b_dual_direction_done b0) d r"
    using r(5,6) b0(2) by (simp_all add: same_done_def)
  moreover have "rel_option same_done (dict_get (ag_batches a) x) (dict_get (ag_batches c) x)" if "x \<noteq> bid" for x
    using assms(1) r(7) that rel_done_trans unfolding quiet_def by blast
  ultimately show ?thesis using b0(1) r(4) unfolding ran_one_def by blast
qed

lemma ran_one_quiet_right:
  assumes "ran_one a b" "quiet b c"
  shows "ran_one a c"
proof -
  obtain bid bt bt' d r where r: "dict_get (ag_batches a) bid = Some bt" "done_round bt d < r" "ran_rounds b = ran_rounds a @ [(bid, d, r)]"
    "dict_get (ag_batches b) bid = Some bt'" "b_batch_id bt' = b_batch_id bt" "b_dual_direction_done bt' = dict_set (b_dual_direction_done bt) d r"
    "\<forall>bid'. bid' \<noteq> bid \<longrightarrow> rel_option same_done (dict_get (ag_batches a) bid') (dict_get (ag_batches b) bid')"
    using assms(1) unfolding ran_one_def by blast
  obtain b1 where b1: "dict_get (ag_batches c) bid = Some b1" "same_done bt' b1" using same_done_lookup [OF assms(2) r(4)] by blast
  have "ran_rounds c = ran_rounds a @ [(bid, d, r)]" using assms(2) r(3) by (simp add: quiet_def)
  moreover have "b_batch_id b1 = b_batch_id bt" "b_dual_direction_done b1 = dict_set (b_dual_direction_done bt) d r"
    using r(5,6) b1(2) by (simp_all add: same_done_def)
  moreover have "rel_option same_done (dict_get (ag_batches a) x) (dict_get (ag_batches c) x)" if "x \<noteq> bid" for x
    using assms(2) r(7) that rel_done_trans unfolding quiet_def by blast
  ultimately show ?thesis using b1(1) r(1,2) unfolding ran_one_def by blast
qed

lemma progress_quiet: "quiet a b \<Longrightarrow> progress a b" "quiet a b \<Longrightarrow> progress b c \<Longrightarrow> progress a c" "progress a b \<Longrightarrow> quiet b c \<Longrightarrow> progress a c"
  unfolding progress_def by (blast intro: quiet_trans ran_one_quiet_left ran_one_quiet_right)+

lemma progress_bind:
  assumes "quiet a (snd (m a))" "\<And>x b. m a = (Inr x, b) \<Longrightarrow> quiet a b \<Longrightarrow> progress b (snd (f x b))"
  shows "progress a (snd (act_bind m f a))"
proof (cases "m a")
  case (Pair r b)
  then show ?thesis using assms by (cases r) (auto simp: act_bind_def intro: progress_quiet)
qed

lemma run_round_progress:
  assumes "dict_get (ag_batches a) (b_batch_id b) = Some b" "done_round b d < tc_sync_round msg"
  shows "progress a (snd (run_round env b d msg a))"
proof (cases "\<exists>bs. runnable env b d (tc_sync_round msg) bs")
  case True
  then obtain bs where bs: "runnable env b d (tc_sync_round msg) bs" ..
  let ?r = "tc_sync_round msg" and ?x = "after_run b d (tc_sync_round msg) bs a"
  let ?b' = "b\<lparr>b_dual_direction_done := dict_set (b_dual_direction_done b) d ?r\<rparr>"
  have "quiet ?x (snd (run_round env b d msg a))"
    unfolding run_round_runs [OF bs]
    by (auto simp: after_publish_def Let_def quiet_emit round_of_def intro!: quiet_trans [OF _ quiet_drop])
  moreover have "ran_one a ?x"
    unfolding ran_one_def
  proof (intro exI conjI allI impI)
    show "dict_get (ag_batches a) (b_batch_id b) = Some b" "done_round b d < ?r" by fact+
    show "ran_rounds ?x = ran_rounds a @ [(b_batch_id b, d, ?r)]"
      by (simp add: after_run_def ran_rounds_def update_batch_def emit_def round_of_def split: option.split)
    show "dict_get (ag_batches ?x) (b_batch_id b) = Some ?b'"
      using assms(1) by (simp add: after_run_def update_batch_def emit_def dict_simps)
    show "b_batch_id ?b' = b_batch_id b" "b_dual_direction_done ?b' = dict_set (b_dual_direction_done b) d ?r" by simp_all
    fix bid' assume "bid' \<noteq> b_batch_id b"
    then show "rel_option same_done (dict_get (ag_batches a) bid') (dict_get (ag_batches ?x) bid')"
      using assms(1) by (simp add: after_run_def update_batch_def emit_def dict_simps option.rel_refl same_done_def)
  qed
  ultimately show ?thesis using ran_one_quiet_right by (auto simp: progress_def)
next
  case False
  then show ?thesis using run_round_fails progress_quiet(1) by blast
qed

lemma lookup_result: "lookup d k a = (Inr v, b) \<longleftrightarrow> dict_get d k = Some v \<and> b = a"
  by (auto simp: lookup_def act_simps split: option.splits)

lemma quiet_ok:
  assumes "quiet a b" "batches_ok a"
  shows "batches_ok b"
  unfolding batches_ok_def
proof (intro allI impI)
  fix bid bt assume "dict_get (ag_batches b) bid = Some bt"
  then obtain b0 where "dict_get (ag_batches a) bid = Some b0" "same_done b0 bt" using same_done_lookup' [OF assms(1)] by blast
  then show "b_batch_id bt = bid" using assms(2) by (simp add: batches_ok_def same_done_def)
qed

lemma enter_round_progress:
  assumes "dict_get (ag_batches a) (b_batch_id b) = Some b" "done_round b d < tc_sync_round msg"
  shows "progress a (snd (enter_round env b role d msg a))"
proof -
  let ?p = "join_round role (tc_semaphore msg) (pending_round b d (tc_sync_round msg))"
  have run: "progress a3 (snd (act_bind (lookup (ag_batches a3) (b_batch_id b)) (\<lambda>b. run_round env b d msg) a3))" if q3: "quiet a a3" for a3
  proof (rule progress_bind)
    fix b' a4 assume "lookup (ag_batches a3) (b_batch_id b) a3 = (Inr b', a4)"
    then have l: "dict_get (ag_batches a3) (b_batch_id b) = Some b'" "a4 = a3" by (simp_all add: lookup_result)
    have sd: "same_done b b'" using same_done_lookup [OF q3 assms(1)] l(1) by auto
    then have "b_batch_id b' = b_batch_id b" "done_round b' d < tc_sync_round msg"
      using assms(2) done_round_same [OF sd, of d] by (simp_all add: same_done_def)
    then show "progress a4 (snd (run_round env b' d msg a4))" using run_round_progress l by simp
  qed simp
  have last: "progress a3 (snd ((if length (rp_roles ?p) < 2 then act_return False
      else (\<lambda>a. act_bind (lookup (ag_batches a) (b_batch_id b)) (\<lambda>b. run_round env b d msg) a)) a3))" if "quiet a a3" for a3
    using run [OF that] by (simp add: progress_quiet(1))
  show ?thesis
    unfolding enter_round_def Let_def
    apply (rule progress_bind)
     apply (simp add: quiet_update same_done_def)
    apply (rule progress_bind)
     apply (simp add: quiet_publish)
    apply (rule progress_bind)
     apply (simp add: quiet_update same_done_def)
    apply (rule last)
    apply (rule quiet_trans, rule quiet_trans, assumption+)
    done
qed

lemma execute_dual_progress:
  assumes "dict_get (ag_batches a) (b_batch_id batch) = Some batch" "batches_ok a"
  shows "progress a (snd (execute_dual_transfer env msg batch a))"
proof -
  have go: "progress a2 (snd (act_bind (lookup (ag_batches a2) (b_batch_id batch)) (\<lambda>b.
        if b_dual_direction b \<noteq> Some d then act_raise InvalidRegistrationError
        else if tc_sync_round msg \<le> done_round b d then
          act_bind (act_modify (\<lambda>a. release_all (rp_semaphores (pending_round b d (tc_sync_round msg)))
            (drop_round (b_batch_id batch) d (tc_sync_round msg) a))) (\<lambda>_. act_return True)
        else enter_round env b role d msg) a2))" if "quiet a a2" for a2 d role
  proof (rule progress_bind)
    fix b a3 assume "lookup (ag_batches a2) (b_batch_id batch) a2 = (Inr b, a3)"
    then have l: "dict_get (ag_batches a2) (b_batch_id batch) = Some b" "a3 = a2" by (simp_all add: lookup_result)
    have ok: "batches_ok a2" using quiet_ok that assms(2) by blast
    then have b: "dict_get (ag_batches a2) (b_batch_id b) = Some b" using l by (simp add: batches_ok_def)
    show "progress a3 (snd ((if b_dual_direction b \<noteq> Some d then act_raise InvalidRegistrationError
        else if tc_sync_round msg \<le> done_round b d then
          act_bind (act_modify (\<lambda>a. release_all (rp_semaphores (pending_round b d (tc_sync_round msg)))
            (drop_round (b_batch_id batch) d (tc_sync_round msg) a))) (\<lambda>_. act_return True)
        else enter_round env b role d msg) a3))"
      using enter_round_progress [OF b] by (simp add: l(2) progress_quiet(1) quiet.frame_bind quiet_drop)
  qed simp
  have pinned: "progress a1 (snd ((if tc_sync_round msg < 0 then act_raise InvalidRegistrationError else
      act_bind (pin_direction env batch d) (\<lambda>_ a. act_bind (lookup (ag_batches a) (b_batch_id batch)) (\<lambda>b.
        if b_dual_direction b \<noteq> Some d then act_raise InvalidRegistrationError
        else if tc_sync_round msg \<le> done_round b d then
          act_bind (act_modify (\<lambda>a. release_all (rp_semaphores (pending_round b d (tc_sync_round msg)))
            (drop_round (b_batch_id batch) d (tc_sync_round msg) a))) (\<lambda>_. act_return True)
        else enter_round env b role d msg) a)) a1))" if "quiet a a1" for a1 d role
  proof (cases "tc_sync_round msg < 0")
    case False
    show ?thesis unfolding if_not_P [OF False] by (rule progress_bind [OF quiet_pin], rule go, rule quiet_trans [OF that])
  qed (simp add: progress_quiet(1))
  show ?thesis
    unfolding execute_dual_transfer_def Let_def
    apply (rule progress_bind, simp)
    apply (rule progress_bind, simp)
    apply (rule progress_bind, simp)
    apply (rule progress_bind, simp)
    apply (rename_tac xc bc, case_tac xc, hypsubst)
    apply (unfold prod.case, rule pinned)
    apply (rule quiet_trans, rule quiet_trans, rule quiet_trans, assumption+)
    done
qed

lemma handle_transfer_progress:
  assumes "batches_ok a"
  shows "progress a (snd (handle_transfer env msg a))"
proof (cases "dict_get (ag_batches a) (tc_batch_id msg)")
  case None
  then show ?thesis by (simp add: handle_transfer_def progress_quiet(1))
next
  case (Some b)
  then have "dict_get (ag_batches a) (b_batch_id b) = Some b" using assms by (simp add: batches_ok_def)
  then show ?thesis
    using Some execute_dual_progress [OF _ assms] quiet_split by (simp add: handle_transfer_def progress_quiet(1))
qed

lemma execute_transfer_progress:
  assumes "batches_ok a"
  shows "progress a (snd (execute_command env (Transfer msg) a))"
proof -
  have q: "quiet b (release_if s b)" "quiet b (fail_if s e b)" for s e b
    by (simp_all add: release_if_def fail_if_def split: option.split)
  show ?thesis
    using handle_transfer_progress [OF assms, of env msg] q
    by (auto simp: execute_command_def handle_message_def is_init_pair_def intro: progress_quiet(3) split: prod.splits sum.splits)
qed

section \<open>Rounds ascend\<close>

definition run_transfers :: "(outside \<times> transfer_cmd) list \<Rightarrow> agent \<Rightarrow> agent" where
  "run_transfers ms a = fold (\<lambda>(env, m) a. snd (execute_command env (Transfer m) a)) ms a"

lemma executed_append:
  "ran_rounds a' = ran_rounds a @ [(i, d', r)] \<Longrightarrow> executed bid d a' = executed bid d a @ (if i = bid \<and> d' = d then [r] else [])"
  by (simp add: executed_def)

lemma progress_ok: "progress a a' \<Longrightarrow> batches_ok a \<Longrightarrow> batches_ok a'"
proof (unfold progress_def, elim disjE)
  assume "ran_one a a'" and ok: "batches_ok a"
  then obtain bid b b' where r: "dict_get (ag_batches a) bid = Some b" "dict_get (ag_batches a') bid = Some b'" "b_batch_id b' = b_batch_id b"
    "\<forall>bid'. bid' \<noteq> bid \<longrightarrow> rel_option same_done (dict_get (ag_batches a) bid') (dict_get (ag_batches a') bid')"
    unfolding ran_one_def by blast
  show "batches_ok a'"
    unfolding batches_ok_def
  proof (intro allI impI)
    fix x bt assume l: "dict_get (ag_batches a') x = Some bt"
    show "b_batch_id bt = x"
    proof (cases "x = bid")
      case False
      then have "rel_option same_done (dict_get (ag_batches a) x) (Some bt)" using r(4) l by metis
      then show ?thesis using ok by (cases "dict_get (ag_batches a) x") (auto simp: batches_ok_def same_done_def)
    qed (use r l ok in \<open>auto simp: batches_ok_def\<close>)
  qed
qed (blast intro: quiet_ok)

lemma progress_round:
  assumes "progress a a'" "dict_get (ag_batches a) bid = Some b"
  shows "\<exists>rs b'. executed bid d a' = executed bid d a @ rs \<and> dict_get (ag_batches a') bid = Some b' \<and>
    sorted_wrt (<) (done_round b d # rs) \<and> done_round b' d = last (done_round b d # rs)"
  using assms(1) unfolding progress_def
proof
  assume q: "quiet a a'"
  obtain b' where b': "dict_get (ag_batches a') bid = Some b'" "same_done b b'" using same_done_lookup [OF q assms(2)] by blast
  have "executed bid d a' = executed bid d a @ []" using q by (simp add: executed_def quiet_def)
  then show ?thesis using b' done_round_same [OF b'(2), of d] by (intro exI [of _ "[]"] exI [of _ b']) simp
next
  assume "ran_one a a'"
  then obtain i bt bt' d' r where r: "dict_get (ag_batches a) i = Some bt" "done_round bt d' < r" "ran_rounds a' = ran_rounds a @ [(i, d', r)]"
    "dict_get (ag_batches a') i = Some bt'" "b_dual_direction_done bt' = dict_set (b_dual_direction_done bt) d' r"
    "\<forall>x. x \<noteq> i \<longrightarrow> rel_option same_done (dict_get (ag_batches a) x) (dict_get (ag_batches a') x)"
    unfolding ran_one_def by blast
  note e = executed_append [OF r(3), of bid d]
  show ?thesis
  proof (cases "i = bid")
    case True
    then have "done_round bt' d = (if d' = d then r else done_round b d)" "bt = b"
      using r(1,5) assms(2) by (simp_all add: done_round_def dict_simps)
    then show ?thesis using e True r(2,4) by (intro exI [of _ "if d' = d then [r] else []"] exI [of _ bt']) auto
  next
    case False
    then have "rel_option same_done (Some b) (dict_get (ag_batches a') bid)" using r(6) assms(2) by metis
    then obtain b' where b': "dict_get (ag_batches a') bid = Some b'" "same_done b b'" by (cases "dict_get (ag_batches a') bid") auto
    then show ?thesis using e False done_round_same [OF b'(2), of d] by (intro exI [of _ "[]"] exI [of _ b']) simp
  qed
qed

text \<open>
  C10. Every round runs at most once, and rounds only go up: whatever transfer commands an agent
  handles, in whatever order, repeated, late or failing, the rounds of a direction that it
  executes are strictly ascending and above the last one done before, and the last one
  executed is what the batch remembers as done.
\<close>

theorem dual_rounds_ascend:
  assumes "batches_ok a" "dict_get (ag_batches a) bid = Some b"
  shows "\<exists>rs b'. executed bid d (run_transfers ms a) = executed bid d a @ rs \<and>
    dict_get (ag_batches (run_transfers ms a)) bid = Some b' \<and>
    sorted_wrt (<) (done_round b d # rs) \<and> done_round b' d = last (done_round b d # rs)"
  using assms
proof (induction ms arbitrary: a b)
  case Nil
  then show ?case by (intro exI [of _ "[]"] exI [of _ b]) (simp add: run_transfers_def)
next
  case (Cons em ms)
  obtain env m where em: "em = (env, m)" by (cases em)
  let ?a = "snd (execute_command env (Transfer m) a)"
  have p: "progress a ?a" by (rule execute_transfer_progress [OF Cons.prems(1)])
  obtain rs b1 where 1: "executed bid d ?a = executed bid d a @ rs" "dict_get (ag_batches ?a) bid = Some b1"
    "sorted_wrt (<) (done_round b d # rs)" "done_round b1 d = last (done_round b d # rs)"
    using progress_round [OF p Cons.prems(2)] by blast
  obtain rs' b2 where 2: "executed bid d (run_transfers ms ?a) = executed bid d ?a @ rs'" "dict_get (ag_batches (run_transfers ms ?a)) bid = Some b2"
    "sorted_wrt (<) (done_round b1 d # rs')" "done_round b2 d = last (done_round b1 d # rs')"
    using Cons.IH [OF progress_ok [OF p Cons.prems(1)] 1(2)] by blast
  have below: "x \<le> last (done_round b d # rs)" if "x \<in> set (done_round b d # rs)" for x
    using that 1(3) by (induction rs arbitrary: x rule: rev_induct) (auto simp: sorted_wrt_append)
  have "sorted_wrt (<) ((done_round b d # rs) @ rs')"
    unfolding sorted_wrt_append
  proof (intro conjI ballI)
    fix x y assume x: "x \<in> set (done_round b d # rs)" and y: "y \<in> set rs'"
    have "last (done_round b d # rs) < y" using 2(3) y unfolding 1(4) by simp
    with below [OF x] show "x < y" by (rule order_le_less_trans)
  qed (use 1(3) 2(3) in simp_all)
  moreover have "run_transfers (em # ms) a = run_transfers ms ?a" by (simp add: run_transfers_def em)
  moreover have "done_round b2 d = last (done_round b d # rs @ rs')" using 2(4) 1(4) by (cases rs' rule: rev_cases) auto
  ultimately show ?case using 1(1) 2(1,2) by (intro exI [of _ "rs @ rs'"] exI [of _ b2]) simp
qed

section \<open>The second command of a round\<close>

lemma release_all_trace:
  "\<exists>ws. ag_trace (release_all ss a) = ag_trace a @ map Woke ws \<and> set ws = set ss \<inter> set (ag_semaphores a)"
proof (induction ss arbitrary: a)
  case (Cons s ss)
  obtain ws where ws: "ag_trace (release_all ss (release_semaphore s a)) = ag_trace (release_semaphore s a) @ map Woke ws"
    "set ws = set ss \<inter> (set (ag_semaphores a) - {s})" using Cons [of "release_semaphore s a"] by auto
  have "release_all (s # ss) a = release_all ss (release_semaphore s a)" by (simp add: release_all_def)
  moreover have "ag_trace (release_semaphore s a) = ag_trace a @ (if s \<in> set (ag_semaphores a) then [Woke s] else [])"
    by (simp add: release_semaphore_def emit_def)
  ultimately show ?case using ws by (intro exI [of _ "(if s \<in> set (ag_semaphores a) then [s] else []) @ ws"]) auto
qed (simp add: release_all_def)

lemma release_all_keeps [simp]:
  "ag_batches (release_all ss a) = ag_batches a" "ag_store (release_all ss a) = ag_store a" "ag_rank (release_all ss a) = ag_rank a"
proof -
  have "ag_batches (release_semaphore s a) = ag_batches a \<and> ag_store (release_semaphore s a) = ag_store a \<and> ag_rank (release_semaphore s a) = ag_rank a" for s a
    by (simp add: release_semaphore_def emit_def)
  then show "ag_batches (release_all ss a) = ag_batches a" "ag_store (release_all ss a) = ag_store a" "ag_rank (release_all ss a) = ag_rank a"
    unfolding release_all_def by (induction ss arbitrary: a) auto
qed

lemma update_batch_simps [simp]:
  "ag_trace (update_batch i f a) = ag_trace a" "ag_store (update_batch i f a) = ag_store a" "ag_semaphores (update_batch i f a) = ag_semaphores a"
  "ag_pairs (update_batch i f a) = ag_pairs a" "ag_rank (update_batch i f a) = ag_rank a"
  "ag_command_error_times (update_batch i f a) = ag_command_error_times a" "ag_pending_pairs (update_batch i f a) = ag_pending_pairs a"
  "dict_get (ag_batches (update_batch i f a)) j = (if j = i then map_option f (dict_get (ag_batches a) j) else dict_get (ag_batches a) j)"
  by (simp_all add: update_batch_def dict_simps split: option.split)

lemma emit_simps [simp]:
  "ag_trace (emit e a) = ag_trace a @ [e]" "ag_store (emit e a) = ag_store a" "ag_semaphores (emit e a) = ag_semaphores a"
  "ag_batches (emit e a) = ag_batches a" "ag_rank (emit e a) = ag_rank a" "ag_pairs (emit e a) = ag_pairs a"
  by (simp_all add: emit_def)

lemma signal_simps [simp]:
  "ag_trace (signal k v a) = ag_trace a @ [Signal k v]" "ag_store (signal k v a) = tcp_set k v (Some ''global'') (ag_store a)"
  "ag_semaphores (signal k v a) = ag_semaphores a" "ag_batches (signal k v a) = ag_batches a" "ag_rank (signal k v a) = ag_rank a"
  "ag_pairs (signal k v a) = ag_pairs a"
  by (simp_all add: signal_def store_set_def)

lemma drop_round_simps [simp]:
  "ag_trace (drop_round i d r a) = ag_trace a" "ag_store (drop_round i d r a) = ag_store a"
  "dict_get (ag_batches (drop_round i d r a)) j =
     (if j = i then map_option (\<lambda>b. b\<lparr>b_dual_round_pending := dict_del (b_dual_round_pending b) (d, r)\<rparr>) (dict_get (ag_batches a) j)
      else dict_get (ag_batches a) j)"
  by (simp_all add: drop_round_def)

lemma tcp_get_global: "tcp_get k' (Some ''global'') (tcp_set k v (Some ''global'') s) = (if k' = k then Some v else tcp_get k' (Some ''global'') s)"
  using tcp.get_set [of k' "Some ''global''" k v "Some ''global''" s] by (simp add: prefixed_eq)

text \<open>What a command adds to the semaphores of a round.\<close>

abbreviation own_semaphore :: "transfer_cmd \<Rightarrow> string list" where
  "own_semaphore msg \<equiv> (case truthy (tc_semaphore msg) of None \<Rightarrow> [] | Some s \<Rightarrow> [s])"

lemma enter_round_second:
  assumes "dict_get (ag_batches a) (b_batch_id b) = Some b"
    and "dict_get (b_dual_round_pending b) (d, tc_sync_round msg) = Some \<lparr>rp_roles = [other], rp_semaphores = ss\<rparr>" "other \<noteq> role"
  shows "\<exists>b2 a2. enter_round env b role d msg a = run_round env b2 d msg a2 \<and> b_batch_id b2 = b_batch_id b \<and> b_batch_group b2 = b_batch_group b \<and>
    b_local_leader b2 = b_local_leader b \<and> b_dual_direction_buckets b2 = b_dual_direction_buckets b \<and>
    rp_semaphores (pending_round b2 d (tc_sync_round msg)) = ss @ own_semaphore msg \<and>
    ag_trace a2 = ag_trace a \<and> ag_store a2 = ag_store a \<and> ag_semaphores a2 = ag_semaphores a \<and> ag_rank a2 = ag_rank a \<and>
    dict_get (ag_batches a2) (b_batch_id b) = Some b2 \<and> done_round b2 d = done_round b d \<and> ag_command_error_times a2 = ag_command_error_times a"
proof -
  let ?r = "tc_sync_round msg"
  let ?p = "join_round role (tc_semaphore msg) (pending_round b d ?r)"
  have p: "pending_round b d ?r = \<lparr>rp_roles = [other], rp_semaphores = ss\<rparr>" using assms(2) by (simp add: pending_round_def dict_get_or_def)
  let ?a1 = "update_batch (b_batch_id b) (\<lambda>b'. b'\<lparr>b_dual_round_pending := dict_set (b_dual_round_pending b') (d, ?r) (pending_round b d ?r)\<rparr>) a"
  let ?a2 = "update_batch (b_batch_id b) (\<lambda>b'. b'\<lparr>b_dual_round_pending := dict_set (b_dual_round_pending b') (d, ?r) ?p\<rparr>) ?a1"
  let ?b2 = "b\<lparr>b_dual_round_pending := dict_set (dict_set (b_dual_round_pending b) (d, ?r) (pending_round b d ?r)) (d, ?r) ?p\<rparr>"
  have l: "dict_get (ag_batches ?a2) (b_batch_id b) = Some ?b2" using assms(1) by simp
  have "length (rp_roles ?p) = 2" using assms(3) by (simp add: p join_round_def)
  then have "enter_round env b role d msg a = run_round env ?b2 d msg ?a2"
    using assms(1) by (simp add: enter_round_def Let_def p act_simps lookup_def)
  moreover have "pending_round ?b2 d ?r = ?p" by (simp add: pending_round_def dict_simps)
  then have "rp_semaphores (pending_round ?b2 d ?r) = ss @ own_semaphore msg" by (simp add: p join_round_def)
  ultimately show ?thesis using l by (intro exI [of _ ?b2] exI [of _ ?a2] conjI) (simp_all add: done_round_def)
qed

text \<open>
  C11. The second role's command runs the round, and the order of what happens is fixed: the ranks
  compare their round numbers, meet at a barrier, run the direction's buckets, meet again, the
  leader publishes the round as completed, all meet a third time, and only then are the parked
  commands of the round woken (every one that still waits, and nobody else). Afterwards the
  round is remembered as done, nothing is parked for it, and on the leader the completed round
  in the store, which a query reads, is this one.
\<close>

theorem dual_round_executes:
  assumes live: "dict_get (ag_batches a) (tc_batch_id msg) = Some b" "b_batch_id b = tc_batch_id msg" "b_dual b" "\<not> stale (tc_generation msg) b"
    and pair: "b_pair_names b = p # ps" "dict_get (ag_pairs a) p = Some pair" "transfer_direction msg pair = Inr (role, d)"
    and round: "b_dual_direction b = Some d" "0 \<le> tc_sync_round msg" "done_round b d < tc_sync_round msg"
    and other: "dict_get (b_dual_round_pending b) (d, tc_sync_round msg) = Some \<lparr>rp_roles = [other], rp_semaphores = ss\<rparr>" "other \<noteq> role"
    and run: "runnable env b d (tc_sync_round msg) bs"
  shows "\<exists>a' ws b'. handle_transfer env msg a = (Inr True, a') \<and>
    ag_trace a' = ag_trace a @ [Gathered (b_batch_group b), Barrier (b_batch_group b), Ran (tc_batch_id msg) (Some (d, tc_sync_round msg)) bs True,
        Barrier (b_batch_group b)] @ (if is_leader b a then [Signal (done_key (tc_batch_id msg)) (show_int (tc_sync_round msg))] else []) @
      [Barrier (b_batch_group b)] @ map Woke ws \<and>
    set ws = (set ss \<union> set (own_semaphore msg)) \<inter> set (ag_semaphores a) \<and>
    dict_get (ag_batches a') (tc_batch_id msg) = Some b' \<and> done_round b' d = tc_sync_round msg \<and>
    dict_get (b_dual_round_pending b') (d, tc_sync_round msg) = None \<and>
    (is_leader b a \<longrightarrow> stored_round (done_key (tc_batch_id msg)) a' = Inr (tc_sync_round msg))"
proof -
  let ?r = "tc_sync_round msg" and ?i = "tc_batch_id msg" and ?g = "b_batch_group b"
  obtain ro where role: "tc_role msg = Some ro" using pair(3) by (auto simp: transfer_direction_def split: option.splits)
  have "handle_transfer env msg a = enter_round env b role d msg a"
    using live pair round role
    by (simp add: handle_transfer_def execute_dual_transfer_def act_simps py_nth_def lookup_def pin_direction_def Let_def)
  moreover obtain b2 a2 where e: "enter_round env b role d msg a = run_round env b2 d msg a2" "b_batch_id b2 = ?i" "b_batch_group b2 = ?g"
    "b_local_leader b2 = b_local_leader b" "b_dual_direction_buckets b2 = b_dual_direction_buckets b"
    "rp_semaphores (pending_round b2 d ?r) = ss @ own_semaphore msg"
    "ag_trace a2 = ag_trace a" "ag_store a2 = ag_store a" "ag_semaphores a2 = ag_semaphores a" "ag_rank a2 = ag_rank a" "dict_get (ag_batches a2) ?i = Some b2"
    using enter_round_second [of a b d msg other ss role env] live(1,2) other by auto
  have run2: "runnable env b2 d ?r bs" using run e(5) by (simp add: runnable_def)
  have lead: "is_leader b2 a2 = is_leader b a" using e(4,10) by (simp add: is_leader_def)
  let ?pub = "after_publish b2 d ?r (after_run b2 d ?r bs a2)"
  obtain ws where ws: "ag_trace (release_all (ss @ own_semaphore msg) ?pub) = ag_trace ?pub @ map Woke ws"
    "set ws = set (ss @ own_semaphore msg) \<inter> set (ag_semaphores ?pub)" using release_all_trace by blast
  have sems: "ag_semaphores ?pub = ag_semaphores a" by (simp add: after_publish_def after_run_def Let_def e)
  let ?b' = "b2\<lparr>b_dual_direction_done := dict_set (b_dual_direction_done b2) d ?r,
      b_dual_round_pending := dict_del (b_dual_round_pending b2) (d, ?r)\<rparr>"
  have "done_round ?b' d = ?r" "dict_get (b_dual_round_pending ?b') (d, ?r) = None" by (simp_all add: done_round_def dict_simps)
  moreover have "is_leader b a \<longrightarrow> stored_round (done_key ?i) (drop_round ?i d ?r (release_all (ss @ own_semaphore msg) ?pub)) = Inr ?r"
    by (simp add: stored_round_def after_publish_def Let_def lead e(2) tcp_get_global read_show_int)
  moreover have "dict_get (ag_batches (drop_round ?i d ?r (release_all (ss @ own_semaphore msg) ?pub))) ?i = Some ?b'"
    by (simp add: after_publish_def after_run_def Let_def e)
  moreover have "ag_trace ?pub = ag_trace a @ [Gathered ?g, Barrier ?g, Ran ?i (Some (d, ?r)) bs True, Barrier ?g] @
      (if is_leader b a then [Signal (done_key ?i) (show_int ?r)] else []) @ [Barrier ?g]"
    by (simp add: after_publish_def after_run_def Let_def e lead)
  ultimately show ?thesis
    using ws sems unfolding e(1) run_round_runs [OF run2] e(2,6)
    by (intro exI [of _ "drop_round ?i d ?r (release_all (ss @ own_semaphore msg) ?pub)"] exI [of _ ws] exI [of _ ?b']) simp
qed

end
