(* ===== verification/Agent_Properties.thy ===== *)
theory Agent_Properties
  imports Round_Properties Pair_Properties
begin

text \<open>
  What the agent of \<^verbatim>\<open>agent.py\<close> guarantees its clients: a failure is recorded before the
  client is woken (both are events of the trace), cleanup and failed rounds fail closed, commands for an older registration of
  a batch change nothing, and the semaphore of every command is either released or kept with
  the work it waits for.
\<close>

section \<open>Failing closed\<close>

text \<open>The client of a semaphore has been woken, or had gone, and finds an error record that is not due to be dropped.\<close>

definition failed :: "string \<Rightarrow> agent \<Rightarrow> bool" where
  "failed s a \<longleftrightarrow> has_error s a \<and> dict_get (ag_command_error_times a) s = Some (ag_clock a) \<and>
     distinct (dict_keys (ag_command_error_times a)) \<and> s \<notin> set (ag_semaphores a)"

lemma failed_fresh:
  assumes "dict_get (ag_command_error_times a) s = Some (ag_clock a)" "distinct (dict_keys (ag_command_error_times a))"
  shows "fresh_record s a"
proof -
  have "t = ag_clock a" if "(s, t) \<in> set (ag_command_error_times a)" for t
    using assms that map_of_eq_Some_iff [of "ag_command_error_times a" s t] by (simp add: dict_keys_def)
  then show ?thesis by (auto simp: fresh_record_def expired_records_def)
qed

lemma distinct_delete: "distinct (dict_keys d) \<Longrightarrow> distinct (dict_keys (dict_del d k))"
  unfolding dict_keys_def by (rule distinct_delete)

lemma record_times_distinct: "distinct (dict_keys (ag_command_error_times a)) \<Longrightarrow> distinct (dict_keys (record_times s a))"
proof -
  assume d: "distinct (dict_keys (ag_command_error_times a))"
  have "distinct (dict_keys d) \<Longrightarrow> distinct (dict_keys (fold (\<lambda>x d. dict_del d x) ks d))" for ks and d :: "(string, nat) dict"
    by (induction ks arbitrary: d) (auto intro: distinct_delete)
  then show ?thesis using d by (simp add: record_times_def)
qed

lemma record_times_keep:
  assumes "t \<noteq> s" "t \<notin> set (expired_records a)"
  shows "dict_get (record_times s a) t = dict_get (ag_command_error_times a) t"
proof -
  have "t \<notin> set ks \<Longrightarrow> dict_get (fold (\<lambda>x d. dict_del d x) ks d) t = dict_get d t" for ks and d :: "(string, nat) dict"
    by (induction ks arbitrary: d) (auto simp: dict_get_del)
  then show ?thesis using assms by (simp add: record_times_def dict_simps)
qed

lemma failed_fail:
  assumes "distinct (dict_keys (ag_command_error_times a))"
  shows "failed s (fail_semaphore e s a)"
  unfolding failed_def fail_semaphore_def
  using has_error_record [of s e a] record_times_distinct [OF assms, of s] times_after_record [of s a]
  by (simp add: has_error_def record_command_error_def)

lemma failed_keep:
  assumes "failed t a"
  shows "failed t (fail_semaphore e s a)"
proof (cases "s = t")
  case True
  then show ?thesis using failed_fail assms by (simp add: failed_def)
next
  case False
  have fresh: "fresh_record t a" using assms failed_fresh by (simp add: failed_def)
  have "has_error t (fail_semaphore e s a)"
    using has_error_keep [OF _ fresh, of s e] assms False by (simp add: failed_def fail_semaphore_def has_error_def)
  moreover have "dict_get (record_times s a) t = Some (ag_clock a)"
    using record_times_keep [of t s a] fresh False assms by (simp add: failed_def fresh_record_def)
  moreover have "distinct (dict_keys (record_times s a))" using record_times_distinct assms by (simp add: failed_def)
  ultimately show ?thesis using assms by (simp add: failed_def fail_semaphore_def record_command_error_def)
qed

lemma fail_all_times: "distinct (dict_keys (ag_command_error_times a)) \<Longrightarrow> distinct (dict_keys (ag_command_error_times (fail_all e ss a)))"
  unfolding fail_all_def
  by (induction ss arbitrary: a) (auto simp: fail_semaphore_def record_command_error_def record_times_distinct)

lemma fail_all_failed:
  assumes "distinct (dict_keys (ag_command_error_times a))" "s \<in> set ss \<or> failed s a"
  shows "failed s (fail_all e ss a)"
  using assms
proof (induction ss arbitrary: a)
  case (Cons t ss)
  have "distinct (dict_keys (ag_command_error_times (fail_semaphore e t a)))"
    using Cons.prems(1) by (simp add: fail_semaphore_def record_command_error_def record_times_distinct)
  moreover have "s \<in> set ss \<or> failed s (fail_semaphore e t a)"
    using Cons.prems failed_fail failed_keep by auto
  ultimately show ?case using Cons.IH by (simp add: fail_all_def)
qed (simp add: fail_all_def)

lemma fail_all_keeps [simp]:
  "ag_batches (fail_all e ss a) = ag_batches a" "ag_store (fail_all e ss a) = ag_store a" "ag_rank (fail_all e ss a) = ag_rank a"
proof -
  have "ag_batches (fail_semaphore e s a) = ag_batches a \<and> ag_store (fail_semaphore e s a) = ag_store a \<and> ag_rank (fail_semaphore e s a) = ag_rank a" for s a
    by (simp add: fail_semaphore_def record_command_error_def release_semaphore_def emit_def)
  then show "ag_batches (fail_all e ss a) = ag_batches a" "ag_store (fail_all e ss a) = ag_store a" "ag_rank (fail_all e ss a) = ag_rank a"
    unfolding fail_all_def by (induction ss arbitrary: a) auto
qed

lemma failed_same: "failed s (emit e a) = failed s a" "failed s (signal k v a) = failed s a" "failed s (a\<lparr>ag_batches := bs\<rparr>) = failed s a"
  "failed s (update_batch i f a) = failed s a"
  by (simp_all add: failed_def has_error_def emit_def signal_def store_set_def update_batch_def split: option.split)

text \<open>
  The order the client depends on: its first wake-up in a stretch of the trace comes after the
  record of the error, so what it reads when it runs again is the error.
\<close>

definition told :: "string \<Rightarrow> py_error \<Rightarrow> effect list \<Rightarrow> bool" where
  "told s e tr \<longleftrightarrow> (\<exists>pre post. tr = pre @ Woke s # post \<and> Woke s \<notin> set pre \<and> Recorded s e \<in> set pre)"

lemma told_append: "told s e tr \<Longrightarrow> told s e (tr @ tr')"
  unfolding told_def by fastforce

lemma told_prepend:
  assumes "told s e tr" "Woke s \<notin> set tr0"
  shows "told s e (tr0 @ tr)"
proof -
  obtain pre post where "tr = pre @ Woke s # post" "Woke s \<notin> set pre" "Recorded s e \<in> set pre" using assms(1) by (auto simp: told_def)
  then show ?thesis unfolding told_def using assms(2) by (intro exI [of _ "tr0 @ pre"] exI [of _ post]) simp
qed

lemma fail_semaphore_trace:
  "ag_trace (fail_semaphore e s a) = ag_trace a @ Recorded s e # (if s \<in> set (ag_semaphores a) then [Woke s] else [])"
  by (simp add: fail_semaphore_def release_semaphore_def emit_def)

lemma fail_all_trace:
  "\<exists>tr. ag_trace (fail_all e ss a) = ag_trace a @ tr \<and> (\<forall>s. Woke s \<in> set tr \<longrightarrow> s \<in> set ss) \<and>
     (\<forall>s \<in> set ss. s \<in> set (ag_semaphores a) \<longrightarrow> told s e tr)"
proof (induction ss arbitrary: a)
  case (Cons t ss)
  let ?b = "fail_semaphore e t a" and ?own = "Recorded t e # (if t \<in> set (ag_semaphores a) then [Woke t] else [])"
  obtain tr where tr: "ag_trace (fail_all e ss ?b) = ag_trace ?b @ tr" "\<forall>s. Woke s \<in> set tr \<longrightarrow> s \<in> set ss"
    "\<forall>s \<in> set ss. s \<in> set (ag_semaphores ?b) \<longrightarrow> told s e tr" using Cons.IH [of ?b] by blast
  have "told s e (?own @ tr)" if "s \<in> set (t # ss)" "s \<in> set (ag_semaphores a)" for s
  proof (cases "s = t")
    case True
    then have "told s e ?own" using that(2) unfolding told_def by (intro exI [of _ "[Recorded t e]"] exI [of _ "[]"]) simp
    then show ?thesis by (rule told_append)
  next
    case False
    then have "told s e tr" using that tr(3) by (simp add: fail_semaphore_def)
    then show ?thesis using False by (intro told_prepend) auto
  qed
  then show ?case using tr(1,2) by (intro exI [of _ "?own @ tr"]) (auto simp: fail_all_def fail_semaphore_trace)
qed (simp add: fail_all_def)

text \<open>
  A client is failed by a step of the agent: afterwards it finds the error, which will not be
  dropped, and no semaphore; and if it was still waiting, the step has woken it, after the error
  was recorded.
\<close>

definition failed_since :: "string \<Rightarrow> py_error \<Rightarrow> agent \<Rightarrow> agent \<Rightarrow> bool" where
  "failed_since s e a a' \<longleftrightarrow> failed s a' \<and> (\<exists>tr. ag_trace a' = ag_trace a @ tr \<and> (s \<in> set (ag_semaphores a) \<longrightarrow> told s e tr))"

lemma fail_all_since:
  assumes "distinct (dict_keys (ag_command_error_times a))" "s \<in> set ss"
  shows "failed_since s e a (fail_all e ss a)"
  using fail_all_failed [OF assms(1), of s ss e] fail_all_trace [of e ss a] assms(2) unfolding failed_since_def by blast

lemma failed_since_grow:
  assumes "failed_since s e a b" "failed s c" "ag_trace c = ag_trace b @ tr"
  shows "failed_since s e a c"
  using assms told_append unfolding failed_since_def by fastforce

section \<open>Cleanup\<close>

lemma reset_keeps:
  "ag_batches (reset_dual_store_signals b a) = ag_batches a" "failed s (reset_dual_store_signals b a) = failed s a"
proof -
  have "ag_batches (fold (\<lambda>d. signal (k d) v) ds a) = ag_batches a \<and> failed s (fold (\<lambda>d. signal (k d) v) ds a) = failed s a" for k :: "direction \<Rightarrow> string" and v ds a
    by (induction ds arbitrary: a) (auto simp: failed_same)
  then show "ag_batches (reset_dual_store_signals b a) = ag_batches a" "failed s (reset_dual_store_signals b a) = failed s a"
    by (simp_all add: reset_dual_store_signals_def failed_same)
qed

lemma reset_trace: "\<exists>tr. ag_trace (reset_dual_store_signals b a) = ag_trace a @ tr"
proof -
  have "\<exists>tr. ag_trace (fold (\<lambda>d. signal (k d) v) ds a) = ag_trace a @ tr" for k :: "direction \<Rightarrow> string" and v ds a
  proof (induction ds arbitrary: a)
    case (Cons d ds)
    obtain tr where "ag_trace (fold (\<lambda>d. signal (k d) v) ds (signal (k d) v a)) = ag_trace (signal (k d) v a) @ tr" using Cons.IH by blast
    then show ?case by simp
  qed simp
  from this [of "request_key (b_batch_id b)" "''-1''" _ "signal (done_key (b_batch_id b)) ''-1'' a"]
  show ?thesis unfolding reset_dual_store_signals_def by fastforce
qed

lemma cleanup_state:
  assumes "dict_get (ag_batches a) (cc_batch_id msg) = Some b" "\<not> stale (cc_generation msg) b"
  shows "handle_cleanup_batch msg a = (Inr (),
    (let a1 = fail_all RuntimeError (parked_rounds b) (fail_all RuntimeError (b_pending_register_semaphores b) a);
         a2 = (if b_dual b \<and> is_leader b a1 then reset_dual_store_signals b a1 else a1)
     in a2\<lparr>ag_batches := dict_del (ag_batches a2) (cc_batch_id msg)\<rparr>))"
  using assms by (simp add: handle_cleanup_batch_def act_simps Let_def)

text \<open>
  C24. Cleanup fails closed: when the live batch is cleaned up, every command parked on it, whether
  a registration that waits for the other role or a transfer that waits for its round, finds an
  error record that will not be dropped and no semaphore; every one of them that was still waiting
  has been woken by the cleanup, and its first wake-up comes after the record of the error, so no
  blocked client takes the cleanup for success. The batch is gone and no other batch is touched. A
  cleanup for another generation of the batch changes nothing at all.
\<close>

theorem cleanup_fails_closed:
  assumes "dict_get (ag_batches a) (cc_batch_id msg) = Some b" "distinct (dict_keys (ag_command_error_times a))"
  shows "\<exists>a'. handle_cleanup_batch msg a = (Inr (), a') \<and>
    (if stale (cc_generation msg) b then a' = a
     else (\<forall>s \<in> set (b_pending_register_semaphores b) \<union> set (parked_rounds b). failed_since s RuntimeError a a') \<and>
       (\<forall>i. dict_get (ag_batches a') i = (if i = cc_batch_id msg then None else dict_get (ag_batches a) i)))"
proof (cases "stale (cc_generation msg) b")
  case True
  then show ?thesis using assms(1) by (simp add: handle_cleanup_batch_def act_simps)
next
  case False
  let ?a1 = "fail_all RuntimeError (parked_rounds b) (fail_all RuntimeError (b_pending_register_semaphores b) a)"
  let ?a2 = "if b_dual b \<and> is_leader b ?a1 then reset_dual_store_signals b ?a1 else ?a1"
  let ?a' = "?a2\<lparr>ag_batches := dict_del (ag_batches ?a2) (cc_batch_id msg)\<rparr>"
  have run: "handle_cleanup_batch msg a = (Inr (), ?a')" by (simp add: cleanup_state [OF assms(1) False] Let_def)
  have 1: "?a1 = fail_all RuntimeError (b_pending_register_semaphores b @ parked_rounds b) a" by (simp add: fail_all_def)
  have "failed_since s RuntimeError a ?a'" if "s \<in> set (b_pending_register_semaphores b) \<union> set (parked_rounds b)" for s
  proof -
    have f: "failed_since s RuntimeError a ?a1" unfolding 1 by (rule fail_all_since [OF assms(2)]) (use that in simp)
    then have "failed s ?a'" by (simp add: failed_since_def failed_same reset_keeps)
    moreover obtain tr where "ag_trace ?a' = ag_trace ?a1 @ tr" using reset_trace [of b ?a1] by fastforce
    ultimately show ?thesis by (rule failed_since_grow [OF f])
  qed
  moreover have "dict_get (ag_batches ?a') i = (if i = cc_batch_id msg then None else dict_get (ag_batches a) i)" for i
    by (simp add: reset_keeps dict_simps)
  ultimately show ?thesis using run False by (intro exI [of _ ?a']) simp
qed

section \<open>Failed rounds\<close>

text \<open>
  C33. A round that cannot run fails for both roles. Two commands of a dual batch meet in a round
  whose direction has no buckets, on the rank that leads its side, and the first one had announced
  the round: the request signal stood at the round's number or higher. Then the second command
  raises; the first role's parked command finds the error and, if it still waits, is woken after
  the error was recorded; nothing stays parked for the round; and the leader sets the request signal
  to the last completed round. So the signal, documented as monotonic and never reset, goes down.
\<close>

theorem failed_round_withdraws_request:
  assumes live: "dict_get (ag_batches a) (tc_batch_id msg) = Some b" "b_batch_id b = tc_batch_id msg" "b_dual b" "\<not> stale (tc_generation msg) b"
    and pair: "b_pair_names b = p # ps" "dict_get (ag_pairs a) p = Some pair" "transfer_direction msg pair = Inr (role, d)"
    and round: "b_dual_direction b = Some d" "0 \<le> tc_sync_round msg" "done_round b d < tc_sync_round msg"
    and other: "dict_get (b_dual_round_pending b) (d, tc_sync_round msg) = Some \<lparr>rp_roles = [other], rp_semaphores = ss\<rparr>" "other \<noteq> role"
    and fail: "dict_get (b_dual_direction_buckets b) d \<in> {None, Some None}"
    and leader: "is_leader b a" and times: "distinct (dict_keys (ag_command_error_times a))"
    and announced: "stored_round (request_key (tc_batch_id msg) d) a = Inr announced_round" "tc_sync_round msg \<le> announced_round"
  shows "\<exists>a' b'. handle_transfer env msg a = (Inl InvalidRegistrationError, a') \<and>
    stored_round (request_key (tc_batch_id msg) d) a' = Inr (done_round b d) \<and> done_round b d < announced_round \<and>
    dict_get (ag_batches a') (tc_batch_id msg) = Some b' \<and> dict_get (b_dual_round_pending b') (d, tc_sync_round msg) = None \<and>
    (\<forall>s \<in> set ss. Some s \<noteq> tc_semaphore msg \<longrightarrow> failed_since s InvalidRegistrationError a a')"
proof -
  let ?r = "tc_sync_round msg" and ?i = "tc_batch_id msg"
  obtain ro where role: "tc_role msg = Some ro" using pair(3) by (auto simp: transfer_direction_def split: option.splits)
  have h: "handle_transfer env msg a = enter_round env b role d msg a"
    using live pair round role
    by (simp add: handle_transfer_def execute_dual_transfer_def act_simps py_nth_def lookup_def pin_direction_def Let_def)
  obtain b2 a2 where e: "enter_round env b role d msg a = run_round env b2 d msg a2" "b_batch_id b2 = ?i" "b_local_leader b2 = b_local_leader b"
    "b_dual_direction_buckets b2 = b_dual_direction_buckets b" "rp_semaphores (pending_round b2 d ?r) = ss @ own_semaphore msg"
    "ag_rank a2 = ag_rank a" "dict_get (ag_batches a2) ?i = Some b2" "done_round b2 d = done_round b d"
    "ag_command_error_times a2 = ag_command_error_times a" "ag_trace a2 = ag_trace a" "ag_semaphores a2 = ag_semaphores a"
    using enter_round_second [of a b d msg other ss role env] live(1,2) other by auto
  let ?parked = "filter (\<lambda>s. Some s \<noteq> tc_semaphore msg) (ss @ own_semaphore msg)"
  let ?a3 = "fail_all InvalidRegistrationError ?parked (drop_round ?i d ?r a2)"
  let ?a' = "signal (request_key ?i d) (show_int (done_round b d)) ?a3"
  have lead: "is_leader b2 x = is_leader b a" if "ag_rank x = ag_rank a2" for x using e(3,6) that by (simp add: is_leader_def)
  have "run_round env b2 d msg a2 = fail_round b2 d msg InvalidRegistrationError a2"
    using fail e(4) by (auto simp: run_round_def Let_def split: option.split)
  also have "\<dots> = (Inl InvalidRegistrationError, ?a')"
    using leader lead by (simp add: fail_round_def Let_def act_simps e drop_round_def)
  finally have res: "handle_transfer env msg a = (Inl InvalidRegistrationError, ?a')" using h e(1) by simp
  have "distinct (dict_keys (ag_command_error_times (drop_round ?i d ?r a2)))"
    using times e(9) by (simp add: drop_round_def update_batch_def split: option.split)
  then have f: "failed_since s InvalidRegistrationError (drop_round ?i d ?r a2) ?a3" if "s \<in> set ss" "Some s \<noteq> tc_semaphore msg" for s
    using that by (intro fail_all_since) auto
  have "failed_since s InvalidRegistrationError a ?a'" if "s \<in> set ss" "Some s \<noteq> tc_semaphore msg" for s
  proof -
    have "failed s ?a'" using f [OF that] by (simp add: failed_since_def failed_same)
    then have "failed_since s InvalidRegistrationError (drop_round ?i d ?r a2) ?a'" by (rule failed_since_grow [OF f [OF that]]) simp
    moreover have "ag_semaphores (drop_round ?i d ?r a2) = ag_semaphores a" "ag_trace (drop_round ?i d ?r a2) = ag_trace a"
      using e(10,11) by (simp_all add: drop_round_def)
    ultimately show ?thesis by (simp only: failed_since_def)
  qed
  then have "\<forall>s \<in> set ss. Some s \<noteq> tc_semaphore msg \<longrightarrow> failed_since s InvalidRegistrationError a ?a'" by blast
  moreover have "done_round b d < announced_round" using round(3) announced(2) by linarith
  moreover have "stored_round (request_key ?i d) ?a' = Inr (done_round b d)" by (simp add: stored_round_def tcp_get_global read_show_int)
  moreover have "dict_get (ag_batches ?a') ?i = Some (b2\<lparr>b_dual_round_pending := dict_del (b_dual_round_pending b2) (d, ?r)\<rparr>)"
    using e(7) by simp
  ultimately show ?thesis using res by (intro exI [of _ ?a'] exI) (auto simp: dict_simps)
qed

section \<open>Generations\<close>

text \<open>
  C25. Commands of an earlier registration are inert: a batch registered anew under an id gets a
  generation different from every one given before for this id, and a transfer, a query or a
  cleanup that carries one of those leaves the batches, the store and all waiting commands as
  they are; the transfer is refused and the query answers that nothing has happened.
\<close>

theorem stale_commands_inert:
  assumes "dict_get (ag_batches a) bid = Some b" "b_generation b = fst (next_batch_generation bid a0)"
    and "0 < k" "k \<le> dict_get_or (ag_batch_generation a0) bid 0"
    and "tc_batch_id t = bid" "tc_generation t = k" "cc_batch_id c = bid" "cc_generation c = k" "qc_batch_id q = bid" "qc_generation q = k"
  shows "handle_transfer env t a = (Inl InvalidRegistrationError, a) \<and> handle_cleanup_batch c a = (Inr (), a) \<and>
    handle_query_status q a = (Inr (), answer_query q (if qc_state_name q = ''transfer_signal'' then Flag False else Scalar (-1)) a)"
proof -
  have "stale k b" using assms(2-4) by (simp add: stale_def next_batch_generation_def Let_def)
  then show ?thesis
    using assms(1,5-) by (simp add: handle_transfer_def handle_cleanup_batch_def handle_query_status_def act_simps Let_def)
qed


section \<open>Handlers that return\<close>

lemma bind_Inr: "act_bind m f a = (Inr y, a') \<longleftrightarrow> (\<exists>x a1. m a = (Inr x, a1) \<and> f x a1 = (Inr y, a'))"
  by (auto simp: act_bind_def split: prod.splits sum.splits)

lemma modify_Inr: "act_modify g a = (Inr x, a') \<longleftrightarrow> a' = g a"
  by (auto simp: act_modify_def)

lemma return_Inr: "act_return x a = (Inr y, a') \<longleftrightarrow> y = x \<and> a' = a"
  by (auto simp: act_return_def)

lemma catch_Inr: "act_catch m (\<lambda>e. act_bind (g e) (\<lambda>_. act_raise e)) a = (Inr y, a') \<longleftrightarrow> m a = (Inr y, a')"
  by (cases "m a"; cases "fst (m a)") (auto simp: act_catch_def act_bind_def act_raise_def split: prod.splits sum.splits)

lemmas act_Inr = catch_Inr bind_Inr modify_Inr return_Inr lookup_result

section \<open>A concrete pair\<close>

text \<open>One rank holds both roles; the trainer's side of round 0 has arrived and waits.\<close>

abbreviation sample_direction :: direction where
  "sample_direction \<equiv> (''train'', ''infer'')"

definition sample_pair :: pair_state where
  "sample_pair = make_pair_state (sample_pending ''infer'' ''train'') (sample_sides [0] [0])
     \<lparr>t_pair_group = 0, t_groups = (0, 0), t_maps = (None, None), t_partials = None, t_shapes = ([], [])\<rparr>"

definition sample_batch :: "bucket list option \<Rightarrow> batch_state" where
  "sample_batch bs = (new_batch ''B'' [''w''] None True 2)
     \<lparr>b_local_leader := Some 0, b_dual_direction_buckets := [(sample_direction, bs)], b_dual_direction := Some sample_direction,
      b_dual_round_pending := [((sample_direction, 0), \<lparr>rp_roles = [''train''], rp_semaphores = [''s1'']\<rparr>)],
      b_pending_register_semaphores := [''s0'']\<rparr>"

definition sample_agent :: "bucket list option \<Rightarrow> agent" where
  "sample_agent bs = (idle_agent 0 1)\<lparr>ag_pairs := [(''w'', sample_pair)], ag_batches := [(''B'', sample_batch bs)],
     ag_semaphores := [''s0'', ''s1'', ''s2'']\<rparr>"

definition sample_transfer :: "nat \<Rightarrow> transfer_cmd" where
  "sample_transfer gen = \<lparr>tc_semaphore = Some ''s2'', tc_batch_id = ''B'', tc_transfer_type = Recv, tc_role = Some ''infer'',
     tc_sync_round = 0, tc_generation = gen\<rparr>"

definition sample_cleanup :: "nat \<Rightarrow> cleanup_cmd" where
  "sample_cleanup gen = \<lparr>cc_semaphore = None, cc_batch_id = ''B'', cc_generation = gen\<rparr>"

definition sample_query :: "nat \<Rightarrow> query_cmd" where
  "sample_query gen = \<lparr>qc_semaphore = None, qc_batch_id = ''B'', qc_state_name = ''transfer_signal_round'', qc_generation = gen\<rparr>"

lemma sample_lookup [simp]:
  "dict_get (ag_batches (sample_agent bs)) ''B'' = Some (sample_batch bs)" "dict_get (ag_pairs (sample_agent bs)) ''w'' = Some sample_pair"
  "ag_semaphores (sample_agent bs) = [''s0'', ''s1'', ''s2'']" "ag_command_error_times (sample_agent bs) = []" "ag_trace (sample_agent bs) = []"
  "ag_rank (sample_agent bs) = 0"
  by (simp_all add: sample_agent_def idle_agent_def)

lemma sample_direction_of [simp]: "transfer_direction (sample_transfer g) sample_pair = Inr (''infer'', sample_direction)"
  by code_simp

lemma sample_batch_fields [simp]:
  "b_batch_id (sample_batch bs) = ''B''" "b_pair_names (sample_batch bs) = [''w'']" "b_dual (sample_batch bs)" "b_generation (sample_batch bs) = 2"
  "b_dual_direction (sample_batch bs) = Some sample_direction" "b_dual_direction_buckets (sample_batch bs) = [(sample_direction, bs)]"
  "b_dual_round_pending (sample_batch bs) = [((sample_direction, 0), \<lparr>rp_roles = [''train''], rp_semaphores = [''s1'']\<rparr>)]"
  "done_round (sample_batch bs) d = -1" "is_leader (sample_batch bs) (sample_agent bs)" "b_pending_register_semaphores (sample_batch bs) = [''s0'']"
  by (simp_all add: sample_batch_def new_batch_def done_round_def is_leader_def dict_get_or_def)

lemma sample_transfer_fields [simp]:
  "tc_batch_id (sample_transfer g) = ''B''" "tc_sync_round (sample_transfer g) = 0" "tc_generation (sample_transfer g) = g" "tc_semaphore (sample_transfer g) = Some ''s2''"
  by (simp_all add: sample_transfer_def)

theorem dual_rounds_ascend_witness:
  "sorted_wrt (<) (-1 # executed ''B'' sample_direction
     (run_transfers [(sample_outside, sample_transfer 2), (sample_outside, sample_transfer 2)] (sample_agent (Some []))))"
proof -
  have "batches_ok (sample_agent (Some []))" by (simp add: batches_ok_def sample_agent_def idle_agent_def sample_batch_def new_batch_def)
  moreover have "executed ''B'' sample_direction (sample_agent (Some [])) = []" by (simp add: executed_def ran_rounds_def)
  ultimately show ?thesis
    using dual_rounds_ascend [of "sample_agent (Some [])" "''B''" "sample_batch (Some [])" sample_direction
        "[(sample_outside, sample_transfer 2), (sample_outside, sample_transfer 2)]"] by auto
qed

theorem dual_round_executes_witness:
  "fst (handle_transfer sample_outside (sample_transfer 2) (sample_agent (Some []))) = Inr True"
proof -
  have "runnable sample_outside (sample_batch (Some [])) sample_direction (tc_sync_round (sample_transfer 2)) []"
    by (simp add: runnable_def sample_outside_def)
  then have "\<exists>a'. handle_transfer sample_outside (sample_transfer 2) (sample_agent (Some [])) = (Inr True, a')"
    using dual_round_executes [of "sample_agent (Some [])" "sample_transfer 2" "sample_batch (Some [])" "''w''" "[]" sample_pair "''infer''"
        sample_direction "''train''" "[''s1'']" sample_outside "[]"]
    by (simp add: stale_def) blast
  then show ?thesis by auto
qed

theorem cleanup_fails_closed_witness:
  "failed_since ''s0'' RuntimeError (sample_agent None) (snd (handle_cleanup_batch (sample_cleanup 2) (sample_agent None))) \<and>
   failed_since ''s1'' RuntimeError (sample_agent None) (snd (handle_cleanup_batch (sample_cleanup 0) (sample_agent None)))"
  using cleanup_fails_closed [of "sample_agent None" "sample_cleanup 2" "sample_batch None"]
    cleanup_fails_closed [of "sample_agent None" "sample_cleanup 0" "sample_batch None"]
  by (auto simp: sample_cleanup_def stale_def parked_rounds_def dict_keys_def)

text \<open>The first command had announced round 0.\<close>

definition announced_agent :: agent where
  "announced_agent = store_set (request_key ''B'' sample_direction) ''0'' (Some ''global'') (sample_agent None)"

lemma announced_fields [simp]:
  "ag_batches announced_agent = ag_batches (sample_agent None)" "ag_pairs announced_agent = ag_pairs (sample_agent None)"
  "ag_command_error_times announced_agent = []" "is_leader (sample_batch None) announced_agent"
  by (simp_all add: announced_agent_def store_set_def is_leader_def sample_batch_def)

theorem failed_round_withdraws_request_witness:
  "fst (handle_transfer sample_outside (sample_transfer 2) announced_agent) = Inl InvalidRegistrationError"
proof -
  have "stored_round (request_key ''B'' sample_direction) announced_agent = Inr 0" by code_simp
  then show ?thesis
    using failed_round_withdraws_request [of announced_agent "sample_transfer 2" "sample_batch None" "''w''" "[]" sample_pair "''infer''" sample_direction
        "''train''" "[''s1'']" 0 sample_outside]
    by (auto simp: stale_def dict_keys_def)
qed

theorem stale_commands_inert_witness:
  "handle_transfer sample_outside (sample_transfer 1) (sample_agent None) = (Inl InvalidRegistrationError, sample_agent None)"
  using stale_commands_inert [of "sample_agent None" "''B''" "sample_batch None" "(idle_agent 0 1)\<lparr>ag_batch_generation := [(''B'', 1)]\<rparr>" 1
      "sample_transfer 1" "sample_cleanup 1" "sample_query 1" sample_outside]
  by (simp add: next_batch_generation_def sample_cleanup_def sample_query_def dict_get_or_def)

end
