(* ===== verification/Client.thy ===== *)
theory Client
  imports Agent_Properties
begin

text \<open>
  \<^verbatim>\<open>client.py\<close>: the host side of the tensor bus. A client and its
  agent share the command queue, the named semaphores and the state database, which are part of
  the system state here; while a client waits, the agent takes steps of its main loop. How many
  it takes before the client's timeout, the pickling of tensors and meshes and the encoding of
  commands are parameters.
\<close>

section \<open>The system\<close>

record system =
  sy_agent :: agent
  sy_queue :: command_queue
  sy_state_open :: bool            \<comment> \<open>the client's \<open>state_env\<close> is not None\<close>

record host =
  h_outside :: outside
  h_poll_fuel :: nat
  h_encode :: "message \<Rightarrow> bytes"
  h_decode :: "bytes \<Rightarrow> message option"
  h_dump_tensor :: "tensor \<Rightarrow> string"
  h_dump_shape :: "nat list \<Rightarrow> string"
  h_dump_placements :: "placement list \<Rightarrow> string"
  h_pid :: nat
  h_uuid :: string                 \<comment> \<open>\<open>uuid.uuid4().hex\<close> of the call\<close>
  h_wait :: nat                    \<comment> \<open>steps of the agent while the client waits for room in the queue\<close>
  h_steps :: nat                   \<comment> \<open>steps of the agent before the client's timeout\<close>

type_synonym 'a call = "system \<Rightarrow> 'a answer \<times> system"

definition call_return :: "'a \<Rightarrow> 'a call" where
  "call_return x s = (Answer (Inr x), s)"

definition call_raise :: "py_error \<Rightarrow> 'a call" where
  "call_raise e s = (Answer (Inl e), s)"

definition call_bind :: "'a call \<Rightarrow> ('a \<Rightarrow> 'b call) \<Rightarrow> 'b call" where
  "call_bind m f s =
     (case m s of
        (Answer (Inl e), s') \<Rightarrow> (Answer (Inl e), s')
      | (Answer (Inr x), s') \<Rightarrow> f x s'
      | (Waiting, s') \<Rightarrow> (Waiting, s'))"

named_theorems call_simps \<open>unfolding of client calls\<close>

lemmas call_defs [call_simps] = call_return_def call_raise_def call_bind_def

text \<open>The agent's main loop for a number of iterations; an exception ends the process.\<close>

fun agent_serves :: "host \<Rightarrow> nat \<Rightarrow> agent \<times> command_queue \<Rightarrow> agent \<times> command_queue" where
  "agent_serves h 0 s = s"
| "agent_serves h (Suc n) s =
     (case step (h_outside h) (h_poll_fuel h) (h_decode h) s of
        (Inl e, s') \<Rightarrow> s'
      | (Inr _, s') \<Rightarrow> agent_serves h n s')"

definition let_agent :: "host \<Rightarrow> nat \<Rightarrow> system \<Rightarrow> system" where
  "let_agent h n s = (case agent_serves h n (sy_agent s, sy_queue s) of (a, q) \<Rightarrow> s\<lparr>sy_agent := a, sy_queue := q\<rparr>)"

section \<open>Commands with a semaphore\<close>

definition safe_context :: "string \<Rightarrow> string" where
  "safe_context ctx = map (\<lambda>c. if c = CHR ''/'' \<or> c = CHR '':'' then CHR ''_'' else c) ctx"

definition generate_semaphore_name :: "host \<Rightarrow> string \<Rightarrow> string \<Rightarrow> string" where
  "generate_semaphore_name h command_type context_id =
     ''/command_'' @ command_type @ ''_'' @ safe_context context_id @ ''_'' @ show_nat (h_pid h) @ ''_'' @ h_uuid h"

fun with_semaphore :: "string \<Rightarrow> message \<Rightarrow> message" where
  "with_semaphore s (Transfer c) = Transfer (c\<lparr>tc_semaphore := Some s\<rparr>)"
| "with_semaphore s (RegisterTensors c) = RegisterTensors (c\<lparr>rc_semaphore := Some s\<rparr>)"
| "with_semaphore s (InitPair c) = InitPair (c\<lparr>ic_semaphore := Some s\<rparr>)"
| "with_semaphore s (QueryStatus c) = QueryStatus (c\<lparr>qc_semaphore := Some s\<rparr>)"
| "with_semaphore s (CleanupBatch c) = CleanupBatch (c\<lparr>cc_semaphore := Some s\<rparr>)"

definition create_semaphore :: "string \<Rightarrow> system \<Rightarrow> system" where
  "create_semaphore n s = s\<lparr>sy_agent := (sy_agent s)\<lparr>ag_semaphores := List.insert n (ag_semaphores (sy_agent s))\<rparr>\<rparr>"

definition try_enqueue :: "host \<Rightarrow> message \<Rightarrow> nat call" where
  "try_enqueue h msg s = (case enqueue (h_encode h) Forever msg (sy_queue s) of (r, q) \<Rightarrow> (r, s\<lparr>sy_queue := q\<rparr>))"

text \<open>\<open>enqueue\<close> with its default arguments waits for ever when the queue is full, while the agent empties it.\<close>

definition send_command :: "host \<Rightarrow> message \<Rightarrow> nat call" where
  "send_command h msg s =
     (case try_enqueue h msg s of
        (Waiting, s') \<Rightarrow> try_enqueue h msg (let_agent h (h_wait h) s')
      | r \<Rightarrow> r)"

definition raise_command_error :: "string \<Rightarrow> unit call" where
  "raise_command_error n s =
     (if \<not> sy_state_open s then call_raise RuntimeError s
      else if dict_get (ag_state_db (sy_agent s)) (command_error_key n) \<noteq> None then call_raise RuntimeError s
      else call_return () s)"

definition await_semaphore :: "host \<Rightarrow> string \<Rightarrow> unit call" where
  "await_semaphore h n s =
     (let s1 = let_agent h (h_steps h) s in
      if n \<in> set (ag_semaphores (sy_agent s1)) then call_raise TimeoutError s1
      else raise_command_error n s1)"

definition execute_command_with_semaphore :: "host \<Rightarrow> message \<Rightarrow> string \<Rightarrow> string \<Rightarrow> bool \<Rightarrow> string call" where
  "execute_command_with_semaphore h command command_type context_id blocking =
     (let n = generate_semaphore_name h command_type context_id in
      (\<lambda>s. call_bind (send_command h (with_semaphore n command)) (\<lambda>_.
        call_bind (if blocking then await_semaphore h n else call_return ()) (\<lambda>_. call_return n)) (create_semaphore n s)))"

section \<open>The client's operations\<close>

text \<open>What a client reads back from the state database.\<close>

definition read_state :: "string \<Rightarrow> state_value option call" where
  "read_state key s = (if sy_state_open s then call_return (dict_get (ag_state_db (sy_agent s)) key) s else call_raise RuntimeError s)"

definition init_pair ::
  "host \<Rightarrow> string \<Rightarrow> string \<Rightarrow> string \<Rightarrow> nat \<Rightarrow> nat list option \<Rightarrow> placement list option \<Rightarrow> bool \<Rightarrow> unit call" where
  "init_pair h pair_name local_name remote_name expected_world_size shape placements blocking =
     (let msg = InitPair \<lparr>ic_semaphore = None, ic_pair_name = pair_name, ic_local_name = local_name,
        ic_expected_world_size = expected_world_size, ic_remote_name = remote_name,
        ic_mesh_shape_payload = map_option (h_dump_shape h) shape, ic_placements_payload = map_option (h_dump_placements h) placements\<rparr> in
      call_bind (execute_command_with_semaphore h msg ''register'' pair_name blocking) (\<lambda>_.
      call_bind (read_state (''pair:'' @ pair_name @ ''/state:match'')) (\<lambda>v.
      case v of
        None \<Rightarrow> call_return ()
      | Some x \<Rightarrow> if x = Text ''matched'' then call_return () else call_raise RuntimeError)))"

definition client_transfer :: "host \<Rightarrow> string \<Rightarrow> transfer_type \<Rightarrow> bool \<Rightarrow> string option \<Rightarrow> int \<Rightarrow> string call" where
  "client_transfer h batch_id ty blocking role sync_round =
     execute_command_with_semaphore h
       (Transfer \<lparr>tc_semaphore = None, tc_batch_id = batch_id, tc_transfer_type = ty, tc_role = role, tc_sync_round = sync_round, tc_generation = 0\<rparr>)
       ''transfer'' batch_id blocking"

text \<open>Decoding a stored answer as a number or a truth value; another kind of value does not decode.\<close>

definition decode_int :: "state_value option \<Rightarrow> int call" where
  "decode_int v = (case v of None \<Rightarrow> call_return (-1) | Some (Scalar i) \<Rightarrow> call_return i | Some _ \<Rightarrow> call_raise ValueError)"

definition decode_bool :: "state_value option \<Rightarrow> bool call" where
  "decode_bool v = (case v of None \<Rightarrow> call_return False | Some (Flag b) \<Rightarrow> call_return b | Some _ \<Rightarrow> call_raise ValueError)"

definition query_status :: "host \<Rightarrow> string \<Rightarrow> string \<Rightarrow> nat \<Rightarrow> state_value option call" where
  "query_status h batch_id state_name gen =
     call_bind (execute_command_with_semaphore h
       (QueryStatus \<lparr>qc_semaphore = None, qc_batch_id = batch_id, qc_state_name = state_name, qc_generation = gen\<rparr>)
       ''query'' (''batch_'' @ batch_id) True) (\<lambda>n. read_state (command_result_key n))"

definition query_transfer_signal :: "host \<Rightarrow> string \<Rightarrow> int option \<Rightarrow> nat \<Rightarrow> bool call" where
  "query_transfer_signal h batch_id sync_round gen =
     (case sync_round of
        None \<Rightarrow> call_bind (query_status h batch_id ''transfer_signal'' gen) decode_bool
      | Some r \<Rightarrow>
          call_bind (query_status h batch_id ''transfer_signal_round'' gen) (\<lambda>v.
          call_bind (decode_int v) (\<lambda>completed_round. call_return (r \<le> completed_round))))"

definition query_transfer_request :: "host \<Rightarrow> string \<Rightarrow> direction \<Rightarrow> int \<Rightarrow> nat \<Rightarrow> bool call" where
  "query_transfer_request h batch_id d sync_round gen =
     call_bind (query_status h batch_id (''transfer_request_round:'' @ fst d @ ''->'' @ snd d) gen) (\<lambda>v.
     call_bind (decode_int v) (\<lambda>requested. call_return (requested = sync_round)))"

section \<open>Batch handlers\<close>

record batch_handler =
  bh_batch_id :: string
  bh_pair_names :: "string list"
  bh_generation :: nat
  bh_closed :: bool
  bh_client_alive :: bool          \<comment> \<open>the weak reference to the client is live\<close>

fun first_occurrences :: "'a list \<Rightarrow> 'a list" where
  "first_occurrences [] = []"
| "first_occurrences (x # xs) = x # first_occurrences (filter (\<lambda>y. y \<noteq> x) xs)"

definition register_tensors :: "host \<Rightarrow> string \<Rightarrow> (tensor \<times> string) list \<Rightarrow> nat option \<Rightarrow> string option \<Rightarrow> batch_handler call" where
  "register_tensors h batch_id tensors bucket_size role =
     (let msg = RegisterTensors \<lparr>rc_semaphore = None, rc_batch_id = batch_id,
        rc_tensors = map (\<lambda>(t, pair_name). (pair_name, h_dump_tensor h t)) tensors, rc_bucket_size = bucket_size, rc_role = role\<rparr> in
      call_bind (execute_command_with_semaphore h msg ''register_tensors'' (''batch_'' @ batch_id) True) (\<lambda>n s.
      let v = (if sy_state_open s then dict_get (ag_state_db (sy_agent s)) (command_result_key n) else None) in
      call_bind (case v of None \<Rightarrow> call_return 0 | Some (Scalar i) \<Rightarrow> call_return (nat i) | Some _ \<Rightarrow> call_raise ValueError) (\<lambda>gen.
      call_return \<lparr>bh_batch_id = batch_id, bh_pair_names = first_occurrences (map snd tensors), bh_generation = gen,
        bh_closed = False, bh_client_alive = True\<rparr>) s))"

definition handler_client :: "batch_handler \<Rightarrow> unit call" where
  "handler_client b = (if bh_client_alive b then call_return () else call_raise RuntimeError)"

definition handler_transfer :: "host \<Rightarrow> batch_handler \<Rightarrow> transfer_type \<Rightarrow> bool \<Rightarrow> string option \<Rightarrow> int \<Rightarrow> string call" where
  "handler_transfer h b ty blocking role sync_round =
     (if bh_closed b then call_raise RuntimeError
      else call_bind (handler_client b) (\<lambda>_.
        execute_command_with_semaphore h
          (Transfer \<lparr>tc_semaphore = None, tc_batch_id = bh_batch_id b, tc_transfer_type = ty, tc_role = role, tc_sync_round = sync_round,
            tc_generation = bh_generation b\<rparr>)
          ''transfer'' (''batch_'' @ bh_batch_id b @ ''_'' @ (if ty = Send then ''send'' else ''recv'')) blocking))"

definition handler_query_signal :: "host \<Rightarrow> batch_handler \<Rightarrow> int option \<Rightarrow> bool call" where
  "handler_query_signal h b sync_round =
     call_bind (handler_client b) (\<lambda>_. query_transfer_signal h (bh_batch_id b) sync_round (bh_generation b))"

definition handler_query_request :: "host \<Rightarrow> batch_handler \<Rightarrow> direction \<Rightarrow> int \<Rightarrow> bool call" where
  "handler_query_request h b d sync_round =
     call_bind (handler_client b) (\<lambda>_. query_transfer_request h (bh_batch_id b) d sync_round (bh_generation b))"

text \<open>\<open>close\<close> returns the handler; it is marked closed only after the command has gone through.\<close>

definition handler_close :: "host \<Rightarrow> batch_handler \<Rightarrow> bool \<Rightarrow> batch_handler call" where
  "handler_close h b blocking =
     (if bh_closed b then call_return b
      else call_bind (handler_client b) (\<lambda>_.
        call_bind (execute_command_with_semaphore h
          (CleanupBatch \<lparr>cc_semaphore = None, cc_batch_id = bh_batch_id b, cc_generation = bh_generation b\<rparr>)
          ''cleanup_batch'' (''batch_'' @ bh_batch_id b) blocking) (\<lambda>_. call_return (b\<lparr>bh_closed := True\<rparr>))))"

text \<open>\<open>__del__\<close> closes without waiting and swallows every exception.\<close>

definition handler_del :: "host \<Rightarrow> batch_handler \<Rightarrow> unit call" where
  "handler_del h b s =
     (case handler_close h b False s of
        (Answer _, s') \<Rightarrow> (Answer (Inr ()), s')
      | (Waiting, s') \<Rightarrow> (Waiting, s'))"

end
