(* ===== verification/Client_Properties.thy ===== *)
theory Client_Properties
  imports Client
begin

text \<open>
  What a host sees: commands travel through the queue to the agent and its answer back through
  the state database. The statements run the client's call, the queue and the agent's loop
  together.
\<close>

section \<open>One command through the queue\<close>

lemma heartbeat_simps [simp]:
  "ag_pending_pairs (update_heartbeat a) = ag_pending_pairs a" "ag_batches (update_heartbeat a) = ag_batches a" "ag_store (update_heartbeat a) = ag_store a"
  "ag_semaphores (update_heartbeat a) = ag_semaphores a" "ag_command_error_times (update_heartbeat a) = ag_command_error_times a"
  "ag_clock (update_heartbeat a) = ag_clock a" "ag_pairs (update_heartbeat a) = ag_pairs a" "ag_rank (update_heartbeat a) = ag_rank a"
  "dict_get (ag_state_db (update_heartbeat a)) k = (if k = ''agent:heartbeat'' then Some (Time (ag_clock a)) else dict_get (ag_state_db a) k)"
  by (simp_all add: update_heartbeat_def dict_simps)

lemma record_keys [simp]: "command_error_key s \<noteq> ''agent:heartbeat''" "command_result_key s \<noteq> ''agent:heartbeat''"
  by (simp_all add: command_error_key_def command_result_key_def)

text \<open>The agent as a client sees it: everything but the heartbeat.\<close>

definition same_but_heartbeat :: "agent \<Rightarrow> agent \<Rightarrow> bool" where
  "same_but_heartbeat a a' \<longleftrightarrow> ag_batches a' = ag_batches a \<and> ag_store a' = ag_store a \<and> ag_semaphores a' = ag_semaphores a \<and>
     ag_pending_pairs a' = ag_pending_pairs a \<and> (\<forall>k. k \<noteq> ''agent:heartbeat'' \<longrightarrow> dict_get (ag_state_db a') k = dict_get (ag_state_db a) k)"

lemma same_but_heartbeat_refl [simp]: "same_but_heartbeat a a" "same_but_heartbeat a (update_heartbeat a)"
  by (simp_all add: same_but_heartbeat_def)

lemma same_but_heartbeat_trans: "same_but_heartbeat a b \<Longrightarrow> same_but_heartbeat b c \<Longrightarrow> same_but_heartbeat a c"
  by (simp add: same_but_heartbeat_def)

lemma dequeue_idle:
  assumes "represents dec q p []"
  shows "\<exists>q'. dequeue dec (Some Timed) q = (Answer (Inr None), q') \<and> represents dec q' p []"
proof -
  have "holds dec (q\<lparr>q_sem := n\<rparr>) p []" for n using assms by (simp add: represents_def)
  then have "dequeue_txn dec (q\<lparr>q_sem := n\<rparr>) = (Inr None, q\<lparr>q_sem := n\<rparr>)" for n by (rule dequeue_txn_empty)
  then show ?thesis using assms by (auto simp: dequeue_def acquire_def represents_def)
qed

lemma serves_idle:
  "represents (h_decode h) q p [] \<Longrightarrow> ag_pending_pairs a = [] \<Longrightarrow>
     \<exists>a' q'. agent_serves h n (a, q) = (a', q') \<and> same_but_heartbeat a a' \<and> represents (h_decode h) q' p []"
proof (induction n arbitrary: a q)
  case (Suc n)
  obtain q' where "dequeue (h_decode h) (Some Timed) q = (Answer (Inr None), q')" "represents (h_decode h) q' p []"
    using dequeue_idle [OF Suc.prems(1)] by blast
  then show ?case
    using Suc.IH [of q' "update_heartbeat a"] Suc.prems(2) same_but_heartbeat_trans [OF same_but_heartbeat_refl(2)]
    by (auto simp: step_def poll_if_pending_def act_simps)
qed simp

lemma serves_one:
  assumes "represents (h_decode h) q p [m]" "ag_pending_pairs a = []" "0 < n"
    and "execute_command (h_outside h) m (update_heartbeat a) = (Inr (), a2)" "ag_pending_pairs a2 = []"
  shows "\<exists>a' q'. agent_serves h n (a, q) = (a', q') \<and> same_but_heartbeat a2 a' \<and> represents (h_decode h) q' (p + 1) []"
proof -
  obtain k where n: "n = Suc k" using assms(3) by (cases n) auto
  obtain q' where q': "dequeue (h_decode h) (Some Timed) q = (Answer (Inr (Some m)), q')" "represents (h_decode h) q' (p + 1) []"
    using dequeue_ok [OF assms(1)] by blast
  have "step (h_outside h) (h_poll_fuel h) (h_decode h) (a, q) = (Inr True, a2, q')"
    using assms(2,4,5) q'(1) by (simp add: step_def poll_if_pending_def act_simps)
  then show ?thesis using serves_idle [OF q'(2) assms(5), of k] by (simp add: n)
qed

text \<open>The state in which a client's call finds the system: nothing queued, no pair pending, no record under the call's name.\<close>

definition ready_for :: "host \<Rightarrow> string \<Rightarrow> system \<Rightarrow> bool" where
  "ready_for h n s \<longleftrightarrow> (\<exists>p. represents (h_decode h) (sy_queue s) p [] \<and> p + 1 < 2 ^ 64) \<and>
     ag_pending_pairs (sy_agent s) = [] \<and> sy_state_open s \<and> 0 < h_steps h \<and> dict_get (ag_state_db (sy_agent s)) (command_error_key n) = None"

text \<open>The documented round trip of the message codec, for one message.\<close>

definition understood :: "host \<Rightarrow> message \<Rightarrow> bool" where
  "understood h m \<longleftrightarrow> h_decode h (h_encode h m) = Some m"

abbreviation created :: "string \<Rightarrow> agent \<Rightarrow> agent" where
  "created n a \<equiv> a\<lparr>ag_semaphores := List.insert n (ag_semaphores a)\<rparr>"

lemma blocking_call:
  fixes h command_type context_id
  defines "n \<equiv> generate_semaphore_name h command_type context_id"
  assumes "ready_for h n s" and codec: "understood h (with_semaphore n cmd)"
    and run: "execute_command (h_outside h) (with_semaphore n cmd) (update_heartbeat (created n (sy_agent s))) = (Inr (), a2)"
    and pend: "ag_pending_pairs a2 = []" and woken: "n \<notin> set (ag_semaphores a2)" and fine: "dict_get (ag_state_db a2) (command_error_key n) = None"
  shows "\<exists>s'. execute_command_with_semaphore h cmd command_type context_id True s = (Answer (Inr n), s') \<and>
    same_but_heartbeat a2 (sy_agent s') \<and> sy_state_open s'"
proof -
  obtain p where p: "represents (h_decode h) (sy_queue s) p []" "p + 1 < 2 ^ 64" "h_decode h (h_encode h (with_semaphore n cmd)) = Some (with_semaphore n cmd)" "0 < h_steps h"
    "ag_pending_pairs (sy_agent s) = []" "sy_state_open s" using assms(2) codec by (auto simp: ready_for_def understood_def)
  have "length [] < q_capacity (sy_queue s)" using p(1) by (simp add: represents_def holds_def)
  then obtain q1 where q1: "enqueue (h_encode h) Forever (with_semaphore n cmd) (sy_queue s) = (Answer (Inr p), q1)"
    "represents (h_decode h) q1 p [with_semaphore n cmd]"
    using enqueue_ok [OF p(1), of "h_encode h" "with_semaphore n cmd" Forever] p(2,3) by auto
  let ?s1 = "s\<lparr>sy_agent := created n (sy_agent s), sy_queue := q1\<rparr>"
  have sent: "send_command h (with_semaphore n cmd) (create_semaphore n s) = (Answer (Inr p), ?s1)"
    using q1(1) by (simp add: send_command_def try_enqueue_def create_semaphore_def)
  obtain a' q' where serve: "agent_serves h (h_steps h) (created n (sy_agent s), q1) = (a', q')" "same_but_heartbeat a2 a'"
    using serves_one [OF q1(2) _ p(4) run pend] p(5) by auto
  have "await_semaphore h n ?s1 = (Answer (Inr ()), ?s1\<lparr>sy_agent := a', sy_queue := q'\<rparr>)"
    using serve woken fine p(6) by (simp add: await_semaphore_def Let_def let_agent_def raise_command_error_def call_simps same_but_heartbeat_def)
  then show ?thesis
    using sent serve(2) p(6) by (simp add: execute_command_with_semaphore_def n_def [symmetric] call_simps)
qed

section \<open>Queries\<close>

lemma write_result_facts:
  "dict_get (ag_state_db (write_command_result s v a)) (command_result_key s) = Some v"
  "dict_get (ag_state_db a) (command_error_key t) = None \<Longrightarrow> dict_get (ag_state_db (write_command_result s v a)) (command_error_key t) = None"
  "ag_pending_pairs (write_command_result s v a) = ag_pending_pairs a" "ag_batches (write_command_result s v a) = ag_batches a"
  "ag_store (write_command_result s v a) = ag_store a" "ag_semaphores (write_command_result s v a) = ag_semaphores a"
proof -
  have drop: "dict_get db k = None \<Longrightarrow> dict_get (drop_records names db) k = None" for names db k
    unfolding drop_records_def by (induction names arbitrary: db) (auto simp: dict_get_del)
  show "dict_get (ag_state_db a) (command_error_key t) = None \<Longrightarrow> dict_get (ag_state_db (write_command_result s v a)) (command_error_key t) = None"
    using drop keys_differ by (simp add: write_command_result_def dict_simps)
qed (simp_all add: write_command_result_def dict_simps)

lemma query_status_answer:
  fixes h bid name gen
  defines "n \<equiv> generate_semaphore_name h ''query'' (''batch_'' @ bid)"
    and "q \<equiv> \<lparr>qc_semaphore = Some (generate_semaphore_name h ''query'' (''batch_'' @ bid)), qc_batch_id = bid, qc_state_name = name, qc_generation = gen\<rparr>"
  assumes "ready_for h n s" and codec: "understood h (QueryStatus q)"
    and handled: "\<And>a. ag_batches a = ag_batches (sy_agent s) \<Longrightarrow> ag_store a = ag_store (sy_agent s) \<Longrightarrow> handle_query_status q a = (Inr (), answer_query q v a)"
  shows "\<exists>s'. query_status h bid name gen s = (Answer (Inr (Some v)), s') \<and> ag_batches (sy_agent s') = ag_batches (sy_agent s) \<and>
    ag_store (sy_agent s') = ag_store (sy_agent s)"
proof -
  let ?a = "update_heartbeat (created n (sy_agent s))"
  let ?w = "write_command_result n v ?a"
  have ne: "truthy (Some n) = Some n" by (simp add: n_def generate_semaphore_name_def truthy_def)
  have und: "understood h (with_semaphore n (QueryStatus \<lparr>qc_semaphore = None, qc_batch_id = bid, qc_state_name = name, qc_generation = gen\<rparr>))"
    using codec by (simp add: q_def n_def)
  have "handle_query_status q ?a = (Inr (), ?w)" using handled [of ?a] ne by (simp add: answer_query_def q_def n_def)
  then have run: "execute_command (h_outside h) (with_semaphore n (QueryStatus \<lparr>qc_semaphore = None, qc_batch_id = bid, qc_state_name = name, qc_generation = gen\<rparr>)) ?a
      = (Inr (), release_semaphore n ?w)"
    using ne by (simp add: execute_command_def handle_message_def act_simps is_init_pair_def release_if_def q_def n_def)
  have rel: "ag_pending_pairs (release_semaphore n ?w) = []" "ag_batches (release_semaphore n ?w) = ag_batches (sy_agent s)"
    "ag_store (release_semaphore n ?w) = ag_store (sy_agent s)"
    using assms(3) by (simp_all add: release_semaphore_def emit_def write_result_facts ready_for_def)
  have "dict_get (ag_state_db (release_semaphore n ?w)) (command_error_key n) = None"
    using assms(3) by (simp add: write_result_facts ready_for_def)
  then obtain s' where s': "execute_command_with_semaphore h (QueryStatus \<lparr>qc_semaphore = None, qc_batch_id = bid, qc_state_name = name, qc_generation = gen\<rparr>)
      ''query'' (''batch_'' @ bid) True s = (Answer (Inr n), s')" "same_but_heartbeat (release_semaphore n ?w) (sy_agent s')" "sy_state_open s'"
    using blocking_call [OF assms(3) [unfolded n_def] und [unfolded n_def] run [unfolded n_def]] rel(1) unfolding n_def by auto
  then show ?thesis
    using rel by (auto simp: query_status_def call_simps read_state_def same_but_heartbeat_def write_result_facts)
qed

definition query_message :: "host \<Rightarrow> string \<Rightarrow> string \<Rightarrow> nat \<Rightarrow> message" where
  "query_message h bid name gen =
     QueryStatus \<lparr>qc_semaphore = Some (generate_semaphore_name h ''query'' (''batch_'' @ bid)), qc_batch_id = bid, qc_state_name = name, qc_generation = gen\<rparr>"

text \<open>
  A host's queries report the published rounds: with an idle agent and a live batch of the
  handler's generation, \<open>query_transfer_signal\<close> with a round answers whether this round or a
  later one has been published as completed, and \<open>query_transfer_request\<close> whether exactly
  this round is the one requested; both go through the queue, the agent's loop and the state
  database and change neither batches nor store.
\<close>

theorem client_query_rounds:
  assumes "ready_for h (generate_semaphore_name h ''query'' (''batch_'' @ bid)) s"
    and codec: "understood h (query_message h bid ''transfer_signal_round'' gen)"
      "understood h (query_message h bid (''transfer_request_round:'' @ fst d @ ''->'' @ snd d) gen)"
    and live: "dict_get (ag_batches (sy_agent s)) bid = Some b" "\<not> stale gen b"
    and rounds: "stored_round (done_key bid) (sy_agent s) = Inr c" "stored_round (request_key bid d) (sy_agent s) = Inr q"
  shows "\<exists>s1 s2. query_transfer_signal h bid (Some r) gen s = (Answer (Inr (r \<le> c)), s1) \<and>
    query_transfer_request h bid d r gen s = (Answer (Inr (q = r)), s2) \<and>
    ag_batches (sy_agent s1) = ag_batches (sy_agent s) \<and> ag_store (sy_agent s2) = ag_store (sy_agent s)"
proof -
  have round: "stored_round k a = stored_round k (sy_agent s)" if "ag_store a = ag_store (sy_agent s)" for k a
    using that by (simp add: stored_round_def)
  let ?name = "''transfer_request_round:'' @ fst d @ ''->'' @ snd d"
  have keys: "state_key bid ''transfer_signal_round'' = done_key bid" "state_key bid ?name = request_key bid d"
    by (simp_all add: state_key_def done_key_def request_key_def)
  have names: "?name \<noteq> ''transfer_signal''" "has_prefix ''transfer_request_round'' ?name" by (simp_all add: has_prefix_def)
  have handled: "handle_query_status \<lparr>qc_semaphore = sem, qc_batch_id = bid, qc_state_name = name, qc_generation = gen\<rparr> a =
      (Inr (), answer_query \<lparr>qc_semaphore = sem, qc_batch_id = bid, qc_state_name = name, qc_generation = gen\<rparr> (Scalar x) a)"
    if "ag_batches a = ag_batches (sy_agent s)" "ag_store a = ag_store (sy_agent s)" "name \<noteq> ''transfer_signal''"
      "name = ''transfer_signal_round'' \<or> has_prefix ''transfer_request_round'' name" "stored_round (state_key bid name) (sy_agent s) = Inr x" for sem name a x
    using that live round [OF that(2)] by (simp add: handle_query_status_def Let_def act_simps)
  obtain s1 where 1: "query_status h bid ''transfer_signal_round'' gen s = (Answer (Inr (Some (Scalar c))), s1)" "ag_batches (sy_agent s1) = ag_batches (sy_agent s)"
    using query_status_answer [OF assms(1) codec(1) [unfolded query_message_def] handled, of c] rounds(1) keys(1) by auto
  obtain s2 where 2: "query_status h bid ?name gen s = (Answer (Inr (Some (Scalar q))), s2)" "ag_store (sy_agent s2) = ag_store (sy_agent s)"
    using query_status_answer [OF assms(1) codec(2) [unfolded query_message_def] handled [OF _ _ names(1) disjI2 [OF names(2)]], of q] rounds(2)
    unfolding keys(2) by blast
  show ?thesis
    using 1 2 by (simp add: query_transfer_signal_def query_transfer_request_def call_simps decode_int_def)
qed

section \<open>Registration\<close>

definition gen_of :: "string \<Rightarrow> agent \<Rightarrow> nat option" where
  "gen_of bid a = map_option b_generation (dict_get (ag_batches a) bid)"

definition no_new_errors :: "agent \<Rightarrow> agent \<Rightarrow> bool" where
  "no_new_errors a a' \<longleftrightarrow> (\<forall>n. dict_get (ag_state_db a) (command_error_key n) = None \<longrightarrow> dict_get (ag_state_db a') (command_error_key n) = None)"

definition gens_kept :: "agent \<Rightarrow> agent \<Rightarrow> bool" where
  "gens_kept a a' \<longleftrightarrow> (\<forall>bid. gen_of bid a' = gen_of bid a) \<and> ag_pending_pairs a' = ag_pending_pairs a \<and> no_new_errors a a'"

interpretation gens: handler_frame gens_kept
  by unfold_locales (auto simp: gens_kept_def no_new_errors_def)

lemma gens_batches: "ag_batches a' = ag_batches a \<Longrightarrow> ag_pending_pairs a' = ag_pending_pairs a \<Longrightarrow> no_new_errors a a' \<Longrightarrow> gens_kept a a'"
  by (simp add: gens_kept_def gen_of_def)

lemma no_new_errors_db: "ag_state_db a' = ag_state_db a \<Longrightarrow> no_new_errors a a'"
  by (simp add: no_new_errors_def)

lemma no_new_errors_trans: "no_new_errors a b \<Longrightarrow> no_new_errors b c \<Longrightarrow> no_new_errors a c"
  by (simp add: no_new_errors_def)

lemma no_new_errors_update [simp]:
  "no_new_errors a (update_batch i f b) = no_new_errors a b" "no_new_errors (update_batch i f a) b = no_new_errors a b"
  by (simp_all add: no_new_errors_def update_batch_def split: option.split)

lemma gens_update: "(\<And>b. b_generation (f b) = b_generation b) \<Longrightarrow> gens_kept a (update_batch bid f a)"
  by (auto simp: gens_kept_def gen_of_def update_batch_def dict_simps no_new_errors_def split: option.split)

lemma gens_lookup [simp]: "gens_kept a (snd (lookup d k a))"
  by (simp add: lookup_def gens.frame_refl split: option.split)

lemma gens_load [simp]: "gens_kept a (snd (load_tensor env p a))"
  by (simp add: load_tensor_def gens.frame_refl split: option.split)

lemma gens_chunks [simp]: "gens_kept a (snd (make_chunks m s t d g a))"
  by (auto simp: make_chunks_def gens.frame_refl gens_batches no_new_errors_db split: option.split prod.split)

lemma gens_tensor: "gens_kept a (snd (register_tensor env bid name pair ip acc a))"
  unfolding register_tensor_def Let_def
  by (intro gens.frame_bind gens_load gens_chunks) (simp_all add: gens_update gens.frame_refl)

lemma gens_pair: "gens_kept a (snd (register_pair env bid grouped name acc a))"
  unfolding register_pair_def
  by (intro gens.frame_bind gens_lookup gens.frame_fold gens_tensor) (simp add: gens_update)

lemma gens_tensor_chunks: "gens_kept a (snd (tensor_chunks m g x cs a))"
  unfolding tensor_chunks_def
  by (cases x) (auto intro!: gens.frame_bind gens.frame_pure)

lemma gens_direction: "gens_kept a (snd (direction_step b p pair r acc a))"
  unfolding direction_step_def
  by (auto intro!: gens.frame_bind gens.frame_fold gens_tensor_chunks gens.frame_refl split: list.split)

lemma gens_generate: "gens_kept a (snd (generate_dual_buckets bid b a))"
  unfolding generate_dual_buckets_def pair_directions_def
  by (intro gens.frame_bind gens.frame_fold gens_lookup gens_direction) (simp_all add: gens_update gens_batches no_new_errors_db)

text \<open>The batch is live, its generation is recorded as the result of the command, and no pair has become pending.\<close>

definition registered_as :: "string \<Rightarrow> string \<Rightarrow> agent \<Rightarrow> agent \<Rightarrow> bool" where
  "registered_as bid s a a' \<longleftrightarrow> ag_pending_pairs a' = ag_pending_pairs a \<and> no_new_errors a a' \<and>
     (\<exists>b. dict_get (ag_batches a') bid = Some b \<and> dict_get (ag_state_db a') (command_result_key s) = Some (Scalar (int (b_generation b))))"

lemma result_if_registered:
  assumes "gen_of bid a1 = Some gen" "truthy sem = Some s" "ag_pending_pairs a1 = ag_pending_pairs a" "no_new_errors a a1"
  shows "registered_as bid s a (result_if sem gen a1)"
  using assms by (auto simp: registered_as_def result_if_def gen_of_def write_result_facts no_new_errors_def)

lemma gen_of_simps [simp]:
  "(\<And>b. b_generation (f b) = b_generation b) \<Longrightarrow> gen_of bid (update_batch i f a) = gen_of bid a" "gen_of bid (a\<lparr>ag_pg := p\<rparr>) = gen_of bid a"
  by (auto simp: gen_of_def update_batch_def dict_simps split: option.split)

lemma pairs_kept:
  assumes "act_fold (register_pair env bid grouped) names acc a = (Inr r, a1)"
  shows "gen_of i a1 = gen_of i a" "ag_pending_pairs a1 = ag_pending_pairs a" "no_new_errors a a1"
proof -
  have "gens_kept a (snd (act_fold (register_pair env bid grouped) names acc a))" by (intro gens.frame_fold gens_pair)
  then show "gen_of i a1 = gen_of i a" "ag_pending_pairs a1 = ag_pending_pairs a" "no_new_errors a a1" using assms by (simp_all add: gens_kept_def)
qed

lemma split_registered:
  assumes "register_split env msg a = (Inr True, a')" "truthy (rc_semaphore msg) = Some s"
  shows "registered_as (rc_batch_id msg) s a a'"
proof -
  obtain gen a0 where g: "next_batch_generation (rc_batch_id msg) a = (gen, a0)" by fastforce
  then have "ag_pending_pairs a0 = ag_pending_pairs a" by (auto simp: next_batch_generation_def Let_def)
  then have g1: "gen_of (rc_batch_id msg) (put_batch (new_batch (rc_batch_id msg) ns n False gen) a0) = Some gen"
    "ag_pending_pairs (put_batch (new_batch (rc_batch_id msg) ns n False gen) a0) = ag_pending_pairs a" for ns n
    by (simp_all add: gen_of_def put_batch_def new_batch_def dict_simps)
  have ne: "no_new_errors a a1" if "no_new_errors (update_batch i f (put_batch b a0)\<lparr>ag_pg := p\<rparr>) a1" for i f b p a1
    using that g by (auto simp: no_new_errors_def put_batch_def next_batch_generation_def Let_def dict_simps command_error_key_def update_batch_def split: option.splits)
  show ?thesis
    using assms(1) g
    by (clarsimp simp: register_split_def Let_def act_Inr)
      (rule result_if_registered [OF _ assms(2)], simp_all add: pairs_kept g1, rule ne, erule pairs_kept(3))
qed

lemma finish_registered:
  assumes "finish_dual bid sem a = (Inr True, a')" "truthy sem = Some s"
  shows "registered_as bid s a a'"
proof -
  have fold_kept: "gens_kept a (fold (\<lambda>s a. release_semaphore s (write_command_result s v a)) ss a)" for v ss a
  proof (induction ss arbitrary: a)
    case (Cons x ss)
    have "gens_kept a (release_semaphore x (write_command_result x v a))"
      by (rule gens_batches) (simp_all add: release_semaphore_def emit_def write_result_facts no_new_errors_def)
    then show ?case using gens.frame_trans Cons by simp
  qed (simp add: gens.frame_refl)
  obtain b a1 where s: "dict_get (ag_batches a) bid = Some b" "generate_dual_buckets bid b a = (Inr (), a1)"
    "a' = result_if sem (b_generation b) (update_batch bid (\<lambda>b. b\<lparr>b_pending_register_semaphores := []\<rparr>)
       (fold (\<lambda>s a. release_semaphore s (write_command_result s (Scalar (int (b_generation b))) a)) (b_pending_register_semaphores b) a1))"
    using assms(1) by (auto simp: finish_dual_def act_Inr)
  have "gens_kept a a1" using gens_generate [of a bid b] s(2) by simp
  with fold_kept have "gens_kept a (fold (\<lambda>s a. release_semaphore s (write_command_result s (Scalar (int (b_generation b))) a)) (b_pending_register_semaphores b) a1)"
    using gens.frame_trans by blast
  then show ?thesis
    unfolding s(3) using s(1)
    by (intro result_if_registered [OF _ assms(2)]) (simp_all add: gens_kept_def gen_of_def [of bid a])
qed

lemma gens_merge: "gens_kept a (snd (merge_role env bid grouped role p a))"
proof -
  have ld: "gens_kept a (snd (act_bind (load_tensor env x) (\<lambda>t. act_return (ts @ [t])) a))" for x ts a
    by (intro gens.frame_bind gens_load gens.frame_pure)
  show ?thesis unfolding merge_role_def
    by (auto intro!: gens.frame_bind gens.frame_fold ld gens_update gens.frame_refl)
qed

lemma role_registered:
  assumes "register_dual_role env bid grouped role sem a = (Inr True, a')" "truthy sem = Some s"
  shows "registered_as bid s a a'"
proof -
  obtain f a1 ns where s: "act_for (merge_role env bid grouped role) ns (update_batch bid f a) = (Inr (), a1)" "finish_dual bid sem a1 = (Inr True, a')"
    using assms(1) by (clarsimp simp: register_dual_role_def Let_def act_Inr split: if_splits)
  have "gens_kept (update_batch bid f a) (snd (act_for (merge_role env bid grouped role) ns (update_batch bid f a)))"
    by (intro gens.frame_for gens_merge)
  then show ?thesis using finish_registered [OF s(2) assms(2)] s(1)
    by (auto simp: registered_as_def gens_kept_def no_new_errors_def update_batch_def split: option.splits)
qed

lemma dual_registered:
  assumes "register_dual env msg sg layouts a = (Inr True, a')" "truthy (rc_semaphore msg) = Some s"
  shows "registered_as (rc_batch_id msg) s a a'"
proof -
  obtain a1 f role where s: "register_dual_role env (rc_batch_id msg) (group_payloads (rc_tensors msg)) role (rc_semaphore msg) (update_batch (rc_batch_id msg) f a1) = (Inr True, a')"
    "ag_pending_pairs a1 = ag_pending_pairs a" "no_new_errors a a1"
    using assms(1)
    by (auto simp: register_dual_def Let_def act_Inr act_raise_def next_batch_generation_def put_batch_def no_new_errors_def dict_simps command_error_key_def
        split: if_splits option.splits prod.splits)
  show ?thesis using role_registered [OF s(1) assms(2)] s(2,3)
    by (auto simp: registered_as_def no_new_errors_def update_batch_def split: option.splits)
qed

lemma handler_registered:
  assumes "handle_register_tensors env msg a = (Inr True, a')" "truthy (rc_semaphore msg) = Some s"
  shows "registered_as (rc_batch_id msg) s a a'"
proof -
  have e: "registered_as i s (emit (Gathered None) a) a' = registered_as i s a a'" for i by (simp add: registered_as_def emit_def no_new_errors_def)
  show ?thesis
    using assms(1)
    by (auto simp: handle_register_tensors_def Let_def act_Inr reject_registration_def act_raise_def e split: if_splits
        dest!: split_registered [OF _ assms(2)] dual_registered [OF _ assms(2)])
qed

text \<open>
  C26. The handler of a registration is bound to the batch it registered: when the agent's handler
  completes the registration (returns True), \<open>register_tensors\<close> returns an open handler with the
  generation of the batch that is now live under the id, on the split path and for the second
  role of a dual batch alike. The system is idle when the call starts (\<open>ready_for\<close>): the queue is
  empty with positions below 64 bits, no pair is pending, the state database is open, there is
  no old error record under the call's semaphore name, and the waiting client lets the agent run
  at least one step; the command survives its encoding and decoding.
\<close>

theorem register_returns_live_generation:
  fixes h bid tensors bucket_size role
  defines "n \<equiv> generate_semaphore_name h ''register_tensors'' (''batch_'' @ bid)"
    and "msg \<equiv> \<lparr>rc_semaphore = Some (generate_semaphore_name h ''register_tensors'' (''batch_'' @ bid)), rc_batch_id = bid,
      rc_tensors = map (\<lambda>(t, pair_name). (pair_name, h_dump_tensor h t)) tensors, rc_bucket_size = bucket_size, rc_role = role\<rparr>"
  assumes "ready_for h n s" and codec: "understood h (RegisterTensors msg)"
    and ran: "handle_register_tensors (h_outside h) msg (update_heartbeat (created n (sy_agent s))) = (Inr True, a1)"
  shows "\<exists>hd b s'. register_tensors h bid tensors bucket_size role s = (Answer (Inr hd), s') \<and>
    dict_get (ag_batches (sy_agent s')) bid = Some b \<and> bh_batch_id hd = bid \<and> bh_generation hd = b_generation b \<and> \<not> bh_closed hd"
proof -
  let ?cmd = "\<lparr>rc_semaphore = None, rc_batch_id = bid,
      rc_tensors = map (\<lambda>(t, pair_name). (pair_name, h_dump_tensor h t)) tensors, rc_bucket_size = bucket_size, rc_role = role\<rparr>"
  have ne: "truthy (Some n) = Some n" by (simp add: n_def generate_semaphore_name_def truthy_def)
  have "registered_as bid n (update_heartbeat (created n (sy_agent s))) a1"
    using handler_registered [OF ran, of n] ne by (simp add: msg_def n_def)
  then obtain b where b: "dict_get (ag_batches a1) bid = Some b" "dict_get (ag_state_db a1) (command_result_key n) = Some (Scalar (int (b_generation b)))"
    "ag_pending_pairs a1 = []" "dict_get (ag_state_db a1) (command_error_key n) = None"
    using assms(3) by (auto simp: registered_as_def ready_for_def no_new_errors_def)
  have und: "understood h (with_semaphore n (RegisterTensors ?cmd))" using codec by (simp add: msg_def n_def)
  have run: "execute_command (h_outside h) (with_semaphore n (RegisterTensors ?cmd)) (update_heartbeat (created n (sy_agent s))) = (Inr (), release_semaphore n a1)"
    using ran ne by (simp add: execute_command_def handle_message_def is_init_pair_def release_if_def msg_def n_def)
  have rel: "ag_pending_pairs (release_semaphore n a1) = []" "ag_batches (release_semaphore n a1) = ag_batches a1"
    using b(3) by (simp_all add: release_semaphore_def emit_def)
  obtain s' where s': "execute_command_with_semaphore h (RegisterTensors ?cmd) ''register_tensors'' (''batch_'' @ bid) True s = (Answer (Inr n), s')"
    "same_but_heartbeat (release_semaphore n a1) (sy_agent s')" "sy_state_open s'"
    using blocking_call [OF assms(3) [unfolded n_def] und [unfolded n_def] run [unfolded n_def]] rel(1) b(4) unfolding n_def by auto
  then show ?thesis
    using b(1,2) rel(2) by (auto simp: register_tensors_def Let_def call_simps same_but_heartbeat_def)
qed

section \<open>Handlers\<close>

text \<open>
  A handler is closed once: a successful \<open>close\<close> sends one cleanup command and marks the
  handler; afterwards \<open>close\<close> and the destructor send nothing, and a transfer is refused
  without reaching the agent. A close that raises leaves the handler open.
\<close>

theorem handler_closes_once:
  assumes "handler_close h b blocking s = (Answer r, s')"
  shows "case r of
      Inr b' \<Rightarrow> bh_closed b' \<and> handler_close h' b' blocking' s' = (Answer (Inr b'), s') \<and> handler_del h' b' s' = (Answer (Inr ()), s') \<and>
        handler_transfer h' b' ty blocking' role round s' = (Answer (Inl RuntimeError), s')
    | Inl e \<Rightarrow> \<not> bh_closed b"
  using assms
  by (auto simp: handler_close_def handler_del_def handler_transfer_def call_simps handler_client_def
      split: sum.splits if_splits prod.splits answer.splits)

section \<open>Semaphore names\<close>

text \<open>
  Semaphore names are valid and unique: when command type and suffix have no slash, a
  generated name starts with a slash and has no other, whatever the batch or pair is called; and
  calls with different suffixes of the same length never share a name.
\<close>

theorem semaphore_names_valid:
  assumes "CHR ''/'' \<notin> set command_type" "CHR ''/'' \<notin> set (h_uuid h)" "length (h_uuid h) = length (h_uuid h')" "h_uuid h \<noteq> h_uuid h'"
  shows "(\<exists>rest. generate_semaphore_name h command_type context_id = CHR ''/'' # rest \<and> CHR ''/'' \<notin> set rest) \<and>
    generate_semaphore_name h command_type context_id \<noteq> generate_semaphore_name h' command_type' context_id'"
proof -
  have "CHR ''/'' \<notin> set (show_nat n)" for n using show_nat_digits [of n] by (auto simp: list_all_iff is_digit_def)
  then have "\<exists>rest. generate_semaphore_name h command_type context_id = CHR ''/'' # rest \<and> CHR ''/'' \<notin> set rest"
    using assms by (auto simp: generate_semaphore_name_def safe_context_def)
  moreover have split: "generate_semaphore_name h t c = (''/command_'' @ t @ ''_'' @ safe_context c @ ''_'' @ show_nat (h_pid h) @ ''_'') @ h_uuid h" for h t c
    by (simp add: generate_semaphore_name_def)
  have "generate_semaphore_name h command_type context_id \<noteq> generate_semaphore_name h' command_type' context_id'"
    unfolding split using assms(3,4) by (simp only: append_eq_append_conv simp_thms)
  ultimately show ?thesis by blast
qed

section \<open>Concrete calls\<close>

text \<open>A host that only ever sends two messages, with a codec that tells them apart.\<close>

definition sample_host :: "outside \<Rightarrow> message \<Rightarrow> message \<Rightarrow> host" where
  "sample_host env m1 m2 = \<lparr>h_outside = env, h_poll_fuel = 1, h_encode = (\<lambda>m. if m = m1 then [1] else [2]),
     h_decode = (\<lambda>bs. Some (if bs = [1] then m1 else m2)), h_dump_tensor = (\<lambda>_. ''t''), h_dump_shape = (\<lambda>_. []), h_dump_placements = (\<lambda>_. []),
     h_pid = 7, h_uuid = ''ab'', h_wait = 0, h_steps = 3\<rparr>"

definition sample_system :: "agent \<Rightarrow> command_queue \<Rightarrow> system" where
  "sample_system a q = \<lparr>sy_agent = a, sy_queue = q, sy_state_open = True\<rparr>"

definition bare_host :: host where
  "bare_host = sample_host sample_outside (QueryStatus (sample_query 0)) (QueryStatus (sample_query 0))"

lemma sample_host_name [simp]: "generate_semaphore_name (sample_host env m1 m2) t c = generate_semaphore_name bare_host t c"
  by (simp add: generate_semaphore_name_def sample_host_def bare_host_def)

lemma sample_understood: "understood (sample_host env m1 m2) m1" "understood (sample_host env m1 m2) m2"
  by (simp_all add: understood_def sample_host_def)

lemma sample_ready:
  assumes "represents (h_decode (sample_host env m1 m2)) q 0 []" "ag_pending_pairs a = []" "ag_state_db a = []"
  shows "ready_for (sample_host env m1 m2) n (sample_system a q)"
  using assms by (auto simp: ready_for_def sample_system_def sample_host_def intro!: exI [of _ 0])

theorem client_query_rounds_witness:
  "\<exists>h q s1. open_leader 2 [] = Inr q \<and> query_transfer_signal h ''B'' (Some 0) 2 (sample_system (sample_agent None) q) = (Answer (Inr False), s1)"
proof -
  let ?m1 = "query_message bare_host ''B'' ''transfer_signal_round'' 2"
  let ?m2 = "query_message bare_host ''B'' (''transfer_request_round:'' @ fst sample_direction @ ''->'' @ snd sample_direction) 2"
  let ?h = "sample_host sample_outside ?m1 ?m2"
  obtain q where q: "open_leader 2 [] = Inr q" "represents (h_decode ?h) q 0 []" using open_leader_fresh [of 2 "h_decode ?h"] by auto
  have msgs: "query_message ?h b nm g = query_message bare_host b nm g" for b nm g by (simp add: query_message_def)
  have ag: "ag_pending_pairs (sample_agent None) = []" "ag_state_db (sample_agent None) = []" "ag_store (sample_agent None) = empty_store"
    by (simp_all add: sample_agent_def idle_agent_def)
  have rounds: "stored_round k (sy_agent (sample_system (sample_agent None) q)) = Inr (-1)" for k
    using ag(3) by (simp add: stored_round_def sample_system_def)
  have live: "dict_get (ag_batches (sy_agent (sample_system (sample_agent None) q))) ''B'' = Some (sample_batch None)" by (simp add: sample_system_def)
  have ns: "\<not> stale 2 (sample_batch None)" by (simp add: stale_def)
  have "\<exists>s1. query_transfer_signal ?h ''B'' (Some 0) 2 (sample_system (sample_agent None) q) = (Answer (Inr False), s1)"
    using client_query_rounds [OF sample_ready [OF q(2) ag(1,2)] _ _ live ns rounds rounds, of sample_direction 0] sample_understood [of sample_outside ?m1 ?m2]
    unfolding msgs by auto
  then show ?thesis using q(1) by blast
qed

definition split_pair :: pair_state where
  "split_pair = make_pair_state (sample_pending ''infer'' ''train'') (sample_sides [0] [1])
     \<lparr>t_pair_group = 0, t_groups = (0, 0), t_maps = (None, None), t_partials = None, t_shapes = ([], [])\<rparr>"

definition split_agent :: agent where
  "split_agent = (idle_agent 0 2)\<lparr>ag_pairs := [(''w'', split_pair)]\<rparr>"

definition loading_outside :: outside where
  "loading_outside = sample_outside\<lparr>o_load_tensor := (\<lambda>_. Some \<lparr>t_id = 0, t_shape = [1], t_dtype = \<lparr>dt_name = ''uint8'', itemsize = 1\<rparr>\<rparr>)\<rparr>"

definition split_register :: register_cmd where
  "split_register = \<lparr>rc_semaphore = Some (generate_semaphore_name bare_host ''register_tensors'' (''batch_'' @ ''B'')), rc_batch_id = ''B'',
     rc_tensors = [(''w'', ''t'')], rc_bucket_size = None, rc_role = None\<rparr>"

lemma split_register_runs:
  "fst (handle_register_tensors loading_outside split_register
     (update_heartbeat (created (generate_semaphore_name bare_host ''register_tensors'' (''batch_'' @ ''B'')) split_agent))) = Inr True"
  by code_simp

theorem register_returns_live_generation_witness:
  "\<exists>h q hd s'. open_leader 2 [] = Inr q \<and>
     register_tensors h ''B'' [(\<lparr>t_id = 0, t_shape = [1], t_dtype = \<lparr>dt_name = ''uint8'', itemsize = 1\<rparr>\<rparr>, ''w'')] None None (sample_system split_agent q) =
       (Answer (Inr hd), s') \<and> \<not> bh_closed hd"
proof -
  let ?h = "sample_host loading_outside (RegisterTensors split_register) (RegisterTensors split_register)"
  let ?n = "generate_semaphore_name bare_host ''register_tensors'' (''batch_'' @ ''B'')"
  let ?ts = "[(\<lparr>t_id = 0, t_shape = [1], t_dtype = \<lparr>dt_name = ''uint8'', itemsize = 1\<rparr>\<rparr>, ''w'')]"
  obtain q where q: "open_leader 2 [] = Inr q" "represents (h_decode ?h) q 0 []" using open_leader_fresh [of 2 "h_decode ?h"] by auto
  have ag: "ag_pending_pairs split_agent = []" "ag_state_db split_agent = []" by (simp_all add: split_agent_def idle_agent_def)
  obtain a1 where a1: "handle_register_tensors loading_outside split_register (update_heartbeat (created ?n split_agent)) = (Inr True, a1)"
    using split_register_runs by (cases "handle_register_tensors loading_outside split_register (update_heartbeat (created ?n split_agent))") auto
  have cmd: "\<lparr>rc_semaphore = Some (generate_semaphore_name ?h ''register_tensors'' (''batch_'' @ ''B'')), rc_batch_id = ''B'',
      rc_tensors = map (\<lambda>(t, pair_name). (pair_name, h_dump_tensor ?h t)) ?ts, rc_bucket_size = None, rc_role = None\<rparr> = split_register"
    unfolding sample_host_name by (simp add: split_register_def sample_host_def)
  have sys: "h_outside ?h = loading_outside" "sy_agent (sample_system split_agent q) = split_agent" by (simp_all add: sample_host_def sample_system_def)
  let ?cmd = "\<lparr>rc_semaphore = Some (generate_semaphore_name ?h ''register_tensors'' (''batch_'' @ ''B'')), rc_batch_id = ''B'',
      rc_tensors = map (\<lambda>(t, pair_name). (pair_name, h_dump_tensor ?h t)) ?ts, rc_bucket_size = None, rc_role = None\<rparr>"
  have und: "understood ?h (RegisterTensors ?cmd)" unfolding cmd by (rule sample_understood)
  have ran: "handle_register_tensors (h_outside ?h) ?cmd (update_heartbeat (created (generate_semaphore_name ?h ''register_tensors'' (''batch_'' @ ''B''))
      (sy_agent (sample_system split_agent q)))) = (Inr True, a1)" unfolding cmd sys unfolding sample_host_name by (rule a1)
  note r = register_returns_live_generation [OF sample_ready [OF q(2) ag] und ran]
  show ?thesis using q(1) r by blast
qed

definition closed_handler :: batch_handler where
  "closed_handler = \<lparr>bh_batch_id = ''B'', bh_pair_names = [], bh_generation = 1, bh_closed = True, bh_client_alive = True\<rparr>"

definition open_system :: system where
  "open_system = sample_system split_agent (projr (open_leader 2 []))"

theorem handler_closes_once_witness:
  "handler_transfer bare_host closed_handler Send False None 0 open_system = (Answer (Inl RuntimeError), open_system)"
proof -
  have "handler_close bare_host closed_handler True open_system = (Answer (Inr closed_handler), open_system)"
    by (simp add: handler_close_def closed_handler_def call_simps)
  from handler_closes_once [OF this, of bare_host False Send None 0] show ?thesis by simp
qed

theorem semaphore_names_valid_witness:
  "generate_semaphore_name bare_host ''transfer'' ''a/b:c'' \<noteq> generate_semaphore_name (bare_host\<lparr>h_uuid := ''ac''\<rparr>) ''query'' ''a''"
  using semaphore_names_valid [of "''transfer''" bare_host "bare_host\<lparr>h_uuid := ''ac''\<rparr>" "''a/b:c''" "''query''" "''a''"]
  by (simp add: bare_host_def sample_host_def)

end
