(* ===== verification/Semaphores.thy ===== *)
theory Semaphores
  imports Agent_Properties
begin

text \<open>
  Nobody is forgotten when a command is handled: its client is woken, or the agent keeps the
  semaphore with the pair, the registration or the round the command waits for. The first part is
  the relation \<open>wakes\<close> that every handler respects: a semaphore disappears only with its wake-up.
\<close>

section \<open>No semaphore disappears silently\<close>

definition wakes :: "agent \<Rightarrow> agent \<Rightarrow> bool" where
  "wakes a b \<longleftrightarrow> (\<exists>tr. ag_trace b = ag_trace a @ tr \<and> (\<forall>s \<in> set (ag_semaphores a). s \<in> set (ag_semaphores b) \<or> Woke s \<in> set tr))"

lemma wakes_trans:
  assumes "wakes a b" "wakes b c"
  shows "wakes a c"
proof -
  obtain t u where "ag_trace b = ag_trace a @ t" "\<forall>s \<in> set (ag_semaphores a). s \<in> set (ag_semaphores b) \<or> Woke s \<in> set t"
    "ag_trace c = ag_trace b @ u" "\<forall>s \<in> set (ag_semaphores b). s \<in> set (ag_semaphores c) \<or> Woke s \<in> set u"
    using assms by (auto simp: wakes_def)
  then show ?thesis unfolding wakes_def by (intro exI [of _ "t @ u"]) auto
qed

lemma wakes_refl [simp]: "wakes a a"
  by (simp add: wakes_def)

interpretation wk: handler_frame wakes
  by unfold_locales (auto intro: wakes_trans)

lemma wakes_fields [simp]:
  "wakes a (b\<lparr>ag_store := x1\<rparr>) = wakes a b" "wakes a (b\<lparr>ag_state_db := x2\<rparr>) = wakes a b" "wakes a (b\<lparr>ag_pg := x3\<rparr>) = wakes a b"
  "wakes a (b\<lparr>ag_batches := x4\<rparr>) = wakes a b" "wakes a (b\<lparr>ag_pending_pairs := x5\<rparr>) = wakes a b"
  "wakes a (b\<lparr>ag_state_db := x2, ag_command_error_times := x6\<rparr>) = wakes a b"
  "wakes a (b\<lparr>ag_batch_generation := x7\<rparr>) = wakes a b"
  by (simp_all add: wakes_def)

lemma wakes_step: "wakes a b \<Longrightarrow> ag_trace c = ag_trace b @ tr \<Longrightarrow> \<forall>s \<in> set (ag_semaphores b). s \<in> set (ag_semaphores c) \<or> Woke s \<in> set tr \<Longrightarrow> wakes a c"
  by (rule wakes_trans) (auto simp: wakes_def)

lemma wakes_emit [simp]: "wakes a b \<Longrightarrow> wakes a (emit e b)"
  by (rule wakes_step [where tr = "[e]"]) auto

lemma wakes_release [simp]: "wakes a b \<Longrightarrow> wakes a (release_semaphore s b)"
  by (rule wakes_step [where tr = "if s \<in> set (ag_semaphores b) then [Woke s] else []"]) (auto simp: release_semaphore_def)

lemma wakes_fail [simp]: "wakes a b \<Longrightarrow> wakes a (fail_semaphore e s b)"
  by (rule wakes_step [OF _ fail_semaphore_trace]) (auto simp: fail_semaphore_def)

lemma wakes_ops [simp]:
  "wakes a b \<Longrightarrow> wakes a (store_set k v c b)" "wakes a b \<Longrightarrow> wakes a (signal k v b)" "wakes a b \<Longrightarrow> wakes a (leader_set k v bt b)"
  "wakes a b \<Longrightarrow> wakes a (write_command_result s w b)" "wakes a b \<Longrightarrow> wakes a (update_batch i f b)" "wakes a b \<Longrightarrow> wakes a (put_batch bt b)"
  "wakes a b \<Longrightarrow> wakes a (put_pending q b)" "wakes a b \<Longrightarrow> wakes a (drop_round i d r b)"
  by (simp_all add: store_set_def signal_def leader_set_def write_command_result_def update_batch_def put_batch_def put_pending_def drop_round_def split: option.split)

lemma wakes_ifs [simp]:
  "wakes a b \<Longrightarrow> wakes a (release_if sem b)" "wakes a b \<Longrightarrow> wakes a (fail_if sem e b)" "wakes a b \<Longrightarrow> wakes a (result_if sem g b)"
  "wakes a b \<Longrightarrow> wakes a (answer_query q v b)"
  by (simp_all add: release_if_def fail_if_def result_if_def answer_query_def split: option.split)

lemma wakes_fold: "(\<And>x b. wakes b (f x b)) \<Longrightarrow> wakes a b \<Longrightarrow> wakes a (fold f xs b)"
proof (induction xs arbitrary: b)
  case (Cons x xs)
  have "wakes a (f x b)" using Cons.prems wakes_trans by blast
  then show ?case using Cons.IH Cons.prems(1) by simp
qed simp

lemma wakes_folds [simp]:
  "wakes a b \<Longrightarrow> wakes a (release_all ss b)" "wakes a b \<Longrightarrow> wakes a (fail_all e ss b)" "wakes a b \<Longrightarrow> wakes a (reset_dual_store_signals bt b)"
  "wakes a b \<Longrightarrow> wakes a (abort_dual_registration bt e b)"
proof -
  show "wakes a b \<Longrightarrow> wakes a (release_all ss b)" unfolding release_all_def by (rule wakes_fold) simp
  show f: "wakes a b \<Longrightarrow> wakes a (fail_all e ss b)" for ss unfolding fail_all_def by (rule wakes_fold) simp
  show "wakes a b \<Longrightarrow> wakes a (reset_dual_store_signals bt b)" unfolding reset_dual_store_signals_def by (rule wakes_fold) simp_all
  show "wakes a b \<Longrightarrow> wakes a (abort_dual_registration bt e b)" by (simp add: abort_dual_registration_def Let_def f)
qed

lemma wakes_acts [simp]:
  "wakes a (snd (lookup d k a))" "wakes a (snd (load_tensor env p a))" "wakes a (snd (make_chunks m s t dt g a))"
  "wakes a (snd (barrier gr a))" "wakes a (snd (run_buckets env bid r bs sq a))" "wakes a (snd (reject_registration bid a))"
  by (simp_all add: lookup_def load_tensor_def make_chunks_def barrier_def run_buckets_def reject_registration_def split: option.split prod.split)

lemmas wakes_intros = wk.frame_bind wk.frame_catch wk.frame_for wk.frame_fold

subsection \<open>Registration\<close>

lemma wakes_tensor: "wakes a (snd (register_tensor env bid name pair ip acc a))"
  unfolding register_tensor_def Let_def by (auto intro!: wakes_intros)

lemma wakes_generation: "next_batch_generation bid a = (gen, b) \<Longrightarrow> wakes a b"
  by (auto simp: next_batch_generation_def Let_def)

lemma wakes_split: "wakes a (snd (register_split env msg a))"
proof -
  obtain gen b where g: "next_batch_generation (rc_batch_id msg) a = (gen, b)" by fastforce
  have 1: "wakes c (snd (register_pair env i gr n acc c))" for i gr n acc c
    unfolding register_pair_def by (auto intro!: wakes_intros wakes_tensor)
  have "wakes b (snd (register_split env msg a))"
    unfolding register_split_def Let_def g by (auto intro!: wakes_intros 1)
  then show ?thesis by (rule wakes_trans [OF wakes_generation [OF g]])
qed

lemma wakes_generate: "wakes a (snd (generate_dual_buckets bid b a))"
proof -
  have 1: "wakes c (snd (tensor_chunks m g x cs c))" for m g x cs c
    unfolding tensor_chunks_def by (cases x) (auto intro!: wakes_intros)
  have 2: "wakes c (snd (direction_step b p pair r acc c))" for p pair r acc c
    unfolding direction_step_def by (auto intro!: wakes_intros 1 split: list.split)
  show ?thesis unfolding generate_dual_buckets_def pair_directions_def by (auto intro!: wakes_intros 2)
qed

lemma wakes_finish: "wakes a (snd (finish_dual bid sem a))"
proof -
  have "wakes b (fold (\<lambda>s a. release_semaphore s (write_command_result s v a)) ss b)" for v ss b by (rule wakes_fold) simp_all
  then show ?thesis unfolding finish_dual_def by (auto intro!: wakes_intros wakes_generate)
qed

lemma wakes_role: "wakes a (snd (register_dual_role env bid grouped role sem a))"
proof -
  have "wakes c (snd (merge_role env bid grouped role p c))" for p c
    unfolding merge_role_def by (auto intro!: wakes_intros)
  then show ?thesis unfolding register_dual_role_def Let_def by (auto intro!: wakes_intros wakes_finish)
qed

lemma wakes_dual: "wakes a (snd (register_dual env msg sig ls a))"
proof -
  let ?a = "case dict_get (ag_batches a) (rc_batch_id msg) of Some _ \<Rightarrow> a
    | None \<Rightarrow> (case next_batch_generation (rc_batch_id msg) a of (gen, a1) \<Rightarrow>
        put_batch (new_batch (rc_batch_id msg) (sort (dict_keys (group_payloads (rc_tensors msg)))) (rc_bucket_size msg) True gen) a1)"
  have 1: "wakes a ?a" by (auto split: option.split prod.split dest: wakes_generation)
  have "wakes c (snd (act_bind (lookup (ag_batches c) i) (\<lambda>b.
      if P b then act_bind (act_modify (abort_dual_registration b e)) (\<lambda>_. act_raise e)
      else act_bind (act_modify (update_batch i f)) (\<lambda>_. register_dual_role env i gr ro sem)) c))" for c i P e f gr ro sem
    by (auto intro!: wakes_intros wakes_role)
  then have "wakes ?a (snd (register_dual env msg sig ls a))" unfolding register_dual_def Let_def .
  then show ?thesis by (rule wakes_trans [OF 1])
qed

lemma wakes_register: "wakes a (snd (handle_register_tensors env msg a))"
  unfolding handle_register_tensors_def Let_def by (auto intro!: wakes_intros wakes_dual wakes_split)

subsection \<open>The other handlers\<close>

lemma wakes_run_round: "wakes a (snd (run_round env b d msg a))"
proof -
  have "wakes c (snd (fail_round b d msg e c))" for e c unfolding fail_round_def Let_def by (auto intro!: wakes_intros)
  then show ?thesis unfolding run_round_def Let_def by (auto intro!: wakes_intros split: option.split)
qed

lemma wakes_transfer: "wakes a (snd (handle_transfer env msg a))"
proof -
  have pub: "wakes c (snd (publish_transfer_request b d r c))" for b d r c
    unfolding publish_transfer_request_def by (auto intro!: wakes_intros)
  have enter: "wakes c (snd (enter_round env b role d msg c))" for b role d c
    unfolding enter_round_def Let_def by (auto intro!: wakes_intros pub wakes_run_round)
  have pin: "wakes c (snd (pin_direction env b d c))" for b d c
    unfolding pin_direction_def Let_def by (auto intro!: wakes_intros split: option.split sum.split)
  have dual: "wakes c (snd (execute_dual_transfer env msg b c))" for b c
    unfolding execute_dual_transfer_def Let_def by (auto intro!: wakes_intros pin enter)
  have simple: "wakes c (snd (simple_transfers ty b n c))" for ty b n c
    unfolding simple_transfers_def simple_transfer_def by (auto intro!: wakes_intros)
  have "wakes c (snd (split_transfer env msg b c))" for b c
    unfolding split_transfer_def Let_def by (auto intro!: wakes_intros simple)
  then show ?thesis using dual unfolding handle_transfer_def by (auto split: option.split)
qed

lemma wakes_init: "wakes a (snd (handle_init_pair env msg a))"
proof -
  have 1: "wakes c (snd (write_init_pair_keys msg c))" for c
    unfolding write_init_pair_keys_def Let_def by (auto intro!: wakes_intros split: option.split)
  have 2: "wakes c (snd (same_field ld k pl c))" for ld :: "string \<Rightarrow> 'v option" and k pl c
    unfolding same_field_def by (auto intro!: wakes_intros)
  have 3: "wakes c (snd (repeat_init_pair env msg p c))" for p c
    unfolding repeat_init_pair_def Let_def same_field_def by (auto intro!: wakes_intros)
  show ?thesis unfolding handle_init_pair_def Let_def by (auto intro!: wakes_intros 1 3 split: option.split)
qed

lemma wakes_message: "wakes a (snd (handle_message env msg a))"
proof -
  have query: "wakes c (snd (handle_query_status q c))" for q c
    unfolding handle_query_status_def Let_def by (auto intro!: wakes_intros split: option.split)
  have cleanup: "wakes c (snd (handle_cleanup_batch m c))" for m c
    unfolding handle_cleanup_batch_def by (auto intro!: wakes_intros split: option.split)
  show ?thesis unfolding handle_message_def
    by (auto intro!: wakes_intros wakes_init wakes_transfer wakes_register query cleanup split: message.split)
qed

section \<open>Who still waits\<close>

definition waits_for_pair :: "string \<Rightarrow> agent \<Rightarrow> bool" where
  "waits_for_pair s a \<longleftrightarrow> list_ex (\<lambda>(_, p). s \<in> set (all_semaphores p)) (ag_pending_pairs a)"

definition waits_in_batch :: "string \<Rightarrow> batch_state \<Rightarrow> bool" where
  "waits_in_batch s b \<longleftrightarrow> s \<in> set (b_pending_register_semaphores b) \<or> s \<in> set (parked_rounds b)"

definition waits :: "string \<Rightarrow> agent \<Rightarrow> bool" where
  "waits s a \<longleftrightarrow> waits_for_pair s a \<or> (\<exists>bid b. dict_get (ag_batches a) bid = Some b \<and> waits_in_batch s b)"

lemma raise_Inr [simp]: "act_raise e a = (Inr x, a') \<longleftrightarrow> False"
  by (simp add: act_raise_def)

lemma run_round_complete: "run_round env b d msg a = (Inr c, a') \<Longrightarrow> c"
  by (auto simp: run_round_def Let_def act_Inr fail_round_def split: option.splits if_splits)

lemma publish_batches: "publish_transfer_request b d r a = (Inr x, a') \<Longrightarrow> ag_batches a' = ag_batches a"
  by (auto simp: publish_transfer_request_def act_Inr act_lift_def split: if_splits)

lemma parked_member: "dict_get (b_dual_round_pending b) k = Some p \<Longrightarrow> s \<in> set (rp_semaphores p) \<Longrightarrow> s \<in> set (parked_rounds b)"
  by (cases k) (fastforce simp: parked_rounds_def dest!: map_of_SomeD)

lemma enter_round_parks:
  assumes "enter_round env b role d msg a = (Inr False, a')" "dict_get (ag_batches a) (b_batch_id b) = Some b" "truthy (tc_semaphore msg) = Some s"
  shows "waits s a'"
proof -
  let ?k = "(d, tc_sync_round msg)"
  let ?p = "join_round role (tc_semaphore msg) (pending_round b d (tc_sync_round msg))"
  let ?up = "\<lambda>q. update_batch (b_batch_id b) (\<lambda>b. b\<lparr>b_dual_round_pending := dict_set (b_dual_round_pending b) ?k q\<rparr>)"
  obtain a2 where a2: "a' = ?up ?p a2" "ag_batches a2 = ag_batches (?up (pending_round b d (tc_sync_round msg)) a)"
    using assms(1) by (auto simp: enter_round_def Let_def act_Inr publish_batches dest: run_round_complete split: if_splits)
  then obtain b' where b': "dict_get (ag_batches a') (b_batch_id b) = Some b'" "dict_get (b_dual_round_pending b') ?k = Some ?p"
    using assms(2) by (auto simp: dict_simps)
  have "s \<in> set (rp_semaphores ?p)" using assms(3) by (simp add: join_round_def)
  from parked_member [OF b'(2) this] show ?thesis using b'(1) unfolding waits_def waits_in_batch_def by blast
qed

lemma pin_keeps_batch:
  assumes "pin_direction env batch d a = (Inr x, a')" "batches_ok a"
  shows "batches_ok a'"
  using quiet_ok [of a a'] quiet_pin [of a env batch d] assms by simp

lemma transfer_parks:
  assumes "handle_transfer env msg a = (Inr False, a')" "batches_ok a" "truthy (tc_semaphore msg) = Some s"
  shows "waits s a'"
proof -
  obtain b where b: "dict_get (ag_batches a) (tc_batch_id msg) = Some b" "execute_dual_transfer env msg b a = (Inr False, a')"
    using assms(1) by (auto simp: handle_transfer_def split_transfer_def Let_def act_Inr split: option.splits if_splits)
  obtain role d a1 b1 where e: "pin_direction env b d a = (Inr (), a1)" "dict_get (ag_batches a1) (b_batch_id b) = Some b1"
    "enter_round env b1 role d msg a1 = (Inr False, a')"
    using b(2) by (auto simp: execute_dual_transfer_def Let_def act_Inr act_lift_def split: if_splits)
  have "b_batch_id b1 = b_batch_id b" using pin_keeps_batch [OF e(1) assms(2)] e(2) by (simp add: batches_ok_def)
  then show ?thesis using enter_round_parks [OF e(3) _ assms(3)] e(2) by simp
qed

lemma role_parks:
  assumes "register_dual_role env bid grouped role sem a = (Inr False, a')" "truthy sem = Some s"
  shows "waits s a'"
proof -
  obtain b1 a1 where s: "dict_get (ag_batches a1) bid = Some b1"
    "a' = update_batch bid (\<lambda>b. b\<lparr>b_pending_register_semaphores := b_pending_register_semaphores b @ [s]\<rparr>) a1"
    using assms by (clarsimp simp: register_dual_role_def Let_def act_Inr finish_dual_def split: if_splits)
  then show ?thesis by (auto simp: waits_def waits_in_batch_def intro!: exI [of _ bid])
qed

lemma register_parks:
  assumes "handle_register_tensors env msg a = (Inr False, a')" "truthy (rc_semaphore msg) = Some s"
  shows "waits s a'"
proof -
  obtain g r a1 where "register_dual_role env (rc_batch_id msg) g r (rc_semaphore msg) a1 = (Inr False, a')"
    using assms(1)
    by (auto simp: handle_register_tensors_def register_dual_def register_split_def Let_def act_Inr reject_registration_def split: if_splits prod.splits)
  then show ?thesis using role_parks assms(2) by blast
qed

lemma truthy_Some: "truthy x = Some s \<Longrightarrow> x = Some s"
  by (cases x) (auto simp: truthy_def split: if_splits)

lemma add_semaphore_member:
  assumes "s = Some n"
  shows "n \<in> set (all_semaphores (add_semaphore l s p))"
proof -
  have "dict_get (pp_semaphores (add_semaphore l s p)) l = Some (dict_get_or (pp_semaphores p) l [] @ [s])" by (simp add: add_semaphore_def dict_simps)
  from map_of_SomeD [OF this] show ?thesis using assms by (force simp: all_semaphores_def somes_def)
qed

lemma pending_put: "s \<in> set (all_semaphores p) \<Longrightarrow> waits s (put_pending p a)"
proof -
  have "dict_get (ag_pending_pairs (put_pending p a)) (pp_pair_name p) = Some p" by (simp add: put_pending_def dict_simps)
  from map_of_SomeD [OF this] show "s \<in> set (all_semaphores p) \<Longrightarrow> waits s (put_pending p a)"
    by (force simp: waits_def waits_for_pair_def list_ex_iff)
qed

lemma init_accounts:
  assumes "handle_init_pair env msg a = (Inr (), a')" "truthy (ic_semaphore msg) = Some s"
  shows "s \<notin> set (ag_semaphores a') \<or> waits s a'"
  using assms(1) add_semaphore_member [OF truthy_Some [OF assms(2)]] pending_put assms(2)
  by (auto simp: handle_init_pair_def Let_def act_Inr repeat_init_pair_def release_if_def split: option.splits if_splits)

text \<open>What the end of a command adds: a wake-up, after the record of the error when there is one.\<close>

lemma release_if_trace:
  assumes "truthy sem = Some s"
  shows "ag_trace (release_if sem a) = ag_trace a @ (if s \<in> set (ag_semaphores a) then [Woke s] else [])" "s \<notin> set (ag_semaphores (release_if sem a))"
  using assms by (simp_all add: release_if_def release_semaphore_def)

lemma fail_if_trace:
  assumes "truthy sem = Some s"
  shows "ag_trace (fail_if sem e a) = ag_trace a @ Recorded s e # (if s \<in> set (ag_semaphores a) then [Woke s] else [])"
    "s \<notin> set (ag_semaphores (fail_if sem e a))" "has_error s (fail_if sem e a)"
  using assms has_error_record [of s e a] by (simp_all add: fail_if_def fail_semaphore_trace) (simp_all add: fail_semaphore_def has_error_def)

text \<open>
  C27. No client is forgotten while its command is handled. A client waits on the semaphore of a
  command and the agent, in a state whose batches are filed under their own ids, executes it. If the handler raises, the error is recorded and the
  client has been woken; unless the handler itself had woken it before, its wake-up is the last
  thing that happens, right after the record. If the handler returns, the client has been woken
  and its semaphore is gone, or the agent holds the semaphore with a pending pair, a registration
  that waits for the other role, or a parked round.
\<close>

theorem command_semaphore_accounted:
  assumes "batches_ok a" "truthy (semaphore_name msg) = Some s" "s \<in> set (ag_semaphores a)"
    and "a' = snd (execute_command env msg a)"
  shows "\<exists>tr. ag_trace a' = ag_trace a @ tr \<and>
    (case fst (handle_message env msg a) of
       Inl e \<Rightarrow> s \<notin> set (ag_semaphores a') \<and> has_error s a' \<and>
         (\<exists>pre. tr = pre @ [Recorded s e, Woke s] \<or> Woke s \<in> set pre \<and> tr = pre @ [Recorded s e])
     | Inr _ \<Rightarrow> s \<notin> set (ag_semaphores a') \<and> Woke s \<in> set tr \<or> waits s a')"
proof -
  obtain r a1 where h: "handle_message env msg a = (r, a1)" by fastforce
  obtain tr where tr: "ag_trace a1 = ag_trace a @ tr" "s \<in> set (ag_semaphores a1) \<or> Woke s \<in> set tr"
    using wakes_message [of a env msg] assms(3) by (auto simp: wakes_def h)
  show ?thesis
  proof (cases r)
    case (Inl e)
    then have "a' = fail_if (semaphore_name msg) e a1" using h assms(4) by (simp add: execute_command_def)
    then show ?thesis using fail_if_trace [OF assms(2), of e a1] tr h Inl
      by (intro exI [of _ "tr @ Recorded s e # (if s \<in> set (ag_semaphores a1) then [Woke s] else [])"]) auto
  next
    case (Inr complete)
    show ?thesis
    proof (cases "complete \<and> \<not> is_init_pair msg")
      case True
      then have "a' = release_if (semaphore_name msg) a1" using h Inr assms(4) by (simp add: execute_command_def)
      then show ?thesis using release_if_trace [OF assms(2), of a1] tr h Inr
        by (intro exI [of _ "tr @ (if s \<in> set (ag_semaphores a1) then [Woke s] else [])"]) auto
    next
      case False
      then have "a' = a1" using h Inr assms(4) by (auto simp: execute_command_def)
      moreover have "s \<notin> set (ag_semaphores a1) \<or> waits s a1"
        using False h Inr assms(1,2) init_accounts [of env _ a a1 s] transfer_parks [of env _ a a1 s] register_parks [of env _ a a1 s]
        by (cases msg) (auto simp: handle_message_def act_Inr is_init_pair_def)
      ultimately show ?thesis using tr h Inr by auto
    qed
  qed
qed

theorem command_semaphore_accounted_witness:
  "waits ''s2'' (snd (execute_command sample_outside (Transfer ((sample_transfer 2)\<lparr>tc_sync_round := 1\<rparr>)) (sample_agent None)))"
proof -
  let ?msg = "Transfer ((sample_transfer 2)\<lparr>tc_sync_round := 1\<rparr>)"
  have ok: "batches_ok (sample_agent None)" by (simp add: batches_ok_def sample_agent_def idle_agent_def sample_batch_def new_batch_def)
  have sem: "truthy (semaphore_name ?msg) = Some ''s2''" by (simp add: truthy_def sample_transfer_def)
  have s2: "''s2'' \<in> set (ag_semaphores (sample_agent None))" by simp
  have "''s2'' \<in> set (ag_semaphores (snd (execute_command sample_outside ?msg (sample_agent None))))"
    "\<exists>c. fst (handle_message sample_outside ?msg (sample_agent None)) = Inr c" by code_simp+
  then show ?thesis using command_semaphore_accounted [OF ok sem s2 refl, of sample_outside] by auto
qed

end
