(* ===== verification/Queue_Lifecycle.thy ===== *)
theory Queue_Lifecycle
  imports Command_Queue
begin

text \<open>
  Opening and closing of the command queue (\<^verbatim>\<open>command_queue.py\<close>, \<open>__init__\<close> and
  \<open>close\<close>). The machine holds named semaphores and files; a process works through handles,
  which stay valid when the name behind them is unlinked, as on POSIX systems. The ready
  semaphore elects the leader, who creates the counters; everyone else attaches to them.
\<close>

section \<open>Named semaphores and files\<close>

record os =
  os_names :: "(string, nat) dict"     \<comment> \<open>semaphore names\<close>
  os_counts :: "nat \<Rightarrow> nat"
  os_files :: "(string, nat) dict"     \<comment> \<open>paths\<close>
  os_disk :: "nat \<Rightarrow> lmdb"             \<comment> \<open>contents by inode\<close>
  os_next :: nat                       \<comment> \<open>next free semaphore or inode\<close>

text \<open>\<open>posix_ipc.Semaphore\<close> with \<open>O_CREAT | O_EXCL\<close>, without flags, and \<open>unlink\<close>.\<close>

definition sem_create :: "string \<Rightarrow> int \<Rightarrow> os \<Rightarrow> nat result \<times> os" where
  "sem_create n initial_value os =
     (if initial_value < 0 then (Inl ValueError, os)
      else if dict_get (os_names os) n \<noteq> None then (Inl ExistentialError, os)
      else (Inr (os_next os), os\<lparr>os_names := dict_set (os_names os) n (os_next os),
        os_counts := (os_counts os)(os_next os := nat initial_value), os_next := os_next os + 1\<rparr>))"

definition sem_attach :: "string \<Rightarrow> os \<Rightarrow> nat result" where
  "sem_attach n os = (case dict_get (os_names os) n of None \<Rightarrow> Inl ExistentialError | Some i \<Rightarrow> Inr i)"

definition sem_unlink :: "string \<Rightarrow> os \<Rightarrow> unit result \<times> os" where
  "sem_unlink n os =
     (if dict_get (os_names os) n = None then (Inl ExistentialError, os)
      else (Inr (), os\<lparr>os_names := dict_del (os_names os) n\<rparr>))"

definition file_open :: "string \<Rightarrow> os \<Rightarrow> nat \<times> os" where
  "file_open path os =
     (case dict_get (os_files os) path of
        Some i \<Rightarrow> (i, os)
      | None \<Rightarrow> (os_next os, os\<lparr>os_files := dict_set (os_files os) path (os_next os),
          os_disk := (os_disk os)(os_next os := []), os_next := os_next os + 1\<rparr>))"

definition file_unlink :: "string \<Rightarrow> os \<Rightarrow> os" where
  "file_unlink path os = os\<lparr>os_files := dict_del (os_files os) path\<rparr>"

section \<open>Opening\<close>

record queue_handle =
  qh_path :: string
  qh_capacity :: nat
  qh_sem :: "nat option"
  qh_space_sem :: "nat option"
  qh_env :: "nat option"

text \<open>\<open>UPath.stem\<close>: the last component without its last suffix.\<close>

definition path_name :: "string \<Rightarrow> string" where
  "path_name p = rev (takeWhile (\<lambda>c. c \<noteq> CHR ''/'') (dropWhile (\<lambda>c. c = CHR ''/'') (rev p)))"

definition path_stem :: "string \<Rightarrow> string" where
  "path_stem p =
     (let n = path_name p;
          suffix = rev (takeWhile (\<lambda>c. c \<noteq> CHR ''.'') (rev n));
          stem = take (length n - length suffix - 1) n
      in if suffix \<noteq> [] \<and> suffix \<noteq> n \<and> stem \<noteq> [] then stem else n)"

definition sem_name :: "string \<Rightarrow> string" where
  "sem_name path = ''/cq_'' @ path_stem path"

definition space_sem_name :: "string \<Rightarrow> string" where
  "space_sem_name path = ''/cq_space_'' @ path_stem path"

definition ready_name :: "string \<Rightarrow> string" where
  "ready_name path = ''/cq_ready_'' @ path_stem path"

definition lock_file :: "string \<Rightarrow> string" where
  "lock_file path = path @ ''-lock''"

definition init_lmdb_environment :: "string \<Rightarrow> os \<Rightarrow> nat result \<times> os" where
  "init_lmdb_environment path os =
     (case file_open path (snd (file_open (lock_file path) os)) of (i, os1) \<Rightarrow>
      case init_pointers (os_disk os1 i) of
        Inl e \<Rightarrow> (Inl e, os1)
      | Inr db \<Rightarrow> (Inr i, os1\<lparr>os_disk := (os_disk os1)(i := db)\<rparr>))"

text \<open>The leader's counters, from the size it finds in the database.\<close>

definition create_counters :: "string \<Rightarrow> nat \<Rightarrow> nat \<Rightarrow> os \<Rightarrow> (nat \<times> nat) result \<times> os" where
  "create_counters path capacity i os =
     (case txn_size (os_disk os i) of
        Inl e \<Rightarrow> (Inl e, os)
      | Inr current_size \<Rightarrow>
      case sem_create (sem_name path) current_size os of
        (Inl e, os1) \<Rightarrow> (Inl e, os1)
      | (Inr s, os1) \<Rightarrow>
      case sem_create (space_sem_name path) (int capacity - current_size) os1 of
        (Inl e, os2) \<Rightarrow> (Inl e, os2)
      | (Inr p, os2) \<Rightarrow> (Inr (s, p), os2))"

text \<open>The clean-up of a leader that failed: the first name that is missing ends it.\<close>

definition leader_cleanup :: "string \<Rightarrow> os \<Rightarrow> os" where
  "leader_cleanup path os =
     (case sem_unlink (sem_name path) os of
        (Inl _, os1) \<Rightarrow> os1
      | (Inr _, os1) \<Rightarrow>
      case sem_unlink (space_sem_name path) os1 of
        (Inl _, os2) \<Rightarrow> os2
      | (Inr _, os2) \<Rightarrow> snd (sem_unlink (ready_name path) os2))"

text \<open>A follower takes the ready semaphore and gives it back; it waits while the count is zero.\<close>

definition attach_queue :: "string \<Rightarrow> nat \<Rightarrow> os \<Rightarrow> queue_handle answer \<times> os" where
  "attach_queue path capacity os =
     (case sem_attach (ready_name path) os of
        Inl e \<Rightarrow> (Answer (Inl e), os)
      | Inr r \<Rightarrow>
      if os_counts os r = 0 then (Waiting, os)
      else case init_lmdb_environment path os of
        (Inl e, os1) \<Rightarrow> (Answer (Inl e), os1)
      | (Inr i, os1) \<Rightarrow>
          (Answer (res_bind (sem_attach (sem_name path) os1) (\<lambda>s.
             res_bind (sem_attach (space_sem_name path) os1) (\<lambda>p.
             Inr \<lparr>qh_path = path, qh_capacity = capacity, qh_sem = Some s, qh_space_sem = Some p, qh_env = Some i\<rparr>))), os1))"

text \<open>
  The whole of \<open>__init__\<close>. The handler of \<open>ExistentialError\<close> covers the leader's branch
  too, so a leader that finds its counters in place goes on as a follower.
\<close>

definition open_queue :: "string \<Rightarrow> nat \<Rightarrow> os \<Rightarrow> queue_handle answer \<times> os" where
  "open_queue path capacity os =
     (case sem_create (ready_name path) 0 os of
        (Inl e, os1) \<Rightarrow> attach_queue path capacity os1
      | (Inr r, os1) \<Rightarrow>
      case init_lmdb_environment path os1 of
        (Inl e, os2) \<Rightarrow> (Answer (Inl e), os2)
      | (Inr i, os2) \<Rightarrow>
      case create_counters path capacity i os2 of
        (Inr (s, p), os3) \<Rightarrow>
          (Answer (Inr \<lparr>qh_path = path, qh_capacity = capacity, qh_sem = Some s, qh_space_sem = Some p, qh_env = Some i\<rparr>),
           os3\<lparr>os_counts := (os_counts os3)(r := os_counts os3 r + 1)\<rparr>)
      | (Inl e, os3) \<Rightarrow>
          if e = ExistentialError then attach_queue path capacity (leader_cleanup path os3)
          else (Answer (Inl e), leader_cleanup path os3))"

section \<open>Closing\<close>

definition unlink_semaphores :: "queue_handle \<Rightarrow> os \<Rightarrow> os" where
  "unlink_semaphores h os =
     (let os1 = (if qh_sem h \<noteq> None then snd (sem_unlink (sem_name (qh_path h)) os) else os);
          os2 = (if qh_space_sem h \<noteq> None then snd (sem_unlink (space_sem_name (qh_path h)) os1) else os1)
      in snd (sem_unlink (ready_name (qh_path h)) os2))"

definition close_queue :: "bool \<Rightarrow> queue_handle \<Rightarrow> os \<Rightarrow> queue_handle \<times> os" where
  "close_queue destroy h os =
     (h\<lparr>qh_sem := None, qh_space_sem := None, qh_env := None\<rparr>,
      if destroy then file_unlink (lock_file (qh_path h)) (file_unlink (qh_path h) (unlink_semaphores h os)) else os)"

section \<open>Working through a handle\<close>

definition handle_queue :: "queue_handle \<Rightarrow> os \<Rightarrow> command_queue option" where
  "handle_queue h os =
     (case (qh_sem h, qh_space_sem h, qh_env h) of
        (Some s, Some p, Some i) \<Rightarrow>
          Some \<lparr>q_capacity = qh_capacity h, q_db = os_disk os i, q_sem = os_counts os s, q_space_sem = os_counts os p\<rparr>
      | _ \<Rightarrow> None)"

definition put_queue :: "queue_handle \<Rightarrow> command_queue \<Rightarrow> os \<Rightarrow> os" where
  "put_queue h q os =
     (case (qh_sem h, qh_space_sem h, qh_env h) of
        (Some s, Some p, Some i) \<Rightarrow>
          os\<lparr>os_disk := (os_disk os)(i := q_db q), os_counts := (os_counts os)(s := q_sem q, p := q_space_sem q)\<rparr>
      | _ \<Rightarrow> os)"

text \<open>A method on a closed queue fails on its missing attributes.\<close>

definition via :: "queue_handle \<Rightarrow> (command_queue \<Rightarrow> 'a answer \<times> command_queue) \<Rightarrow> os \<Rightarrow> 'a answer \<times> os" where
  "via h f os =
     (case handle_queue h os of
        None \<Rightarrow> (Answer (Inl AttributeError), os)
      | Some q \<Rightarrow> (case f q of (r, q') \<Rightarrow> (r, put_queue h q' os)))"

section \<open>A queue in use\<close>

lemma names_differ [simp]:
  "sem_name p \<noteq> space_sem_name p" "sem_name p \<noteq> ready_name p" "space_sem_name p \<noteq> ready_name p"
  "space_sem_name p \<noteq> sem_name p" "ready_name p \<noteq> sem_name p" "ready_name p \<noteq> space_sem_name p"
  "lock_file p \<noteq> p" "p \<noteq> lock_file p"
proof -
  have "length (sem_name p) \<noteq> length (space_sem_name p)" "length (sem_name p) \<noteq> length (ready_name p)"
    "space_sem_name p ! 4 \<noteq> ready_name p ! 4" "length (lock_file p) \<noteq> length p"
    by (simp_all add: sem_name_def space_sem_name_def ready_name_def lock_file_def)
  then show "sem_name p \<noteq> space_sem_name p" "sem_name p \<noteq> ready_name p" "space_sem_name p \<noteq> ready_name p"
    "space_sem_name p \<noteq> sem_name p" "ready_name p \<noteq> sem_name p" "ready_name p \<noteq> space_sem_name p"
    "lock_file p \<noteq> p" "p \<noteq> lock_file p" by metis+
qed

text \<open>
  Nothing of a queue is on the machine; its names and files are those of one handle; the
  objects behind the handle are different ones and in use.
\<close>

definition absent :: "string \<Rightarrow> os \<Rightarrow> bool" where
  "absent path os \<longleftrightarrow> dict_get (os_names os) (sem_name path) = None \<and> dict_get (os_names os) (space_sem_name path) = None \<and>
     dict_get (os_names os) (ready_name path) = None \<and> dict_get (os_files os) path = None \<and> dict_get (os_files os) (lock_file path) = None"

definition live :: "string \<Rightarrow> nat \<Rightarrow> os \<Rightarrow> queue_handle \<Rightarrow> bool" where
  "live path c os h \<longleftrightarrow>
     qh_path h = path \<and> qh_capacity h = c \<and> qh_sem h \<noteq> None \<and> qh_space_sem h \<noteq> None \<and> qh_env h \<noteq> None \<and>
     dict_get (os_names os) (sem_name path) = qh_sem h \<and> dict_get (os_names os) (space_sem_name path) = qh_space_sem h \<and>
     dict_get (os_files os) path = qh_env h \<and> dict_get (os_files os) (lock_file path) \<noteq> None \<and> qh_sem h \<noteq> qh_space_sem h \<and>
     (\<forall>x \<in> {qh_sem h, qh_space_sem h, qh_env h}. the x < os_next os) \<and>
     (\<exists>r. dict_get (os_names os) (ready_name path) = Some r \<and> 0 < os_counts os r \<and> Some r \<noteq> qh_sem h \<and> Some r \<noteq> qh_space_sem h)"

definition carries :: "(bytes \<Rightarrow> 'm option) \<Rightarrow> queue_handle \<Rightarrow> os \<Rightarrow> nat \<Rightarrow> 'm list \<Rightarrow> bool" where
  "carries dec h os n ms \<longleftrightarrow> (\<exists>q. handle_queue h os = Some q \<and> represents dec q n ms)"

lemmas os_defs = sem_create_def sem_attach_def sem_unlink_def file_open_def file_unlink_def dict_get_set dict_get_del

text \<open>The first process to open a queue becomes its leader.\<close>

lemma open_absent:
  assumes "absent path os" "0 < c" "c \<le> 2 ^ 56"
  shows "\<exists>h os'. open_queue path c os = (Answer (Inr h), os') \<and> live path c os' h \<and> carries dec h os' 0 [] \<and>
    qh_sem h = Some (os_next os + 3) \<and> qh_space_sem h = Some (os_next os + 4) \<and> qh_env h = Some (os_next os + 2) \<and>
    (\<forall>x < os_next os. os_counts os' x = os_counts os x \<and> os_disk os' x = os_disk os x)"
proof -
  have "txn_size (dict_set (dict_set [] head_key (le_bytes 8 0)) tail_key (le_bytes 8 0)) = Inr 0"
    using get_pointer_ok [of _ _ 0] by (simp add: txn_size_def get_tail_def get_head_def dict_get_set)
  then show ?thesis using assms
    by (simp add: absent_def open_queue_def init_lmdb_environment_def create_counters_def os_defs init_pointers_def set_head_def
        set_tail_def pack_Q_ok live_def carries_def handle_queue_def represents_def holds_def)
qed

text \<open>Every further one gets the same objects and changes nothing.\<close>

lemma open_live:
  assumes "live path c os h" "carries dec h os n ms"
  shows "open_queue path c os = (Answer (Inr h), os)"
proof -
  obtain r s p i l where n: "dict_get (os_names os) (ready_name path) = Some r" "0 < os_counts os r"
    "qh_sem h = Some s" "qh_space_sem h = Some p" "qh_env h = Some i" "dict_get (os_files os) (lock_file path) = Some l"
    using assms(1) by (auto simp: live_def)
  have "dict_get (os_disk os i) head_key \<noteq> None" using assms(2) n by (auto simp: carries_def handle_queue_def represents_def holds_def)
  then have "init_lmdb_environment path os = (Inr i, os)"
    using assms(1) n by (auto simp: init_lmdb_environment_def file_open_def live_def init_pointers_def)
  then show ?thesis using assms(1) n
    by (cases h) (auto simp: open_queue_def attach_queue_def sem_create_def sem_attach_def live_def)
qed

lemma live_put: "live path c os h \<Longrightarrow> live path c (put_queue h q os) h"
  by (auto simp: live_def put_queue_def)

lemma handle_put: "live path c os h \<Longrightarrow> q_capacity q = c \<Longrightarrow> handle_queue h (put_queue h q os) = Some q"
  by (cases q) (auto simp: live_def put_queue_def handle_queue_def)

lemma close_kept [simp]: "snd (close_queue False h os) = os"
  by (simp add: close_queue_def)


section \<open>Many processes\<close>

text \<open>
  Processes open the queue, close it without destroying it, and ask for messages to be put or
  taken. The replies are those of the requests that reach an open queue; there are none at all
  when an opening fails or has to wait.
\<close>

datatype 'm life_cmd = Open nat | Close nat | Ask nat "'m request"

fun ask :: "('m \<Rightarrow> bytes) \<Rightarrow> (bytes \<Rightarrow> 'm option) \<Rightarrow> queue_handle \<Rightarrow> 'm request \<Rightarrow> os \<Rightarrow> 'm reply \<times> os" where
  "ask enc dec h (Put m) os = (case via h (enqueue enc NoWait m) os of (r, os') \<Rightarrow> (Put_reply r, os'))"
| "ask enc dec h Take os = (case via h (dequeue dec None) os of (r, os') \<Rightarrow> (Take_reply r, os'))"

fun life :: "('m \<Rightarrow> bytes) \<Rightarrow> (bytes \<Rightarrow> 'm option) \<Rightarrow> string \<Rightarrow> nat \<Rightarrow> os \<Rightarrow> (nat \<rightharpoonup> queue_handle) \<Rightarrow> 'm life_cmd list \<Rightarrow> 'm reply list option" where
  "life enc dec path c os P [] = Some []"
| "life enc dec path c os P (Open p # cs) =
     (case P p of
        Some _ \<Rightarrow> life enc dec path c os P cs
      | None \<Rightarrow>
          (case open_queue path c os of
             (Answer (Inr h), os') \<Rightarrow> life enc dec path c os' (P(p \<mapsto> h)) cs
           | _ \<Rightarrow> None))"
| "life enc dec path c os P (Close p # cs) =
     (case P p of
        None \<Rightarrow> life enc dec path c os P cs
      | Some h \<Rightarrow> life enc dec path c (snd (close_queue False h os)) (P(p := None)) cs)"
| "life enc dec path c os P (Ask p r # cs) =
     (case P p of
        None \<Rightarrow> life enc dec path c os P cs
      | Some h \<Rightarrow> (case ask enc dec h r os of (reply, os') \<Rightarrow> map_option ((#) reply) (life enc dec path c os' P cs)))"

text \<open>The requests of processes that have the queue open.\<close>

fun asked :: "nat set \<Rightarrow> 'm life_cmd list \<Rightarrow> 'm request list" where
  "asked O' [] = []"
| "asked O' (Open p # cs) = asked (insert p O') cs"
| "asked O' (Close p # cs) = asked (O' - {p}) cs"
| "asked O' (Ask p r # cs) = (if p \<in> O' then r # asked O' cs else asked O' cs)"

lemma via_live:
  assumes "live path c os h" "handle_queue h os = Some q" "f q = (r, q')" "q_capacity q' = c"
  shows "\<exists>os'. via h f os = (r, os') \<and> live path c os' h \<and> handle_queue h os' = Some q'"
  using assms live_put [OF assms(1)] handle_put [OF assms(1,4)] by (auto simp: via_def)

lemma handle_capacity: "live path c os h \<Longrightarrow> handle_queue h os = Some q \<Longrightarrow> q_capacity q = c"
  by (auto simp: live_def handle_queue_def)

lemma via_unchanged:
  assumes "live path c os h" "handle_queue h os = Some q" "f q = (r, q)"
  shows "via h f os = (r, os)"
  using assms by (auto simp: via_def put_queue_def handle_queue_def live_def)

text \<open>What a request does to a queue that processes share, as the contract of a bounded FIFO.\<close>

definition shares :: "string \<Rightarrow> nat \<Rightarrow> (bytes \<Rightarrow> 'm option) \<Rightarrow> queue_handle \<Rightarrow> os \<Rightarrow> nat \<Rightarrow> 'm list \<Rightarrow> bool" where
  "shares path c dec h os n ms \<longleftrightarrow> live path c os h \<and> carries dec h os n ms"

lemma shares_step:
  assumes "shares path c dec h os n ms" "\<And>q. represents dec q n ms \<Longrightarrow> q_capacity q = c \<Longrightarrow>
    \<exists>q'. f q = (r, q') \<and> represents dec q' n' ms' \<and> q_capacity q' = c"
  shows "\<exists>os'. via h f os = (r, os') \<and> shares path c dec h os' n' ms'"
proof -
  obtain q where q: "live path c os h" "handle_queue h os = Some q" "represents dec q n ms" using assms(1) by (auto simp: shares_def carries_def)
  obtain q' where "f q = (r, q')" "represents dec q' n' ms'" "q_capacity q' = c" using assms(2) [OF q(3) handle_capacity [OF q(1,2)]] by blast
  then show ?thesis using via_live [OF q(1,2)] by (fastforce simp: shares_def carries_def)
qed

lemma shares_still:
  assumes "shares path c dec h os n ms" "\<And>q. represents dec q n ms \<Longrightarrow> q_capacity q = c \<Longrightarrow> f q = (r, q)"
  shows "via h f os = (r, os)"
  using assms via_unchanged handle_capacity by (fastforce simp: shares_def carries_def)

interpretation shared: bounded_fifo "\<lambda>m. via h (enqueue enc NoWait m)" "via h (dequeue dec None)"
  "\<lambda>os n ms. shares path c dec h os n ms \<and> (\<forall>m. dec (enc m) = Some m)" "\<lambda>_. c" "2 ^ 64"
  for h path c and enc :: "'m \<Rightarrow> bytes" and dec :: "bytes \<Rightarrow> 'm option"
proof (unfold_locales, goal_cases)
  case (1 os n ms)
  then show ?case by (auto simp: shares_def carries_def represents_def dest: handle_capacity)
next
  case (2 os n ms m)
  then show ?case using shares_step [of path c dec h os n ms "enqueue enc NoWait m"] enqueue_ok [of dec _ n ms enc m NoWait] by metis
next
  case (3 os n ms m)
  then show ?case using shares_still [of path c dec h os n ms "enqueue enc NoWait m"] enqueue_full [of dec _ n ms enc NoWait m] by auto
next
  case (4 os n m ms)
  then show ?case using shares_step [of path c dec h os n "m # ms" "dequeue dec None"] dequeue_ok [of dec _ n m ms None] by metis
next
  case (5 os n)
  then show ?case using shares_still [of path c dec h os n "[]" "dequeue dec None"] dequeue_empty [of dec _ n] by blast
qed

lemma ask_fifo:
  assumes "\<forall>m. dec (enc m) = Some m" "shares path c dec h os n ms" "n + length ms + 1 < 2 ^ 64"
  shows "\<exists>reply os' n' ms'. ask enc dec h r os = (reply, os') \<and> shares path c dec h os' n' ms' \<and> n' + length ms' \<le> n + length ms + 1 \<and>
    (\<forall>rs. fifo c n ms (r # rs) = reply # fifo c n' ms' rs)"
proof (cases r)
  case (Put m)
  show ?thesis
  proof (cases "length ms < c")
    case True
    obtain os' where "via h (enqueue enc NoWait m) os = (Answer (Inr (n + length ms)), os')" "shares path c dec h os' n (ms @ [m])"
      using shared.enq_room [of path c dec h os n ms enc m] assms True by auto
    then show ?thesis using Put True by (intro exI [of _ "Put_reply (Answer (Inr (n + length ms)))"] exI [of _ os'] exI [of _ n] exI [of _ "ms @ [m]"]) simp
  next
    case False
    then have "length ms = c" using shared.rep_cap [of path c dec h os n ms enc] assms by simp
    then have "ask enc dec h r os = (Put_reply (Answer (Inl QueueFullError)), os)" using Put assms shared.enq_full [of path c dec h os n ms enc m] by simp
    then show ?thesis using Put False assms(2) by (intro exI [of _ "Put_reply (Answer (Inl QueueFullError))"] exI [of _ os] exI [of _ n] exI [of _ ms]) simp
  qed
next
  case Take
  show ?thesis
  proof (cases ms)
    case Nil
    then have "ask enc dec h r os = (Take_reply (Answer (Inr None)), os)" using Take assms shared.deq_none [of path c dec h os n enc] by simp
    then show ?thesis using Take Nil assms(2) by (intro exI [of _ "Take_reply (Answer (Inr None))"] exI [of _ os] exI [of _ n] exI [of _ "[]"]) simp
  next
    case (Cons m ms')
    then obtain os' where "via h (dequeue dec None) os = (Answer (Inr (Some m)), os')" "shares path c dec h os' (n + 1) ms'"
      using shared.deq_some [of path c dec h os n m ms' enc] assms by blast
    then show ?thesis using Take Cons by (intro exI [of _ "Take_reply (Answer (Inr (Some m)))"] exI [of _ os'] exI [of _ "n + 1"] exI [of _ ms']) simp
  qed
qed

lemma life_shared:
  assumes codec: "\<forall>m. dec (enc m) = Some m"
  shows "shares path c dec h os n ms \<Longrightarrow> ran P \<subseteq> {h} \<Longrightarrow> n + length ms + length cs < 2 ^ 64 \<Longrightarrow>
    life enc dec path c os P cs = Some (fifo c n ms (asked (dom P) cs))"
proof (induction cs arbitrary: os P n ms)
  case (Cons cmd cs)
  note IH = Cons.IH and s = Cons.prems(1) and P = Cons.prems(2) and len = Cons.prems(3)
  show ?case
  proof (cases cmd)
    case (Open p)
    have o: "open_queue path c os = (Answer (Inr h), os)" using s open_live by (auto simp: shares_def)
    have "ran (P(p \<mapsto> h)) \<subseteq> {h}" "insert p (dom P) = (if P p = None then dom (P(p \<mapsto> h)) else dom P)" using P by (auto simp: ran_def)
    then show ?thesis using Open o IH [OF s] P len by (cases "P p") (auto simp del: fun_upd_apply)
  next
    case (Close p)
    have "ran (P(p := None)) \<subseteq> {h}" "dom P - {p} = dom (P(p := None))" "P p = None \<Longrightarrow> P(p := None) = P" using P by (auto simp: ran_def)
    then show ?thesis using Close IH [OF s] len by (cases "P p") (auto simp del: fun_upd_apply)
  next
    case (Ask p r)
    show ?thesis
    proof (cases "P p")
      case None
      then show ?thesis using Ask IH [OF s P] len by (auto simp: domIff)
    next
      case (Some h')
      then have dom: "p \<in> dom P" "h' = h" using P by (auto simp: ran_def)
      obtain reply os' n' ms' where a: "ask enc dec h r os = (reply, os')" "shares path c dec h os' n' ms'" "n' + length ms' \<le> n + length ms + 1"
        "\<And>rs. fifo c n ms (r # rs) = reply # fifo c n' ms' rs"
        using ask_fifo [OF codec s, of r] len by auto
      show ?thesis using IH [OF a(2) P] a(1,3,4) Ask Some dom len by simp
    qed
  qed
qed simp

lemma life_absent:
  assumes "\<forall>m. dec (enc m) = Some m" "absent path os" "0 < c" "c \<le> 2 ^ 56"
  shows "length cs < 2 ^ 64 \<Longrightarrow> life enc dec path c os (\<lambda>_. None) cs = Some (fifo c 0 [] (asked {} cs))"
proof (induction cs)
  case (Cons cmd cs)
  show ?case
  proof (cases cmd)
    case (Open p)
    obtain h os' where "open_queue path c os = (Answer (Inr h), os')" "shares path c dec h os' 0 []"
      using open_absent [OF assms(2-4), of dec] by (auto simp: shares_def)
    then show ?thesis using Open life_shared [OF assms(1), of path c h os' 0 "[]" "[p \<mapsto> h]" cs] Cons.prems by simp
  qed (use Cons in auto)
qed simp

section \<open>Closing for good\<close>

text \<open>Objects that only a handle still knows are not touched by anyone else.\<close>

definition same_objects :: "queue_handle \<Rightarrow> os \<Rightarrow> os \<Rightarrow> bool" where
  "same_objects h os os' \<longleftrightarrow> (\<forall>s. qh_sem h = Some s \<or> qh_space_sem h = Some s \<longrightarrow> os_counts os' s = os_counts os s) \<and>
     (\<forall>i. qh_env h = Some i \<longrightarrow> os_disk os' i = os_disk os i)"

lemma carries_same: "same_objects h os os' \<Longrightarrow> carries dec h os n ms \<Longrightarrow> carries dec h os' n ms"
  by (auto simp: same_objects_def carries_def handle_queue_def split: option.splits)

lemma close_destroys:
  assumes "live path c os h"
  shows "absent path (snd (close_queue True h os))" "same_objects h os (snd (close_queue True h os))" "os_next (snd (close_queue True h os)) = os_next os"
  using assms by (auto simp: close_queue_def unlink_semaphores_def os_defs absent_def live_def same_objects_def Let_def)

lemma via_elsewhere:
  assumes "\<forall>x \<in> {qh_sem h, qh_space_sem h}. \<forall>y \<in> {qh_sem h2, qh_space_sem h2}. x \<noteq> y" "qh_env h \<noteq> qh_env h2"
  shows "same_objects h os (snd (via h2 f os))"
  using assms by (auto simp: via_def put_queue_def same_objects_def split: option.splits prod.splits)


section \<open>Properties\<close>

text \<open>
  C9. Any number of processes that open the queue, close it without destroying it and open
  it again work on one queue, from the moment the first of them has created it: on a machine
  that holds nothing of the queue every opening succeeds, and the replies to all requests, in
  the order they are made and whoever makes them, are those of one bounded first-in first-out
  queue.
\<close>
theorem shared_queue_fifo:
  assumes "absent path os" "0 < c" "c \<le> 2 ^ 56" "\<forall>m. dec (enc m) = Some m" "length cs < 2 ^ 64"
  shows "life enc dec path c os (\<lambda>_. None) cs = Some (fifo c 0 [] (asked {} cs))"
  using life_absent [OF assms(4,1,2,3)] assms(5) by simp

definition bare_os :: os where
  "bare_os = \<lparr>os_names = [], os_counts = (\<lambda>_. 0), os_files = [], os_disk = (\<lambda>_. []), os_next = 0\<rparr>"

lemma bare_absent [simp]: "absent path bare_os"
  by (simp add: absent_def bare_os_def)

theorem shared_queue_fifo_witness:
  "life id Some ''/tmp/q.lmdb'' 2 bare_os (\<lambda>_. None) [Open 0, Open 1, Ask 1 (Put [7]), Close 1, Ask 0 Take, Open 1, Ask 1 Take] =
     Some [Put_reply (Answer (Inr 0)), Take_reply (Answer (Inr (Some [7]))), Take_reply (Answer (Inr None))]"
  using shared_queue_fifo [of "''/tmp/q.lmdb''" bare_os 2 Some id "[Open 0, Open 1, Ask 1 (Put [7]), Close 1, Ask 0 Take, Open 1, Ask 1 Take]"]
  by simp

text \<open>
  C38. Closing with \<open>destroy=True\<close>, the default, removes every name and file of the queue but
  not the handles of other processes: whoever has it open keeps working on the old queue with
  its messages, the next opening creates a new, empty queue, and nothing that is put there
  ever reaches the others.
\<close>
theorem destroying_close_splits_queue:
  assumes "live path c os h" "carries dec h os n ms" "0 < c" "c \<le> 2 ^ 56"
  shows "\<exists>h2 os2. absent path (snd (close_queue True h os)) \<and> open_queue path c (snd (close_queue True h os)) = (Answer (Inr h2), os2) \<and>
    carries dec h2 os2 0 [] \<and> carries dec h os2 n ms \<and> (\<forall>m. carries dec h (snd (via h2 (enqueue enc NoWait m) os2)) n ms)"
proof -
  let ?os = "snd (close_queue True h os)"
  note d = close_destroys [OF assms(1)]
  obtain h2 os2 where o: "open_queue path c ?os = (Answer (Inr h2), os2)" "carries dec h2 os2 0 []"
    "qh_sem h2 = Some (os_next os + 3)" "qh_space_sem h2 = Some (os_next os + 4)" "qh_env h2 = Some (os_next os + 2)"
    "\<forall>x < os_next os. os_counts os2 x = os_counts ?os x \<and> os_disk os2 x = os_disk ?os x"
    using open_absent [OF d(1) assms(3,4), of dec] d(3) by auto
  have "same_objects h ?os os2" using o(6) assms(1) by (auto simp: same_objects_def live_def)
  then have old: "carries dec h os2 n ms" using carries_same d(2) assms(2) by blast
  have "same_objects h os2 (snd (via h2 f os2))" for f :: "command_queue \<Rightarrow> nat answer \<times> command_queue"
    using assms(1) o(3-5) by (intro via_elsewhere) (auto simp: live_def)
  then show ?thesis using o d(1) old carries_same by blast
qed

theorem destroying_close_splits_queue_witness:
  "\<exists>h os h2 os2. open_queue ''/tmp/q.lmdb'' 2 bare_os = (Answer (Inr h), os) \<and>
     open_queue ''/tmp/q.lmdb'' 2 (snd (close_queue True h os)) = (Answer (Inr h2), os2) \<and>
     carries Some h (snd (via h2 (enqueue id NoWait [7]) os2)) 0 []"
proof -
  obtain h os where h: "open_queue ''/tmp/q.lmdb'' 2 bare_os = (Answer (Inr h), os)" "live ''/tmp/q.lmdb'' 2 os h" "carries Some h os 0 []"
    using open_absent [of "''/tmp/q.lmdb''" bare_os 2 Some] by auto
  show ?thesis using destroying_close_splits_queue [OF h(2,3), of id] h(1) by auto
qed

text \<open>
  C39. A leader whose database holds more messages than its capacity fails with
  \<open>ValueError\<close>, and its clean-up stops at the semaphore it never created: the ready semaphore
  stays behind with the count zero, so every later opening, with whatever capacity, waits for
  ever.
\<close>
theorem failed_leader_blocks_opens:
  assumes "dict_get (os_names os) (sem_name path) = None" "dict_get (os_names os) (space_sem_name path) = None"
    "dict_get (os_names os) (ready_name path) = None" "dict_get (os_files os) path = Some i" "i < os_next os"
    "dict_get (os_disk os i) head_key \<noteq> None" "txn_size (os_disk os i) = Inr found" "int c < found"
  shows "\<exists>os'. open_queue path c os = (Answer (Inl ValueError), os') \<and> (\<forall>c'. open_queue path c' os' = (Waiting, os'))"
proof -
  let ?r = "os_next os"
  define os1 where "os1 = snd (file_open (lock_file path) (snd (sem_create (ready_name path) 0 os)))"
  have os1: "os_names os1 = dict_set (os_names os) (ready_name path) ?r" "os_counts os1 ?r = 0" "?r < os_next os1"
    "dict_get (os_files os1) path = Some i" "os_disk os1 i = os_disk os i"
    using assms(3,4,5) by (auto simp: os1_def os_defs split: option.splits)
  have lmdb: "init_lmdb_environment path (snd (sem_create (ready_name path) 0 os)) = (Inr i, os1)"
  proof -
    have "file_open path os1 = (i, os1)" using os1(4) by (simp add: file_open_def)
    moreover have "(os_disk os1)(i := os_disk os i) = os_disk os1" using os1(5) by auto
    ultimately show ?thesis using os1(5) assms(6) by (auto simp: init_lmdb_environment_def os1_def [symmetric] init_pointers_def)
  qed
  let ?os2 = "snd (sem_create (sem_name path) found os1)"
  have os2: "create_counters path c i os1 = (Inl ValueError, ?os2)"
    using os1 assms(1,7,8) by (simp add: create_counters_def os_defs)
  have os': "dict_get (os_names (leader_cleanup path ?os2)) (ready_name path) = Some ?r" "os_counts (leader_cleanup path ?os2) ?r = 0"
    using os1 assms(1,2,8) by (simp_all add: leader_cleanup_def os_defs)
  have "open_queue path c os = (Answer (Inl ValueError), leader_cleanup path ?os2)"
    using lmdb os2 assms(3) by (simp add: open_queue_def sem_create_def)
  moreover have "open_queue path c' (leader_cleanup path ?os2) = (Waiting, leader_cleanup path ?os2)" for c'
    using os' by (simp add: open_queue_def attach_queue_def sem_create_def sem_attach_def)
  ultimately show ?thesis by blast
qed

definition stale_os :: os where
  "stale_os = \<lparr>os_names = [], os_counts = (\<lambda>_. 0), os_files = [(''/tmp/q.lmdb'', 0)],
     os_disk = (\<lambda>_. [(head_key, le_bytes 8 0), (tail_key, le_bytes 8 3)]), os_next = 1\<rparr>"

theorem failed_leader_blocks_opens_witness:
  "\<exists>os'. open_queue ''/tmp/q.lmdb'' 2 stale_os = (Answer (Inl ValueError), os') \<and> open_queue ''/tmp/q.lmdb'' 5 os' = (Waiting, os')"
proof -
  have "txn_size (os_disk stale_os 0) = Inr 3"
    using get_pointer_ok [of _ _ 0] get_pointer_ok [of _ _ 3] by (simp add: stale_os_def txn_size_def get_tail_def get_head_def)
  then show ?thesis using failed_leader_blocks_opens [of stale_os "''/tmp/q.lmdb''" 0 3 2] by (auto simp: stale_os_def)
qed

end
