(* ===== verification/Startup.thy ===== *)
theory Startup
  imports Queue_Lifecycle Client
begin

text \<open>
  How the processes of the tensor bus start and stop: \<open>_connect_agent\<close>, \<open>__init__\<close> and
  \<open>close\<close> of the client (\<^verbatim>\<open>client.py\<close>), the resolution of the agent's rank and paths
  (\<^verbatim>\<open>bootstrap.py\<close>) and \<open>__init__\<close> and \<open>close\<close> of the agent (\<^verbatim>\<open>agent.py\<close>), on
  the machine of \<open>Queue_Lifecycle\<close>. The contents of the state database are in the agent's
  state; the machine knows its file.
\<close>

section \<open>Connecting\<close>

text \<open>
  \<open>_connect_agent\<close> polls twice: until the state database exists, then until its heartbeat is
  less than five seconds old. An observation is the time of a poll and what it finds; a
  heartbeat that cannot be read is skipped. When the observations end the loop still runs.
\<close>

fun wait_for_file :: "nat \<Rightarrow> (nat \<times> bool) list \<Rightarrow> unit answer" where
  "wait_for_file deadline [] = Waiting"
| "wait_for_file deadline ((now, exists_path) # obs) =
     (if exists_path then Answer (Inr ())
      else if deadline < now then Answer (Inl ConnectionError)
      else wait_for_file deadline obs)"

fun wait_for_heartbeat :: "nat \<Rightarrow> (nat \<times> nat option) list \<Rightarrow> unit answer" where
  "wait_for_heartbeat deadline [] = Waiting"
| "wait_for_heartbeat deadline ((now, heartbeat) # obs) =
     (if deadline < now then Answer (Inl ConnectionError)
      else case heartbeat of
        None \<Rightarrow> wait_for_heartbeat deadline obs
      | Some t \<Rightarrow> if int now - int t < 5 then Answer (Inr ()) else wait_for_heartbeat deadline obs)"

definition connect_agent :: "nat \<Rightarrow> (nat \<times> bool) list \<Rightarrow> (nat \<times> nat option) list \<Rightarrow> unit answer" where
  "connect_agent deadline files heartbeats =
     (case wait_for_file deadline files of
        Answer (Inr _) \<Rightarrow> wait_for_heartbeat deadline heartbeats
      | r \<Rightarrow> r)"

section \<open>The client\<close>

text \<open>The capacity is the default of \<open>CommandQueue\<close>.\<close>

definition default_capacity :: nat where
  "default_capacity = 50000"

record client =
  cl_agent_rank :: int
  cl_queue :: queue_handle
  cl_state_open :: bool

text \<open>
  \<open>os.path.exists(None)\<close> is a \<open>TypeError\<close>; what the path class makes of a missing queue
  path is an argument.
\<close>

definition path_or_environ :: "string option \<Rightarrow> (string, string) dict \<Rightarrow> string \<Rightarrow> string option" where
  "path_or_environ path environ var = (case path of None \<Rightarrow> dict_get environ var | Some p \<Rightarrow> Some p)"

definition client_init ::
  "string result \<Rightarrow> (string, string) dict \<Rightarrow> int \<Rightarrow> string option \<Rightarrow> string option \<Rightarrow> nat \<Rightarrow>
   (nat \<times> bool) list \<Rightarrow> (nat \<times> nat option) list \<Rightarrow> os \<Rightarrow> client answer \<times> os" where
  "client_init no_path environ agent_rank queue_path state_path deadline files heartbeats os =
     (case path_or_environ state_path environ ''TENSOR_BUS_STATE_PATH'' of
        None \<Rightarrow> (Answer (Inl TypeError), os)
      | Some _ \<Rightarrow>
      case connect_agent deadline files heartbeats of
        Waiting \<Rightarrow> (Waiting, os)
      | Answer (Inl e) \<Rightarrow> (Answer (Inl e), os)
      | Answer (Inr _) \<Rightarrow>
      case (case path_or_environ queue_path environ ''TENSOR_BUS_COMMAND_QUEUE_PATH'' of None \<Rightarrow> no_path | Some p \<Rightarrow> Inr p) of
        Inl e \<Rightarrow> (Answer (Inl e), os)
      | Inr p \<Rightarrow>
      case open_queue p default_capacity os of
        (Waiting, os1) \<Rightarrow> (Waiting, os1)
      | (Answer (Inl e), os1) \<Rightarrow> (Answer (Inl e), os1)
      | (Answer (Inr h), os1) \<Rightarrow> (Answer (Inr \<lparr>cl_agent_rank = agent_rank, cl_queue = h, cl_state_open = True\<rparr>), os1))"

definition client_close :: "client \<Rightarrow> os \<Rightarrow> client \<times> os" where
  "client_close cl os = (case close_queue True (cl_queue cl) os of (h, os') \<Rightarrow> (cl\<lparr>cl_queue := h, cl_state_open := False\<rparr>, os'))"

section \<open>Bootstrap\<close>

record bootstrap_info =
  bi_agent_rank :: int
  bi_global_rank :: int
  bi_rank_offset :: "int option"
  bi_command_queue_path :: string
  bi_state_path :: string
  bi_method :: string

definition resolve_bootstrap :: "(string, string) dict \<Rightarrow> (int \<Rightarrow> string \<times> string) option \<Rightarrow> bootstrap_info result" where
  "resolve_bootstrap environ path_naming_fn =
     res_bind (case dict_get environ ''RANK'' of None \<Rightarrow> Inl KeyError | Some raw \<Rightarrow> read_int raw) (\<lambda>global_rank.
     res_bind (case dict_get environ ''AGENT_RANK'' of
         Some raw \<Rightarrow> res_bind (read_int raw) (\<lambda>r. Inr (None, r, ''direct''))
       | None \<Rightarrow> res_bind (case dict_get environ ''AGENT_RANK_OFFSET'' of None \<Rightarrow> Inr 0 | Some raw \<Rightarrow> read_int raw) (\<lambda>off.
           Inr (Some off, global_rank + off, ''offset''))) (\<lambda>(rank_offset, agent_rank, meth).
     let paths = (case path_naming_fn of
         None \<Rightarrow> (''/tmp/agent_rank'' @ show_int agent_rank @ ''_command.lmdb'', ''/tmp/agent_rank'' @ show_int agent_rank @ ''_state.lmdb'')
       | Some f \<Rightarrow> f agent_rank) in
     Inr \<lparr>bi_agent_rank = agent_rank, bi_global_rank = global_rank, bi_rank_offset = rank_offset,
       bi_command_queue_path = fst paths, bi_state_path = snd paths, bi_method = meth\<rparr>))"

definition bootstrap_client ::
  "string result \<Rightarrow> (string, string) dict \<Rightarrow> (int \<Rightarrow> string \<times> string) option \<Rightarrow> nat \<Rightarrow>
   (nat \<times> bool) list \<Rightarrow> (nat \<times> nat option) list \<Rightarrow> os \<Rightarrow> (client \<times> bootstrap_info) answer \<times> os" where
  "bootstrap_client no_path environ path_naming_fn deadline files heartbeats os =
     (case resolve_bootstrap environ path_naming_fn of
        Inl e \<Rightarrow> (Answer (Inl e), os)
      | Inr info \<Rightarrow>
      case client_init no_path environ (bi_agent_rank info) (Some (bi_command_queue_path info)) (Some (bi_state_path info))
          deadline files heartbeats os of
        (Waiting, os1) \<Rightarrow> (Waiting, os1)
      | (Answer (Inl e), os1) \<Rightarrow> (Answer (Inl e), os1)
      | (Answer (Inr cl), os1) \<Rightarrow> (Answer (Inr (cl, info)), os1))"

section \<open>The agent\<close>

text \<open>The namespace: rank 0 makes one up and broadcasts it to all agents unless it was given.\<close>

definition agent_namespace :: "string option \<Rightarrow> string \<Rightarrow> string" where
  "agent_namespace store_namespace rank0_uuid = (case store_namespace of None \<Rightarrow> take 8 rank0_uuid | Some ns \<Rightarrow> ns)"

definition new_agent :: "nat \<Rightarrow> nat \<Rightarrow> tcp_store \<Rightarrow> nat \<Rightarrow> (string, state_value) dict \<Rightarrow> string list \<Rightarrow> agent" where
  "new_agent rank world_size store now state_db semaphores =
     update_heartbeat
       \<lparr>ag_rank = rank, ag_world_size = world_size, ag_store = store, ag_state_db = state_db, ag_command_error_times = [],
        ag_clock = now, ag_pairs = [], ag_batches = [], ag_batch_generation = [], ag_pending_pairs = [],
        ag_completion_cursor = 0, ag_completion_log_len = 0, ag_pg = pg_init, ag_semaphores = semaphores, ag_trace = []\<rparr>"

text \<open>
  \<open>__init__\<close> with the TCP backend: the store, the command queue, the state database with what
  is left in it from before, and the first heartbeat.
\<close>

definition agent_init ::
  "nat \<Rightarrow> nat \<Rightarrow> string option \<Rightarrow> string \<Rightarrow> (string, string) dict \<Rightarrow> string \<Rightarrow> string \<Rightarrow> nat \<Rightarrow> (string, state_value) dict \<Rightarrow> string list \<Rightarrow>
   os \<Rightarrow> (agent \<times> queue_handle) answer \<times> os" where
  "agent_init rank world_size store_namespace rank0_uuid server queue_path state_path now state_db semaphores os =
     (let store = \<lparr>kv_namespace = agent_namespace store_namespace rank0_uuid, kv_component = ''tensorbus'', tcp_data = server, tcp_known_keys = []\<rparr> in
      case open_queue queue_path default_capacity os of
        (Waiting, os1) \<Rightarrow> (Waiting, os1)
      | (Answer (Inl e), os1) \<Rightarrow> (Answer (Inl e), os1)
      | (Answer (Inr h), os1) \<Rightarrow>
          (Answer (Inr (new_agent rank world_size store now state_db semaphores, h)), snd (file_open state_path os1)))"

definition agent_close :: "bool \<Rightarrow> string \<Rightarrow> queue_handle \<Rightarrow> os \<Rightarrow> queue_handle \<times> os" where
  "agent_close destroy state_path h os =
     (case close_queue destroy h os of (h', os') \<Rightarrow> (h', if destroy then file_unlink state_path os' else os'))"


section \<open>Agent and client meet\<close>

lemma live_file_open: "live path c os h \<Longrightarrow> live path c (snd (file_open p os)) h"
  by (auto simp: live_def file_open_def dict_get_set split: option.splits)

lemma carries_file_open:
  assumes "live path c os h" "carries dec h os n ms"
  shows "carries dec h (snd (file_open p os)) n ms"
  using assms by (auto simp: carries_def handle_queue_def live_def file_open_def split: option.splits)

text \<open>
  C31. An agent that starts on a machine without its queue creates it and writes a heartbeat;
  a client that is booted with the agent's queue path while that heartbeat is less than five
  seconds old gets a handle of the very queue the agent serves, and changes nothing on the
  machine.
\<close>
theorem bootstrap_joins_agent:
  assumes "absent queue_path os" "resolve_bootstrap environ naming = Inr info" "bi_command_queue_path info = queue_path"
    "wait_for_file deadline files = Answer (Inr ())" "t \<le> deadline" "t < now + 5"
  shows "\<exists>a h os1. agent_init rank world_size ns uuid server queue_path state_path now state_db sems os = (Answer (Inr (a, h)), os1) \<and>
    dict_get (ag_state_db a) ''agent:heartbeat'' = Some (Time now) \<and>
    bootstrap_client no_path environ naming deadline files ((t, Some now) # later) os1 =
      (Answer (Inr (\<lparr>cl_agent_rank = bi_agent_rank info, cl_queue = h, cl_state_open = True\<rparr>, info)), os1) \<and>
    carries dec h os1 0 []"
proof -
  obtain h os0 where h: "open_queue queue_path default_capacity os = (Answer (Inr h), os0)" "live queue_path default_capacity os0 h" "carries dec h os0 0 []"
    using open_absent [OF assms(1), of default_capacity dec] by (auto simp: default_capacity_def)
  let ?os1 = "snd (file_open state_path os0)"
  note l = live_file_open [OF h(2), of state_path] carries_file_open [OF h(2,3), of state_path]
  have "open_queue queue_path default_capacity ?os1 = (Answer (Inr h), ?os1)" using open_live l by blast
  then show ?thesis using h(1) l assms
    by (auto simp: agent_init_def new_agent_def update_heartbeat_def dict_get_set bootstrap_client_def client_init_def
        path_or_environ_def connect_agent_def Let_def)
qed

theorem bootstrap_joins_agent_witness:
  "\<exists>a h os1 cl info. agent_init 3 4 None ''abcdef0123'' [] ''/tmp/agent_rank3_command.lmdb'' ''/tmp/agent_rank3_state.lmdb'' 100 [] [] bare_os = (Answer (Inr (a, h)), os1) \<and>
     bootstrap_client (Inl TypeError) [(''RANK'', ''1''), (''AGENT_RANK_OFFSET'', ''2'')] None 130 [(101, True)] [(102, Some 100)] os1 = (Answer (Inr (cl, info)), os1) \<and>
     cl_queue cl = h \<and> bi_agent_rank info = 3"
proof -
  let ?env = "[(''RANK'', ''1''), (''AGENT_RANK_OFFSET'', ''2'')]"
  have r: "resolve_bootstrap ?env None = Inr \<lparr>bi_agent_rank = 3, bi_global_rank = 1, bi_rank_offset = Some 2,
      bi_command_queue_path = ''/tmp/agent_rank3_command.lmdb'', bi_state_path = ''/tmp/agent_rank3_state.lmdb'', bi_method = ''offset''\<rparr>"
    by code_simp
  show ?thesis using bootstrap_joins_agent [OF bare_absent [of "''/tmp/agent_rank3_command.lmdb''"] r, of 130 "[(101, True)]" 102 100 3 4 None "''abcdef0123''" "[]"
      "''/tmp/agent_rank3_state.lmdb''" "[]" "[]" "Inl TypeError" "[]" Some] by auto
qed

section \<open>Agents do not meet\<close>

lemma stem_lmdb:
  assumes "CHR ''/'' \<notin> set base" "base \<noteq> []"
  shows "path_stem (dir @ ''/'' @ base @ ''.lmdb'') = base"
proof -
  have "takeWhile (\<lambda>c. c \<noteq> CHR ''/'') (rev base @ CHR ''/'' # rev dir) = rev base"
    using assms(1) by (subst takeWhile_append2) auto
  then have "path_name (dir @ ''/'' @ base @ ''.lmdb'') = base @ ''.lmdb''" by (simp add: path_name_def)
  then show ?thesis using assms(2) by (simp add: path_stem_def Let_def)
qed

definition default_queue_path :: "int \<Rightarrow> string" where
  "default_queue_path r = ''/tmp/agent_rank'' @ show_int r @ ''_command.lmdb''"

lemma default_stem: "path_stem (default_queue_path r) = ''agent_rank'' @ show_int r @ ''_command''"
  using stem_lmdb [of "''agent_rank'' @ show_int r @ ''_command''" "''/tmp''"] show_int_chars [of "CHR ''/''" r]
  by (auto simp: default_queue_path_def is_digit_def)

lemma default_names:
  assumes "a \<noteq> b"
  shows "n \<in> {sem_name, space_sem_name, ready_name} \<Longrightarrow> k \<in> {sem_name, space_sem_name, ready_name} \<Longrightarrow> n (default_queue_path a) \<noteq> k (default_queue_path b)"
    "default_queue_path a \<noteq> default_queue_path b" "lock_file (default_queue_path a) \<noteq> lock_file (default_queue_path b)"
    "lock_file (default_queue_path a) \<noteq> default_queue_path b" "default_queue_path a \<noteq> lock_file (default_queue_path b)"
proof -
  have ne: "show_int a \<noteq> show_int b" using assms by (simp add: show_int_inj)
  show "n (default_queue_path a) \<noteq> k (default_queue_path b)" if "n \<in> {sem_name, space_sem_name, ready_name}" "k \<in> {sem_name, space_sem_name, ready_name}"
    using that ne by (auto simp: sem_name_def space_sem_name_def ready_name_def default_stem)
  have "last (lock_file (default_queue_path x)) \<noteq> last (default_queue_path y)" for x y by (simp add: lock_file_def default_queue_path_def)
  then show "default_queue_path a \<noteq> default_queue_path b" "lock_file (default_queue_path a) \<noteq> lock_file (default_queue_path b)"
    "lock_file (default_queue_path a) \<noteq> default_queue_path b" "default_queue_path a \<noteq> lock_file (default_queue_path b)"
    using ne by (auto simp: default_queue_path_def lock_file_def)
qed

lemma sem_unlink_facts [simp]:
  "dict_get (os_names (snd (sem_unlink n os))) k = (if k = n then None else dict_get (os_names os) k)"
  "os_files (snd (sem_unlink n os)) = os_files os" "os_counts (snd (sem_unlink n os)) = os_counts os"
  "os_disk (snd (sem_unlink n os)) = os_disk os" "os_next (snd (sem_unlink n os)) = os_next os"
  by (auto simp: sem_unlink_def dict_get_del)

lemma file_unlink_facts [simp]:
  "dict_get (os_files (file_unlink p os)) k = (if k = p then None else dict_get (os_files os) k)"
  "os_names (file_unlink p os) = os_names os" "os_counts (file_unlink p os) = os_counts os"
  "os_disk (file_unlink p os) = os_disk os" "os_next (file_unlink p os) = os_next os"
  by (simp_all add: file_unlink_def dict_get_del)

lemma close_names:
  assumes "n \<noteq> sem_name (qh_path h)" "n \<noteq> space_sem_name (qh_path h)" "n \<noteq> ready_name (qh_path h)"
  shows "dict_get (os_names (snd (close_queue d h os))) n = dict_get (os_names os) n"
  using assms by (simp add: close_queue_def unlink_semaphores_def Let_def)

lemma close_files:
  assumes "p \<noteq> qh_path h" "p \<noteq> lock_file (qh_path h)"
  shows "dict_get (os_files (snd (close_queue d h os))) p = dict_get (os_files os) p"
  using assms by (simp add: close_queue_def unlink_semaphores_def Let_def)

lemma close_objects [simp]: "os_counts (snd (close_queue d h os)) = os_counts os" "os_disk (snd (close_queue d h os)) = os_disk os"
  "os_next (snd (close_queue d h os)) = os_next os"
  by (simp_all add: close_queue_def unlink_semaphores_def Let_def)

lemma close_other:
  assumes "live path c os h2" "path \<noteq> qh_path h1" "lock_file path \<noteq> lock_file (qh_path h1)" "path \<noteq> lock_file (qh_path h1)" "lock_file path \<noteq> qh_path h1"
    "\<And>n k. n \<in> {sem_name, space_sem_name, ready_name} \<Longrightarrow> k \<in> {sem_name, space_sem_name, ready_name} \<Longrightarrow> n path \<noteq> k (qh_path h1)"
  shows "live path c (snd (close_queue d h1 os)) h2 \<and> handle_queue h2 (snd (close_queue d h1 os)) = handle_queue h2 os"
proof -
  let ?os = "snd (close_queue d h1 os)"
  have "dict_get (os_names ?os) (n path) = dict_get (os_names os) (n path)" if "n \<in> {sem_name, space_sem_name, ready_name}" for n
    using assms(6) [OF that] by (intro close_names) blast+
  then have n: "dict_get (os_names ?os) (sem_name path) = dict_get (os_names os) (sem_name path)"
    "dict_get (os_names ?os) (space_sem_name path) = dict_get (os_names os) (space_sem_name path)"
    "dict_get (os_names ?os) (ready_name path) = dict_get (os_names os) (ready_name path)" by simp_all
  have "live path c ?os h2" using assms(1) by (simp add: live_def n close_files assms(2-5))
  moreover have "handle_queue h2 ?os = handle_queue h2 os" by (simp add: handle_queue_def split: option.splits)
  ultimately show ?thesis by blast
qed

lemma resolve_default:
  assumes "resolve_bootstrap environ None = Inr info"
  shows "bi_command_queue_path info = default_queue_path (bi_agent_rank info)"
  using assms by (auto simp: resolve_bootstrap_def default_queue_path_def Let_def res_simps)

text \<open>
  Clients that resolve to different agents under the default naming never share a queue:
  when one of them closes and destroys its queue, the queue of the other agent keeps its names,
  its files, its counters and its messages.
\<close>
theorem default_queues_apart:
  assumes "resolve_bootstrap environ1 None = Inr info1" "resolve_bootstrap environ2 None = Inr info2" "bi_agent_rank info1 \<noteq> bi_agent_rank info2"
    "qh_path (cl_queue cl) = bi_command_queue_path info1" "live (bi_command_queue_path info2) c os h"
  shows "live (bi_command_queue_path info2) c (snd (client_close cl os)) h \<and> handle_queue h (snd (client_close cl os)) = handle_queue h os"
proof -
  have p: "bi_command_queue_path info1 = default_queue_path (bi_agent_rank info1)" "bi_command_queue_path info2 = default_queue_path (bi_agent_rank info2)"
    using assms(1,2) resolve_default by blast+
  have "snd (client_close cl os) = snd (close_queue True (cl_queue cl) os)" by (simp add: client_close_def split: prod.splits)
  moreover have "live (bi_command_queue_path info2) c (snd (close_queue True (cl_queue cl) os)) h \<and> handle_queue h (snd (close_queue True (cl_queue cl) os)) = handle_queue h os"
    using assms(3-5) p default_names [of "bi_agent_rank info1" "bi_agent_rank info2"] default_names [of "bi_agent_rank info2" "bi_agent_rank info1"]
    by (intro close_other) auto
  ultimately show ?thesis by simp
qed

theorem default_queues_apart_witness:
  "\<exists>h os h0. open_queue ''/tmp/agent_rank3_command.lmdb'' 2 bare_os = (Answer (Inr h), os) \<and> qh_path h0 = ''/tmp/agent_rank2_command.lmdb'' \<and>
     live ''/tmp/agent_rank3_command.lmdb'' 2 (snd (client_close \<lparr>cl_agent_rank = 2, cl_queue = h0, cl_state_open = True\<rparr> os)) h"
proof -
  obtain h os where h: "open_queue ''/tmp/agent_rank3_command.lmdb'' 2 bare_os = (Answer (Inr h), os)" "live ''/tmp/agent_rank3_command.lmdb'' 2 os h"
    using open_absent [of "''/tmp/agent_rank3_command.lmdb''" bare_os 2 Some] by auto
  let ?h0 = "\<lparr>qh_path = ''/tmp/agent_rank2_command.lmdb'', qh_capacity = 2, qh_sem = Some 9, qh_space_sem = Some 8, qh_env = Some 7\<rparr>"
  let ?i = "\<lambda>r c s. \<lparr>bi_agent_rank = r, bi_global_rank = 0, bi_rank_offset = None, bi_command_queue_path = c, bi_state_path = s, bi_method = ''direct''\<rparr>"
  have r2: "resolve_bootstrap [(''RANK'', ''0''), (''AGENT_RANK'', ''2'')] None = Inr (?i 2 ''/tmp/agent_rank2_command.lmdb'' ''/tmp/agent_rank2_state.lmdb'')"
    by code_simp
  have r3: "resolve_bootstrap [(''RANK'', ''0''), (''AGENT_RANK'', ''3'')] None = Inr (?i 3 ''/tmp/agent_rank3_command.lmdb'' ''/tmp/agent_rank3_state.lmdb'')"
    by code_simp
  show ?thesis using default_queues_apart [OF r2 r3, of "\<lparr>cl_agent_rank = 2, cl_queue = ?h0, cl_state_open = True\<rparr>" 2 os h] h
    by (intro exI [of _ h] exI [of _ os] exI [of _ ?h0]) simp
qed

end
