(* ===== verification/Agent_Typing.thy ===== *)
theory Agent_Typing
  imports Startup Round_Properties
begin

text \<open>
  The well-formedness of an agent's state: what its dictionaries promise about their entries,
  from the agent's start through every command and every poll, whether they return or raise.
\<close>

section \<open>Well-formed states\<close>

text \<open>
  A batch is filed under its own id, its pairs are sorted and distinct, the parallel lists of
  tensors and dtypes match, and only the pinned direction of a dual batch has rounds, none of
  them negative, with at most the two roles of the direction in each.
\<close>

definition batch_wf :: "string \<Rightarrow> batch_state \<Rightarrow> bool" where
  "batch_wf bid b \<longleftrightarrow> b_batch_id b = bid \<and> b_pair_names b \<noteq> [] \<and> sorted (b_pair_names b) \<and> distinct (b_pair_names b) \<and>
     (\<forall>n. map_option length (dict_get (b_pair_target_dtypes b) n) = map_option length (dict_get (b_pair_tensors b) n)) \<and>
     (\<forall>k. dict_get (b_pair_role_dtypes b) k = map_option (map t_dtype) (dict_get (b_pair_role_tensors b) k)) \<and>
     (b_send_buckets b = None \<longleftrightarrow> b_recv_buckets b = None) \<and>
     (\<forall>d r. dict_get (b_dual_direction_done b) d = Some r \<longrightarrow> 0 \<le> r \<and> b_dual_direction b = Some d) \<and>
     (\<forall>d r p. dict_get (b_dual_round_pending b) (d, r) = Some p \<longrightarrow>
        0 \<le> r \<and> b_dual_direction b = Some d \<and> distinct (rp_roles p) \<and> set (rp_roles p) \<subseteq> {fst d, snd d})"

definition pair_wf :: "string \<Rightarrow> pair_state \<Rightarrow> bool" where
  "pair_wf n p \<longleftrightarrow> p_pair_name p = n \<and> p_local_name p \<noteq> p_remote_name p \<and>
     p_pair_size p = length (p_local_ranks p) + length (p_remote_ranks p) \<and>
     p_dual_endpoint p = (set (p_local_ranks p) = set (p_remote_ranks p)) \<and>
     p_local_is_first p = (p_local_name p < p_remote_name p) \<and>
     (let names = sort [p_local_name p, p_remote_name p] in
        dict_keys (p_role_ranks p) = names \<and> dict_keys (p_role_groups p) = names \<and> dict_keys (p_role_mesh_shapes p) = names \<and>
        dict_keys (p_m2m_by_source_role p) = names \<and> dict_keys (p_partial_by_source_role p) = names) \<and>
     dict_get (p_role_ranks p) (p_local_name p) = Some (p_local_ranks p) \<and> dict_get (p_role_ranks p) (p_remote_name p) = Some (p_remote_ranks p) \<and>
     dict_get (p_role_groups p) (p_local_name p) = Some (p_local_group p) \<and>
     dict_get (p_m2m_by_source_role p) (p_local_name p) = Some (p_m2m_send p) \<and> dict_get (p_m2m_by_source_role p) (p_remote_name p) = Some (p_m2m_recv p)"

definition pending_wf :: "string \<Rightarrow> pending_pair \<Rightarrow> bool" where
  "pending_wf n q \<longleftrightarrow> pp_pair_name q = n \<and> set (dict_keys (pp_expected q)) \<subseteq> {pp_local_name q, pp_remote_name q} \<and>
     set (dict_keys (pp_semaphores q)) \<subseteq> {pp_local_name q, pp_remote_name q}"

text \<open>
  The agent's tables: one entry per key, every entry well formed, a live batch of the newest
  generation of its id, and no pair both pending and matched.
\<close>

definition agent_wf :: "agent \<Rightarrow> bool" where
  "agent_wf a \<longleftrightarrow> distinct (dict_keys (ag_batches a)) \<and> distinct (dict_keys (ag_pairs a)) \<and> distinct (dict_keys (ag_pending_pairs a)) \<and>
     (\<forall>bid g. dict_get (ag_batch_generation a) bid = Some g \<longrightarrow> 0 < g) \<and>
     (\<forall>bid b. dict_get (ag_batches a) bid = Some b \<longrightarrow> batch_wf bid b \<and> dict_get (ag_batch_generation a) bid = Some (b_generation b)) \<and>
     (\<forall>n p. dict_get (ag_pairs a) n = Some p \<longrightarrow> pair_wf n p) \<and>
     (\<forall>n q. dict_get (ag_pending_pairs a) n = Some q \<longrightarrow> pending_wf n q \<and> dict_get (ag_pairs a) n = None)"

definition same_tables :: "agent \<Rightarrow> agent \<Rightarrow> bool" where
  "same_tables a b \<longleftrightarrow> ag_batches b = ag_batches a \<and> ag_pairs b = ag_pairs a \<and> ag_pending_pairs b = ag_pending_pairs a \<and>
     ag_batch_generation b = ag_batch_generation a"

lemma same_tables_wf: "same_tables a b \<Longrightarrow> agent_wf b = agent_wf a"
  by (simp add: same_tables_def agent_wf_def)

lemma same_tables_refl [simp]: "same_tables a a"
  by (simp add: same_tables_def)

interpretation tables: handler_frame same_tables
  by unfold_locales (auto simp: same_tables_def)

lemma same_tables_fields [simp]:
  "same_tables a (b\<lparr>ag_store := x1\<rparr>) = same_tables a b" "same_tables a (b\<lparr>ag_state_db := x2\<rparr>) = same_tables a b"
  "same_tables a (b\<lparr>ag_pg := x3\<rparr>) = same_tables a b" "same_tables a (b\<lparr>ag_completion_log_len := x4\<rparr>) = same_tables a b"
  "same_tables a (b\<lparr>ag_completion_cursor := x5\<rparr>) = same_tables a b" "same_tables a (emit e b) = same_tables a b"
  by (simp_all add: same_tables_def emit_def)

lemma same_tables_ops [simp]:
  "same_tables a (release_semaphore s b) = same_tables a b" "same_tables a (record_command_error s e b) = same_tables a b"
  "same_tables a (fail_semaphore e s b) = same_tables a b" "same_tables a (store_set k v c b) = same_tables a b"
  "same_tables a (signal k v b) = same_tables a b" "same_tables a (leader_set k v bt b) = same_tables a b"
  "same_tables a (write_command_result s w b) = same_tables a b" "same_tables a (update_heartbeat b) = same_tables a b"
  "same_tables a (release_if sem b) = same_tables a b" "same_tables a (fail_if sem e b) = same_tables a b" "same_tables a (result_if sem g b) = same_tables a b"
proof -
  show r: "same_tables a (release_semaphore s b) = same_tables a b" for s b by (simp add: same_tables_def release_semaphore_def emit_def)
  show "same_tables a (record_command_error s e b) = same_tables a b" by (simp add: same_tables_def record_command_error_def)
  show f: "same_tables a (fail_semaphore e s b) = same_tables a b" for e s b by (simp add: fail_semaphore_def r) (simp add: same_tables_def record_command_error_def)
  show "same_tables a (release_if sem b) = same_tables a b" by (simp add: release_if_def r split: option.split)
  show "same_tables a (fail_if sem e b) = same_tables a b" by (simp add: fail_if_def f split: option.split)
  show w: "same_tables a (write_command_result s w b) = same_tables a b" for s w b by (simp add: same_tables_def write_command_result_def)
  show "same_tables a (result_if sem g b) = same_tables a b" by (simp add: result_if_def w split: option.split)
qed (simp_all add: same_tables_def store_set_def signal_def leader_set_def update_heartbeat_def emit_def)

lemma same_tables_folds [simp]: "same_tables a (release_all ss b) = same_tables a b" "same_tables a (fail_all e ss b) = same_tables a b"
  unfolding release_all_def fail_all_def by (induction ss arbitrary: b) auto

lemma same_tables_lookup [simp]: "same_tables a (snd (lookup d k a))"
  by (simp add: lookup_def split: option.split)

lemma same_tables_load [simp]: "same_tables a (snd (load_tensor env p a))"
  by (simp add: load_tensor_def split: option.split)

lemma same_tables_chunks [simp]: "same_tables a (snd (make_chunks m s t d g a))"
  by (auto simp: make_chunks_def split: option.split prod.split)

lemma same_tables_barrier [simp]: "same_tables a (snd (barrier g a))"
  by (simp add: barrier_def)

lemma same_tables_run [simp]: "same_tables a (snd (run_buckets env bid r bs sq a))"
  by (simp add: run_buckets_def split: option.split)

lemmas table_intros = tables.frame_bind tables.frame_pure tables.frame_modify tables.frame_for tables.frame_fold

section \<open>Handlers that leave the tables alone\<close>

lemma tables_split_transfer: "same_tables a (snd (split_transfer env msg b a))"
proof -
  have 1: "same_tables a (snd (simple_transfer ty pair t a))" for ty pair t a
    unfolding simple_transfer_def by (auto intro!: table_intros)
  have 2: "same_tables a (snd (simple_transfers ty b n a))" for ty b n a
    unfolding simple_transfers_def by (intro table_intros same_tables_lookup 1)
  show ?thesis unfolding split_transfer_def Let_def by (auto intro!: tables.frame_bind tables.frame_for simp: 2)
qed

lemma tables_publish: "same_tables a (snd (publish_transfer_request b d r a))"
  unfolding publish_transfer_request_def by (auto intro!: tables.frame_bind)

lemma tables_query: "same_tables a (snd (handle_query_status msg a))"
proof -
  have "same_tables a (answer_query msg v b) = same_tables a b" for a v b by (simp add: answer_query_def split: option.split)
  then show ?thesis unfolding handle_query_status_def Let_def by (auto intro!: tables.frame_bind split: option.split)
qed

lemma tables_direction: "same_tables a (snd (direction_step b p pair r acc a))"
proof -
  have "same_tables a (snd (tensor_chunks m g x cs a))" for m g x cs a
    unfolding tensor_chunks_def by (cases x) (auto intro!: table_intros)
  then show ?thesis unfolding direction_step_def by (auto intro!: table_intros split: list.split)
qed

lemma tables_keys: "same_tables a (snd (write_init_pair_keys msg a))"
  unfolding write_init_pair_keys_def Let_def by (auto intro!: tables.frame_bind split: option.split)

lemma tables_field [simp]: "same_tables a (snd (same_field ld k pl a))"
  unfolding same_field_def by (auto intro!: tables.frame_bind)

lemma tables_repeat: "same_tables a (snd (repeat_init_pair env msg p a))"
  unfolding repeat_init_pair_def Let_def by (auto intro!: tables.frame_bind)

lemma tables_gather: "same_tables a (snd (gather_sides env p a))"
proof -
  have 1: "same_tables a (snd (side_ranks p n a))" for n a unfolding side_ranks_def by (auto intro!: tables.frame_bind split: option.split)
  have 2: "same_tables a (snd (agree_on_peers env p ranks a))" for ranks a
    unfolding agree_on_peers_def Let_def by (rule tables.frame_bind) (auto intro!: tables.frame_bind split: option.split sum.split)
  show ?thesis unfolding gather_sides_def by (intro tables.frame_bind 1 2) (auto intro!: tables.frame_bind)
qed

lemma tables_append: "same_tables a (snd (append_ready_pairs_to_log a))"
proof -
  have "same_tables a (snd (append_if_ready n a))" for n a
    unfolding append_if_ready_def by (auto intro!: tables.frame_bind simp: Let_def split: option.split)
  then show ?thesis unfolding append_ready_pairs_to_log_def by (intro tables.frame_for)
qed

section \<open>Changing a batch\<close>

definition typed :: "agent \<Rightarrow> agent \<Rightarrow> bool" where
  "typed a b \<longleftrightarrow> (agent_wf a \<longrightarrow> agent_wf b)"

interpretation typed: handler_frame typed
  by unfold_locales (auto simp: typed_def)

lemma typed_tables: "same_tables a b \<Longrightarrow> typed a b"
  by (simp add: typed_def same_tables_wf)

lemma distinct_dict_keys_del [simp]: "distinct (dict_keys d) \<Longrightarrow> distinct (dict_keys (dict_del d k))"
  by (simp add: dict_keys_def AList.delete_eq distinct_map_filter)

lemma agent_wf_update:
  assumes "agent_wf a" "\<And>b. dict_get (ag_batches a) bid = Some b \<Longrightarrow> batch_wf bid b \<Longrightarrow> batch_wf bid (f b) \<and> b_generation (f b) = b_generation b"
  shows "agent_wf (update_batch bid f a)"
  using assms by (auto simp: agent_wf_def update_batch_def dict_simps split: option.split)

lemma typed_update: "(\<And>b. batch_wf bid b \<Longrightarrow> batch_wf bid (f b) \<and> b_generation (f b) = b_generation b) \<Longrightarrow> typed a (update_batch bid f a)"
  by (simp add: typed_def agent_wf_update)

lemma typed_forget: "typed a (a\<lparr>ag_batches := dict_del (ag_batches a) bid\<rparr>)"
  by (auto simp: typed_def agent_wf_def dict_simps)

lemma typed_abort: "typed a (abort_dual_registration b e a)"
  unfolding abort_dual_registration_def Let_def
  by (rule typed.frame_trans [OF typed_tables typed_forget]) simp

lemma typed_cleanup: "typed a (snd (handle_cleanup_batch msg a))"
proof -
  have reset: "same_tables a (reset_dual_store_signals b c) = same_tables a c" for a b c
  proof -
    have "same_tables a (fold (\<lambda>d. signal (k d) v) ds c) = same_tables a c" for k :: "direction \<Rightarrow> string" and v ds c by (induction ds arbitrary: c) auto
    then show ?thesis by (simp add: reset_dual_store_signals_def)
  qed
  show ?thesis unfolding handle_cleanup_batch_def
    by (auto intro!: typed.frame_bind simp: reset typed_tables typed_forget split: option.split)
qed

lemma typed_reject: "typed a (snd (reject_registration bid a))"
  by (auto simp: reject_registration_def typed_abort typed.frame_refl split: option.split)

section \<open>Rounds of a dual batch\<close>

text \<open>While a round is handled the batch, if it is still there, has the round's direction pinned.\<close>

definition pinned :: "string \<Rightarrow> direction \<Rightarrow> agent \<Rightarrow> bool" where
  "pinned bid d a \<longleftrightarrow> agent_wf a \<and> (\<forall>b. dict_get (ag_batches a) bid = Some b \<longrightarrow> b_dual_direction b = Some d)"

definition keeps_pin :: "string \<Rightarrow> direction \<Rightarrow> agent \<Rightarrow> agent \<Rightarrow> bool" where
  "keeps_pin bid d a b \<longleftrightarrow> (pinned bid d a \<longrightarrow> pinned bid d b)"

interpretation pin: handler_frame "keeps_pin bid d" for bid d
  by unfold_locales (auto simp: keeps_pin_def)

lemma pin_tables: "same_tables a b \<Longrightarrow> keeps_pin bid d a b"
  using same_tables_wf [of a b] by (simp add: keeps_pin_def pinned_def same_tables_def)

lemma pin_update:
  assumes "\<And>b. batch_wf bid b \<Longrightarrow> b_dual_direction b = Some d \<Longrightarrow> batch_wf bid (f b)"
    "\<And>b. b_generation (f b) = b_generation b \<and> b_dual_direction (f b) = b_dual_direction b"
  shows "keeps_pin bid d a (update_batch bid f a)"
proof -
  have "agent_wf (update_batch bid f a)" if "pinned bid d a" using that assms by (intro agent_wf_update) (auto simp: pinned_def)
  then show ?thesis using assms(2) by (auto simp: keeps_pin_def pinned_def update_batch_def dict_simps split: option.splits)
qed

lemma pin_drop: "keeps_pin bid d a (drop_round bid d' r a)"
  unfolding drop_round_def by (rule pin_update) (auto simp: batch_wf_def dict_simps)

lemma pin_fail_round: "keeps_pin (b_batch_id b) d a (snd (fail_round b d msg e a))"
proof -
  have "keeps_pin (b_batch_id b) d a (fail_all e ss (drop_round (b_batch_id b) d r a))" for ss r a
    by (rule pin.frame_trans [OF pin_drop [where d' = d and r = r] pin_tables]) simp
  then show ?thesis unfolding fail_round_def Let_def by (auto intro!: pin.frame_bind simp: pin_tables)
qed

lemma pin_run_round:
  assumes "0 \<le> tc_sync_round msg"
  shows "keeps_pin (b_batch_id b) d a (snd (run_round env b d msg a))"
proof -
  have "keeps_pin (b_batch_id b) d a (update_batch (b_batch_id b) (\<lambda>b. b\<lparr>b_dual_direction_done := dict_set (b_dual_direction_done b) d (tc_sync_round msg)\<rparr>) a)" for a
    using assms by (intro pin_update) (auto simp: batch_wf_def dict_simps)
  then show ?thesis unfolding run_round_def Let_def
    by (auto intro!: pin.frame_bind simp: pin_tables pin_drop pin_fail_round split: option.split)
qed

lemma batch_wf_round:
  "batch_wf bid b \<Longrightarrow> dict_get (b_dual_round_pending b) (d, r) = Some p \<Longrightarrow> distinct (rp_roles p) \<and> set (rp_roles p) \<subseteq> {fst d, snd d}"
  unfolding batch_wf_def by blast

lemma joined_roles:
  assumes "batch_wf bid b" "role \<in> {fst d, snd d}"
  shows "distinct (rp_roles (join_round role sem (pending_round b d r)))" "set (rp_roles (join_round role sem (pending_round b d r))) \<subseteq> {fst d, snd d}"
    "distinct (rp_roles (pending_round b d r))" "set (rp_roles (pending_round b d r)) \<subseteq> {fst d, snd d}"
proof -
  show 1: "distinct (rp_roles (pending_round b d r))" "set (rp_roles (pending_round b d r)) \<subseteq> {fst d, snd d}"
    using batch_wf_round [OF assms(1), of d r]
    by (simp_all add: pending_round_def dict_get_or_def no_round_def split: option.split)
  show "distinct (rp_roles (join_round role sem (pending_round b d r)))" "set (rp_roles (join_round role sem (pending_round b d r))) \<subseteq> {fst d, snd d}"
    using 1 assms(2) by (auto simp: join_round_def)
qed

lemma pin_enter_round:
  assumes "batch_wf bid b" "role \<in> {fst d, snd d}" "0 \<le> tc_sync_round msg"
  shows "keeps_pin bid d a (snd (enter_round env b role d msg a))"
proof -
  let ?r = "tc_sync_round msg"
  have id: "b_batch_id b = bid" using assms(1) by (simp add: batch_wf_def)
  note j = joined_roles [OF assms(1,2)]
  have set: "keeps_pin bid d a (update_batch bid (\<lambda>b'. b'\<lparr>b_dual_round_pending := dict_set (b_dual_round_pending b') (d, ?r) p\<rparr>) a)"
    if "distinct (rp_roles p)" "set (rp_roles p) \<subseteq> {fst d, snd d}" for p a
    using that assms(3) by (intro pin_update) (auto simp: batch_wf_def dict_simps)
  have run: "keeps_pin bid d c (snd (run_round env b' d msg c))" if "lookup (ag_batches a) bid a = (Inr b', c)" for a b' c
  proof (cases "agent_wf c")
    case True
    have "dict_get (ag_batches a) bid = Some b'" "c = a" using that by (auto simp: lookup_def act_simps split: option.splits)
    then have "b_batch_id b' = bid" using True by (auto simp: agent_wf_def batch_wf_def)
    then show ?thesis using pin_run_round [OF assms(3), of b' d c env] by simp
  qed (simp add: keeps_pin_def pinned_def)
  show ?thesis unfolding enter_round_def Let_def id
    by (auto intro!: pin.frame_bind simp: pin_tables tables_publish set j run)
qed

lemma role_in_direction: "transfer_direction msg p = Inr (role, d) \<Longrightarrow> role \<in> {fst d, snd d}"
  by (auto simp: transfer_direction_def split: option.splits if_splits list.splits)

lemma typed_pin:
  assumes "batch_wf bid b" "dict_get (ag_batches a) bid = Some b"
  shows "typed a (snd (pin_direction env b d a))"
proof (cases "b_dual_direction b")
  case None
  have id: "b_batch_id b = bid" using assms(1) by (simp add: batch_wf_def)
  have "batch_wf bid (b\<lparr>b_dual_direction := Some p\<rparr>)" for p using assms(1) None by (simp add: batch_wf_def)
  then have upd: "agent_wf (update_batch bid (\<lambda>b. b\<lparr>b_dual_direction := Some p\<rparr>) c)" if "agent_wf c" "dict_get (ag_batches c) bid = Some b" for p c
    using that by (intro agent_wf_update) auto
  have leaf: "typed c (snd (case w of
        Some (Inr got) \<Rightarrow> act_bind (act_lift (json_loads got)) (\<lambda>p. act_modify (update_batch bid (\<lambda>b. b\<lparr>b_dual_direction := Some p\<rparr>))) c
      | _ \<Rightarrow> act_raise TimeoutError c))" if "dict_get (ag_batches c) bid = Some b" for c and w :: "string result option"
    using upd [OF _ that] by (auto simp: typed_def act_simps split: option.split sum.split)
  show ?thesis unfolding pin_direction_def None id Let_def option.case
  proof (rule typed.frame_bind)
    fix u c
    assume "act_modify (\<lambda>a. if is_leader b a \<and> tcp_get (pin_key bid (b_generation b)) (Some ''global'') (ag_store a) = None
        then signal (pin_key bid (b_generation b)) (json_dumps d) a else a) a = (Inr u, c)"
    then have "same_tables a c" by (auto simp: act_simps)
    then show "typed c (snd (case tcp_wait_for_key (pin_key bid (b_generation b)) (Some ''global'') (ag_store c) ((tcp_data (ag_store c), False) # o_polls env) of
        Some (Inr got) \<Rightarrow> act_bind (act_lift (json_loads got)) (\<lambda>p. act_modify (update_batch bid (\<lambda>b. b\<lparr>b_dual_direction := Some p\<rparr>))) c
      | _ \<Rightarrow> act_raise TimeoutError c))"
      using leaf assms(2) by (simp add: same_tables_def)
  qed (simp add: typed_tables)
qed (simp add: pin_direction_def typed.frame_refl)

text \<open>Steps that only look something up.\<close>

lemma pure_steps:
  "lookup d k a = (Inr x, c) \<longleftrightarrow> dict_get d k = Some x \<and> c = a" "act_lift r a = (Inr x, c) \<longleftrightarrow> r = Inr x \<and> c = a"
  "act_return y a = (Inr x, c) \<longleftrightarrow> x = y \<and> c = a" "act_raise e a \<noteq> (Inr x, c)"
  by (auto simp: lookup_def act_simps split: option.splits)

text \<open>A dual transfer: the direction is pinned, then the round is handled under the pin.\<close>

lemma pin_typed: "keeps_pin bid d a c \<Longrightarrow> dict_get (ag_batches a) bid = Some b \<Longrightarrow> b_dual_direction b = Some d \<Longrightarrow> typed a c"
  by (simp add: keeps_pin_def typed_def pinned_def)

lemma typed_drop:
  assumes "dict_get (ag_batches a) bid = Some b" "b_dual_direction b = Some d"
  shows "typed a (release_all ss (drop_round bid d r a))"
proof -
  have "keeps_pin bid d a (release_all ss (drop_round bid d r a))"
    by (rule pin.frame_trans [OF pin_drop [where d' = d and r = r] pin_tables]) simp
  then show ?thesis using assms by (rule pin_typed)
qed

lemma typed_enter:
  assumes "dict_get (ag_batches a) bid = Some b" "b_dual_direction b = Some d" "transfer_direction msg p = Inr (role, d)" "\<not> tc_sync_round msg < 0"
  shows "typed a (snd (enter_round env b role d msg a))"
proof (cases "agent_wf a")
  case True
  then have "batch_wf bid b" using assms(1) by (simp add: agent_wf_def)
  then have "keeps_pin bid d a (snd (enter_round env b role d msg a))"
    using pin_enter_round role_in_direction [OF assms(3)] assms(4) by simp
  then show ?thesis using assms(1,2) by (rule pin_typed)
qed (simp add: typed_def)

lemma typed_dual:
  assumes "batch_wf bid b" "dict_get (ag_batches a) bid = Some b"
  shows "typed a (snd (execute_dual_transfer env msg b a))"
proof -
  have id: "b_batch_id b = bid" using assms(1) by (simp add: batch_wf_def)
  show ?thesis unfolding execute_dual_transfer_def id Let_def
    by (auto intro!: typed.frame_bind simp: pure_steps typed.frame_refl typed_tables typed_pin [OF assms] typed_drop typed_enter split: if_splits)
qed

lemma typed_transfer: "typed a (snd (handle_transfer env msg a))"
proof (cases "agent_wf a")
  case True
  have "batch_wf bid b" if "dict_get (ag_batches a) bid = Some b" for bid b using True that by (simp add: agent_wf_def)
  then show ?thesis unfolding handle_transfer_def
    by (auto simp: typed.frame_refl typed_tables tables_split_transfer intro: typed_dual split: option.split)
qed (simp add: typed_def)

section \<open>Registration\<close>

lemma typed_tensor: "typed a (snd (register_tensor env bid name pair ip acc a))"
proof -
  have "typed a (update_batch bid (\<lambda>b.
        b\<lparr>b_pair_tensors := dict_set (b_pair_tensors b) name (dict_get_or (b_pair_tensors b) name [] @ [t]),
          b_pair_target_dtypes := dict_set (b_pair_target_dtypes b) name (dict_get_or (b_pair_target_dtypes b) name [] @ [dt])\<rparr>) a)" for t dt a
  proof (rule typed_update)
    fix b assume b: "batch_wf bid b"
    then have "map_option length (dict_get (b_pair_target_dtypes b) name) = map_option length (dict_get (b_pair_tensors b) name)" by (simp add: batch_wf_def)
    then have "length (dict_get_or (b_pair_target_dtypes b) name []) = length (dict_get_or (b_pair_tensors b) name [])"
      by (auto simp: dict_get_or_def split: option.splits)
    then show "batch_wf bid (b\<lparr>b_pair_tensors := dict_set (b_pair_tensors b) name (dict_get_or (b_pair_tensors b) name [] @ [t]),
          b_pair_target_dtypes := dict_set (b_pair_target_dtypes b) name (dict_get_or (b_pair_target_dtypes b) name [] @ [dt])\<rparr>) \<and>
       b_generation (b\<lparr>b_pair_tensors := dict_set (b_pair_tensors b) name (dict_get_or (b_pair_tensors b) name [] @ [t]),
          b_pair_target_dtypes := dict_set (b_pair_target_dtypes b) name (dict_get_or (b_pair_target_dtypes b) name [] @ [dt])\<rparr>) = b_generation b"
      using b by (simp add: batch_wf_def dict_simps)
  qed
  then show ?thesis unfolding register_tensor_def Let_def by (intro typed.frame_bind) (simp_all add: typed_tables)
qed

lemma typed_pair: "typed a (snd (register_pair env bid grouped name acc a))"
  unfolding register_pair_def
  by (intro typed.frame_bind typed.frame_fold typed_tensor) (auto intro!: typed_update simp: typed_tables batch_wf_def dict_simps)

lemma typed_generate: "typed a (snd (generate_dual_buckets bid b a))"
proof -
  have "same_tables a (snd (pair_directions b n acc a))" for n acc a
    unfolding pair_directions_def by (intro table_intros same_tables_lookup tables_direction)
  then have "same_tables a (snd (act_fold (pair_directions b) ns acc a))" for ns acc a by (intro tables.frame_fold)
  then show ?thesis unfolding generate_dual_buckets_def
    by (intro typed.frame_bind) (auto intro!: typed_update simp: typed_tables batch_wf_def)
qed

lemma typed_merge: "typed a (snd (merge_role env bid grouped role p a))"
proof -
  have ld: "same_tables a (snd (act_fold (\<lambda>payload ts. act_bind (load_tensor env payload) (\<lambda>t. act_return (ts @ [t]))) ps ts a))" for ps ts a
    by (intro tables.frame_fold tables.frame_bind same_tables_load tables.frame_pure)
  have "typed a (update_batch bid (\<lambda>b. b\<lparr>b_pair_role_tensors := dict_set (b_pair_role_tensors b) (p, role) ts,
            b_pair_role_dtypes := dict_set (b_pair_role_dtypes b) (p, role) (map t_dtype ts)\<rparr>) a)" for ts a
    by (rule typed_update) (simp add: batch_wf_def dict_simps)
  then show ?thesis unfolding merge_role_def
    by (auto intro!: typed.frame_bind simp: typed_tables ld typed.frame_refl)
qed

lemma typed_finish: "typed a (snd (finish_dual bid sem a))"
proof -
  have "same_tables a (fold (\<lambda>s a. release_semaphore s (write_command_result s (v s) a)) ss c) = same_tables a c" for a v ss c
    by (induction ss arbitrary: c) auto
  moreover have "typed a (update_batch bid (\<lambda>b. b\<lparr>b_pending_register_semaphores := []\<rparr>) a)" for a
    by (rule typed_update) (simp add: batch_wf_def)
  ultimately show ?thesis unfolding finish_dual_def
    by (intro typed.frame_bind typed.frame_catch typed_generate) (simp_all add: typed_tables typed_abort typed.frame_refl)
qed

lemma typed_role: "typed a (snd (register_dual_role env bid grouped role sem a))"
proof -
  have up: "typed a (update_batch bid (\<lambda>b. b\<lparr>b_local_leader := l, b_local_group := g, b_batch_group := g'\<rparr>) a)"
    "typed a (update_batch bid (\<lambda>b. case sm of None \<Rightarrow> b | Some s \<Rightarrow> b\<lparr>b_pending_register_semaphores := b_pending_register_semaphores b @ [s]\<rparr>) a)" for a l g g' sm
    by (rule typed_update, simp add: batch_wf_def split: option.split)+
  show ?thesis unfolding register_dual_role_def Let_def
    by (intro typed.frame_bind typed.frame_for typed_merge) (auto intro!: typed.frame_bind simp: typed_tables up typed_finish typed.frame_refl)
qed

lemma agent_wf_new:
  assumes "agent_wf a" "next_batch_generation bid a = (gen, a1)" "names \<noteq> []" "sorted names" "distinct names"
  shows "agent_wf (put_batch (new_batch bid names sz dual gen) a1)"
proof -
  have "batch_wf bid (new_batch bid names sz dual gen)" using assms(3-5) by (simp add: batch_wf_def new_batch_def)
  then show ?thesis
    using assms(1,2) by (auto simp: agent_wf_def next_batch_generation_def Let_def put_batch_def dict_simps new_batch_def split: if_splits)
qed

lemma grouped_names: "distinct (sort (dict_keys (group_payloads ts)))" "sorted (sort (dict_keys (group_payloads ts)))"
proof -
  have "distinct (dict_keys (fold (\<lambda>(n, x) g. dict_set g n (dict_get_or g n [] @ [x])) ts g))" if "distinct (dict_keys g)"
    for g :: "(string, string list) dict"
    using that by (induction ts arbitrary: g) (auto split: prod.split)
  then show "distinct (sort (dict_keys (group_payloads ts)))" by (simp add: group_payloads_def)
qed simp

lemma typed_split:
  assumes "sort (dict_keys (group_payloads (rc_tensors msg))) \<noteq> []"
  shows "typed a (snd (register_split env msg a))"
proof -
  let ?names = "sort (dict_keys (group_payloads (rc_tensors msg)))" and ?bid = "rc_batch_id msg"
  obtain gen a1 where g: "next_batch_generation ?bid a = (gen, a1)" by fastforce
  have new: "typed a (put_batch (new_batch ?bid ?names sz False gen) a1)" for sz
    using agent_wf_new [OF _ g assms grouped_names(2,1)] by (simp add: typed_def)
  have up: "typed a (update_batch ?bid (\<lambda>b. b\<lparr>b_local_leader := l, b_local_group := g, b_batch_group := g'\<rparr>) a)"
    "typed a (update_batch ?bid (\<lambda>b. b\<lparr>b_send_buckets := Some s, b_recv_buckets := Some r\<rparr>) a)" for a l g g' s r
    by (rule typed_update, simp add: batch_wf_def)+
  let ?rest = "\<lambda>_. act_bind (lookup (ag_pairs a1) (hd ?names)) (\<lambda>first_pair.
      act_bind (act_modify (update_batch ?bid (\<lambda>b.
        b\<lparr>b_local_leader := Some (hd (sort (p_local_ranks first_pair))), b_local_group := Some (p_local_group first_pair),
          b_batch_group := Some (p_pair_group first_pair)\<rparr>))) (\<lambda>_.
      act_bind (act_modify (\<lambda>a. a\<lparr>ag_pg := prewarm_broadcast_groups (pair_maps (\<lambda>p. [p_m2m_send p, p_m2m_recv p]) ?names a) (ag_pg a)\<rparr>)) (\<lambda>_.
      act_bind (act_fold (register_pair env ?bid (group_payloads (rc_tensors msg))) ?names ([], [])) (\<lambda>(send, recv).
      act_bind (act_modify (update_batch ?bid (\<lambda>b.
        b\<lparr>b_send_buckets := Some (chunk_to_bucket_ops send (coalesce_bytes (rc_bucket_size msg))),
          b_recv_buckets := Some (chunk_to_bucket_ops recv (coalesce_bytes (rc_bucket_size msg)))\<rparr>))) (\<lambda>_.
      act_bind (act_modify (result_if (rc_semaphore msg) gen)) (\<lambda>_.
      act_return True))))))"
  have rest: "typed c (snd (?rest () c))" for c
    by (intro typed.frame_bind typed.frame_fold typed_pair) (auto intro!: typed.frame_bind simp: typed_tables up)
  have "snd (register_split env msg a) = snd (?rest () (put_batch (new_batch ?bid ?names (rc_bucket_size msg) False gen) a1))"
    by (simp add: register_split_def Let_def g act_bind_def [of "act_modify _"] act_modify_def)
  then show ?thesis using typed.frame_trans [OF new rest] by simp
qed

lemma typed_register_dual:
  assumes "sort (dict_keys (group_payloads (rc_tensors msg))) \<noteq> []"
  shows "typed a (snd (register_dual env msg sg layouts a))"
proof -
  let ?names = "sort (dict_keys (group_payloads (rc_tensors msg)))" and ?bid = "rc_batch_id msg"
  let ?a = "case dict_get (ag_batches a) ?bid of Some _ \<Rightarrow> a
     | None \<Rightarrow> (case next_batch_generation ?bid a of (gen, a1) \<Rightarrow> put_batch (new_batch ?bid ?names (rc_bucket_size msg) True gen) a1)"
  have new: "typed a ?a"
    using agent_wf_new [OF _ _ assms grouped_names(2,1)] by (auto simp: typed_def split: option.split prod.split)
  have up: "typed a (update_batch ?bid (\<lambda>b. b\<lparr>b_dual_layout_signature := Some sg\<rparr>) a)" for a by (rule typed_update) (simp add: batch_wf_def)
  let ?rest = "act_bind (lookup (ag_batches ?a) ?bid) (\<lambda>b.
         if list_ex (\<lambda>other. map_option rl_signature other \<noteq> Some sg) layouts \<or> b_dual_layout_signature b \<notin> {None, Some sg}
         then act_bind (act_modify (abort_dual_registration b InvalidRegistrationError)) (\<lambda>_. act_raise InvalidRegistrationError)
         else act_bind (act_modify (update_batch ?bid (\<lambda>b. b\<lparr>b_dual_layout_signature := Some sg\<rparr>))) (\<lambda>_.
           register_dual_role env ?bid (group_payloads (rc_tensors msg)) (case rc_role msg of None \<Rightarrow> [] | Some r \<Rightarrow> r) (rc_semaphore msg)))"
  have "typed ?a (snd (?rest ?a))"
    by (intro typed.frame_bind) (auto intro!: typed.frame_bind simp: typed_tables typed_abort up typed_role typed.frame_refl)
  moreover have "snd (register_dual env msg sg layouts a) = snd (?rest ?a)" by (simp add: register_dual_def Let_def)
  ultimately show ?thesis using typed.frame_trans [OF new] by simp
qed

lemma typed_register: "typed a (snd (handle_register_tensors env msg a))"
proof -
  have em: "typed a (emit e a)" for a e by (simp add: typed_tables)
  show ?thesis unfolding handle_register_tensors_def Let_def
    by (auto intro!: typed.frame_bind simp: em typed_reject typed_split typed_register_dual typed.frame_refl)
qed

section \<open>Pairs\<close>

lemma typed_put_pending:
  assumes "pending_wf n q" "dict_get (ag_pairs a) n = None"
  shows "typed a (put_pending q a)"
  using assms by (auto simp: typed_def agent_wf_def put_pending_def pending_wf_def dict_simps)

lemma pending_wf_add: "pending_wf n q \<Longrightarrow> l \<in> {pp_local_name q, pp_remote_name q} \<Longrightarrow> pending_wf n (add_semaphore l sem q)"
  by (auto simp: pending_wf_def add_semaphore_def dict_keys_set)

lemma typed_init: "typed a (snd (handle_init_pair env msg a))"
proof (cases "agent_wf a")
  case True
  let ?l = "ic_local_name msg" and ?p = "ic_pair_name msg"
  have keys: "dict_get (ag_pairs c) ?p = None" if "write_init_pair_keys msg a = (Inr u, c)" "dict_get (ag_pairs a) ?p = None" for u c
    using tables_keys [of a msg] that by (simp add: same_tables_def)
  have fresh: "pending_wf ?p (add_semaphore ?l sem \<lparr>pp_pair_name = ?p, pp_local_name = ?l, pp_remote_name = r, pp_expected = [(?l, n)], pp_semaphores = []\<rparr>)" for sem r n
    by (rule pending_wf_add) (simp_all add: pending_wf_def dict_keys_def)
  have more: "pending_wf ?p (add_semaphore ?l sem (q\<lparr>pp_expected := dict_set (pp_expected q) ?l n\<rparr>))" "pending_wf ?p (add_semaphore ?l sem q)"
    if "dict_get (ag_pending_pairs a) ?p = Some q" "\<not> pending_conflict msg q" for q sem n
  proof -
    have "pending_wf ?p q" using True that(1) by (simp add: agent_wf_def)
    then show "pending_wf ?p (add_semaphore ?l sem (q\<lparr>pp_expected := dict_set (pp_expected q) ?l n\<rparr>))" "pending_wf ?p (add_semaphore ?l sem q)"
      using that(2) by (intro pending_wf_add; auto simp: pending_wf_def dict_keys_set pending_conflict_def)+
  qed
  have put: "typed c (put_pending q (store_set k v m c))" if "pending_wf ?p q" "dict_get (ag_pairs c) ?p = None" for c q k v m
  proof -
    have "typed (store_set k v m c) (put_pending q (store_set k v m c))" using that by (intro typed_put_pending) (simp_all add: store_set_def)
    moreover have "typed c (store_set k v m c)" by (simp add: typed_tables)
    ultimately show ?thesis by (rule typed.frame_trans [rotated])
  qed
  show ?thesis unfolding handle_init_pair_def Let_def
    by (auto intro!: typed.frame_bind typed_put_pending [of ?p] put simp: fresh more keys typed_tables tables_repeat tables_keys typed.frame_refl split: option.split)
qed (simp add: typed_def)

lemma made_pair_wf:
  assumes "pp_local_name q \<noteq> pp_remote_name q" "pp_pair_name q = n"
  shows "pair_wf n (make_pair_state q sides t)"
  using assms
  by (cases "pp_local_name q < pp_remote_name q")
     (auto simp: pair_wf_def make_pair_state_def Let_def in_order_def by_role_def dict_keys_def insort_key.simps sort_key_def not_less)

text \<open>A completed pair is well formed, and only the table of pairs changes, at the pair's name.\<close>

lemma complete_pair_tables:
  assumes "complete_pair env q a = (r, a')"
  shows "case r of Inl _ \<Rightarrow> same_tables a a'
    | Inr _ \<Rightarrow> ag_batches a' = ag_batches a \<and> ag_batch_generation a' = ag_batch_generation a \<and> ag_pending_pairs a' = ag_pending_pairs a \<and>
        (\<exists>p. ag_pairs a' = dict_set (ag_pairs a) (pp_pair_name q) p \<and> pair_wf (pp_pair_name q) p)"
proof (cases "gather_sides env q a")
  case (Pair g b)
  have tb: "same_tables a b" using tables_gather [of a env q] Pair by simp
  show ?thesis
  proof (cases g)
    case (Inl e)
    then show ?thesis using assms Pair tb by (auto simp: complete_pair_def act_bind_def)
  next
    case (Inr sides)
    have ne: "pp_local_name q \<noteq> pp_remote_name q"
      using Pair Inr by (auto simp: gather_sides_def act_simps split: prod.splits sum.splits if_splits)
    obtain br pg where br: "build_pair env q sides (ag_rank b) (ag_pg b) = (br, pg)" by fastforce
    show ?thesis
    proof (cases br)
      case (Inl e)
      then show ?thesis using assms Pair \<open>g = Inr sides\<close> br tb by (auto simp: complete_pair_def act_simps same_tables_def)
    next
      case (Inr p)
      then obtain t where "p = make_pair_state q sides t" using br by (auto simp: build_pair_def Let_def split: prod.splits sum.splits)
      then have "pair_wf (pp_pair_name q) p" using made_pair_wf ne by blast
      then show ?thesis using assms Pair \<open>g = Inr sides\<close> br Inr tb by (auto simp: complete_pair_def act_simps same_tables_def)
    qed
  qed
qed

lemma typed_consume: "typed a (snd (consume_entry (complete_pair env) a))"
proof (cases "agent_wf a")
  case True
  let ?a = "a\<lparr>ag_completion_cursor := ag_completion_cursor a + 1\<rparr>"
  have wf: "agent_wf ?a" using True same_tables_wf [of a ?a] by simp
  have failed: "agent_wf (put_pending (q\<lparr>pp_semaphores := []\<rparr>) (fail_all e ss b))"
    if "dict_get (ag_pending_pairs ?a) n = Some q" "complete_pair env q ?a = (Inl e, b)" for n q e ss b
  proof -
    have tb: "same_tables ?a (fail_all e ss b)" using complete_pair_tables [OF that(2)] by simp
    have "pending_wf n (q\<lparr>pp_semaphores := []\<rparr>)" "dict_get (ag_pairs ?a) n = None" using wf that(1) by (auto simp: agent_wf_def pending_wf_def)
    then have "typed (fail_all e ss b) (put_pending (q\<lparr>pp_semaphores := []\<rparr>) (fail_all e ss b))"
      using tb by (intro typed_put_pending) (simp_all add: same_tables_def)
    then show ?thesis using same_tables_wf [OF tb] wf by (simp add: typed_def)
  qed
  have matched: "agent_wf ((release_all ss b)\<lparr>ag_pending_pairs := dict_del (ag_pending_pairs b) n\<rparr>)"
    if "dict_get (ag_pending_pairs ?a) n = Some q" "complete_pair env q ?a = (Inr u, b)" for n q u ss b
  proof -
    have "pp_pair_name q = n" using wf that(1) by (auto simp: agent_wf_def pending_wf_def)
    moreover have "same_tables b (release_all ss b)" by simp
    ultimately show ?thesis using complete_pair_tables [OF that(2)] wf
      by (auto simp: agent_wf_def same_tables_def dict_simps split: if_splits)
  qed
  show ?thesis unfolding consume_entry_def Let_def
    using True wf failed matched by (auto simp: typed_def split: option.split prod.split sum.split)
qed (simp add: typed_def)

lemma typed_poll: "typed a (snd (poll_if_pending env fuel a))"
proof -
  have log: "typed a (snd (consume_completion_log fuel (complete_pair env) a))" for a
    by (induction fuel arbitrary: a) (auto intro!: typed.frame_bind typed_consume simp: typed.frame_refl)
  show ?thesis unfolding poll_if_pending_def poll_pending_pairs_def
    by (auto intro!: typed.frame_bind log simp: typed_tables tables_append)
qed

lemma typed_execute: "typed a (snd (execute_command env msg a))"
proof -
  have h: "typed a (snd (handle_message env msg a))"
    unfolding handle_message_def
    by (auto intro!: typed.frame_bind typed_init typed_transfer typed_register typed_cleanup simp: typed_tables tables_query split: message.split)
  have "typed c (release_if sem c)" "typed c (fail_if sem e c)" for c sem e by (simp_all add: typed_tables)
  then show ?thesis using h typed.frame_trans
    by (fastforce simp: execute_command_def split: prod.split sum.split)
qed

lemma typed_step: "typed a (fst (snd (step env fuel dec (a, q))))"
proof -
  have 1: "typed a (snd (poll_if_pending env fuel (update_heartbeat a)))"
    by (rule typed.frame_trans [OF typed_tables typed_poll]) simp
  show ?thesis
  proof (cases "poll_if_pending env fuel (update_heartbeat a)")
    case (Pair r1 a1)
    have a1: "typed a a1" using 1 Pair by simp
    have 2: "typed a a2" if "execute_command env m a1 = (r2, a2)" for m r2 a2
      using typed.frame_trans [OF a1] typed_execute [of a1 env m] that by simp
    have 3: "typed a a3" if "poll_if_pending env fuel c = (r3, a3)" "typed a c" for c r3 a3
      using typed.frame_trans [OF that(2)] typed_poll [of c env fuel] that(1) by simp
    show ?thesis using Pair a1 2 3 by (auto simp: step_def split: prod.splits sum.splits answer.splits option.splits)
  qed
qed

section \<open>Properties\<close>

text \<open>The states an agent goes through: from its start, one loop iteration after the other, whatever the other processes do in between to its queue and the outside.\<close>

inductive agent_state :: "(bytes \<Rightarrow> message option) \<Rightarrow> agent \<Rightarrow> bool" for dec where
  start: "agent_state dec (new_agent rank world_size store now state_db semaphores)"
| loop: "agent_state dec a \<Longrightarrow> step env fuel dec (a, q) = (r, a', q') \<Longrightarrow> agent_state dec a'"
| elsewhere: "agent_state dec a \<Longrightarrow> agent_state dec (a\<lparr>ag_store := store, ag_clock := now, ag_semaphores := sems\<rparr>)"

lemma agent_state_wf: "agent_state dec a \<Longrightarrow> agent_wf a"
proof (induction rule: agent_state.induct)
  case (start rank world_size store now state_db semaphores)
  show ?case by (simp add: agent_wf_def new_agent_def update_heartbeat_def)
next
  case (loop a env fuel q r a' q')
  then show ?case using typed_step [of a env fuel dec q] by (simp add: typed_def)
next
  case (elsewhere a store now sems)
  then show ?case by (simp add: agent_wf_def)
qed

text \<open>
  C12. An agent's tables are always well formed: in every state the main loop reaches, whichever
  commands came and whether their handlers returned or raised, every batch is filed under its
  own id with the newest generation of that id, its lists of tensors and dtypes match, and only
  the one direction it is pinned to has rounds, each with at most its two roles; every matched
  pair knows both of its sides under their names in canonical order; and no pair is pending and
  matched at once.
\<close>

theorem agent_tables_typed:
  assumes "agent_state dec a"
  shows "agent_wf a"
  using assms by (rule agent_state_wf)

theorem agent_tables_typed_witness:
  "\<exists>q r a q'. step sample_outside 1 (\<lambda>_. Some (InitPair sample_init)) (new_agent 0 2 empty_store 7 [] [''s''], q) = (r, a, q') \<and>
     agent_wf a \<and> dict_keys (ag_pending_pairs a) = [''w'']"
proof -
  let ?dec = "\<lambda>_ :: bytes. Some (InitPair sample_init)" and ?a = "new_agent 0 2 empty_store 7 [] [''s'']"
  obtain q where q: "open_leader 2 [] = Inr q" "represents ?dec q 0 []" "q_capacity q = 2" using open_leader_fresh [of 2 ?dec] by auto
  obtain q1 where r: "represents ?dec q1 0 [InitPair sample_init]" using enqueue_ok [OF q(2), where enc = "\<lambda>_. []" and m = "InitPair sample_init"] q(3) by auto
  obtain q2 where d: "dequeue ?dec (Some Timed) q1 = (Answer (Inr (Some (InitPair sample_init))), q2)" using dequeue_ok [OF r, of "Some Timed"] by (elim exE conjE)
  have e: "fst (execute_command sample_outside (InitPair sample_init) (update_heartbeat ?a)) = Inr ()"
    "dict_keys (ag_pending_pairs (snd (poll_if_pending sample_outside 1 (snd (execute_command sample_outside (InitPair sample_init) (update_heartbeat ?a)))))) = [''w'']"
    by code_simp+
  obtain r a q' where st: "step sample_outside 1 ?dec (?a, q1) = (r, a, q')" by (metis prod.exhaust)
  have p: "poll_if_pending sample_outside 1 (update_heartbeat ?a) = (Inr (), update_heartbeat ?a)"
    by (simp add: poll_if_pending_def new_agent_def update_heartbeat_def act_simps)
  have "a = snd (poll_if_pending sample_outside 1 (snd (execute_command sample_outside (InitPair sample_init) (update_heartbeat ?a))))"
    using st p d e(1) by (auto simp: step_def split: prod.splits sum.splits)
  then show ?thesis using st e(2) agent_tables_typed [OF agent_state.loop [OF agent_state.start st]] by blast
qed

end
