(* ===== verification/Gather_Broadcast.thy ===== *)
theory Gather_Broadcast
  imports M2M_Map Text_Codec
begin

text \<open>
  The two remaining small parts: \<open>gather_broadcast_comm\<close> (\<^verbatim>\<open>comm_methods.py\<close>), the simple
  way to redistribute a tensor over one process group, and the patch the agent puts on PyTorch's
  unpickling of CUDA tensors (\<^verbatim>\<open>tensor_bus/utils.py\<close>).
\<close>

section \<open>Gather and broadcast\<close>

text \<open>
  Every rank of the default group runs the function; \<open>locals\<close> are the local shards of the
  source DTensor. A collective reads the other ranks' arguments, so each phase is a function
  from the ranks to what they hold. \<open>torch.empty\<close> has the shape and arbitrary elements.
\<close>

definition gather_phase :: "dtensor_api \<Rightarrow> m2m_side \<Rightarrow> nat \<Rightarrow> (nat \<Rightarrow> ndarray) \<Rightarrow> nat \<Rightarrow> ndarray option" where
  "gather_phase api src source_world_size locals rank =
     (if rank < source_world_size then Some (full_tensor api (side_mesh src) (side_placements src) rank locals) else None)"

definition placeholder :: "nat list \<Rightarrow> (nat list \<Rightarrow> nat) \<Rightarrow> ndarray" where
  "placeholder shape junk = \<lparr>nd_shape = shape, nd_at = junk\<rparr>"

text \<open>\<open>dist.broadcast(gathered_tensor, src=0)\<close>: the elements of rank 0's tensor, in the buffer each rank passed.\<close>

definition broadcast_phase :: "(nat \<Rightarrow> ndarray) \<Rightarrow> nat \<Rightarrow> ndarray" where
  "broadcast_phase gathered rank = (gathered rank)\<lparr>nd_at := nd_at (gathered 0)\<rparr>"

definition gathered_tensor :: "dtensor_api \<Rightarrow> m2m_side \<Rightarrow> nat \<Rightarrow> nat list \<Rightarrow> (nat \<Rightarrow> nat list \<Rightarrow> nat) \<Rightarrow> (nat \<Rightarrow> ndarray) \<Rightarrow> nat \<Rightarrow> ndarray" where
  "gathered_tensor api src source_world_size origin_shape junk locals rank =
     (case gather_phase api src source_world_size locals rank of
        Some t \<Rightarrow> t
      | None \<Rightarrow> placeholder origin_shape (junk rank))"

definition gather_broadcast_comm ::
  "dtensor_api \<Rightarrow> m2m_side \<Rightarrow> m2m_side \<Rightarrow> nat \<Rightarrow> nat list \<Rightarrow> (nat \<Rightarrow> nat list \<Rightarrow> nat) \<Rightarrow> (nat \<Rightarrow> ndarray) \<Rightarrow> nat \<Rightarrow> ndarray option" where
  "gather_broadcast_comm api src tgt source_world_size origin_shape junk locals rank =
     (let received = broadcast_phase (gathered_tensor api src source_world_size origin_shape junk locals) rank
      in if source_world_size \<le> rank then Some (to_local api (side_mesh tgt) (side_placements tgt) rank received) else None)"

text \<open>The local shards of one tensor, cut by the source layout.\<close>

definition shards_of :: "dtensor_api \<Rightarrow> m2m_side \<Rightarrow> ndarray \<Rightarrow> nat \<Rightarrow> ndarray" where
  "shards_of api side t rank = to_local api (side_mesh side) (side_placements side) rank t"

lemma gathered_is_tensor:
  assumes "dtensor_ok api pos src shape slocal" "nd_shape t = shape" "r \<in> set (mesh_ranks (side_mesh src))" "in_shape shape g"
  shows "nd_at (full_tensor api (side_mesh src) (side_placements src) r (shards_of api src t)) g = nd_at t g"
proof -
  have sh: "\<forall>q \<in> set (mesh_ranks (side_mesh src)). nd_shape (shards_of api src t q) = slocal"
    using dtensor_ok_local(1) [OF assms(1) _ assms(2)] by (simp add: shards_of_def)
  obtain q x where q: "q \<in> set (mesh_ranks (side_mesh src))" "in_shape slocal x" "pos q x = g"
    "nd_at (full_tensor api (side_mesh src) (side_placements src) r (shards_of api src t)) g = nd_at (shards_of api src t q) x"
    using dtensor_ok_full(2) [OF assms(1,3) sh assms(4)] by blast
  then show ?thesis using dtensor_ok_local(3) [OF assms(1) q(1) assms(2) q(2)] by (simp add: shards_of_def)
qed

lemma gather_broadcast_shard:
  assumes "dtensor_ok api spos src shape slocal" "dtensor_ok api tpos tgt shape tlocal" "nd_shape t = shape"
    and "mesh_ranks (side_mesh src) = [0..<n]" "0 < n" "r \<in> set (mesh_ranks (side_mesh tgt))" "n \<le> r"
  shows "\<exists>u. gather_broadcast_comm api src tgt n shape junk (shards_of api src t) r = Some u \<and>
      nd_shape u = nd_shape (shards_of api tgt t r) \<and> (\<forall>x. in_shape tlocal x \<longrightarrow> nd_at u x = nd_at (shards_of api tgt t r) x)"
proof -
  let ?full = "full_tensor api (side_mesh src) (side_placements src) 0 (shards_of api src t)"
  let ?t = "\<lparr>nd_shape = shape, nd_at = nd_at ?full\<rparr>"
  have "broadcast_phase (gathered_tensor api src n shape junk (shards_of api src t)) r = ?t"
    using assms(5,7) by (simp add: broadcast_phase_def gathered_tensor_def gather_phase_def placeholder_def)
  then have run: "gather_broadcast_comm api src tgt n shape junk (shards_of api src t) r = Some (shards_of api tgt ?t r)"
    using assms(7) by (simp add: gather_broadcast_comm_def shards_of_def)
  have "nd_at (shards_of api tgt ?t r) x = nd_at (shards_of api tgt t r) x" if x: "in_shape tlocal x" for x
  proof -
    have g: "in_shape shape (tpos r x)" using dtensor_ok_local(2) [OF assms(2,6,3) x] .
    have "0 \<in> set (mesh_ranks (side_mesh src))" using assms(4,5) by simp
    then have "nd_at ?full (tpos r x) = nd_at t (tpos r x)" by (rule gathered_is_tensor [OF assms(1,3) _ g])
    then show ?thesis using dtensor_ok_local(3) [OF assms(2,6) _ x] assms(3) by (simp add: shards_of_def)
  qed
  then show ?thesis using run dtensor_ok_local(1) [OF assms(2,6)] assms(3) by (auto simp: shards_of_def)
qed

text \<open>
  C16. Gather and broadcast redistributes: when the source ranks come first in the group and hold
  the shards of a tensor, every rank behind them ends with exactly the shard that distributing
  the tensor itself over the target mesh gives it, whatever was in its placeholder, and every
  source rank returns nothing.
\<close>

theorem gather_broadcast_redistributes:
  assumes "dtensor_ok api spos src shape slocal" "dtensor_ok api tpos tgt shape tlocal" "nd_shape t = shape"
    and "mesh_ranks (side_mesh src) = [0..<n]" "0 < n" "\<forall>r \<in> set (mesh_ranks (side_mesh tgt)). n \<le> r"
  shows "(\<forall>r < n. gather_broadcast_comm api src tgt n shape junk (shards_of api src t) r = None) \<and>
    (\<forall>r \<in> set (mesh_ranks (side_mesh tgt)). \<exists>u. gather_broadcast_comm api src tgt n shape junk (shards_of api src t) r = Some u \<and>
      nd_shape u = nd_shape (shards_of api tgt t r) \<and> (\<forall>x. in_shape tlocal x \<longrightarrow> nd_at u x = nd_at (shards_of api tgt t r) x))"
  using gather_broadcast_shard [OF assms(1-5)] assms(6) by (auto simp: gather_broadcast_comm_def)

theorem gather_broadcast_redistributes_witness:
  "\<exists>u. gather_broadcast_comm ref_api (source_side split_source [Shard 0]) (target_side split_target [Shard 0]) 1 [2] (\<lambda>_ _. 9)
      (shards_of ref_api (source_side split_source [Shard 0]) \<lparr>nd_shape = [2], nd_at = (\<lambda>x. 5 + x ! 0)\<rparr>) 2 = Some u \<and> nd_at u [0] = 6"
proof -
  let ?s = "source_side split_source [Shard 0]" and ?t = "target_side split_target [Shard 0]" and ?x = "\<lparr>nd_shape = [2], nd_at = (\<lambda>x :: nat list. 5 + x ! 0)\<rparr>"
  have "ref_check ?s [2] [2]" "ref_check ?t [2] [1]" by code_simp+
  note ok = this [THEN ref_api_ok]
  have m: "mesh_ranks (side_mesh ?s) = [0..<1]" "\<forall>r \<in> set (mesh_ranks (side_mesh ?t)). 1 \<le> r" "2 \<in> set (mesh_ranks (side_mesh ?t))"
    by (simp_all add: split_source_def split_target_def)
  obtain u where "gather_broadcast_comm ref_api ?s ?t 1 [2] (\<lambda>_ _. 9) (shards_of ref_api ?s ?x) 2 = Some u"
    "nd_at u [0] = nd_at (shards_of ref_api ?t ?x 2) [0]"
    using gather_broadcast_redistributes [OF ok(1,2) _ m(1) _ m(2), THEN conjunct2, of ?x "\<lambda>_ _. 9"] m(3) by (auto simp: in_shape_def)
  moreover have "nd_at (shards_of ref_api ?t ?x 2) [0] = 6" by code_simp
  ultimately show ?thesis by auto
qed

section \<open>The CUDA rebuild patch\<close>

text \<open>
  The arguments of PyTorch's \<open>rebuild_cuda_tensor\<close>, in order. Handles, classes and dtypes are
  opaque values; PyTorch's own function is the parameter \<open>torch\<close>. The patch saves it in the
  module variable \<open>_original_rebuild_cuda_tensor\<close> and puts its own function in
  \<open>mp_reductions.rebuild_cuda_tensor\<close>; both are mutable references to one of the two functions.
\<close>

record rebuild_args =
  tensor_cls :: string
  tensor_size :: "nat list"
  tensor_stride :: "nat list"
  tensor_offset :: nat
  storage_cls :: string
  tensor_dtype :: string
  storage_device :: int
  storage_handle :: string
  storage_size_bytes :: nat
  storage_offset_bytes :: nat
  requires_grad :: bool
  ref_counter_handle :: string
  ref_counter_offset :: nat
  event_handle :: string
  event_sync_required :: bool

datatype rebuild_fn = Torch_rebuild | Patched_rebuild

record patch_state =
  original_rebuild_cuda_tensor :: "rebuild_fn option"
  mp_rebuild_cuda_tensor :: rebuild_fn

definition unpatched :: patch_state where
  "unpatched = \<lparr>original_rebuild_cuda_tensor = None, mp_rebuild_cuda_tensor = Torch_rebuild\<rparr>"

definition local_rank :: "(string, string) dict \<Rightarrow> int result" where
  "local_rank environ = read_int (case dict_get environ ''LOCAL_RANK'' of Some s \<Rightarrow> s | None \<Rightarrow> ''0'')"

text \<open>A call with \<open>depth\<close> frames left on the interpreter stack; without a frame the call does not return.\<close>

fun patched_rebuild_cuda_tensor ::
  "(rebuild_args \<Rightarrow> 'a result) \<Rightarrow> (string, string) dict \<Rightarrow> patch_state \<Rightarrow> nat \<Rightarrow> rebuild_args \<Rightarrow> 'a result option" where
  "patched_rebuild_cuda_tensor torch environ st 0 args = None"
| "patched_rebuild_cuda_tensor torch environ st (Suc depth) args =
     (case local_rank environ of
        Inl e \<Rightarrow> Some (Inl e)
      | Inr rank \<Rightarrow>
         (case original_rebuild_cuda_tensor st of
            None \<Rightarrow> Some (Inl TypeError)
          | Some Torch_rebuild \<Rightarrow> Some (torch (args\<lparr>storage_device := rank\<rparr>))
          | Some Patched_rebuild \<Rightarrow> patched_rebuild_cuda_tensor torch environ st depth (args\<lparr>storage_device := rank\<rparr>)))"

definition setup_cuda_rebuild_patch :: "patch_state \<Rightarrow> patch_state" where
  "setup_cuda_rebuild_patch st =
     (if original_rebuild_cuda_tensor st = None
      then st\<lparr>original_rebuild_cuda_tensor := Some (mp_rebuild_cuda_tensor st), mp_rebuild_cuda_tensor := Patched_rebuild\<rparr>
      else st)"

text \<open>Unpickling a tensor calls whatever \<open>mp_reductions.rebuild_cuda_tensor\<close> refers to.\<close>

definition rebuild_cuda_tensor ::
  "(rebuild_args \<Rightarrow> 'a result) \<Rightarrow> (string, string) dict \<Rightarrow> patch_state \<Rightarrow> nat \<Rightarrow> rebuild_args \<Rightarrow> 'a result option" where
  "rebuild_cuda_tensor torch environ st depth args =
     (case mp_rebuild_cuda_tensor st of
        Torch_rebuild \<Rightarrow> Some (torch args)
      | Patched_rebuild \<Rightarrow> patched_rebuild_cuda_tensor torch environ st depth args)"

lemma setup_idempotent: "(setup_cuda_rebuild_patch ^^ Suc n) unpatched = setup_cuda_rebuild_patch unpatched"
  by (induction n) (simp_all add: setup_cuda_rebuild_patch_def unpatched_def)

text \<open>
  However often agents of one process install the patch, a CUDA tensor is rebuilt by a single
  call of PyTorch's own function with the storage device replaced by the agent's \<open>LOCAL_RANK\<close>
  (0 when it is unset) and every other argument as the client pickled it: the patch never saves
  itself as the original, so one stack frame is enough.
\<close>

theorem cuda_patch_redirects:
  assumes "dict_get environ ''LOCAL_RANK'' = map_option show_int rank"
  shows "rebuild_cuda_tensor torch environ ((setup_cuda_rebuild_patch ^^ Suc n) unpatched) (Suc depth) args =
    Some (torch (args\<lparr>storage_device := (case rank of None \<Rightarrow> 0 | Some r \<Rightarrow> r)\<rparr>))"
proof -
  have "read_int ''0'' = Inr 0" by code_simp
  then have "local_rank environ = Inr (case rank of None \<Rightarrow> 0 | Some r \<Rightarrow> r)"
    using assms by (simp add: local_rank_def read_show_int split: option.splits)
  then show ?thesis unfolding setup_idempotent
    by (simp add: rebuild_cuda_tensor_def setup_cuda_rebuild_patch_def unpatched_def)
qed

theorem cuda_patch_redirects_witness:
  "rebuild_cuda_tensor (\<lambda>a. Inr (storage_device a, storage_handle a)) [(''LOCAL_RANK'', ''3'')]
     ((setup_cuda_rebuild_patch ^^ 2) unpatched) 1
     \<lparr>tensor_cls = ''Tensor'', tensor_size = [4], tensor_stride = [1], tensor_offset = 0, storage_cls = ''UntypedStorage'',
      tensor_dtype = ''float32'', storage_device = 6, storage_handle = ''h'', storage_size_bytes = 16, storage_offset_bytes = 0,
      requires_grad = False, ref_counter_handle = ''r'', ref_counter_offset = 0, event_handle = ''e'', event_sync_required = True\<rparr> =
   Some (Inr (3, ''h''))"
proof -
  have "dict_get [(''LOCAL_RANK'', ''3'')] ''LOCAL_RANK'' = map_option show_int (Some 3)" by code_simp
  from cuda_patch_redirects [OF this, where n = 1 and depth = 0 and torch = "\<lambda>a. Inr (storage_device a, storage_handle a)"]
  show ?thesis by (simp add: numeral_2_eq_2 del: funpow.simps)
qed

end
