(* ===== verification/Weight_Sync.thy ===== *)
theory Weight_Sync
  imports DTensor_Reference Text_Codec
begin

text \<open>
  The weight-sync example (\<^verbatim>\<open>examples/vllm_weight_sync\<close>): a trainer and a vLLM server meet on
  one batch of tensors. Both sides compute the pairs and the order of the tensors on their own,
  from the names of their parameters; the bus matches the tensors by position. This theory holds
  the name tables and converters (\<^verbatim>\<open>common.py\<close>), the trainer's side (\<^verbatim>\<open>trainer.py\<close>) and the
  worker's side (\<^verbatim>\<open>vllm_server.py\<close>), and shows that they agree. The models themselves, vLLM's
  module tree and \<open>torch.distributed.checkpoint\<close> are arguments.
\<close>

section \<open>Names\<close>

text \<open>\<open>kw in s\<close>, \<open>s.endswith(suffix)\<close> and \<open>s[: -len(suffix)]\<close>.\<close>

fun py_in :: "string \<Rightarrow> string \<Rightarrow> bool" where
  "py_in kw [] = (kw = [])"
| "py_in kw (c # s) = (take (length kw) (c # s) = kw \<or> py_in kw s)"

definition endswith :: "string \<Rightarrow> string \<Rightarrow> bool" where
  "endswith s suffix = (length suffix \<le> length s \<and> drop (length s - length suffix) s = suffix)"

definition chop :: "string \<Rightarrow> string \<Rightarrow> string" where
  "chop s suffix = take (length s - length suffix) s"

lemma chop_append: "endswith s suffix \<Longrightarrow> chop s suffix @ suffix = s"
  by (metis append_take_drop_id chop_def endswith_def)

lemma endswith_append [simp]: "endswith (s @ suffix) suffix"
  by (simp add: endswith_def)

lemma endswith_prefixed: "length suffix \<le> length s \<Longrightarrow> endswith (b @ s) suffix = endswith s suffix"
  by (simp add: endswith_def)

lemma chop_prefixed: "length suffix \<le> length s \<Longrightarrow> chop (b @ s) suffix = b @ chop s suffix"
  by (simp add: chop_def)

lemma chop_append' [simp]: "chop (b @ suffix) suffix = b"
  by (simp add: chop_def)

lemma chop_inj: "endswith s suffix \<Longrightarrow> endswith t suffix \<Longrightarrow> chop s suffix = chop t suffix \<Longrightarrow> s = t"
  by (metis chop_append)

definition HANDLER_KEYWORDS :: "(string \<times> string) list" where
  "HANDLER_KEYWORDS =
     [(''q_norm'', ''layernorm''), (''k_norm'', ''layernorm''), (''input_layernorm'', ''layernorm''),
      (''post_attention_layernorm'', ''layernorm''), (''model.norm'', ''layernorm''), (''embed_tokens'', ''embed_tokens''),
      (''q_proj'', ''qkv_proj''), (''k_proj'', ''qkv_proj''), (''v_proj'', ''qkv_proj''), (''o_proj'', ''o_proj''),
      (''mlp.gate.weight'', ''router''), (''experts.gate_up_proj'', ''experts_gate_up''),
      (''experts.down_proj'', ''experts_down''), (''lm_head'', ''lm_head'')]"

definition MOE_HANDLERS :: "string list" where
  "MOE_HANDLERS = [''experts_gate_up'', ''experts_down'']"

definition HANDLER_PLACEMENTS :: "(string, placement list) dict" where
  "HANDLER_PLACEMENTS =
     [(''embed_tokens'', [Replicate, Shard 0]), (''qkv_proj'', [Replicate, Shard 0]), (''o_proj'', [Replicate, Shard 1]),
      (''router'', [Replicate, Replicate]), (''experts_gate_up'', [Replicate, Shard 0, Shard 0]),
      (''experts_down'', [Replicate, Shard 0, Shard 0]), (''lm_head'', [Replicate, Shard 0]), (''layernorm'', [Replicate, Replicate])]"

definition get_handler_name :: "string \<Rightarrow> string option" where
  "get_handler_name param_name = map_option snd (List.find (\<lambda>(kw, handler). py_in kw param_name) HANDLER_KEYWORDS)"

definition get_queue_state_paths :: "string \<Rightarrow> int \<Rightarrow> string \<times> string" where
  "get_queue_state_paths lmdb_root rank =
     (lmdb_root @ ''/'' @ show_int rank @ ''_command.lmdb'', lmdb_root @ ''/'' @ show_int rank @ ''_state.lmdb'')"

section \<open>Views\<close>

text \<open>
  \<open>t[:, :half, :]\<close> and \<open>t[:, half:, :]\<close> of a tensor with at least two dimensions (a slice of
  dimension 1 clamps to its extent); \<open>t[i]\<close> drops the first dimension, \<open>t[lo:hi]\<close> narrows it.
\<close>

definition rows :: "nat \<Rightarrow> nat \<Rightarrow> ndarray \<Rightarrow> ndarray" where
  "rows lo hi t =
     \<lparr>nd_shape = (nd_shape t)[1 := min hi (nd_shape t ! 1) - lo], nd_at = (\<lambda>x. nd_at t (x[1 := x ! 1 + lo]))\<rparr>"

definition item :: "nat \<Rightarrow> ndarray \<Rightarrow> ndarray" where
  "item i t = \<lparr>nd_shape = tl (nd_shape t), nd_at = (\<lambda>x. nd_at t (i # x))\<rparr>"

definition narrow :: "nat \<Rightarrow> nat \<Rightarrow> ndarray \<Rightarrow> ndarray" where
  "narrow lo hi t =
     \<lparr>nd_shape = (nd_shape t)[0 := min hi (nd_shape t ! 0) - min lo (nd_shape t ! 0)], nd_at = (\<lambda>x. nd_at t (x[0 := x ! 0 + lo]))\<rparr>"

definition first_half :: "ndarray \<Rightarrow> ndarray" where
  "first_half t = rows 0 (nd_shape t ! 1 div 2) t"

definition second_half :: "ndarray \<Rightarrow> ndarray" where
  "second_half t = rows (nd_shape t ! 1 div 2) (nd_shape t ! 1) t"

text \<open>
  \<open>half = t.shape[1] // 2\<close> and the two views: \<open>IndexError\<close> when the tensor has no dimension 1
  (\<open>t.shape[1]\<close>) or no dimension 2 (the slice has three subscripts).
\<close>

definition halves :: "ndarray \<Rightarrow> (ndarray \<times> ndarray) result" where
  "halves t = (if 2 < length (nd_shape t) then Inr (first_half t, second_half t) else Inl IndexError)"

section \<open>The converter\<close>

text \<open>
  \<open>heads h total n\<close> is \<open>int(h / (total / n))\<close>, in floating point: an argument. The weight is
  a matrix; one whose height is not a multiple of \<open>head_dim\<close> cannot be viewed. An entry of the state dictionary that
  is no tensor is \<open>None\<close>.
\<close>

record hf_config =
  hf_head_dim :: "nat option"
  hidden_size :: nat
  num_attention_heads :: nat
  num_key_value_heads :: nat

definition head_rows :: "nat \<Rightarrow> nat \<Rightarrow> nat \<Rightarrow> ndarray \<Rightarrow> ndarray" where
  "head_rows head_dim lo hi qkv = narrow (lo * head_dim) (hi * head_dim) qkv"

definition qkv_split :: "(nat \<Rightarrow> nat \<Rightarrow> nat \<Rightarrow> nat) \<Rightarrow> ndarray \<Rightarrow> hf_config \<Rightarrow> (ndarray \<times> ndarray \<times> ndarray) result" where
  "qkv_split heads qkv config =
     res_bind (case hf_head_dim config of Some d \<Rightarrow> Inr d | None \<Rightarrow> py_div (hidden_size config) (num_attention_heads config)) (\<lambda>head_dim.
       let num_q_heads = num_attention_heads config; num_kv_heads = num_key_value_heads config;
           total_heads = num_q_heads + 2 * num_kv_heads; n = nd_shape qkv ! 0 div head_dim
       in if head_dim = 0 \<or> nd_shape qkv ! 1 = 0 \<or> nd_shape qkv ! 0 mod head_dim \<noteq> 0 then Inl RuntimeError
          else if n = 0 \<or> total_heads = 0 then Inl ZeroDivisionError
          else let nq = heads num_q_heads total_heads n; nkv = heads num_kv_heads total_heads n
               in Inr (head_rows head_dim 0 nq qkv, head_rows head_dim nq (nq + nkv) qkv, head_rows head_dim (nq + nkv) (nq + 2 * nkv) qkv))"

type_synonym converted = "(string, string \<times> ndarray) dict"

definition convert_param ::
  "(nat \<Rightarrow> nat \<Rightarrow> nat \<Rightarrow> nat) \<Rightarrow> hf_config \<Rightarrow> string \<Rightarrow> ndarray option \<Rightarrow> converted \<Rightarrow> converted result" where
  "convert_param heads config vllm_name entry out =
     (case entry of None \<Rightarrow> Inr out
      | Some tensor \<Rightarrow>
         if endswith vllm_name ''self_attn.qkv_proj.weight'' then
           let base = chop vllm_name ''self_attn.qkv_proj.weight''
           in res_bind (qkv_split heads tensor config) (\<lambda>(q, k, v).
                Inr (dict_set (dict_set (dict_set out (base @ ''self_attn.q_proj.weight'') (vllm_name, q))
                  (base @ ''self_attn.k_proj.weight'') (vllm_name, k)) (base @ ''self_attn.v_proj.weight'') (vllm_name, v)))
         else if endswith vllm_name ''mlp.experts.w13_weight'' then
           Inr (dict_set out (chop vllm_name ''w13_weight'' @ ''gate_up_proj'') (vllm_name, tensor))
         else if endswith vllm_name ''mlp.experts.w2_weight'' then
           Inr (dict_set out (chop vllm_name ''w2_weight'' @ ''down_proj'') (vllm_name, tensor))
         else Inr (dict_set out vllm_name (vllm_name, tensor)))"

fun convert_params ::
  "(nat \<Rightarrow> nat \<Rightarrow> nat \<Rightarrow> nat) \<Rightarrow> hf_config \<Rightarrow> (string, ndarray option) dict \<Rightarrow> converted \<Rightarrow> converted result" where
  "convert_params heads config [] out = Inr out"
| "convert_params heads config ((name, entry) # rest) out =
     res_bind (convert_param heads config name entry out) (convert_params heads config rest)"

definition convert_vllm_state_dict ::
  "(nat \<Rightarrow> nat \<Rightarrow> nat \<Rightarrow> nat) \<Rightarrow> (string, ndarray option) dict \<Rightarrow> hf_config \<Rightarrow> converted result" where
  "convert_vllm_state_dict heads state_dict config = convert_params heads config state_dict []"

lemma distinct_convert_param: "convert_param heads config name entry out = Inr out' \<Longrightarrow> distinct (dict_keys out) \<Longrightarrow> distinct (dict_keys out')"
  by (auto simp: convert_param_def res_simps Let_def split: option.splits if_splits)

lemma distinct_convert_params: "convert_params heads config sd out = Inr out' \<Longrightarrow> distinct (dict_keys out) \<Longrightarrow> distinct (dict_keys out')"
proof (induction sd arbitrary: out)
  case (Cons e sd)
  then show ?case by (cases e) (auto simp: res_simps dest: distinct_convert_param)
qed simp

lemma distinct_converted: "convert_vllm_state_dict heads sd config = Inr out \<Longrightarrow> distinct (dict_keys out)"
  by (auto simp: convert_vllm_state_dict_def dest: distinct_convert_params)

section \<open>The trainer\<close>

datatype param = Plain_tensor ndarray | D_tensor ndarray device_mesh "placement list"

primrec param_local :: "param \<Rightarrow> ndarray" where
  "param_local (Plain_tensor t) = t"
| "param_local (D_tensor t mesh placements) = t"

type_synonym state = "(string, param) dict"

text \<open>\<open>mesh.get_local_rank(mesh.mesh_dim_names[d])\<close>: the rank's coordinate (the trainer's meshes name their dimensions).\<close>

definition get_local_rank :: "device_mesh \<Rightarrow> nat \<Rightarrow> nat \<Rightarrow> nat" where
  "get_local_rank mesh rank d = grid (mesh_shape mesh) ! py_index_of (mesh_ranks mesh) rank ! d"

fun chunk_index :: "device_mesh \<Rightarrow> nat \<Rightarrow> (nat \<times> placement) list \<Rightarrow> nat \<Rightarrow> nat" where
  "chunk_index mesh rank [] chunk_idx = chunk_idx"
| "chunk_index mesh rank ((mesh_dim, pl) # pls) chunk_idx =
     chunk_index mesh rank pls
       (if pl = Shard 0 then chunk_idx * (mesh_shape mesh ! mesh_dim) + get_local_rank mesh rank mesh_dim else chunk_idx)"

definition chunk_idx :: "nat \<Rightarrow> param \<Rightarrow> nat" where
  "chunk_idx rank value =
     (case value of
        Plain_tensor _ \<Rightarrow> 0
      | D_tensor _ mesh placements \<Rightarrow> chunk_index mesh rank (zip [0..<length placements] placements) 0)"

text \<open>\<open>_GROUPED_RE\<close>: the prefix and the role of a grouped entry.\<close>

definition grouped_re :: "string \<Rightarrow> (string \<times> string) option" where
  "grouped_re key =
     map_option (\<lambda>role. (chop key (CHR ''.'' # role), role))
       (List.find (\<lambda>role. let prefix = chop key (CHR ''.'' # role)
                  in endswith key (CHR ''.'' # role) \<and> endswith prefix ''.mlp.experts'' \<and> prefix \<noteq> ''.mlp.experts'')
         [''gate_up_proj'', ''down_proj''])"

definition expert_key :: "string \<Rightarrow> nat \<Rightarrow> string \<Rightarrow> string" where
  "expert_key prefix e proj = prefix @ ''.'' @ show_nat e @ ''.'' @ proj @ ''.weight''"

text \<open>The loop over the local experts, and one entry of the state dictionary.\<close>

definition explode_expert :: "string \<Rightarrow> string \<Rightarrow> ndarray \<Rightarrow> nat \<Rightarrow> nat \<Rightarrow> (string, param) dict \<Rightarrow> (string, param) dict" where
  "explode_expert prefix role local e_start i out =
     (if role = ''gate_up_proj''
      then dict_set (dict_set out (expert_key prefix (e_start + i) ''gate_proj'') (Plain_tensor (item i (first_half local))))
             (expert_key prefix (e_start + i) ''up_proj'') (Plain_tensor (item i (second_half local)))
      else dict_set out (expert_key prefix (e_start + i) ''down_proj'') (Plain_tensor (item i local)))"

definition explode_entry :: "nat \<Rightarrow> string \<Rightarrow> param \<Rightarrow> (string, param) dict \<Rightarrow> (string, param) dict result" where
  "explode_entry rank key value out =
     (case grouped_re key of
        None \<Rightarrow> Inr (dict_set out key value)
      | Some (prefix, role) \<Rightarrow>
         let local = param_local value
         in res_bind (py_nth (nd_shape local) 0) (\<lambda>e_local.
              let e_start = chunk_idx rank value * e_local
              in if role = ''gate_up_proj'' \<and> (length (nd_shape local) < 2 \<or> length (nd_shape local) < 3 \<and> 0 < e_local) then Inl IndexError
                 else Inr (fold (explode_expert prefix role local e_start) [0..<e_local] out)))"

fun explode_loop :: "nat \<Rightarrow> state \<Rightarrow> (string, param) dict \<Rightarrow> (string, param) dict result" where
  "explode_loop rank [] out = Inr out"
| "explode_loop rank ((key, value) # rest) out = res_bind (explode_entry rank key value out) (explode_loop rank rest)"

definition explode_grouped_moe :: "nat \<Rightarrow> state \<Rightarrow> (string, param) dict result" where
  "explode_grouped_moe rank state_dict = explode_loop rank state_dict []"

text \<open>\<open>_local_shape\<close>, \<open>_mesh_world_size\<close>: \<open>shape[pl.dim] //= mesh.mesh.shape[dim_idx]\<close>.\<close>

fun local_shape_loop :: "device_mesh \<Rightarrow> (nat \<times> placement) list \<Rightarrow> nat list \<Rightarrow> nat list result" where
  "local_shape_loop mesh [] shape = Inr shape"
| "local_shape_loop mesh ((dim_idx, pl) # pls) shape =
     (case pl of
        Shard d \<Rightarrow>
          res_bind (py_index (length shape) d) (\<lambda>k.
          res_bind (py_nth (mesh_shape mesh) dim_idx) (\<lambda>n.
          res_bind (py_div (shape ! k) n) (\<lambda>s. local_shape_loop mesh pls (shape[k := s]))))
      | _ \<Rightarrow> local_shape_loop mesh pls shape)"

definition local_shape :: "nat list \<Rightarrow> device_mesh \<Rightarrow> placement list \<Rightarrow> nat list result" where
  "local_shape global_shape mesh placements = local_shape_loop mesh (zip [0..<length placements] placements) global_shape"

definition mesh_world_size :: "device_mesh \<Rightarrow> nat" where
  "mesh_world_size mesh = fold (\<lambda>s ws. ws * s) (mesh_shape mesh) 1"

section \<open>The checkpoint keys of the local experts\<close>

lemma chunk_index_ravel:
  "chunk_index mesh rank pls c =
     c * prod_list (map ((!) (mesh_shape mesh)) (map fst (filter (\<lambda>(d, pl). pl = Shard 0) pls))) +
     ravel (map ((!) (mesh_shape mesh)) (map fst (filter (\<lambda>(d, pl). pl = Shard 0) pls)))
       (map (get_local_rank mesh rank) (map fst (filter (\<lambda>(d, pl). pl = Shard 0) pls)))"
proof (induction pls arbitrary: c)
  case (Cons e pls)
  then show ?case by (cases e) (simp add: algebra_simps)
qed simp

lemma chunk_idx_block: "chunk_idx rank (D_tensor t mesh placements) = ref_block mesh placements rank 0"
  unfolding chunk_idx_def param.case chunk_index_ravel map_fst_filter_zip_upt
  by (simp add: ref_block_def ref_dims_def get_local_rank_def [abs_def] ref_coords_def comp_def)

lemma takeWhile_key: "takeWhile is_digit (show_nat e @ CHR ''.'' # s) = show_nat e"
  using show_nat_digits [of e] by (subst takeWhile_append2) (auto simp: list_all_iff is_digit_def)

lemma expert_key_inj: "expert_key prefix e proj = expert_key prefix e' proj' \<longleftrightarrow> e = e' \<and> proj = proj'"
proof
  assume "expert_key prefix e proj = expert_key prefix e' proj'"
  then have k: "show_nat e @ CHR ''.'' # proj @ ''.weight'' = show_nat e' @ CHR ''.'' # proj' @ ''.weight''"
    by (simp add: expert_key_def)
  then have s: "show_nat e = show_nat e'" by (metis takeWhile_key)
  moreover have "e = e'" using s show_nat_digits by metis
  ultimately show "e = e' \<and> proj = proj'" using k by simp
qed simp

text \<open>The projections of a grouped entry: name, first row and number of rows of its view, for \<open>w\<close> grouped rows.\<close>

definition expert_parts :: "string \<Rightarrow> nat \<Rightarrow> (string \<times> nat \<times> nat) list" where
  "expert_parts role w =
     (if role = ''gate_up_proj'' then [(''gate_proj'', 0, w div 2), (''up_proj'', w div 2, w - w div 2)] else [(''down_proj'', 0, w)])"

definition expert_view :: "string \<Rightarrow> ndarray \<Rightarrow> nat \<Rightarrow> string \<Rightarrow> ndarray option" where
  "expert_view role local i proj =
     (if role = ''gate_up_proj''
      then if proj = ''gate_proj'' then Some (item i (first_half local)) else if proj = ''up_proj'' then Some (item i (second_half local)) else None
      else if proj = ''down_proj'' then Some (item i local) else None)"

lemma explode_expert_get:
  "dict_get (explode_expert prefix role local s i out) (expert_key prefix e proj) =
     (case expert_view role local i proj of
        Some v \<Rightarrow> if e = s + i then Some (Plain_tensor v) else dict_get out (expert_key prefix e proj)
      | None \<Rightarrow> dict_get out (expert_key prefix e proj))"
  by (auto simp: explode_expert_def expert_view_def dict_simps expert_key_inj)

lemma explode_experts_get:
  "dict_get (fold (explode_expert prefix role local s) [0..<n] out) (expert_key prefix e proj) =
     (case expert_view role local (e - s) proj of
        Some v \<Rightarrow> if s \<le> e \<and> e < s + n then Some (Plain_tensor v) else dict_get out (expert_key prefix e proj)
      | None \<Rightarrow> dict_get out (expert_key prefix e proj))"
proof (induction n)
  case (Suc n)
  have none: "expert_view role local i proj = None \<longleftrightarrow> expert_view role local (e - s) proj = None" for i by (simp add: expert_view_def)
  show ?case
  proof (cases "e = s + n")
    case True
    then show ?thesis using Suc by (simp add: explode_expert_get split: option.split)
  next
    case False
    then have "s \<le> e \<and> e < s + Suc n \<longleftrightarrow> s \<le> e \<and> e < s + n" by auto
    then show ?thesis using Suc False none [of n] by (auto simp: explode_expert_get split: option.split)
  qed
qed (auto split: option.split)

lemma expert_view_parts:
  assumes "(proj, lo, h) \<in> set (expert_parts role w)" "nd_shape local = [n, w, d]"
  obtains v where "expert_view role local i proj = Some v" "nd_shape v = [h, d]"
    "\<And>a b. a < h \<Longrightarrow> b < d \<Longrightarrow> nd_at v [a, b] = nd_at local [i, lo + a, b]"
  using assms by (auto simp: expert_parts_def expert_view_def first_half_def second_half_def item_def rows_def add.commute split: if_splits)

lemma grouped_re_prefix:
  assumes "endswith prefix ''.mlp.experts''" "prefix \<noteq> ''.mlp.experts''" "role \<in> {''gate_up_proj'', ''down_proj''}"
  shows "grouped_re (prefix @ ''.'' @ role) = Some (prefix, role)"
proof -
  have "\<not> endswith (prefix @ ''.down_proj'') ''.gate_up_proj''"
  proof -
    have "\<not> endswith ''.mlp.experts.down_proj'' ''.gate_up_proj''" by code_simp
    then show ?thesis
      using chop_append [OF assms(1), symmetric] endswith_prefixed [of "''.gate_up_proj''" "''.mlp.experts.down_proj''" "chop prefix ''.mlp.experts''"]
      by (metis (no_types) append_assoc append.simps length_Cons list.size(3) Suc_le_mono zero_le)
  qed
  then show ?thesis using assms by (auto simp: grouped_re_def Let_def)
qed

text \<open>A rank of a mesh and its coordinates.\<close>

lemma ref_coords_in: "mesh_ok m \<Longrightarrow> q \<in> set (mesh_ranks m) \<Longrightarrow> in_shape (mesh_shape m) (ref_coords m q)"
  using py_index_of_less [of q "mesh_ranks m"] by (metis in_grid length_grid mesh_ok_def nth_mem ref_coords_def)

lemma ref_coords_inj:
  assumes "mesh_ok m" "q \<in> set (mesh_ranks m)" "q' \<in> set (mesh_ranks m)" "ref_coords m q = ref_coords m q'"
  shows "q = q'"
proof -
  have b: "py_index_of (mesh_ranks m) q < prod_list (mesh_shape m)" "py_index_of (mesh_ranks m) q' < prod_list (mesh_shape m)"
    using assms(1) py_index_of_less [OF assms(2)] py_index_of_less [OF assms(3)] by (auto simp: mesh_ok_def)
  have "py_index_of (mesh_ranks m) q = py_index_of (mesh_ranks m) q'"
    using nth_eq_iff_index_eq [OF distinct_grid [of "mesh_shape m"]] assms(4) b by (simp add: ref_coords_def)
  then show ?thesis using py_index_of_less [OF assms(2)] py_index_of_less [OF assms(3)] by metis
qed

lemma ref_coords_surj:
  assumes "mesh_ok m" "in_shape (mesh_shape m) c"
  obtains q where "q \<in> set (mesh_ranks m)" "ref_coords m q = c"
proof -
  have i: "ravel (mesh_shape m) c < length (mesh_ranks m)" using assms ravel_bound by (simp add: mesh_ok_def)
  then have "ref_coords m (mesh_ranks m ! ravel (mesh_shape m) c) = c"
    using assms by (simp add: ref_coords_def py_index_of_nth mesh_ok_def grid_nth_ravel)
  then show ?thesis using i that nth_mem by blast
qed

lemma ravel_surj:
  assumes "b < prod_list ss"
  obtains g where "in_shape ss g" "ravel ss g = b"
  using assms nth_mem [of b "grid ss"] ravel_grid [of ss]
  by (metis in_grid length_grid nth_map nth_upt plus_nat.add_0)

lemma ref_block_owner:
  assumes "mesh_ok m" "length pl = length (mesh_shape m)" "set pl \<subseteq> {Replicate, Shard 0}"
    and "r \<in> set (mesh_ranks m)" "b < ref_count m pl 0"
  shows "\<exists>!q. q \<in> set (mesh_ranks m) \<and> ref_replica m pl q = ref_replica m pl r \<and> ref_block m pl q 0 = b"
proof -
  let ?ds = "ref_dims pl 0" and ?n = "length pl"
  let ?ss = "map ((!) (mesh_shape m)) ?ds"
  have ds: "distinct ?ds" "\<And>i. i \<in> set ?ds \<longleftrightarrow> i < ?n \<and> pl ! i = Shard 0" by (auto simp: ref_dims_def)
  have pl: "pl ! i = Replicate \<or> pl ! i = Shard 0" if "i < ?n" for i using that assms(3) nth_mem by blast
  have rep: "ref_replica m pl q = ref_replica m pl q' \<longleftrightarrow> (\<forall>i < ?n. pl ! i = Replicate \<longrightarrow> ref_coords m q ! i = ref_coords m q' ! i)" for q q'
    by (auto simp: ref_replica_def)
  have inb: "in_shape ?ss (map ((!) (ref_coords m q)) ?ds)" if "q \<in> set (mesh_ranks m)" for q
    using ref_coords_in [OF assms(1) that] ds(2) assms(2) by (auto simp: in_shape_nth) (metis nth_mem)
  obtain g where g: "in_shape ?ss g" "ravel ?ss g = b" using assms(5) ravel_surj unfolding ref_count_def by blast
  define c where "c = map (\<lambda>i. case map_of (zip ?ds g) i of Some v \<Rightarrow> v | None \<Rightarrow> ref_coords m r ! i) [0..<?n]"
  have lg: "length g = length ?ds" using g(1) by (simp add: in_shape_nth)
  have cd: "c ! (?ds ! j) = g ! j" if "j < length ?ds" for j
    using that ds lg nth_mem [OF that] by (simp add: c_def map_of_zip_nth)
  have cr: "c ! i = ref_coords m r ! i" if "i < ?n" "pl ! i = Replicate" for i
  proof -
    have "i \<notin> set ?ds" using that ds(2) by simp
    then have "map_of (zip ?ds g) i = None" using lg by simp
    then show ?thesis using that by (simp add: c_def)
  qed
  have "c ! i < mesh_shape m ! i" if i: "i < ?n" for i
  proof (cases "pl ! i = Replicate")
    case True
    then show ?thesis using cr i ref_coords_in [OF assms(1,4)] assms(2) by (simp add: in_shape_nth)
  next
    case False
    then have "i \<in> set ?ds" using i pl ds(2) by blast
    then obtain j where "j < length ?ds" "i = ?ds ! j" by (metis in_set_conv_nth)
    then show ?thesis using cd g(1) by (simp add: in_shape_nth)
  qed
  then have "in_shape (mesh_shape m) c" using assms(2) by (simp add: in_shape_nth c_def)
  then obtain q where q: "q \<in> set (mesh_ranks m)" "ref_coords m q = c" using ref_coords_surj [OF assms(1)] by blast
  have "map ((!) c) ?ds = g" using cd lg by (simp add: list_eq_iff_nth_eq)
  then have ex: "ref_replica m pl q = ref_replica m pl r \<and> ref_block m pl q 0 = b"
    using q g(2) cr by (simp add: rep ref_block_def)
  show ?thesis
  proof (rule ex1I [of _ q])
    fix q' assume q': "q' \<in> set (mesh_ranks m) \<and> ref_replica m pl q' = ref_replica m pl r \<and> ref_block m pl q' 0 = b"
    then have "ravel ?ss (map ((!) (ref_coords m q')) ?ds) = ravel ?ss (map ((!) (ref_coords m q)) ?ds)"
      using ex by (simp only: ref_block_def)
    then have "map ((!) (ref_coords m q')) ?ds = map ((!) (ref_coords m q)) ?ds"
      using ravel_inj [OF inb [of q'] inb [OF q(1)]] q' by blast
    then have "\<forall>i \<in> set ?ds. ref_coords m q' ! i = ref_coords m q ! i" by simp
    then have "\<forall>i < ?n. ref_coords m q' ! i = ref_coords m q ! i" using q' ex rep [of q' q] pl ds(2) by metis
    then have "ref_coords m q' = ref_coords m q"
      using ref_coords_in [OF assms(1)] q' q(1) assms(2) by (simp add: list_eq_iff_nth_eq in_shape_nth)
    then show "q' = q" using ref_coords_inj [OF assms(1)] q' q(1) by blast
  qed (use q ex in simp)
qed

text \<open>The grouped parameter of one rank, and whether its checkpoint keys hold a projection of an expert.\<close>

definition grouped_param :: "device_mesh \<Rightarrow> placement list \<Rightarrow> ndarray \<Rightarrow> nat \<Rightarrow> param" where
  "grouped_param m pl t q = D_tensor (to_local ref_api m pl q t) m pl"

definition holds_expert :: "device_mesh \<Rightarrow> placement list \<Rightarrow> ndarray \<Rightarrow> string \<Rightarrow> string \<Rightarrow> string \<Rightarrow> nat \<Rightarrow> nat \<Rightarrow> ndarray \<Rightarrow> bool" where
  "holds_expert m pl t prefix role proj e q v =
     (case explode_grouped_moe q [(prefix @ ''.'' @ role, grouped_param m pl t q)] of
        Inl _ \<Rightarrow> False
      | Inr out \<Rightarrow> dict_get out (expert_key prefix e proj) = Some (Plain_tensor v))"

lemma grouped_local:
  assumes "length pl = length (mesh_shape m)" "set pl \<subseteq> {Replicate, Shard 0}" "nd_shape t = [n * ref_count m pl 0, w, d]" "0 < ref_count m pl 0"
  shows "nd_shape (to_local ref_api m pl q t) = [n, w, d]"
    and "nd_at (to_local ref_api m pl q t) [i, a, b] = nd_at t [ref_block m pl q 0 * n + i, a, b]"
proof -
  have "pl ! i \<noteq> Shard (int k)" if "0 < k" "i < length pl" for k i using assms(2) that nth_mem [OF that(2)] by force
  then have none: "ref_dims pl k = []" if "0 < k" for k using that by (simp add: ref_dims_def filter_empty_conv)
  have "ref_count m pl k = 1" "ref_block m pl q k = 0" if "0 < k" for k
    using none [OF that] by (simp_all add: ref_count_def ref_block_def)
  moreover have "[0..<3] = [0, 1, 2 :: nat]" by (simp add: upt_rec)
  ultimately show "nd_shape (to_local ref_api m pl q t) = [n, w, d]"
    and "nd_at (to_local ref_api m pl q t) [i, a, b] = nd_at t [ref_block m pl q 0 * n + i, a, b]"
    using assms(3,4) by (simp_all add: ref_api_def ref_local_shape_def ref_pos_def Let_def numeral_3_eq_3 [symmetric])
qed

lemma holds_expert_iff:
  assumes "nd_shape (to_local ref_api m pl q t) = [n, w, d]" "0 < n"
    and "endswith prefix ''.mlp.experts''" "prefix \<noteq> ''.mlp.experts''" "role \<in> {''gate_up_proj'', ''down_proj''}"
  shows "holds_expert m pl t prefix role proj e q v \<longleftrightarrow>
    ref_block m pl q 0 = e div n \<and> expert_view role (to_local ref_api m pl q t) (e mod n) proj = Some v"
proof -
  let ?l = "to_local ref_api m pl q t" and ?s = "ref_block m pl q 0 * n"
  have run: "explode_grouped_moe q [(prefix @ ''.'' @ role, grouped_param m pl t q)] = Inr (fold (explode_expert prefix role ?l ?s) [0..<n] [])"
    using assms(1) grouped_re_prefix [OF assms(3-5)]
    by (simp add: explode_grouped_moe_def explode_entry_def grouped_param_def chunk_idx_block py_nth_def)
  have d: "?s \<le> e \<and> e < ?s + n \<longleftrightarrow> ref_block m pl q 0 = e div n"
    using assms(2) by (metis in_block_iff add.commute mult_Suc Suc_eq_plus1)
  have "e - ?s = e mod n" if "ref_block m pl q 0 = e div n" using that by (simp add: minus_div_mult_eq_mod)
  then show ?thesis unfolding holds_expert_def run sum.case explode_experts_get d
    by (auto simp: expert_view_def split: option.splits if_splits)
qed

text \<open>
  C20. Loading the grouped experts from a checkpoint of single experts is exact. Whatever mesh and
  placements (replicated, or sharded over the experts on any number of mesh dimensions) a grouped
  parameter has, in every replica exactly one rank asks the checkpoint for a given projection of a
  given expert, and the view it hands over is where that expert's rows are in the tensor the
  shards make up: \<open>gate_proj\<close> the first half of the grouped rows, \<open>up_proj\<close> the rest.
\<close>

theorem explode_partitions_experts:
  assumes "mesh_ok m" "length pl = length (mesh_shape m)" "set pl \<subseteq> {Replicate, Shard 0}" "nd_shape t = [n * ref_count m pl 0, w, d]"
    and "endswith prefix ''.mlp.experts''" "prefix \<noteq> ''.mlp.experts''" "role \<in> {''gate_up_proj'', ''down_proj''}"
    and "(proj, lo, h) \<in> set (expert_parts role w)" "r \<in> set (mesh_ranks m)" "e < n * ref_count m pl 0"
  shows "(\<exists>!q. q \<in> set (mesh_ranks m) \<and> ref_replica m pl q = ref_replica m pl r \<and> (\<exists>v. holds_expert m pl t prefix role proj e q v)) \<and>
    (\<forall>q v. holds_expert m pl t prefix role proj e q v \<longrightarrow>
       nd_shape v = [h, d] \<and> (\<forall>a < h. \<forall>b < d. nd_at v [a, b] = nd_at t [e, lo + a, b]))"
proof -
  have n: "0 < n" "0 < ref_count m pl 0" using assms(10) by (cases n; cases "ref_count m pl 0"; simp)+
  note local = grouped_local [OF assms(2-4) n(2)]
  note holds = holds_expert_iff [OF local(1) n(1) assms(5-7)]
  have "(\<exists>v. holds_expert m pl t prefix role proj e q v) \<longleftrightarrow> ref_block m pl q 0 = e div n" for q
    using expert_view_parts [OF assms(8) local(1)] holds by metis
  moreover have "e div n < ref_count m pl 0" using assms(10) n by (simp add: div_less_iff_less_mult mult.commute)
  ultimately have one: "\<exists>!q. q \<in> set (mesh_ranks m) \<and> ref_replica m pl q = ref_replica m pl r \<and> (\<exists>v. holds_expert m pl t prefix role proj e q v)"
    using ref_block_owner [OF assms(1-3,9)] by simp
  have "nd_shape v = [h, d] \<and> (\<forall>a < h. \<forall>b < d. nd_at v [a, b] = nd_at t [e, lo + a, b])" if v: "holds_expert m pl t prefix role proj e q v" for q v
  proof -
    have b: "ref_block m pl q 0 = e div n" "expert_view role (to_local ref_api m pl q t) (e mod n) proj = Some v" using v holds by auto
    obtain v' where "expert_view role (to_local ref_api m pl q t) (e mod n) proj = Some v'" "nd_shape v' = [h, d]"
      "\<And>a b. a < h \<Longrightarrow> b < d \<Longrightarrow> nd_at v' [a, b] = nd_at (to_local ref_api m pl q t) [e mod n, lo + a, b]"
      using expert_view_parts [OF assms(8) local(1), of q "e mod n"] by blast
    then show ?thesis using b local(2) [of q "e mod n"] by simp
  qed
  then show ?thesis using one by blast
qed

definition trainer_mesh :: device_mesh where
  "trainer_mesh = \<lparr>mesh_shape = [1, 2, 2], mesh_ranks = [0, 1, 2, 3]\<rparr>"

theorem explode_partitions_experts_witness:
  "\<exists>!q. q \<in> set (mesh_ranks trainer_mesh) \<and>
     ref_replica trainer_mesh [Replicate, Shard 0, Shard 0] q = ref_replica trainer_mesh [Replicate, Shard 0, Shard 0] 3 \<and>
     (\<exists>v. holds_expert trainer_mesh [Replicate, Shard 0, Shard 0] \<lparr>nd_shape = [8, 2, 1], nd_at = sum_list\<rparr> ''m.mlp.experts'' ''gate_up_proj'' ''up_proj'' 5 q v)"
proof -
  have c: "ref_count trainer_mesh [Replicate, Shard 0, Shard 0] 0 = 4" "mesh_ok trainer_mesh" by code_simp+
  have p: "endswith ''m.mlp.experts'' ''.mlp.experts''" by code_simp
  show ?thesis
    by (rule explode_partitions_experts [where n = 2 and w = 2 and d = 1 and lo = 1 and h = 1 and r = 3, THEN conjunct1])
      (use c p in \<open>simp_all add: expert_parts_def trainer_mesh_def\<close>)
qed

section \<open>Pairs and registration\<close>

text \<open>
  The calls a side makes on its bus client. Each returns before the next is made
  (\<open>blocking=True\<close>); the trainer also raises when a name has no handler, so what it did is
  the list of calls together with the outcome.
\<close>

record init_call =
  call_pair :: string
  call_local_name :: string
  call_remote_name :: string
  call_world_size :: nat
  call_mesh :: "device_mesh option"
  call_placements :: "placement list"

text \<open>\<open>sorted(...)\<close> of names and \<open>None\<close>: the two do not compare.\<close>

definition sorted_names :: "string option list \<Rightarrow> string option list result" where
  "sorted_names hs = (if None \<in> set hs \<and> 1 < length hs then Inl TypeError else Inr (map Some (sort (map the (filter (\<lambda>h. h \<noteq> None) hs))) @ filter (\<lambda>h. h = None) hs))"

lemma sorted_names_Some: "sorted_names (map Some hs) = Inr (map Some (sort hs))"
  by (auto simp: sorted_names_def comp_def filter_map)

definition handler_mesh :: "device_mesh \<Rightarrow> device_mesh \<Rightarrow> string \<Rightarrow> device_mesh" where
  "handler_mesh att_mesh moe_mesh handler = (if handler \<in> set MOE_HANDLERS then moe_mesh else att_mesh)"

text \<open>\<open>_build_state_dict\<close>: \<open>torch.empty\<close> has the shape and arbitrary elements.\<close>

fun build_state_dict ::
  "(string \<Rightarrow> nat list \<Rightarrow> nat) \<Rightarrow> device_mesh \<Rightarrow> device_mesh \<Rightarrow> (string \<times> nat list) list \<Rightarrow> state \<Rightarrow> state result" where
  "build_state_dict junk att_mesh moe_mesh [] st = Inr st"
| "build_state_dict junk att_mesh moe_mesh ((name, shape) # params) st =
     (case get_handler_name name of
        None \<Rightarrow> build_state_dict junk att_mesh moe_mesh params st
      | Some handler \<Rightarrow>
         (case dict_get HANDLER_PLACEMENTS handler of
            None \<Rightarrow> Inl KeyError
          | Some placements \<Rightarrow>
             let mesh = handler_mesh att_mesh moe_mesh handler
             in res_bind (local_shape shape mesh placements) (\<lambda>lsh.
                  build_state_dict junk att_mesh moe_mesh params
                    (dict_set st name (D_tensor \<lparr>nd_shape = lsh, nd_at = junk name\<rparr> mesh placements)))))"

text \<open>\<open>handlers = sorted({get_handler_name(name) for name in state})\<close>.\<close>

definition state_handlers :: "state \<Rightarrow> string option list result" where
  "state_handlers st = sorted_names (remdups (map get_handler_name (dict_keys st)))"

fun init_pairs ::
  "string \<Rightarrow> string \<Rightarrow> device_mesh \<Rightarrow> device_mesh \<Rightarrow> string option list \<Rightarrow> init_call list \<times> unit result" where
  "init_pairs trainer_name vllm_name att_mesh moe_mesh [] = ([], Inr ())"
| "init_pairs trainer_name vllm_name att_mesh moe_mesh (handler # handlers) =
     (case handler of
        None \<Rightarrow> ([], Inl KeyError)
      | Some h \<Rightarrow>
         (case dict_get HANDLER_PLACEMENTS h of
            None \<Rightarrow> ([], Inl KeyError)
          | Some placements \<Rightarrow>
             let mesh = handler_mesh att_mesh moe_mesh h;
                 call = \<lparr>call_pair = h, call_local_name = trainer_name, call_remote_name = vllm_name,
                   call_world_size = mesh_world_size mesh, call_mesh = Some mesh, call_placements = placements\<rparr>
             in case init_pairs trainer_name vllm_name att_mesh moe_mesh handlers of (calls, r) \<Rightarrow> (call # calls, r)))"

text \<open>\<open>by_pair.setdefault(pair, []).append(entry)\<close>.\<close>

definition dict_append :: "('k, 'v list) dict \<Rightarrow> 'k \<Rightarrow> 'v \<Rightarrow> ('k, 'v list) dict" where
  "dict_append d k v = dict_set d k (dict_get_or d k [] @ [v])"

definition trainer_entry ::
  "string \<Rightarrow> param \<Rightarrow> (string option, (string \<times> ndarray) list) dict \<Rightarrow> (string option, (string \<times> ndarray) list) dict result" where
  "trainer_entry name dt by_pair =
     (let local = param_local dt
      in if endswith name ''mlp.experts.gate_up_proj'' then
           let base = chop name ''gate_up_proj''
           in res_bind (halves local) (\<lambda>(gate, up).
                Inr (dict_append (dict_append by_pair (Some ''experts_gate_up'') (base @ ''gate_proj'', gate)) (Some ''experts_gate_up'') (base @ ''up_proj'', up)))
         else Inr (dict_append by_pair (get_handler_name name) (name, local)))"

fun trainer_by_pair ::
  "state \<Rightarrow> (string option, (string \<times> ndarray) list) dict \<Rightarrow> (string option, (string \<times> ndarray) list) dict result" where
  "trainer_by_pair [] by_pair = Inr by_pair"
| "trainer_by_pair ((name, dt) # rest) by_pair = res_bind (trainer_entry name dt by_pair) (trainer_by_pair rest)"

text \<open>The list handed to \<open>register_tensors\<close>: the pairs in order, each pair's tensors by name.\<close>

definition register_batch :: "state \<Rightarrow> (ndarray \<times> string option) list result" where
  "register_batch st =
     res_bind (trainer_by_pair st []) (\<lambda>by_pair.
     res_bind (sorted_names (dict_keys by_pair)) (\<lambda>handlers.
       Inr (concat (map (\<lambda>handler. map (\<lambda>(name, t). (t, handler)) (sort_key fst (dict_get_or by_pair handler []))) handlers))))"

section \<open>The worker\<close>

text \<open>
  A module of the loaded model: the case of \<open>match module\<close> it falls into, its name and the names
  of its own parameters. A \<open>FusedMoE\<close> knows its expert-parallel rank and size.
\<close>

datatype module_kind =
  ColumnParallelLinear | RowParallelLinear | VocabParallelEmbedding | FusedMoE nat nat | OtherModule

datatype mesh_kind = DPTP | EP

record vllm_module =
  mod_name :: string
  mod_kind :: module_kind
  mod_params :: "string list"

record worker =
  data_parallel_size :: nat
  tensor_parallel_size :: nat
  named_modules :: "vllm_module list"
  model_state_dict :: "(string, ndarray option) dict"
  model_hf_config :: hf_config
  ep_group_size :: "nat option"
  cutlass_swap :: bool   \<comment> \<open>whether the first layer's MoE backend is one that swaps \<open>w13\<close>\<close>

fun get_ep_info :: "vllm_module list \<Rightarrow> (nat \<times> nat) option" where
  "get_ep_info [] = None"
| "get_ep_info (m # ms) = (case mod_kind m of FusedMoE rk sz \<Rightarrow> Some (rk, sz) | _ \<Rightarrow> get_ep_info ms)"

definition arange_mesh :: "nat list \<Rightarrow> device_mesh" where
  "arange_mesh shape = \<lparr>mesh_shape = shape, mesh_ranks = [0..<prod_list shape]\<rparr>"

definition build_device_meshes :: "worker \<Rightarrow> device_mesh \<times> device_mesh option" where
  "build_device_meshes w =
     (arange_mesh [data_parallel_size w, tensor_parallel_size w],
      map_option (\<lambda>(rk, sz). arange_mesh [sz]) (get_ep_info (named_modules w)))"

fun kind_placements :: "module_kind \<Rightarrow> mesh_kind \<times> placement list option \<times> placement list option" where
  "kind_placements ColumnParallelLinear = (DPTP, Some [Replicate, Shard 0], Some [Replicate, Shard 0])"
| "kind_placements RowParallelLinear = (DPTP, Some [Replicate, Shard 1], Some [Replicate, Replicate])"
| "kind_placements VocabParallelEmbedding = (DPTP, Some [Replicate, Shard 0], None)"
| "kind_placements (FusedMoE _ _) = (EP, Some [Shard 0], Some [Shard 0])"
| "kind_placements OtherModule = (DPTP, Some [Replicate, Replicate], Some [Replicate, Replicate])"

type_synonym vllm_placements = "(string, mesh_kind \<times> device_mesh option \<times> placement list) dict"

definition place_param :: "device_mesh \<times> device_mesh option \<Rightarrow> vllm_module \<Rightarrow> string \<Rightarrow> vllm_placements \<Rightarrow> vllm_placements" where
  "place_param meshes m para_name placements =
     (case kind_placements (mod_kind m) of (kind, weight_pl, bias_pl) \<Rightarrow>
        let mesh = (if kind = DPTP then Some (fst meshes) else snd meshes); full_name = mod_name m @ ''.'' @ para_name
        in if py_in ''weight'' para_name \<and> weight_pl \<noteq> None then dict_set placements full_name (kind, mesh, the weight_pl)
           else if py_in ''bias'' para_name \<and> bias_pl \<noteq> None then dict_set placements full_name (kind, mesh, the bias_pl)
           else if para_name = ''sinks'' then dict_set placements full_name (DPTP, Some (fst meshes), [Replicate, Shard 0])
           else placements)"

definition get_placements :: "worker \<Rightarrow> vllm_placements" where
  "get_placements w =
     fold (\<lambda>m. fold (place_param (build_device_meshes w) m) (mod_params m)) (named_modules w) []"

text \<open>
  The loop of \<open>setup_tensorbus\<close> over the converted parameters: the configuration of a pair comes
  from its first parameter, the grouped gate and up rows become two views.
\<close>

record pair_cfg =
  cfg_device_mesh :: "device_mesh option"
  cfg_world_size :: nat
  cfg_placements :: "placement list"

type_synonym worker_tables = "(string, pair_cfg) dict \<times> (string, (string \<times> ndarray) list) dict"

definition worker_entry :: "worker \<Rightarrow> vllm_placements \<Rightarrow> string \<Rightarrow> string \<times> ndarray \<Rightarrow> worker_tables \<Rightarrow> worker_tables result" where
  "worker_entry w placements param_name entry tables =
     (case entry of (org_param_name, tensor) \<Rightarrow>
      case get_handler_name param_name of
        None \<Rightarrow> Inr tables
      | Some pair_name \<Rightarrow>
      case dict_get placements org_param_name of
        None \<Rightarrow> Inr tables
      | Some (kind, mesh, placement) \<Rightarrow>
         let ep_world_size = (case ep_group_size w of Some n \<Rightarrow> n | None \<Rightarrow> 1);
             cfg = \<lparr>cfg_device_mesh = mesh,
               cfg_world_size = (if kind = DPTP then data_parallel_size w * tensor_parallel_size w else ep_world_size),
               cfg_placements = placement\<rparr>;
             pair_cfgs = (if dict_get (fst tables) pair_name = None then dict_set (fst tables) pair_name cfg else fst tables);
             by_pair = snd tables
         in if endswith param_name ''mlp.experts.gate_up_proj'' then
              let base = chop param_name ''gate_up_proj''
              in res_bind (halves tensor) (\<lambda>(lower, upper).
                   let gate_view = (if cutlass_swap w then upper else lower); up_view = (if cutlass_swap w then lower else upper)
                   in Inr (pair_cfgs, dict_append (dict_append by_pair pair_name (base @ ''gate_proj'', gate_view)) pair_name (base @ ''up_proj'', up_view)))
            else Inr (pair_cfgs, dict_append by_pair pair_name (param_name, tensor)))"

fun worker_tables :: "worker \<Rightarrow> vllm_placements \<Rightarrow> converted \<Rightarrow> worker_tables \<Rightarrow> worker_tables result" where
  "worker_tables w placements [] tables = Inr tables"
| "worker_tables w placements ((param_name, entry) # rest) tables =
     res_bind (worker_entry w placements param_name entry tables) (worker_tables w placements rest)"

text \<open>The calls on the client, in the order of the \<open>SortedDict\<close>, and the tensors registered.\<close>

definition worker_call :: "string \<Rightarrow> string \<Rightarrow> string \<times> pair_cfg \<Rightarrow> init_call" where
  "worker_call trainer_name vllm_name entry =
     (case entry of (pair_name, cfg) \<Rightarrow>
        \<lparr>call_pair = pair_name, call_local_name = vllm_name, call_remote_name = trainer_name,
         call_world_size = cfg_world_size cfg, call_mesh = cfg_device_mesh cfg, call_placements = cfg_placements cfg\<rparr>)"

definition setup_tensorbus ::
  "(nat \<Rightarrow> nat \<Rightarrow> nat \<Rightarrow> nat) \<Rightarrow> string \<Rightarrow> string \<Rightarrow> worker \<Rightarrow> (init_call list \<times> (ndarray \<times> string) list) result" where
  "setup_tensorbus heads trainer_name vllm_name w =
     res_bind (convert_vllm_state_dict heads (model_state_dict w) (model_hf_config w)) (\<lambda>converted.
     res_bind (worker_tables w (get_placements w) converted ([], [])) (\<lambda>(pair_cfgs, tensors_by_pair).
       Inr (map (worker_call trainer_name vllm_name) (sort_key fst pair_cfgs),
            concat (map (\<lambda>pair_name. map (\<lambda>(name, t). (t, pair_name)) (sort_key fst (dict_get_or tensors_by_pair pair_name [])))
              (sort (dict_keys pair_cfgs))))))"

section \<open>Both sides agree\<close>

text \<open>What a parameter exposes to the bus, under which name, and where each side keeps it.\<close>

datatype part = Whole | Gate | Up

definition exposed :: "string \<Rightarrow> (string \<times> part) list" where
  "exposed name =
     (if endswith name ''mlp.experts.gate_up_proj''
      then [(chop name ''gate_up_proj'' @ ''gate_proj'', Gate), (chop name ''gate_up_proj'' @ ''up_proj'', Up)] else [(name, Whole)])"

primrec trainer_part :: "part \<Rightarrow> ndarray \<Rightarrow> ndarray" where
  "trainer_part Whole t = t"
| "trainer_part Gate t = first_half t"
| "trainer_part Up t = second_half t"

primrec worker_part :: "bool \<Rightarrow> part \<Rightarrow> ndarray \<Rightarrow> ndarray" where
  "worker_part swap Whole t = t"
| "worker_part swap Gate t = (if swap then second_half t else first_half t)"
| "worker_part swap Up t = (if swap then first_half t else second_half t)"

lemma append_get: "dict_get_or (fold (\<lambda>(k, v) d. dict_append d k v) es d) k [] = dict_get_or d k [] @ map snd (filter (\<lambda>e. fst e = k) es)"
proof (induction es arbitrary: d)
  case (Cons e es)
  then show ?case by (cases e) (simp add: dict_append_def dict_simps)
qed simp

lemma append_keys:
  "set (dict_keys (fold (\<lambda>(k, v) d. dict_append d k v) es d)) = set (dict_keys d) \<union> fst ` set es"
  "distinct (dict_keys d) \<Longrightarrow> distinct (dict_keys (fold (\<lambda>(k, v) d. dict_append d k v) es d))"
  by (induction es arbitrary: d) (auto simp: dict_append_def dict_keys_set split: if_splits)

text \<open>The entries of a side: pair, exposed name and view.\<close>

definition side_entries :: "(string \<Rightarrow> 'p) \<Rightarrow> (part \<Rightarrow> ndarray \<Rightarrow> ndarray) \<Rightarrow> (string \<times> ndarray) list \<Rightarrow> ('p \<times> string \<times> ndarray) list" where
  "side_entries pair part_of params = concat (map (\<lambda>(name, t). map (\<lambda>(n, p). (pair name, n, part_of p t)) (exposed name)) params)"

lemma side_entries_Cons [simp]:
  "side_entries pair part_of ((name, t) # params) = map (\<lambda>(n, p). (pair name, n, part_of p t)) (exposed name) @ side_entries pair part_of params"
  by (simp add: side_entries_def)

lemma side_entries_Nil [simp]: "side_entries pair part_of [] = []"
  by (simp add: side_entries_def)

lemma trainer_by_pair_entries:
  assumes "\<forall>(name, dt) \<in> set st. endswith name ''mlp.experts.gate_up_proj'' \<longrightarrow> get_handler_name name = Some ''experts_gate_up'' \<and> 2 < length (nd_shape (param_local dt))"
  shows "trainer_by_pair st d =
    Inr (fold (\<lambda>(k, v) d. dict_append d k v) (side_entries get_handler_name trainer_part (map (\<lambda>(n, dt). (n, param_local dt)) st)) d)"
  using assms
proof (induction st arbitrary: d)
  case (Cons e st)
  then show ?case by (cases e) (auto simp: trainer_entry_def exposed_def halves_def Let_def)
qed simp

text \<open>The parameters the worker transfers: those with a handler and a placement.\<close>

definition transferred :: "vllm_placements \<Rightarrow> converted \<Rightarrow> (string \<times> ndarray) list" where
  "transferred placements conv =
     map (\<lambda>(name, org, t). (name, t)) (filter (\<lambda>(name, org, t). get_handler_name name \<noteq> None \<and> dict_get placements org \<noteq> None) conv)"

lemma worker_tables_entries:
  assumes "\<forall>(name, t) \<in> set (transferred placements conv). endswith name ''mlp.experts.gate_up_proj'' \<longrightarrow> 2 < length (nd_shape t)"
  shows "\<exists>cfgs'. worker_tables w placements conv (cfgs, d) =
      Inr (cfgs', fold (\<lambda>(k, v) d. dict_append d k v) (side_entries (the \<circ> get_handler_name) (worker_part (cutlass_swap w)) (transferred placements conv)) d) \<and>
    set (dict_keys cfgs') = set (dict_keys cfgs) \<union> (the \<circ> get_handler_name \<circ> fst) ` set (transferred placements conv) \<and>
    (distinct (dict_keys cfgs) \<longrightarrow> distinct (dict_keys cfgs'))"
  using assms
proof (induction conv arbitrary: cfgs d)
  case (Cons e conv)
  obtain name org t where e: "e = (name, org, t)" by (cases e)
  show ?case
  proof (cases "get_handler_name name = None \<or> dict_get placements org = None")
    case True
    then have "worker_entry w placements name (org, t) (cfgs, d) = Inr (cfgs, d)" "transferred placements (e # conv) = transferred placements conv"
      by (auto simp: worker_entry_def transferred_def e split: option.split)
    then show ?thesis using Cons by (simp add: e)
  next
    case False
    then obtain h kind mesh pl where h: "get_handler_name name = Some h" "dict_get placements org = Some (kind, mesh, pl)" by auto
    have tr: "transferred placements (e # conv) = (name, t) # transferred placements conv" using h by (simp add: transferred_def e)
    obtain cfgs1 where step: "worker_entry w placements name (org, t) (cfgs, d) =
        Inr (cfgs1, fold (\<lambda>(k, v) d. dict_append d k v) (map (\<lambda>(n, p). (h, n, worker_part (cutlass_swap w) p t)) (exposed name)) d)"
      and keys: "set (dict_keys cfgs1) = insert h (set (dict_keys cfgs))" "distinct (dict_keys cfgs) \<Longrightarrow> distinct (dict_keys cfgs1)"
    proof (cases "dict_get cfgs h = None")
      case True
      then have "h \<notin> set (dict_keys cfgs)" by (auto simp: set_dict_keys)
      then show ?thesis using Cons.prems True h that unfolding tr
        by (auto simp: worker_entry_def exposed_def halves_def Let_def dict_keys_set)
    next
      case False
      then have "insert h (set (dict_keys cfgs)) = set (dict_keys cfgs)" by (auto simp: set_dict_keys)
      then show ?thesis using Cons.prems False h that unfolding tr
        by (auto simp: worker_entry_def exposed_def halves_def Let_def)
    qed
    have "\<forall>(name, t) \<in> set (transferred placements conv). endswith name ''mlp.experts.gate_up_proj'' \<longrightarrow> 2 < length (nd_shape t)"
      using Cons.prems tr by simp
    then obtain cfgs' where ih: "worker_tables w placements conv (cfgs1, fold (\<lambda>(k, v) d. dict_append d k v)
          (map (\<lambda>(n, p). (h, n, worker_part (cutlass_swap w) p t)) (exposed name)) d) = Inr (cfgs', fold (\<lambda>(k, v) d. dict_append d k v)
          (side_entries (the \<circ> get_handler_name) (worker_part (cutlass_swap w)) (transferred placements conv))
          (fold (\<lambda>(k, v) d. dict_append d k v) (map (\<lambda>(n, p). (h, n, worker_part (cutlass_swap w) p t)) (exposed name)) d))"
        "set (dict_keys cfgs') = set (dict_keys cfgs1) \<union> (the \<circ> get_handler_name \<circ> fst) ` set (transferred placements conv)"
        "distinct (dict_keys cfgs1) \<longrightarrow> distinct (dict_keys cfgs')"
      using Cons.IH by blast
    show ?thesis unfolding tr unfolding e worker_tables.simps step res_bind.simps side_entries_Cons fold_append o_apply h(1) option.sel ih(1)
      using ih(2,3) keys h(1) by (intro exI [of _ cfgs']) auto
  qed
qed (simp add: transferred_def)

definition side_views :: "(part \<Rightarrow> ndarray \<Rightarrow> ndarray) \<Rightarrow> (string \<times> ndarray) list \<Rightarrow> (string \<times> ndarray) list" where
  "side_views part_of params = concat (map (\<lambda>(name, t). map (\<lambda>(n, p). (n, part_of p t)) (exposed name)) params)"

lemma side_entries_pair:
  "map snd (filter (\<lambda>e. fst e = k) (side_entries pair f ps)) = side_views f (filter (\<lambda>p. pair (fst p) = k) ps)"
proof (induction ps)
  case (Cons p ps)
  then show ?case by (cases p) (auto simp: side_views_def filter_map comp_def split_beta)
qed (simp add: side_views_def)

lemma fst_side_entries: "fst ` set (side_entries pair f ps) = (pair \<circ> fst) ` set ps"
proof (induction ps)
  case (Cons p ps)
  have "\<exists>n q. (n, q) \<in> set (exposed (fst p))" by (auto simp: exposed_def)
  then have "fst ` set (map (\<lambda>(n, q). (pair (fst p), n, f q (snd p))) (exposed (fst p))) = {pair (fst p)}" by (auto simp: image_iff split_beta) blast
  then show ?case using Cons side_entries_Cons [of pair f "fst p" "snd p" ps] by (simp add: image_Un)
qed simp

lemma side_views_names: "map fst (side_views f ps) = concat (map (map fst \<circ> exposed) (map fst ps))"
  by (induction ps) (auto simp: side_views_def)

lemma side_views_member: "(n, v) \<in> set (side_views f ps) \<longleftrightarrow> (\<exists>name t p. (name, t) \<in> set ps \<and> (n, p) \<in> set (exposed name) \<and> v = f p t)"
  by (force simp: side_views_def)

lemma map_fst_sort_key: "map fst (sort_key fst xs) = sort (map fst xs)"
proof (rule properties_for_sort [symmetric])
  show "sorted (map fst (sort_key fst xs))" by (rule sorted_sort_key)
  show "mset (map fst (sort_key fst xs)) = mset (map fst xs)" by (metis mset_map mset_sort)
qed

definition unclashing :: "string list \<Rightarrow> bool" where
  "unclashing names \<longleftrightarrow> distinct (concat (map (map fst \<circ> exposed) names))"

lemma distinct_concat_map_disjoint:
  "distinct (concat (map F xs)) \<Longrightarrow> x \<in> set xs \<Longrightarrow> y \<in> set xs \<Longrightarrow> x \<noteq> y \<Longrightarrow> set (F x) \<inter> set (F y) = {}"
  by (induction xs) auto

lemma exposed_unique:
  assumes "unclashing names" "name \<in> set names" "name' \<in> set names" "(n, p) \<in> set (exposed name)" "(n, p') \<in> set (exposed name')"
  shows "name = name' \<and> p = p'"
proof -
  have "name = name'"
  proof (rule ccontr)
    assume ne: "name \<noteq> name'"
    note distinct_concat_map_disjoint [OF assms(1) [unfolded unclashing_def] assms(2,3) ne]
    then show False using assms(4,5) by force
  qed
  then show ?thesis using assms(4,5) by (auto simp: exposed_def split: if_splits)
qed

lemma views_match:
  assumes "set (map fst ps) = set (map fst qs)" "distinct (map fst ps)" "distinct (map fst qs)" "unclashing (map fst ps)"
  shows "list_all2 (\<lambda>(n, v) (n', u). n = n' \<and> (\<exists>name p a b. (name, a) \<in> set ps \<and> (name, b) \<in> set qs \<and> (n, p) \<in> set (exposed name) \<and> v = f p a \<and> u = g p b))
    (sort_key fst (side_views f ps)) (sort_key fst (side_views g qs))" (is "list_all2 ?R ?xs ?ys")
proof -
  have "mset (map fst ps) = mset (map fst qs)" using set_eq_iff_mset_eq_distinct [OF assms(2,3)] assms(1) by blast
  then have m: "mset (map fst (side_views f ps)) = mset (map fst (side_views g qs))"
    unfolding side_views_names mset_concat map_map [symmetric] by (metis mset_map sum_mset_sum_list)
  then have names: "map fst ?xs = map fst ?ys" unfolding map_fst_sort_key by (metis properties_for_sort sorted_sort mset_sort)
  have "?R (?xs ! i) (?ys ! i)" if i: "i < length ?xs" for i
  proof -
    have j: "i < length ?ys" using i names by (metis length_map)
    obtain n v where x: "?xs ! i = (n, v)" by (cases "?xs ! i")
    obtain n' u where y: "?ys ! i = (n', u)" by (cases "?ys ! i")
    have "map fst ?xs ! i = map fst ?ys ! i" using names by simp
    then have e: "?xs ! i = (n, v)" "?ys ! i = (n, u)" using i j x y by simp_all
    have "(n, v) \<in> set (side_views f ps)" "(n, u) \<in> set (side_views g qs)"
      using nth_mem [OF i] nth_mem [OF j] e by simp_all
    then obtain name a p name' b p' where "(name, a) \<in> set ps" "(n, p) \<in> set (exposed name)" "v = f p a"
      "(name', b) \<in> set qs" "(n, p') \<in> set (exposed name')" "u = g p' b" unfolding side_views_member by blast
    moreover have "name = name' \<and> p = p'"
      by (rule exposed_unique [OF assms(4)]) (use calculation assms(1) in \<open>force+\<close>)
    ultimately show ?thesis using e by auto
  qed
  moreover have "length ?xs = length ?ys" using arg_cong [OF names, of length] by simp
  ultimately show ?thesis by (simp add: list_all2_conv_all_nth)
qed

text \<open>
  Two registered tensors belong together: the same pair, and each side's view of the same part of
  the same parameter.
\<close>

definition same_part :: "state \<Rightarrow> (string \<times> ndarray) list \<Rightarrow> bool \<Rightarrow> ndarray \<times> string option \<Rightarrow> ndarray \<times> string \<Rightarrow> bool" where
  "same_part st params swap sent received \<longleftrightarrow>
     snd sent = Some (snd received) \<and>
     (\<exists>name n p dt v. (name, dt) \<in> set st \<and> (name, v) \<in> set params \<and> get_handler_name name = snd sent \<and>
        (n, p) \<in> set (exposed name) \<and> fst sent = trainer_part p (param_local dt) \<and> fst received = worker_part swap p v)"

definition state_names_ok :: "state \<Rightarrow> bool" where
  "state_names_ok st \<longleftrightarrow> distinct (dict_keys st) \<and> unclashing (dict_keys st) \<and>
     list_all (\<lambda>(name, dt). get_handler_name name \<noteq> None \<and>
       (endswith name ''mlp.experts.gate_up_proj'' \<longrightarrow> get_handler_name name = Some ''experts_gate_up'' \<and> 2 < length (nd_shape (param_local dt)))) st"

lemma handlers_placed: "get_handler_name name = Some h \<Longrightarrow> dict_get HANDLER_PLACEMENTS h \<noteq> None"
proof -
  assume "get_handler_name name = Some h"
  then have "h \<in> set (map snd HANDLER_KEYWORDS)" by (force simp: get_handler_name_def dest: find_SomeD)
  moreover have "list_all (\<lambda>h. dict_get HANDLER_PLACEMENTS h \<noteq> None) (map snd HANDLER_KEYWORDS)" by code_simp
  ultimately show ?thesis by (auto simp: list_all_iff)
qed

lemma init_pairs_calls:
  "\<forall>h \<in> set hs. dict_get HANDLER_PLACEMENTS h \<noteq> None \<Longrightarrow>
   \<exists>calls. init_pairs tn vn att moe (map Some hs) = (calls, Inr ()) \<and> map call_pair calls = hs \<and>
     (\<forall>c \<in> set calls. call_local_name c = tn \<and> call_remote_name c = vn)"
proof (induction hs)
  case (Cons h hs)
  then obtain pl where "dict_get HANDLER_PLACEMENTS h = Some pl" by auto
  then show ?case using Cons by (auto simp: Let_def)
qed simp

lemma remdups_map_Some: "remdups (map Some xs) = map Some (remdups xs)"
  by (induction xs) auto

text \<open>What both sides compute, from the names alone.\<close>

definition pair_names :: "string list \<Rightarrow> string list" where
  "pair_names names = sorted_set (map (the \<circ> get_handler_name) names)"

lemma trainer_side:
  assumes "state_names_ok st"
  shows "state_handlers st = Inr (map Some (pair_names (dict_keys st)))"
    and "register_batch st = Inr (concat (map (\<lambda>h. map (\<lambda>(n, t). (t, Some h)) (sort_key fst
      (side_views trainer_part (filter (\<lambda>p. get_handler_name (fst p) = Some h) (map (\<lambda>(n, dt). (n, param_local dt)) st)))))
      (pair_names (dict_keys st))))"
proof -
  have all: "get_handler_name n = Some (the (get_handler_name n))" if "n \<in> set (dict_keys st)" for n
    using assms that by (auto simp: state_names_ok_def list_all_iff dict_keys_def)
  then have hs: "map get_handler_name (dict_keys st) = map Some (map (the \<circ> get_handler_name) (dict_keys st))" by simp
  show "state_handlers st = Inr (map Some (pair_names (dict_keys st)))"
    unfolding state_handlers_def hs remdups_map_Some sorted_names_Some by (simp add: pair_names_def sorted_set_def)
  let ?es = "side_entries get_handler_name trainer_part (map (\<lambda>(n, dt). (n, param_local dt)) st)"
  define D where "D = fold (\<lambda>(k, v) d. dict_append d k v) ?es []"
  have run: "trainer_by_pair st [] = Inr D" unfolding D_def
    by (rule trainer_by_pair_entries) (use assms in \<open>auto simp: state_names_ok_def list_all_iff\<close>)
  have keys: "set (dict_keys D) = get_handler_name ` set (dict_keys st)" "distinct (dict_keys D)"
    unfolding D_def append_keys(1) by (simp add: fst_side_entries dict_keys_def image_image split_beta) (rule append_keys(2), simp)
  then have "None \<notin> set (dict_keys D)" using all by force
  then have some: "dict_keys D = map Some (map the (dict_keys D))"
    by (auto intro!: nth_equalityI) (metis nth_mem option.collapse)
  have "sort (map the (dict_keys D)) = pair_names (dict_keys st)"
  proof (rule sorted_distinct_set_unique)
    have "inj_on the (set (dict_keys D))" using \<open>None \<notin> set (dict_keys D)\<close> by (auto simp: inj_on_def) (metis option.expand)
    then show "distinct (sort (map the (dict_keys D)))" using keys(2) by (simp add: distinct_map)
  qed (auto simp: pair_names_def keys(1))
  then have sorted: "sorted_names (dict_keys D) = Inr (map Some (pair_names (dict_keys st)))" using sorted_names_Some some by metis
  show "register_batch st = Inr (concat (map (\<lambda>h. map (\<lambda>(n, t). (t, Some h)) (sort_key fst
      (side_views trainer_part (filter (\<lambda>p. get_handler_name (fst p) = Some h) (map (\<lambda>(n, dt). (n, param_local dt)) st)))))
      (pair_names (dict_keys st))))"
    unfolding register_batch_def run res_bind.simps sorted unfolding D_def append_get side_entries_pair
    by (simp add: dict_get_or_def comp_def)
qed

lemma worker_side:
  assumes "convert_vllm_state_dict heads (model_state_dict w) (model_hf_config w) = Inr conv" "ps = transferred (get_placements w) conv"
    and "\<forall>(name, t) \<in> set ps. endswith name ''mlp.experts.gate_up_proj'' \<longrightarrow> 2 < length (nd_shape t)"
  shows "\<exists>calls. setup_tensorbus heads tn vn w = Inr (calls, concat (map (\<lambda>h. map (\<lambda>(n, t). (t, h)) (sort_key fst
      (side_views (worker_part (cutlass_swap w)) (filter (\<lambda>p. the (get_handler_name (fst p)) = h) ps)))) (pair_names (map fst ps)))) \<and>
    map call_pair calls = pair_names (map fst ps) \<and> (\<forall>c \<in> set calls. call_local_name c = vn \<and> call_remote_name c = tn)"
proof -
  let ?es = "side_entries (the \<circ> get_handler_name) (worker_part (cutlass_swap w)) ps"
  obtain cfgs where run: "worker_tables w (get_placements w) conv ([], []) = Inr (cfgs, fold (\<lambda>(k, v) d. dict_append d k v) ?es [])"
    and keys: "set (dict_keys cfgs) = (the \<circ> get_handler_name \<circ> fst) ` set ps" "distinct (dict_keys cfgs)"
    using worker_tables_entries [of "get_placements w" conv w "[]" "[]"] assms(2,3) by auto
  have names: "sort (dict_keys cfgs) = pair_names (map fst ps)"
    by (rule sorted_distinct_set_unique) (use keys in \<open>auto simp: pair_names_def image_image\<close>)
  let ?calls = "map (worker_call tn vn) (sort_key fst cfgs)"
  have "map call_pair ?calls = map fst (sort_key fst cfgs)" by (simp add: worker_call_def split_beta)
  then have "map call_pair ?calls = pair_names (map fst ps)" using names by (simp add: map_fst_sort_key dict_keys_def)
  moreover have "\<forall>c \<in> set ?calls. call_local_name c = vn \<and> call_remote_name c = tn" by (auto simp: worker_call_def)
  moreover have "setup_tensorbus heads tn vn w = Inr (?calls, concat (map (\<lambda>h. map (\<lambda>(n, t). (t, h)) (sort_key fst
      (side_views (worker_part (cutlass_swap w)) (filter (\<lambda>p. the (get_handler_name (fst p)) = h) ps)))) (pair_names (map fst ps))))"
    unfolding setup_tensorbus_def assms(1) res_bind.simps run prod.case names append_get side_entries_pair by (simp add: dict_get_or_def)
  ultimately show ?thesis by blast
qed

lemma distinct_transferred: "distinct (dict_keys conv) \<Longrightarrow> distinct (map fst (transferred placements conv))"
  by (simp add: transferred_def dict_keys_def comp_def split_beta distinct_map_filter)

lemma unclashing_filter: "unclashing (map fst xs) \<Longrightarrow> unclashing (map fst (filter P xs))"
  by (induction xs) (auto simp: unclashing_def)

lemma pair_views_match:
  assumes "state_names_ok st" "convert_vllm_state_dict heads sd config = Inr conv" "ps = transferred placements conv"
    and "set (map fst ps) = set (dict_keys st)"
  shows "list_all2 (same_part st ps swap)
    (map (\<lambda>(n, t). (t, Some h)) (sort_key fst (side_views trainer_part (filter (\<lambda>p. get_handler_name (fst p) = Some h) (map (\<lambda>(n, dt). (n, param_local dt)) st)))))
    (map (\<lambda>(n, t). (t, h)) (sort_key fst (side_views (worker_part swap) (filter (\<lambda>p. the (get_handler_name (fst p)) = h) ps))))"
proof -
  let ?us = "map (\<lambda>(n, dt). (n, param_local dt)) st"
  let ?ts = "filter (\<lambda>p. get_handler_name (fst p) = Some h) ?us" and ?ws = "filter (\<lambda>p. the (get_handler_name (fst p)) = h) ps"
  have us: "map fst ?us = dict_keys st" by (simp add: dict_keys_def comp_def split_beta)
  have some: "get_handler_name n \<noteq> None" if "n \<in> set (dict_keys st)" for n
    using assms(1) that by (auto simp: state_names_ok_def list_all_iff dict_keys_def)
  have "n \<in> set (map fst ?ts) \<longleftrightarrow> n \<in> set (dict_keys st) \<and> get_handler_name n = Some h" for n
    unfolding us [symmetric] by force
  moreover have "n \<in> set (map fst ?ws) \<longleftrightarrow> n \<in> set (dict_keys st) \<and> the (get_handler_name n) = h" for n
    unfolding assms(4) [symmetric] by auto
  ultimately have keys: "set (map fst ?ts) = set (map fst ?ws)" using some by (intro set_eqI) force
  have ok: "distinct (map fst ?us)" "unclashing (map fst ?us)" using assms(1) by (simp_all only: us state_names_ok_def)
  have "distinct (map fst ?ws)" using distinct_transferred [OF distinct_converted [OF assms(2)]] assms(3) by (simp add: distinct_map_filter)
  note m = views_match [OF keys distinct_map_filter [OF ok(1)] this unclashing_filter [OF ok(2)], of trainer_part "worker_part swap"]
  show ?thesis unfolding list.rel_map
    by (rule list_all2_mono [OF m]) (fastforce simp: same_part_def)
qed

text \<open>
  C17. The trainer and the vLLM worker register the same tensors in the same order. When the
  parameters the worker transfers carry the trainer's names, both sides open the same pairs in
  the same order (so the blocking \<open>init_pair\<close> calls meet) under mirrored names, and the k-th
  tensor each side registers is its view of the same part of the same parameter: a grouped
  \<open>gate_up_proj\<close> is cut in two on both sides, and on a backend that stores it as \<open>[up; gate]\<close>
  the gate rows still land in the gate half.
\<close>

theorem registrations_agree:
  assumes "state_names_ok st" "convert_vllm_state_dict heads (model_state_dict w) (model_hf_config w) = Inr conv"
    and "ps = transferred (get_placements w) conv" "set (map fst ps) = set (dict_keys st)"
    and "\<forall>(name, t) \<in> set ps. endswith name ''mlp.experts.gate_up_proj'' \<longrightarrow> 2 < length (nd_shape t)"
  shows "\<exists>handlers tcalls sent wcalls received.
    state_handlers st = Inr handlers \<and> init_pairs tn vn att moe handlers = (tcalls, Inr ()) \<and> register_batch st = Inr sent \<and>
    setup_tensorbus heads tn vn w = Inr (wcalls, received) \<and>
    map call_pair tcalls = map call_pair wcalls \<and>
    map (\<lambda>c. (call_local_name c, call_remote_name c)) tcalls = map (\<lambda>c. (call_remote_name c, call_local_name c)) wcalls \<and>
    list_all2 (same_part st ps (cutlass_swap w)) sent received"
proof -
  let ?names = "pair_names (dict_keys st)" and ?us = "map (\<lambda>(n, dt). (n, param_local dt)) st"
  let ?f = "\<lambda>h. map (\<lambda>(n, t). (t, Some h)) (sort_key fst (side_views trainer_part (filter (\<lambda>p. get_handler_name (fst p) = Some h) ?us)))"
  let ?g = "\<lambda>h. map (\<lambda>(n, t). (t, h)) (sort_key fst (side_views (worker_part (cutlass_swap w)) (filter (\<lambda>p. the (get_handler_name (fst p)) = h) ps)))"
  have same: "pair_names (map fst ps) = ?names" unfolding pair_names_def by (rule sorted_set_cong) (simp only: set_map [of "the \<circ> get_handler_name"] assms(4))
  note t = trainer_side [OF assms(1)]
  obtain wcalls where wk: "setup_tensorbus heads tn vn w = Inr (wcalls, concat (map ?g ?names))" "map call_pair wcalls = ?names"
      "\<forall>c \<in> set wcalls. call_local_name c = vn \<and> call_remote_name c = tn"
    using worker_side [OF assms(2,3,5), of tn vn] unfolding same by blast
  have h: "\<forall>h \<in> set ?names. dict_get HANDLER_PLACEMENTS h \<noteq> None"
    using assms(1) handlers_placed by (force simp: pair_names_def state_names_ok_def list_all_iff dict_keys_def)
  obtain tcalls where tr: "init_pairs tn vn att moe (map Some ?names) = (tcalls, Inr ())" "map call_pair tcalls = ?names"
      "\<forall>c \<in> set tcalls. call_local_name c = tn \<and> call_remote_name c = vn"
    using init_pairs_calls [OF h] by blast
  have mirrored: "map (\<lambda>c. (call_local_name c, call_remote_name c)) tcalls = map (\<lambda>c. (call_remote_name c, call_local_name c)) wcalls"
    using tr(2,3) wk(2,3) by (auto intro!: nth_equalityI simp: list_eq_iff_nth_eq) 
  have "list_all2 (same_part st ps (cutlass_swap w)) (?f h) (?g h)" if "h \<in> set ?names" for h
    using pair_views_match [OF assms(1,2,3,4)] that by blast
  then have "list_all2 (same_part st ps (cutlass_swap w)) (concat (map ?f ?names)) (concat (map ?g ?names))"
    by (auto intro!: concat_transfer [unfolded rel_fun_def, rule_format] simp: list.rel_map list.rel_refl_strong)
  moreover have "map call_pair tcalls = map call_pair wcalls" using tr(2) wk(2) by simp
  ultimately show ?thesis using t tr(1) wk(1) mirrored by (intro exI conjI) assumption+
qed

text \<open>A model with one layer: a norm, a fused attention projection and one grouped expert, on a backend that swaps.\<close>

definition tiny :: "nat list \<Rightarrow> ndarray" where
  "tiny shape = \<lparr>nd_shape = shape, nd_at = sum_list\<rparr>"

definition tiny_state :: state where
  "tiny_state = map (\<lambda>(n, shape). (n, Plain_tensor (tiny shape)))
     [(''l.0.self_attn.q_proj.weight'', [1, 1]), (''l.0.self_attn.k_proj.weight'', [1, 1]), (''l.0.self_attn.v_proj.weight'', [1, 1]),
      (''l.0.mlp.experts.gate_up_proj'', [1, 2, 1]), (''model.norm.weight'', [1])]"

definition tiny_worker :: worker where
  "tiny_worker =
     \<lparr>data_parallel_size = 1, tensor_parallel_size = 1,
      named_modules =
        [\<lparr>mod_name = ''model.norm'', mod_kind = OtherModule, mod_params = [''weight'']\<rparr>,
         \<lparr>mod_name = ''l.0.self_attn.qkv_proj'', mod_kind = ColumnParallelLinear, mod_params = [''weight'']\<rparr>,
         \<lparr>mod_name = ''l.0.mlp.experts'', mod_kind = FusedMoE 0 1, mod_params = [''w13_weight'']\<rparr>],
      model_state_dict =
        [(''model.norm.weight'', Some (tiny [1])), (''l.0.attn._k_scale'', Some (tiny [])), (''extra'', None),
         (''l.0.mlp.experts.w13_weight'', Some (tiny [1, 2, 1])), (''l.0.self_attn.qkv_proj.weight'', Some (tiny [3, 1]))],
      model_hf_config = \<lparr>hf_head_dim = Some 1, hidden_size = 1, num_attention_heads = 1, num_key_value_heads = 1\<rparr>,
      ep_group_size = Some 1, cutlass_swap = True\<rparr>"

lemma tiny_converted:
  "case convert_vllm_state_dict (\<lambda>h total n. h * n div total) (model_state_dict tiny_worker) (model_hf_config tiny_worker) of
     Inl e \<Rightarrow> False
   | Inr conv \<Rightarrow> map (\<lambda>(n, t). (n, length (nd_shape t))) (transferred (get_placements tiny_worker) conv) =
       [(''model.norm.weight'', 1), (''l.0.mlp.experts.gate_up_proj'', 3), (''l.0.self_attn.q_proj.weight'', 2),
        (''l.0.self_attn.k_proj.weight'', 2), (''l.0.self_attn.v_proj.weight'', 2)]"
  by code_simp

theorem registrations_agree_witness:
  "\<exists>sent wcalls received. register_batch tiny_state = Inr sent \<and>
     setup_tensorbus (\<lambda>h total n. h * n div total) ''trainer'' ''vllm'' tiny_worker = Inr (wcalls, received) \<and> length sent = length received"
proof -
  obtain conv where conv: "convert_vllm_state_dict (\<lambda>h total n. h * n div total) (model_state_dict tiny_worker) (model_hf_config tiny_worker) = Inr conv"
      "map (\<lambda>(n, t). (n, length (nd_shape t))) (transferred (get_placements tiny_worker) conv) =
       [(''model.norm.weight'', 1), (''l.0.mlp.experts.gate_up_proj'', 3), (''l.0.self_attn.q_proj.weight'', 2),
        (''l.0.self_attn.k_proj.weight'', 2), (''l.0.self_attn.v_proj.weight'', 2)]" (is "map ?f ?ps = ?rs")
    using tiny_converted by (auto split: sum.splits)
  have "map fst ?ps = map fst ?rs" unfolding conv(2) [symmetric] by (simp add: comp_def split_beta)
  then have names: "set (map fst ?ps) = set (dict_keys tiny_state)" by (simp add: tiny_state_def dict_keys_def insert_commute)
  have "list_all (\<lambda>(n, k). \<not> endswith n ''mlp.experts.gate_up_proj'' \<or> 2 < k) ?rs" by code_simp
  then have "list_all (\<lambda>(n, k). \<not> endswith n ''mlp.experts.gate_up_proj'' \<or> 2 < k) (map ?f ?ps)" unfolding conv(2) .
  then have dims: "\<forall>(name, t) \<in> set ?ps. endswith name ''mlp.experts.gate_up_proj'' \<longrightarrow> 2 < length (nd_shape t)" by (auto simp: list_all_iff)
  have "state_names_ok tiny_state" by code_simp
  from registrations_agree [OF this conv(1) refl names dims, of "''trainer''" "''vllm''" trainer_mesh trainer_mesh]
  show ?thesis by (metis list_all2_lengthD)
qed

end
