(* ===== verification/Weight_Sync_Run.thy ===== *)
theory Weight_Sync_Run
  imports Weight_Sync Queue_Lifecycle
begin

text \<open>
  The weight-sync example at run time: the clean-up an agent does before it opens its queue
  (\<^verbatim>\<open>agent.py\<close>), and the three processes that meet on the control store: the API server's
  \<open>_sync_loop\<close> (\<^verbatim>\<open>vllm_server.py\<close>), rank 0 of the trainer's (\<^verbatim>\<open>trainer.py\<close>) and the chat client
  (\<^verbatim>\<open>chat_client.py\<close>).
\<close>

section \<open>Stale files and semaphores\<close>

text \<open>
  \<open>path.parent.glob(f"{path.name}*")\<close>: the files of the directory whose name starts with
  the path's (the paths hold no wildcard); a semaphore that is missing is skipped.
\<close>

definition glob_matches :: "string \<Rightarrow> string \<Rightarrow> bool" where
  "glob_matches path f \<longleftrightarrow> has_prefix path f \<and> CHR ''/'' \<notin> set (drop (length path) f)"

definition unlink_all :: "(string \<Rightarrow> bool) \<Rightarrow> os \<Rightarrow> os" where
  "unlink_all P os = fold file_unlink (filter P (dict_keys (os_files os))) os"

definition cleanup_path :: "string \<Rightarrow> os \<Rightarrow> os" where
  "cleanup_path path os =
     (let os1 = unlink_all (glob_matches path) os; stem = path_stem path
      in if py_in ''command'' (path_name path)
         then fold (\<lambda>sem os. snd (sem_unlink sem os)) [''/cq_'' @ stem, ''/cq_space_'' @ stem, ''/cq_ready_'' @ stem] os1
         else os1)"

definition cleanup_stale :: "string \<Rightarrow> string \<Rightarrow> os \<Rightarrow> os" where
  "cleanup_stale command_queue_path state_path os = fold cleanup_path [command_queue_path, state_path] os"

lemma unlink_fold:
  "dict_get (os_files (fold file_unlink ps os)) p = (if p \<in> set ps then None else dict_get (os_files os) p) \<and>
   os_names (fold file_unlink ps os) = os_names os \<and> os_counts (fold file_unlink ps os) = os_counts os \<and> os_next (fold file_unlink ps os) = os_next os \<and>
   os_disk (fold file_unlink ps os) = os_disk os"
  by (induction ps arbitrary: os) (auto simp: file_unlink_def dict_simps)

lemma unlink_all_get: "dict_get (os_files (unlink_all P os)) p = (if P p then None else dict_get (os_files os) p)"
  using unlink_fold [of "filter P (dict_keys (os_files os))" os p] by (auto simp: unlink_all_def set_dict_keys)

lemma unlink_all_rest [simp]:
  "os_names (unlink_all P os) = os_names os" "os_counts (unlink_all P os) = os_counts os" "os_next (unlink_all P os) = os_next os"
  "os_disk (unlink_all P os) = os_disk os"
  using unlink_fold [of "filter P (dict_keys (os_files os))" os] by (simp_all add: unlink_all_def)

lemma sem_unlink_names: "dict_get (os_names (snd (sem_unlink n os))) m = (if m = n then None else dict_get (os_names os) m)"
  by (auto simp: sem_unlink_def dict_simps)

lemma sem_unlink_rest [simp]:
  "os_files (snd (sem_unlink n os)) = os_files os" "os_counts (snd (sem_unlink n os)) = os_counts os"
  "os_next (snd (sem_unlink n os)) = os_next os" "os_disk (snd (sem_unlink n os)) = os_disk os"
  by (auto simp: sem_unlink_def)

lemma cleanup_path_files: "dict_get (os_files (cleanup_path path os)) p = (if glob_matches path p then None else dict_get (os_files os) p)"
  by (simp add: cleanup_path_def Let_def unlink_all_get)

lemma cleanup_path_names:
  "dict_get (os_names (cleanup_path path os)) n =
     (if py_in ''command'' (path_name path) \<and> n \<in> {sem_name path, space_sem_name path, ready_name path} then None else dict_get (os_names os) n)"
  by (simp add: cleanup_path_def Let_def sem_unlink_names sem_name_def space_sem_name_def ready_name_def)

lemma cleanup_path_rest [simp]: "os_counts (cleanup_path path os) = os_counts os" "os_next (cleanup_path path os) = os_next os" "os_disk (cleanup_path path os) = os_disk os"
  by (simp_all add: cleanup_path_def Let_def)

text \<open>The names of the example's queues.\<close>

abbreviation command_path :: "string \<Rightarrow> int \<Rightarrow> string" where
  "command_path root rank \<equiv> fst (get_queue_state_paths root rank)"

abbreviation state_path :: "string \<Rightarrow> int \<Rightarrow> string" where
  "state_path root rank \<equiv> snd (get_queue_state_paths root rank)"

lemma show_int_no: "CHR ''/'' \<notin> set (show_int i)" "CHR ''_'' \<notin> set (show_int i)" "CHR ''s'' \<notin> set (show_int i)" "CHR ''r'' \<notin> set (show_int i)"
  using show_int_chars by (force simp: is_digit_def)+

lemma takeWhile_all: "(\<forall>x \<in> set xs. P x) \<Longrightarrow> \<not> P y \<Longrightarrow> takeWhile P (xs @ y # ys) = xs"
  by (simp add: takeWhile_append2)

lemma command_names:
  "path_name (command_path root rank) = show_int rank @ ''_command.lmdb''" "path_stem (command_path root rank) = show_int rank @ ''_command''"
  "path_name (state_path root rank) = show_int rank @ ''_state.lmdb''"
proof -
  have r: "takeWhile (\<lambda>c. c \<noteq> CHR ''/'') (rev (show_int rank) @ CHR ''/'' # rev root) = rev (show_int rank)"
    by (rule takeWhile_all) (use show_int_no(1) in auto)
  show n: "path_name (command_path root rank) = show_int rank @ ''_command.lmdb''" "path_name (state_path root rank) = show_int rank @ ''_state.lmdb''"
    using r by (simp_all add: path_name_def get_queue_state_paths_def)
  show "path_stem (command_path root rank) = show_int rank @ ''_command''"
    unfolding path_stem_def n by (simp add: Let_def)
qed

lemma py_in_append: "py_in kw s \<Longrightarrow> py_in kw (t @ s)"
  by (induction t) auto

lemma py_in_set: "py_in kw s \<Longrightarrow> set kw \<subseteq> set s"
proof (induction s)
  case (Cons c s)
  then show ?case using set_take_subset [of "length kw" "c # s"] by auto
qed simp

lemma has_prefix_iff: "has_prefix p k \<longleftrightarrow> (\<exists>z. k = p @ z)"
  by (metis append_eq_conv_conj append_take_drop_id has_prefix_def)

lemma rank_text_unique:
  assumes "show_int i @ CHR ''_'' # x = show_int j @ CHR ''_'' # y"
  shows "i = j \<and> x = y"
proof -
  have w: "takeWhile (\<lambda>c. c \<noteq> CHR ''_'') (show_int i @ CHR ''_'' # x) = show_int i" for i x
    by (rule takeWhile_all) (use show_int_no(2) in auto)
  have "show_int i = show_int j" using w assms by metis
  then show ?thesis using assms by (simp add: show_int_inj)
qed

lemma glob_own: "glob_matches p p" "glob_matches p (lock_file p)"
  by (simp_all add: glob_matches_def has_prefix_iff lock_file_def)

lemma glob_other:
  assumes "rank' \<noteq> rank" "f = command_path root rank' \<or> f = lock_file (command_path root rank')"
  shows "\<not> glob_matches (command_path root rank) f" "\<not> glob_matches (state_path root rank) f"
proof -
  obtain s where f: "f = root @ CHR ''/'' # show_int rank' @ CHR ''_'' # s"
    using assms(2) by (auto simp: get_queue_state_paths_def lock_file_def)
  have "f \<noteq> root @ CHR ''/'' # show_int rank @ CHR ''_'' # u @ z" for u z
    unfolding f using rank_text_unique [of rank' s rank "u @ z"] assms(1) by auto
  from this [of "''command.lmdb''"] this [of "''state.lmdb''"]
  show "\<not> glob_matches (command_path root rank) f" "\<not> glob_matches (state_path root rank) f"
    by (auto simp: glob_matches_def has_prefix_iff get_queue_state_paths_def)
qed

lemma semaphores_apart:
  assumes "rank' \<noteq> rank" "n \<in> {sem_name (command_path root rank'), space_sem_name (command_path root rank'), ready_name (command_path root rank')}"
  shows "n \<notin> {sem_name (command_path root rank), space_sem_name (command_path root rank), ready_name (command_path root rank)}"
proof -
  have r: "show_int i @ ''_command'' \<noteq> ''space_'' @ show_int j @ ''_command''" "show_int i @ ''_command'' \<noteq> ''ready_'' @ show_int j @ ''_command''" for i j
    using show_int_no(3,4) [of i] show_nat_digits by (cases "show_int i"; auto simp: show_int_def split: if_splits)+
  have "show_int rank' @ ''_command'' \<noteq> show_int rank @ ''_command''" using assms(1) by (simp add: show_int_inj)
  then show ?thesis using assms(2) r r [symmetric] unfolding sem_name_def space_sem_name_def ready_name_def command_names by auto
qed

definition cleaned :: "string \<Rightarrow> int \<Rightarrow> os \<Rightarrow> os" where
  "cleaned root rank os = cleanup_stale (command_path root rank) (state_path root rank) os"

lemma cleaned_absent: "absent (command_path root rank) (cleaned root rank os)"
proof -
  have "py_in ''command'' (show_int rank @ ''_command.lmdb'')" by (rule py_in_append) simp
  then show ?thesis
    by (simp add: absent_def cleaned_def cleanup_stale_def cleanup_path_files cleanup_path_names command_names glob_own)
qed

lemma cleaned_others:
  assumes "rank' \<noteq> rank" "live (command_path root rank') c os h"
  shows "live (command_path root rank') c (cleaned root rank os) h"
    and "carries dec h os n ms \<Longrightarrow> carries dec h (cleaned root rank os) n ms"
proof -
  have "CHR ''c'' \<notin> set (show_int rank @ ''_state.lmdb'')" using show_int_chars by (force simp: is_digit_def)
  then have st: "\<not> py_in ''command'' (show_int rank @ ''_state.lmdb'')" using py_in_set by fastforce
  have "dict_get (os_files (cleaned root rank os)) f = dict_get (os_files os) f" if "f = command_path root rank' \<or> f = lock_file (command_path root rank')" for f
    using glob_other [OF assms(1) that] by (simp add: cleaned_def cleanup_stale_def cleanup_path_files)
  moreover have "dict_get (os_names (cleaned root rank os)) m = dict_get (os_names os) m"
    if "m \<in> {sem_name (command_path root rank'), space_sem_name (command_path root rank'), ready_name (command_path root rank')}" for m
    using semaphores_apart [OF assms(1) that] st by (simp add: cleaned_def cleanup_stale_def cleanup_path_names command_names)
  ultimately show "live (command_path root rank') c (cleaned root rank os) h"
    using assms(2) by (simp add: live_def cleaned_def cleanup_stale_def)
  show "carries dec h os n ms \<Longrightarrow> carries dec h (cleaned root rank os) n ms"
    by (auto simp: carries_def handle_queue_def cleaned_def cleanup_stale_def split: option.splits)
qed

text \<open>
  C21. The clean-up of an agent recovers its queue from any earlier run: whatever files and
  semaphores are left over, even a ready semaphore with count 0 that blocks every open, the open
  that follows becomes the leader of a fresh, empty queue. The queues of all other ranks stay in
  use, with everything that is on them.
\<close>

theorem stale_cleanup_recovers:
  assumes "0 < c" "c \<le> 2 ^ 56"
  shows "(\<exists>h os'. open_queue (command_path root rank) c (cleanup_stale (command_path root rank) (state_path root rank) os) = (Answer (Inr h), os') \<and>
      live (command_path root rank) c os' h \<and> carries dec h os' 0 []) \<and>
    (\<forall>rank' c' h' n ms. rank' \<noteq> rank \<and> live (command_path root rank') c' os h' \<and> carries dec h' os n ms \<longrightarrow>
      live (command_path root rank') c' (cleanup_stale (command_path root rank) (state_path root rank) os) h' \<and>
      carries dec h' (cleanup_stale (command_path root rank) (state_path root rank) os) n ms)"
  using open_absent [OF cleaned_absent assms, of root rank os dec] cleaned_others [of _ rank root _ os] unfolding cleaned_def by blast

theorem stale_cleanup_recovers_witness:
  "open_queue ''/tmp/d/0_command.lmdb'' 4 (stale_os\<lparr>os_names := [(''/cq_ready_0_command'', 0)]\<rparr>) =
     (Waiting, stale_os\<lparr>os_names := [(''/cq_ready_0_command'', 0)]\<rparr>) \<and>
   (\<exists>h os'. open_queue ''/tmp/d/0_command.lmdb'' 4
      (cleanup_stale ''/tmp/d/0_command.lmdb'' ''/tmp/d/0_state.lmdb'' (stale_os\<lparr>os_names := [(''/cq_ready_0_command'', 0)]\<rparr>)) = (Answer (Inr h), os') \<and>
      carries (\<lambda>b. Some b) h os' 0 [])"
proof
  have p: "get_queue_state_paths ''/tmp/d'' 0 = (''/tmp/d/0_command.lmdb'', ''/tmp/d/0_state.lmdb'')" by code_simp
  have "path_stem (command_path ''/tmp/d'' 0) = ''0_command''" unfolding command_names by code_simp
  then show "open_queue ''/tmp/d/0_command.lmdb'' 4 (stale_os\<lparr>os_names := [(''/cq_ready_0_command'', 0)]\<rparr>) =
     (Waiting, stale_os\<lparr>os_names := [(''/cq_ready_0_command'', 0)]\<rparr>)"
    by (simp add: p stale_os_def open_queue_def attach_queue_def sem_create_def sem_attach_def ready_name_def)
  show "\<exists>h os'. open_queue ''/tmp/d/0_command.lmdb'' 4
      (cleanup_stale ''/tmp/d/0_command.lmdb'' ''/tmp/d/0_state.lmdb'' (stale_os\<lparr>os_names := [(''/cq_ready_0_command'', 0)]\<rparr>)) = (Answer (Inr h), os') \<and>
      carries (\<lambda>b. Some b) h os' 0 []"
    using stale_cleanup_recovers [of 4 "''/tmp/d''" 0 "stale_os\<lparr>os_names := [(''/cq_ready_0_command'', 0)]\<rparr>" "\<lambda>b. Some b"] unfolding p by auto
qed

section \<open>The control loop\<close>

text \<open>
  The server, the trainer's rank 0 and the chat client share the control store; each reads and
  writes it in single requests, in any interleaving. Every call of the store, the engine and the bus
  may raise at any time; one that raises has not changed the store or the engine. \<open>paused\<close> is the
  state of the engine, \<open>started\<close> counts the trainer's sends and \<open>received\<close> the receives that
  have completed. A receive that raises in the server (its client timed out) or is cancelled is not
  over: the agents go on with it. \<open>late\<close> counts those that may still write.
\<close>

datatype recv_outcome = Recv_ok | Recv_raised | Recv_cancelled

datatype server_pc =
    Set_ready0 | Set_version0 | Query | Mark_busy | Pause | Receive | Resume recv_outcome | Set_version | Set_ready | Failed | Stopped

datatype trainer_pc = Read_baseline | Round nat | Sending nat | Wait_chats nat | Trainer_done | Trainer_raised

datatype chat_pc = Reset_count | Check_ready | Read_version | Prompts nat | Count nat | Chat_done

record sync =
  control :: tcp_store
  server :: server_pc
  version :: nat
  paused :: bool
  trainer :: trainer_pc
  chat_baseline :: int
  chat :: chat_pc
  chat_version :: int
  round_idx :: nat
  chat_count :: nat
  started :: nat
  received :: nat
  late :: nat

text \<open>
  What a call does: it returns (with the workers' signals), raises, or is cancelled. Only an awaited
  call can be cancelled: a call of the store takes \<open>Cancelled\<close> as a return.
\<close>

datatype call_reply = Returns "bool list" | Raises | Cancelled

abbreviation store_set :: "string \<Rightarrow> string \<Rightarrow> sync \<Rightarrow> sync" where
  "store_set key value s \<equiv> s\<lparr>control := tcp_set key value None (control s)\<rparr>"

abbreviation store_get :: "string \<Rightarrow> sync \<Rightarrow> string option" where
  "store_get key s \<equiv> tcp_get key None (control s)"

definition server_step :: "call_reply \<Rightarrow> sync \<Rightarrow> sync" where
  "server_step reply s =
     (case server s of
        Set_ready0 \<Rightarrow>
          if reply = Raises then s\<lparr>server := Stopped\<rparr> else store_set ''vllm_ready'' ''1'' (s\<lparr>server := Set_version0\<rparr>)
      | Set_version0 \<Rightarrow>
          if reply = Raises then s\<lparr>server := Stopped\<rparr> else store_set ''vllm_version'' ''0'' (s\<lparr>server := Query, version := 0\<rparr>)
      | Query \<Rightarrow>
         (case reply of
            Returns signals \<Rightarrow> if True \<in> set signals then s\<lparr>server := Mark_busy\<rparr> else s
          | Raises \<Rightarrow> s\<lparr>server := Failed\<rparr>
          | Cancelled \<Rightarrow> s\<lparr>server := Stopped\<rparr>)
      | Mark_busy \<Rightarrow> if reply = Raises then s\<lparr>server := Failed\<rparr> else store_set ''vllm_ready'' ''0'' (s\<lparr>server := Pause\<rparr>)
      | Pause \<Rightarrow>
         (case reply of
            Returns _ \<Rightarrow> s\<lparr>server := Receive, paused := True\<rparr>
          | Raises \<Rightarrow> s\<lparr>server := Failed\<rparr>
          | Cancelled \<Rightarrow> s\<lparr>server := Stopped\<rparr>)
      | Receive \<Rightarrow>
         (case reply of
            Returns _ \<Rightarrow> s\<lparr>server := Resume Recv_ok, received := received s + 1\<rparr>
          | Raises \<Rightarrow> s\<lparr>server := Resume Recv_raised, late := late s + 1\<rparr>
          | Cancelled \<Rightarrow> s\<lparr>server := Resume Recv_cancelled, late := late s + 1\<rparr>)
      | Resume outcome \<Rightarrow>
         (case reply of
            Returns _ \<Rightarrow>
              s\<lparr>paused := False, server := (case outcome of Recv_ok \<Rightarrow> Set_version | Recv_raised \<Rightarrow> Failed | Recv_cancelled \<Rightarrow> Stopped)\<rparr>
          | Raises \<Rightarrow> s\<lparr>server := Failed\<rparr>
          | Cancelled \<Rightarrow> s\<lparr>server := Stopped\<rparr>)
      | Set_version \<Rightarrow>
          if reply = Raises then s\<lparr>server := Failed, version := version s + 1\<rparr>
          else store_set ''vllm_version'' (show_nat (version s + 1)) (s\<lparr>server := Set_ready, version := version s + 1\<rparr>)
      | Set_ready \<Rightarrow> if reply = Raises then s\<lparr>server := Failed\<rparr> else store_set ''vllm_ready'' ''1'' (s\<lparr>server := Query\<rparr>)
      | Failed \<Rightarrow>
          if reply = Raises then s\<lparr>server := Stopped\<rparr>
          else store_set ''vllm_ready'' ''1'' (s\<lparr>server := (if reply = Cancelled then Stopped else Query)\<rparr>)
      | Stopped \<Rightarrow> s)"

text \<open>The agents complete a receive the server has given up.\<close>

definition late_step :: "sync \<Rightarrow> sync" where
  "late_step s = (if 0 < late s then s\<lparr>received := received s + 1, late := late s - 1\<rparr> else s)"

text \<open>\<open>int(raw) if raw else 0\<close>: a text that is no number raises.\<close>

definition int_or_0 :: "string option \<Rightarrow> int result" where
  "int_or_0 raw = (case raw of None \<Rightarrow> Inr 0 | Some v \<Rightarrow> if v = [] then Inr 0 else read_int v)"

text \<open>Rank 0 of the trainer; \<open>expired\<close> tells whether \<open>_wait_for_chats\<close> is past its deadline.\<close>

definition wait_for_chats :: "nat \<Rightarrow> call_reply \<Rightarrow> bool \<Rightarrow> nat \<Rightarrow> sync \<Rightarrow> sync" where
  "wait_for_chats chats_per_round reply expired r s =
     (if expired \<or> reply = Raises then s\<lparr>trainer := Trainer_raised\<rparr>
      else case int_or_0 (store_get ''chat_count'' s) of
        Inl _ \<Rightarrow> s\<lparr>trainer := Trainer_raised\<rparr>
      | Inr current \<Rightarrow>
          if chat_baseline s + int chats_per_round \<le> current then s\<lparr>trainer := Round (r + 1), chat_baseline := current\<rparr> else s)"

definition trainer_step :: "nat \<Rightarrow> nat \<Rightarrow> call_reply \<Rightarrow> bool \<Rightarrow> sync \<Rightarrow> sync" where
  "trainer_step rounds chats_per_round reply expired s =
     (case trainer s of
        Read_baseline \<Rightarrow>
          if reply = Raises then s\<lparr>trainer := Trainer_raised\<rparr>
          else (case int_or_0 (store_get ''chat_count'' s) of
             Inl _ \<Rightarrow> s\<lparr>trainer := Trainer_raised\<rparr>
           | Inr n \<Rightarrow> s\<lparr>trainer := Round 0, chat_baseline := n\<rparr>)
      | Round r \<Rightarrow>
          if \<not> r < rounds then s\<lparr>trainer := Trainer_done\<rparr>
          else if reply = Raises then s\<lparr>trainer := Trainer_raised\<rparr>
          else s\<lparr>trainer := Sending r, started := started s + 1\<rparr>
      | Sending r \<Rightarrow> (case reply of Returns _ \<Rightarrow> s\<lparr>trainer := Wait_chats r\<rparr> | _ \<Rightarrow> s\<lparr>trainer := Trainer_raised\<rparr>)
      | Wait_chats r \<Rightarrow> wait_for_chats chats_per_round reply expired r s
      | Trainer_done \<Rightarrow> s
      | Trainer_raised \<Rightarrow> s)"

text \<open>
  The chat client. A prompt that raises is logged and skipped, as is a count that cannot be stored;
  any other call of the store that raises ends the client, and so would a value of
  \<open>vllm_version\<close> that is no number.
\<close>

definition chat_step :: "nat \<Rightarrow> nat \<Rightarrow> call_reply \<Rightarrow> sync \<Rightarrow> sync" where
  "chat_step chat_rounds prompts reply s =
     (case chat s of
        Reset_count \<Rightarrow>
          if reply = Raises then s\<lparr>chat := Chat_done\<rparr>
          else store_set ''chat_count'' ''0'' (s\<lparr>chat := Check_ready, round_idx := 0, chat_count := 0\<rparr>)
      | Check_ready \<Rightarrow>
          if \<not> (chat_rounds = 0 \<or> round_idx s < chat_rounds) then s\<lparr>chat := Chat_done\<rparr>
          else if reply = Raises then s\<lparr>chat := Chat_done\<rparr>
          else if store_get ''vllm_ready'' s \<noteq> Some ''1'' then s
          else s\<lparr>chat := Read_version\<rparr>
      | Read_version \<Rightarrow>
          if reply = Raises then s\<lparr>chat := Chat_done\<rparr>
          else (case int_or_0 (store_get ''vllm_version'' s) of
             Inl _ \<Rightarrow> s\<lparr>chat := Chat_done\<rparr>
           | Inr v \<Rightarrow> s\<lparr>chat := Prompts prompts, chat_version := v, round_idx := round_idx s + 1\<rparr>)
      | Prompts 0 \<Rightarrow> s\<lparr>chat := Check_ready\<rparr>
      | Prompts (Suc k) \<Rightarrow> (case reply of Returns _ \<Rightarrow> s\<lparr>chat := Count k\<rparr> | _ \<Rightarrow> s\<lparr>chat := Prompts k\<rparr>)
      | Count k \<Rightarrow>
          if reply = Raises then s\<lparr>chat := Prompts k, chat_count := chat_count s + 1\<rparr>
          else store_set ''chat_count'' (show_nat (chat_count s + 1)) (s\<lparr>chat := Prompts k, chat_count := chat_count s + 1\<rparr>)
      | Chat_done \<Rightarrow> s)"

text \<open>
  One step of one of the three, or of the agents behind a receive that was given up.
\<close>

record sync_config =
  sync_rounds :: nat
  chats_per_round :: nat
  chat_rounds :: nat
  prompt_count :: nat

inductive sync_step :: "sync_config \<Rightarrow> sync \<Rightarrow> sync \<Rightarrow> bool" for cfg where
  server: "sync_step cfg s (server_step reply s)"
| late: "sync_step cfg s (late_step s)"
| trainer: "sync_step cfg s (trainer_step (sync_rounds cfg) (chats_per_round cfg) reply expired s)"
| chat: "sync_step cfg s (chat_step (chat_rounds cfg) (prompt_count cfg) reply s)"

definition sync_initial :: "sync \<Rightarrow> bool" where
  "sync_initial s \<longleftrightarrow> server s = Set_ready0 \<and> trainer s = Read_baseline \<and> chat s = Reset_count \<and>
     version s = 0 \<and> chat_count s = 0 \<and> started s = 0 \<and> received s = 0 \<and> late s = 0 \<and>
     store_get ''vllm_ready'' s = None \<and> store_get ''vllm_version'' s = None \<and> store_get ''chat_count'' s = None"

inductive sync_reach :: "sync_config \<Rightarrow> sync \<Rightarrow> bool" for cfg where
  init: "sync_initial s \<Longrightarrow> sync_reach cfg s"
| step: "sync_reach cfg s \<Longrightarrow> sync_step cfg s s' \<Longrightarrow> sync_reach cfg s'"

section \<open>What the control loop keeps\<close>

lemma control_get: "tcp_get k None (tcp_set k' v None st) = (if k = k' then Some v else tcp_get k None st)"
  by (simp add: tcp.get_set prefixed_eq)

lemma int_or_0_show: "int_or_0 (Some (show_nat n)) = Inr (int n)"
  using read_show_int [of "int n"] show_nat_digits [of n] by (simp add: int_or_0_def show_int_def)

lemma int_or_0_None: "int_or_0 None = Inr 0"
  by (simp add: int_or_0_def)

lemma show_nat_0: "show_nat 0 = ''0''"
  by code_simp

lemmas sync_simps = control_get int_or_0_show int_or_0_None show_nat_0

text \<open>A number that is stored and at most \<open>n\<close>.\<close>

definition stored_upto :: "string \<Rightarrow> nat \<Rightarrow> sync \<Rightarrow> bool" where
  "stored_upto key n s \<longleftrightarrow> (\<exists>v \<le> n. store_get key s = Some (show_nat v))"

definition server_inv :: "sync \<Rightarrow> bool" where
  "server_inv s \<longleftrightarrow>
     (server s \<in> {Pause, Receive, Set_version, Set_ready} \<or> (\<exists>out. server s = Resume out) \<longrightarrow> store_get ''vllm_ready'' s = Some ''0'') \<and>
     (server s \<in> {Set_ready0, Set_version0} \<longrightarrow> version s = 0) \<and>
     (store_get ''vllm_version'' s = None \<or> stored_upto ''vllm_version'' (version s) s) \<and>
     (server s \<in> {Set_ready0, Set_version0, Stopped} \<or> store_get ''vllm_version'' s \<noteq> None) \<and>
     (server s = Set_version0 \<longrightarrow> store_get ''vllm_ready'' s = Some ''1'') \<and>
     (server s = Receive \<longrightarrow> paused s) \<and>
     version s + (if server s \<in> {Resume Recv_ok, Set_version} then 1 else 0) \<le> received s"

definition chat_inv :: "sync \<Rightarrow> bool" where
  "chat_inv s \<longleftrightarrow>
     (if chat s = Reset_count then store_get ''chat_count'' s = None \<and> chat_count s = 0
      else store_get ''chat_count'' s = None \<or> stored_upto ''chat_count'' (chat_count s) s) \<and>
     ((\<exists>k. chat s = Prompts k \<or> chat s = Count k) \<longrightarrow> 0 \<le> chat_version s \<and> chat_version s \<le> int (version s))"

definition trainer_inv :: "nat \<Rightarrow> sync \<Rightarrow> bool" where
  "trainer_inv n s \<longleftrightarrow>
     (case trainer s of
        Read_baseline \<Rightarrow> started s = 0
      | Round r \<Rightarrow> started s = r \<and> int (r * n) \<le> chat_baseline s \<and> chat_baseline s \<le> int (chat_count s)
      | Sending r \<Rightarrow> started s = r + 1 \<and> int (r * n) \<le> chat_baseline s \<and> chat_baseline s \<le> int (chat_count s)
      | Wait_chats r \<Rightarrow> started s = r + 1 \<and> int (r * n) \<le> chat_baseline s \<and> chat_baseline s \<le> int (chat_count s)
      | _ \<Rightarrow> True)"

lemma stored_upto_set: "stored_upto key n (s\<lparr>control := tcp_set k (show_nat m) None (control s)\<rparr>) \<longleftrightarrow> (if key = k then m \<le> n else stored_upto key n s)"
  by (auto simp: stored_upto_def control_get show_nat_inj)

lemma stored_upto_same: "tcp_get key None (control s) = tcp_get key None (control s') \<Longrightarrow> stored_upto key n s = stored_upto key n s'"
  by (simp add: stored_upto_def)

lemma stored_upto_mono: "stored_upto key n s \<Longrightarrow> n \<le> m \<Longrightarrow> stored_upto key m s"
  using le_trans unfolding stored_upto_def by blast

lemma stored_number: "store_get key s = None \<or> stored_upto key n s \<Longrightarrow> \<exists>v \<le> n. int_or_0 (store_get key s) = Inr (int v)"
  by (auto simp: stored_upto_def sync_simps)

lemma server_server_inv: "server_inv s \<Longrightarrow> server_inv (server_step reply s)"
  by (cases "server s"; cases reply)
    (auto simp: server_inv_def server_step_def stored_upto_def control_get show_nat_0 [symmetric] split: if_splits recv_outcome.split intro: le_SucI)

lemma trainer_frame:
  "control (trainer_step n k reply expired s) = control s" "server (trainer_step n k reply expired s) = server s"
  "version (trainer_step n k reply expired s) = version s" "paused (trainer_step n k reply expired s) = paused s"
  "received (trainer_step n k reply expired s) = received s" "chat (trainer_step n k reply expired s) = chat s"
  "chat_count (trainer_step n k reply expired s) = chat_count s" "chat_version (trainer_step n k reply expired s) = chat_version s"
  "late (trainer_step n k reply expired s) = late s"
  by (simp_all add: trainer_step_def wait_for_chats_def split: trainer_pc.split sum.split call_reply.split)

lemma chat_frame:
  "server (chat_step n k reply s) = server s" "version (chat_step n k reply s) = version s" "paused (chat_step n k reply s) = paused s"
  "received (chat_step n k reply s) = received s" "started (chat_step n k reply s) = started s" "trainer (chat_step n k reply s) = trainer s"
  "chat_baseline (chat_step n k reply s) = chat_baseline s" "late (chat_step n k reply s) = late s"
  "key \<noteq> ''chat_count'' \<Longrightarrow> store_get key (chat_step n k reply s) = store_get key s"
  by (simp_all add: chat_step_def control_get split: chat_pc.split sum.split call_reply.split nat.split)

lemma late_frame:
  "control (late_step s) = control s" "server (late_step s) = server s" "version (late_step s) = version s" "paused (late_step s) = paused s"
  "started (late_step s) = started s" "trainer (late_step s) = trainer s" "chat_baseline (late_step s) = chat_baseline s"
  "chat (late_step s) = chat s" "chat_count (late_step s) = chat_count s" "chat_version (late_step s) = chat_version s"
  "received s \<le> received (late_step s)"
  by (simp_all add: late_step_def)

lemma server_trainer_inv: "server_inv s \<Longrightarrow> server_inv (trainer_step n k reply expired s)"
  unfolding server_inv_def stored_upto_def trainer_frame .

lemma server_chat_inv: "server_inv s \<Longrightarrow> server_inv (chat_step n k reply s)"
  by (simp add: server_inv_def stored_upto_def chat_frame)

lemma server_late_inv: "server_inv s \<Longrightarrow> server_inv (late_step s)"
  using late_frame(11) [of s] unfolding server_inv_def stored_upto_def late_frame(1-10) by (blast intro: le_trans)

lemma version_mono: "server_inv s \<Longrightarrow> version s \<le> version (server_step reply s)"
  by (cases "server s"; cases reply) (auto simp: server_inv_def server_step_def)

lemma server_keeps_count: "store_get ''chat_count'' (server_step reply s) = store_get ''chat_count'' s"
  by (simp add: server_step_def control_get split: server_pc.split call_reply.split)

lemma server_frame:
  "chat (server_step reply s) = chat s" "chat_count (server_step reply s) = chat_count s" "chat_version (server_step reply s) = chat_version s"
  "trainer (server_step reply s) = trainer s" "chat_baseline (server_step reply s) = chat_baseline s" "started (server_step reply s) = started s"
  by (simp_all add: server_step_def split: server_pc.split call_reply.split)

lemma chat_server_inv: "chat_inv s \<Longrightarrow> server_inv s \<Longrightarrow> chat_inv (server_step reply s)"
  using version_mono [of s reply] by (auto simp: chat_inv_def stored_upto_def server_keeps_count server_frame split: if_splits)

lemma chat_trainer_inv: "chat_inv s \<Longrightarrow> chat_inv (trainer_step n k reply expired s)"
  unfolding chat_inv_def stored_upto_def trainer_frame .

lemma chat_late_inv: "chat_inv s \<Longrightarrow> chat_inv (late_step s)"
  unfolding chat_inv_def stored_upto_def late_frame .

lemma chat_chat_inv:
  assumes "chat_inv s" "server_inv s"
  shows "chat_inv (chat_step n k reply s)"
proof -
  have "store_get ''vllm_version'' s = None \<or> stored_upto ''vllm_version'' (version s) s" using assms(2) unfolding server_inv_def by blast
  then obtain v where "v \<le> version s" "int_or_0 (store_get ''vllm_version'' s) = Inr (int v)" using stored_number by blast
  then show ?thesis using assms(1)
    by (auto simp: chat_inv_def chat_step_def stored_upto_def control_get show_nat_0 [symmetric] intro: le_SucI
        split: chat_pc.splits call_reply.split nat.split if_splits)
qed

lemma trainer_server_inv: "trainer_inv n s \<Longrightarrow> trainer_inv n (server_step reply s)"
  unfolding trainer_inv_def server_frame .

lemma trainer_late_inv: "trainer_inv n s \<Longrightarrow> trainer_inv n (late_step s)"
  unfolding trainer_inv_def late_frame .

lemma trainer_trainer_inv:
  assumes "trainer_inv n s" "chat_inv s"
  shows "trainer_inv n (trainer_step k n reply expired s)"
proof -
  obtain v where "v \<le> chat_count s" "int_or_0 (store_get ''chat_count'' s) = Inr (int v)"
    using assms(2) stored_number [of "''chat_count''" s "chat_count s"] by (auto simp: chat_inv_def split: if_splits)
  then show ?thesis using assms(1)
    by (auto simp: trainer_inv_def trainer_step_def wait_for_chats_def algebra_simps split: trainer_pc.splits call_reply.split if_splits)
qed

lemma chat_count_mono: "chat_inv s \<Longrightarrow> chat_count s \<le> chat_count (chat_step n k reply s)"
  by (auto simp: chat_inv_def chat_step_def split: chat_pc.split sum.split call_reply.split nat.split)

lemma trainer_chat_inv: "trainer_inv n s \<Longrightarrow> chat_inv s \<Longrightarrow> trainer_inv n (chat_step j k reply s)"
  using chat_count_mono [of s j k reply] by (auto simp: trainer_inv_def chat_frame split: trainer_pc.splits)

lemmas sync_steps_keep =
  server_server_inv server_trainer_inv server_chat_inv server_late_inv chat_server_inv chat_trainer_inv chat_chat_inv chat_late_inv
  trainer_server_inv trainer_trainer_inv trainer_chat_inv trainer_late_inv

lemma sync_invariant: "sync_reach cfg s \<Longrightarrow> server_inv s \<and> chat_inv s \<and> trainer_inv (chats_per_round cfg) s"
proof (induction rule: sync_reach.induct)
  case (init s)
  then show ?case by (simp add: sync_initial_def server_inv_def chat_inv_def trainer_inv_def)
next
  case (step s s')
  from step.hyps(2) step.IH show ?case by (cases rule: sync_step.cases) (auto intro: sync_steps_keep)
qed

text \<open>Who completes a receive, and what a step does to the stored version.\<close>

lemma received_by:
  assumes "sync_step cfg s s'" "received s' \<noteq> received s"
  shows "received s' = received s + 1 \<and> (server s = Receive \<or> 0 < late s)"
  using assms(1)
proof cases
  case (server reply)
  then show ?thesis using assms(2) by (cases "server s"; cases reply) (auto simp: server_step_def split: if_splits)
qed (use assms(2) in \<open>auto simp: trainer_frame chat_frame late_step_def split: if_splits\<close>)

lemma stored_version_mono:
  assumes "server_inv s" "sync_step cfg s s'" "store_get ''vllm_version'' s = Some (show_nat v)" "store_get ''vllm_version'' s' = Some (show_nat v')"
  shows "v \<le> v'"
  using assms(2)
proof cases
  case (server reply)
  have "v \<le> version s" "server s \<in> {Set_ready0, Set_version0} \<longrightarrow> version s = 0"
    using assms(1,3) by (auto simp: server_inv_def stored_upto_def show_nat_inj)
  then show ?thesis using server assms(3,4)
    by (cases "server s"; cases reply) (auto simp: server_step_def control_get show_nat_inj split: if_splits)
qed (use assms(3,4) in \<open>auto simp: trainer_frame chat_frame late_frame show_nat_inj\<close>)

text \<open>
  C18. The control loop is safe, however the server, the trainer and the chat client interleave and
  whatever call of the store, the engine or the bus raises. The server receives only while
  generation is paused and \<open>vllm_ready\<close> is 0, and every receive that completes is that one, or one
  the server has given up before (its client timed out or the task was cancelled): such a receive the
  agents may complete later, after generation has been resumed. \<open>vllm_version\<close> never decreases and
  never exceeds the number of completed receives; a reply is never tagged with a version that was
  not yet live; and the trainer sends its round \<open>r\<close> (from 0) only after \<open>r * chats_per_round\<close> chats.
\<close>

theorem control_loop_safe:
  assumes "sync_reach cfg s"
  shows "(server s = Receive \<longrightarrow> paused s \<and> store_get ''vllm_ready'' s = Some ''0'') \<and>
    (\<forall>s'. sync_step cfg s s' \<and> received s' \<noteq> received s \<longrightarrow>
      received s' = received s + 1 \<and> (paused s \<and> store_get ''vllm_ready'' s = Some ''0'' \<or> 0 < late s)) \<and>
    (server s \<notin> {Set_ready0, Set_version0, Stopped} \<longrightarrow> (\<exists>v \<le> received s. store_get ''vllm_version'' s = Some (show_nat v))) \<and>
    (\<forall>s' v v'. sync_step cfg s s' \<and> store_get ''vllm_version'' s = Some (show_nat v) \<and> store_get ''vllm_version'' s' = Some (show_nat v') \<longrightarrow> v \<le> v') \<and>
    (\<forall>k. chat s = Count k \<longrightarrow> chat_version s \<le> int (received s)) \<and>
    (\<forall>r. trainer s = Sending r \<longrightarrow> started s = r + 1 \<and> r * chats_per_round cfg \<le> chat_count s)"
proof -
  have inv: "server_inv s" "chat_inv s" "trainer_inv (chats_per_round cfg) s" using sync_invariant [OF assms] by auto
  have v: "version s \<le> received s" and r: "server s = Receive \<longrightarrow> paused s \<and> store_get ''vllm_ready'' s = Some ''0''"
    and st: "server s \<notin> {Set_ready0, Set_version0, Stopped} \<longrightarrow> stored_upto ''vllm_version'' (version s) s"
    using inv(1) by (auto simp: server_inv_def)
  have "chat_version s \<le> int (received s)" if "chat s = Count k" for k using inv(2) v that by (auto simp: chat_inv_def)
  moreover have "started s = r + 1 \<and> r * chats_per_round cfg \<le> chat_count s" if "trainer s = Sending r" for r
    using inv(3) that by (simp add: trainer_inv_def flip: of_nat_mult)
  moreover have "\<exists>v \<le> received s. store_get ''vllm_version'' s = Some (show_nat v)" if "server s \<notin> {Set_ready0, Set_version0, Stopped}"
    using stored_upto_mono [OF st [rule_format, OF that] v] by (simp add: stored_upto_def)
  ultimately show ?thesis using r received_by stored_version_mono [OF inv(1)] by meson
qed

definition sync_start :: sync where
  "sync_start =
     \<lparr>control = \<lparr>kv_namespace = ''sync_example'', kv_component = ''control'', tcp_data = [], tcp_known_keys = []\<rparr>,
      server = Set_ready0, version = 0, paused = False, trainer = Read_baseline, chat_baseline = 0,
      chat = Reset_count, chat_version = 0, round_idx = 0, chat_count = 0, started = 0, received = 0, late = 0\<rparr>"

definition first_signal :: sync where
  "first_signal = fold server_step [Returns [], Returns [], Returns [True], Returns [], Returns []] sync_start"

lemma reach_replies: "sync_reach cfg s \<Longrightarrow> sync_reach cfg (fold server_step rs s)"
  by (induction rs rule: rev_induct) (auto intro: sync_reach.step sync_step.server)

lemma first_signal_reached: "sync_reach cfg first_signal"
proof -
  have "sync_initial sync_start" by code_simp
  then show ?thesis unfolding first_signal_def by (intro reach_replies sync_reach.init)
qed

theorem control_loop_safe_witness:
  "server first_signal = Receive \<and> paused first_signal \<and> store_get ''vllm_ready'' first_signal = Some ''0''"
proof -
  have s: "server first_signal = Receive" by code_simp
  from control_loop_safe [OF first_signal_reached [of "\<lparr>sync_rounds = 3, chats_per_round = 3, chat_rounds = 0, prompt_count = 3\<rparr>"]] s
  show ?thesis by simp
qed

text \<open>
  What a receive that times out leads to: three steps later the server is back at its query, with
  generation resumed and \<open>vllm_ready\<close> 1, while the receive is still outstanding, and its completion
  then changes the weights under running chats.
\<close>

theorem abandoned_receive_overlaps_chats:
  assumes "sync_reach cfg s" "server s = Receive"
  shows "\<exists>s'. sync_reach cfg s' \<and> server s' = Query \<and> \<not> paused s' \<and> store_get ''vllm_ready'' s' = Some ''1'' \<and> 0 < late s' \<and>
    sync_step cfg s' (late_step s') \<and> received (late_step s') = received s' + 1"
proof (intro exI conjI)
  let ?s = "fold server_step [Raises, Returns [], Returns []] s"
  show "sync_reach cfg ?s" using assms(1) by (rule reach_replies)
  show "server ?s = Query" "\<not> paused ?s" "store_get ''vllm_ready'' ?s = Some ''1''" "0 < late ?s" "received (late_step ?s) = received ?s + 1"
    using assms(2) by (simp_all add: server_step_def control_get late_step_def)
  show "sync_step cfg ?s (late_step ?s)" by (rule sync_step.late)
qed

text \<open>How many replies the server is away from its next query.\<close>

fun distance :: "server_pc \<Rightarrow> nat" where
  "distance Set_ready0 = 2" | "distance Set_version0 = 1" | "distance Query = 0" | "distance Mark_busy = 7" | "distance Pause = 6"
| "distance Receive = 5" | "distance (Resume _) = 4" | "distance Set_version = 3" | "distance Set_ready = 2" | "distance Failed = 1"
| "distance Stopped = 0"

text \<open>
  The calls that end the loop's task when they raise: the two of the start and the one that follows
  a failure.
\<close>

definition running :: "server_pc \<Rightarrow> bool" where
  "running pc \<longleftrightarrow> pc \<noteq> Stopped \<and> pc \<noteq> Resume Recv_cancelled"

definition survives :: "call_reply \<Rightarrow> server_pc \<Rightarrow> bool" where
  "survives reply pc \<longleftrightarrow> reply \<noteq> Cancelled \<and> (pc \<in> {Set_ready0, Set_version0, Failed} \<longrightarrow> reply \<noteq> Raises)"

primrec survives_all :: "call_reply list \<Rightarrow> sync \<Rightarrow> bool" where
  "survives_all [] s \<longleftrightarrow> True"
| "survives_all (r # rs) s \<longleftrightarrow> survives r (server s) \<and> survives_all rs (server_step r s)"

lemma server_approaches:
  assumes "running (server s)" "server s \<noteq> Query" "survives reply (server s)" "server s = Set_version0 \<longrightarrow> store_get ''vllm_ready'' s = Some ''1''"
  shows "running (server (server_step reply s))" "distance (server (server_step reply s)) < distance (server s)"
    and "server (server_step reply s) \<in> {Query, Set_version0} \<longrightarrow> store_get ''vllm_ready'' (server_step reply s) = Some ''1''"
proof -
  show "running (server (server_step reply s))"
    using assms(1-3) by (cases "server s"; cases reply) (simp_all add: running_def survives_def server_step_def split: recv_outcome.split)
  show "distance (server (server_step reply s)) < distance (server s)"
    using assms(1-3) by (cases "server s"; cases reply) (simp_all add: running_def survives_def server_step_def split: recv_outcome.split)
  show "server (server_step reply s) \<in> {Query, Set_version0} \<longrightarrow> store_get ''vllm_ready'' (server_step reply s) = Some ''1''"
    using assms by (cases "server s"; cases reply) (simp_all add: server_step_def survives_def control_get split: recv_outcome.split)
qed

lemma ready_within:
  assumes "running (server s)" "server s \<noteq> Query" "survives_all rs s" "distance (server s) \<le> length rs"
    and "server s = Set_version0 \<longrightarrow> store_get ''vllm_ready'' s = Some ''1''"
  shows "\<exists>k \<le> distance (server s). server (fold server_step (take k rs) s) = Query \<and> store_get ''vllm_ready'' (fold server_step (take k rs) s) = Some ''1''"
  using assms
proof (induction rs arbitrary: s)
  case Nil
  then show ?case by (cases "server s") (auto simp: running_def)
next
  case (Cons r rs)
  note st = server_approaches [OF Cons.prems(1,2) _ Cons.prems(5), of r]
  show ?case
  proof (cases "server (server_step r s) = Query")
    case True
    then show ?thesis using st(2,3) Cons.prems(3) by (intro exI [of _ 1]) auto
  next
    case False
    obtain k where "k \<le> distance (server (server_step r s))" "server (fold server_step (take k rs) (server_step r s)) = Query"
      "store_get ''vllm_ready'' (fold server_step (take k rs) (server_step r s)) = Some ''1''"
      using Cons.IH [OF st(1) False] Cons.prems(3,4) st(2,3) by auto
    then show ?thesis using st(2) Cons.prems(3) by (intro exI [of _ "Suc k"]) auto
  qed
qed

text \<open>
  The server never stays unavailable: from any reachable point of a round, whichever of its
  calls return or raise, it is back at its query with \<open>vllm_ready\<close> 1 after at most seven of its own
  steps, unless the task is cancelled or the store fails at the start or again right after a failure.
\<close>

theorem server_ready_again:
  assumes "sync_reach cfg s" "running (server s)" "server s \<noteq> Query" "survives_all replies s" "7 \<le> length replies"
  shows "\<exists>k \<le> 7. server (fold server_step (take k replies) s) = Query \<and>
    store_get ''vllm_ready'' (fold server_step (take k replies) s) = Some ''1''"
proof -
  have d: "distance (server s) \<le> 7" by (cases "server s") auto
  have "server s = Set_version0 \<longrightarrow> store_get ''vllm_ready'' s = Some ''1''"
    using sync_invariant [OF assms(1)] unfolding server_inv_def by blast
  then show ?thesis using ready_within [OF assms(2-4)] d assms(5) by (meson le_trans)
qed

theorem server_ready_again_witness:
  "\<exists>k \<le> 7. server (fold server_step (take k [Raises, Returns [], Returns [], Returns [], Returns [], Returns [], Returns []]) first_signal) = Query \<and>
    store_get ''vllm_ready'' (fold server_step (take k [Raises, Returns [], Returns [], Returns [], Returns [], Returns [], Returns []]) first_signal) = Some ''1''"
proof -
  have s: "server first_signal = Receive" by code_simp
  have "running (server first_signal)" "server first_signal \<noteq> Query" by (simp_all add: s running_def)
  then show ?thesis
    by (rule server_ready_again [OF first_signal_reached [of "\<lparr>sync_rounds = 3, chats_per_round = 3, chat_rounds = 0, prompt_count = 3\<rparr>"]])
      (simp_all add: s survives_def server_step_def)
qed

section \<open>Coming up\<close>

text \<open>
  \<open>open_control_store\<close>, \<open>_wait_for_server\<close> and \<open>_wait_for_port\<close> are one loop: while the deadline
  has not passed, try; an exception is logged and the next attempt follows. Each element of the
  list is one pass: whether the deadline has passed, and what the attempt does. \<open>None\<close>: the
  passes given were not enough to decide.
\<close>

fun retry :: "(bool \<times> 'a result) list \<Rightarrow> 'a result option" where
  "retry [] = None"
| "retry ((expired, attempt) # passes) =
     (if expired then Some (Inl TimeoutError) else case attempt of Inr x \<Rightarrow> Some (Inr x) | Inl e \<Rightarrow> retry passes)"

definition open_control_store :: "(bool \<times> tcp_store result) list \<Rightarrow> tcp_store result option" where
  "open_control_store passes = retry passes"

definition wait_for_server :: "(bool \<times> unit result) list \<Rightarrow> unit result option" where
  "wait_for_server passes = retry passes"

definition wait_for_port :: "(bool \<times> unit result) list \<Rightarrow> unit result option" where
  "wait_for_port passes = retry passes"

lemma retry_returns:
  assumes "i < length passes" "fst (passes ! i) \<or> (\<exists>x. snd (passes ! i) = Inr x)"
  shows "\<exists>r. retry passes = Some r"
  using assms
proof (induction passes arbitrary: i)
  case (Cons p passes)
  then show ?case by (cases p; cases i) (auto split: sum.split)
qed simp

lemma retry_first:
  assumes "i < length passes" "\<not> fst (passes ! i)" "snd (passes ! i) = Inr x" "\<forall>j < i. \<not> fst (passes ! j) \<and> (\<exists>e. snd (passes ! j) = Inl e)"
  shows "retry passes = Some (Inr x)"
  using assms
proof (induction passes arbitrary: i)
  case (Cons p passes)
  show ?case
  proof (cases i)
    case 0
    then show ?thesis using Cons.prems by (cases p) auto
  next
    case (Suc j)
    have "retry passes = Some (Inr x)" by (rule Cons.IH [of j]) (use Cons.prems Suc in \<open>auto dest: spec [of _ "Suc _"]\<close>)
    then show ?thesis using Cons.prems(4) [rule_format, of 0] Suc by (cases p) auto
  qed
qed simp

text \<open>The trainer's meshes: both cover the same ranks, or an assertion fails.\<close>

record trainer_config =
  trainer_world_size :: nat
  trainer_attn_dp_replicate :: nat
  trainer_attn_dp_shard :: nat
  trainer_moe_dp_replicate :: nat
  trainer_moe_dp_shard :: nat
  trainer_ep_size :: nat

definition environ_int :: "(string, string) dict \<Rightarrow> string \<Rightarrow> int result" where
  "environ_int environ var = (case dict_get environ var of None \<Rightarrow> Inl KeyError | Some s \<Rightarrow> read_int s)"

definition setup_distributed :: "trainer_config \<Rightarrow> (string, string) dict \<Rightarrow> (int \<times> int \<times> device_mesh \<times> device_mesh) result" where
  "setup_distributed cfg environ =
     res_bind (environ_int environ ''RANK'') (\<lambda>rank.
     res_bind (environ_int environ ''WORLD_SIZE'') (\<lambda>world_size.
       let attn_r = trainer_attn_dp_replicate cfg; attn_s = trainer_attn_dp_shard cfg;
           moe_r = trainer_moe_dp_replicate cfg; moe_s = trainer_moe_dp_shard cfg; ep = trainer_ep_size cfg
       in if world_size \<noteq> int (trainer_world_size cfg) then Inl AssertionError
          else if int (attn_r * attn_s) \<noteq> world_size then Inl AssertionError
          else if int (moe_r * moe_s * ep) \<noteq> world_size then Inl AssertionError
          else res_bind (environ_int environ ''LOCAL_RANK'') (\<lambda>device.
            Inr (rank, device, arange_mesh [attn_r, attn_s], arange_mesh [moe_r, moe_s, ep]))))"

lemma fold_times: "fold (\<lambda>s ws. ws * s) xs n = (n :: nat) * prod_list xs"
  by (induction xs arbitrary: n) (simp_all add: ac_simps)

lemma setup_meshes:
  assumes "setup_distributed cfg environ = Inr (rank, device, att_mesh, moe_mesh)" "0 < trainer_world_size cfg"
  shows "mesh_ok att_mesh" "mesh_ok moe_mesh" "mesh_ranks att_mesh = [0..<trainer_world_size cfg]" "mesh_ranks moe_mesh = [0..<trainer_world_size cfg]"
    "mesh_world_size att_mesh = trainer_world_size cfg" "mesh_world_size moe_mesh = trainer_world_size cfg"
  using assms by (auto simp: setup_distributed_def res_simps Let_def arange_mesh_def mesh_ok_def mesh_world_size_def fold_times mult.assoc
      simp flip: of_nat_mult split: if_splits)

section \<open>The worker's hooks\<close>

text \<open>
  A batch handler answers a query with the signal or raises; \<open>None\<close> is a worker whose set-up
  has not run. Only \<open>TimeoutError\<close> is turned into no signal.
\<close>

definition query_transfer_signal_hook :: "bool result option \<Rightarrow> bool result" where
  "query_transfer_signal_hook handler =
     (case handler of
        None \<Rightarrow> Inr False
      | Some (Inl e) \<Rightarrow> if e = TimeoutError then Inr False else Inl e
      | Some (Inr signal) \<Rightarrow> Inr signal)"

definition receive_weights :: "unit result option \<Rightarrow> unit result" where
  "receive_weights handler = (case handler of None \<Rightarrow> Inl RuntimeError | Some r \<Rightarrow> r)"

text \<open>\<open>collective_rpc\<close> returns every worker's answer, or raises when a worker raised.\<close>

definition rpc_reply :: "bool result list \<Rightarrow> call_reply" where
  "rpc_reply answers =
     (case res_mapM (\<lambda>r. r) answers of Inl _ \<Rightarrow> Raises | Inr signals \<Rightarrow> Returns signals)"

lemma query_timeouts_are_quiet:
  assumes "server s = Query" "\<forall>h \<in> set handlers. h = None \<or> h = Some (Inl TimeoutError) \<or> h = Some (Inr False)"
  shows "server_step (rpc_reply (map query_transfer_signal_hook handlers)) s = s"
proof -
  have "query_transfer_signal_hook h = Inr False" if "h \<in> set handlers" for h
    using bspec [OF assms(2) that] by (elim disjE) (simp_all add: query_transfer_signal_hook_def)
  then have "\<forall>r \<in> set (map query_transfer_signal_hook handlers). r = Inr False" by simp
  then have "res_mapM (\<lambda>r. r) (map query_transfer_signal_hook handlers) = Inr (map (\<lambda>_. False) (map query_transfer_signal_hook handlers))"
    using res_mapM_Inr [where f = "\<lambda>r. r" and g = "\<lambda>_. False" and xs = "map query_transfer_signal_hook handlers"] by blast
  then show ?thesis using assms(1) by (auto simp: rpc_reply_def server_step_def)
qed

end
