(* ===== verification/Launch.thy ===== *)
theory Launch
  imports Weight_Sync_Run Startup Gather_Broadcast
begin

text \<open>
  The launcher of the weight-sync example (\<^verbatim>\<open>launch.py\<close>): which processes it starts with which
  environment, in which order, and how it ends them; and how the environments fit together: the
  rank and queue an agent takes from its environment (\<^verbatim>\<open>agent.py\<close>), those a worker's client
  resolves (\<open>bootstrap_client\<close>), and the GPU each of them is on.
\<close>

section \<open>Processes\<close>

record launch_config = trainer_config +
  vllm_world_size :: nat
  lmdb_root :: string

definition agent_world_size :: "launch_config \<Rightarrow> nat" where
  "agent_world_size cfg = trainer_world_size cfg + vllm_world_size cfg"

record child =
  ch_name :: string
  ch_args :: "string list"
  ch_env :: "(string, string) dict"
  ch_log :: string

text \<open>\<open>env = os.environ.copy(); env.update(extra_env)\<close>.\<close>

definition spawn :: "(string, string) dict \<Rightarrow> string \<Rightarrow> string \<Rightarrow> string list \<Rightarrow> (string, string) dict \<Rightarrow> child" where
  "spawn environ log_root name args extra_env =
     \<lparr>ch_name = name, ch_args = args, ch_env = fold (\<lambda>(k, v) env. dict_set env k v) extra_env environ,
      ch_log = log_root @ ''/'' @ name @ ''.log''\<rparr>"

fun join :: "string \<Rightarrow> string list \<Rightarrow> string" where
  "join sep [] = []"
| "join sep [s] = s"
| "join sep (s # t # ss) = s @ sep @ join sep (t # ss)"

definition agent_child :: "launch_config \<Rightarrow> string \<Rightarrow> string \<Rightarrow> (string, string) dict \<Rightarrow> child" where
  "agent_child cfg here log_root environ =
     spawn environ log_root ''agent''
       [''torchrun'', ''--nproc_per_node='' @ show_nat (agent_world_size cfg), ''--master-port=49500'', here @ ''/agent.py''] []"

definition trainer_child :: "launch_config \<Rightarrow> string \<Rightarrow> string \<Rightarrow> (string, string) dict \<Rightarrow> child" where
  "trainer_child cfg here log_root environ =
     (let trainer_cuda = join '','' (map show_nat [0..<trainer_world_size cfg])
      in spawn environ log_root ''trainer''
           [''torchrun'', ''--nproc_per_node='' @ show_nat (trainer_world_size cfg), ''--master-port=49501'', here @ ''/trainer.py'']
           [(''CUDA_VISIBLE_DEVICES'', trainer_cuda), (''AGENT_RANK_OFFSET'', ''0'')])"

definition vllm_child :: "launch_config \<Rightarrow> string \<Rightarrow> string \<Rightarrow> string \<Rightarrow> (string, string) dict \<Rightarrow> child" where
  "vllm_child cfg executable here log_root environ =
     (let vllm_cuda = join '','' (map show_nat [trainer_world_size cfg..<agent_world_size cfg])
      in spawn environ log_root ''vllm'' [executable, here @ ''/vllm_server.py''] [(''CUDA_VISIBLE_DEVICES'', vllm_cuda)])"

definition chat_child :: "string \<Rightarrow> string \<Rightarrow> string \<Rightarrow> (string, string) dict \<Rightarrow> child" where
  "chat_child executable here log_root environ = spawn environ log_root ''chat'' [executable, here @ ''/chat_client.py''] []"

section \<open>The run\<close>

datatype launch_event =
    Remove_tree string | Make_dirs string | Spawn child | Wait_for_port | Wait_for string
  | Terminate string | Sleep | Kill_group string

text \<open>
  \<open>_cleanup\<close>. \<open>alive t p\<close> is what the \<open>t\<close>-th observation \<open>p.poll() is None\<close> says of a child:
  observation 0 is that of the first loop, each pass of the waiting loop makes the next one, and
  the last loop makes one more. \<open>budget\<close> counts the passes that begin before the deadline
  (every pass sleeps half a second, so at most 30 of them fit into the 15 seconds). A process that
  ends between the observation and the signal is no error. The waiting loop gives its sleeps and
  the number of the next observation.
\<close>

primrec grace :: "string list \<Rightarrow> (nat \<Rightarrow> string \<Rightarrow> bool) \<Rightarrow> nat \<Rightarrow> nat \<Rightarrow> launch_event list \<times> nat" where
  "grace procs alive 0 t = ([], t)"
| "grace procs alive (Suc budget) t =
     (if list_ex (alive t) procs then apfst ((#) Sleep) (grace procs alive budget (Suc t)) else ([], Suc t))"

definition cleanup_children :: "string list \<Rightarrow> nat \<Rightarrow> (nat \<Rightarrow> string \<Rightarrow> bool) \<Rightarrow> launch_event list" where
  "cleanup_children procs budget alive =
     (let terminated = map Terminate (filter (alive 0) procs);
          (sleeps, t) = grace procs alive budget 1
      in terminated @ sleeps @ map Kill_group (filter (alive t) procs))"

text \<open>The handler of \<open>SIGINT\<close> and \<open>SIGTERM\<close>, for the children started so far.\<close>

definition shutdown_handler :: "string list \<Rightarrow> nat \<Rightarrow> (nat \<Rightarrow> string \<Rightarrow> bool) \<Rightarrow> launch_event list \<times> int" where
  "shutdown_handler procs budget alive = (cleanup_children procs budget alive, 130)"

text \<open>
  \<open>main\<close>, without a signal: the events in order and the exit code, or the exception that ends
  it. \<open>trainer_rc\<close> is what \<open>procs[1].wait()\<close> returns; after it \<open>poll\<close> never finds the trainer
  running.
\<close>

definition launch_prelude :: "launch_config \<Rightarrow> string \<Rightarrow> launch_event list" where
  "launch_prelude cfg log_root =
     [Remove_tree (lmdb_root cfg), Remove_tree log_root, Make_dirs (lmdb_root cfg), Make_dirs log_root]"

definition launch_main ::
  "launch_config \<Rightarrow> string \<Rightarrow> string \<Rightarrow> (string, string) dict \<Rightarrow> (bool \<times> unit result) list \<Rightarrow> int \<Rightarrow>
   nat \<Rightarrow> (nat \<Rightarrow> string \<Rightarrow> bool) \<Rightarrow> (launch_event list \<times> int result) option" where
  "launch_main cfg executable here environ port trainer_rc budget alive =
     (let log_root = here @ ''/logs'';
          agent = agent_child cfg here log_root environ;
          children = [agent, trainer_child cfg here log_root environ, vllm_child cfg executable here log_root environ,
            chat_child executable here log_root environ];
          waited = ch_name (children ! 1);
          first = launch_prelude cfg log_root @ [Spawn agent, Wait_for_port]
      in case wait_for_port port of
           None \<Rightarrow> None
         | Some (Inl e) \<Rightarrow> Some (first, Inl e)
         | Some (Inr _) \<Rightarrow>
             Some (first @ map Spawn (tl children) @ [Wait_for waited] @
                     cleanup_children (map ch_name children) budget (\<lambda>t p. p \<noteq> waited \<and> alive t p), Inr trainer_rc))"

text \<open>
  The orderly end of a group of children: the running ones are terminated; then the launcher
  sleeps while one of them runs, at most \<open>budget\<close> times; and those that still run when the whole
  grace period is over, and no others, are killed.
\<close>

definition ended :: "string list \<Rightarrow> nat \<Rightarrow> (nat \<Rightarrow> string \<Rightarrow> bool) \<Rightarrow> launch_event list \<Rightarrow> bool" where
  "ended procs budget alive events \<longleftrightarrow>
     (\<exists>sleeps \<le> budget.
        events = map Terminate (filter (alive 0) procs) @ replicate sleeps Sleep @ map Kill_group (filter (alive (Suc budget)) procs) \<and>
        (\<forall>i < sleeps. \<exists>p \<in> set procs. alive (Suc i) p) \<and>
        (sleeps < budget \<longrightarrow> (\<forall>p \<in> set procs. \<not> alive (Suc sleeps) p)))"

fun spawned :: "launch_event list \<Rightarrow> string list" where
  "spawned [] = []"
| "spawned (Spawn c # events) = ch_name c # spawned events"
| "spawned (_ # events) = spawned events"

lemma dead_stays_dead: "\<forall>t p. alive (Suc t) p \<longrightarrow> alive t p \<Longrightarrow> alive (t + n) p \<Longrightarrow> alive t p" for n :: nat
  by (induction n) auto

lemma grace_result:
  assumes "\<forall>t p. alive (Suc t) p \<longrightarrow> alive t p"
  shows "\<exists>sleeps \<le> budget. fst (grace procs alive budget t) = replicate sleeps Sleep \<and>
    filter (alive (snd (grace procs alive budget t))) procs = filter (alive (t + budget)) procs \<and>
    (\<forall>i < sleeps. \<exists>p \<in> set procs. alive (t + i) p) \<and> (sleeps < budget \<longrightarrow> (\<forall>p \<in> set procs. \<not> alive (t + sleeps) p))"
proof (induction budget arbitrary: t)
  case (Suc budget)
  show ?case
  proof (cases "list_ex (alive t) procs")
    case True
    obtain n where n: "n \<le> budget" "fst (grace procs alive budget (Suc t)) = replicate n Sleep"
      "filter (alive (snd (grace procs alive budget (Suc t)))) procs = filter (alive (Suc t + budget)) procs"
      "\<forall>i < n. \<exists>p \<in> set procs. alive (Suc t + i) p" "n < budget \<longrightarrow> (\<forall>p \<in> set procs. \<not> alive (Suc t + n) p)"
      using Suc.IH [of "Suc t"] by blast
    have "\<exists>p \<in> set procs. alive (t + i) p" if "i < Suc n" for i
      using that True n(4) by (cases i) (auto simp: list_ex_iff)
    then show ?thesis using True n by (intro exI [of _ "Suc n"]) simp
  next
    case False
    then have "\<not> alive (t + k) p" if "p \<in> set procs" for p k
      using dead_stays_dead [OF assms] that by (auto simp: list_ex_iff)
    from this [of _ 1] this [of _ "Suc budget"] this [of _ 0]
    have "filter (alive (Suc t)) procs = []" "filter (alive (t + Suc budget)) procs = []" "\<forall>p \<in> set procs. \<not> alive t p"
      by (simp_all add: filter_empty_conv)
    then show ?thesis using False by (intro exI [of _ 0]) simp
  qed
qed simp

lemma ended_others:
  assumes "ended procs budget (\<lambda>t p. p \<noteq> q \<and> alive t p) events" "others = filter (\<lambda>p. p \<noteq> q) procs"
  shows "ended others budget alive events"
proof -
  have f: "filter P (filter (\<lambda>p. p \<noteq> q) procs) = filter (\<lambda>p. p \<noteq> q \<and> P p) procs" for P by (simp add: conj_commute)
  have m: "(\<exists>p \<in> set (filter (\<lambda>p. p \<noteq> q) procs). P p) \<longleftrightarrow> (\<exists>p \<in> set procs. p \<noteq> q \<and> P p)"
    "(\<forall>p \<in> set (filter (\<lambda>p. p \<noteq> q) procs). \<not> P p) \<longleftrightarrow> (\<forall>p \<in> set procs. \<not> (p \<noteq> q \<and> P p))" for P by auto
  show ?thesis using assms(1) unfolding ended_def assms(2) f m .
qed

lemma retry_error: "retry passes = Some (Inl e) \<Longrightarrow> e = TimeoutError"
  by (induction passes rule: retry.induct) (auto split: if_splits sum.splits)

lemma cleanup_ends: "\<forall>t p. alive (Suc t) p \<longrightarrow> alive t p \<Longrightarrow> ended procs budget alive (cleanup_children procs budget alive)"
  using grace_result [of alive budget procs 1] by (auto simp: ended_def cleanup_children_def Let_def case_prod_beta)

section \<open>Ranks, queues and devices\<close>

text \<open>What the example's agent takes from its environment: rank, world size and paths.\<close>

definition agent_main_setup :: "string \<Rightarrow> (string, string) dict \<Rightarrow> (int \<times> int \<times> string \<times> string) result" where
  "agent_main_setup root environ =
     res_bind (case dict_get environ ''RANK'' of None \<Rightarrow> Inr 0 | Some raw \<Rightarrow> read_int raw) (\<lambda>rank.
     res_bind (environ_int environ ''WORLD_SIZE'') (\<lambda>world_size.
       Inr (rank, world_size, get_queue_state_paths root rank)))"

text \<open>The worker's hook sets its rank and offset before it boots its client.\<close>

definition setup_environ :: "launch_config \<Rightarrow> nat \<Rightarrow> (string, string) dict \<Rightarrow> (string, string) dict" where
  "setup_environ cfg rank environ =
     dict_set (dict_set environ ''RANK'' (show_nat rank)) ''AGENT_RANK_OFFSET'' (show_nat (trainer_world_size cfg))"

text \<open>
  CUDA's numbering: device \<open>d\<close> of a process is the \<open>d\<close>-th entry of \<open>CUDA_VISIBLE_DEVICES\<close>, and
  GPU \<open>d\<close> without the variable.
\<close>

fun split_commas :: "string \<Rightarrow> string list" where
  "split_commas [] = [[]]"
| "split_commas (c # s) = (if c = CHR '','' then [] # split_commas s else (c # hd (split_commas s)) # tl (split_commas s))"

definition physical_gpu :: "(string, string) dict \<Rightarrow> nat \<Rightarrow> nat result" where
  "physical_gpu environ d =
     (case dict_get environ ''CUDA_VISIBLE_DEVICES'' of
        None \<Rightarrow> Inr d
      | Some s \<Rightarrow> res_bind (py_nth (split_commas s) d) read_nat)"

text \<open>
  What \<open>torchrun\<close> documents of the environment of its \<open>i\<close>-th process, and a child that keeps the
  variables of its parent.
\<close>

definition inherits :: "(string, string) dict \<Rightarrow> (string, string) dict \<Rightarrow> bool" where
  "inherits parent environ \<longleftrightarrow>
     (\<forall>v \<in> {''AGENT_RANK'', ''AGENT_RANK_OFFSET'', ''CUDA_VISIBLE_DEVICES''}. dict_get environ v = dict_get parent v)"

definition torchrun_ok :: "((string, string) dict \<Rightarrow> nat \<Rightarrow> nat \<Rightarrow> (string, string) dict) \<Rightarrow> bool" where
  "torchrun_ok torchrun \<longleftrightarrow> (\<forall>parent n i. i < n \<longrightarrow>
     dict_get (torchrun parent n i) ''RANK'' = Some (show_nat i) \<and> dict_get (torchrun parent n i) ''LOCAL_RANK'' = Some (show_nat i) \<and>
     dict_get (torchrun parent n i) ''WORLD_SIZE'' = Some (show_nat n) \<and> inherits parent (torchrun parent n i))"

text \<open>
  What the server's \<open>j\<close>-th worker is: it runs on the \<open>j\<close>-th device its server sees, however it
  numbers it itself, and \<open>AGENT_RANK\<close> is what it was.
\<close>

definition nth_worker :: "(string, string) dict \<Rightarrow> nat \<Rightarrow> (string, string) dict \<Rightarrow> nat \<Rightarrow> bool" where
  "nth_worker parent j environ d \<longleftrightarrow>
     dict_get environ ''AGENT_RANK'' = dict_get parent ''AGENT_RANK'' \<and> physical_gpu environ d = physical_gpu parent j"

text \<open>
  A worker and an agent belong together: the client resolves to the agent's rank and to the very
  files the agent opens, and the device the agent rebuilds tensors on is the worker's GPU.
\<close>

definition belongs :: "string \<Rightarrow> (string, string) dict \<Rightarrow> (string, string) dict \<Rightarrow> nat \<Rightarrow> bool" where
  "belongs root agent_env worker_env device \<longleftrightarrow>
     (\<exists>info rank ws d gpu. resolve_bootstrap worker_env (Some (get_queue_state_paths root)) = Inr info \<and>
        agent_main_setup root agent_env = Inr (rank, ws, bi_command_queue_path info, bi_state_path info) \<and> bi_agent_rank info = rank \<and>
        local_rank agent_env = Inr (int d) \<and> physical_gpu agent_env d = Inr gpu \<and> physical_gpu worker_env device = Inr gpu)"

lemma read_show_nat_int: "read_int (show_nat n) = Inr (int n)"
  using read_show_int [of "int n"] by (simp add: show_int_def)

lemma split_commas_ne: "split_commas s \<noteq> []"
  by (cases s) auto

lemma split_commas_plain: "CHR '','' \<notin> set s \<Longrightarrow> split_commas s = [s]"
  by (induction s) auto

lemma split_commas_append: "CHR '','' \<notin> set s \<Longrightarrow> split_commas (s @ CHR '','' # t) = s # split_commas t"
  by (induction s) auto

lemma split_join:
  assumes "ss \<noteq> []" "\<forall>s \<in> set ss. CHR '','' \<notin> set s"
  shows "split_commas (join '','' ss) = ss"
  using assms
proof (induction ss)
  case (Cons s ss)
  then show ?case by (cases ss) (auto simp: split_commas_plain split_commas_append)
qed simp

lemma visible_gpu:
  assumes "dict_get environ ''CUDA_VISIBLE_DEVICES'' = Some (join '','' (map show_nat [a..<b]))" "a + d < b"
  shows "physical_gpu environ d = Inr (a + d)"
proof -
  have "CHR '','' \<notin> set (show_nat n)" for n using show_nat_digits [of n] by (auto simp: list_all_iff is_digit_def)
  then have "split_commas (join '','' (map show_nat [a..<b])) = map show_nat [a..<b]" using assms(2) by (intro split_join) auto
  then show ?thesis using assms by (simp add: physical_gpu_def py_nth_def read_show_nat)
qed

lemma agent_belongs:
  assumes "torchrun_ok torchrun" "r < n" "ag = torchrun environ n r"
    and "resolve_bootstrap wk (Some (get_queue_state_paths root)) = Inr info" "bi_agent_rank info = int r"
    "bi_command_queue_path info = fst (get_queue_state_paths root (int r))" "bi_state_path info = snd (get_queue_state_paths root (int r))"
    "physical_gpu wk d = Inr r"
  shows "belongs root ag wk d \<longleftrightarrow> physical_gpu environ r = Inr r"
proof -
  have a: "dict_get ag ''RANK'' = Some (show_nat r)" "dict_get ag ''LOCAL_RANK'' = Some (show_nat r)" "dict_get ag ''WORLD_SIZE'' = Some (show_nat n)"
    "dict_get ag ''CUDA_VISIBLE_DEVICES'' = dict_get environ ''CUDA_VISIBLE_DEVICES''"
    using assms(1-3) by (simp_all add: torchrun_ok_def inherits_def)
  then have "agent_main_setup root ag = Inr (int r, int n, bi_command_queue_path info, bi_state_path info)"
    by (simp add: agent_main_setup_def environ_int_def read_show_nat_int assms(6,7))
  moreover have "local_rank ag = Inr (int r)" "physical_gpu ag r = physical_gpu environ r"
    using a by (simp_all add: local_rank_def physical_gpu_def read_show_nat_int)
  ultimately show ?thesis using assms(4,5,8) unfolding belongs_def by auto
qed

lemma resolve_offset:
  assumes "dict_get wk ''RANK'' = Some (show_nat i)" "dict_get wk ''AGENT_RANK'' = None" "dict_get wk ''AGENT_RANK_OFFSET'' = Some (show_nat off)"
  shows "\<exists>info. resolve_bootstrap wk (Some f) = Inr info \<and> bi_agent_rank info = int (off + i) \<and>
    bi_command_queue_path info = fst (f (int (off + i))) \<and> bi_state_path info = snd (f (int (off + i)))"
  using assms by (simp add: resolve_bootstrap_def read_show_nat_int add.commute Let_def)

text \<open>
  C19. Which agent a worker meets, and on which GPU. Provided that the launcher's environment does
  not set \<open>AGENT_RANK\<close>, that \<open>torchrun\<close> gives its processes the ranks it documents, and that the
  inference server runs its \<open>j\<close>-th worker on the \<open>j\<close>-th device it sees: whatever the sizes of the
  two sides, the client of the trainer's process \<open>i\<close> belongs to agent \<open>i\<close> and that of the
  server's worker \<open>j\<close> to agent \<open>trainer_world_size + j\<close>, over the files this agent opens and with
  the agent's device (its \<open>LOCAL_RANK\<close>) on the worker's GPU, exactly when the launcher's own
  environment numbers this GPU as the machine does. So all pairs fit when the launcher is started
  without \<open>CUDA_VISIBLE_DEVICES\<close>; a value that renumbers GPUs is inherited by the agents and
  overridden for the trainer and the server, and an agent is then on another GPU than its worker.
\<close>

theorem workers_meet_their_agents:
  assumes "torchrun_ok torchrun" "dict_get environ ''AGENT_RANK'' = None"
    and "\<forall>j < vllm_world_size cfg. nth_worker (ch_env (vllm_child cfg executable here log_root environ)) j (worker_env j) (device j)"
  shows "(\<forall>i < trainer_world_size cfg. belongs root
      (torchrun (ch_env (agent_child cfg here log_root environ)) (agent_world_size cfg) i)
      (torchrun (ch_env (trainer_child cfg here log_root environ)) (trainer_world_size cfg) i) i \<longleftrightarrow> physical_gpu environ i = Inr i) \<and>
    (\<forall>j < vllm_world_size cfg. belongs root
      (torchrun (ch_env (agent_child cfg here log_root environ)) (agent_world_size cfg) (trainer_world_size cfg + j))
      (setup_environ cfg j (worker_env j)) (device j) \<longleftrightarrow>
      physical_gpu environ (trainer_world_size cfg + j) = Inr (trainer_world_size cfg + j)) \<and>
    (dict_get environ ''CUDA_VISIBLE_DEVICES'' = None \<longrightarrow> physical_gpu environ d = Inr d)"
proof (intro conjI allI impI)
  have ag: "ch_env (agent_child cfg here log_root environ) = environ" by (simp add: agent_child_def spawn_def)
  fix i assume i: "i < trainer_world_size cfg"
  let ?t = "ch_env (trainer_child cfg here log_root environ)" and ?w = "torchrun (ch_env (trainer_child cfg here log_root environ)) (trainer_world_size cfg) i"
  have t: "dict_get ?t ''AGENT_RANK'' = None" "dict_get ?t ''AGENT_RANK_OFFSET'' = Some (show_nat 0)"
    "dict_get ?t ''CUDA_VISIBLE_DEVICES'' = Some (join '','' (map show_nat [0..<trainer_world_size cfg]))"
    using assms(2) by (simp_all add: trainer_child_def spawn_def Let_def dict_simps show_nat_0)
  then have w: "dict_get ?w ''RANK'' = Some (show_nat i)" "dict_get ?w ''AGENT_RANK'' = None" "dict_get ?w ''AGENT_RANK_OFFSET'' = Some (show_nat 0)"
    "dict_get ?w ''CUDA_VISIBLE_DEVICES'' = Some (join '','' (map show_nat [0..<trainer_world_size cfg]))"
    using assms(1) i by (simp_all add: torchrun_ok_def inherits_def)
  obtain info where "resolve_bootstrap ?w (Some (get_queue_state_paths root)) = Inr info" "bi_agent_rank info = int i"
    "bi_command_queue_path info = fst (get_queue_state_paths root (int i))" "bi_state_path info = snd (get_queue_state_paths root (int i))"
    using resolve_offset [OF w(1-3), of "get_queue_state_paths root"] by auto
  then show "belongs root (torchrun (ch_env (agent_child cfg here log_root environ)) (agent_world_size cfg) i) ?w i \<longleftrightarrow> physical_gpu environ i = Inr i"
    unfolding ag using visible_gpu [OF w(4), of i] i
    by (intro agent_belongs [OF assms(1)]) (auto simp: agent_world_size_def)
next
  have ag: "ch_env (agent_child cfg here log_root environ) = environ" by (simp add: agent_child_def spawn_def)
  fix j assume j: "j < vllm_world_size cfg"
  let ?w = "setup_environ cfg j (worker_env j)" and ?n = "trainer_world_size cfg"
  let ?v = "ch_env (vllm_child cfg executable here log_root environ)"
  have v: "dict_get ?v ''AGENT_RANK'' = None"
    "dict_get ?v ''CUDA_VISIBLE_DEVICES'' = Some (join '','' (map show_nat [?n..<agent_world_size cfg]))"
    using assms(2) by (simp_all add: vllm_child_def spawn_def Let_def dict_simps)
  have nw: "nth_worker ?v j (worker_env j) (device j)" using assms(3) j by blast
  then have w: "dict_get ?w ''RANK'' = Some (show_nat j)" "dict_get ?w ''AGENT_RANK'' = None" "dict_get ?w ''AGENT_RANK_OFFSET'' = Some (show_nat ?n)"
    using v(1) by (simp_all add: setup_environ_def nth_worker_def dict_simps)
  have "physical_gpu ?w (device j) = physical_gpu ?v j"
    using nw by (simp add: setup_environ_def nth_worker_def physical_gpu_def dict_simps)
  then have gpu: "physical_gpu ?w (device j) = Inr (?n + j)" using visible_gpu [OF v(2), of j] j by (simp add: agent_world_size_def)
  obtain info where "resolve_bootstrap ?w (Some (get_queue_state_paths root)) = Inr info" "bi_agent_rank info = int (?n + j)"
    "bi_command_queue_path info = fst (get_queue_state_paths root (int (?n + j)))" "bi_state_path info = snd (get_queue_state_paths root (int (?n + j)))"
    using resolve_offset [OF w(1-3), of "get_queue_state_paths root"] by auto
  then show "belongs root (torchrun (ch_env (agent_child cfg here log_root environ)) (agent_world_size cfg) (?n + j)) ?w (device j) \<longleftrightarrow> physical_gpu environ (?n + j) = Inr (?n + j)"
    unfolding ag using gpu j
    by (intro agent_belongs [OF assms(1)]) (auto simp: agent_world_size_def)
next
  show "physical_gpu environ d = Inr d" if "dict_get environ ''CUDA_VISIBLE_DEVICES'' = None" using that by (simp add: physical_gpu_def)
qed

definition plain_torchrun :: "(string, string) dict \<Rightarrow> nat \<Rightarrow> nat \<Rightarrow> (string, string) dict" where
  "plain_torchrun parent n i =
     dict_set (dict_set (dict_set parent ''RANK'' (show_nat i)) ''LOCAL_RANK'' (show_nat i)) ''WORLD_SIZE'' (show_nat n)"

definition small_launch :: launch_config where
  "small_launch = \<lparr>trainer_world_size = 2, trainer_attn_dp_replicate = 1, trainer_attn_dp_shard = 2, trainer_moe_dp_replicate = 1,
     trainer_moe_dp_shard = 1, trainer_ep_size = 2, vllm_world_size = 2, lmdb_root = ''/tmp/d''\<rparr>"

theorem workers_meet_their_agents_witness:
  "belongs ''/tmp/d'' (plain_torchrun (ch_env (agent_child small_launch ''/x'' ''/x/logs'' [])) 4 3)
     (setup_environ small_launch 1 (ch_env (vllm_child small_launch ''python'' ''/x'' ''/x/logs'' []))) 1 \<and>
   \<not> belongs ''/tmp/d'' (plain_torchrun (ch_env (agent_child small_launch ''/x'' ''/x/logs'' [(''CUDA_VISIBLE_DEVICES'', ''4,5,6,7'')])) 4 3)
     (setup_environ small_launch 1 (ch_env (vllm_child small_launch ''python'' ''/x'' ''/x/logs'' [(''CUDA_VISIBLE_DEVICES'', ''4,5,6,7'')]))) 1"
proof -
  have *: "torchrun_ok plain_torchrun" by (simp add: torchrun_ok_def plain_torchrun_def inherits_def dict_simps)
  have read7: "read_nat ''7'' = Inr 7" by code_simp
  have s: "trainer_world_size small_launch = 2" "vllm_world_size small_launch = 2" "agent_world_size small_launch = 4"
    by (simp_all add: small_launch_def agent_world_size_def)
  have "belongs ''/tmp/d'' (plain_torchrun (ch_env (agent_child small_launch ''/x'' ''/x/logs'' environ)) 4 3)
      (setup_environ small_launch 1 (ch_env (vllm_child small_launch ''python'' ''/x'' ''/x/logs'' environ))) 1 \<longleftrightarrow> physical_gpu environ 3 = Inr 3"
    if "dict_get environ ''AGENT_RANK'' = None" for environ
    using workers_meet_their_agents [OF * that, of small_launch "''python''" "''/x''" "''/x/logs''"
      "\<lambda>_. ch_env (vllm_child small_launch ''python'' ''/x'' ''/x/logs'' environ)" "\<lambda>j. j" "''/tmp/d''",
      THEN conjunct2, THEN conjunct1, rule_format, of 1] by (simp add: nth_worker_def s)
  from this [of "[]"] this [of "[(''CUDA_VISIBLE_DEVICES'', ''4,5,6,7'')]"] show ?thesis
    by (simp add: physical_gpu_def py_nth_def read7)
qed

text \<open>
  C32. How the launcher ends, for children that stay dead once they are. Once the agents are up it
  starts the other three, and only after the trainer has ended does it signal anyone: first it
  terminates every other child that runs, then it sleeps as long as one of them runs and the grace
  period lasts, then it kills exactly those that outlive the whole period, and it exits with the
  trainer's code; the trainer itself is never signalled. A signal ends the children started by then
  in the same order, with 130. When the agents' store does not come up, the launcher raises
  \<open>TimeoutError\<close> with the agents started and signals none of them.
\<close>

theorem launch_ends_children:
  assumes "retry port = Some up" "\<forall>t p. alive (Suc t) p \<longrightarrow> alive t p"
  shows "(\<exists>events. shutdown_handler procs budget alive = (events, 130) \<and> ended procs budget alive events) \<and>
    (case up of
       Inr _ \<Rightarrow> \<exists>before after. launch_main cfg executable here environ port trainer_rc budget alive =
           Some (before @ Wait_for ''trainer'' # after, Inr trainer_rc) \<and>
         spawned before = [''agent'', ''trainer'', ''vllm'', ''chat''] \<and>
         (\<forall>p. Terminate p \<notin> set before \<and> Kill_group p \<notin> set before) \<and>
         ended [''agent'', ''vllm'', ''chat''] budget alive after
     | Inl e \<Rightarrow> e = TimeoutError \<and> (\<exists>events. launch_main cfg executable here environ port trainer_rc budget alive = Some (events, Inl e) \<and>
         Spawn (agent_child cfg here (here @ ''/logs'') environ) \<in> set events \<and>
         (\<forall>p. Terminate p \<notin> set events \<and> Kill_group p \<notin> set events)))"
proof -
  have names: "ch_name (agent_child cfg here l environ) = ''agent''" "ch_name (trainer_child cfg here l environ) = ''trainer''"
    "ch_name (vllm_child cfg executable here l environ) = ''vllm''" "ch_name (chat_child executable here l environ) = ''chat''" for l
    by (simp_all add: agent_child_def trainer_child_def vllm_child_def chat_child_def spawn_def Let_def)
  have s: "\<exists>events. shutdown_handler procs budget alive = (events, 130) \<and> ended procs budget alive events"
    using cleanup_ends [OF assms(2)] by (simp add: shutdown_handler_def)
  show ?thesis
  proof (cases up)
    case (Inl e)
    moreover have "e = TimeoutError" using retry_error assms(1) Inl by blast
    ultimately show ?thesis using assms(1) s by (auto simp: launch_main_def wait_for_port_def launch_prelude_def Let_def)
  next
    case (Inr u)
    let ?l = "here @ ''/logs''"
    let ?before = "launch_prelude cfg ?l @ Spawn (agent_child cfg here ?l environ) # Wait_for_port # map Spawn
      [trainer_child cfg here ?l environ, vllm_child cfg executable here ?l environ, chat_child executable here ?l environ]"
    let ?after = "cleanup_children [''agent'', ''trainer'', ''vllm'', ''chat''] budget (\<lambda>t p. p \<noteq> ''trainer'' \<and> alive t p)"
    have "launch_main cfg executable here environ port trainer_rc budget alive = Some (?before @ Wait_for ''trainer'' # ?after, Inr trainer_rc)"
      using assms(1) Inr by (simp add: launch_main_def wait_for_port_def names Let_def)
    moreover have "spawned ?before = [''agent'', ''trainer'', ''vllm'', ''chat'']" "\<forall>p. Terminate p \<notin> set ?before \<and> Kill_group p \<notin> set ?before"
      by (simp_all add: launch_prelude_def names)
    moreover have "ended [''agent'', ''vllm'', ''chat''] budget alive ?after"
      by (rule ended_others [OF cleanup_ends]) (use assms(2) in auto)
    ultimately show ?thesis using s unfolding Inr sum.case by blast
  qed
qed

theorem launch_ends_children_witness:
  "\<exists>events. launch_main small_launch ''python'' ''/x'' [] [(False, Inl RuntimeError), (True, Inl RuntimeError)] 0 30 (\<lambda>_ _. True) =
     Some (events, Inl TimeoutError) \<and> Terminate ''agent'' \<notin> set events"
proof -
  have "retry [(False, Inl RuntimeError), (True, Inl RuntimeError :: unit result)] = Some (Inl TimeoutError)" by simp
  from launch_ends_children [OF this, of "\<lambda>_ _. True" "[]" 30 small_launch "''python''" "''/x''" "[]" 0]
  show ?thesis by auto
qed

section \<open>The mains of the children\<close>

text \<open>
  The children's \<open>main\<close> functions as sequences of calls: \<open>raises\<close> gives the exception of a call,
  if it raises one, and a run is the calls made and the exception that ends it.
\<close>

fun attempt :: "('e \<Rightarrow> py_error option) \<Rightarrow> 'e list \<Rightarrow> 'e list \<times> py_error option" where
  "attempt raises [] = ([], None)"
| "attempt raises (c # cs) = (case raises c of Some e \<Rightarrow> ([c], Some e) | None \<Rightarrow> apfst ((#) c) (attempt raises cs))"

definition and_then :: "'e list \<times> py_error option \<Rightarrow> 'e list \<times> py_error option \<Rightarrow> 'e list \<times> py_error option" where
  "and_then first rest = (case first of (cs, Some e) \<Rightarrow> (cs, Some e) | (cs, None) \<Rightarrow> apfst ((@) cs) rest)"

text \<open>\<open>finally\<close>: its own exception replaces that of the body.\<close>

definition try_finally :: "'e list \<times> py_error option \<Rightarrow> 'e list \<times> py_error option \<Rightarrow> 'e list \<times> py_error option" where
  "try_finally body final = (fst body @ fst final, case snd final of Some e \<Rightarrow> Some e | None \<Rightarrow> snd body)"

datatype trainer_call =
    Setup_distributed | Load_config | Snapshot | Build_state | Load_checkpoint | Bootstrap | Sort_handlers | Init_pairs | Register_batch
  | Open_control | Sync_loop | Close_batch | Close_client | Destroy_group

definition trainer_main :: "(trainer_call \<Rightarrow> py_error option) \<Rightarrow> string \<Rightarrow> nat \<Rightarrow> trainer_call list \<times> py_error option" where
  "trainer_main raises model_type rank =
     and_then (attempt raises [Setup_distributed, Load_config])
       (if model_type \<noteq> ''qwen3_moe'' then ([], Some RuntimeError)
        else and_then (attempt raises ([Snapshot, Build_state, Load_checkpoint, Bootstrap, Sort_handlers, Init_pairs, Register_batch] @ (if rank = 0 then [Open_control] else [])))
          (try_finally (attempt raises [Sync_loop]) (attempt raises [Close_batch, Close_client, Destroy_group])))"

text \<open>The example's agent; an interrupt of the main loop is swallowed.\<close>

datatype agent_call = Cleanup_stale | Create_agent | Barrier | Run_agent | Close_agent

definition agent_main :: "(agent_call \<Rightarrow> py_error option) \<Rightarrow> bool \<Rightarrow> agent_call list \<times> py_error option" where
  "agent_main raises interrupted =
     and_then (attempt raises [Cleanup_stale, Create_agent, Barrier])
       (try_finally (if interrupted then ([Run_agent], None) else attempt raises [Run_agent]) (attempt raises [Close_agent]))"

text \<open>The patched \<open>init_app_state\<close> of the server.\<close>

datatype init_call = Original_init | Setup_workers | Start_sync_loop

definition patched_init_app_state :: "(init_call \<Rightarrow> py_error option) \<Rightarrow> init_call list \<times> py_error option" where
  "patched_init_app_state raises = attempt raises [Original_init, Setup_workers, Start_sync_loop]"

text \<open>
  Which resources the children give back. The trainer closes its batch, its client and its process
  group, in this order, however the sync loop ends; but an exception between the client's
  bootstrap and the loop, in the pairs, the registration or the control store, leaves the client
  open. The agent that reached its main loop is closed, also on an interrupt. The server starts
  its sync loop only with all workers set up.
\<close>

theorem children_release:
  "((\<forall>c. c \<noteq> Sync_loop \<longrightarrow> raises c = None) \<longrightarrow>
      (\<exists>cs. trainer_main raises ''qwen3_moe'' rank = (cs @ [Sync_loop, Close_batch, Close_client, Destroy_group], raises Sync_loop))) \<and>
   (c \<in> {Init_pairs, Register_batch} \<and> raises c = Some e \<and> (\<forall>c'. c' \<noteq> c \<longrightarrow> raises c' = None) \<longrightarrow>
      (\<exists>cs. trainer_main raises ''qwen3_moe'' rank = (cs, Some e) \<and> Bootstrap \<in> set cs \<and> Close_client \<notin> set cs)) \<and>
   (Run_agent \<in> set (fst (agent_main araises interrupted)) \<longrightarrow> Close_agent \<in> set (fst (agent_main araises interrupted))) \<and>
   (Start_sync_loop \<in> set (fst (patched_init_app_state iraises)) \<longleftrightarrow> iraises Original_init = None \<and> iraises Setup_workers = None)"
proof (intro conjI impI)
  show "\<exists>cs. trainer_main raises ''qwen3_moe'' rank = (cs @ [Sync_loop, Close_batch, Close_client, Destroy_group], raises Sync_loop)"
    if "\<forall>c. c \<noteq> Sync_loop \<longrightarrow> raises c = None"
    using that by (cases "raises Sync_loop") (simp_all add: trainer_main_def and_then_def try_finally_def)
  show "\<exists>cs. trainer_main raises ''qwen3_moe'' rank = (cs, Some e) \<and> Bootstrap \<in> set cs \<and> Close_client \<notin> set cs"
    if "c \<in> {Init_pairs, Register_batch} \<and> raises c = Some e \<and> (\<forall>c'. c' \<noteq> c \<longrightarrow> raises c' = None)"
    using that by (auto simp: trainer_main_def and_then_def try_finally_def)
  show "Close_agent \<in> set (fst (agent_main araises interrupted))" if "Run_agent \<in> set (fst (agent_main araises interrupted))"
    using that by (auto simp: agent_main_def and_then_def try_finally_def split: option.splits prod.splits if_splits)
  show "Start_sync_loop \<in> set (fst (patched_init_app_state iraises)) \<longleftrightarrow> iraises Original_init = None \<and> iraises Setup_workers = None"
    by (auto simp: patched_init_app_state_def split: option.splits)
qed

section \<open>Dispatch\<close>

text \<open>
  \<open>_handle_command\<close> reads \<open>RANK\<close> for every command, to record a span on rank 0, and raises
  \<open>TypeError\<close> without it.
\<close>

definition handle_command :: "(string, string) dict \<Rightarrow> outside \<Rightarrow> message \<Rightarrow> unit act" where
  "handle_command environ env msg =
     (case dict_get environ ''RANK'' of
        None \<Rightarrow> act_raise TypeError
      | Some raw \<Rightarrow> (case read_int raw of Inl e \<Rightarrow> act_raise e | Inr _ \<Rightarrow> execute_command env msg))"

text \<open>Every agent the launcher starts dispatches: the main loop may go to \<open>execute_command\<close> directly.\<close>

theorem launched_agent_dispatches:
  assumes "torchrun_ok torchrun" "i < agent_world_size cfg"
  shows "handle_command (torchrun (ch_env (agent_child cfg here log_root environ)) (agent_world_size cfg) i) = execute_command"
  using assms by (simp add: fun_eq_iff handle_command_def torchrun_ok_def read_show_nat_int)

end
