(* ===== verification/Benchmarks.thy ===== *)
theory Benchmarks
  imports Pair_Rendezvous DTensor_Reference
begin

text \<open>
  The parts of the transfer benchmark (\<^verbatim>\<open>bench/transfer_benchmark.py\<close>) that compute something the
  library computes too: the bytes every target needs, and the benchmark's own copy of the
  agent's Partial sub-groups. Timing, profiling and plotting are not modelled.
\<close>

section \<open>Bytes to transfer\<close>

fun transfer_bytes_loop :: "device_mesh \<Rightarrow> (nat \<times> placement) list \<Rightarrow> nat \<Rightarrow> nat result" where
  "transfer_bytes_loop target_mesh [] nbytes_total = Inr nbytes_total"
| "transfer_bytes_loop target_mesh ((i, placement) # rest) nbytes_total =
     res_bind (py_nth (mesh_shape target_mesh) i) (\<lambda>mesh_dim_size.
       transfer_bytes_loop target_mesh rest (if placement = Replicate then nbytes_total * mesh_dim_size else nbytes_total))"

definition calculate_transfer_bytes :: "device_mesh \<Rightarrow> placement list \<Rightarrow> nat \<Rightarrow> nat result" where
  "calculate_transfer_bytes target_mesh target_placements nbytes_total =
     transfer_bytes_loop target_mesh (zip [0..<length target_placements] target_placements) nbytes_total"

lemma transfer_bytes_loop_ok:
  "\<forall>(i, p) \<in> set es. i < length (mesh_shape m) \<Longrightarrow>
   transfer_bytes_loop m es b = Inr (b * prod_list (map ((!) (mesh_shape m) \<circ> fst) (filter (\<lambda>(i, p). p = Replicate) es)))"
proof (induction es arbitrary: b)
  case (Cons e es)
  then show ?case by (cases e) (auto simp: py_nth_def)
qed simp

lemma prod_list_filter_upt: "prod_list (map f (filter P [0..<n])) = prod f {i. i < n \<and> P i}" for f :: "nat \<Rightarrow> nat"
proof -
  have "prod_list (map f (filter P [0..<n])) = prod f (set (filter P [0..<n]))" by (subst prod.distinct_set_conv_list) simp_all
  moreover have "set (filter P [0..<n]) = {i. i < n \<and> P i}" by auto
  ultimately show ?thesis by simp
qed

text \<open>Every mesh dimension replicates, or shards exactly one tensor dimension.\<close>

lemma mesh_dims_split:
  assumes "length pl = length (mesh_shape m)" "\<forall>p \<in> set pl. p = Replicate \<or> (\<exists>k < n. p = Shard (int k))"
  shows "prod_list (mesh_shape m) = prod_list (map ((!) (mesh_shape m)) (filter (\<lambda>i. pl ! i = Replicate) [0..<length pl])) * prod (ref_count m pl) {..<n}"
proof -
  let ?f = "(!) (mesh_shape m)" and ?R = "{i. i < length pl \<and> pl ! i = Replicate}" and ?S = "\<lambda>k. {i. i < length pl \<and> pl ! i = Shard (int k)}"
  have "{..<length pl} = ?R \<union> (\<Union>k \<in> {..<n}. ?S k)" using assms(2) nth_mem [of _ pl] by fastforce
  moreover have "prod ?f (?R \<union> (\<Union>k \<in> {..<n}. ?S k)) = prod ?f ?R * prod ?f (\<Union>k \<in> {..<n}. ?S k)"
    by (rule prod.union_disjoint) auto
  moreover have "prod ?f (\<Union>k \<in> {..<n}. ?S k) = (\<Prod>k<n. prod ?f (?S k))" by (rule prod.UNION_disjoint) auto
  moreover have "prod_list (mesh_shape m) = prod ?f {..<length pl}"
    using prod_list_filter_upt [of ?f "\<lambda>_. True" "length (mesh_shape m)"] assms(1) by (simp add: map_nth lessThan_def)
  ultimately show ?thesis by (simp add: prod_list_filter_upt ref_count_def ref_dims_def)
qed

text \<open>
  The benchmark's byte count is exact: the size of the tensor times the replication factors is
  the sum of the local shards' sizes over all target ranks, whatever replicated and (evenly)
  sharded placements the target has.
\<close>

theorem transfer_bytes_exact:
  assumes "mesh_ok m" "length pl = length (mesh_shape m)" "\<forall>p \<in> set pl. p = Replicate \<or> (\<exists>k < length (nd_shape t). p = Shard (int k))"
    and "\<forall>k < length (nd_shape t). ref_count m pl k dvd nd_shape t ! k"
  shows "calculate_transfer_bytes m pl (prod_list (nd_shape t) * element_size) =
    Inr (\<Sum>r \<leftarrow> mesh_ranks m. prod_list (nd_shape (to_local ref_api m pl r t)) * element_size)"
proof -
  let ?n = "length (nd_shape t)" and ?rep = "prod_list (map ((!) (mesh_shape m)) (filter (\<lambda>i. pl ! i = Replicate) [0..<length pl]))"
  let ?lsh = "ref_local_shape m pl (nd_shape t)"
  have shape: "prod_list xs = prod ((!) xs) {..<length xs}" for xs :: "nat list"
    using prod_list_filter_upt [of "(!) xs" "\<lambda>_. True" "length xs"] by (simp add: map_nth lessThan_def)
  have "prod_list ?lsh * prod (ref_count m pl) {..<?n} = (\<Prod>k<?n. ?lsh ! k * ref_count m pl k)"
    using shape [of ?lsh] by (simp add: ref_local_shape_def prod.distrib)
  also have "\<dots> = (\<Prod>k<?n. nd_shape t ! k)" using assms(4) by (intro prod.cong) (auto simp: ref_local_shape_def)
  finally have vol: "prod_list ?lsh * prod (ref_count m pl) {..<?n} = prod_list (nd_shape t)" by (simp add: shape)
  have rep: "map ((!) (mesh_shape m) \<circ> fst) (filter (\<lambda>(i, p). p = Replicate) (zip [0..<length pl] pl)) =
      map ((!) (mesh_shape m)) (filter (\<lambda>i. pl ! i = Replicate) [0..<length pl])"
    using map_fst_filter_zip_upt [of "\<lambda>p. p = Replicate" pl] by (metis map_map)
  have "calculate_transfer_bytes m pl (prod_list (nd_shape t) * element_size) = Inr (prod_list (nd_shape t) * element_size * ?rep)"
    unfolding calculate_transfer_bytes_def rep [symmetric] by (rule transfer_bytes_loop_ok) (use assms(2) in \<open>auto dest: set_zip_leftD\<close>)
  moreover have "(\<Sum>r \<leftarrow> mesh_ranks m. prod_list (nd_shape (to_local ref_api m pl r t)) * element_size) = prod_list (mesh_shape m) * prod_list ?lsh * element_size"
    using assms(1) by (simp add: ref_api_def Let_def sum_list_triv mesh_ok_def)
  ultimately show ?thesis using mesh_dims_split [OF assms(2,3)] vol by (simp add: ac_simps)
qed

theorem transfer_bytes_exact_witness:
  "calculate_transfer_bytes \<lparr>mesh_shape = [2, 2], mesh_ranks = [4, 5, 6, 7]\<rparr> [Replicate, Shard 1] (12 * 4) = Inr 96"
proof -
  let ?m = "\<lparr>mesh_shape = [2, 2], mesh_ranks = [4, 5, 6, 7]\<rparr>" and ?t = "\<lparr>nd_shape = [3, 4], nd_at = sum_list\<rparr>"
  have c: "ref_count ?m [Replicate, Shard 1] 0 = 1" "ref_count ?m [Replicate, Shard 1] (Suc 0) = 2" "mesh_ok ?m" by code_simp+
  have s: "(\<Sum>r \<leftarrow> mesh_ranks ?m. prod_list (nd_shape (to_local ref_api ?m [Replicate, Shard 1] r ?t)) * 4) = 96" by code_simp
  have "calculate_transfer_bytes ?m [Replicate, Shard 1] (prod_list (nd_shape ?t) * 4) =
      Inr (\<Sum>r \<leftarrow> mesh_ranks ?m. prod_list (nd_shape (to_local ref_api ?m [Replicate, Shard 1] r ?t)) * 4)"
    by (rule transfer_bytes_exact [OF c(3)]) (use c in \<open>auto simp: less_Suc_eq\<close>)
  then show ?thesis unfolding s by simp
qed

section \<open>Partial sub-groups\<close>

text \<open>\<open>_build_source_partial_groups\<close>; \<open>my_groups or None\<close>.\<close>

definition is_partial :: "placement \<Rightarrow> bool" where
  "is_partial p = (case p of Partial _ \<Rightarrow> True | _ \<Rightarrow> False)"

fun bench_partial_loop ::
  "device_mesh \<Rightarrow> (nat \<times> placement) list \<Rightarrow> nat \<Rightarrow> nat list \<Rightarrow> group_handle \<Rightarrow> partial_groups \<times> pg_state \<Rightarrow> partial_groups result \<times> pg_state" where
  "bench_partial_loop mesh [] this_rank source_ranks full_source_group st = (Inr (fst st), snd st)"
| "bench_partial_loop mesh ((mesh_dim_idx, p) # rest) this_rank source_ranks full_source_group st =
     (case p of
        Partial reduce_op \<Rightarrow>
          (case enumerate_partial_subgroup_ranks mesh mesh_dim_idx of
             Inl e \<Rightarrow> (Inl e, snd st)
           | Inr subs \<Rightarrow>
               bench_partial_loop mesh rest this_rank source_ranks full_source_group
                 (fold (\<lambda>sub_ranks (my_groups, pg).
                    let (g, pg') = (if set sub_ranks = set source_ranks then (full_source_group, pg) else get_or_create_process_group sub_ranks pg)
                    in (if this_rank \<in> set sub_ranks then my_groups @ [(g, reduce_op)] else my_groups, pg')) subs st))
      | _ \<Rightarrow> bench_partial_loop mesh rest this_rank source_ranks full_source_group st)"

definition build_source_partial_groups ::
  "device_mesh \<Rightarrow> placement list \<Rightarrow> nat \<Rightarrow> nat list \<Rightarrow> pg_state \<Rightarrow> partial_groups option result \<times> pg_state" where
  "build_source_partial_groups source_mesh source_placements this_rank source_ranks pg =
     (if \<not> list_ex is_partial source_placements then (Inr None, pg)
      else case get_or_create_process_group source_ranks pg of (full_source_group, pg1) \<Rightarrow>
        case bench_partial_loop source_mesh (zip [0..<length source_placements] source_placements) this_rank source_ranks full_source_group ([], pg1) of
          (Inl e, pg2) \<Rightarrow> (Inl e, pg2)
        | (Inr my_groups, pg2) \<Rightarrow> (Inr (if my_groups = [] then None else Some my_groups), pg2))"

definition pre_reduce_placements :: "placement list \<Rightarrow> placement list" where
  "pre_reduce_placements source_placements = map (\<lambda>p. if is_partial p then Replicate else p) source_placements"

lemma bench_loop_mirrors:
  "bench_partial_loop mesh (zip [i..<i + length pls] pls) r full g st = create_partial_groups mesh (partial_reductions i pls) r full g st"
proof (induction pls arbitrary: i st)
  case (Cons p pls)
  have z: "zip [i..<i + length (p # pls)] (p # pls) = (i, p) # zip [Suc i..<Suc i + length pls] pls"
    by (simp add: upt_rec)
  have "(\<lambda>sub_ranks (my_groups, pg). let (g', pg') = (if set sub_ranks = set full then (g, pg) else get_or_create_process_group sub_ranks pg)
      in (if r \<in> set sub_ranks then my_groups @ [(g', op)] else my_groups, pg')) = partial_subgroup r full g op" for op
    by (auto simp: fun_eq_iff partial_subgroup_def split: prod.split)
  then show ?case using Cons.IH [of "Suc i"] unfolding z by (cases p) (simp_all del: upt_Suc split: sum.split)
qed simp

text \<open>
  The benchmark's sub-groups are the agent's: on every rank its copy of
  \<open>_create_partial_groups\<close> makes the same groups in the same order, on top of the group of the
  whole source side, as the agent does from the reductions of the map, and no call at all
  without a Partial placement.
\<close>

theorem bench_mirrors_agent:
  "build_source_partial_groups mesh pls this_rank source_ranks pg =
     (if partial_reductions 0 pls = [] then (Inr None, pg)
      else case get_or_create_process_group source_ranks pg of (g, pg1) \<Rightarrow>
        apfst (map_sum id (\<lambda>gs. if gs = [] then None else Some gs))
          (create_partial_groups mesh (partial_reductions 0 pls) this_rank source_ranks g ([], pg1)))"
proof -
  have "list_ex is_partial pls \<longleftrightarrow> partial_reductions i pls \<noteq> []" for i
    by (induction i pls rule: partial_reductions.induct) (auto simp: is_partial_def)
  moreover have "bench_partial_loop mesh (zip [0..<length pls] pls) this_rank source_ranks g st =
      create_partial_groups mesh (partial_reductions 0 pls) this_rank source_ranks g st" for g st
    using bench_loop_mirrors [of mesh 0 pls] by simp
  ultimately show ?thesis by (auto simp: build_source_partial_groups_def split: prod.split sum.split)
qed

end
