(* ===== verification/Transfer_Benchmark.thy ===== *)
theory Transfer_Benchmark
  imports Complex_Main Benchmarks Gather_Broadcast Buckets
begin

text \<open>
  The measuring part of the transfer benchmark (\<^verbatim>\<open>bench/transfer_benchmark.py\<close>): the sweep of
  meshes and shapes, the buckets of its two methods, the check against gather-and-broadcast, the
  ideal bandwidth and the row of results, and the profiler's schedule (\<^verbatim>\<open>bench/utils.py\<close>). The
  measured times are inputs, real numbers stand for floats.
\<close>

section \<open>Ideal bandwidth\<close>

text \<open>A float that may be infinite.\<close>

datatype flt = Fin real | Inf

fun flt_max :: "flt \<Rightarrow> flt \<Rightarrow> flt" where
  "flt_max (Fin a) (Fin b) = Fin (max a b)"
| "flt_max _ _ = Inf"

definition gib :: "nat \<Rightarrow> real" where
  "gib n = real n / 1024 ^ 3"

definition count_nodes :: "device_mesh \<Rightarrow> nat \<Rightarrow> nat result" where
  "count_nodes mesh gpus_per_node =
     res_bind (res_mapM (\<lambda>r. py_div r gpus_per_node) (mesh_ranks mesh)) (\<lambda>nodes. Inr (card (set nodes)))"

definition calculate_ideal_bandwidth :: "device_mesh \<Rightarrow> device_mesh \<Rightarrow> placement list \<Rightarrow> nat \<Rightarrow> nat \<Rightarrow> flt result" where
  "calculate_ideal_bandwidth source_mesh target_mesh target_placements origin_tensor_bytes gpus_per_node =
     res_bind (count_nodes source_mesh gpus_per_node) (\<lambda>num_source_nodes.
     res_bind (count_nodes target_mesh gpus_per_node) (\<lambda>num_target_nodes.
       let parallel_links = min num_source_nodes num_target_nodes * gpus_per_node;
           total_ib_bandwidth = 50 * real parallel_links
       in res_bind (calculate_transfer_bytes target_mesh target_placements origin_tensor_bytes) (\<lambda>transfer_bytes.
         let total_transfer_gb = gib transfer_bytes;
             unique_data_gb = gib origin_tensor_bytes;
             replicate_data_gb = total_transfer_gb - unique_data_gb;
             ib_time = (if total_ib_bandwidth > 0 then Fin (unique_data_gb / total_ib_bandwidth) else Inf);
             total_nvlink_bandwidth = real (num_target_nodes * gpus_per_node) * 450;
             nvlink_time = (if total_nvlink_bandwidth > 0 then Fin (replicate_data_gb / total_nvlink_bandwidth) else Fin 0)
         in Inr (case flt_max ib_time nvlink_time of
                   Inf \<Rightarrow> Fin 0
                 | Fin total_time \<Rightarrow> if total_time > 0 then Fin (total_transfer_gb / total_time) else Inf))))"

section \<open>Methods and check\<close>

text \<open>The chunk-based method is bucket communication with a bucket size of one byte.\<close>

definition m2m_buckets :: "chunk list \<Rightarrow> bucket list" where
  "m2m_buckets chunks = chunk_to_bucket_ops chunks 1"

text \<open>
  The check after the transfers compares a target rank's tensor with the baseline's shard;
  \<open>allclose\<close> is a relation on elements.
\<close>

definition verify_against_baseline :: "(nat \<Rightarrow> nat \<Rightarrow> bool) \<Rightarrow> ndarray option \<Rightarrow> ndarray option \<Rightarrow> unit result" where
  "verify_against_baseline close target bc_result =
     (case (target, bc_result) of
        (Some a, Some b) \<Rightarrow>
          if list_all (\<lambda>x. close (nd_at a x) (nd_at b x)) (grid (nd_shape a)) then Inr () else Inl ValueError
      | _ \<Rightarrow> Inr ())"

section \<open>Results\<close>

record bench_row =
  row_num_tensors :: nat
  row_tensor_size_mb :: real
  row_ideal_transfer_mb :: real
  row_ideal_bandwidth :: flt
  row_m2m_throughput :: real
  row_bucket_throughput :: real
  row_baseline_throughput :: real

definition real_div :: "real \<Rightarrow> real \<Rightarrow> real result" where
  "real_div a b = (if b = 0 then Inl ZeroDivisionError else Inr (a / b))"

text \<open>\<open>start_event.elapsed_time(end_event) / 1000.0 / profile_iter\<close>.\<close>

definition iteration_time :: "real \<Rightarrow> nat \<Rightarrow> real result" where
  "iteration_time elapsed_ms profile_iter = real_div (elapsed_ms / 1000) (real profile_iter)"

definition result_row ::
  "device_mesh \<Rightarrow> device_mesh \<Rightarrow> placement list \<Rightarrow> nat \<Rightarrow> nat \<Rightarrow> nat \<Rightarrow> real \<Rightarrow> real \<Rightarrow> real \<Rightarrow> bench_row result" where
  "result_row source_mesh target_mesh target_specs tensor_bytes num_tensors gpus_per_node m2m_time bucket_time baseline_time =
     (let total_tensor_size_bytes = tensor_bytes * num_tensors
      in res_bind (calculate_transfer_bytes target_mesh target_specs total_tensor_size_bytes) (\<lambda>ideal_transfer_bytes.
         res_bind (calculate_ideal_bandwidth source_mesh target_mesh target_specs total_tensor_size_bytes gpus_per_node) (\<lambda>ideal_bw.
         res_bind (real_div (gib ideal_transfer_bytes) m2m_time) (\<lambda>m2m.
         res_bind (real_div (gib ideal_transfer_bytes) bucket_time) (\<lambda>bucket.
         res_bind (real_div (gib ideal_transfer_bytes) (real num_tensors)) (\<lambda>single.
         res_bind (real_div single baseline_time) (\<lambda>baseline.
           Inr \<lparr>row_num_tensors = num_tensors, row_tensor_size_mb = real total_tensor_size_bytes / 1024 ^ 2,
             row_ideal_transfer_mb = real ideal_transfer_bytes / 1024 ^ 2, row_ideal_bandwidth = ideal_bw,
             row_m2m_throughput = m2m, row_bucket_throughput = bucket, row_baseline_throughput = baseline\<rparr>)))))))"

section \<open>The sweep\<close>

definition warmup_iter :: "bool \<Rightarrow> nat" where
  "warmup_iter smoke = (if smoke then 1 else 3)"

definition profile_iter :: "bool \<Rightarrow> nat" where
  "profile_iter smoke = (if smoke then 3 else 20)"

definition tensor_shapes :: "bool \<Rightarrow> (nat \<times> nat) list" where
  "tensor_shapes smoke =
     (if smoke then [(2048, 2048)]
      else [(512, 512), (1024, 1024), (2048, 2048), (4096, 4096), (8192, 8192), (12288, 12288), (16384, 16384), (20480, 20480), (24576, 24576)])"

definition num_tensors_per_batch :: "bool \<Rightarrow> nat" where
  "num_tensors_per_batch smoke = (if smoke then 2 else 25)"

definition mesh_combinations :: "bool \<Rightarrow> (nat list \<times> nat list) list" where
  "mesh_combinations smoke =
     (if smoke then [([1, 2, 1, 2], [1, 1, 2, 2])]
      else [([1, 1, 4, 2], [4, 2, 1, 1]), ([8, 1, 1, 1], [1, 2, 2, 2]), ([1, 2, 4, 1], [8, 1, 1, 1]), ([2, 2, 2, 1], [1, 1, 4, 2]),
            ([2, 4, 1, 1], [1, 2, 4, 1]), ([4, 1, 1, 2], [2, 1, 1, 4]), ([4, 1, 2, 1], [1, 1, 1, 8]), ([4, 2, 1, 1], [1, 1, 2, 4])])"

definition bench_configs :: "(string \<times> placement list) list" where
  "bench_configs =
     [(''no_partial'', [Replicate, Shard 0, Replicate, Shard 1]),
      (''replicate_dp'', [Replicate, Replicate, Replicate, Shard 1]),
      (''partial_dp'', [Replicate, Partial ''sum'', Replicate, Shard 1])]"

text \<open>\<open>torch.arange(first, first + prod(shape)).view(shape)\<close> for the two sides.\<close>

definition sweep_source_mesh :: "nat list \<Rightarrow> device_mesh" where
  "sweep_source_mesh shape = \<lparr>mesh_shape = shape, mesh_ranks = [0..<prod_list shape]\<rparr>"

definition sweep_target_mesh :: "nat list \<Rightarrow> nat list \<Rightarrow> device_mesh" where
  "sweep_target_mesh source_shape target_shape =
     (let source_world_size = prod_list source_shape
      in \<lparr>mesh_shape = target_shape, mesh_ranks = [source_world_size..<source_world_size + prod_list target_shape]\<rparr>)"

text \<open>\<open>wait = profile_freq - (active + warmup)\<close> of \<open>maybe_enable_profiling\<close>, with its assertion.\<close>

definition profiler_wait :: "int \<Rightarrow> int \<Rightarrow> int \<Rightarrow> int result" where
  "profiler_wait profile_freq warmup active =
     (let wait = profile_freq - (active + warmup) in if wait \<ge> 0 then Inr wait else Inl AssertionError)"

section \<open>The calls of one shape\<close>

text \<open>
  \<open>benchmark_single_shape\<close> as the sequence of its calls: the three methods run collectively, so
  every rank has to make the same collective calls in the same order. With no iterations the
  first mean raises.
\<close>

datatype bench_call =
    Barrier | Synchronize | Run_m2m | Run_buckets | Run_baseline | Profiler_step | Snapshot int | Record_start | Record_end | Verify

record profiling_config =
  profile_shapes :: "(nat \<times> nat) list"
  warmup_steps :: int
  active_steps :: int
  profile_freq :: int
  enable_memory_snapshot :: bool

definition sync_if :: "bool \<Rightarrow> bench_call list" where
  "sync_if cuda = (if cuda then [Synchronize] else [])"

text \<open>The profiled iterations of a method; only the first two methods synchronise in each step.\<close>

definition profiled_steps :: "profiling_config \<Rightarrow> bool \<Rightarrow> bool \<Rightarrow> bench_call \<Rightarrow> int \<Rightarrow> bench_call list result" where
  "profiled_steps pc cuda in_step run_call offset =
     res_bind (profiler_wait (profile_freq pc) (warmup_steps pc) (active_steps pc)) (\<lambda>_.
       Inr (concat (map (\<lambda>step.
         (if in_step then sync_if cuda @ [Barrier] else []) @ Profiler_step # replicate 10 run_call @
         (if enable_memory_snapshot pc \<and> step = warmup_steps pc + 1 then [Snapshot (step + offset)] else [])) [0..profile_freq pc - 1])))"

definition profile_method :: "profiling_config option \<Rightarrow> nat \<times> nat \<Rightarrow> bool \<Rightarrow> bool \<Rightarrow> bench_call \<Rightarrow> int \<Rightarrow> bench_call list result" where
  "profile_method config shape cuda in_step run_call offset =
     (case config of
        None \<Rightarrow> Inr []
      | Some pc \<Rightarrow> if shape \<in> set (profile_shapes pc) then profiled_steps pc cuda in_step run_call offset else Inr [])"

definition timed_iterations :: "bool \<Rightarrow> nat \<Rightarrow> bench_call \<Rightarrow> bench_call list" where
  "timed_iterations cuda n run_call = sync_if cuda @ [Barrier, Record_start] @ replicate n run_call @ [Record_end, Synchronize]"

definition single_shape_calls ::
  "bool \<Rightarrow> nat \<Rightarrow> nat \<Rightarrow> profiling_config option \<Rightarrow> nat \<times> nat \<Rightarrow> unit result \<Rightarrow> bench_call list \<times> unit result" where
  "single_shape_calls cuda warmup n config shape verified =
     (let warm = (\<lambda>run_call. Barrier # replicate warmup run_call @ sync_if cuda @ [Barrier]);
          m2m = warm Run_m2m
      in case profile_method config shape cuda True Run_m2m 0 of
           Inl e \<Rightarrow> (m2m, Inl e)
         | Inr p1 \<Rightarrow>
      let timed_m2m = m2m @ p1 @ timed_iterations cuda n Run_m2m; bucket = timed_m2m @ warm Run_buckets
      in if n = 0 then (timed_m2m, Inl ZeroDivisionError)
      else case profile_method config shape cuda True Run_buckets 2000 of
           Inl e \<Rightarrow> (bucket, Inl e)
         | Inr p2 \<Rightarrow>
      let baseline = bucket @ p2 @ timed_iterations cuda n Run_buckets @ Barrier # replicate warmup Run_baseline @ [Verify]
      in case verified of
           Inl e \<Rightarrow> (baseline, Inl e)
         | Inr _ \<Rightarrow>
      let checked = baseline @ sync_if cuda @ [Barrier]
      in case profile_method config shape cuda False Run_baseline 1000 of
           Inl e \<Rightarrow> (checked, Inl e)
         | Inr p3 \<Rightarrow> (checked @ p3 @ timed_iterations cuda n Run_baseline, Inr ()))"

definition collective :: "bench_call \<Rightarrow> bool" where
  "collective c \<longleftrightarrow> c \<in> {Barrier, Run_m2m, Run_buckets, Run_baseline}"

section \<open>Properties\<close>

lemma single_bucket_pass:
  "\<forall>c \<in> set cs. 1 \<le> nbytes c \<Longrightarrow> fold (bucket_step 1) cs (bs, []) = (bs @ map (\<lambda>c. Bucket [c]) cs, [])"
  by (induction cs arbitrary: bs) (auto simp: bucket_step_def make_bucket_def)

text \<open>
  What the benchmark calls the chunk-based method does no coalescing: with a bucket size of
  one byte, every chunk that has data is a bucket of its own, in the order of the chunks.
\<close>

theorem m2m_buckets_single:
  assumes "\<forall>c \<in> set chunks. 1 \<le> nbytes c"
  shows "m2m_buckets chunks = map (\<lambda>c. Bucket [c]) chunks"
  using single_bucket_pass [OF assms, of "[]"] by (simp add: m2m_buckets_def chunk_to_bucket_ops_def flush_buckets_def)

theorem m2m_buckets_single_witness:
  "m2m_buckets [sample_chunk 0 [1] None 4, sample_chunk 0 [1] None 4] = [Bucket [sample_chunk 0 [1] None 4], Bucket [sample_chunk 0 [1] None 4]]"
proof -
  have "1 \<le> nbytes (sample_chunk 0 [1] None 4)" by code_simp
  then show ?thesis using m2m_buckets_single [of "[sample_chunk 0 [1] None 4, sample_chunk 0 [1] None 4]"] by simp
qed

text \<open>
  The check against the baseline is exact for a source without Partial: with an exact comparison
  it accepts a target tensor of the shard's shape precisely when the tensor is, cell by cell, the
  shard that \<open>distribute_tensor\<close> gives of the tensor that was sent. As \<open>main\<close> creates the target
  tensors as just these shards, they pass before anything is transferred.
\<close>

theorem baseline_check_exact:
  assumes "dtensor_ok api spos src (nd_shape t) slocal" "dtensor_ok api tpos tgt (nd_shape t) tlocal"
    and "mesh_ranks (side_mesh src) = [0..<n]" "0 < n" "r \<in> set (mesh_ranks (side_mesh tgt))" "n \<le> r" "nd_shape u = tlocal"
  shows "verify_against_baseline (=) (Some u) (gather_broadcast_comm api src tgt n (nd_shape t) junk (shards_of api src t) r) =
    (if \<forall>x. in_shape tlocal x \<longrightarrow> nd_at u x = nd_at (shards_of api tgt t r) x then Inr () else Inl ValueError)"
proof -
  obtain v where v: "gather_broadcast_comm api src tgt n (nd_shape t) junk (shards_of api src t) r = Some v"
    "\<forall>x. in_shape tlocal x \<longrightarrow> nd_at v x = nd_at (shards_of api tgt t r) x"
    using gather_broadcast_shard [OF assms(1,2) refl assms(3-6)] by blast
  then have "list_all (\<lambda>x. nd_at u x = nd_at v x) (grid (nd_shape u)) \<longleftrightarrow> (\<forall>x. in_shape tlocal x \<longrightarrow> nd_at u x = nd_at (shards_of api tgt t r) x)"
    using assms(7) by (simp add: list_all_iff set_grid)
  then show ?thesis using v(1) by (simp add: verify_against_baseline_def)
qed

lemma count_nodes_ok:
  assumes "0 < gpn" "mesh_ranks m \<noteq> []"
  shows "\<exists>k > 0. count_nodes m gpn = Inr k \<and> k = card ((\<lambda>r. r div gpn) ` set (mesh_ranks m))"
proof -
  have "res_mapM (\<lambda>r. py_div r gpn) (mesh_ranks m) = Inr (map (\<lambda>r. r div gpn) (mesh_ranks m))"
    using assms(1) by (intro res_mapM_Inr) (simp add: py_div_def)
  then show ?thesis using assms(2) by (simp add: count_nodes_def card_gt_0_iff)
qed

text \<open>How often the target holds each element.\<close>

definition copies :: "device_mesh \<Rightarrow> placement list \<Rightarrow> nat" where
  "copies m pl = prod_list (map (\<lambda>(i, p). if p = Replicate then mesh_shape m ! i else 1) (zip [0..<length pl] pl))"

lemma transfer_bytes_copies:
  assumes "length pl \<le> length (mesh_shape m)"
  shows "calculate_transfer_bytes m pl b = Inr (b * copies m pl)"
proof -
  have "\<forall>(i, p) \<in> set (zip [0..<length pl] pl). i < length (mesh_shape m)" using assms by (auto dest!: set_zip_leftD)
  from transfer_bytes_loop_ok [OF this, of b] have "calculate_transfer_bytes m pl b =
      Inr (b * prod_list (map ((!) (mesh_shape m) \<circ> fst) (filter (\<lambda>(i, p). p = Replicate) (zip [0..<length pl] pl))))"
    by (simp add: calculate_transfer_bytes_def)
  moreover have "prod_list (map ((!) sh \<circ> fst) (filter (\<lambda>(i, p). p = Replicate) es)) =
      prod_list (map (\<lambda>(i, p). if p = Replicate then sh ! i else 1) es)" for sh :: "nat list" and es
    by (induction es) auto
  ultimately show ?thesis by (simp add: copies_def)
qed

text \<open>
  The ideal bandwidth is a property of the layout alone: on non-empty meshes, for every
  tensor that has data, it is the number of copies the target holds over the larger of the time
  one copy takes on the network links and the time the other copies take on the NVLink of the
  target nodes, the same for every tensor size, and never above what the links allow.
\<close>

theorem ideal_bandwidth_of_layout:
  assumes "mesh_ranks src \<noteq> []" "mesh_ranks tgt \<noteq> []" "0 < gpn" "length pl \<le> length (mesh_shape tgt)" "0 < copies tgt pl"
    and "links = min (card ((\<lambda>r. r div gpn) ` set (mesh_ranks src))) (card ((\<lambda>r. r div gpn) ` set (mesh_ranks tgt))) * gpn"
    and "target_gpus = card ((\<lambda>r. r div gpn) ` set (mesh_ranks tgt)) * gpn"
    and "bw = real (copies tgt pl) / max (1 / (50 * real links)) ((real (copies tgt pl) - 1) / (real target_gpus * 450))"
  shows "0 < bw \<and> bw \<le> real (copies tgt pl) * 50 * real links \<and>
    (\<forall>b. calculate_ideal_bandwidth src tgt pl b gpn = Inr (if b = 0 then Inf else Fin bw))"
proof -
  obtain ns nt where ns: "0 < ns" "count_nodes src gpn = Inr ns" "ns = card ((\<lambda>r. r div gpn) ` set (mesh_ranks src))"
    and nt: "0 < nt" "count_nodes tgt gpn = Inr nt" "nt = card ((\<lambda>r. r div gpn) ` set (mesh_ranks tgt))"
    using count_nodes_ok [OF assms(3,1)] count_nodes_ok [OF assms(3,2)] by blast
  let ?R = "real (copies tgt pl)" and ?ib = "50 * real links" and ?nv = "real target_gpus * 450"
  have l: "links = min ns nt * gpn" "target_gpus = nt * gpn" using assms(6,7) ns(3) nt(3) by simp_all
  have pos: "0 < ?ib" "0 < ?nv" "1 \<le> ?R" using l ns(1) nt(1) assms(3,5) by simp_all
  let ?t = "max (1 / ?ib) ((?R - 1) / ?nv)"
  have t: "0 < ?t" "1 / ?ib \<le> ?t" using pos by (simp_all add: less_max_iff_disj)
  have "?R / ?t \<le> ?R / (1 / ?ib)" using pos t by (intro divide_left_mono) auto
  then have le: "0 < bw" "bw \<le> ?R * 50 * real links" using assms(8) pos t by (simp_all add: zero_less_divide_iff)
  have "calculate_ideal_bandwidth src tgt pl b gpn = Inr (if b = 0 then Inf else Fin bw)" for b
  proof -
    have g: "gib (b * copies tgt pl) = gib b * ?R" "gib b * ?R - gib b = gib b * (?R - 1)" by (simp_all add: gib_def algebra_simps)
    have m: "max (gib b / ?ib) (gib b * (?R - 1) / ?nv) = gib b * ?t"
      using max_mult_distrib_left [of "gib b" "1 / ?ib" "(?R - 1) / ?nv"] by (simp add: gib_def)
    have "calculate_ideal_bandwidth src tgt pl b gpn = Inr (if 0 < gib b * ?t then Fin (gib b * ?R / (gib b * ?t)) else Inf)"
      unfolding calculate_ideal_bandwidth_def ns(2) nt(2) res_bind.simps transfer_bytes_copies [OF assms(4)] Let_def l [symmetric] g
      using pos(1,2) by (simp only: m flt_max.simps flt.case if_True)
    moreover have "0 < gib b * ?t \<longleftrightarrow> b \<noteq> 0" using t(1) by (simp add: gib_def zero_less_mult_iff)
    moreover have "gib b * ?R / (gib b * ?t) = bw" if "b \<noteq> 0" using that assms(8) by (simp add: gib_def)
    ultimately show ?thesis by simp
  qed
  then show ?thesis using le by blast
qed

theorem ideal_bandwidth_of_layout_witness:
  "calculate_ideal_bandwidth (sweep_source_mesh [2]) (sweep_target_mesh [2] [2]) [Replicate] 4096 2 = Inr (Fin 200)"
proof -
  have m: "mesh_ranks (sweep_source_mesh [2]) = [0, 1]" "mesh_ranks (sweep_target_mesh [2] [2]) = [2, 3]"
    by (simp_all add: sweep_source_mesh_def sweep_target_mesh_def Let_def upt_rec)
  have c: "copies (sweep_target_mesh [2] [2]) [Replicate] = 2" "length (mesh_shape (sweep_target_mesh [2] [2])) = 1" by code_simp+
  show ?thesis
    using ideal_bandwidth_of_layout [OF _ _ _ _ _ refl refl refl, of "sweep_source_mesh [2]" "sweep_target_mesh [2] [2]" 2 "[Replicate]"]
    by (simp add: m c)
qed

text \<open>
  The throughputs of a result row rank the methods as their times per tensor do: the two
  batch methods by the time of the batch, and the baseline, which moves one tensor, by
  \<open>num_tensors\<close> times its own.
\<close>

theorem throughputs_rank_times:
  assumes "result_row src tgt pl tensor_bytes n gpn t_m2m t_bucket t_base = Inr row" "0 < t_m2m" "0 < t_bucket" "0 < t_base" "0 < row_ideal_transfer_mb row"
  shows "(row_m2m_throughput row < row_bucket_throughput row \<longleftrightarrow> t_bucket < t_m2m) \<and>
    (row_m2m_throughput row < row_baseline_throughput row \<longleftrightarrow> real n * t_base < t_m2m) \<and>
    (row_bucket_throughput row < row_baseline_throughput row \<longleftrightarrow> real n * t_base < t_bucket)"
proof -
  obtain k where k: "row_m2m_throughput row = gib k / t_m2m" "row_bucket_throughput row = gib k / t_bucket"
    "row_baseline_throughput row = gib k / real n / t_base" "row_ideal_transfer_mb row = real k / 1024 ^ 2" "0 < n"
    using assms(1) by (auto simp: result_row_def Let_def res_simps real_div_def split: if_splits)
  have "0 < gib k" using k(4) assms(5) by (simp add: gib_def zero_less_divide_iff)
  then have "gib k / a < gib k / b \<longleftrightarrow> b < a" if "0 < a" "0 < b" for a b using that by (simp add: field_simps)
  note c = this
  have "gib k / real n / t_base = gib k / (real n * t_base)" by simp
  then show ?thesis unfolding k(1-3) using c [of t_m2m t_bucket] c [of t_m2m "real n * t_base"] c [of t_bucket "real n * t_base"] assms(2-4) k(5) by simp
qed


text \<open>
  The sweep is well-formed: in every combination the two meshes have four dimensions, the same
  number of GPUs (4, or 8 in the full run) on disjoint consecutive ranks from 0, and every tensor
  shape is cut evenly by every source layout and by the target layout, whose rows are sharded
  over the mesh dimensions 2 and 3. The profiler's settings leave no step to wait.
\<close>

lemma sweep_meshes:
  "\<forall>(s, t) \<in> set (mesh_combinations smoke).
     length s = 4 \<and> length t = 4 \<and> prod_list s = (if smoke then 4 else 8) \<and> prod_list t = prod_list s"
  by (cases smoke) (simp_all add: mesh_combinations_def)

lemma sweep_cuts:
  "\<forall>(s, t) \<in> set (mesh_combinations smoke). \<forall>(config, specs) \<in> set bench_configs.
     ref_count (sweep_source_mesh s) specs 0 dvd 8 \<and> ref_count (sweep_source_mesh s) specs 1 dvd 8 \<and> (t ! 2) * (t ! 3) dvd 8"
proof (cases smoke)
  case True
  then have t: "smoke = True" by simp
  show ?thesis unfolding t by code_simp
next
  case False
  then have f: "smoke = False" by simp
  show ?thesis unfolding f by code_simp
qed

lemma sweep_shapes: "\<forall>(rows, cols) \<in> set (tensor_shapes smoke). 8 dvd rows \<and> 8 dvd cols"
  by (cases smoke) (simp_all add: tensor_shapes_def)

theorem sweep_well_formed:
  "(\<forall>(s, t) \<in> set (mesh_combinations smoke).
     mesh_ok (sweep_source_mesh s) \<and> mesh_ok (sweep_target_mesh s t) \<and>
     mesh_ranks (sweep_source_mesh s) @ mesh_ranks (sweep_target_mesh s t) = [0..<(if smoke then 8 else 16)] \<and>
     (\<forall>(config, specs) \<in> set bench_configs. length specs = length s \<and>
       (\<forall>(rows, cols) \<in> set (tensor_shapes smoke).
          ref_count (sweep_source_mesh s) specs 0 dvd rows \<and> ref_count (sweep_source_mesh s) specs 1 dvd cols \<and> (t ! 2) * (t ! 3) dvd rows))) \<and>
   profiler_wait 5 2 3 = Inr 0"
proof -
  have "length specs = 4" if "(config, specs) \<in> set bench_configs" for config specs using that by (auto simp: bench_configs_def)
  moreover have "mesh_ok (sweep_source_mesh s) \<and> mesh_ok (sweep_target_mesh s t) \<and>
      mesh_ranks (sweep_source_mesh s) @ mesh_ranks (sweep_target_mesh s t) = [0..<(if smoke then 8 else 16)]"
    if "(s, t) \<in> set (mesh_combinations smoke)" for s t
  proof -
    have p: "prod_list s = (if smoke then 4 else 8)" "prod_list t = prod_list s" using that sweep_meshes [of smoke] by auto
    show ?thesis unfolding mesh_ok_def sweep_source_mesh_def sweep_target_mesh_def Let_def using p upt_add_eq_append [of 0 "prod_list s" "prod_list t"] by auto
  qed
  moreover have "profiler_wait 5 2 3 = Inr 0" by (simp add: profiler_wait_def)
  ultimately show ?thesis using sweep_meshes [of smoke] sweep_cuts [of smoke] sweep_shapes [of smoke]
    by (fastforce intro: dvd_trans)
qed


text \<open>
  The ranks stay together as long as the check passes: then every rank makes the same calls. A
  rank whose check fails stops after it, with all it did so far, and the next collective call of
  every other rank is a barrier this rank never joins.
\<close>

theorem failed_check_blocks_others:
  assumes "single_shape_calls cuda warmup n config shape (Inr ()) = (cs, Inr ())" "single_shape_calls cuda warmup n config shape (Inl e) = (cs', r)"
  shows "r = Inl e \<and> last cs' = Verify \<and> (\<exists>rest. cs = cs' @ rest \<and> filter collective rest \<noteq> [] \<and> hd (filter collective rest) = Barrier)"
proof -
  obtain p1 p2 p3 where p: "profile_method config shape cuda True Run_m2m 0 = Inr p1" "profile_method config shape cuda True Run_buckets 2000 = Inr p2"
    "profile_method config shape cuda False Run_baseline 1000 = Inr p3" "n \<noteq> 0"
    using assms(1) by (auto simp: single_shape_calls_def Let_def split: sum.splits if_splits)
  have "cs = cs' @ (sync_if cuda @ Barrier # p3 @ timed_iterations cuda n Run_baseline)" "r = Inl e" "last cs' = Verify"
    using assms by (auto simp: single_shape_calls_def Let_def p)
  then show ?thesis by (auto simp: sync_if_def collective_def)
qed

text \<open>Every method is timed over the same number of runs.\<close>

lemma timed_runs: "run_call \<in> {Run_m2m, Run_buckets, Run_baseline} \<Longrightarrow> length (filter ((=) run_call) (timed_iterations cuda n run_call)) = n"
  by (auto simp: timed_iterations_def sync_if_def)

end
