(* ===== verification/KV_Benchmark.thy ===== *)
theory KV_Benchmark
  imports Complex_Main KV_Store Text_Codec
begin

text \<open>
  The benchmark of the two stores (\<^verbatim>\<open>bench/kvstore_benchmark.py\<close>): its workloads on the stores'
  operations, the summary of the measured times, the runs on both backends and the comparison of
  their results. The measured times are an input, real numbers in place of floats; tables and
  progress messages are not modelled. The contract the workloads rely on is the locale
  \<open>benchmarked_store\<close>, which both stores satisfy.
\<close>

section \<open>Results\<close>

record benchmark_result =
  br_name :: string
  br_operation :: string
  br_count :: nat
  br_total_time_ms :: real
  br_avg_time_us :: real
  br_std_time_us :: real
  br_ops_per_sec :: real

text \<open>\<open>statistics.mean\<close> raises \<open>StatisticsError\<close>, a \<open>ValueError\<close>, on no data.\<close>

definition mean :: "real list \<Rightarrow> real result" where
  "mean xs = (if xs = [] then Inl ValueError else Inr (sum_list xs / real (length xs)))"

definition stdev :: "real list \<Rightarrow> real" where
  "stdev xs = (let m = sum_list xs / real (length xs)
               in sqrt ((\<Sum>x \<leftarrow> xs. (x - m)\<^sup>2) / (real (length xs) - 1)))"

definition float_div :: "real \<Rightarrow> real \<Rightarrow> real result" where
  "float_div a b = (if b = 0 then Inl ZeroDivisionError else Inr (a / b))"

text \<open>The end every workload shares, after its loop has collected \<open>times\<close>.\<close>

definition summarize :: "string \<Rightarrow> string \<Rightarrow> nat \<Rightarrow> real list \<Rightarrow> benchmark_result result" where
  "summarize name operation cnt ts =
     (let total_ms = sum_list ts / 1000
      in res_bind (mean ts) (\<lambda>avg.
         res_bind (float_div (real cnt) (total_ms / 1000)) (\<lambda>ops.
           Inr \<lparr>br_name = name, br_operation = operation, br_count = cnt, br_total_time_ms = total_ms, br_avg_time_us = avg,
             br_std_time_us = (if 1 < length ts then stdev ts else 0), br_ops_per_sec = ops\<rparr>)))"

text \<open>\<open>elapsed * 1e6\<close> for the \<open>i\<close>-th measured call.\<close>

definition measured :: "(nat \<Rightarrow> real) \<Rightarrow> nat \<Rightarrow> real list" where
  "measured elapsed n = map (\<lambda>i. elapsed i * 10 ^ 6) [0..<n]"

section \<open>Stores\<close>

text \<open>
  The methods the workloads call on \<open>store\<close>, with the default component. A wait of
  \<open>wait_for_key\<close> runs against a write of another thread: \<open>so_wait write n deadline\<close> has it land
  after the waiter's \<open>n\<close>-th look, and the timeout pass after look number \<open>deadline\<close>.
\<close>

record 's store_ops =
  so_name :: string
  so_set :: "string \<Rightarrow> string \<Rightarrow> 's \<Rightarrow> 's"
  so_get :: "string \<Rightarrow> 's \<Rightarrow> string option"
  so_exists :: "string \<Rightarrow> 's \<Rightarrow> bool"
  so_set_bytes :: "string \<Rightarrow> string \<Rightarrow> 's \<Rightarrow> 's"
  so_get_bytes :: "string \<Rightarrow> 's \<Rightarrow> string option result"
  so_wait :: "(string \<times> string) option \<Rightarrow> nat \<Rightarrow> nat \<Rightarrow> string \<Rightarrow> 's \<Rightarrow> string result"

text \<open>The TCP store polls; the last round given is the one after which the timeout has passed.\<close>

definition tcp_wait_race :: "(string \<times> string) option \<Rightarrow> nat \<Rightarrow> nat \<Rightarrow> string \<Rightarrow> tcp_store \<Rightarrow> string result" where
  "tcp_wait_race write n deadline key s =
     (let after = (case write of None \<Rightarrow> s | Some (k, v) \<Rightarrow> tcp_set k v None s)
      in case tcp_wait_for_key key None s (map (\<lambda>i. (tcp_data (if i < n then s else after), i = deadline)) [0..<Suc deadline]) of
           Some r \<Rightarrow> r
         | None \<Rightarrow> Inl TimeoutError)"

text \<open>
  The etcd store watches and then looks once: the write lands before the watch (\<open>n = 0\<close>), between
  watch and look (\<open>n = 1\<close>), or at moment \<open>n\<close> after them.
\<close>

definition etcd_wait_race :: "(string \<times> string) option \<Rightarrow> nat \<Rightarrow> nat \<Rightarrow> string \<Rightarrow> etcd_store \<Rightarrow> string result" where
  "etcd_wait_race write n deadline key s =
     (let puts = (case write of None \<Rightarrow> [] | Some (k, v) \<Rightarrow> [(etcd_prefixed s k None, v)])
      in etcd_wait_for_key key None deadline
           \<lparr>tr_before = (if n = 0 then puts else []), tr_between = (if n = 1 then puts else []),
            tr_later = (if 1 < n then map (Pair n) puts else [])\<rparr> s)"

text \<open>Nobody else writes.\<close>

definition quiet_traffic :: traffic where
  "quiet_traffic = \<lparr>tr_before = [], tr_between = [], tr_later = []\<rparr>"

definition tcp_ops :: "tcp_store store_ops" where
  "tcp_ops = \<lparr>so_name = ''TorchTCPStore'', so_set = (\<lambda>k v. tcp_set k v None), so_get = (\<lambda>k. tcp_get k None),
     so_exists = (\<lambda>k. tcp_exists k None), so_set_bytes = (\<lambda>k d. tcp_set_bytes k d None), so_get_bytes = (\<lambda>k. tcp_get_bytes k None),
     so_wait = tcp_wait_race\<rparr>"

definition etcd_ops :: "etcd_store store_ops" where
  "etcd_ops = \<lparr>so_name = ''EtcdStore'', so_set = (\<lambda>k v. etcd_set k v None), so_get = (\<lambda>k. etcd_get k None),
     so_exists = (\<lambda>k. etcd_exists k None), so_set_bytes = (\<lambda>k d. etcd_set_bytes k d None),
     so_get_bytes = (\<lambda>k s. Inr (etcd_get_bytes k None s)), so_wait = etcd_wait_race\<rparr>"

section \<open>Workloads\<close>

definition bench_key :: "string \<Rightarrow> nat \<Rightarrow> string" where
  "bench_key key_prefix i = key_prefix @ ''/key:'' @ show_nat i"

definition bench_value :: "nat \<Rightarrow> string" where
  "bench_value i = ''value_'' @ show_nat i"

definition bench_data :: "nat \<Rightarrow> string" where
  "bench_data data_size = replicate data_size (CHR ''x'')"

text \<open>The loop of \<open>store.set\<close> calls, measured in \<open>benchmark_set\<close> and preparing the others.\<close>

definition fill :: "'s store_ops \<Rightarrow> nat \<Rightarrow> string \<Rightarrow> 's \<Rightarrow> 's" where
  "fill store num_ops key_prefix s = fold (\<lambda>i. so_set store (bench_key key_prefix i) (bench_value i)) [0..<num_ops] s"

definition fill_bytes :: "'s store_ops \<Rightarrow> nat \<Rightarrow> string \<Rightarrow> nat \<Rightarrow> 's \<Rightarrow> 's" where
  "fill_bytes store num_ops key_prefix data_size s =
     fold (\<lambda>i. so_set_bytes store (bench_key key_prefix i) (bench_data data_size)) [0..<num_ops] s"

text \<open>
  A workload returns what its measured calls answered (which the code drops), its result or the
  exception that ends it, and the store.
\<close>

type_synonym ('a, 's) workload = "'a \<times> benchmark_result result \<times> 's"

definition benchmark_set :: "'s store_ops \<Rightarrow> nat \<Rightarrow> string \<Rightarrow> (nat \<Rightarrow> real) \<Rightarrow> 's \<Rightarrow> (unit, 's) workload" where
  "benchmark_set store num_ops key_prefix elapsed s =
     ((), summarize (so_name store) ''set'' num_ops (measured elapsed num_ops), fill store num_ops key_prefix s)"

definition benchmark_get :: "'s store_ops \<Rightarrow> nat \<Rightarrow> string \<Rightarrow> (nat \<Rightarrow> real) \<Rightarrow> 's \<Rightarrow> (string option list, 's) workload" where
  "benchmark_get store num_ops key_prefix elapsed s =
     (let s' = fill store num_ops key_prefix s
      in (map (\<lambda>i. so_get store (bench_key key_prefix i) s') [0..<num_ops],
          summarize (so_name store) ''get'' num_ops (measured elapsed num_ops), s'))"

definition benchmark_exists :: "'s store_ops \<Rightarrow> nat \<Rightarrow> string \<Rightarrow> (nat \<Rightarrow> real) \<Rightarrow> 's \<Rightarrow> (bool list, 's) workload" where
  "benchmark_exists store num_ops key_prefix elapsed s =
     (let s' = fill store num_ops key_prefix s
      in (map (\<lambda>i. so_exists store (bench_key key_prefix i) s') [0..<num_ops],
          summarize (so_name store) ''exists'' num_ops (measured elapsed num_ops), s'))"

definition benchmark_set_bytes :: "'s store_ops \<Rightarrow> nat \<Rightarrow> string \<Rightarrow> nat \<Rightarrow> (nat \<Rightarrow> real) \<Rightarrow> 's \<Rightarrow> (unit, 's) workload" where
  "benchmark_set_bytes store num_ops key_prefix data_size elapsed s =
     ((), summarize (so_name store) (''set_bytes('' @ show_nat data_size @ ''B)'') num_ops (measured elapsed num_ops),
      fill_bytes store num_ops key_prefix data_size s)"

definition benchmark_get_bytes ::
  "'s store_ops \<Rightarrow> nat \<Rightarrow> string \<Rightarrow> nat \<Rightarrow> (nat \<Rightarrow> real) \<Rightarrow> 's \<Rightarrow> (string option list result, 's) workload" where
  "benchmark_get_bytes store num_ops key_prefix data_size elapsed s =
     (let s' = fill_bytes store num_ops key_prefix data_size s;
          answers = res_mapM (\<lambda>i. so_get_bytes store (bench_key key_prefix i) s') [0..<num_ops]
      in (answers,
          res_bind answers (\<lambda>_. summarize (so_name store) (''get_bytes('' @ show_nat data_size @ ''B)'') num_ops (measured elapsed num_ops)), s'))"

definition benchmark_wait_for_key_existing ::
  "'s store_ops \<Rightarrow> (nat \<Rightarrow> nat \<times> nat) \<Rightarrow> nat \<Rightarrow> string \<Rightarrow> (nat \<Rightarrow> real) \<Rightarrow> 's \<Rightarrow> (string list result, 's) workload" where
  "benchmark_wait_for_key_existing store race num_ops key_prefix elapsed s =
     (let s' = fill store num_ops key_prefix s;
          answers = res_mapM (\<lambda>i. so_wait store None (fst (race i)) (snd (race i)) (bench_key key_prefix i) s') [0..<num_ops]
      in (answers,
          res_bind answers (\<lambda>_. summarize (so_name store) ''wait_for_key(existing)'' num_ops (measured elapsed num_ops)), s'))"

text \<open>
  Each iteration starts a thread that writes its key after a delay, waits for the key, and joins
  the thread (when the wait raises, the thread is not joined, but it writes all the same).
\<close>

fun wait_async_loop ::
  "'s store_ops \<Rightarrow> (nat \<Rightarrow> nat \<times> nat) \<Rightarrow> string \<Rightarrow> nat list \<Rightarrow> 's \<Rightarrow> string list result \<times> 's" where
  "wait_async_loop store race key_prefix [] s = (Inr [], s)"
| "wait_async_loop store race key_prefix (i # js) s =
     (let key = key_prefix @ ''/async:'' @ show_nat i;
          s' = so_set store key ''async_value'' s
      in case so_wait store (Some (key, ''async_value'')) (fst (race i)) (snd (race i)) key s of
           Inl e \<Rightarrow> (Inl e, s')
         | Inr r \<Rightarrow> (let (rs, s'') = wait_async_loop store race key_prefix js s' in (res_bind rs (\<lambda>rs. Inr (r # rs)), s'')))"

definition benchmark_wait_for_key_async ::
  "'s store_ops \<Rightarrow> (nat \<Rightarrow> nat \<times> nat) \<Rightarrow> nat \<Rightarrow> string \<Rightarrow> nat \<Rightarrow> (nat \<Rightarrow> real) \<Rightarrow> 's \<Rightarrow> (string list result, 's) workload" where
  "benchmark_wait_for_key_async store race num_ops key_prefix delay_ms elapsed s =
     (let (answers, s') = wait_async_loop store race key_prefix [0..<num_ops] s
      in (answers,
          res_bind answers (\<lambda>_. summarize (so_name store) (''wait_for_key(async,'' @ show_nat delay_ms @ ''ms)'') num_ops (measured elapsed num_ops)), s'))"

definition ready_key :: "string \<Rightarrow> nat \<Rightarrow> string" where
  "ready_key key_prefix i = key_prefix @ ''/rank:'' @ show_nat i @ ''/ready''"

text \<open>The keys are there before the ten waits, which leave the store as it is.\<close>

definition benchmark_wait_for_keys_etcd ::
  "nat \<Rightarrow> string \<Rightarrow> (nat \<Rightarrow> real) \<Rightarrow> etcd_store \<Rightarrow> (string list list result, etcd_store) workload" where
  "benchmark_wait_for_keys_etcd num_keys key_prefix elapsed s =
     (let s' = fold (\<lambda>i. etcd_set (ready_key key_prefix i) ''1'' None) [0..<num_keys] s;
          num_iterations = 10;
          answers = res_mapM (\<lambda>_. etcd_wait_for_keys (key_prefix @ ''/rank:*/ready'') num_keys ''1'' None 10 quiet_traffic s') [0..<num_iterations]
      in (answers,
          res_bind answers (\<lambda>_. summarize ''EtcdStore'' (''wait_for_keys('' @ show_nat num_keys @ '')'') num_iterations (measured elapsed num_iterations)), s'))"

definition benchmark_wait_for_keys_tcp ::
  "nat \<Rightarrow> string \<Rightarrow> (nat \<Rightarrow> real) \<Rightarrow> tcp_store \<Rightarrow> (string list list result, tcp_store) workload" where
  "benchmark_wait_for_keys_tcp num_keys key_prefix elapsed s =
     (let candidate_keys = map (ready_key key_prefix) [0..<num_keys];
          s' = fold (\<lambda>key. tcp_set key ''1'' None) candidate_keys s;
          num_iterations = 10;
          answers = res_mapM (\<lambda>_. case tcp_wait_for_keys (key_prefix @ ''/rank:*/ready'') num_keys ''1'' (Some candidate_keys) None s'
                                         [(tcp_data s', False), (tcp_data s', True)] of
                                      Some r \<Rightarrow> r | None \<Rightarrow> Inl TimeoutError) [0..<num_iterations]
      in (answers,
          res_bind answers (\<lambda>_. summarize ''TorchTCPStore'' (''wait_for_keys('' @ show_nat num_keys @ '')'') num_iterations (measured elapsed num_iterations)), s'))"

section \<open>The runs\<close>

text \<open>A run stops at the first workload that raises.\<close>

fun run_workloads :: "('s \<Rightarrow> benchmark_result result \<times> 's) list \<Rightarrow> 's \<Rightarrow> benchmark_result list result \<times> 's" where
  "run_workloads [] s = (Inr [], s)"
| "run_workloads (w # ws) s =
     (case w s of
        (Inl e, s') \<Rightarrow> (Inl e, s')
      | (Inr r, s') \<Rightarrow> (let (rs, s'') = run_workloads ws s' in (res_bind rs (\<lambda>rs. Inr (r # rs)), s'')))"

text \<open>
  The outside of a run: \<open>bw_elapsed b i\<close> is the time of the \<open>i\<close>-th measured call of the \<open>b\<close>-th
  workload, \<open>bw_race\<close> the races of the asynchronous one, \<open>bw_now\<close> the text of \<open>time.time()\<close>.
\<close>

record bench_world =
  bw_elapsed :: "nat \<Rightarrow> nat \<Rightarrow> real"
  bw_race :: "nat \<Rightarrow> nat \<times> nat"
  bw_now :: string

definition store_workloads ::
  "'s store_ops \<Rightarrow> (nat \<Rightarrow> string \<Rightarrow> (nat \<Rightarrow> real) \<Rightarrow> 's \<Rightarrow> (string list list result, 's) workload) \<Rightarrow> string \<Rightarrow> nat \<Rightarrow> bench_world \<Rightarrow>
   ('s \<Rightarrow> benchmark_result result \<times> 's) list" where
  "store_workloads store wait_for_keys prefix num_ops w =
     [\<lambda>s. snd (benchmark_set store num_ops (prefix @ ''/set'') (bw_elapsed w 0) s),
      \<lambda>s. snd (benchmark_get store num_ops (prefix @ ''/get'') (bw_elapsed w 1) s),
      \<lambda>s. snd (benchmark_exists store num_ops (prefix @ ''/exists'') (bw_elapsed w 2) s)] @
     map (\<lambda>(b, data_size) s. snd (benchmark_set_bytes store num_ops (prefix @ ''/set_bytes/'' @ show_nat data_size) data_size (bw_elapsed w b) s))
       [(3, 64), (4, 1024), (5, 4096)] @
     map (\<lambda>(b, data_size) s. snd (benchmark_get_bytes store num_ops (prefix @ ''/get_bytes/'' @ show_nat data_size) data_size (bw_elapsed w b) s))
       [(6, 64), (7, 1024), (8, 4096)] @
     [\<lambda>s. snd (benchmark_wait_for_key_existing store (bw_race w) num_ops (prefix @ ''/wait_key'') (bw_elapsed w 9) s),
      \<lambda>s. snd (benchmark_wait_for_key_async store (bw_race w) (min num_ops 50) (prefix @ ''/wait_key_async'') 10 (bw_elapsed w 10) s)] @
     map (\<lambda>(b, num_keys) s. snd (wait_for_keys num_keys (prefix @ ''/wait/'' @ show_nat num_keys) (bw_elapsed w b) s))
       [(11, 8), (12, 16), (13, 32), (14, 64)]"

text \<open>
  \<open>EtcdStore(host, port)\<close> has the namespace \<open>default\<close>, the component \<open>tensorbus\<close> and no clean-up
  on opening, \<open>store.close()\<close> has clean-up on; on an exception the store is not closed.
\<close>

definition run_etcd_benchmark :: "nat \<Rightarrow> bench_world \<Rightarrow> (string, string) dict \<Rightarrow> benchmark_result list result \<times> (string, string) dict" where
  "run_etcd_benchmark num_ops w data =
     (let store = etcd_open False ''default'' ''tensorbus'' data;
          prefix = ''bench/etcd/'' @ bw_now w
      in case run_workloads (store_workloads etcd_ops benchmark_wait_for_keys_etcd prefix num_ops w) store of
           (Inl e, s) \<Rightarrow> (Inl e, etcd_data s)
         | (Inr results, s) \<Rightarrow> (Inr results, etcd_data (etcd_close True s)))"

text \<open>The TCP store is a server of its own and starts empty; closing it changes nothing.\<close>

definition run_tcp_benchmark :: "nat \<Rightarrow> bench_world \<Rightarrow> benchmark_result list result" where
  "run_tcp_benchmark num_ops w =
     (let store = \<lparr>kv_namespace = ''default'', kv_component = ''tensorbus'', tcp_data = [], tcp_known_keys = []\<rparr>;
          prefix = ''bench/tcp/'' @ bw_now w
      in fst (run_workloads (store_workloads tcp_ops benchmark_wait_for_keys_tcp prefix num_ops w) store))"

text \<open>
  A row of the comparison: the operation, the store called faster, and the printed percentage
  (\<open>None\<close> for infinity).
\<close>

definition compare_averages :: "real \<Rightarrow> real \<Rightarrow> string \<times> real option" where
  "compare_averages etcd_avg tcp_avg =
     (let ratio = (if etcd_avg > 0 then Some (tcp_avg / etcd_avg) else None);
          faster = (if etcd_avg < tcp_avg then ''etcd'' else ''TCPStore'')
      in (faster, map_option (\<lambda>r. \<bar>r - 1\<bar> * 100) ratio))"

definition by_operation :: "string \<Rightarrow> benchmark_result list \<Rightarrow> (string, benchmark_result) dict" where
  "by_operation name all_results =
     fold (\<lambda>r d. dict_set d (br_operation r) r) (filter (\<lambda>r. br_name r = name) all_results) []"

definition print_comparison :: "benchmark_result list \<Rightarrow> (string \<times> string \<times> real option) list" where
  "print_comparison all_results =
     (let etcd_results = by_operation ''EtcdStore'' all_results; tcp_results = by_operation ''TorchTCPStore'' all_results
      in if etcd_results = [] \<or> tcp_results = [] then []
         else List.map_filter (\<lambda>(op, e). map_option (\<lambda>t. (op, compare_averages (br_avg_time_us e) (br_avg_time_us t))) (dict_get tcp_results op)) etcd_results)"

text \<open>An exception of one backend leaves that backend's results out.\<close>

datatype bench_backend = Both | Only_etcd | Only_tcp

definition kv_bench_main ::
  "bench_backend \<Rightarrow> nat \<Rightarrow> bench_world \<Rightarrow> bench_world \<Rightarrow> (string, string) dict \<Rightarrow> benchmark_result list \<times> (string \<times> string \<times> real option) list" where
  "kv_bench_main backend num_ops w_etcd w_tcp data =
     (let extend = (\<lambda>r. case r of Inl e \<Rightarrow> [] | Inr results \<Rightarrow> results);
          etcd = (if backend = Only_tcp then [] else extend (fst (run_etcd_benchmark num_ops w_etcd data)));
          tcp = (if backend = Only_etcd then [] else extend (run_tcp_benchmark num_ops w_tcp));
          all_results = etcd @ tcp
      in (all_results, if all_results = [] then [] else print_comparison all_results))"


section \<open>What the workloads measure\<close>

text \<open>The contract of a store the workloads rely on.\<close>

locale benchmarked_store =
  fixes store :: "'s store_ops"
  assumes get_after_set: "so_get store k (so_set store k' v s) = (if k = k' then Some v else so_get store k s)"
    and exists_iff_get: "so_exists store k s \<longleftrightarrow> so_get store k s \<noteq> None"
    and get_after_set_bytes: "so_get_bytes store k (so_set_bytes store k' d s) = (if k = k' then Inr (Some d) else so_get_bytes store k s)"
    and wait_present: "so_get store k s = Some v \<Longrightarrow> v \<noteq> [] \<Longrightarrow> so_wait store None n deadline k s = Inr v"
    and wait_written: "n \<le> deadline \<Longrightarrow> v \<noteq> [] \<Longrightarrow> \<exists>r. so_wait store (Some (k, v)) n deadline k s = Inr r"
begin

lemma fill_get: "i < n \<Longrightarrow> so_get store (bench_key p i) (fill store n p s) = Some (bench_value i)"
  by (induction n) (auto simp: fill_def get_after_set bench_key_def show_nat_inj less_Suc_eq)

lemma fill_bytes_get: "i < n \<Longrightarrow> so_get_bytes store (bench_key p i) (fill_bytes store n p d s) = Inr (Some (bench_data d))"
  by (induction n) (auto simp: fill_bytes_def get_after_set_bytes bench_key_def less_Suc_eq)

lemma get_hits: "fst (benchmark_get store n p el s) = map (\<lambda>i. Some (bench_value i)) [0..<n]"
  by (simp add: benchmark_get_def Let_def fill_get)

lemma exists_hits: "fst (benchmark_exists store n p el s) = replicate n True"
  by (rule nth_equalityI) (simp_all add: benchmark_exists_def Let_def exists_iff_get fill_get)

lemma get_bytes_hits: "fst (benchmark_get_bytes store n p d el s) = Inr (replicate n (Some (bench_data d)))"
proof -
  have "res_mapM (\<lambda>i. so_get_bytes store (bench_key p i) (fill_bytes store n p d s)) [0..<n] = Inr (map (\<lambda>_. Some (bench_data d)) [0..<n])"
    by (rule res_mapM_Inr) (simp add: fill_bytes_get)
  then show ?thesis by (simp add: benchmark_get_bytes_def Let_def map_replicate_const)
qed

lemma wait_existing_hits: "fst (benchmark_wait_for_key_existing store race n p el s) = Inr (map bench_value [0..<n])"
proof -
  have "res_mapM (\<lambda>i. so_wait store None (fst (race i)) (snd (race i)) (bench_key p i) (fill store n p s)) [0..<n] = Inr (map bench_value [0..<n])"
    by (rule res_mapM_Inr) (simp add: wait_present fill_get bench_value_def)
  then show ?thesis by (simp add: benchmark_wait_for_key_existing_def Let_def)
qed

lemma wait_async_answers:
  "\<forall>i \<in> set js. fst (race i) \<le> snd (race i) \<Longrightarrow>
     \<exists>rs s'. wait_async_loop store race p js s = (Inr rs, s') \<and> length rs = length js"
proof (induction js arbitrary: s)
  case (Cons i js)
  let ?k = "p @ ''/async:'' @ show_nat i" and ?v = "''async_value''"
  obtain r where "so_wait store (Some (?k, ?v)) (fst (race i)) (snd (race i)) ?k s = Inr r"
    using wait_written [of "fst (race i)" "snd (race i)" ?v ?k s] Cons.prems by auto
  moreover obtain rs s' where "wait_async_loop store race p js (so_set store ?k ?v s) = (Inr rs, s')" "length rs = length js"
    using Cons.IH [of "so_set store ?k ?v s"] Cons.prems by auto
  ultimately show ?case by (simp add: Let_def)
qed simp

end

lemma own_key [simp]: "prefixed c k None = prefixed c k' None \<longleftrightarrow> k = k'"
  by (simp add: prefixed_eq)

lemma tcp_race_hit:
  assumes "i \<le> deadline" "dict_get (tcp_data (if i < n then s else after)) (tcp_prefixed s k None) = Some v" "v \<noteq> []"
  shows "\<exists>r. tcp_wait_for_key k None s (map (\<lambda>i. (tcp_data (if i < n then s else after), i = deadline)) [0..<Suc deadline]) = Some (Inr r)"
  unfolding tcp_wait_for_key_def
proof (rule poll_until_found)
  show "i < length (map (\<lambda>i. (tcp_data (if i < n then s else after), i = deadline)) [0..<Suc deadline])" using assms(1) by simp
qed (use assms in \<open>auto simp del: upt_Suc\<close>)

lemma dict_get_tcp_set: "dict_get (tcp_data (tcp_set k v None s)) (tcp_prefixed s k None) = Some v"
  by (simp add: tcp_set_def dict_simps)

interpretation bench_tcp: benchmarked_store tcp_ops
proof
  fix k v :: string and n deadline :: nat and s :: tcp_store
  assume "so_get tcp_ops k s = Some v" "v \<noteq> []"
  then show "so_wait tcp_ops None n deadline k s = Inr v"
    by (simp add: tcp_ops_def tcp_wait_race_def tcp_wait_for_key_def tcp_defs Let_def upt_conv_Cons del: upt_Suc split: if_splits)
next
  fix n deadline :: nat and k v :: string and s :: tcp_store
  assume "n \<le> deadline" "v \<noteq> []"
  then show "\<exists>r. so_wait tcp_ops (Some (k, v)) n deadline k s = Inr r"
    using tcp_race_hit [of n deadline n s "tcp_set k v None s" k v] by (fastforce simp: tcp_ops_def tcp_wait_race_def dict_get_tcp_set simp del: upt_Suc)
qed (auto simp: tcp_ops_def tcp_defs Let_def dict_simps b64_roundtrip)

lemma etcd_race_hit:
  assumes "n \<le> deadline"
  shows "\<exists>r. etcd_wait_race (Some (k, v)) n deadline k s = Inr r"
proof -
  let ?e = "(etcd_prefixed s k None, v)"
  let ?tr = "\<lparr>tr_before = (if n = 0 then [?e] else []), tr_between = (if n = 1 then [?e] else []), tr_later = (if 1 < n then [(n, ?e)] else [])\<rparr>"
  have "?e \<in> set (tr_before ?tr @ tr_between ?tr @ in_time deadline ?tr)" using assms by (auto simp: in_time_def)
  then have "etcd_wait_for_key k None deadline ?tr s \<noteq> Inl e" for e
    using etcd_wait_for_key_iff(1) [of k None deadline ?tr s e] by blast
  moreover have "etcd_wait_race (Some (k, v)) n deadline k s = etcd_wait_for_key k None deadline ?tr s" by (simp add: etcd_wait_race_def)
  ultimately show ?thesis by (metis sum.exhaust)
qed

lemma etcd_quiet_hit:
  assumes "etcd_get k None s = Some v"
  shows "etcd_wait_race None n deadline k s = Inr v"
proof -
  let ?tr = "\<lparr>tr_before = [], tr_between = [], tr_later = []\<rparr>"
  obtain r where "etcd_wait_for_key k None deadline ?tr s = Inr r"
    using etcd_wait_for_key_iff(1) [of k None deadline ?tr s] assms by (cases "etcd_wait_for_key k None deadline ?tr s") auto
  then show ?thesis using etcd_wait_for_key_iff(2) [of k None deadline ?tr s r] assms by (simp add: etcd_wait_race_def in_time_def)
qed

interpretation bench_etcd: benchmarked_store etcd_ops
proof
  fix n deadline :: nat and k v :: string and s :: etcd_store
  assume "n \<le> deadline" "v \<noteq> []"
  then show "\<exists>r. so_wait etcd_ops (Some (k, v)) n deadline k s = Inr r" by (simp add: etcd_ops_def etcd_race_hit)
qed (auto simp: etcd_ops_def etcd_quiet_hit etcd_defs Let_def dict_simps)

subsection \<open>Waiting for several keys\<close>

lemma fnmatch_common: "fnmatch s p \<Longrightarrow> fnmatch (a @ s) (a @ p)"
proof (induction a)
  case (Cons c a)
  have "fnmatch (a @ s) (CHR ''*'' # a @ p)" if "fnmatch (a @ s) (a @ p)" using that by (cases "a @ s") auto
  then show ?case using Cons by auto
qed simp

lemma fnmatch_star: "fnmatch b p \<Longrightarrow> fnmatch (a @ b) (CHR ''*'' # p)"
proof (induction a)
  case Nil
  then show ?case by (cases b) auto
qed auto

lemma ready_key_matches: "fnmatch (a @ ready_key p i) (a @ p @ ''/rank:*/ready'')"
proof -
  have "fnmatch ''/ready'' ''/ready''" by simp
  from fnmatch_common [OF fnmatch_star [OF this, of "show_nat i"], of "a @ p @ ''/rank:''"] show ?thesis by (simp add: ready_key_def)
qed

lemma ready_key_inj: "ready_key p i = ready_key p j \<longleftrightarrow> i = j"
  by (simp add: ready_key_def show_nat_inj)

lemma has_prefix_append: "has_prefix (literal_prefix (a @ CHR ''*'' # b)) (a @ c)"
proof -
  have "\<exists>d. a = takeWhile (\<lambda>c. c \<noteq> CHR ''*'') (a @ CHR ''*'' # b) @ d" by (induction a) auto
  then obtain d where "a = literal_prefix (a @ CHR ''*'' # b) @ d" unfolding literal_prefix_def ..
  then show ?thesis unfolding has_prefix_def by (metis append.assoc append_eq_conv_conj)
qed

lemma fold_insert_matches:
  "set (fold (\<lambda>(k, v) m. if P k v then List.insert k m else m) es m) = set m \<union> {k. \<exists>v. (k, v) \<in> set es \<and> P k v}"
  "distinct m \<Longrightarrow> distinct (fold (\<lambda>(k, v) m. if P k v then List.insert k m else m) es m)"
proof (induction es arbitrary: m)
  case (Cons e es)
  obtain k v where e: "e = (k, v)" by (cases e)
  { case 1 show ?case using Cons.IH(1) by (cases "P k v") (auto simp: e) }
  { case 2 then show ?case using Cons.IH(2) by (simp add: e) }
qed simp_all

lemma etcd_wait_for_keys_there:
  assumes "\<forall>i < n. etcd_get (ready_key p i) None s = Some ''1''"
  shows "\<exists>ks. etcd_wait_for_keys (p @ ''/rank:*/ready'') n ''1'' None 10 quiet_traffic s = Inr ks \<and> length ks = n"
proof -
  let ?pat = "etcd_prefixed s (p @ ''/rank:*/ready'') None" and ?key = "\<lambda>i. etcd_prefixed s (ready_key p i) None"
  let ?P = "\<lambda>k v. v = ''1'' \<and> fnmatch k ?pat"
  let ?es = "filter (\<lambda>(k, _). has_prefix (literal_prefix ?pat) k) (etcd_data s)"
  let ?m = "fold (\<lambda>(k, v) m. if ?P k v then List.insert k m else m) ?es []"
  have "?key i \<in> set ?m" if "i < n" for i
  proof -
    have "(?key i, ''1'') \<in> set (etcd_data s)" using assms that by (auto simp: etcd_get_def dest: map_of_SomeD)
    moreover have "fnmatch (?key i) ?pat" using ready_key_matches [of "etcd_prefixed s [] None" p i] by (simp add: prefixed_eq)
    moreover have "has_prefix (literal_prefix ?pat) (?key i)"
      using has_prefix_append [of "etcd_prefixed s p None @ ''/rank:''" "''/ready''" "show_nat i @ ''/ready''"]
      by (simp add: prefixed_eq ready_key_def)
    ultimately show ?thesis using fold_insert_matches(1) [of ?P ?es "[]"] by simp
  qed
  then have "?key ` {..<n} \<subseteq> set ?m" by blast
  then have "card (?key ` {..<n}) \<le> card (set ?m)" by (rule card_mono [rotated]) simp
  moreover have "card (?key ` {..<n}) = n" by (subst card_image) (auto simp: inj_on_def ready_key_inj)
  moreover have "distinct ?m" using fold_insert_matches(2) [of "[]" ?P ?es] by simp
  ultimately have "n \<le> length ?m" by (simp add: distinct_card)
  then show ?thesis
    by (simp add: etcd_wait_for_keys_def Let_def wait_with_watch_def srv_puts srv_watch_def quiet_traffic_def put_all_def enough_matched_def)
qed

lemma tcp_wait_for_keys_there:
  assumes "\<forall>i < n. tcp_get (ready_key p i) None s = Some ''1''"
  shows "\<exists>ks. tcp_wait_for_keys (p @ ''/rank:*/ready'') n ''1'' (Some (map (ready_key p) [0..<n])) None s
      [(tcp_data s, False), (tcp_data s, True)] = Some (Inr ks) \<and> length ks = n"
proof -
  let ?cs = "filter (\<lambda>k. fnmatch k (p @ ''/rank:*/ready'')) (map (ready_key p) [0..<n])"
  have cs: "?cs = map (ready_key p) [0..<n]" using ready_key_matches [of "[]" p] by simp
  have "{k \<in> set ?cs. dict_get (tcp_data s) (tcp_prefixed s k None) = Some ''1''} = ready_key p ` {..<n}"
    unfolding cs using assms by (auto simp: tcp_defs Let_def split: if_splits)
  moreover have "card (ready_key p ` {..<n}) = n" by (subst card_image) (auto simp: inj_on_def ready_key_inj)
  ultimately obtain ks where ks: "wait_for_keys_loop (\<lambda>k. tcp_prefixed s k None) n ''1'' ?cs [] [(tcp_data s, False), (tcp_data s, True)] = Some (Inr ks)"
    using wait_for_keys_complete [of 0 "[(tcp_data s, False), (tcp_data s, True)]" "[]" n ?cs "\<lambda>k. tcp_prefixed s k None" "''1''"] by auto
  moreover have "length ks = n" using wait_for_keys_sound [OF ks, of "\<lambda>_. True"] by simp
  ultimately show ?thesis by (simp add: tcp_wait_for_keys_def)
qed


subsection \<open>Summaries\<close>

definition sound_summary :: "string \<Rightarrow> string \<Rightarrow> nat \<Rightarrow> benchmark_result \<Rightarrow> bool" where
  "sound_summary name operation cnt r \<longleftrightarrow>
     br_name r = name \<and> br_operation r = operation \<and> br_count r = cnt \<and> 0 < br_avg_time_us r \<and>
     br_total_time_ms r * 1000 = real cnt * br_avg_time_us r \<and> br_ops_per_sec r * br_avg_time_us r = 10 ^ 6"

lemma summarize_sound:
  assumes "0 < n" "\<forall>i < n. 0 < elapsed i"
  shows "\<exists>r. summarize name operation n (measured elapsed n) = Inr r \<and> sound_summary name operation n r"
proof -
  have "0 < sum_list (measured elapsed n)"
    using assms unfolding measured_def interv_sum_list_conv_sum_set_nat by (intro sum_pos) auto
  moreover have "length (measured elapsed n) = n" "measured elapsed n \<noteq> []" using assms(1) by (simp_all add: measured_def)
  ultimately show ?thesis using assms(1)
    by (simp add: summarize_def mean_def float_div_def sound_summary_def Let_def)
qed

lemma summarize_empty: "summarize name operation 0 (measured elapsed 0) = Inl ValueError"
  by (simp add: summarize_def measured_def mean_def)

text \<open>A workload that ends with a sound summary from every store.\<close>

definition delivers :: "string \<Rightarrow> ('s \<Rightarrow> benchmark_result result \<times> 's) \<Rightarrow> string \<times> nat \<Rightarrow> bool" where
  "delivers name w spec \<longleftrightarrow> (\<forall>s. \<exists>r s'. w s = (Inr r, s') \<and> sound_summary name (fst spec) (snd spec) r)"

lemma run_workloads_deliver:
  "list_all2 (delivers name) ws specs \<Longrightarrow>
     \<exists>rs s'. run_workloads ws s = (Inr rs, s') \<and> list_all2 (\<lambda>r spec. sound_summary name (fst spec) (snd spec) r) rs specs"
proof (induction ws specs arbitrary: s rule: list_all2_induct)
  case (Cons w ws spec specs)
  obtain r s' where "w s = (Inr r, s')" "sound_summary name (fst spec) (snd spec) r" using Cons.hyps(1) unfolding delivers_def by blast
  moreover obtain rs s'' where "run_workloads ws s' = (Inr rs, s'')" "list_all2 (\<lambda>r spec. sound_summary name (fst spec) (snd spec) r) rs specs"
    using Cons.IH by blast
  ultimately show ?case by (auto simp: case_prod_beta)
qed simp

text \<open>The operations of a run, with how many calls each measures.\<close>

definition bench_operations :: "nat \<Rightarrow> (string \<times> nat) list" where
  "bench_operations n =
     [(''set'', n), (''get'', n), (''exists'', n), (''set_bytes(64B)'', n), (''set_bytes(1024B)'', n), (''set_bytes(4096B)'', n),
      (''get_bytes(64B)'', n), (''get_bytes(1024B)'', n), (''get_bytes(4096B)'', n), (''wait_for_key(existing)'', n),
      (''wait_for_key(async,10ms)'', min n 50), (''wait_for_keys(8)'', 10), (''wait_for_keys(16)'', 10), (''wait_for_keys(32)'', 10),
      (''wait_for_keys(64)'', 10)]"

lemma show_sizes: "show_nat 64 = ''64''" "show_nat 1024 = ''1024''" "show_nat 4096 = ''4096''" "show_nat 10 = ''10''" "show_nat 8 = ''8''"
  "show_nat 16 = ''16''" "show_nat 32 = ''32''"
  by (simp_all add: show_nat.simps digit_def char_of_def bit_0)

definition timed :: "bench_world \<Rightarrow> bool" where
  "timed w \<longleftrightarrow> (\<forall>b i. 0 < bw_elapsed w b i) \<and> (\<forall>i. fst (bw_race w i) \<le> snd (bw_race w i))"

context benchmarked_store
begin

lemma workloads_deliver:
  assumes "0 < n" "timed w"
    and wk: "\<And>k p el s. \<forall>i. 0 < el i \<Longrightarrow> \<exists>r. fst (snd (wait_for_keys k p el s)) = Inr r \<and> sound_summary (so_name store) (''wait_for_keys('' @ show_nat k @ '')'') 10 r"
  shows "list_all2 (delivers (so_name store)) (store_workloads store wait_for_keys prefix n w) (bench_operations n)"
proof -
  have el: "\<forall>i. 0 < bw_elapsed w b i" for b using assms(2) by (simp add: timed_def)
  have sm: "\<exists>r. summarize (so_name store) op m (measured (bw_elapsed w b) m) = Inr r \<and> sound_summary (so_name store) op m r" if "0 < m" for op m b
    using summarize_sound [OF that] el by blast
  have d: "delivers (so_name store) f (op, m)" if "\<And>s. fst (f s) = summarize (so_name store) op m (measured (bw_elapsed w b) m)" "0 < m" for f :: "'s \<Rightarrow> benchmark_result result \<times> 's" and op m b
    using that sm [OF that(2), of op b] unfolding delivers_def by (metis fst_conv snd_conv surj_pair)
  have k: "delivers (so_name store) (\<lambda>s. snd (wait_for_keys k p (bw_elapsed w b) s)) (''wait_for_keys('' @ show_nat k @ '')'', 10)" for k p b
    using wk [OF el] unfolding delivers_def by (metis fst_conv snd_conv surj_pair)
  have gb: "fst (snd (benchmark_get_bytes store n p sz el s)) = summarize (so_name store) (''get_bytes('' @ show_nat sz @ ''B)'') n (measured el n)" for p sz el s
    using get_bytes_hits [of n p sz el s] by (simp add: benchmark_get_bytes_def Let_def)
  have we: "fst (snd (benchmark_wait_for_key_existing store race n p el s)) = summarize (so_name store) ''wait_for_key(existing)'' n (measured el n)" for race p el s
    using wait_existing_hits [of race n p el s] by (simp add: benchmark_wait_for_key_existing_def Let_def)
  have wa: "fst (snd (benchmark_wait_for_key_async store (bw_race w) m p 10 el s)) = summarize (so_name store) ''wait_for_key(async,10ms)'' m (measured el m)" for m p el s
    using wait_async_answers [of "[0..<m]" "bw_race w" p s] assms(2)
    by (auto simp: benchmark_wait_for_key_async_def Let_def timed_def show_sizes)
  show ?thesis unfolding store_workloads_def bench_operations_def
    using assms(1) k [of 8] k [of 16] k [of 32] k [of 64]
    by (auto simp: show_sizes benchmark_set_def benchmark_get_def benchmark_exists_def benchmark_set_bytes_def Let_def gb we wa intro!: d)
qed

lemma no_ops_raises: "fst (run_workloads (store_workloads store wait_for_keys prefix 0 w) s) = Inl ValueError"
  by (simp add: store_workloads_def benchmark_set_def summarize_empty)

end


lemma etcd_keys_hit: "\<exists>kss. fst (benchmark_wait_for_keys_etcd n p el s) = Inr kss \<and> map length kss = replicate 10 n"
proof -
  let ?s = "fold (\<lambda>i. etcd_set (ready_key p i) ''1'' None) [0..<n] s"
  have "i < n \<Longrightarrow> etcd_get (ready_key p i) None ?s = Some ''1''" for i
    by (induction n) (auto simp: etcd_defs dict_simps ready_key_inj less_Suc_eq)
  then obtain ks where "etcd_wait_for_keys (p @ ''/rank:*/ready'') n ''1'' None 10 quiet_traffic ?s = Inr ks" "length ks = n"
    using etcd_wait_for_keys_there [of n p ?s] by blast
  then show ?thesis by (auto simp: benchmark_wait_for_keys_etcd_def Let_def eval_nat_numeral)
qed

lemma tcp_keys_hit: "\<exists>kss. fst (benchmark_wait_for_keys_tcp n p el s) = Inr kss \<and> map length kss = replicate 10 n"
proof -
  let ?s = "fold (\<lambda>key. tcp_set key ''1'' None) (map (ready_key p) [0..<n]) s"
  have "i < n \<Longrightarrow> tcp_get (ready_key p i) None ?s = Some ''1''" for i
    by (induction n) (auto simp: tcp_defs Let_def dict_simps ready_key_inj less_Suc_eq)
  then obtain ks where "tcp_wait_for_keys (p @ ''/rank:*/ready'') n ''1'' (Some (map (ready_key p) [0..<n])) None ?s
      [(tcp_data ?s, False), (tcp_data ?s, True)] = Some (Inr ks)" "length ks = n"
    using tcp_wait_for_keys_there [of n p ?s] by blast
  then show ?thesis by (auto simp: benchmark_wait_for_keys_tcp_def Let_def eval_nat_numeral)
qed

lemma etcd_keys_deliver:
  assumes "\<forall>i. 0 < el i"
  shows "\<exists>r. fst (snd (benchmark_wait_for_keys_etcd k p el s)) = Inr r \<and> sound_summary (so_name etcd_ops) (''wait_for_keys('' @ show_nat k @ '')'') 10 r"
  using etcd_keys_hit [of k p el s] summarize_sound [of 10 el "''EtcdStore''"] assms
  by (auto simp: benchmark_wait_for_keys_etcd_def Let_def etcd_ops_def)

lemma tcp_keys_deliver:
  assumes "\<forall>i. 0 < el i"
  shows "\<exists>r. fst (snd (benchmark_wait_for_keys_tcp k p el s)) = Inr r \<and> sound_summary (so_name tcp_ops) (''wait_for_keys('' @ show_nat k @ '')'') 10 r"
  using tcp_keys_hit [of k p el s] summarize_sound [of 10 el "''TorchTCPStore''"] assms
  by (auto simp: benchmark_wait_for_keys_tcp_def Let_def tcp_ops_def)

abbreviation sound_run :: "string \<Rightarrow> nat \<Rightarrow> benchmark_result list \<Rightarrow> bool" where
  "sound_run name n results \<equiv> list_all2 (\<lambda>r spec. sound_summary name (fst spec) (snd spec) r) results (bench_operations n)"

lemma etcd_run_delivers:
  assumes "0 < n" "timed w"
  shows "\<exists>rs. fst (run_etcd_benchmark n w data) = Inr rs \<and> sound_run ''EtcdStore'' n rs"
proof -
  have "list_all2 (delivers (so_name etcd_ops)) (store_workloads etcd_ops benchmark_wait_for_keys_etcd (''bench/etcd/'' @ bw_now w) n w) (bench_operations n)"
    by (rule bench_etcd.workloads_deliver [OF assms]) (rule etcd_keys_deliver)
  from run_workloads_deliver [OF this, of "etcd_open False ''default'' ''tensorbus'' data"] show ?thesis
    by (auto simp: run_etcd_benchmark_def Let_def etcd_ops_def)
qed

lemma tcp_run_delivers:
  assumes "0 < n" "timed w"
  shows "\<exists>rs. run_tcp_benchmark n w = Inr rs \<and> sound_run ''TorchTCPStore'' n rs"
proof -
  have "list_all2 (delivers (so_name tcp_ops)) (store_workloads tcp_ops benchmark_wait_for_keys_tcp (''bench/tcp/'' @ bw_now w) n w) (bench_operations n)"
    by (rule bench_tcp.workloads_deliver [OF assms]) (rule tcp_keys_deliver)
  from run_workloads_deliver [OF this, of "\<lparr>kv_namespace = ''default'', kv_component = ''tensorbus'', tcp_data = [], tcp_known_keys = []\<rparr>"]
  show ?thesis by (auto simp: run_tcp_benchmark_def Let_def tcp_ops_def)
qed

lemma no_ops_runs: "fst (run_etcd_benchmark 0 w data) = Inl ValueError" "run_tcp_benchmark 0 w = Inl ValueError"
proof -
  show "fst (run_etcd_benchmark 0 w data) = Inl ValueError"
    using bench_etcd.no_ops_raises [of benchmark_wait_for_keys_etcd "''bench/etcd/'' @ bw_now w" w "etcd_open False ''default'' ''tensorbus'' data"]
    by (cases "run_workloads (store_workloads etcd_ops benchmark_wait_for_keys_etcd (''bench/etcd/'' @ bw_now w) 0 w) (etcd_open False ''default'' ''tensorbus'' data)")
      (simp add: run_etcd_benchmark_def Let_def)
  show "run_tcp_benchmark 0 w = Inl ValueError" unfolding run_tcp_benchmark_def Let_def by (rule bench_tcp.no_ops_raises)
qed

subsection \<open>The comparison\<close>

lemma sound_run_operations: "sound_run name n rs \<Longrightarrow> map br_operation rs = map fst (bench_operations n) \<and> (\<forall>r \<in> set rs. br_name r = name)"
  unfolding sound_summary_def list_all2_conv_all_nth by (auto simp: in_set_conv_nth intro!: nth_equalityI)

lemma distinct_operations: "distinct (map fst (bench_operations n))"
  by (simp add: bench_operations_def)

lemma fold_dict_set_new:
  "distinct (map f rs) \<Longrightarrow> \<forall>r \<in> set rs. f r \<notin> fst ` set d \<Longrightarrow> fold (\<lambda>r d. dict_set d (f r) r) rs d = d @ map (\<lambda>r. (f r, r)) rs"
proof (induction rs arbitrary: d)
  case (Cons r rs)
  have "k \<notin> fst ` set d \<Longrightarrow> dict_set d k v = d @ [(k, v)]" for k and v :: 'b by (induction d) auto
  then have "fold (\<lambda>r d. dict_set d (f r) r) (r # rs) d = fold (\<lambda>r d. dict_set d (f r) r) rs (d @ [(f r, r)])" using Cons.prems(2) by simp
  also have "\<dots> = (d @ [(f r, r)]) @ map (\<lambda>r. (f r, r)) rs" using Cons.prems by (intro Cons.IH) (auto, metis imageI)
  finally show ?case by simp
qed simp

lemma by_operation_run:
  assumes "sound_run name n rs" "\<forall>r \<in> set before \<union> set after. br_name r \<noteq> name"
  shows "by_operation name (before @ rs @ after) = map (\<lambda>r. (br_operation r, r)) rs"
proof -
  have "filter (\<lambda>r. br_name r = name) (before @ rs @ after) = rs"
    using sound_run_operations [OF assms(1)] assms(2) by (auto simp: filter_id_conv filter_empty_conv)
  then show ?thesis using fold_dict_set_new [of br_operation rs "[]"] sound_run_operations [OF assms(1)] distinct_operations [of n]
    by (simp add: by_operation_def)
qed

lemma comparison_rows:
  assumes "sound_run ''EtcdStore'' n es" "sound_run ''TorchTCPStore'' n ts"
  shows "print_comparison (es @ ts) =
    map (\<lambda>(e, t). (br_operation e, compare_averages (br_avg_time_us e) (br_avg_time_us t))) (zip es ts)"
proof -
  note E = sound_run_operations [OF assms(1)] and T = sound_run_operations [OF assms(2)]
  have bo: "by_operation ''EtcdStore'' (es @ ts) = map (\<lambda>r. (br_operation r, r)) es" "by_operation ''TorchTCPStore'' (es @ ts) = map (\<lambda>r. (br_operation r, r)) ts"
    using by_operation_run [OF assms(1), of "[]" ts] by_operation_run [OF assms(2), of es "[]"] E T by auto
  have len: "length es = length ts" "es \<noteq> []" "ts \<noteq> []"
    using E T by (metis length_map, auto simp: bench_operations_def)
  have "dict_get (map (\<lambda>r. (br_operation r, r)) ts) (br_operation (es ! i)) = Some (ts ! i)" if "i < length es" for i
  proof -
    have "br_operation (es ! i) = br_operation (ts ! i)" using E T len(1) that by (metis nth_map)
    moreover have "distinct (map fst (map (\<lambda>r. (br_operation r, r)) ts))" using T distinct_operations [of n] by (simp add: comp_def)
    ultimately show ?thesis using that len(1) by (intro map_of_is_SomeI) auto
  qed
  then have "map (\<lambda>e. dict_get (map (\<lambda>r. (br_operation r, r)) ts) (br_operation e)) es = map Some ts"
    using len(1) by (intro nth_equalityI) auto
  moreover have "map (\<lambda>e. f (br_operation e)) es = map Some ts \<Longrightarrow>
      List.map_filter (\<lambda>(op, e). map_option (\<lambda>t. (op, compare_averages (br_avg_time_us e) (br_avg_time_us t))) (f op)) (map (\<lambda>r. (br_operation r, r)) es) =
      map (\<lambda>(e, t). (br_operation e, compare_averages (br_avg_time_us e) (br_avg_time_us t))) (zip es ts)" for f
  proof (induction es arbitrary: ts)
    case (Cons e es)
    then show ?case by (cases ts) (auto simp: List.map_filter_def)
  qed (simp add: List.map_filter_def)
  ultimately show ?thesis using len(2,3) by (simp add: print_comparison_def bo)
qed


subsection \<open>The server's other keys\<close>

definition outside_kept :: "(string, string) dict \<Rightarrow> etcd_store \<Rightarrow> bool" where
  "outside_kept data s \<longleftrightarrow> kv_namespace s = ''default'' \<and> (\<forall>k. \<not> has_prefix ''default/'' k \<longrightarrow> dict_get (etcd_data s) k = dict_get data k)"

lemma kept_set: "outside_kept data s \<Longrightarrow> outside_kept data (etcd_set k v c s)"
  by (auto simp: outside_kept_def etcd_set_def dict_simps prefixed_eq kv_client.defs has_prefix_def)

lemma kept_fold: "outside_kept data s \<Longrightarrow> (\<And>x s. outside_kept data s \<Longrightarrow> outside_kept data (f x s)) \<Longrightarrow> outside_kept data (fold f xs s)"
  by (induction xs arbitrary: s) auto

lemma kept_ops:
  "outside_kept data s \<Longrightarrow> outside_kept data (so_set etcd_ops k v s)" "outside_kept data s \<Longrightarrow> outside_kept data (so_set_bytes etcd_ops k v s)"
  using kept_set by (simp_all add: etcd_ops_def etcd_set_bytes_def etcd_set_def)

lemma kept_async: "outside_kept data s \<Longrightarrow> outside_kept data (snd (wait_async_loop etcd_ops race p js s))"
  by (induction js arbitrary: s) (auto simp: Let_def kept_ops split: sum.splits prod.splits, metis kept_ops(1) snd_conv)

lemma kept_run:
  "outside_kept data s \<Longrightarrow> \<forall>w \<in> set ws. \<forall>s. outside_kept data s \<longrightarrow> outside_kept data (snd (w s)) \<Longrightarrow> outside_kept data (snd (run_workloads ws s))"
proof (induction ws arbitrary: s)
  case (Cons w ws)
  have "outside_kept data (snd (w s))" using Cons.prems by auto
  then show ?case using Cons.IH [of "snd (w s)"] Cons.prems(2) by (cases "w s") (auto simp: Let_def split: sum.splits prod.splits)
qed simp

lemma kept_workloads:
  assumes "f \<in> set (store_workloads etcd_ops benchmark_wait_for_keys_etcd p n w)" "outside_kept data s"
  shows "outside_kept data (snd (f s))"
  using assms kept_async [OF assms(2)]
  by (auto simp: store_workloads_def benchmark_set_def benchmark_get_def benchmark_exists_def benchmark_set_bytes_def
      benchmark_get_bytes_def benchmark_wait_for_key_existing_def benchmark_wait_for_key_async_def benchmark_wait_for_keys_etcd_def
      fill_def fill_bytes_def Let_def case_prod_beta intro!: kept_fold kept_ops kept_set)

lemma dict_get_delete_prefix: "dict_get (delete_prefix p data) k = (if has_prefix p k then None else dict_get data k)"
  by (induction data) (auto simp: delete_prefix_def)

section \<open>Properties\<close>

text \<open>What the benchmark means to measure: reads of keys that are there, waits that end.\<close>

definition measures_hits :: "'s store_ops \<Rightarrow> (nat \<Rightarrow> nat \<times> nat) \<Rightarrow> nat \<Rightarrow> string \<Rightarrow> nat \<Rightarrow> (nat \<Rightarrow> real) \<Rightarrow> 's \<Rightarrow> bool" where
  "measures_hits store race n p sz el s \<longleftrightarrow>
     fst (benchmark_get store n p el s) = map (\<lambda>i. Some (bench_value i)) [0..<n] \<and>
     fst (benchmark_exists store n p el s) = replicate n True \<and>
     fst (benchmark_get_bytes store n p sz el s) = Inr (replicate n (Some (bench_data sz))) \<and>
     fst (benchmark_wait_for_key_existing store race n p el s) = Inr (map bench_value [0..<n]) \<and>
     (\<exists>rs. fst (benchmark_wait_for_key_async store race n p sz el s) = Inr rs \<and> length rs = n)"

context benchmarked_store
begin

lemma store_measures_hits: "\<forall>i < n. fst (race i) \<le> snd (race i) \<Longrightarrow> measures_hits store race n p sz el s"
  using wait_async_answers [of "[0..<n]" race p s]
  by (auto simp: measures_hits_def get_hits exists_hits get_bytes_hits wait_existing_hits benchmark_wait_for_key_async_def)

end

text \<open>
  On both stores the benchmark measures what it says: whatever is in the store before, every
  timed \<open>get\<close>, \<open>exists\<close> and \<open>get_bytes\<close> finds the key with the value written, every
  \<open>wait_for_key\<close> of an existing key answers with its value, every wait for a key written
  meanwhile answers, wherever in the wait the write lands before the timeout, and each of the ten
  \<open>wait_for_keys\<close> calls answers with exactly the number of keys it asked for.
\<close>

theorem kv_benchmark_measures_hits:
  assumes "\<forall>i < n. fst (race i) \<le> snd (race i)"
  shows "measures_hits tcp_ops race n p sz el s \<and> measures_hits etcd_ops race n p sz el e \<and>
    (\<exists>kss. fst (benchmark_wait_for_keys_tcp n p el s) = Inr kss \<and> map length kss = replicate 10 n) \<and>
    (\<exists>kss. fst (benchmark_wait_for_keys_etcd n p el e) = Inr kss \<and> map length kss = replicate 10 n)"
  using bench_tcp.store_measures_hits [OF assms] bench_etcd.store_measures_hits [OF assms] tcp_keys_hit etcd_keys_hit by blast

theorem kv_benchmark_measures_hits_witness:
  "measures_hits etcd_ops (\<lambda>i. (i, 3)) 4 ''b'' 64 (\<lambda>_. 1) (etcd_open False ''default'' ''tensorbus'' [])"
proof -
  have "\<forall>i < 4. fst ((\<lambda>i. (i, 3)) i) \<le> snd ((\<lambda>i. (i, 3 :: nat)) i)" by (auto simp: eval_nat_numeral less_Suc_eq)
  from kv_benchmark_measures_hits [OF this] show ?thesis by blast
qed

text \<open>
  C35. The benchmark as a whole. With at least one operation, times above zero and no write later
  than its wait's timeout, both runs end with a result for each of the same fifteen operations,
  in the same order and over the same number of calls, in which average, total and operations per
  second agree; so the comparison has one row per operation, and it calls etcd faster exactly
  when its average is the smaller one. With no operations neither run has a result: the mean of
  no times raises, on a reachable server too.
\<close>

theorem kv_benchmark_complete:
  assumes "0 < n" "timed we" "timed wt"
  shows "(\<exists>es ts rows. kv_bench_main Both n we wt data = (es @ ts, rows) \<and> sound_run ''EtcdStore'' n es \<and> sound_run ''TorchTCPStore'' n ts \<and>
      map fst rows = map fst (bench_operations n) \<and>
      (\<forall>i < length rows. fst (snd (rows ! i)) = (if br_avg_time_us (es ! i) < br_avg_time_us (ts ! i) then ''etcd'' else ''TCPStore''))) \<and>
    kv_bench_main backend 0 we wt data = ([], [])"
proof -
  obtain es ts where es: "fst (run_etcd_benchmark n we data) = Inr es" "sound_run ''EtcdStore'' n es"
    and ts: "run_tcp_benchmark n wt = Inr ts" "sound_run ''TorchTCPStore'' n ts"
    using etcd_run_delivers [OF assms(1,2)] tcp_run_delivers [OF assms(1,3)] by blast
  let ?rows = "map (\<lambda>(e, t). (br_operation e, compare_averages (br_avg_time_us e) (br_avg_time_us t))) (zip es ts)"
  have len: "length es = length (bench_operations n)" "length ts = length (bench_operations n)"
    using es(2) ts(2) by (auto dest: list_all2_lengthD)
  then have "es @ ts \<noteq> []" by (auto simp: bench_operations_def)
  then have "kv_bench_main Both n we wt data = (es @ ts, ?rows)"
    using es(1) ts(1) comparison_rows [OF es(2) ts(2)] by (simp add: kv_bench_main_def Let_def)
  moreover have "map fst ?rows = map fst (bench_operations n)"
    using sound_run_operations [OF es(2)] len by (simp add: comp_def case_prod_beta map_fst_zip_take flip: map_map [where f = br_operation and g = fst, unfolded comp_def])
  moreover have "\<forall>i < length ?rows. fst (snd (?rows ! i)) = (if br_avg_time_us (es ! i) < br_avg_time_us (ts ! i) then ''etcd'' else ''TCPStore'')"
    by (simp add: compare_averages_def Let_def)
  moreover have "kv_bench_main backend 0 we wt data = ([], [])" by (simp add: kv_bench_main_def no_ops_runs Let_def)
  ultimately show ?thesis using es(2) ts(2) by blast
qed

theorem kv_benchmark_complete_witness:
  "\<exists>es ts rows. kv_bench_main Both 500 \<lparr>bw_elapsed = \<lambda>_ _. 1, bw_race = \<lambda>_. (2, 100), bw_now = ''1.5''\<rparr>
     \<lparr>bw_elapsed = \<lambda>_ _. 2, bw_race = \<lambda>_. (1, 100), bw_now = ''9.5''\<rparr> [] = (es @ ts, rows) \<and> map fst rows = map fst (bench_operations 500)"
proof -
  have "timed \<lparr>bw_elapsed = \<lambda>_ _. 1, bw_race = \<lambda>_. (2, 100), bw_now = ''1.5''\<rparr>" "timed \<lparr>bw_elapsed = \<lambda>_ _. 2, bw_race = \<lambda>_. (1, 100), bw_now = ''9.5''\<rparr>"
    by (simp_all add: timed_def)
  from kv_benchmark_complete [OF _ this, of 500 "[]", THEN conjunct1] show ?thesis by (simp del: list_all2_conv_all_nth) blast
qed

text \<open>
  Running the benchmark is safe for other users of the etcd server: however the run ends,
  every key outside the namespace \<open>default\<close> has the value it had, and after a complete run no key
  of that namespace is left, those of the benchmark and all that were there before.
\<close>

theorem etcd_benchmark_frame:
  "(\<not> has_prefix ''default/'' k \<longrightarrow> dict_get (snd (run_etcd_benchmark n w data)) k = dict_get data k) \<and>
   (has_prefix ''default/'' k \<longrightarrow> fst (run_etcd_benchmark n w data) = Inr rs \<longrightarrow> dict_get (snd (run_etcd_benchmark n w data)) k = None)"
proof -
  let ?ws = "store_workloads etcd_ops benchmark_wait_for_keys_etcd (''bench/etcd/'' @ bw_now w) n w" and ?s = "etcd_open False ''default'' ''tensorbus'' data"
  have "outside_kept data ?s" by (simp add: outside_kept_def etcd_open_def)
  then have "outside_kept data (snd (run_workloads ?ws ?s))" by (rule kept_run) (blast intro: kept_workloads)
  then show ?thesis
    by (cases "run_workloads ?ws ?s"; cases "fst (run_workloads ?ws ?s)")
      (auto simp: run_etcd_benchmark_def Let_def etcd_close_def dict_get_delete_prefix outside_kept_def)
qed

theorem etcd_benchmark_frame_witness:
  "dict_get (snd (run_etcd_benchmark 500 \<lparr>bw_elapsed = \<lambda>_ _. 1, bw_race = \<lambda>_. (2, 100), bw_now = ''1.5''\<rparr>
     [(''1f2e3d4c/tensorbus/pair:a'', ''1'')])) ''1f2e3d4c/tensorbus/pair:a'' = Some ''1''"
  using etcd_benchmark_frame [of "''1f2e3d4c/tensorbus/pair:a''" 500 _ "[(''1f2e3d4c/tensorbus/pair:a'', ''1'')]"]
  by (simp add: has_prefix_def)

text \<open>
  The printed percentages of the two stores are not on one scale: when etcd is faster the
  number says by how much it is faster, the excess of the other's time over its own, and it has no
  bound; when TCPStore is faster it is the share of etcd's time that TCPStore saves, at most 100,
  less than the excess of etcd's time over its own. Ten times faster reads 900 for one and 90 for
  the other.
\<close>

theorem comparison_percentages:
  assumes "0 < e" "0 < t"
  shows "compare_averages e t = (if e < t then (''etcd'', Some ((t - e) / e * 100)) else (''TCPStore'', Some ((e - t) / e * 100))) \<and>
    (t < e \<longrightarrow> (e - t) / e * 100 < 100 \<and> (e - t) / e * 100 < (e - t) / t * 100)"
proof -
  have "(e - t) / e * 100 < (e - t) / t * 100" if "t < e" using assms that by (intro mult_strict_right_mono divide_strict_left_mono) auto
  moreover have "(e - t) / e * 100 < 100" using assms by (simp add: field_simps)
  moreover have "compare_averages e t = (if e < t then (''etcd'', Some ((t - e) / e * 100)) else (''TCPStore'', Some ((e - t) / e * 100)))"
    using assms by (simp add: compare_averages_def Let_def abs_if field_simps)
  ultimately show ?thesis by simp
qed

theorem comparison_percentages_witness:
  "compare_averages 10 100 = (''etcd'', Some 900) \<and> compare_averages 100 10 = (''TCPStore'', Some 90)"
  using comparison_percentages [of 10 100] comparison_percentages [of 100 10] by simp

end
