(* ===== verification/Spec2Isabelle.thy ===== *)
theory Spec2Isabelle
  imports Redistribution Queue_Processes Bucket_Comm Client_Properties Semaphores
    Agent_Typing Gather_Broadcast Weight_Sync_Run Launch Benchmarks Transfer_Benchmark KV_Benchmark
begin

text \<open>
  A verification development of Etha (\<^verbatim>\<open>src/src/etha\<close>), a library that redistributes a
  sharded tensor from one group of processes to another, independently started one.

  \<^bold>\<open>The program.\<close> The communication core (\<^verbatim>\<open>comm/\<close>) computes which cell of which
  source rank goes to which cell of which target rank (\<^verbatim>\<open>get_m2m_map.py\<close>), turns these
  routes into chunks on every rank (\<^verbatim>\<open>get_chunks.py\<close>), bundles chunks into buckets
  (\<^verbatim>\<open>get_buckets.py\<close>) and runs the buckets (\<^verbatim>\<open>comm_methods.py\<close>, \<^verbatim>\<open>ir.py\<close>,
  \<^verbatim>\<open>transfer.py\<close>). The tensor bus (\<^verbatim>\<open>tensor_bus/\<close>) lets worker processes use this
  through an agent: a client (\<^verbatim>\<open>client.py\<close>, \<^verbatim>\<open>bootstrap.py\<close>) puts commands into an
  LMDB queue (\<^verbatim>\<open>command_queue.py\<close>) and waits on a named semaphore; the agent
  (\<^verbatim>\<open>agent.py\<close>) takes them out, meets the other agents through a key-value store
  (\<^verbatim>\<open>kvstore/\<close>), registers tensors, executes transfers and answers through a state
  database. An example (\<^verbatim>\<open>examples/vllm_weight_sync\<close>) syncs the weights of a trainer into a
  vLLM server over the bus, and \<^verbatim>\<open>bench/\<close> measures both.

  \<^bold>\<open>Theories and sources.\<close>

  \<^item> \<open>Etha_Prelude\<close>: Python exceptions and results, dictionaries, index grids.
  \<^item> \<open>Pg_Utils\<close>: the process-group cache (\<^verbatim>\<open>pg_utils.py\<close>), with the locale \<open>group_cache\<close>.
  \<^item> \<open>Comm_IR\<close>, \<open>Comm_Utils\<close>: routes, chunks and buckets as records (\<^verbatim>\<open>ir.py\<close>), slicing
    (\<^verbatim>\<open>utils.py\<close>).
  \<^item> \<open>M2M_Trace\<close>, \<open>Partial_Shadows\<close>, \<open>M2M_Map\<close>: \<open>get_m2m_map\<close>, over the parameter
    \<open>dtensor_api\<close> for PyTorch's DTensor and its documented behaviour \<open>dtensor_ok\<close>;
    \<open>DTensor_Reference\<close> is a concrete instance for the witnesses.
  \<^item> \<open>Chunks\<close>, \<open>Buckets\<close>: \<open>m2m_to_chunks\<close> and \<open>chunk_to_bucket_ops\<close>.
  \<^item> \<open>Tensor_Memory\<close>, \<open>Bucket_Exec\<close>: storages, views and their bytes, and \<open>prepare\<close>,
    \<open>launch\<close>, \<open>is_complete\<close> and \<open>finalize\<close> of chunks and buckets on them.
    \<open>Bucket_Transfer\<close>, \<open>Channel_Transfer\<close> and \<open>Route_Delivery\<close> follow the bytes through one
    bucket, through a channel and from the routes of a map into the target tensor;
    \<open>Redistribution\<close> composes them with \<open>get_m2m_map\<close> into one statement on all ranks.
  \<^item> \<open>Gather_Broadcast\<close>: \<open>gather_broadcast_comm\<close> (\<^verbatim>\<open>comm_methods.py\<close>) and the patch of
    PyTorch's CUDA unpickling (\<^verbatim>\<open>tensor_bus/utils.py\<close>).
  \<^item> \<open>Bucket_Comm\<close>: the pipeline \<open>bucket_comm\<close> in its sequential and overlapping mode.
  \<^item> \<open>Command_Queue\<close>, \<open>Queue_Processes\<close>, \<open>Queue_Lifecycle\<close>: the queue's operations as
    functions on database and semaphores, their interleaving by many processes as a step
    relation, and opening and closing over named semaphores, files and handles. The locale
    \<open>bounded_fifo\<close> is interpreted on the queue itself and on a handle shared by processes.
  \<^item> \<open>KV_Store\<close>: both store backends, as interpretations of the locale \<open>key_value_store\<close>;
    \<open>Text_Codec\<close>: the texts kept in the store.
  \<^item> \<open>Agent_State\<close>, \<open>Pair_Rendezvous\<close>, \<open>Registration\<close>, \<open>Transfers\<close>: the agent: its state
    as a record, one definition per handler and helper, the dispatch and one step of the main
    loop. \<open>Pair_Properties\<close>, \<open>Round_Properties\<close>, \<open>Agent_Properties\<close> and \<open>Semaphores\<close> hold
    what it guarantees, \<open>Agent_Typing\<close> the type invariant of its tables; the locale
    \<open>handler_frame\<close> lifts what every small operation keeps to whole handlers.
  \<^item> \<open>Client\<close>, \<open>Client_Properties\<close>: the client and batch handlers, running together with the
    queue and the agent's loop. \<open>Startup\<close>: how agent and client start, meet and close.
  \<^item> \<open>Weight_Sync\<close>: the example's name tables, converters and registrations on the trainer's and
    on the worker's side (\<^verbatim>\<open>common.py\<close>, \<^verbatim>\<open>trainer.py\<close>, \<^verbatim>\<open>vllm_server.py\<close>); \<open>Weight_Sync_Run\<close>:
    its start and clean-up (\<^verbatim>\<open>agent.py\<close>) and the three control loops (also \<^verbatim>\<open>chat_client.py\<close>) as
    steps on one control store; \<open>Launch\<close>: the launcher (\<^verbatim>\<open>launch.py\<close>), the environments it gives to
    its children, and the children's \<open>main\<close> functions as sequences of calls.
  \<^item> \<open>Benchmarks\<close>, \<open>Transfer_Benchmark\<close>: the byte count, the Partial groups, the sweep, the check,
    the ideal bandwidth and the results of \<^verbatim>\<open>bench/transfer_benchmark.py\<close>. \<open>KV_Benchmark\<close>:
    \<^verbatim>\<open>bench/kvstore_benchmark.py\<close>; what its workloads rely on is the locale \<open>benchmarked_store\<close>,
    interpreted on both stores. The measured times are inputs, real numbers in place of floats.

  \<^bold>\<open>State and effects.\<close> Stateful code is explicit state passing; an exception is a value of
  \<open>py_error\<close>, a call that blocks has the value \<open>Waiting\<close>. An agent's effects on the outside
  (barriers, transfers, store signals, error records, wake-ups) are kept in order in its trace. Code outside
  the repository is a parameter: DTensor, dtype conversion and collective reduction
  (\<open>torch\<close>), the message codec, pickling, what an \<open>all_gather_object\<close> returns, what the
  network delivers and when, and what other clients put into a store during a wait. Named predicates state what
  is relied on, and witnesses instantiate them.

  \<^bold>\<open>What the theorems show.\<close>

  \<^item> Routing: every target cell is delivered by exactly one route, from a source cell at the
    same position; sends and receives of the tracing exchange match; Partial sources are
    expanded to exactly their connected components; when the map is refused; and, without any
    bound on the sizes, a route names the source cell meant exactly when its tag fits a float.
  \<^item> Delivery: on every rank the chunks are exactly the ones the routes ask for; both ends of a
    channel cut the same messages, independently of other channels; a bucket carries the bytes
    of its source regions into its target regions and touches nothing else; composed, what the
    map routes arrives in the target tensor, and end to end, when the wire dtype is the target's,
    every target rank that runs its buckets holds its shard of the source tensor. Buckets whose
    layout cannot be assembled raise, exactly those. Gather and broadcast gives the same shards.
  \<^item> The pipeline keeps the order of every channel and its bound on buckets in flight, and
    runs for ever exactly when it may not have a bucket in flight.
  \<^item> The queue is a bounded first-in first-out queue, for one user, under interleaving, and for
    processes that come and go.
  \<^item> The store returns the last write; a wait registers its watch before it checks, so it misses
    no update made before, between or after, and times out only when there was none in time;
    waiting for keys returns the keys asked for.
  \<^item> The agents build the same groups and maps from either side; two ranks attempt the pairs
    pending on both in one order, that of the log; a side is ready exactly when all its ranks
    registered.
  \<^item> A dual batch runs its rounds at most once, ascending, and exactly when both roles asked;
    cleanup and failed rounds fail closed, every error recorded before its client is woken;
    stale commands change nothing; a client that waits for its command has been woken when the
    command is done, or its semaphore is kept with what it waits for; a client learns the live
    generation and the completed rounds.
  \<^item> The agent's tables stay well formed: pairs and batches agree in their tensors, types and
    pair names, and generations only grow, from start-up on and through every step.
  \<^item> In the example both sides open the same pairs and register the same tensors in the same
    order; each expert is loaded once per replica into its own rows; the server receives weights
    only while generation is paused, but a receive it gave up may complete afterwards; versions
    only grow, and the server becomes ready again as long as its task survives; the clean-up frees
    a queue from whatever an earlier run left. The launcher gives every worker an agent of its
    own, on its files, and on its GPU exactly when the launcher's environment does not renumber
    the GPUs; once the trainer has ended, it terminates the other children, waits and kills the
    ones that outlive the grace period.
  \<^item> The store benchmark measures hits on both stores, ends with the same operations for both and
    leaves other namespaces alone; the transfer benchmark's sweep is well formed, its check accepts
    exactly the right shards and its ideal bandwidth depends on the layout alone.
  \<^item> Error theorems describe what fails and when; several are defects of the code.

  \<^bold>\<open>Bounds and fuel.\<close> Queue positions are unsigned 64-bit numbers, so the queue theorems ask
  for fewer than \<open>2 ^ 64\<close> messages; slot keys differ from the pointer keys for capacities up to
  \<open>2 ^ 56\<close> (the default is 50000). Cell tags are 32-bit floats and exact below \<open>2 ^ 24\<close>.
  \<open>consume_completion_log\<close> takes fuel, one unit per log entry; the log is finite, and an agent's
  step uses the fuel it is given for each poll. \<open>comm_loop\<close> is a partial function whose value
  None is proved to mean that the loop never ends. The network's answers to \<open>is_completed\<close> are
  a finite list, after which everything has completed.

  In \<open>Gather_Broadcast\<close> the depth of \<open>patched_rebuild_cuda_tensor\<close> is the interpreter's stack;
  one frame is proved enough.

  \<^bold>\<open>Not modelled.\<close> \<open>setup_ptrace\<close>; CUDA streams (a recorded event is a flag); sockets, retries
  and I/O errors of the stores and of LMDB; the agent with the etcd backend (its handlers run on
  the TCP store); logging. Of the example: loading and running the models and vLLM's command line. Of the
  benchmarks: what CUDA events and the profiler record, plots and printed tables. The abstract methods of
  \<^verbatim>\<open>kvstore/base.py\<close> have no body; the locale \<open>key_value_store\<close> states their contract. Tests and
  documentation are not part of the program.
\<close>

end
